(* ===== verification/Mesh_Prelude.thy ===== *)
theory Mesh_Prelude
  imports Main "HOL-Library.Word" "HOL-Library.Char_ord" "HOL-Library.List_Lexorder"
begin

text \<open>
  Shared vocabulary of the development.

  \<^item> Machine integers are words of the width the Rust source uses; the saturating operations the
    source calls (\<open>u64::saturating_add\<close>, \<open>u64::saturating_sub\<close>, \<open>u32::saturating_add\<close>) are
    defined here once for every width.
  \<^item> A Rust \<open>String\<close> is its UTF-8 byte list (\<open>string\<close>); \<open>Ord\<close> on strings is byte-wise and
    lexicographic, which is the order \<open>List_Lexorder\<close> with \<open>Char_ord\<close> puts on \<open>string\<close>.
  \<^item> \<open>std::cmp::Ordering\<close> and \<open>Ordering::then\<close>.
  \<^item> \<open>std::collections::BTreeMap\<close> is an association list that \<open>bt_ok\<close> keeps strictly sorted, so
    that iteration (the list itself) is in key order; \<open>HashMap\<close> is an association list with
    distinct keys whose order stands for the (unspecified) iteration order.
  \<^item> the interface \<open>kv_map\<close> that both maps satisfy, interpreted for each of them.
\<close>

unbundle bit_operations_syntax

section \<open>Automation shared by the components\<close>

named_theorems cmp_simps "three-way comparison"
named_theorems map_simps "lookup after an update of a map"
named_theorems map_ok "every map operation keeps the map well formed"

section \<open>Machine integers\<close>

type_synonym u8 = "8 word"
type_synonym u16 = "16 word"
type_synonym u32 = "32 word"
type_synonym u64 = "64 word"

text \<open>An IPv4 address is its 32-bit value (\<open>u32::from(Ipv4Addr)\<close>), an IPv6 address its 128-bit value.\<close>

type_synonym ipv4 = "32 word"
type_synonym ipv6 = "128 word"

datatype IpAddr = V4 ipv4 | V6 ipv6

text \<open>\<open>Ipv4Addr::new(a, b, c, d)\<close> and \<open>Ipv4Addr::octets\<close>.\<close>

definition ipv4_of_octets :: "u8 \<Rightarrow> u8 \<Rightarrow> u8 \<Rightarrow> u8 \<Rightarrow> ipv4" where
  "ipv4_of_octets a b c d =
     push_bit 24 (ucast a) OR push_bit 16 (ucast b) OR push_bit 8 (ucast c) OR ucast d"

definition octet :: "ipv4 \<Rightarrow> nat \<Rightarrow> u8" where
  "octet a i = ucast (drop_bit (24 - 8 * i) a)"

definition saturating_add :: "'a::len word \<Rightarrow> 'a word \<Rightarrow> 'a word" where
  "saturating_add a b = (if unat a + unat b < 2 ^ LENGTH('a) then a + b else - 1)"

definition saturating_sub :: "'a::len word \<Rightarrow> 'a word \<Rightarrow> 'a word" where
  "saturating_sub a b = (if a < b then 0 else a - b)"

section \<open>\<open>std::cmp::Ordering\<close>\<close>

datatype ordering = Less | Equal | Greater

definition ord_cmp :: "'a::linorder \<Rightarrow> 'a \<Rightarrow> ordering" where
  "ord_cmp a b = (if a < b then Less else if a = b then Equal else Greater)"

text \<open>\<open>Ordering::then\<close>: keep the first verdict unless it is \<open>Equal\<close>.\<close>

fun ord_then :: "ordering \<Rightarrow> ordering \<Rightarrow> ordering" where
  "ord_then Equal r = r"
| "ord_then l _ = l"

section \<open>\<open>BTreeMap\<close>: an association list in strictly increasing key order\<close>

type_synonym ('k, 'v) btree_map = "('k \<times> 'v) list"

definition bt_get :: "('k, 'v) btree_map \<Rightarrow> 'k \<Rightarrow> 'v option" where
  "bt_get m k = map_of m k"

fun bt_insert :: "'k::linorder \<Rightarrow> 'v \<Rightarrow> ('k, 'v) btree_map \<Rightarrow> ('k, 'v) btree_map" where
  "bt_insert k v [] = [(k, v)]"
| "bt_insert k v ((k', v') # m) =
     (if k < k' then (k, v) # (k', v') # m
      else if k = k' then (k, v) # m
      else (k', v') # bt_insert k v m)"

definition bt_remove :: "'k \<Rightarrow> ('k, 'v) btree_map \<Rightarrow> ('k, 'v) btree_map" where
  "bt_remove k m = filter (\<lambda>(k', _). k' \<noteq> k) m"

definition bt_ok :: "('k::linorder, 'v) btree_map \<Rightarrow> bool" where
  "bt_ok m \<longleftrightarrow> sorted_wrt (<) (map fst m)"

section \<open>\<open>HashMap\<close>: an association list with distinct keys, in some iteration order\<close>

type_synonym ('k, 'v) hash_map = "('k \<times> 'v) list"

definition hm_get :: "('k, 'v) hash_map \<Rightarrow> 'k \<Rightarrow> 'v option" where
  "hm_get m k = map_of m k"

fun hm_insert :: "'k \<Rightarrow> 'v \<Rightarrow> ('k, 'v) hash_map \<Rightarrow> ('k, 'v) hash_map" where
  "hm_insert k v [] = [(k, v)]"
| "hm_insert k v ((k', v') # m) =
     (if k = k' then (k, v) # m else (k', v') # hm_insert k v m)"

definition hm_remove :: "'k \<Rightarrow> ('k, 'v) hash_map \<Rightarrow> ('k, 'v) hash_map" where
  "hm_remove k m = filter (\<lambda>(k', _). k' \<noteq> k) m"

definition hm_ok :: "('k, 'v) hash_map \<Rightarrow> bool" where
  "hm_ok m \<longleftrightarrow> distinct (map fst m)"

section \<open>Lemmas\<close>

lemma ord_cmp_eq [simp, cmp_simps]:
  "ord_cmp a b = Less \<longleftrightarrow> a < b"
  "ord_cmp a b = Equal \<longleftrightarrow> a = b"
  "ord_cmp a b = Greater \<longleftrightarrow> b < a"
  by (auto simp: ord_cmp_def)

lemma ord_then_eq [simp, cmp_simps]:
  "ord_then x y = Less \<longleftrightarrow> x = Less \<or> x = Equal \<and> y = Less"
  "ord_then x y = Equal \<longleftrightarrow> x = Equal \<and> y = Equal"
  "ord_then x y = Greater \<longleftrightarrow> x = Greater \<or> x = Equal \<and> y = Greater"
  by (cases x; simp)+

lemma case_ordering_if [cmp_simps]:
  "(case c of Less \<Rightarrow> l | Equal \<Rightarrow> e | Greater \<Rightarrow> g) =
     (if c = Less then l else if c = Greater then g else e)"
  by (cases c) auto

lemma unat_saturating_add:
  "unat (saturating_add a b) = min (unat a + unat b) (2 ^ LENGTH('a) - 1)"
  for a b :: "'a::len word"
proof (cases "unat a + unat b < 2 ^ LENGTH('a)")
  case True
  then have "unat (a + b) = unat a + unat b" by (simp add: unat_word_ariths)
  with True show ?thesis by (simp add: saturating_add_def)
next
  case False
  then show ?thesis by (simp add: saturating_add_def unsigned_minus_1_eq_mask mask_eq_exp_minus_1)
qed

lemma unat_saturating_sub: "unat (saturating_sub a b) = unat a - unat b"
  by (simp add: saturating_sub_def unat_sub word_less_nat_alt word_le_nat_alt not_less)

lemma map_of_bt_insert: "map_of (bt_insert k v m) = (map_of m)(k \<mapsto> v)"
  if "bt_ok m"
  using that
proof (induction m)
  case (Cons p m)
  then show ?case by (cases p) (auto simp: bt_ok_def fun_eq_iff)
qed (simp add: fun_eq_iff)

lemma set_bt_insert: "fst ` set (bt_insert k v m) = insert k (fst ` set m)"
  by (induction k v m rule: bt_insert.induct) auto

lemma map_of_filter_key: "map_of (filter (\<lambda>(k', _). k' \<noteq> k) m) = (map_of m)(k := None)"
  by (induction m) (auto simp: fun_eq_iff)

lemma bt_insert_ok [map_ok]: "bt_ok m \<Longrightarrow> bt_ok (bt_insert k v m)"
proof (induction k v m rule: bt_insert.induct)
  case (2 k v k' v' m)
  have "fst ` set (bt_insert k v m) = insert k (fst ` set m)" by (rule set_bt_insert)
  then have "\<forall>p\<in>set (bt_insert k v m). fst p = k \<or> fst p \<in> fst ` set m" by auto
  with 2 show ?case by (fastforce simp: bt_ok_def)
qed (simp add: bt_ok_def)

lemma bt_remove_ok [map_ok]: "bt_ok m \<Longrightarrow> bt_ok (bt_remove k m)"
  unfolding bt_ok_def bt_remove_def by (simp add: sorted_wrt_map sorted_wrt_filter)

lemma bt_empty_ok [map_ok]: "bt_ok []"
  by (simp add: bt_ok_def)

lemma bt_get_empty [map_simps]: "bt_get [] k = None"
  by (simp add: bt_get_def)

lemma bt_get_insert [map_simps]:
  "bt_ok m \<Longrightarrow> bt_get (bt_insert k v m) k' = (if k' = k then Some v else bt_get m k')"
  by (simp add: bt_get_def map_of_bt_insert)

lemma bt_get_remove [map_simps]:
  "bt_get (bt_remove k m) k' = (if k' = k then None else bt_get m k')"
  by (simp add: bt_get_def bt_remove_def map_of_filter_key)

lemma bt_ok_distinct: "bt_ok m \<Longrightarrow> distinct (map fst m)"
  unfolding bt_ok_def using strict_sorted_iff by blast

lemma bt_get_iff: "bt_ok m \<Longrightarrow> bt_get m k = Some v \<longleftrightarrow> (k, v) \<in> set m"
  by (simp add: bt_get_def bt_ok_distinct)

text \<open>A sorted association list is determined by its lookups.\<close>

lemma bt_eqI:
  assumes "bt_ok m" and "bt_ok m'" and "\<And>k. bt_get m k = bt_get m' k"
  shows "m = m'"
proof -
  have s: "set m = set m'"
    using assms bt_get_iff by (metis surj_pair subsetI subset_antisym)
  have srt: "sorted (map fst m)" "sorted (map fst m')"
    using assms(1,2) unfolding bt_ok_def using strict_sorted_iff by blast+
  have i: "inj_on fst (set m)"
    using bt_ok_distinct[OF assms(1)] by (simp add: distinct_map)
  have "map fst m = map fst m'"
    by (rule sorted_distinct_set_unique)
      (use srt s bt_ok_distinct assms(1,2) in \<open>auto\<close>)
  with s i show ?thesis
    by (metis inj_on_map_eq_map set_map sup.idem)
qed

lemma hm_get_insert [map_simps]:
  "hm_get (hm_insert k v m) k' = (if k' = k then Some v else hm_get m k')"
  unfolding hm_get_def by (induction m) auto

lemma hm_get_remove [map_simps]:
  "hm_get (hm_remove k m) k' = (if k' = k then None else hm_get m k')"
  by (simp add: hm_get_def hm_remove_def map_of_filter_key)

lemma hm_get_empty [map_simps]: "hm_get [] k = None"
  by (simp add: hm_get_def)

lemma set_hm_insert: "fst ` set (hm_insert k v m) = insert k (fst ` set m)"
  by (induction k v m rule: hm_insert.induct) auto

lemma hm_insert_ok [map_ok]: "hm_ok m \<Longrightarrow> hm_ok (hm_insert k v m)"
proof (induction k v m rule: hm_insert.induct)
  case (2 k v k' v' m)
  have "fst ` set (hm_insert k v m) = insert k (fst ` set m)" by (rule set_hm_insert)
  with 2 show ?case by (auto simp: hm_ok_def)
qed (simp add: hm_ok_def)

lemma hm_remove_ok [map_ok]: "hm_ok m \<Longrightarrow> hm_ok (hm_remove k m)"
  unfolding hm_ok_def hm_remove_def by (rule distinct_map_filter)

lemma hm_empty_ok [map_ok]: "hm_ok []"
  by (simp add: hm_ok_def)

lemma hm_get_iff: "hm_ok m \<Longrightarrow> hm_get m k = Some v \<longleftrightarrow> (k, v) \<in> set m"
  by (simp add: hm_get_def hm_ok_def)

section \<open>The map interface the replicated books rely on\<close>

locale kv_map =
  fixes get :: "'m \<Rightarrow> 'k \<Rightarrow> 'v option"
    and ins :: "'k \<Rightarrow> 'v \<Rightarrow> 'm \<Rightarrow> 'm"
    and rem :: "'k \<Rightarrow> 'm \<Rightarrow> 'm"
    and emp :: 'm
    and ok :: "'m \<Rightarrow> bool"
  assumes get_emp: "get emp k = None"
    and get_ins: "ok m \<Longrightarrow> get (ins k v m) k' = (if k' = k then Some v else get m k')"
    and get_rem: "ok m \<Longrightarrow> get (rem k m) k' = (if k' = k then None else get m k')"
    and ok_emp: "ok emp"
    and ok_ins: "ok m \<Longrightarrow> ok (ins k v m)"
    and ok_rem: "ok m \<Longrightarrow> ok (rem k m)"
begin

lemma get_ins_same: "ok m \<Longrightarrow> get (ins k v m) k = Some v"
  by (simp add: get_ins)

lemma get_rem_same: "ok m \<Longrightarrow> get (rem k m) k = None"
  by (simp add: get_rem)

lemma get_fold_rem:
  "ok m \<Longrightarrow> ok (fold rem ks m) \<and> get (fold rem ks m) k = (if k \<in> set ks then None else get m k)"
  by (induction ks arbitrary: m) (auto simp: get_rem ok_rem)

end

interpretation bt: kv_map bt_get bt_insert bt_remove "[]" bt_ok
  by unfold_locales (simp_all add: map_simps map_ok)

interpretation hm: kv_map hm_get hm_insert hm_remove "[]" hm_ok
  by unfold_locales (simp_all add: map_simps map_ok)

lemma set_map_filter: "set (List.map_filter f xs) = {y. \<exists>x\<in>set xs. f x = Some y}"
  by (force simp: List.map_filter_def)

end
