(* ===== verification/Hlc.thy ===== *)
theory Hlc
  imports Mesh_Prelude
begin

text \<open>
  The hybrid logical clock of \<open>crdt/hlc.rs\<close>: the struct, \<open>Ord::cmp\<close> written as the source
  writes it, and the \<^theory_text>\<open>instantiation\<close> of \<open>linorder\<close> that makes \<open>a < b\<close>, \<open>a \<le> b\<close> on
  timestamps mean \<open>cmp\<close>. Every merge of the development decides by this order.
\<close>

datatype HLC = HLC (wall_clock: u64) (counter: u32) (hlc_node_id: string)

definition hlc_cmp :: "HLC \<Rightarrow> HLC \<Rightarrow> ordering" where
  "hlc_cmp a b =
     ord_then (ord_then (ord_cmp (wall_clock a) (wall_clock b))
                        (ord_cmp (counter a) (counter b)))
              (ord_cmp (hlc_node_id a) (hlc_node_id b))"

text \<open>\<open>now_hlc\<close> of the daemon: the wall clock is read from the system, the counter is always 0.\<close>

definition now_hlc :: "u64 \<Rightarrow> string \<Rightarrow> HLC" where
  "now_hlc now node = HLC now 0 node"

lemma hlc_cmp_less_iff:
  "hlc_cmp a b = Less \<longleftrightarrow>
     wall_clock a < wall_clock b \<or>
     wall_clock a = wall_clock b \<and>
       (counter a < counter b \<or> counter a = counter b \<and> hlc_node_id a < hlc_node_id b)"
  by (auto simp: hlc_cmp_def)

lemma hlc_cmp_equal_iff [cmp_simps]: "hlc_cmp a b = Equal \<longleftrightarrow> a = b"
  by (cases a; cases b) (auto simp: hlc_cmp_def)

lemma hlc_cmp_flip: "hlc_cmp a b = Greater \<longleftrightarrow> hlc_cmp b a = Less"
  by (auto simp: hlc_cmp_def)

lemma hlc_cmp_trans: "hlc_cmp a b = Less \<Longrightarrow> hlc_cmp b c = Less \<Longrightarrow> hlc_cmp a c = Less"
  unfolding hlc_cmp_less_iff by (elim disjE conjE) (simp_all, (blast intro: less_trans)+)

lemma hlc_cmp_total: "hlc_cmp a b = Less \<or> a = b \<or> hlc_cmp b a = Less"
  by (cases "hlc_cmp a b") (simp_all add: hlc_cmp_equal_iff hlc_cmp_flip)

lemma hlc_cmp_irrefl: "hlc_cmp a a \<noteq> Less"
  unfolding hlc_cmp_less_iff by simp

instantiation HLC :: linorder
begin

definition less_HLC :: "HLC \<Rightarrow> HLC \<Rightarrow> bool" where
  "less_HLC a b \<longleftrightarrow> hlc_cmp a b = Less"

definition less_eq_HLC :: "HLC \<Rightarrow> HLC \<Rightarrow> bool" where
  "less_eq_HLC a b \<longleftrightarrow> hlc_cmp a b \<noteq> Greater"

instance
proof
  fix x y z :: HLC
  have less: "x < y \<longleftrightarrow> hlc_cmp x y = Less" for x y :: HLC
    by (rule less_HLC_def)
  have le: "x \<le> y \<longleftrightarrow> x = y \<or> hlc_cmp x y = Less" for x y :: HLC
    unfolding less_eq_HLC_def hlc_cmp_flip
    using hlc_cmp_total[of x y] hlc_cmp_trans[of x y x] hlc_cmp_irrefl[of x] by blast
  show "(x < y) = (x \<le> y \<and> \<not> y \<le> x)"
    unfolding less le using hlc_cmp_trans[of x y x] hlc_cmp_irrefl[of x] by blast
  show "x \<le> x"
    unfolding le by simp
  show "x \<le> y \<Longrightarrow> y \<le> z \<Longrightarrow> x \<le> z"
    unfolding le using hlc_cmp_trans[of x y z] by blast
  show "x \<le> y \<Longrightarrow> y \<le> x \<Longrightarrow> x = y"
    unfolding le using hlc_cmp_trans[of x y x] hlc_cmp_irrefl[of x] by blast
  show "x \<le> y \<or> y \<le> x"
    unfolding le using hlc_cmp_total[of x y] by blast
qed

end

lemma hlc_cmp_simps [simp, cmp_simps]:
  "hlc_cmp a b = Less \<longleftrightarrow> a < b"
  "hlc_cmp a b = Equal \<longleftrightarrow> a = b"
  "hlc_cmp a b = Greater \<longleftrightarrow> b < a"
  by (auto simp: less_HLC_def hlc_cmp_equal_iff hlc_cmp_flip)

lemma hlc_less_wall: "wall_clock a < wall_clock b \<Longrightarrow> a < b"
  unfolding less_HLC_def hlc_cmp_less_iff by simp

lemma hlc_less_wall_le: "a < b \<Longrightarrow> wall_clock a \<le> wall_clock b"
  unfolding less_HLC_def hlc_cmp_less_iff by auto

lemma now_hlc_mono [simp]: "now_hlc t n < now_hlc t' n \<longleftrightarrow> t < t'"
  unfolding less_HLC_def hlc_cmp_less_iff by (simp add: now_hlc_def)

text \<open>Evaluation of the order on concrete timestamps.\<close>

lemma HLC_less_eval:
  "HLC w c n < HLC w' c' n' \<longleftrightarrow> w < w' \<or> w = w' \<and> (c < c' \<or> c = c' \<and> n < n')"
  unfolding less_HLC_def hlc_cmp_less_iff by simp

lemma HLC_le_eval:
  "HLC w c n \<le> HLC w' c' n' \<longleftrightarrow> w < w' \<or> w = w' \<and> (c < c' \<or> c = c' \<and> n \<le> n')"
  unfolding le_less HLC_less_eval by (auto simp: le_less)

lemmas hlc_eval = HLC_less_eval HLC_le_eval less_char_def less_eq_char_def

text \<open>\<open>HLC::cmp\<close> is the lexicographic order on (wall clock, counter, node id): of two
  timestamps exactly one is earlier unless they are equal, and the earlier one is the one with
  the smaller wall clock, then the smaller counter, then the smaller node id.\<close>

theorem hlc_cmp_lexicographic:
  "(hlc_cmp a b = Less \<longleftrightarrow>
      (wall_clock a, counter a) = (wall_clock b, counter b) \<and> hlc_node_id a < hlc_node_id b \<or>
      wall_clock a = wall_clock b \<and> counter a < counter b \<or>
      wall_clock a < wall_clock b) \<and>
   (hlc_cmp a b = Equal \<longleftrightarrow> a = b) \<and>
   (hlc_cmp a b = Greater \<longleftrightarrow> hlc_cmp b a = Less)"
proof -
  have "hlc_cmp a b = Less \<longleftrightarrow>
      (wall_clock a, counter a) = (wall_clock b, counter b) \<and> hlc_node_id a < hlc_node_id b \<or>
      wall_clock a = wall_clock b \<and> counter a < counter b \<or>
      wall_clock a < wall_clock b"
    unfolding hlc_cmp_less_iff by auto
  then show ?thesis by simp
qed

end
