(* ===== verification/Crdt_Records.thy ===== *)
theory Crdt_Records
  imports Hlc
begin

text \<open>
  The replicated records of \<open>crates/mjolnir-mesh/src/crdt\<close> and the gossip wire enum, one type per
  struct or enum of the source. Record fields carry a short prefix, because HOL field names are
  global: \<open>sc_\<close> for \<open>SubnetClaim\<close>, \<open>pa_\<close> for \<open>PeerAddrEntry\<close>, \<open>nn_\<close> for \<open>NodeNameEntry\<close>,
  \<open>ue_\<close> for \<open>UserEntry\<close>, \<open>se_\<close> for \<open>ServiceEntry\<close>, \<open>s2_\<close> for \<open>ServiceEntryV2\<close>, \<open>ts_\<close> for
  \<open>ServiceTombstone\<close>, \<open>ln_\<close> for \<open>LostName\<close>, \<open>le_\<close> for \<open>LeasedName\<close>, \<open>ea_\<close> for \<open>EgressAd\<close>.

  \<open>Ipv4Net\<close> and \<open>IpNet\<close> come from the external crate \<open>ipnet\<close>; only their data (an address and a
  prefix length) is fixed here, what the crate computes from it is a parameter where it is used.
\<close>

section \<open>Networks and addresses\<close>

datatype Ipv4Net = Ipv4Net (net_addr: ipv4) (prefix_len: nat)

datatype IpNet = NetV4 Ipv4Net | NetV6 ipv6 nat

datatype SocketAddr = SocketAddr (sock_ip: IpAddr) (sock_port: u16)

type_synonym mac = "u8 list"

section \<open>Record types\<close>

record SubnetClaim =
  sc_cidr :: IpNet
  sc_owner_node_id :: string
  sc_site_name :: "string option"
  sc_claimed_at :: HLC

record PeerAddrEntry =
  pa_node_id :: string
  pa_direct_addrs :: "SocketAddr list"
  pa_relay_url :: "string option"
  pa_announced_at :: HLC

record NodeNameEntry =
  nn_node_id :: string
  nn_name :: string
  nn_announced_at :: HLC

record UserEntry =
  ue_username :: string
  ue_display_name :: string
  ue_registered_by :: string
  ue_attrs :: "(string, string) btree_map"
  ue_updated_at :: HLC

record ServiceEntry =
  se_hostname :: string
  se_ip :: IpAddr
  se_port :: u16
  se_protocol :: string
  se_txt :: "(string, string) btree_map"
  se_host_mac :: mac
  se_updated_at :: HLC

record ServiceEntryV2 =
  s2_owner_node_id :: string
  s2_first_claimed_at :: HLC
  s2_updated_at :: HLC
  s2_ip :: IpAddr
  s2_port :: u16
  s2_protocol :: string
  s2_txt :: "(string, string) btree_map"
  s2_host_mac :: "mac option"

record ServiceTombstone =
  ts_owner_node_id :: string
  ts_hlc :: HLC

record LostName =
  ln_winner_node_id :: string
  ln_hlc :: HLC

record LeasedName =
  le_owner_pubkey :: string
  le_sig :: string
  le_challenge :: string
  le_ip :: IpAddr
  le_port :: u16
  le_scheme :: "string option"
  le_first_claimed_at :: HLC
  le_renewed_at :: HLC

record EgressAd =
  ea_healthy :: bool
  ea_cost_hint :: u16

record LeaseEntry =
  dl_mac :: mac
  dl_ip :: IpAddr
  dl_hostname :: "string option"
  dl_router_id :: string
  dl_expiry :: u64
  dl_hlc :: HLC

record DnsEntry =
  de_ip :: IpAddr
  de_mac :: mac

section \<open>Books\<close>

type_synonym AddrBook = "(string, PeerAddrEntry) btree_map"
type_synonym NodeNameBook = "(string, NodeNameEntry) btree_map"
type_synonym UserBook = "(string, UserEntry) btree_map"
type_synonym ServiceBook = "(string, ServiceEntry) btree_map"
type_synonym ServiceBookV2 = "(string, ServiceEntryV2) btree_map"
type_synonym ServiceTombstoneBook = "(string, ServiceTombstone) btree_map"
type_synonym LostNameMap = "(string, LostName) btree_map"
type_synonym LeasedNameBook = "(string, LeasedName) btree_map"
type_synonym ClaimStore = "(string, SubnetClaim) hash_map"

section \<open>The gossip wire enum\<close>

datatype GossipMessage =
    LeaseUpdate LeaseEntry
  | LeaseRelease mac HLC
  | DnsUpdate string DnsEntry
  | ServiceUpdate string ServiceEntry
  | SubnetClaimUpdate string SubnetClaim
  | SubnetClaimRelease string HLC
  | PeerAddrUpdate string PeerAddrEntry
  | UserUpdate string UserEntry
  | ServicePublishV2 string ServiceEntryV2
  | ServiceUnpublishV2 string string HLC
  | LivenessBeacon string u64 u64 "EgressAd option"
  | NodeNameAnnounce string NodeNameEntry
  | LeasedNamePublish string LeasedName

section \<open>\<open>PeerAddrEntry::new\<close>\<close>

text \<open>
  \<open>sort_by_key\<close> is a stable sort and \<open>Vec::dedup\<close> drops consecutive equal elements
  (\<open>remdups_adj\<close>). The key is \<open>SocketAddr::to_string\<close>, a parameter of the model.
\<close>

definition peer_addr_new ::
  "(SocketAddr \<Rightarrow> string) \<Rightarrow> string \<Rightarrow> SocketAddr list \<Rightarrow> string option \<Rightarrow> HLC \<Rightarrow> PeerAddrEntry" where
  "peer_addr_new to_string node addrs relay at =
     \<lparr>pa_node_id = node,
      pa_direct_addrs = remdups_adj (sort_key to_string addrs),
      pa_relay_url = relay,
      pa_announced_at = at\<rparr>"

lemma distinct_remdups_adj_sorted: "sorted xs \<Longrightarrow> distinct (remdups_adj xs)"
  by (induction xs rule: remdups_adj.induct) auto

lemma distinct_remdups_adj_sort_key:
  assumes "inj f"
  shows "distinct (remdups_adj (sort_key f xs))"
proof -
  have "map f (remdups_adj (sort_key f xs)) = remdups_adj (map f (sort_key f xs))"
    by (rule remdups_adj_map_injective[OF assms, symmetric])
  moreover have "distinct (remdups_adj (map f (sort_key f xs)))"
    by (simp add: distinct_remdups_adj_sorted)
  ultimately show ?thesis by (metis distinct_map)
qed

lemma sort_key_set_unique:
  assumes "inj f" and "set xs = set ys" and "distinct xs" and "distinct ys"
    and "sorted (map f xs)" and "sorted (map f ys)"
  shows "xs = ys"
proof -
  have "map f xs = map f ys"
    by (rule sorted_distinct_set_unique)
      (use assms in \<open>auto simp: distinct_map intro: inj_on_subset\<close>)
  with assms(1) show ?thesis by (simp add: inj_map_eq_map)
qed

lemma sorted_map_remdups_adj: "sorted (map f xs) \<Longrightarrow> sorted (map f (remdups_adj xs))"
  by (induction xs rule: remdups_adj.induct) auto

text \<open>\<open>PeerAddrEntry::new\<close> normalises its addresses: the stored list is duplicate free, in key
  order, has exactly the given addresses, and does not depend on the order or multiplicity in
  which the caller listed them (for an injective \<open>to_string\<close>), so two announcements of one
  address set are equal records.\<close>

theorem peer_addr_new_canonical:
  assumes "inj to_string" and "set addrs = set addrs'"
  shows "distinct (pa_direct_addrs (peer_addr_new to_string node addrs relay at)) \<and>
         sorted (map to_string (pa_direct_addrs (peer_addr_new to_string node addrs relay at))) \<and>
         set (pa_direct_addrs (peer_addr_new to_string node addrs relay at)) = set addrs \<and>
         peer_addr_new to_string node addrs relay at = peer_addr_new to_string node addrs' relay at"
proof -
  let ?n = "\<lambda>as. remdups_adj (sort_key to_string as)"
  have d: "distinct (?n as)" for as
    by (rule distinct_remdups_adj_sort_key[OF assms(1)])
  have s: "sorted (map to_string (?n as))" for as
    by (simp add: sorted_map_remdups_adj)
  have "?n addrs = ?n addrs'"
    by (rule sort_key_set_unique[OF assms(1)]) (use assms(2) d s in auto)
  with d s assms(2) show ?thesis by (simp add: peer_addr_new_def)
qed

text \<open>An injective rendering of socket addresses, for the witness: the family, then the bits of
  the address and of the port.\<close>

definition bits_key :: "nat \<Rightarrow> 'a::len word \<Rightarrow> string" where
  "bits_key n w = map (\<lambda>i. if bit w i then CHR ''1'' else CHR ''0'') [0..<n]"

definition socket_key :: "SocketAddr \<Rightarrow> string" where
  "socket_key a =
     (case sock_ip a of
        V4 v \<Rightarrow> CHR ''4'' # bits_key 32 v
      | V6 v \<Rightarrow> CHR ''6'' # bits_key 128 v) @ bits_key 16 (sock_port a)"

lemma bits_key_inj: "n = LENGTH('a) \<Longrightarrow> bits_key n w = bits_key n w' \<longleftrightarrow> w = w'"
  for w w' :: "'a::len word"
  by (auto simp: bits_key_def intro!: bit_word_eqI split: if_splits)

lemma length_bits_key [simp]: "length (bits_key n w) = n"
  by (simp add: bits_key_def)

lemma socket_key_inj: "inj socket_key"
proof (rule injI)
  fix a b assume "socket_key a = socket_key b"
  then show "a = b"
    by (cases a; cases b) (auto simp: socket_key_def bits_key_inj split: IpAddr.splits)
qed

text \<open>Example: two listings of the same two addresses give one record.\<close>

theorem peer_addr_new_canonical_witness:
  "inj socket_key \<and>
   peer_addr_new socket_key ''n'' [SocketAddr (V4 7) 1, SocketAddr (V4 5) 1, SocketAddr (V4 7) 1] None (HLC 0 0 []) =
   peer_addr_new socket_key ''n'' [SocketAddr (V4 5) 1, SocketAddr (V4 7) 1] None (HLC 0 0 [])"
  using socket_key_inj
    peer_addr_new_canonical[OF socket_key_inj,
      of "[SocketAddr (V4 7) 1, SocketAddr (V4 5) 1, SocketAddr (V4 7) 1]"
         "[SocketAddr (V4 5) 1, SocketAddr (V4 7) 1]" "''n''" None "HLC 0 0 []"]
  by auto

end
