(* ===== verification/Rust_Strings.thy ===== *)
theory Rust_Strings
  imports Mesh_Prelude
begin

text \<open>
  The operations of Rust's \<open>str\<close> that the modelled code calls, on UTF-8 byte lists.
  \<open>str::trim\<close> strips Unicode white space, so its multi-byte encodings are listed; UTF-8 is
  self-synchronising, so looking for an encoding at the end of a valid string finds exactly a
  trailing white-space character.
\<close>

definition byte :: "char \<Rightarrow> nat" where
  "byte c = of_char c"

definition to_ascii_lowercase_char :: "char \<Rightarrow> char" where
  "to_ascii_lowercase_char c =
     (if 65 \<le> byte c \<and> byte c \<le> 90 then char_of (byte c + 32) else c)"

definition to_ascii_lowercase :: "string \<Rightarrow> string" where
  "to_ascii_lowercase = map to_ascii_lowercase_char"

definition is_ascii_lowercase :: "char \<Rightarrow> bool" where
  "is_ascii_lowercase c \<longleftrightarrow> 97 \<le> byte c \<and> byte c \<le> 122"

definition is_ascii_digit :: "char \<Rightarrow> bool" where
  "is_ascii_digit c \<longleftrightarrow> 48 \<le> byte c \<and> byte c \<le> 57"

text \<open>\<open>char::is_ascii_whitespace\<close>: space, \<open>\t\<close>, \<open>\n\<close>, form feed, \<open>\r\<close>.\<close>

definition is_ascii_whitespace :: "char \<Rightarrow> bool" where
  "is_ascii_whitespace c \<longleftrightarrow> byte c \<in> {32, 9, 10, 12, 13}"

text \<open>The UTF-8 encodings of the code points with the \<open>White_Space\<close> property.\<close>

definition white_space :: "string list" where
  "white_space =
     map (map char_of)
       [[9], [10], [11], [12], [13], [32 :: nat], [194, 133], [194, 160], [225, 154, 128],
        [226, 128, 128], [226, 128, 129], [226, 128, 130], [226, 128, 131], [226, 128, 132],
        [226, 128, 133], [226, 128, 134], [226, 128, 135], [226, 128, 136], [226, 128, 137],
        [226, 128, 138], [226, 128, 168], [226, 128, 169], [226, 128, 175], [226, 129, 159],
        [227, 128, 128]]"

definition starts_with :: "string \<Rightarrow> string \<Rightarrow> bool" where
  "starts_with p s \<longleftrightarrow> take (length p) s = p"

definition ends_with :: "string \<Rightarrow> string \<Rightarrow> bool" where
  "ends_with p s \<longleftrightarrow> starts_with (rev p) (rev s)"

definition strip_prefix :: "string \<Rightarrow> string \<Rightarrow> string option" where
  "strip_prefix p s = (if starts_with p s then Some (drop (length p) s) else None)"

definition strip_suffix :: "string \<Rightarrow> string \<Rightarrow> string option" where
  "strip_suffix p s = (if ends_with p s then Some (take (length s - length p) s) else None)"

text \<open>Strip encodings of \<open>seps\<close> from the front, as often as one matches.\<close>

function strip_front :: "string list \<Rightarrow> string \<Rightarrow> string" where
  "strip_front seps s =
     (case find (\<lambda>w. w \<noteq> [] \<and> starts_with w s) seps of
        None \<Rightarrow> s
      | Some w \<Rightarrow> strip_front seps (drop (length w) s))"
  by pat_completeness auto
termination
proof (relation "measure (\<lambda>(seps, s). length s)")
  fix seps s w
  assume "find (\<lambda>w. w \<noteq> [] \<and> starts_with w s) seps = Some w"
  then have "w \<noteq> []" and "starts_with w s" by (auto simp: find_Some_iff)
  then have "s \<noteq> []" by (auto simp: starts_with_def)
  with \<open>w \<noteq> []\<close> show "((seps, drop (length w) s), (seps, s)) \<in> measure (\<lambda>(seps, s). length s)"
    by simp
qed simp

declare strip_front.simps [simp del]

definition trim_start :: "string \<Rightarrow> string" where
  "trim_start s = strip_front white_space s"

definition trim_end :: "string \<Rightarrow> string" where
  "trim_end s = rev (strip_front (map rev white_space) (rev s))"

definition trim :: "string \<Rightarrow> string" where
  "trim s = trim_end (trim_start s)"

definition trim_end_matches :: "char \<Rightarrow> string \<Rightarrow> string" where
  "trim_end_matches c s = rev (dropWhile (\<lambda>x. x = c) (rev s))"

text \<open>\<open>str::split(sep)\<close> on one separator byte: always at least one piece.\<close>

fun split_on :: "char \<Rightarrow> string \<Rightarrow> string list" where
  "split_on c [] = [[]]"
| "split_on c (x # xs) =
     (if x = c then [] # split_on c xs
      else (case split_on c xs of [] \<Rightarrow> [[x]] | p # ps \<Rightarrow> (x # p) # ps))"

text \<open>\<open>str::split_once(sep)\<close>: the parts before and after the first separator.\<close>

fun split_once :: "char \<Rightarrow> string \<Rightarrow> (string \<times> string) option" where
  "split_once c [] = None"
| "split_once c (x # xs) =
     (if x = c then Some ([], xs)
      else (case split_once c xs of None \<Rightarrow> None | Some (l, r) \<Rightarrow> Some (x # l, r)))"

definition join_with :: "char \<Rightarrow> string list \<Rightarrow> string" where
  "join_with c ps = (case ps of [] \<Rightarrow> [] | p # qs \<Rightarrow> p @ concat (map (\<lambda>q. c # q) qs))"

text \<open>\<open>str::lines\<close>: line feeds end lines, one carriage return before a line feed goes with it, and a
  final line feed opens no further line.\<close>

definition strip_cr :: "string \<Rightarrow> string" where
  "strip_cr l = (if l \<noteq> [] \<and> last l = CHR 0x0D then butlast l else l)"

definition lines :: "string \<Rightarrow> string list" where
  "lines s =
     (let ps = split_on CHR 0x0A s
      in map strip_cr (butlast ps) @ (if last ps = [] then [] else [last ps]))"

text \<open>\<open>str::split_whitespace\<close>, with the token read so far.\<close>

function words_from :: "string \<Rightarrow> string \<Rightarrow> string list" where
  "words_from cur [] = (if cur = [] then [] else [cur])"
| "words_from cur (c # s) =
     (case find (\<lambda>w. w \<noteq> [] \<and> starts_with w (c # s)) white_space of
        Some w \<Rightarrow> (if cur = [] then [] else [cur]) @ words_from [] (drop (length w) (c # s))
      | None \<Rightarrow> words_from (cur @ [c]) s)"
  by pat_completeness auto
termination
proof (relation "measure (\<lambda>(cur, s). length s)")
  fix c s w
  assume "find (\<lambda>w. w \<noteq> [] \<and> starts_with w (c # s)) white_space = Some w"
  then have "w \<noteq> []" by (auto simp: find_Some_iff)
  then show "(([], drop (length w) (c # s)), (cur, c # s)) \<in> measure (\<lambda>(cur, s). length s)"
    for cur by simp
qed auto

declare words_from.simps(2) [simp del]

definition split_whitespace :: "string \<Rightarrow> string list" where
  "split_whitespace s = words_from [] s"

text \<open>The dash in the texts of the daemon.\<close>

definition em_dash :: string where
  "em_dash = map char_of [226, 128, 148 :: nat]"

section \<open>Lemmas\<close>

lemma byte_bound: "byte c < 256"
  by (simp add: byte_def)

lemma byte_char_of: "n < 256 \<Longrightarrow> byte (char_of n) = n"
  by (simp add: byte_def)

lemma to_ascii_lowercase_char_idem [simp]:
  "to_ascii_lowercase_char (to_ascii_lowercase_char c) = to_ascii_lowercase_char c"
  using byte_bound[of c] by (auto simp: to_ascii_lowercase_char_def byte_char_of)

lemma to_ascii_lowercase_idem [simp]:
  "to_ascii_lowercase (to_ascii_lowercase s) = to_ascii_lowercase s"
  by (simp add: to_ascii_lowercase_def)

lemma to_ascii_lowercase_fixed:
  "\<forall>c\<in>set s. \<not> (65 \<le> byte c \<and> byte c \<le> 90) \<Longrightarrow> to_ascii_lowercase s = s"
  by (induction s) (auto simp: to_ascii_lowercase_def to_ascii_lowercase_char_def)

lemma length_to_ascii_lowercase [simp]: "length (to_ascii_lowercase s) = length s"
  by (simp add: to_ascii_lowercase_def)

lemma strip_front_suffix: "\<exists>p. s = p @ strip_front seps s"
proof (induction seps s rule: strip_front.induct)
  case (1 seps s)
  show ?case
  proof (cases "find (\<lambda>w. w \<noteq> [] \<and> starts_with w s) seps")
    case None
    then show ?thesis by (subst strip_front.simps) simp
  next
    case (Some w)
    then have "strip_front seps s = strip_front seps (drop (length w) s)"
      by (subst strip_front.simps) simp
    moreover obtain p where "drop (length w) s = p @ strip_front seps (drop (length w) s)"
      using 1 Some by blast
    moreover have "s = take (length w) s @ drop (length w) s" by simp
    ultimately show ?thesis by (metis append.assoc)
  qed
qed

lemma strip_front_id:
  assumes "\<And>w. w \<in> set seps \<Longrightarrow> w = [] \<or> \<not> starts_with w s"
  shows "strip_front seps s = s"
proof -
  have "find (\<lambda>w. w \<noteq> [] \<and> starts_with w s) seps = None"
    using assms by (auto simp: find_None_iff)
  then show ?thesis by (subst strip_front.simps) simp
qed

lemma length_trim: "length (trim s) \<le> length s"
proof -
  have le: "length (strip_front seps t) \<le> length t" for seps t
    by (metis strip_front_suffix length_append le_add2)
  have "length (trim s) \<le> length (trim_start s)"
    unfolding trim_def trim_end_def using le by (metis length_rev)
  also have "\<dots> \<le> length s" unfolding trim_start_def by (rule le)
  finally show ?thesis .
qed

text \<open>A string whose first and last byte start no white-space encoding is left as it is.\<close>

lemma trim_id:
  assumes "s \<noteq> []" and "byte (hd s) > 32" "byte (hd s) < 128"
    and "byte (last s) > 32" "byte (last s) < 128"
  shows "trim s = s"
proof -
  have heads: "w \<in> set white_space \<Longrightarrow> w \<noteq> [] \<and> (byte (hd w) \<le> 32 \<or> byte (hd w) \<ge> 128)"
    for w by (auto simp: white_space_def byte_def)
  have lasts: "w \<in> set white_space \<Longrightarrow> w \<noteq> [] \<and> (byte (last w) \<le> 32 \<or> byte (last w) \<ge> 128)"
    for w by (auto simp: white_space_def byte_def)
  have "trim_start s = s"
    unfolding trim_start_def
  proof (rule strip_front_id)
    fix w assume w: "w \<in> set white_space"
    then have "w \<noteq> []" using heads by blast
    then show "w = [] \<or> \<not> starts_with w s"
      using assms heads[OF w] by (cases w; cases s) (auto simp: starts_with_def)
  qed
  moreover have "trim_end s = s"
  proof -
    have "strip_front (map rev white_space) (rev s) = rev s"
    proof (rule strip_front_id)
      fix w assume "w \<in> set (map rev white_space)"
      then obtain v where v: "v \<in> set white_space" "w = rev v" by auto
      obtain x xs where rs: "rev s = x # xs" using assms(1) by (cases "rev s") auto
      then have x: "x = last s" using assms(1) by (metis hd_rev list.sel(1))
      obtain y ys where rw: "rev v = y # ys" using lasts[OF v(1)] by (cases "rev v") auto
      then have y: "y = last v" using lasts[OF v(1)] by (metis hd_rev list.sel(1))
      have "x \<noteq> y" using x y assms lasts[OF v(1)] by auto
      then show "w = [] \<or> \<not> starts_with w (rev s)"
        by (simp add: starts_with_def rs rw v(2))
    qed
    then show ?thesis by (simp add: trim_end_def)
  qed
  ultimately show ?thesis by (simp add: trim_def)
qed

lemma split_on_not_Nil [simp]: "split_on c s \<noteq> []"
  by (induction s) (auto split: list.splits)

lemma split_on_append_sep:
  "c \<notin> set p \<Longrightarrow> split_on c (p @ c # s) = p # split_on c s"
  by (induction p) auto

lemma split_on_no_sep: "c \<notin> set p \<Longrightarrow> split_on c p = [p]"
  by (induction p) auto

lemma join_split_on: "join_with c (split_on c s) = s"
proof (induction s)
  case (Cons x s)
  obtain p ps where ps: "split_on c s = p # ps" using split_on_not_Nil by (meson list.exhaust)
  with Cons show ?case by (auto simp: join_with_def)
qed (simp add: join_with_def)

lemma split_once_append_sep: "c \<notin> set p \<Longrightarrow> split_once c (p @ c # s) = Some (p, s)"
  by (induction p) auto

lemma split_once_Some: "split_once c s = Some (l, r) \<Longrightarrow> s = l @ c # r \<and> c \<notin> set l"
  by (induction s arbitrary: l r) (auto split: if_splits option.splits)

text \<open>Visible ASCII bytes start no white-space encoding, so splitting a join at single spaces gives
  the words back.\<close>

definition visible :: "string \<Rightarrow> bool" where
  "visible s \<longleftrightarrow> s \<noteq> [] \<and> (\<forall>c\<in>set s. 32 < byte c \<and> byte c < 128)"

lemma white_space_heads:
  "w \<in> set white_space \<Longrightarrow> w \<noteq> [] \<and> (byte (hd w) \<le> 32 \<or> byte (hd w) \<ge> 128)"
  by (auto simp: white_space_def byte_def)

lemma no_white_space_at:
  assumes "32 < byte c" and "byte c < 128"
  shows "find (\<lambda>w. w \<noteq> [] \<and> starts_with w (c # s)) white_space = None"
proof -
  have "\<not> starts_with w (c # s)" if "w \<in> set white_space" for w
    using white_space_heads[OF that] assms by (cases w) (auto simp: starts_with_def)
  then show ?thesis by (auto simp: find_None_iff)
qed

lemma words_from_visible:
  "\<forall>c\<in>set p. 32 < byte c \<and> byte c < 128 \<Longrightarrow> words_from cur (p @ s) = words_from (cur @ p) s"
  by (induction p arbitrary: cur) (simp_all add: words_from.simps(2) no_white_space_at)

lemma find_space: "find (\<lambda>w. w \<noteq> [] \<and> starts_with w (CHR '' '' # s)) white_space = Some '' ''"
proof -
  have sp: "char_of (32 :: nat) = CHR '' ''" by code_simp
  have ne: "char_of n \<noteq> CHR '' ''" if "n < 32" for n :: nat
  proof
    assume "char_of n = CHR '' ''"
    then have "byte (char_of n) = byte CHR '' ''" by (rule arg_cong)
    moreover have "byte (char_of n) = n" using that by (intro byte_char_of) simp
    ultimately show False using that by (simp add: byte_def)
  qed
  show ?thesis unfolding white_space_def list.map sp by (simp add: starts_with_def ne)
qed

lemma split_whitespace_join:
  assumes "\<forall>t\<in>set ts. visible t"
  shows "split_whitespace (join_with CHR '' '' ts) = ts"
proof -
  have "words_from [] (t @ concat (map (\<lambda>q. CHR '' '' # q) qs)) = t # qs"
    if "visible t" "\<forall>q\<in>set qs. visible q" for t qs
    using that
  proof (induction qs arbitrary: t)
    case Nil
    then show ?case using words_from_visible[of t "[]" "[]"] by (simp add: visible_def)
  next
    case (Cons q qs)
    let ?rest = "q @ concat (map (\<lambda>q. CHR '' '' # q) qs)"
    have "words_from [] (t @ CHR '' '' # ?rest) = words_from t (CHR '' '' # ?rest)"
      using words_from_visible[of t "[]"] Cons.prems(1) by (simp add: visible_def)
    also have "\<dots> = t # words_from [] ?rest"
      using Cons.prems(1) by (simp add: words_from.simps(2) find_space visible_def)
    finally show ?case using Cons by simp
  qed
  then show ?thesis
    using assms by (cases ts) (simp_all add: split_whitespace_def join_with_def)
qed

lemma split_on_lines:
  "\<forall>l\<in>set ls. c \<notin> set l \<Longrightarrow> split_on c (concat (map (\<lambda>l. l @ [c]) ls)) = ls @ [[]]"
  by (induction ls) (simp_all add: split_on_append_sep)

lemma lines_unlines:
  assumes "\<forall>l\<in>set ls. CHR 0x0A \<notin> set l \<and> (l \<noteq> [] \<longrightarrow> last l \<noteq> CHR 0x0D)"
  shows "lines (concat (map (\<lambda>l. l @ [CHR 0x0A]) ls)) = ls"
proof -
  have "split_on CHR 0x0A (concat (map (\<lambda>l. l @ [CHR 0x0A]) ls)) = ls @ [[]]"
    by (rule split_on_lines) (use assms in blast)
  moreover have "map strip_cr ls = ls"
    using assms by (intro map_idI) (auto simp: strip_cr_def)
  ultimately show ?thesis by (simp add: lines_def)
qed

lemma char_of_eq: "n < 256 \<Longrightarrow> char_of n = c \<longleftrightarrow> byte c = n"
  by (auto simp: byte_def)

lemma starts_with_Cons [simp]: "starts_with (a # p) (c # s) \<longleftrightarrow> a = c \<and> starts_with p s"
  "starts_with [] s" "\<not> starts_with (a # p) []"
  by (auto simp: starts_with_def)

lemma white_space_rev:
  assumes "w \<in> set (map rev white_space)" and "starts_with w (c # s)" and "byte c < 128"
  shows "w = [c] \<and> byte c \<le> 32"
  using assms by (auto simp: white_space_def char_of_eq)

lemma white_space_fwd:
  assumes "w \<in> set white_space" and "starts_with w (c # s)" and "byte c < 128"
  shows "w = [c]"
  using assms by (auto simp: white_space_def char_of_eq)

text \<open>At one of the usual blanks the white space found is that blank.\<close>

lemma find_white:
  assumes "byte c \<in> {9, 10, 13, 32}"
  shows "find (\<lambda>w. w \<noteq> [] \<and> starts_with w (c # s)) white_space = Some [c]"
proof -
  let ?P = "\<lambda>w. w \<noteq> [] \<and> starts_with w (c # s)"
  have "[c] \<in> set white_space"
    using assms by (auto simp: white_space_def char_of_eq eq_commute[of c])
  then have "find ?P white_space \<noteq> None"
    unfolding find_None_iff by (metis list.distinct(1) starts_with_Cons(1,2))
  then obtain w where w: "find ?P white_space = Some w" by blast
  then have "w \<in> set white_space" "starts_with w (c # s)" by (auto simp: find_Some_iff)
  then have "w = [c]" using white_space_fwd[of w c s] assms by fastforce
  with w show ?thesis by simp
qed

lemma words_from_white:
  assumes "byte c \<in> {9, 10, 13, 32}"
  shows "words_from cur (c # s) = (if cur = [] then [] else [cur]) @ words_from [] s"
  by (simp add: words_from.simps(2) find_white[OF assms])

lemma words_from_token:
  assumes "visible t" and "byte c \<in> {9, 10, 13, 32}"
  shows "words_from [] (t @ c # s) = t # words_from [] s"
  using assms words_from_visible[of t "[]" "c # s"] by (simp add: visible_def words_from_white)

lemma strip_white_end:
  assumes "byte c \<in> {9, 10, 13, 32}"
  shows "strip_front (map rev white_space) (c # s) = strip_front (map rev white_space) s"
proof -
  let ?P = "\<lambda>w. w \<noteq> [] \<and> starts_with w (c # s)"
  have "[c] \<in> set (map rev white_space)"
    using assms by (auto simp: white_space_def char_of_eq eq_commute[of c])
  then have "find ?P (map rev white_space) \<noteq> None"
    unfolding find_None_iff by (metis list.distinct(1) starts_with_Cons(1,2))
  then obtain w where w: "find ?P (map rev white_space) = Some w" by blast
  then have "w \<in> set (map rev white_space)" "starts_with w (c # s)"
    by (auto simp: find_Some_iff)
  then have "w = [c]" using white_space_rev[of w c s] assms by fastforce
  with w show ?thesis by (subst strip_front.simps) simp
qed

lemma strip_white_start:
  assumes "byte c \<in> {9, 10, 13, 32}"
  shows "strip_front white_space (c # s) = strip_front white_space s"
  by (subst strip_front.simps) (simp add: find_white[OF assms])

text \<open>Indentation does not matter.\<close>

lemma trim_indent: "byte c \<in> {9, 10, 13, 32} \<Longrightarrow> trim (c # s) = trim s"
  by (simp only: trim_def trim_start_def strip_white_start)

lemma strip_end_visible:
  assumes "s \<noteq> []" and "32 < byte (last s)" and "byte (last s) < 128"
  shows "strip_front (map rev white_space) (rev s) = rev s"
proof -
  obtain xs where r: "rev s = last s # xs" using assms(1) by (metis hd_rev list.collapse rev_is_Nil_conv)
  have "\<not> starts_with w (rev s)" if "w \<in> set (map rev white_space)" for w
    using white_space_rev[OF that] assms(2,3) unfolding r by fastforce
  then show ?thesis by (intro strip_front_id) blast
qed

text \<open>A line of output: the text without its end of line.\<close>

lemma trim_line:
  assumes "s \<noteq> []" and "32 < byte (hd s)" "byte (hd s) < 128" and "32 < byte (last s)" "byte (last s) < 128"
  shows "trim (s @ [CHR 0x0A]) = s"
proof -
  obtain c t where s: "s = c # t" using assms(1) by (cases s) auto
  have "trim_start (s @ [CHR 0x0A]) = s @ [CHR 0x0A]"
    unfolding trim_start_def
  proof (rule strip_front_id)
    fix w assume w: "w \<in> set white_space"
    show "w = [] \<or> \<not> starts_with w (s @ [CHR 0x0A])"
      using white_space_heads[OF w] assms(2,3) by (cases w) (auto simp: s)
  qed
  moreover have "strip_front (map rev white_space) (CHR 0x0A # rev s) = rev s"
    using strip_white_end[of "CHR 0x0A" "rev s"] strip_end_visible[OF assms(1,4,5)] by (simp add: byte_def)
  ultimately show ?thesis by (simp add: trim_def trim_end_def)
qed

lemma trim_words:
  assumes "\<forall>t\<in>set ts. visible t" and "ts \<noteq> []"
  shows "trim (join_with CHR '' '' ts @ [CHR 0x0A]) = join_with CHR '' '' ts"
proof -
  obtain t us where ts: "ts = t # us" using assms(2) by (cases ts) auto
  have t: "visible t" using assms(1) ts by simp
  let ?j = "join_with CHR '' '' ts"
  have j: "?j = t @ concat (map (\<lambda>q. CHR '' '' # q) us)" by (simp add: ts join_with_def)
  have "hd ?j = hd t" using t by (simp add: j visible_def)
  moreover have "last ?j \<in> set (last ts)"
  proof (cases us rule: rev_cases)
    case Nil
    then show ?thesis using t by (simp add: ts join_with_def visible_def)
  next
    case (snoc vs v)
    then have "visible v" using assms(1) ts by simp
    then show ?thesis unfolding j by (simp add: ts snoc visible_def)
  qed
  moreover have "last ts \<in> set ts" using assms(2) by simp
  ultimately show ?thesis
    using t assms(1) by (intro trim_line) (auto simp: j visible_def)
qed

end
