(* ===== verification/Net_Text.thy ===== *)
theory Net_Text
  imports Crdt_Records Rust_Strings
begin

text \<open>
  Numbers and addresses as text: \<open>Display\<close> and \<open>FromStr\<close> of Rust's unsigned integers and of
  \<open>Ipv4Addr\<close>, and the bytes of IP addresses. Used wherever the daemon prints or parses them.
\<close>

section \<open>Decimal numbers\<close>

definition digit_char :: "nat \<Rightarrow> char" where
  "digit_char d = char_of (48 + d)"

function decimal :: "nat \<Rightarrow> string" where
  "decimal n = (if n < 10 then [digit_char n] else decimal (n div 10) @ [digit_char (n mod 10)])"
  by pat_completeness auto
termination by (relation "measure id") auto

declare decimal.simps [simp del]

definition digit_value :: "char \<Rightarrow> nat option" where
  "digit_value c = (if is_ascii_digit c then Some (byte c - 48) else None)"

text \<open>\<open>u<w>::from_str\<close>: an optional \<open>+\<close>, then at least one digit and nothing else; the value must fit.\<close>

fun decimal_digits :: "nat \<Rightarrow> string \<Rightarrow> nat option" where
  "decimal_digits acc [] = Some acc"
| "decimal_digits acc (c # s) =
     (case digit_value c of None \<Rightarrow> None | Some d \<Rightarrow> decimal_digits (10 * acc + d) s)"

definition parse_uint :: "nat \<Rightarrow> string \<Rightarrow> nat option" where
  "parse_uint max_value s =
     (let body = (if s \<noteq> [] \<and> hd s = CHR ''+'' then tl s else s)
      in if body = [] then None
         else (case decimal_digits 0 body of
                 None \<Rightarrow> None
               | Some v \<Rightarrow> if v \<le> max_value then Some v else None))"

section \<open>IPv4 addresses\<close>

definition show_ipv4 :: "ipv4 \<Rightarrow> string" where
  "show_ipv4 a = join_with CHR ''.'' (map (\<lambda>i. decimal (unat (octet a i))) [0..<4])"

text \<open>One group of \<open>Ipv4Addr::from_str\<close>: one to three digits, no leading zero, at most 255.\<close>

definition parse_octet :: "string \<Rightarrow> u8 option" where
  "parse_octet s =
     (if s = [] \<or> 3 < length s \<or> (hd s = CHR ''0'' \<and> 1 < length s) then None
      else (case decimal_digits 0 s of
              None \<Rightarrow> None
            | Some v \<Rightarrow> if v \<le> 255 then Some (of_nat v) else None))"

definition parse_ipv4 :: "string \<Rightarrow> ipv4 option" where
  "parse_ipv4 s =
     (case map parse_octet (split_on CHR ''.'' s) of
        [Some a, Some b, Some c, Some d] \<Rightarrow> Some (ipv4_of_octets a b c d)
      | _ \<Rightarrow> None)"

section \<open>Bytes of addresses\<close>

definition be16 :: "u8 \<Rightarrow> u8 \<Rightarrow> u16" where
  "be16 h l = push_bit 8 (ucast h) OR ucast l"

definition ipv6_of_bytes :: "u8 list \<Rightarrow> ipv6" where
  "ipv6_of_bytes bs = foldl (\<lambda>acc b. push_bit 8 acc OR ucast b) 0 bs"

definition ipv6_of_segments :: "u16 list \<Rightarrow> ipv6" where
  "ipv6_of_segments ss = foldl (\<lambda>acc s. push_bit 16 acc OR ucast s) 0 ss"

definition segment :: "ipv6 \<Rightarrow> nat \<Rightarrow> u16" where
  "segment a i = ucast (drop_bit (112 - 16 * i) a)"

text \<open>\<open>pkt.get(a..b)\<close>.\<close>

definition get_range :: "'a list \<Rightarrow> nat \<Rightarrow> nat \<Rightarrow> 'a list option" where
  "get_range xs a b = (if a \<le> b \<and> b \<le> length xs then Some (take (b - a) (drop a xs)) else None)"

section \<open>Lemmas\<close>

lemma digit_value_digit_char: "d < 10 \<Longrightarrow> digit_value (digit_char d) = Some d"
  by (simp add: digit_value_def digit_char_def is_ascii_digit_def byte_char_of)

lemma decimal_digits_append:
  "decimal_digits acc (s @ t) = (case decimal_digits acc s of None \<Rightarrow> None | Some v \<Rightarrow> decimal_digits v t)"
  by (induction s arbitrary: acc) (auto split: option.splits)

lemma decimal_digits_decimal: "decimal_digits acc (decimal n) = Some (acc * 10 ^ length (decimal n) + n)"
proof (induction n arbitrary: acc rule: decimal.induct)
  case (1 n)
  show ?case
  proof (cases "n < 10")
    case True
    then show ?thesis by (simp add: decimal.simps[of n] digit_value_digit_char)
  next
    case False
    have m: "n mod 10 < 10" by simp
    show ?thesis
      using False 1[OF False]
      by (simp add: decimal.simps[of n] decimal_digits_append digit_value_digit_char[OF m] algebra_simps)
  qed
qed

lemma decimal_digits_0: "decimal_digits 0 (decimal n) = Some n"
  using decimal_digits_decimal[of 0 n] by simp

lemma decimal_not_Nil [simp]: "decimal n \<noteq> []"
  by (subst decimal.simps) simp

lemma decimal_chars: "c \<in> set (decimal n) \<Longrightarrow> is_ascii_digit c"
proof (induction n rule: decimal.induct)
  case (1 n)
  have d: "is_ascii_digit (digit_char d)" if "d < 10" for d
    using that by (simp add: is_ascii_digit_def digit_char_def byte_char_of)
  have m: "n mod 10 < 10" by simp
  show ?case
    using 1 d[of n] d[OF m] by (subst (asm) (2) decimal.simps) (auto split: if_splits)
qed

lemma decimal_no_sep: "\<not> is_ascii_digit c \<Longrightarrow> c \<notin> set (decimal n)"
  using decimal_chars by blast

lemma parse_uint_decimal: "n \<le> m \<Longrightarrow> parse_uint m (decimal n) = Some n"
proof -
  have "hd (decimal n) \<noteq> CHR ''+''"
    using decimal_chars[of "hd (decimal n)" n] by (auto simp: is_ascii_digit_def byte_def)
  then show "n \<le> m \<Longrightarrow> parse_uint m (decimal n) = Some n"
    by (simp add: parse_uint_def decimal_digits_decimal)
qed

lemma decimal_inj: "decimal m = decimal n \<Longrightarrow> m = n"
  by (metis decimal_digits_0 option.inject)

lemma length_decimal_le: "n < 10 ^ k \<Longrightarrow> 0 < k \<Longrightarrow> length (decimal n) \<le> k"
proof (induction n arbitrary: k rule: decimal.induct)
  case (1 n)
  show ?case
  proof (cases "n < 10")
    case True
    with 1 show ?thesis by (simp add: decimal.simps[of n])
  next
    case False
    obtain j where k: "k = Suc j" using 1(3) by (cases k) auto
    have "j \<noteq> 0" using 1(2) False by (cases j) (simp_all add: k)
    with k have j: "k = Suc j" "0 < j" by auto
    with 1(2) have "n div 10 < 10 ^ j" by (simp add: less_mult_imp_div_less mult.commute)
    with 1(1)[OF False] False j show ?thesis by (simp add: decimal.simps[of n])
  qed
qed

lemma decimal_leading_zero: "hd (decimal n) = CHR ''0'' \<Longrightarrow> n = 0"
proof (induction n rule: decimal.induct)
  case (1 n)
  show ?case
  proof (cases "n < 10")
    case True
    then have "digit_value CHR ''0'' = Some n"
      using 1(2) digit_value_digit_char[OF True] by (simp add: decimal.simps[of n])
    then show ?thesis by (simp add: digit_value_def is_ascii_digit_def byte_def)
  next
    case False
    then have "hd (decimal (n div 10)) = CHR ''0''"
      using 1(2) by (simp add: decimal.simps[of n])
    with 1(1)[OF False] False show ?thesis by simp
  qed
qed

lemma parse_octet_decimal: "parse_octet (decimal (unat b)) = Some b" for b :: u8
proof -
  have "unat b < 2 ^ LENGTH(8)" by (rule unsigned_less)
  then have b: "unat b \<le> 255" "unat b < 10 ^ 3" by auto
  have z: "length (decimal 0) = 1" by (simp add: decimal.simps[of 0])
  have "\<not> (hd (decimal (unat b)) = CHR ''0'' \<and> 1 < length (decimal (unat b)))"
    using decimal_leading_zero[of "unat b"] z by auto
  with b length_decimal_le[OF b(2)] show ?thesis
    by (auto simp: parse_octet_def decimal_digits_decimal)
qed

lemma ipv4_octets: "ipv4_of_octets (octet a 0) (octet a 1) (octet a 2) (octet a 3) = a"
proof (rule bit_word_eqI)
  fix n assume n: "n < LENGTH(32)"
  then consider "n < 8" | "8 \<le> n" "n < 16" | "16 \<le> n" "n < 24" | "24 \<le> n" by linarith
  then show "bit (ipv4_of_octets (octet a 0) (octet a 1) (octet a 2) (octet a 3)) n = bit a n"
    using n by cases (simp_all add: ipv4_of_octets_def octet_def bit_simps less_diff_conv2)
qed

lemma octet_ipv4_of_octets:
  "octet (ipv4_of_octets a b c d) 0 = a" "octet (ipv4_of_octets a b c d) 1 = b"
  "octet (ipv4_of_octets a b c d) 2 = c" "octet (ipv4_of_octets a b c d) 3 = d"
  by (intro bit_word_eqI;
      auto simp: ipv4_of_octets_def octet_def bit_simps dest: bit_imp_le_length)+

lemma parse_show_ipv4: "parse_ipv4 (show_ipv4 a) = Some a"
proof -
  have dot: "\<not> is_ascii_digit CHR ''.''" by (simp add: is_ascii_digit_def byte_def)
  have four: "[0..<4] = [0, 1, 2, 3 :: nat]" by (simp add: upt_rec)
  have "split_on CHR ''.'' (show_ipv4 a) = map (\<lambda>i. decimal (unat (octet a i))) [0..<4]"
    unfolding show_ipv4_def four join_with_def
    using decimal_no_sep[OF dot] by (simp add: split_on_append_sep split_on_no_sep)
  then show ?thesis
    using ipv4_octets[of a] by (simp add: parse_ipv4_def four parse_octet_decimal)
qed

lemma show_ipv4_chars: "c \<in> set (show_ipv4 a) \<Longrightarrow> is_ascii_digit c \<or> c = CHR ''.''"
  by (auto simp: show_ipv4_def join_with_def upt_rec dest: decimal_chars)

lemma show_ipv4_not_Nil [simp]: "show_ipv4 a \<noteq> []"
  by (simp add: show_ipv4_def join_with_def upt_rec)

lemma digit_visible: "is_ascii_digit c \<Longrightarrow> 32 < byte c \<and> byte c < 128"
  by (simp add: is_ascii_digit_def)

lemma show_ipv4_visible: "visible (show_ipv4 a)"
proof -
  have "32 < byte CHR ''.'' \<and> byte CHR ''.'' < 128" by (simp add: byte_def)
  then show ?thesis
    using show_ipv4_chars[of _ a] digit_visible unfolding visible_def by fastforce
qed

lemma decimal_visible: "visible (decimal n)"
  using decimal_chars[of _ n] digit_visible by (auto simp: visible_def)

end
