(* ===== verification/Alloc.thy ===== *)
theory Alloc
  imports Crdt_Records
begin

text \<open>
  Subnet allocation, \<open>alloc.rs\<close>: the deterministic slot walk, the fallback to smaller subnets, and
  the prefix arithmetic of the selector; and the first-boot cooldown of \<open>claim_cooldown.rs\<close>.

  The CIDR type comes from the crate \<open>ipnet\<close>, whose \<open>network\<close> and \<open>contains\<close> are parameters of
  the definitions. What they are documented to do is the locale \<open>ipnet_laws\<close>: \<open>network\<close> is the
  first address of the block and \<open>contains\<close> is inclusion of blocks. \<open>std_network\<close> and
  \<open>std_contains\<close> are functions that satisfy it. The hash crate \<open>blake3\<close> is a parameter without
  laws: the results hold for every hash.

  A failed assertion is \<open>Inl\<close>; shifts are those of a release build, which reduces the shift amount
  modulo the width.
\<close>

section \<open>Blocks of addresses\<close>

definition net_size :: "nat \<Rightarrow> nat" where
  "net_size p = 2 ^ (32 - p)"

definition net_first :: "Ipv4Net \<Rightarrow> nat" where
  "net_first n = unat (net_addr n) div net_size (prefix_len n) * net_size (prefix_len n)"

definition net_addrs :: "Ipv4Net \<Rightarrow> nat set" where
  "net_addrs n = {net_first n ..< net_first n + net_size (prefix_len n)}"

definition std_network :: "Ipv4Net \<Rightarrow> ipv4" where
  "std_network n = of_nat (net_first n)"

definition std_contains :: "Ipv4Net \<Rightarrow> Ipv4Net \<Rightarrow> bool" where
  "std_contains a b \<longleftrightarrow>
     net_first a \<le> net_first b \<and>
     net_first b + net_size (prefix_len b) \<le> net_first a + net_size (prefix_len a)"

section \<open>\<open>alloc.rs\<close>\<close>

definition SMALLEST_DEVICE_PREFIX :: nat where
  "SMALLEST_DEVICE_PREFIX = 30"

definition DEFAULT_MESH_SPACE :: Ipv4Net where
  "DEFAULT_MESH_SPACE = Ipv4Net (ipv4_of_octets 10 42 0 0) 16"

text \<open>\<open>Ipv4Net::new\<close> fails exactly on a prefix longer than 32.\<close>

definition ipv4net_new :: "ipv4 \<Rightarrow> nat \<Rightarrow> Ipv4Net option" where
  "ipv4net_new a p = (if p \<le> 32 then Some (Ipv4Net a p) else None)"

definition shl_u32 :: "u32 \<Rightarrow> nat \<Rightarrow> u32" where
  "shl_u32 w n = push_bit (n mod 32) w"

definition from_le_bytes :: "u8 list \<Rightarrow> nat" where
  "from_le_bytes bs = foldr (\<lambda>b acc. unat b + 256 * acc) bs 0"

definition overlaps_any :: "(Ipv4Net \<Rightarrow> Ipv4Net \<Rightarrow> bool) \<Rightarrow> Ipv4Net \<Rightarrow> Ipv4Net list \<Rightarrow> bool" where
  "overlaps_any contains candidate claimed \<longleftrightarrow>
     list_ex (\<lambda>c. contains c candidate \<or> contains candidate c) claimed"

text \<open>The walk, with the number of offsets still to try.\<close>

fun pick_loop ::
  "(Ipv4Net \<Rightarrow> Ipv4Net \<Rightarrow> bool) \<Rightarrow> Ipv4Net list \<Rightarrow> u32 \<Rightarrow> u32 \<Rightarrow> nat \<Rightarrow> nat \<Rightarrow> nat \<Rightarrow> nat \<Rightarrow> nat \<Rightarrow>
   Ipv4Net option" where
  "pick_loop contains claimed base_addr slot_size target num_slots preferred offset 0 = None"
| "pick_loop contains claimed base_addr slot_size target num_slots preferred offset (Suc left) =
     (let slot_idx = (preferred + offset) mod num_slots;
          slot_addr = base_addr + of_nat slot_idx * slot_size
      in (case ipv4net_new slot_addr target of
            None \<Rightarrow> None
          | Some candidate \<Rightarrow>
              if \<not> overlaps_any contains candidate claimed then Some candidate
              else pick_loop contains claimed base_addr slot_size target num_slots preferred (offset + 1) left))"

definition pick_subnet ::
  "(Ipv4Net \<Rightarrow> ipv4) \<Rightarrow> (Ipv4Net \<Rightarrow> Ipv4Net \<Rightarrow> bool) \<Rightarrow> (string \<Rightarrow> u8 list) \<Rightarrow>
   string \<Rightarrow> Ipv4Net list \<Rightarrow> Ipv4Net \<Rightarrow> nat \<Rightarrow> string + Ipv4Net option" where
  "pick_subnet network contains blake3 node_id claimed base target =
     (if target < prefix_len base then Inl ''target_prefix_len cannot be smaller than base prefix''
      else if 32 < target then Inl ''target_prefix_len exceeds 32''
      else
        (let slot_bits = target - prefix_len base;
             num_slots = 2 ^ slot_bits;
             slot_size = (if target = 32 then 1 else shl_u32 1 (32 - target));
             base_addr = network base;
             preferred = from_le_bytes (take 8 (blake3 node_id)) mod num_slots
         in Inr (pick_loop contains claimed base_addr slot_size target num_slots preferred 0 num_slots)))"

definition bump_larger_subnet :: "nat \<Rightarrow> nat \<Rightarrow> nat option" where
  "bump_larger_subnet p min_prefix = (if p \<le> min_prefix then None else Some (p - 1))"

definition bump_smaller_subnet :: "nat \<Rightarrow> nat option" where
  "bump_smaller_subnet p = (if SMALLEST_DEVICE_PREFIX \<le> p then None else Some (p + 1))"

function pick_subnet_or_smaller ::
  "(Ipv4Net \<Rightarrow> ipv4) \<Rightarrow> (Ipv4Net \<Rightarrow> Ipv4Net \<Rightarrow> bool) \<Rightarrow> (string \<Rightarrow> u8 list) \<Rightarrow>
   string \<Rightarrow> Ipv4Net list \<Rightarrow> Ipv4Net \<Rightarrow> nat \<Rightarrow> string + Ipv4Net option" where
  "pick_subnet_or_smaller network contains blake3 node_id claimed base prefix =
     (case pick_subnet network contains blake3 node_id claimed base prefix of
        Inl panic \<Rightarrow> Inl panic
      | Inr (Some net) \<Rightarrow> Inr (Some net)
      | Inr None \<Rightarrow>
          (case bump_smaller_subnet prefix of
             Some next_prefix \<Rightarrow>
               pick_subnet_or_smaller network contains blake3 node_id claimed base next_prefix
           | None \<Rightarrow> Inr None))"
  by pat_completeness auto
termination
  by (relation "measure (\<lambda>(_, _, _, _, _, _, p). SMALLEST_DEVICE_PREFIX - p)")
    (auto simp: bump_smaller_subnet_def split: if_splits)

declare pick_subnet_or_smaller.simps [simp del]

definition usable_hosts :: "nat \<Rightarrow> u32" where
  "usable_hosts p =
     (if p = 32 then 1 else if p = 31 then 2 else if p \<le> 30 then shl_u32 1 (32 - p) - 2 else 0)"

definition total_addresses :: "nat \<Rightarrow> u32" where
  "total_addresses p = (if 32 \<le> p then 1 else shl_u32 1 (32 - p))"

section \<open>\<open>claim_cooldown.rs\<close>\<close>

text \<open>Durations and instants are nanosecond counts; \<open>elapsed\<close> reads the monotonic clock.\<close>

record ClaimCooldown =
  started_at :: nat
  duration :: nat
  peer_detected :: bool

definition DEFAULT_COOLDOWN :: nat where
  "DEFAULT_COOLDOWN = 10 * 1000000000"

definition cooldown_new :: "nat \<Rightarrow> nat \<Rightarrow> ClaimCooldown" where
  "cooldown_new now d = \<lparr>started_at = now, duration = d, peer_detected = False\<rparr>"

definition default_cooldown :: "nat \<Rightarrow> ClaimCooldown" where
  "default_cooldown now = cooldown_new now DEFAULT_COOLDOWN"

definition note_peer_detected :: "ClaimCooldown \<Rightarrow> ClaimCooldown" where
  "note_peer_detected c = c\<lparr>peer_detected := True\<rparr>"

definition should_publish :: "ClaimCooldown \<Rightarrow> nat \<Rightarrow> bool" where
  "should_publish c now \<longleftrightarrow> \<not> peer_detected c \<and> duration c \<le> now - started_at c"

definition should_abort :: "ClaimCooldown \<Rightarrow> bool" where
  "should_abort c \<longleftrightarrow> peer_detected c"

section \<open>CIDR arithmetic\<close>

lemma net_size_pos [simp]: "0 < net_size p"
  by (simp add: net_size_def)

lemma net_size_nonzero [simp]: "net_size p \<noteq> 0"
  by (simp add: net_size_def)

lemma unat_u32: "a < 2 ^ 32 \<Longrightarrow> unat (of_nat a :: u32) = a"
  by (simp add: unat_of_nat take_bit_nat_eq_self)

lemma net_size_dvd: "p \<le> q \<Longrightarrow> net_size q dvd net_size p"
  by (simp add: net_size_def le_imp_power_dvd)

lemma net_size_split: "b \<le> p \<Longrightarrow> p \<le> 32 \<Longrightarrow> 2 ^ (p - b) * net_size p = net_size b"
  by (simp add: net_size_def flip: power_add)

lemma net_first_dvd: "net_size (prefix_len n) dvd net_first n"
  by (simp add: net_first_def)

lemma net_first_le: "net_first n \<le> unat (net_addr n)"
  by (simp add: net_first_def)

lemma net_last_le: "net_first n + net_size (prefix_len n) \<le> 2 ^ 32"
proof -
  let ?s = "net_size (prefix_len n)"
  have a: "unat (net_addr n) < 2 ^ LENGTH(32)" by (rule unsigned_less)
  have "?s dvd 2 ^ 32" unfolding net_size_def by (rule le_imp_power_dvd) simp
  then obtain k where k: "2 ^ 32 = ?s * k" by (elim dvdE)
  have "unat (net_addr n) div ?s < k"
    using a k by (simp add: div_less_iff_less_mult mult.commute)
  then have "Suc (unat (net_addr n) div ?s) * ?s \<le> k * ?s" by (intro mult_le_mono1) simp
  then show ?thesis unfolding k net_first_def by (simp add: mult.commute)
qed

text \<open>Aligned blocks nest: two blocks are disjoint or one includes the other.\<close>

lemma aligned_overlap:
  fixes a b s t :: nat
  assumes "s dvd a" and "t dvd b" and "s dvd t" and "0 < s" and "x \<in> {a ..< a + s}" and "x \<in> {b ..< b + t}"
  shows "b \<le> a \<and> a + s \<le> b + t"
proof -
  from assms obtain i j k where e: "a = s * i" "b = t * j" "t = s * k" by (auto elim!: dvdE)
  have "s * i < s * (k * j + k)" and "s * (k * j) < s * (i + 1)"
    using assms(5,6) by (auto simp: e algebra_simps)
  then have "i < k * j + k" and "k * j < i + 1" unfolding nat_mult_less_cancel1[OF assms(4)] by blast+
  then have "s * (k * j) \<le> s * i" and "s * (i + 1) \<le> s * (k * j + k)"
    by (intro mult_le_mono2; simp)+
  then show ?thesis by (auto simp: e algebra_simps)
qed

lemma overlap_nests:
  "net_addrs a \<inter> net_addrs b \<noteq> {} \<longleftrightarrow> net_addrs a \<subseteq> net_addrs b \<or> net_addrs b \<subseteq> net_addrs a"
proof
  assume "net_addrs a \<inter> net_addrs b \<noteq> {}"
  then obtain x where x: "x \<in> net_addrs a" "x \<in> net_addrs b" by blast
  consider "prefix_len a \<le> prefix_len b" | "prefix_len b \<le> prefix_len a" by linarith
  then show "net_addrs a \<subseteq> net_addrs b \<or> net_addrs b \<subseteq> net_addrs a"
  proof cases
    case 1
    from aligned_overlap[OF net_first_dvd net_first_dvd net_size_dvd[OF 1] net_size_pos] x
    have "net_addrs b \<subseteq> net_addrs a" by (force simp: net_addrs_def)
    then show ?thesis ..
  next
    case 2
    from aligned_overlap[OF net_first_dvd net_first_dvd net_size_dvd[OF 2] net_size_pos] x
    have "net_addrs a \<subseteq> net_addrs b" by (force simp: net_addrs_def)
    then show ?thesis ..
  qed
next
  assume "net_addrs a \<subseteq> net_addrs b \<or> net_addrs b \<subseteq> net_addrs a"
  moreover have "net_first n \<in> net_addrs n" for n by (simp add: net_addrs_def)
  ultimately show "net_addrs a \<inter> net_addrs b \<noteq> {}" by blast
qed

lemma std_contains_iff: "std_contains a b \<longleftrightarrow> net_addrs b \<subseteq> net_addrs a"
  using net_size_pos[of "prefix_len b"] by (auto simp: std_contains_def net_addrs_def)

lemma net_first_aligned:
  "net_size p dvd a \<Longrightarrow> a < 2 ^ 32 \<Longrightarrow> net_first (Ipv4Net (of_nat a) p) = a"
  by (simp add: net_first_def unat_of_nat take_bit_nat_eq_self)

lemma unat_shl_u32: "p \<noteq> 0 \<Longrightarrow> p \<le> 32 \<Longrightarrow> unat (shl_u32 1 (32 - p)) = net_size p"
proof -
  assume p: "p \<noteq> 0" "p \<le> 32"
  then have lt: "32 - p < 32" by simp
  then have "unat (push_bit (32 - p) 1 :: u32) = 2 ^ (32 - p)"
    by (simp add: unsigned_push_bit_eq take_bit_nat_eq_self push_bit_nat_def del: push_bit_of_1)
  with lt show ?thesis by (simp add: shl_u32_def net_size_def)
qed

section \<open>The interface of the CIDR crate\<close>

locale ipnet_laws =
  fixes network :: "Ipv4Net \<Rightarrow> ipv4"
    and contains :: "Ipv4Net \<Rightarrow> Ipv4Net \<Rightarrow> bool"
  assumes network_first: "unat (network n) = net_first n"
    and contains_iff: "contains a b \<longleftrightarrow> net_addrs b \<subseteq> net_addrs a"
begin

lemma overlaps_any_iff:
  "overlaps_any contains c claimed \<longleftrightarrow> (\<exists>d\<in>set claimed. net_addrs c \<inter> net_addrs d \<noteq> {})"
  unfolding overlaps_any_def contains_iff list_ex_iff overlap_nests by blast

end

interpretation std: ipnet_laws std_network std_contains
proof
  fix n a b
  have "net_first n < 2 ^ 32" using net_last_le[of n] net_size_pos[of "prefix_len n"] by linarith
  then show "unat (std_network n) = net_first n"
    by (simp add: std_network_def unat_of_nat take_bit_nat_eq_self)
  show "std_contains a b \<longleftrightarrow> net_addrs b \<subseteq> net_addrs a" by (rule std_contains_iff)
qed

text \<open>The slots of size \<open>p\<close> of a block, and the ones no claim touches.\<close>

definition slot :: "Ipv4Net \<Rightarrow> nat \<Rightarrow> nat \<Rightarrow> Ipv4Net" where
  "slot base p i = Ipv4Net (of_nat (net_first base + i * net_size p)) p"

definition free_slot :: "Ipv4Net list \<Rightarrow> Ipv4Net \<Rightarrow> nat \<Rightarrow> nat \<Rightarrow> bool" where
  "free_slot claimed base p i \<longleftrightarrow>
     i < 2 ^ (p - prefix_len base) \<and> (\<forall>d\<in>set claimed. net_addrs (slot base p i) \<inter> net_addrs d = {})"

lemma slot_bounds:
  assumes "prefix_len base \<le> p" and "p \<le> 32" and "i < 2 ^ (p - prefix_len base)"
  shows "net_first base + i * net_size p + net_size p \<le> net_first base + net_size (prefix_len base)"
proof -
  have "(i + 1) * net_size p \<le> 2 ^ (p - prefix_len base) * net_size p"
    using assms(3) by (intro mult_le_mono1) simp
  then show ?thesis using net_size_split[OF assms(1,2)] by simp
qed

lemma slot_first:
  assumes "prefix_len base \<le> p" and "p \<le> 32" and "i < 2 ^ (p - prefix_len base)"
  shows "net_first (slot base p i) = net_first base + i * net_size p"
    and "unat (net_addr (slot base p i)) = net_first base + i * net_size p"
proof -
  have lt: "net_first base + i * net_size p < 2 ^ 32"
    using slot_bounds[OF assms] net_last_le[of base] net_size_pos[of p] by linarith
  have "net_size p dvd net_first base + i * net_size p"
    using net_first_dvd[of base] net_size_dvd[OF assms(1)] by (meson dvd_add dvd_trans dvd_triv_right)
  with lt show "net_first (slot base p i) = net_first base + i * net_size p"
    unfolding slot_def by (intro net_first_aligned)
  from lt show "unat (net_addr (slot base p i)) = net_first base + i * net_size p"
    by (simp only: slot_def Ipv4Net.sel unat_u32)
qed

lemma slot_inside:
  assumes "prefix_len base \<le> p" and "p \<le> 32" and "i < 2 ^ (p - prefix_len base)"
  shows "net_addrs (slot base p i) \<subseteq> net_addrs base"
  using slot_bounds[OF assms] slot_first(1)[OF assms]
  by (auto simp: net_addrs_def slot_def)

lemma rotation_covers:
  fixes n p i :: nat
  assumes "i < n"
  shows "\<exists>off<n. (p + off) mod n = i"
proof (intro exI conjI)
  let ?off = "(i + (n - p mod n)) mod n"
  show "?off < n" using assms by simp
  have "(p + ?off) mod n = (p mod n + (i + (n - p mod n))) mod n"
    by (simp add: mod_add_left_eq mod_add_right_eq)
  also have "p mod n + (i + (n - p mod n)) = i + n"
    using mod_less_divisor[of n p] assms by linarith
  finally show "(p + ?off) mod n = i" using assms by simp
qed

text \<open>The walk finds the first free slot after the preferred one, and fails only when none is left.\<close>

context ipnet_laws
begin

lemma pick_loop_spec:
  assumes "prefix_len base \<le> p" and "p \<le> 32" and "base_addr = network base"
    and "unat sz = net_size p \<or> p = prefix_len base" and "n = 2 ^ (p - prefix_len base)"
  shows "case pick_loop contains claimed base_addr sz p n preferred off left of
      Some net \<Rightarrow> (\<exists>i. net = slot base p i \<and> free_slot claimed base p i)
    | None \<Rightarrow> (\<forall>o'. off \<le> o' \<and> o' < off + left \<longrightarrow> \<not> free_slot claimed base p ((preferred + o') mod n))"
proof (induction left arbitrary: off)
  case (Suc left)
  let ?i = "(preferred + off) mod n"
  have i: "?i < 2 ^ (p - prefix_len base)" using assms(5) by simp
  have "base_addr + of_nat ?i * sz = of_nat (net_first base + ?i * net_size p)"
  proof (cases "p = prefix_len base")
    case True
    then have "?i = 0" using i by simp
    then show ?thesis by (simp add: assms(3) flip: network_first)
  next
    case False
    have "sz = of_nat (unat sz)" by simp
    with False have "sz = of_nat (net_size p)" using assms(4) by metis
    then show ?thesis by (simp add: assms(3) flip: network_first)
  qed
  then have cand: "ipv4net_new (base_addr + of_nat ?i * sz) p = Some (slot base p ?i)"
    using assms(2) by (simp add: ipv4net_new_def slot_def)
  have free: "\<not> overlaps_any contains (slot base p ?i) claimed \<longleftrightarrow> free_slot claimed base p ?i"
    using i by (auto simp: overlaps_any_iff free_slot_def)
  show ?case
  proof (cases "free_slot claimed base p ?i")
    case True
    with free show ?thesis by (auto simp: cand Let_def)
  next
    case False
    then have step: "pick_loop contains claimed base_addr sz p n preferred off (Suc left) =
        pick_loop contains claimed base_addr sz p n preferred (off + 1) left"
      using free by (simp add: cand Let_def)
    have "\<not> free_slot claimed base p ((preferred + o') mod n)"
      if "\<forall>o'. off + 1 \<le> o' \<and> o' < off + 1 + left \<longrightarrow> \<not> free_slot claimed base p ((preferred + o') mod n)"
        "off \<le> o'" "o' < off + Suc left" for o'
      using that False by (cases "o' = off") auto
    then show ?thesis unfolding step using Suc.IH[of "off + 1"] by (auto split: option.splits)
  qed
qed auto

lemma pick_subnet_spec:
  assumes "prefix_len base \<le> p" and "p \<le> 32"
  shows "\<exists>r. pick_subnet network contains blake3 node claimed base p = Inr r \<and>
    (case r of
       Some net \<Rightarrow> \<exists>i. net = slot base p i \<and> free_slot claimed base p i
     | None \<Rightarrow> \<forall>i. \<not> free_slot claimed base p i)"
proof -
  let ?n = "2 ^ (p - prefix_len base) :: nat"
  let ?size = "if p = 32 then 1 else shl_u32 1 (32 - p)"
  let ?pref = "from_le_bytes (take 8 (blake3 node)) mod ?n"
  let ?r = "pick_loop contains claimed (network base) ?size p ?n ?pref 0 ?n"
  have size: "unat ?size = net_size p \<or> p = prefix_len base"
    using assms unat_shl_u32[of p] by (cases "p = 0") (auto simp: net_size_def)
  have r: "pick_subnet network contains blake3 node claimed base p = Inr ?r"
    using assms by (simp add: pick_subnet_def Let_def)
  note spec = pick_loop_spec[OF assms refl size refl, where claimed = claimed and preferred = ?pref and off = 0 and left = ?n]
  have "\<not> free_slot claimed base p i" if "?r = None" for i
  proof (cases "i < ?n")
    case True
    from rotation_covers[OF this, of ?pref] obtain o' where "o' < ?n" "(?pref + o') mod ?n = i" by blast
    with spec that show ?thesis by auto
  qed (simp add: free_slot_def)
  with r spec show ?thesis by (cases ?r) auto
qed

end

section \<open>Every block inside the base is a slot\<close>

lemma inside_is_slot:
  assumes "prefix_len base \<le> p" and "p \<le> 32" and "prefix_len net = p" and "net_addrs net \<subseteq> net_addrs base"
  shows "\<exists>i<2 ^ (p - prefix_len base). net_addrs net = net_addrs (slot base p i)"
proof -
  have b: "net_first base \<le> net_first net"
    "net_first net + net_size p \<le> net_first base + net_size (prefix_len base)"
    using assms(3,4) by (auto simp: net_addrs_def)
  have "net_size p dvd net_first net - net_first base"
    using net_first_dvd[of net] net_first_dvd[of base] net_size_dvd[OF assms(1)] assms(3)
    by (metis dvd_diff_nat dvd_trans)
  then obtain i where "net_first net - net_first base = net_size p * i" by (elim dvdE)
  with b(1) have i: "net_first net = net_first base + i * net_size p" by (simp add: mult.commute)
  have "i * net_size p + net_size p \<le> 2 ^ (p - prefix_len base) * net_size p"
    using b(2) unfolding i net_size_split[OF assms(1,2)] by simp
  then have "(i + 1) * net_size p \<le> 2 ^ (p - prefix_len base) * net_size p" by simp
  then have lt: "i < 2 ^ (p - prefix_len base)" unfolding mult_le_cancel2 by simp
  with slot_first(1)[OF assms(1,2) lt] i assms(3) show ?thesis
    by (auto simp: net_addrs_def slot_def)
qed

definition placeable :: "Ipv4Net list \<Rightarrow> Ipv4Net \<Rightarrow> nat \<Rightarrow> Ipv4Net \<Rightarrow> bool" where
  "placeable claimed base p net \<longleftrightarrow>
     prefix_len net = p \<and> net_addrs net \<subseteq> net_addrs base \<and>
     (\<forall>d\<in>set claimed. net_addrs net \<inter> net_addrs d = {})"

lemma free_slot_placeable:
  assumes "prefix_len base \<le> p" and "p \<le> 32"
  shows "(\<exists>i. free_slot claimed base p i) \<longleftrightarrow> (\<exists>net. placeable claimed base p net)"
    and "free_slot claimed base p i \<Longrightarrow>
      placeable claimed base p (slot base p i) \<and> unat (net_addr (slot base p i)) = net_first (slot base p i)"
proof -
  show *: "placeable claimed base p (slot base p i) \<and> unat (net_addr (slot base p i)) = net_first (slot base p i)"
    if "free_slot claimed base p i" for i
    using that slot_inside[OF assms] slot_first[OF assms]
    by (auto simp: free_slot_def placeable_def slot_def)
  show "(\<exists>i. free_slot claimed base p i) \<longleftrightarrow> (\<exists>net. placeable claimed base p net)"
  proof
    assume "\<exists>net. placeable claimed base p net"
    then obtain net where n: "placeable claimed base p net" by blast
    then obtain i where "i < 2 ^ (p - prefix_len base)" "net_addrs net = net_addrs (slot base p i)"
      using inside_is_slot[OF assms, of net] unfolding placeable_def by blast
    with n show "\<exists>i. free_slot claimed base p i" by (auto simp: free_slot_def placeable_def)
  qed (use * in blast)
qed

section \<open>Properties\<close>

lemma pick_sound:
  assumes "ipnet_laws network contains" and "prefix_len base \<le> target" and "target \<le> 32"
  shows "\<exists>r. pick_subnet network contains blake3 node_id claimed base target = Inr r \<and>
    (case r of
       Some net \<Rightarrow> placeable claimed base target net \<and> unat (net_addr net) = net_first net
     | None \<Rightarrow> \<nexists>net. placeable claimed base target net)"
  using ipnet_laws.pick_subnet_spec[OF assms, of blake3 node_id claimed]
    free_slot_placeable[OF assms(2,3), of claimed]
  by (auto split: option.splits)

text \<open>C9. The allocator is sound and complete: for a prefix between that of the base and 32 it never
  panics; the block it returns has the requested size, is aligned, lies inside the base and shares
  no address with any claim of any size; it returns nothing only when no block of that size in the
  base is free. Any other prefix trips an assertion.\<close>

theorem pick_subnet_correct:
  assumes "ipnet_laws network contains"
  shows "if prefix_len base \<le> target \<and> target \<le> 32
         then \<exists>r. pick_subnet network contains blake3 node_id claimed base target = Inr r \<and>
              (case r of
                 Some net \<Rightarrow> placeable claimed base target net \<and> unat (net_addr net) = net_first net
               | None \<Rightarrow> \<nexists>net. placeable claimed base target net)
         else \<exists>msg. pick_subnet network contains blake3 node_id claimed base target = Inl msg"
proof (cases "prefix_len base \<le> target \<and> target \<le> 32")
  case True
  then show ?thesis using pick_sound[OF assms] by simp
next
  case False
  then show ?thesis by (auto simp: pick_subnet_def)
qed

lemma std_ipnet_laws: "ipnet_laws std_network std_contains"
  by unfold_locales

text \<open>Witness of C9: in 10.42.0.0/16 with 10.42.0.0/17 claimed.\<close>

theorem pick_subnet_correct_witness:
  "\<exists>r. pick_subnet std_network std_contains (\<lambda>_. replicate 32 0) ''n'' [Ipv4Net 0x0A2A0000 17]
          (Ipv4Net 0x0A2A0000 16) 24 = Inr r \<and>
       (case r of
          Some net \<Rightarrow> placeable [Ipv4Net 0x0A2A0000 17] (Ipv4Net 0x0A2A0000 16) 24 net \<and>
                      unat (net_addr net) = net_first net
        | None \<Rightarrow> \<nexists>net. placeable [Ipv4Net 0x0A2A0000 17] (Ipv4Net 0x0A2A0000 16) 24 net)"
  using pick_subnet_correct[OF std_ipnet_laws, of "Ipv4Net 0x0A2A0000 16" 24
      "\<lambda>_. replicate 32 0" "''n''" "[Ipv4Net 0x0A2A0000 17]"] by simp

text \<open>The specification of the degrading allocator: the largest block that fits at or below the
  request.\<close>

definition best_fit :: "Ipv4Net list \<Rightarrow> Ipv4Net \<Rightarrow> nat \<Rightarrow> Ipv4Net option \<Rightarrow> bool" where
  "best_fit claimed base target r \<longleftrightarrow>
     (case r of
        Some net \<Rightarrow> target \<le> prefix_len net \<and> placeable claimed base (prefix_len net) net \<and>
          (\<forall>p. target \<le> p \<and> p < prefix_len net \<longrightarrow> (\<nexists>n. placeable claimed base p n))
      | None \<Rightarrow>
          \<forall>p. target \<le> p \<and> p \<le> max target SMALLEST_DEVICE_PREFIX \<longrightarrow> (\<nexists>n. placeable claimed base p n))"

lemma best_fit_step:
  assumes "best_fit claimed base (target + 1) r" and "\<nexists>n. placeable claimed base target n"
    and "target < SMALLEST_DEVICE_PREFIX"
  shows "best_fit claimed base target r"
proof -
  have ext: "\<nexists>n. placeable claimed base p n"
    if "target \<le> p" "target + 1 \<le> p \<longrightarrow> (\<nexists>n. placeable claimed base p n)" for p
    using that assms(2) by (cases "p = target") auto
  show ?thesis
  proof (cases r)
    case None
    show ?thesis
      unfolding best_fit_def None option.case
    proof (intro allI impI)
      fix p assume p: "target \<le> p \<and> p \<le> max target SMALLEST_DEVICE_PREFIX"
      show "\<nexists>n. placeable claimed base p n"
        by (rule ext) (use assms(1,3) p in \<open>auto simp: best_fit_def None\<close>)
    qed
  next
    case (Some net)
    then have "\<nexists>n. placeable claimed base p n" if "target \<le> p" "p < prefix_len net" for p
      using ext[OF that(1)] assms(1) that(2) by (auto simp: best_fit_def)
    with Some assms(1) show ?thesis by (auto simp: best_fit_def)
  qed
qed

lemma pick_or_smaller_fits:
  assumes "ipnet_laws network contains" and "prefix_len base \<le> target" and "target \<le> 32"
  shows "\<exists>r. pick_subnet_or_smaller network contains blake3 node_id claimed base target = Inr r \<and>
             best_fit claimed base target r"
  using assms(2,3)
proof (induction "SMALLEST_DEVICE_PREFIX - target" arbitrary: target rule: less_induct)
  case less
  note unfold = pick_subnet_or_smaller.simps[of network contains blake3 node_id claimed base target]
  obtain r where r: "pick_subnet network contains blake3 node_id claimed base target = Inr r"
    and spec: "case r of Some net \<Rightarrow> placeable claimed base target net \<and> unat (net_addr net) = net_first net
               | None \<Rightarrow> \<nexists>net. placeable claimed base target net"
    using pick_sound[OF assms(1) less.prems, of blake3 node_id claimed] by blast
  show ?case
  proof (cases r)
    case (Some net)
    then have "prefix_len net = target" using spec by (simp add: placeable_def)
    with Some spec r show ?thesis by (auto simp: unfold best_fit_def)
  next
    case None
    then have none: "\<nexists>net. placeable claimed base target net" using spec by simp
    show ?thesis
    proof (cases "SMALLEST_DEVICE_PREFIX \<le> target")
      case True
      then have "p = target" if "target \<le> p \<and> p \<le> max target SMALLEST_DEVICE_PREFIX" for p
        using that by simp
      with True None none r show ?thesis
        unfolding unfold best_fit_def by (auto simp: bump_smaller_subnet_def)
    next
      case False
      then have "\<exists>r. pick_subnet_or_smaller network contains blake3 node_id claimed base (target + 1) = Inr r \<and>
          best_fit claimed base (target + 1) r"
        by (intro less.hyps) (use less.prems in \<open>auto simp: SMALLEST_DEVICE_PREFIX_def\<close>)
      with False None r best_fit_step[OF _ none] show ?thesis
        by (auto simp: unfold bump_smaller_subnet_def)
    qed
  qed
qed

text \<open>Graceful degradation: for a legal request \<open>pick_subnet_or_smaller\<close> terminates without a
  panic and grants the largest block that fits at or below the request: no block of any size from
  the requested one to the granted one was free, and it gives up only when nothing fits down to
  the /30 floor (or at the requested size, when that is already past the floor).\<close>

theorem pick_subnet_or_smaller_largest:
  assumes "ipnet_laws network contains" and "prefix_len base \<le> target" and "target \<le> 32"
  shows "\<exists>r. pick_subnet_or_smaller network contains blake3 node_id claimed base target = Inr r \<and>
             best_fit claimed base target r"
  by (rule pick_or_smaller_fits[OF assms])

text \<open>Example: a base that is claimed as a whole.\<close>

theorem pick_subnet_or_smaller_largest_witness:
  "\<exists>r. pick_subnet_or_smaller std_network std_contains (\<lambda>_. replicate 32 0) ''n''
          [Ipv4Net 0x0A2A0000 28] (Ipv4Net 0x0A2A0000 28) 28 = Inr r \<and>
       best_fit [Ipv4Net 0x0A2A0000 28] (Ipv4Net 0x0A2A0000 28) 28 r"
  by (rule pick_subnet_or_smaller_largest[OF std_ipnet_laws]) simp_all

text \<open>The selector's labels and arrows: for every prefix from 1 to 32 the total is the number of
  addresses of such a block, and up to /30 the usable hosts are two fewer; the arrows step by one,
  stop at the given base and at /30, and undo each other in between.\<close>

theorem prefix_selector:
  assumes "1 \<le> p" and "p \<le> 32"
  shows "unat (total_addresses p) = net_size p \<and>
         (p \<le> 30 \<longrightarrow> unat (usable_hosts p) = net_size p - 2) \<and>
         (\<forall>q. bump_smaller_subnet p = Some q \<longrightarrow> q \<le> 30 \<and> bump_larger_subnet q p = Some p) \<and>
         (\<forall>q. bump_larger_subnet p 1 = Some q \<longrightarrow> 1 \<le> q \<and> (p \<le> 30 \<longrightarrow> bump_smaller_subnet q = Some p))"
proof (intro conjI)
  have t: "unat (shl_u32 1 (32 - p)) = net_size p" using unat_shl_u32[of p] assms by simp
  show "unat (total_addresses p) = net_size p"
  proof (cases "p = 32")
    case True
    then show ?thesis by (simp add: total_addresses_def net_size_def)
  next
    case False
    then show ?thesis using assms t by (simp add: total_addresses_def)
  qed
  show "p \<le> 30 \<longrightarrow> unat (usable_hosts p) = net_size p - 2"
  proof
    assume p: "p \<le> 30"
    have "(2 :: nat) ^ 2 \<le> 2 ^ (32 - p)" using p by (intro power_increasing) auto
    then have "(2 :: u32) \<le> shl_u32 1 (32 - p)" by (simp add: word_le_nat_alt t net_size_def)
    then show "unat (usable_hosts p) = net_size p - 2"
      using p t by (simp add: usable_hosts_def unat_sub)
  qed
  show "\<forall>q. bump_smaller_subnet p = Some q \<longrightarrow> q \<le> 30 \<and> bump_larger_subnet q p = Some p"
    by (auto simp: bump_smaller_subnet_def bump_larger_subnet_def SMALLEST_DEVICE_PREFIX_def split: if_splits)
  show "\<forall>q. bump_larger_subnet p 1 = Some q \<longrightarrow> 1 \<le> q \<and> (p \<le> 30 \<longrightarrow> bump_smaller_subnet q = Some p)"
    by (auto simp: bump_smaller_subnet_def bump_larger_subnet_def SMALLEST_DEVICE_PREFIX_def split: if_splits)
qed

text \<open>Example: a /24 has 254 usable hosts.\<close>

theorem prefix_selector_witness: "unat (usable_hosts 24) = 254"
  using prefix_selector[of 24] by (simp add: net_size_def)

text \<open>At prefix 0 the shift by 32 wraps: a release build counts one address in the whole space and
  more hosts than addresses (a debug build panics).\<close>

theorem prefix_zero_wraps: "total_addresses 0 = 1 \<and> usable_hosts 0 = - 1"
  by (simp add: total_addresses_def usable_hosts_def shl_u32_def)

end
