(* ===== verification/Link.thy ===== *)
theory Link
  imports Net_Text Alloc
begin

text \<open>
  Addresses derived from node ids: \<open>tun/link.rs\<close> (the backhaul address and its salted
  alternatives, the /31 of a peer pair) and \<open>overlay_link_local\<close> of \<open>tun/iface.rs\<close>. The hash
  crate is a parameter; its digest is indexed as the source indexes it.
\<close>

definition LINK_BLOCK :: Ipv4Net where
  "LINK_BLOCK = Ipv4Net (ipv4_of_octets 10 255 0 0) 16"

definition BACKHAUL_PREFIX_LEN :: nat where
  "BACKHAUL_PREFIX_LEN = 16"

definition BACKHAUL_BLOCK :: "u8 list" where
  "BACKHAUL_BLOCK = [10, 254]"

definition backhaul_addr_salted :: "(string \<Rightarrow> u8 list) \<Rightarrow> string \<Rightarrow> u32 \<Rightarrow> ipv4" where
  "backhaul_addr_salted blake3 node_id attempt =
     (let bytes = (if attempt = 0 then blake3 node_id
                   else blake3 (node_id @ ''#backhaul-'' @ decimal (unat attempt)));
          host0 = be16 (bytes ! 0) (bytes ! 1);
          host = (if host0 = 0 then 1 else if host0 = 0xFFFF then 0xFFFF - 1 else host0)
      in ipv4_of_octets (BACKHAUL_BLOCK ! 0) (BACKHAUL_BLOCK ! 1) (ucast (drop_bit 8 host)) (ucast host))"

definition backhaul_addr :: "(string \<Rightarrow> u8 list) \<Rightarrow> string \<Rightarrow> ipv4" where
  "backhaul_addr blake3 node_id = backhaul_addr_salted blake3 node_id 0"

definition in_backhaul_block :: "(Ipv4Net \<Rightarrow> ipv4) \<Rightarrow> Ipv4Net \<Rightarrow> bool" where
  "in_backhaul_block network net \<longleftrightarrow>
     BACKHAUL_PREFIX_LEN \<le> prefix_len net \<and>
     [octet (network net) 0, octet (network net) 1] = BACKHAUL_BLOCK"

definition pick_link_31 :: "(string \<Rightarrow> u8 list) \<Rightarrow> string \<Rightarrow> string \<Rightarrow> ipv4 \<times> ipv4" where
  "pick_link_31 blake3 self_id peer_id =
     (let (lower, higher) = (if self_id \<le> peer_id then (self_id, peer_id) else (peer_id, self_id));
          bytes = blake3 (lower @ [CHR 0x00] @ higher);
          raw = be16 (bytes ! 0) (bytes ! 1);
          offset = raw AND 0x7FFF;
          third_octet = ucast (drop_bit 7 offset AND 0xFF) :: u8;
          fourth_octet_lower = ucast (push_bit 1 (offset AND 0x7F)) :: u8;
          lower_ip = ipv4_of_octets 10 255 third_octet fourth_octet_lower;
          upper_ip = ipv4_of_octets 10 255 third_octet (fourth_octet_lower + 1)
      in if self_id \<le> peer_id then (lower_ip, upper_ip) else (upper_ip, lower_ip))"

definition OVERLAY_IFACE :: string where
  "OVERLAY_IFACE = ''mjolnir0''"

definition overlay_link_local :: "ipv4 \<Rightarrow> ipv6" where
  "overlay_link_local self_addr =
     (let host = be16 (octet self_addr 2) (octet self_addr 3)
      in ipv6_of_segments [0xfe80, 0, 0, 0, 0, 0, 0, host])"

section \<open>Lemmas\<close>

lemma be16_split: "be16 (ucast (drop_bit 8 h)) (ucast h) = h" for h :: u16
proof (rule bit_word_eqI)
  fix n assume n: "n < LENGTH(16)"
  then consider "n < 8" | "8 \<le> n" by linarith
  then show "bit (be16 (ucast (drop_bit 8 h)) (ucast h)) n = bit h n"
    using n by cases (simp_all add: be16_def bit_simps less_diff_conv2)
qed

lemma be16_hi: "ucast (drop_bit 8 (be16 h l)) = h"
  by (intro bit_word_eqI) (auto simp: be16_def bit_simps dest: bit_imp_le_length)

lemma be16_lo: "ucast (be16 h l) = l"
  by (intro bit_word_eqI) (auto simp: be16_def bit_simps)

lemma ucast_low_byte: "ucast (w AND 0xff) = (ucast w :: u8)" for w :: u16
proof -
  have "(0xff :: u16) = mask 8" by (simp add: mask_eq_exp_minus_1)
  then have "w AND 0xff = take_bit 8 w" by (simp only: take_bit_eq_mask)
  then show ?thesis by (auto intro!: bit_word_eqI simp: bit_simps)
qed

lemma segments_of_pair:
  fixes s h :: u16
  shows "segment (push_bit 112 (ucast s) OR ucast h) 0 = s"
    and "segment (push_bit 112 (ucast s) OR ucast h) 7 = h"
  unfolding segment_def
  by (intro bit_word_eqI; auto simp: bit_simps dest: bit_imp_le_length)+

lemma overlay_link_local_segments:
  "segment (overlay_link_local a) 0 = 0xfe80"
  "segment (overlay_link_local a) 7 = be16 (octet a 2) (octet a 3)"
proof -
  have eq: "overlay_link_local a = push_bit 112 (ucast (0xfe80 :: u16)) OR ucast (be16 (octet a 2) (octet a 3))"
    by (simp add: overlay_link_local_def ipv6_of_segments_def)
  show "segment (overlay_link_local a) 0 = 0xfe80"
    "segment (overlay_link_local a) 7 = be16 (octet a 2) (octet a 3)"
    unfolding eq by (rule segments_of_pair)+
qed

lemma backhaul_octets:
  fixes blake3 :: "string \<Rightarrow> u8 list"
  obtains host :: u16 where
    "backhaul_addr_salted blake3 n k = ipv4_of_octets 10 254 (ucast (drop_bit 8 host)) (ucast host)"
    "host \<noteq> 0" "host \<noteq> 0xFFFF"
proof -
  let ?b = "if k = 0 then blake3 n else blake3 (n @ ''#backhaul-'' @ decimal (unat k))"
  let ?h0 = "be16 (?b ! 0) (?b ! 1)"
  let ?h = "if ?h0 = 0 then 1 else if ?h0 = 0xFFFF then 0xFFFF - 1 else ?h0"
  have "backhaul_addr_salted blake3 n k = ipv4_of_octets 10 254 (ucast (drop_bit 8 ?h)) (ucast ?h)"
    by (simp add: backhaul_addr_salted_def BACKHAUL_BLOCK_def Let_def)
  moreover have "?h \<noteq> 0" "?h \<noteq> 0xFFFF" by auto
  ultimately show thesis by (rule that)
qed

section \<open>Properties\<close>

text \<open>Backhaul addresses: every candidate address of a node lies in 10.254.0.0/16 and is neither
  its network nor its broadcast address; a claim on it as a /32 is recognised as a backhaul claim;
  and the IPv6 link-local derived from it determines it.\<close>

theorem backhaul_addr_valid:
  assumes "ipnet_laws network contains" and "a = backhaul_addr_salted blake3 node_id attempt"
  shows "octet a 0 = 10 \<and> octet a 1 = 254 \<and>
         a \<noteq> ipv4_of_octets 10 254 0 0 \<and> a \<noteq> ipv4_of_octets 10 254 255 255 \<and>
         in_backhaul_block network (Ipv4Net a 32) \<and>
         ipv4_of_octets 10 254 (ucast (drop_bit 8 (segment (overlay_link_local a) 7)))
           (ucast (segment (overlay_link_local a) 7)) = a"
proof -
  obtain host :: u16 where h: "a = ipv4_of_octets 10 254 (ucast (drop_bit 8 host)) (ucast host)"
    "host \<noteq> 0" "host \<noteq> 0xFFFF" unfolding assms(2) by (rule backhaul_octets)
  note o = octet_ipv4_of_octets[of 10 254 "ucast (drop_bit 8 host)" "ucast host", folded h(1)]
  have host: "be16 (octet a 2) (octet a 3) = host" unfolding o(3,4) by (rule be16_split)
  have "be16 (octet (ipv4_of_octets 10 254 x y) 2) (octet (ipv4_of_octets 10 254 x y) 3) = be16 x y"
    for x y by (simp add: octet_ipv4_of_octets(3,4))
  moreover have "be16 0 0 = 0" "be16 255 255 = 0xFFFF" by (simp_all add: be16_def)
  ultimately have ne: "a \<noteq> ipv4_of_octets 10 254 0 0" "a \<noteq> ipv4_of_octets 10 254 255 255"
    using host h(2,3) by metis+
  have "unat (network (Ipv4Net a 32)) = unat a"
    using ipnet_laws.network_first[OF assms(1)] by (simp add: net_first_def net_size_def)
  then have net: "network (Ipv4Net a 32) = a" by (simp add: word_unat_eq_iff)
  have "in_backhaul_block network (Ipv4Net a 32)"
    using o(1,2) by (simp add: in_backhaul_block_def BACKHAUL_PREFIX_LEN_def BACKHAUL_BLOCK_def net)
  moreover have "segment (overlay_link_local a) 7 = host"
    using overlay_link_local_segments(2) host by simp
  ultimately show ?thesis using o(1,2) ne h(1) by simp
qed

text \<open>Example: a node whose digest starts with two zero bytes.\<close>

theorem backhaul_addr_valid_witness:
  "backhaul_addr_salted (\<lambda>_. replicate 32 0) ''n'' 0 \<noteq> ipv4_of_octets 10 254 0 0"
  using backhaul_addr_valid[OF std_ipnet_laws refl, of "\<lambda>_. replicate 32 0" "''n''" 0] by blast

lemma link_lower_even: "octet (ipv4_of_octets a b c (ucast (push_bit 1 w))) 3 AND 1 = 0" for w :: u16
  unfolding octet_ipv4_of_octets(4)
  by (rule bit_word_eqI) (auto simp: bit_simps bit_double_iff mult.commute[of w 2])

text \<open>The /31 of a peer pair needs no coordination: the two ends compute the same link with the
  roles swapped; the two addresses are the two halves of one /31 in 10.255.0.0/16, and the lower
  one belongs to the node with the lower id.\<close>

theorem pick_link_31_symmetric:
  assumes "self_id < peer_id"
  shows "\<exists>lower_ip upper_ip.
           pick_link_31 blake3 self_id peer_id = (lower_ip, upper_ip) \<and>
           pick_link_31 blake3 peer_id self_id = (upper_ip, lower_ip) \<and>
           lower_ip \<noteq> upper_ip \<and>
           octet lower_ip 0 = 10 \<and> octet lower_ip 1 = 255 \<and> octet upper_ip 0 = 10 \<and> octet upper_ip 1 = 255 \<and>
           octet lower_ip 2 = octet upper_ip 2 \<and>
           octet lower_ip 3 AND 1 = 0 \<and> octet upper_ip 3 = octet lower_ip 3 + 1"
proof -
  let ?b = "blake3 (self_id @ [CHR 0x00] @ peer_id)"
  let ?o = "be16 (?b ! 0) (?b ! 1) AND 0x7FFF"
  let ?t = "ucast (drop_bit 7 ?o AND 0xFF) :: u8" and ?f = "ucast (push_bit 1 (?o AND 0x7F)) :: u8"
  have le: "self_id \<le> peer_id" "\<not> peer_id \<le> self_id" using assms by auto
  have "pick_link_31 blake3 self_id peer_id = (ipv4_of_octets 10 255 ?t ?f, ipv4_of_octets 10 255 ?t (?f + 1))"
    "pick_link_31 blake3 peer_id self_id = (ipv4_of_octets 10 255 ?t (?f + 1), ipv4_of_octets 10 255 ?t ?f)"
    unfolding pick_link_31_def Let_def by (simp_all add: le)
  moreover have "ipv4_of_octets 10 255 ?t ?f \<noteq> ipv4_of_octets 10 255 ?t (?f + 1)"
  proof
    assume "ipv4_of_octets 10 255 ?t ?f = ipv4_of_octets 10 255 ?t (?f + 1)"
    then have "?f = ?f + 1" by (metis octet_ipv4_of_octets(4))
    then show False by simp
  qed
  ultimately show ?thesis
    using link_lower_even[of 10 255 ?t "?o AND 0x7F"]
    by (intro exI[of _ "ipv4_of_octets 10 255 ?t ?f"] exI[of _ "ipv4_of_octets 10 255 ?t (?f + 1)"])
      (simp add: octet_ipv4_of_octets del: One_nat_def)
qed

text \<open>Example.\<close>

theorem pick_link_31_symmetric_witness:
  "fst (pick_link_31 (\<lambda>_. replicate 32 7) ''a'' ''b'') = snd (pick_link_31 (\<lambda>_. replicate 32 7) ''b'' ''a'')"
  using pick_link_31_symmetric[of "''a''" "''b''" "\<lambda>_. replicate 32 7"] by (force simp: less_char_def)

end
