(* ===== verification/Overlay.thy ===== *)
theory Overlay
  imports Link
begin

text \<open>
  The overlay data plane: the forwarding table of \<open>tun/fib.rs\<close>, packet classification of
  \<open>tun/mcast.rs\<close>, and the connection manager, unicast router, reader and route mirror of
  \<open>bin/mjolnir-meshd.rs\<close> (the reader of \<open>tun/overlay.rs\<close> makes the same decision).

  A packet is its byte list. A connection is an abstract handle ('c), a peer id a string. The
  forwarding decision for one packet is the list of (connection, packet) sends; sends are best
  effort in the source, so a failed one changes nothing.
\<close>

section \<open>\<open>tun/fib.rs\<close>\<close>

datatype Prefix = Prefix (p_net: ipv4) (p_len: nat)

definition mask_of :: "nat \<Rightarrow> u32" where
  "mask_of len = (let n = min len 32 in if n = 0 then 0 else push_bit (32 - n) (- 1))"

definition prefix_new :: "ipv4 \<Rightarrow> nat \<Rightarrow> Prefix" where
  "prefix_new addr len0 = (let len = min len0 32 in Prefix (addr AND mask_of len) len)"

definition prefix_contains :: "Prefix \<Rightarrow> ipv4 \<Rightarrow> bool" where
  "prefix_contains p addr \<longleftrightarrow> addr AND mask_of (p_len p) = p_net p"

type_synonym Fib = "(Prefix, ipv4) hash_map"

definition fib_upsert :: "Fib \<Rightarrow> ipv4 \<Rightarrow> nat \<Rightarrow> ipv4 \<Rightarrow> Fib" where
  "fib_upsert fib addr len next_hop = hm_insert (prefix_new addr len) next_hop fib"

definition fib_remove :: "Fib \<Rightarrow> ipv4 \<Rightarrow> nat \<Rightarrow> Fib" where
  "fib_remove fib addr len = hm_remove (prefix_new addr len) fib"

text \<open>\<open>Iterator::max_by_key\<close>: the last of the elements with the greatest key.\<close>

fun max_by_key :: "('a \<Rightarrow> 'b::linorder) \<Rightarrow> 'a list \<Rightarrow> 'a option" where
  "max_by_key f [] = None"
| "max_by_key f (x # xs) =
     (case max_by_key f xs of
        None \<Rightarrow> Some x
      | Some y \<Rightarrow> if f x \<le> f y then Some y else Some x)"

definition fib_lookup :: "Fib \<Rightarrow> ipv4 \<Rightarrow> ipv4 option" where
  "fib_lookup fib dest =
     map_option snd (max_by_key (\<lambda>(p, _). p_len p) (filter (\<lambda>(p, _). prefix_contains p dest) fib))"

definition fib_len :: "Fib \<Rightarrow> nat" where
  "fib_len fib = length fib"

definition fib_is_empty :: "Fib \<Rightarrow> bool" where
  "fib_is_empty fib \<longleftrightarrow> fib = []"

section \<open>\<open>tun/mcast.rs\<close>\<close>

definition BABEL_MCAST :: ipv6 where
  "BABEL_MCAST = ipv6_of_segments [0xff02, 0, 0, 0, 0, 0, 1, 6]"

datatype OverlayDest = Multicast | Unicast

definition classify :: "u8 list \<Rightarrow> OverlayDest option" where
  "classify pkt =
     (case pkt of
        [] \<Rightarrow> None
      | b # _ \<Rightarrow>
          if drop_bit 4 b = 6 then
            (case get_range pkt 24 40 of
               None \<Rightarrow> None
             | Some dst \<Rightarrow> if dst ! 0 = 0xff then Some Multicast else Some Unicast)
          else if drop_bit 4 b = 4 then
            (case get_range pkt 16 20 of
               None \<Rightarrow> None
             | Some dst \<Rightarrow>
                 (let is_mcast = (dst ! 0 AND 0xf0 = 0xe0); is_bcast = (dst = [255, 255, 255, 255])
                  in if is_mcast \<or> is_bcast then Some Multicast else Some Unicast))
          else None)"

definition is_babel_multicast :: "u8 list \<Rightarrow> bool" where
  "is_babel_multicast pkt \<longleftrightarrow>
     (case pkt of
        [] \<Rightarrow> False
      | b # _ \<Rightarrow>
          drop_bit 4 b = 6 \<and>
          (case get_range pkt 24 40 of None \<Rightarrow> False | Some dst \<Rightarrow> ipv6_of_bytes dst = BABEL_MCAST))"

section \<open>The connection manager\<close>

record 'c ConnManager =
  by_peer :: "(string, 'c) hash_map"
  by_addr :: "(ipv4, 'c) hash_map"

definition conns_new :: "'c ConnManager" where
  "conns_new = \<lparr>by_peer = [], by_addr = []\<rparr>"

definition addr_of :: "(string \<Rightarrow> u8 list) \<Rightarrow> string \<Rightarrow> ipv4" where
  "addr_of blake3 peer = backhaul_addr blake3 peer"

definition conn_register ::
  "(string \<Rightarrow> u8 list) \<Rightarrow> 'c ConnManager \<Rightarrow> string \<Rightarrow> 'c \<Rightarrow> 'c ConnManager \<times> bool" where
  "conn_register blake3 m peer conn =
     (if hm_get (by_peer m) peer \<noteq> None then (m, False)
      else (m\<lparr>by_peer := hm_insert peer conn (by_peer m),
               by_addr := hm_insert (addr_of blake3 peer) conn (by_addr m)\<rparr>, True))"

definition conn_deregister :: "(string \<Rightarrow> u8 list) \<Rightarrow> 'c ConnManager \<Rightarrow> string \<Rightarrow> 'c ConnManager" where
  "conn_deregister blake3 m peer =
     m\<lparr>by_peer := hm_remove peer (by_peer m),
       by_addr := hm_remove (addr_of blake3 peer) (by_addr m)\<rparr>"

definition conn_by_addr :: "'c ConnManager \<Rightarrow> ipv4 \<Rightarrow> 'c option" where
  "conn_by_addr m addr = hm_get (by_addr m) addr"

definition conn_all :: "'c ConnManager \<Rightarrow> 'c list" where
  "conn_all m = map snd (by_peer m)"

section \<open>The router and the reader\<close>

definition next_hop :: "Fib \<Rightarrow> u8 list \<Rightarrow> ipv4 option" where
  "next_hop fib packet =
     (case packet of
        [] \<Rightarrow> None
      | b # _ \<Rightarrow>
          if drop_bit 4 b = 4 then
            (case get_range packet 16 20 of
               None \<Rightarrow> None
             | Some d \<Rightarrow>
                 (let dest = ipv4_of_octets (d ! 0) (d ! 1) (d ! 2) (d ! 3)
                  in if [octet dest 0, octet dest 1] = [10, 254] then None else fib_lookup fib dest))
          else if drop_bit 4 b = 6 then
            (case get_range packet 24 40 of
               None \<Rightarrow> None
             | Some d \<Rightarrow>
                 (let a = ipv6_of_bytes d
                  in if segment a 0 = 0xfe80 then
                       (let host = segment a 7
                        in Some (ipv4_of_octets 10 254 (ucast (drop_bit 8 host)) (ucast (host AND 0xff))))
                     else None))
          else None)"

definition resolve :: "Fib \<Rightarrow> 'c ConnManager \<Rightarrow> u8 list \<Rightarrow> 'c option" where
  "resolve fib conns packet =
     (case next_hop fib packet of None \<Rightarrow> None | Some nh \<Rightarrow> conn_by_addr conns nh)"

definition overlay_reader_step :: "Fib \<Rightarrow> 'c ConnManager \<Rightarrow> u8 list \<Rightarrow> ('c \<times> u8 list) list" where
  "overlay_reader_step fib conns pkt =
     (case classify pkt of
        Some Multicast \<Rightarrow> map (\<lambda>c. (c, pkt)) (conn_all conns)
      | Some Unicast \<Rightarrow> (case resolve fib conns pkt of Some c \<Rightarrow> [(c, pkt)] | None \<Rightarrow> [])
      | None \<Rightarrow> [])"

text \<open>The reader of \<open>spawn_overlay_routed\<close>, with a fixed flood set and any router.\<close>

definition overlay_routed_step ::
  "'c list \<Rightarrow> (u8 list \<Rightarrow> 'c option) \<Rightarrow> u8 list \<Rightarrow> ('c \<times> u8 list) list" where
  "overlay_routed_step flood_conns router pkt =
     (case classify pkt of
        Some Multicast \<Rightarrow> map (\<lambda>c. (c, pkt)) flood_conns
      | Some Unicast \<Rightarrow> (case router pkt of Some c \<Rightarrow> [(c, pkt)] | None \<Rightarrow> [])
      | None \<Rightarrow> [])"

section \<open>The route mirror\<close>

definition parse_cidr :: "string \<Rightarrow> (ipv4 \<times> nat) option" where
  "parse_cidr s =
     (case split_once CHR ''/'' s of
        Some (ip, len) \<Rightarrow>
          (case (parse_ipv4 ip, parse_uint 255 len) of (Some a, Some l) \<Rightarrow> Some (a, l) | _ \<Rightarrow> None)
      | None \<Rightarrow> map_option (\<lambda>a. (a, 32)) (parse_ipv4 s))"

text \<open>One line of \<open>ip route show\<close>: the prefix and the gateway that follows the first \<open>via\<close>.\<close>

fun via_gateway :: "string list \<Rightarrow> ipv4 option" where
  "via_gateway [] = None"
| "via_gateway (t # ts) =
     (if t = ''via'' then (case ts of [] \<Rightarrow> None | g # _ \<Rightarrow> parse_ipv4 g) else via_gateway ts)"

definition mirror_line :: "Fib \<Rightarrow> string list \<Rightarrow> Fib" where
  "mirror_line fib toks =
     (case toks of
        [] \<Rightarrow> fib
      | prefix # _ \<Rightarrow>
          (case (parse_cidr prefix, via_gateway toks) of
             (Some (net, len), Some gw) \<Rightarrow> fib_upsert fib net len gw
           | _ \<Rightarrow> fib))"

definition fib_mirror :: "string \<Rightarrow> Fib" where
  "fib_mirror text = foldl (\<lambda>fib line. mirror_line fib (split_whitespace line)) [] (lines text)"

section \<open>Lemmas: longest prefix match\<close>

definition prefix_ok :: "Prefix \<Rightarrow> bool" where
  "prefix_ok p \<longleftrightarrow> p_len p \<le> 32 \<and> p_net p AND mask_of (p_len p) = p_net p"

definition fib_ok :: "Fib \<Rightarrow> bool" where
  "fib_ok fib \<longleftrightarrow> hm_ok fib \<and> (\<forall>p\<in>fst ` set fib. prefix_ok p)"

lemma prefix_new_ok: "prefix_ok (prefix_new a l)"
  by (simp add: prefix_ok_def prefix_new_def Let_def and.assoc)

lemma fib_upsert_ok: "fib_ok fib \<Longrightarrow> fib_ok (fib_upsert fib a l nh)"
  by (auto simp: fib_ok_def fib_upsert_def hm_insert_ok set_hm_insert prefix_new_ok)

lemma fib_remove_ok: "fib_ok fib \<Longrightarrow> fib_ok (fib_remove fib a l)"
  by (auto simp: fib_ok_def fib_remove_def hm_remove_ok) (auto simp: hm_remove_def)

lemma max_by_key_None: "max_by_key f xs = None \<longleftrightarrow> xs = []"
  by (cases xs) (auto split: option.splits)

lemma max_by_key_Some:
  "max_by_key f xs = Some x \<Longrightarrow> x \<in> set xs \<and> (\<forall>y\<in>set xs. f y \<le> f x)"
proof (induction xs arbitrary: x)
  case (Cons z xs)
  show ?case
  proof (cases "max_by_key f xs")
    case None
    with Cons.prems show ?thesis by (auto simp: max_by_key_None)
  next
    case (Some y)
    with Cons.IH[OF Some] Cons.prems show ?thesis by (auto split: if_splits)
  qed
qed simp

text \<open>Two prefixes of one length that contain the same address are equal, so the longest match is
  unique and the iteration order of the table does not matter.\<close>

lemma prefix_contains_unique:
  "prefix_contains p a \<Longrightarrow> prefix_contains q a \<Longrightarrow> p_len p = p_len q \<Longrightarrow> p = q"
  by (cases p; cases q) (simp add: prefix_contains_def)

lemma fib_lookup_Some:
  assumes "fib_ok fib"
  shows "fib_lookup fib dest = Some nh \<longleftrightarrow>
    (\<exists>p. hm_get fib p = Some nh \<and> prefix_contains p dest \<and>
         (\<forall>q nh'. hm_get fib q = Some nh' \<and> prefix_contains q dest \<longrightarrow> p_len q \<le> p_len p))"
proof -
  have ok: "hm_ok fib" using assms by (simp add: fib_ok_def)
  let ?m = "filter (\<lambda>(p, _). prefix_contains p dest) fib"
  have mem: "(p, n) \<in> set ?m \<longleftrightarrow> hm_get fib p = Some n \<and> prefix_contains p dest" for p n
    by (auto simp: hm_get_iff[OF ok])
  show ?thesis
  proof
    assume "fib_lookup fib dest = Some nh"
    then obtain p where p: "max_by_key (\<lambda>(p, _). p_len p) ?m = Some (p, nh)"
      by (auto simp: fib_lookup_def)
    note mx = max_by_key_Some[OF p]
    have "hm_get fib p = Some nh \<and> prefix_contains p dest" using mx unfolding mem by blast
    moreover have "p_len q \<le> p_len p" if "hm_get fib q = Some n" "prefix_contains q dest" for q n
    proof -
      have "(q, n) \<in> set ?m" unfolding mem using that by blast
      from bspec[OF conjunct2[OF mx] this] show ?thesis by simp
    qed
    ultimately show "\<exists>p. hm_get fib p = Some nh \<and> prefix_contains p dest \<and>
         (\<forall>q nh'. hm_get fib q = Some nh' \<and> prefix_contains q dest \<longrightarrow> p_len q \<le> p_len p)" by blast
  next
    assume "\<exists>p. hm_get fib p = Some nh \<and> prefix_contains p dest \<and>
         (\<forall>q nh'. hm_get fib q = Some nh' \<and> prefix_contains q dest \<longrightarrow> p_len q \<le> p_len p)"
    then obtain p where p: "hm_get fib p = Some nh" "prefix_contains p dest"
      "\<And>q nh'. hm_get fib q = Some nh' \<Longrightarrow> prefix_contains q dest \<Longrightarrow> p_len q \<le> p_len p" by blast
    then have "max_by_key (\<lambda>(p, _). p_len p) ?m \<noteq> None"
      unfolding max_by_key_None using mem[of p nh] by (auto simp: filter_empty_conv)
    then obtain q n where q: "max_by_key (\<lambda>(p, _). p_len p) ?m = Some (q, n)" by auto
    have pm: "(p, nh) \<in> set ?m" unfolding mem using p(1,2) by blast
    note mx = max_by_key_Some[OF q]
    have qm: "hm_get fib q = Some n" "prefix_contains q dest" using mx unfolding mem by blast+
    have le: "p_len p \<le> p_len q" using bspec[OF conjunct2[OF mx] pm] by simp
    have "p = q" using prefix_contains_unique[OF p(2) qm(2)] le p(3)[OF qm] by simp
    with p(1) qm(1) q show "fib_lookup fib dest = Some nh" by (simp add: fib_lookup_def)
  qed
qed

lemma fib_lookup_None:
  assumes "fib_ok fib"
  shows "fib_lookup fib dest = None \<longleftrightarrow> (\<nexists>p nh. hm_get fib p = Some nh \<and> prefix_contains p dest)"
  using assms by (auto simp: fib_lookup_def max_by_key_None filter_empty_conv fib_ok_def hm_get_iff)

section \<open>The connection manager as a state machine\<close>

text \<open>The states the manager can be in while only peers of \<open>P\<close> connect and disconnect.\<close>

inductive conns_reachable :: "(string \<Rightarrow> u8 list) \<Rightarrow> string set \<Rightarrow> 'c ConnManager \<Rightarrow> bool"
  for blake3 P where
  start: "conns_reachable blake3 P conns_new"
| register: "conns_reachable blake3 P m \<Longrightarrow> peer \<in> P \<Longrightarrow> conn_register blake3 m peer conn = (m', r) \<Longrightarrow>
    conns_reachable blake3 P m'"
| deregister: "conns_reachable blake3 P m \<Longrightarrow> peer \<in> P \<Longrightarrow>
    conns_reachable blake3 P (conn_deregister blake3 m peer)"

definition conns_indexed :: "(string \<Rightarrow> u8 list) \<Rightarrow> string set \<Rightarrow> 'c ConnManager \<Rightarrow> bool" where
  "conns_indexed blake3 P m \<longleftrightarrow>
     hm_ok (by_peer m) \<and> (\<forall>p c. hm_get (by_peer m) p = Some c \<longrightarrow> p \<in> P) \<and>
     (\<forall>a c. conn_by_addr m a = Some c \<longleftrightarrow> (\<exists>p. hm_get (by_peer m) p = Some c \<and> addr_of blake3 p = a))"

lemma conns_indexed_register:
  assumes "conns_indexed blake3 P m" and "inj_on (addr_of blake3) P" and "peer \<in> P"
    and "hm_get (by_peer m) peer = None"
  shows "conns_indexed blake3 P (fst (conn_register blake3 m peer conn))"
proof -
  have uniq: "q = peer" if "hm_get (by_peer m) q = Some c \<or> q = peer" "addr_of blake3 q = addr_of blake3 peer" for q c
    using assms(1-3) that unfolding conns_indexed_def inj_on_def by blast
  have "conn_by_addr (fst (conn_register blake3 m peer conn)) a = Some c \<longleftrightarrow>
      (\<exists>p. hm_get (by_peer (fst (conn_register blake3 m peer conn))) p = Some c \<and> addr_of blake3 p = a)" for a c
  proof (cases "a = addr_of blake3 peer")
    case True
    with uniq[of _ c] assms(4) show ?thesis
      by (auto simp: conn_register_def conn_by_addr_def hm_get_insert split: if_splits)
  next
    case False
    with assms(1,4) show ?thesis
      unfolding conns_indexed_def
      by (auto simp: conn_register_def conn_by_addr_def hm_get_insert split: if_splits)
  qed
  moreover have "hm_ok (by_peer (fst (conn_register blake3 m peer conn)))"
    "\<forall>p c. hm_get (by_peer (fst (conn_register blake3 m peer conn))) p = Some c \<longrightarrow> p \<in> P"
    using assms by (auto simp: conns_indexed_def conn_register_def hm_get_insert hm_insert_ok)
  ultimately show ?thesis unfolding conns_indexed_def by blast
qed

lemma conns_indexed_deregister:
  assumes "conns_indexed blake3 P m" and "inj_on (addr_of blake3) P" and "peer \<in> P"
  shows "conns_indexed blake3 P (conn_deregister blake3 m peer)"
proof -
  have uniq: "q = peer" if "hm_get (by_peer m) q = Some c" "addr_of blake3 q = addr_of blake3 peer" for q c
    using assms that unfolding conns_indexed_def inj_on_def by blast
  have "conn_by_addr (conn_deregister blake3 m peer) a = Some c \<longleftrightarrow>
      (\<exists>p. hm_get (by_peer (conn_deregister blake3 m peer)) p = Some c \<and> addr_of blake3 p = a)" for a c
  proof (cases "a = addr_of blake3 peer")
    case True
    with uniq[of _ c] show ?thesis
      by (auto simp: conn_deregister_def conn_by_addr_def hm_get_remove split: if_splits)
  next
    case False
    with assms(1) show ?thesis
      unfolding conns_indexed_def
      by (auto simp: conn_deregister_def conn_by_addr_def hm_get_remove split: if_splits)
  qed
  moreover have "hm_ok (by_peer (conn_deregister blake3 m peer))"
    "\<forall>p c. hm_get (by_peer (conn_deregister blake3 m peer)) p = Some c \<longrightarrow> p \<in> P"
    using assms by (auto simp: conns_indexed_def conn_deregister_def hm_get_remove hm_remove_ok)
  ultimately show ?thesis unfolding conns_indexed_def by blast
qed

lemma conns_reachable_indexed:
  assumes "conns_reachable blake3 P m" and "inj_on (addr_of blake3) P"
  shows "conns_indexed blake3 P m"
  using assms(1)
proof induction
  case start
  then show ?case by (simp add: conns_indexed_def conns_new_def conn_by_addr_def hm_get_def hm_ok_def)
next
  case (register m peer conn m' r)
  show ?case
  proof (cases "hm_get (by_peer m) peer")
    case None
    then show ?thesis
      using conns_indexed_register[OF register.IH assms(2) register.hyps(2) None, of conn]
        register.hyps(3) by simp
  next
    case (Some c)
    with register show ?thesis by (simp add: conn_register_def)
  qed
next
  case (deregister m peer)
  then show ?case using conns_indexed_deregister assms(2) by blast
qed

section \<open>Routes as a map\<close>

datatype FibOp = Upsert ipv4 nat ipv4 | Remove ipv4 nat

fun fib_step :: "Fib \<Rightarrow> FibOp \<Rightarrow> Fib" where
  "fib_step fib (Upsert a l nh) = fib_upsert fib a l nh"
| "fib_step fib (Remove a l) = fib_remove fib a l"

fun route_step :: "(Prefix \<rightharpoonup> ipv4) \<Rightarrow> FibOp \<Rightarrow> (Prefix \<rightharpoonup> ipv4)" where
  "route_step m (Upsert a l nh) = m(prefix_new a l \<mapsto> nh)"
| "route_step m (Remove a l) = m(prefix_new a l := None)"

lemma fib_run_refines:
  "fib_ok fib \<Longrightarrow>
     fib_ok (foldl fib_step fib ops) \<and> hm_get (foldl fib_step fib ops) = foldl route_step (hm_get fib) ops"
proof (induction ops arbitrary: fib)
  case (Cons x ops)
  have "fib_ok (fib_step fib x)"
    using Cons.prems by (cases x) (auto simp: fib_upsert_ok fib_remove_ok)
  moreover have "hm_get (fib_step fib x) = route_step (hm_get fib) x"
    by (cases x) (auto simp: fib_upsert_def fib_remove_def hm_get_insert hm_get_remove fun_eq_iff)
  ultimately show ?case using Cons.IH by simp
qed simp

lemma fib_empty_ok: "fib_ok []"
  by (simp add: fib_ok_def hm_ok_def)

lemma bit_mask_of: "len \<le> 32 \<Longrightarrow> bit (mask_of len) i \<longleftrightarrow> 32 - len \<le> i \<and> i < 32"
  by (auto simp: mask_of_def bit_simps Let_def)

lemma prefix_contains_bits:
  assumes "len \<le> 32"
  shows "prefix_contains (prefix_new net len) dest \<longleftrightarrow>
    (\<forall>i<32. 32 - len \<le> i \<longrightarrow> bit dest i = bit net i)"
proof -
  have "dest AND mask_of len = net AND mask_of len \<longleftrightarrow> (\<forall>i<32. 32 - len \<le> i \<longrightarrow> bit dest i = bit net i)"
    by (auto simp: bit_eq_iff bit_and_iff bit_mask_of[OF assms])
  then show ?thesis using assms by (simp add: prefix_contains_def prefix_new_def Let_def)
qed

section \<open>Properties\<close>

text \<open>C10. The forwarding table refines a map from prefixes to next hops with longest-prefix match:
  after any sequence of insertions and removals, the lookup of a destination is the next hop of
  the longest installed prefix that covers it (whatever the iteration order of the table), and
  there is none exactly when no prefix covers it; a prefix covers exactly the addresses that agree
  with it on its leading bits.\<close>

theorem fib_longest_prefix_match:
  "(fib_lookup (foldl fib_step [] ops) dest = Some nh \<longleftrightarrow>
      (\<exists>p. foldl route_step Map.empty ops p = Some nh \<and> prefix_contains p dest \<and>
           (\<forall>q nh'. foldl route_step Map.empty ops q = Some nh' \<and> prefix_contains q dest \<longrightarrow> p_len q \<le> p_len p))) \<and>
   (fib_lookup (foldl fib_step [] ops) dest = None \<longleftrightarrow>
      (\<nexists>p nh. foldl route_step Map.empty ops p = Some nh \<and> prefix_contains p dest)) \<and>
   (len \<le> 32 \<longrightarrow> (prefix_contains (prefix_new net len) dest \<longleftrightarrow>
      (\<forall>i<32. 32 - len \<le> i \<longrightarrow> bit dest i = bit net i)))"
proof -
  have e: "hm_get [] = (Map.empty :: Prefix \<rightharpoonup> ipv4)" by (simp add: hm_get_def fun_eq_iff)
  note r = fib_run_refines[OF fib_empty_ok, of ops, unfolded e]
  show ?thesis
    using fib_lookup_Some[of "foldl fib_step [] ops" dest nh] fib_lookup_None[of "foldl fib_step [] ops" dest]
      r prefix_contains_bits by simp
qed

text \<open>Witness of C10: a /24 beats a /16 for an address in both.\<close>

theorem fib_longest_prefix_match_witness:
  "fib_lookup (foldl fib_step [] [Upsert 0x0A2A0100 24 7, Upsert 0x0A2A0000 16 9]) 0x0A2A0105 = Some 7"
proof -
  let ?ops = "[Upsert 0x0A2A0100 24 7, Upsert 0x0A2A0000 16 9]"
  have p: "prefix_new 0x0A2A0100 24 = Prefix 0x0A2A0100 24" "prefix_new 0x0A2A0000 16 = Prefix 0x0A2A0000 16"
    by (simp_all add: prefix_new_def mask_of_def mask_eq_exp_minus_1)
  have c: "prefix_contains (Prefix 0x0A2A0100 24) 0x0A2A0105"
    by (simp add: prefix_contains_def mask_of_def mask_eq_exp_minus_1)
  have "\<exists>p. foldl route_step Map.empty ?ops p = Some 7 \<and> prefix_contains p 0x0A2A0105 \<and>
      (\<forall>q nh'. foldl route_step Map.empty ?ops q = Some nh' \<and> prefix_contains q 0x0A2A0105 \<longrightarrow> p_len q \<le> p_len p)"
    using c by (intro exI[of _ "Prefix 0x0A2A0100 24"]) (auto simp: p split: if_splits)
  with fib_longest_prefix_match[of ?ops "0x0A2A0105" 7] show ?thesis by blast
qed

text \<open>The connection manager's two indexes agree: in every state reachable by registrations and
  deregistrations of peers with pairwise different overlay addresses, an overlay address leads to a
  connection exactly when a connected peer owns the address and the connection is that peer's; and
  a second connection of a connected peer is refused without a change.\<close>

theorem conn_indexes_agree:
  assumes "conns_reachable blake3 P m" and "inj_on (addr_of blake3) P"
  shows "(conn_by_addr m a = Some c \<longleftrightarrow> (\<exists>p. hm_get (by_peer m) p = Some c \<and> addr_of blake3 p = a)) \<and>
         (hm_get (by_peer m) p = Some c \<longrightarrow> conn_register blake3 m p c' = (m, False))"
  using conns_reachable_indexed[OF assms] by (auto simp: conns_indexed_def conn_register_def)

text \<open>A hash for the witnesses: the digest repeats the first byte of the text.\<close>

definition first_byte_hash :: "string \<Rightarrow> u8 list" where
  "first_byte_hash s = replicate 32 (if s = [] then 0 else of_nat (byte (hd s)))"

lemma first_byte_addrs:
  "addr_of first_byte_hash ''a'' = ipv4_of_octets 10 254 97 97"
  "addr_of first_byte_hash ''b'' = ipv4_of_octets 10 254 98 98"
  by code_simp+

lemma first_byte_inj: "inj_on (addr_of first_byte_hash) {''a'', ''b''}"
proof -
  have "ipv4_of_octets 10 254 97 97 \<noteq> ipv4_of_octets 10 254 98 98"
    by (simp add: ipv4_of_octets_def)
  then show ?thesis by (simp add: first_byte_addrs)
qed

definition two_peers :: "nat ConnManager" where
  "two_peers = fst (conn_register first_byte_hash (fst (conn_register first_byte_hash conns_new ''a'' 1)) ''b'' 2)"

lemma two_peers_reachable: "conns_reachable first_byte_hash {''a'', ''b''} two_peers"
  unfolding two_peers_def
  by (rule conns_reachable.register[OF conns_reachable.register[OF conns_reachable.start _
        prod.collapse[symmetric]] _ prod.collapse[symmetric]]) auto

lemma two_peers_get: "hm_get (by_peer two_peers) ''b'' = Some 2"
  by (simp add: two_peers_def conn_register_def conns_new_def hm_get_def)

text \<open>Example.\<close>

theorem conn_indexes_agree_witness: "conn_by_addr two_peers (addr_of first_byte_hash ''b'') = Some 2"
  using conn_indexes_agree[OF two_peers_reachable first_byte_inj] two_peers_get by blast



lemma next_hop_v6:
  assumes "pkt \<noteq> []" and "drop_bit 4 (hd pkt) = 6" and "get_range pkt 24 40 = Some dst"
  shows "next_hop fib pkt = Some (addr_of blake3 p) \<longleftrightarrow> segment (ipv6_of_bytes dst) 0 = 0xfe80 \<and>
      segment (ipv6_of_bytes dst) 7 = segment (overlay_link_local (addr_of blake3 p)) 7"
proof -
  obtain host :: u16 where h: "addr_of blake3 p = ipv4_of_octets 10 254 (ucast (drop_bit 8 host)) (ucast host)"
    unfolding addr_of_def backhaul_addr_def by (rule backhaul_octets)
  have seg: "segment (overlay_link_local (addr_of blake3 p)) 7 = host"
    unfolding overlay_link_local_segments(2) h octet_ipv4_of_octets(3,4) by (rule be16_split)
  have inj: "ipv4_of_octets 10 254 (ucast (drop_bit 8 w)) (ucast w) = addr_of blake3 p \<longleftrightarrow> w = host" for w :: u16
    unfolding h using octet_ipv4_of_octets(3,4) be16_split by metis
  show ?thesis
    using assms by (cases pkt) (auto simp: next_hop_def Let_def seg ucast_low_byte inj)
qed




text \<open>The two directions of the neighbour address agree: a unicast IPv6 packet addressed to the
  link-local that a connected peer derives from its backhaul address is handed to exactly that
  peer's connection, whatever the forwarding table holds.\<close>

theorem link_local_reaches_peer:
  assumes "conns_reachable blake3 P m" and "inj_on (addr_of blake3) P"
    and "hm_get (by_peer m) p = Some c" and "classify pkt = Some Unicast" and "drop_bit 4 (hd pkt) = 6"
    and "get_range pkt 24 40 = Some dst" and "ipv6_of_bytes dst = overlay_link_local (addr_of blake3 p)"
  shows "overlay_reader_step fib m pkt = [(c, pkt)]"
proof -
  have "pkt \<noteq> []" using assms(4) by (auto simp: classify_def)
  then have "next_hop fib pkt = Some (addr_of blake3 p)"
    using next_hop_v6[OF _ assms(5,6)] assms(7) overlay_link_local_segments(1) by simp
  moreover have "conn_by_addr m (addr_of blake3 p) = Some c"
    using conns_reachable_indexed[OF assms(1,2)] assms(3) unfolding conns_indexed_def by blast
  ultimately show ?thesis by (simp add: overlay_reader_step_def assms(4) resolve_def)
qed

text \<open>Example: a packet to the link-local of peer \<open>b\<close>.\<close>

definition v6_packet :: "u8 list \<Rightarrow> u8 list" where
  "v6_packet dst = 0x60 # replicate 23 0 @ dst"

theorem link_local_reaches_peer_witness:
  "overlay_reader_step [] two_peers (v6_packet ([0xfe, 0x80] @ replicate 12 0 @ [98, 98])) =
     [(2, v6_packet ([0xfe, 0x80] @ replicate 12 0 @ [98, 98]))]"
proof (rule link_local_reaches_peer[OF two_peers_reachable first_byte_inj two_peers_get])
  let ?dst = "[0xfe, 0x80] @ replicate 12 0 @ [98, 98] :: u8 list"
  show r: "get_range (v6_packet ?dst) 24 40 = Some ?dst"
    by (simp add: v6_packet_def get_range_def numeral_eq_Suc)
  show "classify (v6_packet ?dst) = Some Unicast" "drop_bit 4 (hd (v6_packet ?dst)) = 6"
    using r by (simp_all add: v6_packet_def classify_def)
  show "ipv6_of_bytes ?dst = overlay_link_local (addr_of first_byte_hash ''b'')"
    unfolding first_byte_addrs by code_simp
qed

definition render_route :: "ipv4 \<times> nat \<times> ipv4 \<Rightarrow> string" where
  "render_route r =
     (case r of (net, len, gw) \<Rightarrow>
        join_with CHR '' '' [show_ipv4 net @ ''/'' @ decimal len, ''via'', show_ipv4 gw, ''dev'', ''mjolnir0''])"

lemma parse_cidr_render:
  assumes "len \<le> 255"
  shows "parse_cidr (show_ipv4 net @ ''/'' @ decimal len) = Some (net, len)"
proof -
  have "CHR ''/'' \<notin> set (show_ipv4 net)"
    using show_ipv4_chars[of "CHR ''/''" net] by (auto simp: is_ascii_digit_def byte_def)
  from split_once_append_sep[OF this, of "decimal len"] show ?thesis
    using assms by (simp add: parse_cidr_def parse_show_ipv4 parse_uint_decimal)
qed

lemma render_route_words:
  "split_whitespace (render_route (net, len, gw)) =
     [show_ipv4 net @ ''/'' @ decimal len, ''via'', show_ipv4 gw, ''dev'', ''mjolnir0'']"
  unfolding render_route_def prod.case
proof (rule split_whitespace_join)
  have "visible (show_ipv4 net @ ''/'' @ decimal len)"
    using show_ipv4_visible[of net] decimal_visible[of len] by (auto simp: visible_def byte_def)
  then show "\<forall>t\<in>set [show_ipv4 net @ ''/'' @ decimal len, ''via'', show_ipv4 gw, ''dev'', ''mjolnir0'']. visible t"
    using show_ipv4_visible[of gw] by (simp add: visible_def byte_def)
qed

lemma render_route_line:
  "CHR 0x0A \<notin> set (render_route r) \<and> last (render_route r) \<noteq> CHR 0x0D"
proof -
  obtain net len gw where r: "r = (net, len, gw)" by (cases r)
  have "\<not> is_ascii_digit CHR 0x0A" by (simp add: is_ascii_digit_def byte_def)
  then show ?thesis
    using show_ipv4_chars[of "CHR 0x0A" net] show_ipv4_chars[of "CHR 0x0A" gw] decimal_chars[of "CHR 0x0A" len]
    by (auto simp: r render_route_def join_with_def)
qed

lemma via_no_slash: "CHR ''/'' \<notin> set ''via''"
  by simp

lemma mirror_render:
  assumes "len \<le> 255" and "show_ipv4 net @ ''/'' @ decimal len \<noteq> ''via''"
  shows "mirror_line fib (split_whitespace (render_route (net, len, gw))) = fib_upsert fib net len gw"
  using assms parse_cidr_render[OF assms(1), of net]
  by (simp add: render_route_words mirror_line_def parse_show_ipv4)

text \<open>The route mirror reads back what the kernel prints: for every list of routes, the table
  mirrored from their text, one \<open>net/len via gateway dev iface\<close> per line, is the table with those
  routes inserted in order.\<close>

theorem fib_mirror_reads_routes:
  assumes "\<forall>r\<in>set routes. fst (snd r) \<le> 255"
  shows "fib_mirror (concat (map (\<lambda>r. render_route r @ [CHR 0x0A]) routes)) =
         foldl (\<lambda>fib (net, len, gw). fib_upsert fib net len gw) [] routes"
proof -
  have "lines (concat (map (\<lambda>l. l @ [CHR 0x0A]) (map render_route routes))) = map render_route routes"
    by (rule lines_unlines) (use render_route_line in auto)
  then have l: "lines (concat (map (\<lambda>r. render_route r @ [CHR 0x0A]) routes)) = map render_route routes"
    by (simp add: comp_def)
  have step: "mirror_line fib (split_whitespace (render_route r)) =
      (case r of (net, len, gw) \<Rightarrow> fib_upsert fib net len gw)" if "r \<in> set routes" for r fib
  proof -
    obtain net len gw where r: "r = (net, len, gw)" by (cases r)
    have "CHR ''/'' \<in> set (show_ipv4 net @ ''/'' @ decimal len)" by simp
    then have "show_ipv4 net @ ''/'' @ decimal len \<noteq> ''via''" by (metis via_no_slash)
    with mirror_render[of len net fib gw] assms that r show ?thesis by auto
  qed
  have "foldl (\<lambda>fib line. mirror_line fib (split_whitespace line)) fib (map render_route rs) =
      foldl (\<lambda>fib (net, len, gw). fib_upsert fib net len gw) fib rs" if "set rs \<subseteq> set routes" for fib rs
    using that by (induction rs arbitrary: fib) (auto simp: step)
  with l show ?thesis by (simp add: fib_mirror_def)
qed

text \<open>Example.\<close>

theorem fib_mirror_reads_routes_witness:
  "fib_mirror (concat (map (\<lambda>r. render_route r @ [CHR 0x0A]) [(0x0A2A0100, 24, 7)])) =
     fib_upsert [] 0x0A2A0100 24 7"
  using fib_mirror_reads_routes[of "[(0x0A2A0100, 24, 7)]"] by simp

section \<open>Where the index breaks\<close>

text \<open>Two peers whose ids hash to one overlay address: when the second one leaves, the first one is
  still connected but its address no longer leads anywhere.\<close>

theorem address_collision_unroutes:
  "let blake3 = (\<lambda>_. replicate 32 7);
       m = fst (conn_register blake3 (fst (conn_register blake3 conns_new ''a'' (1 :: nat))) ''b'' 2);
       m' = conn_deregister blake3 m ''b''
   in hm_get (by_peer m') ''a'' = Some 1 \<and> conn_by_addr m' (addr_of blake3 ''a'') = None"
  by (simp add: conn_register_def conn_deregister_def conn_by_addr_def conns_new_def addr_of_def
      backhaul_addr_def backhaul_addr_salted_def hm_get_def hm_remove_def Let_def)

text \<open>The index uses the unsalted address of a peer. A peer that lost an address conflict and moved
  to its first salted candidate is not found under the address it announces.\<close>

definition salted_hash :: "string \<Rightarrow> u8 list" where
  "salted_hash s = replicate 32 (if length s = 1 then 7 else 9)"

theorem salted_peer_unroutable:
  "conn_by_addr (fst (conn_register salted_hash conns_new ''a'' (1 :: nat)))
     (backhaul_addr_salted salted_hash ''a'' 1) = None"
proof -
  have "backhaul_addr_salted salted_hash ''a'' 1 \<noteq> addr_of salted_hash ''a''"
    by (simp add: addr_of_def backhaul_addr_def backhaul_addr_salted_def salted_hash_def be16_def
        BACKHAUL_BLOCK_def ipv4_of_octets_def)
  then show ?thesis
    by (simp add: conn_register_def conn_by_addr_def conns_new_def hm_get_def)
qed

end
