(* ===== verification/Crdt_Merge.thy ===== *)
theory Crdt_Merge
  imports Crdt_Records Rust_Strings
begin

text \<open>
  The merge functions of \<open>crdt/merge.rs\<close> (with the reserved-name list of \<open>crdt/service.rs\<close>) and
  of \<open>crdt/leased_name.rs\<close>, one definition per function. A merge looks at the local entry under a
  key and at the incoming one and says what to do; the apply functions of the later theories act
  on the verdict.
\<close>

datatype 'e MergeResult = Inserted | Updated | Unchanged | Conflict 'e 'e

section \<open>Subnet claims: first writer wins\<close>

definition resolve_subnet_conflict ::
  "SubnetClaim \<Rightarrow> SubnetClaim \<Rightarrow> SubnetClaim \<times> SubnetClaim" where
  "resolve_subnet_conflict a b =
     (case hlc_cmp (sc_claimed_at a) (sc_claimed_at b) of
        Less \<Rightarrow> (a, b)
      | Greater \<Rightarrow> (b, a)
      | Equal \<Rightarrow> if sc_owner_node_id a \<le> sc_owner_node_id b then (a, b) else (b, a))"

definition merge_subnet_claim ::
  "SubnetClaim option \<Rightarrow> SubnetClaim \<Rightarrow> SubnetClaim MergeResult" where
  "merge_subnet_claim local incoming =
     (case local of
        None \<Rightarrow> Inserted
      | Some existing \<Rightarrow>
          if sc_owner_node_id existing = sc_owner_node_id incoming then
            (case hlc_cmp (sc_claimed_at incoming) (sc_claimed_at existing) of
               Greater \<Rightarrow> Updated
             | _ \<Rightarrow> Unchanged)
          else
            (let (winner, loser) = resolve_subnet_conflict existing incoming
             in Conflict winner loser))"

section \<open>Self-announced and user lanes: last writer wins\<close>

definition merge_peer_addr ::
  "PeerAddrEntry option \<Rightarrow> PeerAddrEntry \<Rightarrow> PeerAddrEntry MergeResult" where
  "merge_peer_addr local incoming =
     (case local of
        None \<Rightarrow> Inserted
      | Some existing \<Rightarrow>
          (case hlc_cmp (pa_announced_at incoming) (pa_announced_at existing) of
             Greater \<Rightarrow> Updated
           | _ \<Rightarrow> Unchanged))"

definition merge_node_name ::
  "NodeNameEntry option \<Rightarrow> NodeNameEntry \<Rightarrow> NodeNameEntry MergeResult" where
  "merge_node_name local incoming =
     (case local of
        None \<Rightarrow> Inserted
      | Some existing \<Rightarrow>
          (case hlc_cmp (nn_announced_at incoming) (nn_announced_at existing) of
             Greater \<Rightarrow> Updated
           | _ \<Rightarrow> Unchanged))"

definition merge_user :: "UserEntry option \<Rightarrow> UserEntry \<Rightarrow> UserEntry MergeResult" where
  "merge_user local incoming =
     (case local of
        None \<Rightarrow> Inserted
      | Some existing \<Rightarrow>
          (case hlc_cmp (ue_updated_at incoming) (ue_updated_at existing) of
             Greater \<Rightarrow> Updated
           | _ \<Rightarrow> Unchanged))"

definition merge_service ::
  "ServiceEntry option \<Rightarrow> ServiceEntry \<Rightarrow> ServiceEntry MergeResult" where
  "merge_service local incoming =
     (case local of
        None \<Rightarrow> Inserted
      | Some existing \<Rightarrow>
          (case hlc_cmp (se_updated_at incoming) (se_updated_at existing) of
             Greater \<Rightarrow> Updated
           | _ \<Rightarrow> Unchanged))"

section \<open>Owner-bound services (v2)\<close>

definition RESERVED_SERVICE_NAMES :: "string list" where
  "RESERVED_SERVICE_NAMES = [''hello'', ''id'']"

definition is_reserved_service_name :: "string \<Rightarrow> bool" where
  "is_reserved_service_name name =
     (let lower = to_ascii_lowercase name
      in list_ex (\<lambda>reserved. reserved = lower) RESERVED_SERVICE_NAMES)"

datatype ReservedServiceName = ReservedServiceName string

definition resolve_service_conflict_v2 ::
  "ServiceEntryV2 \<Rightarrow> ServiceEntryV2 \<Rightarrow> ServiceEntryV2 \<times> ServiceEntryV2" where
  "resolve_service_conflict_v2 a b =
     (case hlc_cmp (s2_first_claimed_at a) (s2_first_claimed_at b) of
        Less \<Rightarrow> (a, b)
      | Greater \<Rightarrow> (b, a)
      | Equal \<Rightarrow> if s2_owner_node_id a \<le> s2_owner_node_id b then (a, b) else (b, a))"

definition merge_service_v2 ::
  "string \<Rightarrow> ServiceEntryV2 option \<Rightarrow> ServiceEntryV2 \<Rightarrow>
   ReservedServiceName + ServiceEntryV2 MergeResult" where
  "merge_service_v2 name local incoming =
     (if is_reserved_service_name name then Inl (ReservedServiceName name)
      else Inr
        (case local of
           None \<Rightarrow> Inserted
         | Some existing \<Rightarrow>
             if s2_owner_node_id existing = s2_owner_node_id incoming then
               (case hlc_cmp (s2_updated_at incoming) (s2_updated_at existing) of
                  Greater \<Rightarrow> Updated
                | _ \<Rightarrow> Unchanged)
             else
               (let (winner, loser) = resolve_service_conflict_v2 existing incoming
                in Conflict winner loser)))"

section \<open>Sample records, the fixtures of the source's unit tests\<close>

definition claim_at :: "string \<Rightarrow> u64 \<Rightarrow> SubnetClaim" where
  "claim_at owner t =
     \<lparr>sc_cidr = NetV4 (Ipv4Net 0x0A2A0100 24), sc_owner_node_id = owner, sc_site_name = None,
      sc_claimed_at = HLC t 0 owner\<rparr>"

definition service_at :: "string \<Rightarrow> u64 \<Rightarrow> u64 \<Rightarrow> ServiceEntryV2" where
  "service_at owner first upd =
     \<lparr>s2_owner_node_id = owner, s2_first_claimed_at = HLC first 0 owner,
      s2_updated_at = HLC upd 0 owner, s2_ip = V4 0xC0A80132, s2_port = 631,
      s2_protocol = ''_tcp'', s2_txt = [], s2_host_mac = None\<rparr>"

section \<open>Lemmas\<close>

text \<open>What a cross-owner conflict decides by: the clock, then the owner id.\<close>

definition claim_rank :: "SubnetClaim \<Rightarrow> HLC \<times> string" where
  "claim_rank c = (sc_claimed_at c, sc_owner_node_id c)"

definition service_rank :: "ServiceEntryV2 \<Rightarrow> HLC \<times> string" where
  "service_rank e = (s2_first_claimed_at e, s2_owner_node_id e)"

definition rank_less :: "HLC \<times> string \<Rightarrow> HLC \<times> string \<Rightarrow> bool" where
  "rank_less p q \<longleftrightarrow> fst p < fst q \<or> fst p = fst q \<and> snd p < snd q"

lemma rank_less_trans: "rank_less p q \<Longrightarrow> rank_less q r \<Longrightarrow> rank_less p r"
  by (auto simp: rank_less_def)

lemma rank_less_irrefl [simp]: "\<not> rank_less p p"
  by (simp add: rank_less_def)

lemma rank_less_asym: "rank_less p q \<Longrightarrow> \<not> rank_less q p"
  by (auto simp: rank_less_def)

lemma rank_less_total: "p \<noteq> q \<Longrightarrow> rank_less p q \<or> rank_less q p"
  by (cases p; cases q) (auto simp: rank_less_def)

lemma resolve_subnet_conflict_rank:
  "resolve_subnet_conflict a b = (if rank_less (claim_rank b) (claim_rank a) then (b, a) else (a, b))"
  by (auto simp: resolve_subnet_conflict_def claim_rank_def rank_less_def cmp_simps not_le)

lemma resolve_service_conflict_v2_rank:
  "resolve_service_conflict_v2 a b =
     (if rank_less (service_rank b) (service_rank a) then (b, a) else (a, b))"
  by (auto simp: resolve_service_conflict_v2_def service_rank_def rank_less_def cmp_simps not_le)

lemma merge_subnet_claim_cases:
  "merge_subnet_claim (Some x) e =
     (if sc_owner_node_id x = sc_owner_node_id e
      then (if sc_claimed_at x < sc_claimed_at e then Updated else Unchanged)
      else if rank_less (claim_rank e) (claim_rank x) then Conflict e x else Conflict x e)"
  by (auto simp: merge_subnet_claim_def resolve_subnet_conflict_rank cmp_simps)

lemma merge_service_v2_cases:
  "\<not> is_reserved_service_name name \<Longrightarrow> merge_service_v2 name (Some x) e =
     Inr (if s2_owner_node_id x = s2_owner_node_id e
      then (if s2_updated_at x < s2_updated_at e then Updated else Unchanged)
      else if rank_less (service_rank e) (service_rank x) then Conflict e x else Conflict x e)"
  by (auto simp: merge_service_v2_def resolve_service_conflict_v2_rank cmp_simps)

lemma lww_merge_cases:
  "merge_peer_addr (Some p) p' = (if pa_announced_at p < pa_announced_at p' then Updated else Unchanged)"
  "merge_node_name (Some n) n' = (if nn_announced_at n < nn_announced_at n' then Updated else Unchanged)"
  "merge_user (Some u) u' = (if ue_updated_at u < ue_updated_at u' then Updated else Unchanged)"
  "merge_service (Some s) s' = (if se_updated_at s < se_updated_at s' then Updated else Unchanged)"
  by (auto simp: merge_peer_addr_def merge_node_name_def merge_user_def merge_service_def cmp_simps)

lemma merge_None [simp]:
  "merge_peer_addr None p = Inserted" "merge_node_name None n = Inserted"
  "merge_user None u = Inserted" "merge_service None s = Inserted"
  "merge_subnet_claim None c = Inserted"
  "\<not> is_reserved_service_name name \<Longrightarrow> merge_service_v2 name None e = Inr Inserted"
  by (simp_all add: merge_peer_addr_def merge_node_name_def merge_user_def merge_service_def
      merge_subnet_claim_def merge_service_v2_def)

lemma is_reserved_service_name_iff:
  "is_reserved_service_name name \<longleftrightarrow> to_ascii_lowercase name \<in> {''hello'', ''id''}"
  by (auto simp: is_reserved_service_name_def RESERVED_SERVICE_NAMES_def Let_def)

text \<open>The conflict arbitration does not depend on which side is local: two routers that merge
  the same pair of claims by different owners, in either order, name the same winner and the same
  loser, and the winner is the earlier claim (the lower owner id on equal clocks). The same holds
  for subnet claims and for service names.\<close>

theorem conflict_resolution_symmetric:
  "(sc_owner_node_id a \<noteq> sc_owner_node_id b \<longrightarrow>
      merge_subnet_claim (Some a) b = merge_subnet_claim (Some b) a \<and>
      (\<exists>w l. merge_subnet_claim (Some a) b = Conflict w l \<and> {w, l} = {a, b} \<and>
             (sc_claimed_at w < sc_claimed_at l \<or>
              sc_claimed_at w = sc_claimed_at l \<and> sc_owner_node_id w < sc_owner_node_id l))) \<and>
   (s2_owner_node_id s \<noteq> s2_owner_node_id t \<longrightarrow>
      merge_service_v2 name (Some s) t = merge_service_v2 name (Some t) s \<and>
      (\<not> is_reserved_service_name name \<longrightarrow>
       (\<exists>w l. merge_service_v2 name (Some s) t = Inr (Conflict w l) \<and> {w, l} = {s, t} \<and>
             (s2_first_claimed_at w < s2_first_claimed_at l \<or>
              s2_first_claimed_at w = s2_first_claimed_at l \<and>
              s2_owner_node_id w < s2_owner_node_id l))))"
proof (intro conjI impI)
  assume ne: "sc_owner_node_id a \<noteq> sc_owner_node_id b"
  then have d: "rank_less (claim_rank a) (claim_rank b) \<or> rank_less (claim_rank b) (claim_rank a)"
    by (intro rank_less_total) (simp add: claim_rank_def)
  with ne show "merge_subnet_claim (Some a) b = merge_subnet_claim (Some b) a"
    by (auto simp: merge_subnet_claim_cases dest: rank_less_asym)
  from d ne show "\<exists>w l. merge_subnet_claim (Some a) b = Conflict w l \<and> {w, l} = {a, b} \<and>
      (sc_claimed_at w < sc_claimed_at l \<or>
       sc_claimed_at w = sc_claimed_at l \<and> sc_owner_node_id w < sc_owner_node_id l)"
    by (auto simp: merge_subnet_claim_cases claim_rank_def rank_less_def)
next
  assume ne: "s2_owner_node_id s \<noteq> s2_owner_node_id t"
  then have d: "rank_less (service_rank s) (service_rank t) \<or> rank_less (service_rank t) (service_rank s)"
    by (intro rank_less_total) (simp add: service_rank_def)
  show "merge_service_v2 name (Some s) t = merge_service_v2 name (Some t) s"
  proof (cases "is_reserved_service_name name")
    case True
    then show ?thesis by (simp add: merge_service_v2_def)
  next
    case False
    with d ne show ?thesis by (auto simp: merge_service_v2_cases dest: rank_less_asym)
  qed
  assume "\<not> is_reserved_service_name name"
  with d ne show "\<exists>w l. merge_service_v2 name (Some s) t = Inr (Conflict w l) \<and> {w, l} = {s, t} \<and>
      (s2_first_claimed_at w < s2_first_claimed_at l \<or>
       s2_first_claimed_at w = s2_first_claimed_at l \<and> s2_owner_node_id w < s2_owner_node_id l)"
    by (auto simp: merge_service_v2_cases service_rank_def rank_less_def)
qed

text \<open>Example: two routers, two claimants of one subnet and of the name \<open>printer\<close>.\<close>

theorem conflict_resolution_symmetric_witness:
  "merge_subnet_claim (Some (claim_at ''a'' 1)) (claim_at ''b'' 2) =
     merge_subnet_claim (Some (claim_at ''b'' 2)) (claim_at ''a'' 1) \<and>
   merge_service_v2 ''printer'' (Some (service_at ''a'' 1 1)) (service_at ''b'' 2 2) =
     merge_service_v2 ''printer'' (Some (service_at ''b'' 2 2)) (service_at ''a'' 1 1)"
  using conflict_resolution_symmetric[of "claim_at ''a'' 1" "claim_at ''b'' 2"
      "service_at ''a'' 1 1" "service_at ''b'' 2 2" "''printer''"]
  by (simp add: claim_at_def service_at_def)

end
