(* ===== verification/Lanes.thy ===== *)
theory Lanes
  imports Crdt_Merge
begin

text \<open>
  The gossip apply functions of \<open>bin/mjolnir-meshd.rs\<close> for the address book, the user directory,
  the node-name book, the v1 service directory and the subnet-claim store, and the convergence of
  these lanes.

  The interface \<open>lane\<close> states what a replicated book promises to the gossip layer: a message
  either leaves the book alone or offers one entry under one key, and the entry is kept exactly
  when it beats the one held. From this alone the locale proves that a book holds the best entry
  it was ever offered, hence that duplicates and reordering do not matter. \<open>lww_lane\<close> is the
  last-writer-wins case. Every apply function below is an interpretation.
\<close>

section \<open>Apply functions\<close>

definition apply_peer_addr_message ::
  "AddrBook \<Rightarrow> GossipMessage \<Rightarrow> string \<Rightarrow> AddrBook \<times> PeerAddrEntry option" where
  "apply_peer_addr_message book msg self_id =
     (case msg of
        PeerAddrUpdate node_id entry \<Rightarrow>
          if node_id = self_id then (book, None)
          else
            (case merge_peer_addr (bt_get book node_id) entry of
               Inserted \<Rightarrow> (bt_insert node_id entry book, Some entry)
             | Updated \<Rightarrow> (bt_insert node_id entry book, Some entry)
             | Unchanged \<Rightarrow> (book, None)
             | Conflict _ _ \<Rightarrow> (book, None))
      | _ \<Rightarrow> (book, None))"

definition apply_node_name_message ::
  "NodeNameBook \<Rightarrow> GossipMessage \<Rightarrow> string \<Rightarrow> NodeNameBook \<times> NodeNameEntry option" where
  "apply_node_name_message book msg self_id =
     (case msg of
        NodeNameAnnounce node_id entry \<Rightarrow>
          if nn_node_id entry \<noteq> node_id then (book, None)
          else if node_id = self_id then (book, None)
          else
            (case merge_node_name (bt_get book node_id) entry of
               Inserted \<Rightarrow> (bt_insert node_id entry book, Some entry)
             | Updated \<Rightarrow> (bt_insert node_id entry book, Some entry)
             | Unchanged \<Rightarrow> (book, None)
             | Conflict _ _ \<Rightarrow> (book, None))
      | _ \<Rightarrow> (book, None))"

definition apply_user_message ::
  "UserBook \<Rightarrow> GossipMessage \<Rightarrow> UserBook \<times> UserEntry option" where
  "apply_user_message book msg =
     (case msg of
        UserUpdate username entry \<Rightarrow>
          (case merge_user (bt_get book username) entry of
             Inserted \<Rightarrow> (bt_insert username entry book, Some entry)
           | Updated \<Rightarrow> (bt_insert username entry book, Some entry)
           | Unchanged \<Rightarrow> (book, None)
           | Conflict _ _ \<Rightarrow> (book, None))
      | _ \<Rightarrow> (book, None))"

definition apply_service_message ::
  "ServiceBook \<Rightarrow> GossipMessage \<Rightarrow> ServiceBook \<times> (string \<times> ServiceEntry) option" where
  "apply_service_message book msg =
     (case msg of
        ServiceUpdate name entry \<Rightarrow>
          (case merge_service (bt_get book name) entry of
             Inserted \<Rightarrow> (bt_insert name entry book, Some (name, entry))
           | Updated \<Rightarrow> (bt_insert name entry book, Some (name, entry))
           | Unchanged \<Rightarrow> (book, None)
           | Conflict _ _ \<Rightarrow> (book, None))
      | _ \<Rightarrow> (book, None))"

text \<open>The subnet lane returns the network this node lost, when a conflict costs it its claim.\<close>

definition apply_subnet_message ::
  "ClaimStore \<Rightarrow> GossipMessage \<Rightarrow> string \<Rightarrow> ClaimStore \<times> Ipv4Net option" where
  "apply_subnet_message store msg self_id =
     (case msg of
        SubnetClaimUpdate cidr entry \<Rightarrow>
          (case merge_subnet_claim (hm_get store cidr) entry of
             Inserted \<Rightarrow> (hm_insert cidr entry store, None)
           | Updated \<Rightarrow> (hm_insert cidr entry store, None)
           | Unchanged \<Rightarrow> (store, None)
           | Conflict winner loser \<Rightarrow>
               (let we_lost = (sc_owner_node_id loser = self_id \<and> sc_owner_node_id winner \<noteq> self_id);
                    lost = (case (we_lost, sc_cidr loser) of (True, NetV4 n) \<Rightarrow> Some n | _ \<Rightarrow> None)
                in (hm_insert cidr winner store, lost)))
      | SubnetClaimRelease cidr hlc \<Rightarrow>
          (if (case hm_get store cidr of None \<Rightarrow> False
               | Some existing \<Rightarrow> sc_claimed_at existing \<le> hlc)
           then (hm_remove cidr store, None) else (store, None))
      | _ \<Rightarrow> (store, None))"

section \<open>What a stream of messages offers to a book\<close>

definition offered :: "('msg \<Rightarrow> ('k \<times> 'e) option) \<Rightarrow> 'msg list \<Rightarrow> 'k \<Rightarrow> 'e set" where
  "offered payload ms k = {e. \<exists>g\<in>set ms. payload g = Some (k, e)}"

text \<open>\<open>known\<close> is what the book started with and what it was offered.\<close>

definition known ::
  "('m \<Rightarrow> 'k \<Rightarrow> 'e option) \<Rightarrow> ('msg \<Rightarrow> ('k \<times> 'e) option) \<Rightarrow> 'm \<Rightarrow> 'msg list \<Rightarrow> 'k \<Rightarrow> 'e set" where
  "known get payload m ms k = set_option (get m k) \<union> offered payload ms k"

definition strict_total :: "('e \<Rightarrow> 'e \<Rightarrow> bool) \<Rightarrow> 'e set \<Rightarrow> bool" where
  "strict_total beats S \<longleftrightarrow>
     (\<forall>x\<in>S. \<not> beats x x) \<and>
     (\<forall>x\<in>S. \<forall>y\<in>S. x \<noteq> y \<longrightarrow> beats x y \<or> beats y x) \<and>
     (\<forall>x\<in>S. \<forall>y\<in>S. \<forall>z\<in>S. beats x y \<longrightarrow> beats y z \<longrightarrow> beats x z)"

definition best_of :: "('e \<Rightarrow> 'e \<Rightarrow> bool) \<Rightarrow> 'e set \<Rightarrow> 'e option \<Rightarrow> bool" where
  "best_of beats S r \<longleftrightarrow>
     (case r of None \<Rightarrow> S = {} | Some e \<Rightarrow> e \<in> S \<and> (\<forall>x\<in>S. x \<noteq> e \<longrightarrow> beats e x))"

fun peer_addr_payload :: "string \<Rightarrow> GossipMessage \<Rightarrow> (string \<times> PeerAddrEntry) option" where
  "peer_addr_payload self_id (PeerAddrUpdate k e) = (if k = self_id then None else Some (k, e))"
| "peer_addr_payload self_id _ = None"

fun node_name_payload :: "string \<Rightarrow> GossipMessage \<Rightarrow> (string \<times> NodeNameEntry) option" where
  "node_name_payload self_id (NodeNameAnnounce k e) =
     (if nn_node_id e \<noteq> k \<or> k = self_id then None else Some (k, e))"
| "node_name_payload self_id _ = None"

fun user_payload :: "GossipMessage \<Rightarrow> (string \<times> UserEntry) option" where
  "user_payload (UserUpdate k e) = Some (k, e)"
| "user_payload _ = None"

fun service_payload :: "GossipMessage \<Rightarrow> (string \<times> ServiceEntry) option" where
  "service_payload (ServiceUpdate k e) = Some (k, e)"
| "service_payload _ = None"

fun subnet_payload :: "GossipMessage \<Rightarrow> (string \<times> SubnetClaim) option" where
  "subnet_payload (SubnetClaimUpdate k e) = Some (k, e)"
| "subnet_payload _ = None"

fun not_release :: "GossipMessage \<Rightarrow> bool" where
  "not_release (SubnetClaimRelease _ _) = False"
| "not_release _ = True"

definition subnet_beats :: "SubnetClaim \<Rightarrow> SubnetClaim \<Rightarrow> bool" where
  "subnet_beats e x \<longleftrightarrow>
     (if sc_owner_node_id x = sc_owner_node_id e then sc_claimed_at x < sc_claimed_at e
      else rank_less (claim_rank e) (claim_rank x))"

section \<open>The lane interface\<close>

lemma strict_total_mono: "strict_total beats T \<Longrightarrow> S \<subseteq> T \<Longrightarrow> strict_total beats S"
  unfolding strict_total_def by blast

lemma best_of_unique:
  assumes "strict_total beats S" and "best_of beats S r" and "best_of beats S r'"
  shows "r = r'"
proof (cases r; cases r')
  fix e e' assume r: "r = Some e" "r' = Some e'"
  with assms(2,3) have e: "e \<in> S" "e' \<in> S"
    and b: "e' \<noteq> e \<Longrightarrow> beats e e'" "e \<noteq> e' \<Longrightarrow> beats e' e"
    by (auto simp: best_of_def)
  have "beats e e' \<Longrightarrow> beats e' e \<Longrightarrow> False"
    using assms(1) e unfolding strict_total_def by blast
  with b r show "r = r'" by auto
qed (use assms(2,3) in \<open>auto simp: best_of_def\<close>)

text \<open>Keeping the better of the held and the offered entry keeps the best.\<close>

lemma best_of_insert:
  assumes "strict_total beats (insert e S)" and "best_of beats S r"
  shows "best_of beats (insert e S)
           (Some (case r of None \<Rightarrow> e | Some x \<Rightarrow> if beats e x then e else x))"
proof (cases r)
  case None
  with assms(2) show ?thesis by (simp add: best_of_def)
next
  case (Some x)
  then have x: "x \<in> S" "\<forall>y\<in>S. y \<noteq> x \<longrightarrow> beats x y"
    using assms(2) by (auto simp: best_of_def)
  have "beats e x \<Longrightarrow> y \<in> S \<Longrightarrow> beats e y" for y
    using x assms(1) unfolding strict_total_def by (cases "y = x") blast+
  moreover have "\<not> beats e x \<Longrightarrow> e \<noteq> x \<Longrightarrow> beats x e"
    using x assms(1) unfolding strict_total_def by blast
  ultimately show ?thesis
    using Some x by (auto simp: best_of_def)
qed

lemma known_snoc:
  "known get payload m (ms @ [g]) k =
     (case payload g of
        Some (k', e) \<Rightarrow> if k' = k then insert e (known get payload m ms k) else known get payload m ms k
      | None \<Rightarrow> known get payload m ms k)"
  by (auto simp: known_def offered_def split: option.splits prod.splits)

lemma known_set_cong: "set ms = set ms' \<Longrightarrow> known get payload m ms = known get payload m ms'"
  by (simp add: known_def offered_def fun_eq_iff)

lemma known_mono: "known get payload m ms k \<subseteq> known get payload m (ms @ ms') k"
  by (auto simp: known_def offered_def)

locale lane =
  fixes get :: "'m \<Rightarrow> 'k \<Rightarrow> 'e option"
    and ok :: "'m \<Rightarrow> bool"
    and step :: "'m \<Rightarrow> 'msg \<Rightarrow> 'm"
    and admissible :: "'msg \<Rightarrow> bool"
    and payload :: "'msg \<Rightarrow> ('k \<times> 'e) option"
    and beats :: "'e \<Rightarrow> 'e \<Rightarrow> bool"
  assumes step_ok: "ok m \<Longrightarrow> admissible g \<Longrightarrow> ok (step m g)"
    and step_skip: "ok m \<Longrightarrow> admissible g \<Longrightarrow> payload g = None \<Longrightarrow> step m g = m"
    and step_get: "ok m \<Longrightarrow> admissible g \<Longrightarrow> payload g = Some (k, e) \<Longrightarrow>
          get (step m g) k' =
            (if k' = k then Some (case get m k of None \<Rightarrow> e | Some x \<Rightarrow> if beats e x then e else x)
             else get m k')"
begin

lemma run_ok: "ok m \<Longrightarrow> list_all admissible ms \<Longrightarrow> ok (foldl step m ms)"
  by (induction ms arbitrary: m) (simp_all add: step_ok)

lemma run_best:
  assumes "ok m" and "list_all admissible ms" and "strict_total beats (known get payload m ms k)"
  shows "best_of beats (known get payload m ms k) (get (foldl step m ms) k)"
  using assms(2,3)
proof (induction ms rule: rev_induct)
  case Nil
  then show ?case
    by (cases "get m k") (auto simp: best_of_def known_def offered_def)
next
  case (snoc g ms)
  have IH: "best_of beats (known get payload m ms k) (get (foldl step m ms) k)"
    using snoc strict_total_mono known_mono by (metis list_all_append)
  have okm: "ok (foldl step m ms)" and ad: "admissible g"
    using assms(1) snoc.prems(1) by (auto intro: run_ok)
  show ?case
  proof (cases "payload g")
    case None
    with IH ad show ?thesis by (simp add: known_snoc step_skip[OF okm])
  next
    case (Some p)
    then obtain k' e where p: "payload g = Some (k', e)" by (cases p) auto
    show ?thesis
    proof (cases "k' = k")
      case True
      with snoc.prems(2) p have "strict_total beats (insert e (known get payload m ms k))"
        by (simp add: known_snoc)
      from best_of_insert[OF this IH] True p show ?thesis
        by (simp add: known_snoc step_get[OF okm ad p])
    next
      case False
      with IH p show ?thesis by (simp add: known_snoc step_get[OF okm ad p])
    qed
  qed
qed

lemma run_converges:
  assumes "ok m" and "list_all admissible ms" and "set ms = set ms'"
    and "\<And>k. strict_total beats (known get payload m ms k)"
  shows "get (foldl step m ms) k = get (foldl step m ms') k"
proof -
  have ad: "list_all admissible ms'" using assms(2,3) by (metis list_all_iff)
  have k: "known get payload m ms = known get payload m ms'"
    using assms(3) by (rule known_set_cong)
  show ?thesis
  proof (rule best_of_unique)
    show "best_of beats (known get payload m ms k) (get (foldl step m ms) k)"
      by (rule run_best) (use assms in auto)
    have "best_of beats (known get payload m ms' k) (get (foldl step m ms') k)"
      by (rule run_best) (use assms(1,4) ad k in auto)
    then show "best_of beats (known get payload m ms k) (get (foldl step m ms') k)"
      by (simp add: k)
  qed (rule assms(4))
qed

lemma run_untouched:
  "ok m \<Longrightarrow> list_all admissible ms \<Longrightarrow> offered payload ms k = {} \<Longrightarrow> get (foldl step m ms) k = get m k"
proof (induction ms arbitrary: m)
  case (Cons g ms)
  then have ad: "admissible g" and o: "offered payload ms k = {}" and np: "\<nexists>e. payload g = Some (k, e)"
    by (auto simp: offered_def)
  have "get (step m g) k = get m k"
  proof (cases "payload g")
    case None
    with ad show ?thesis by (simp add: step_skip[OF Cons.prems(1)])
  next
    case (Some p)
    with np show ?thesis by (cases p) (auto simp: step_get[OF Cons.prems(1) ad])
  qed
  with Cons o show ?case by (simp add: step_ok)
qed simp

lemma redelivery_ignored:
  assumes "ok m" and "admissible g" and "\<And>k e. payload g = Some (k, e) \<Longrightarrow> \<not> beats e e"
  shows "get (step (step m g) g) k = get (step m g) k"
proof (cases "payload g")
  case None
  then show ?thesis using assms(2) by (simp add: step_skip[OF assms(1)])
next
  case (Some p)
  then obtain k' e where p: "payload g = Some (k', e)" by (cases p) auto
  show ?thesis
    using assms(3)[OF p] by (simp add: step_get[OF step_ok[OF assms(1,2)] assms(2) p]
        step_get[OF assms(1,2) p] split: option.splits)
qed

end

text \<open>Last writer wins: the entry with the newer stamp beats the other.\<close>

locale lww_lane =
  fixes get :: "'m \<Rightarrow> 'k \<Rightarrow> 'e option"
    and ok :: "'m \<Rightarrow> bool"
    and step :: "'m \<Rightarrow> 'msg \<Rightarrow> 'm"
    and payload :: "'msg \<Rightarrow> ('k \<times> 'e) option"
    and stamp :: "'e \<Rightarrow> HLC"
  assumes lww_ok: "ok m \<Longrightarrow> ok (step m g)"
    and lww_skip: "payload g = None \<Longrightarrow> step m g = m"
    and lww_get: "ok m \<Longrightarrow> payload g = Some (k, e) \<Longrightarrow>
          get (step m g) k' =
            (if k' = k
             then Some (case get m k of None \<Rightarrow> e | Some x \<Rightarrow> if stamp x < stamp e then e else x)
             else get m k')"

sublocale lww_lane \<subseteq> lane get ok step "\<lambda>_. True" payload "\<lambda>e x. stamp x < stamp e"
  by unfold_locales (auto simp: lww_ok lww_skip lww_get)

context lww_lane
begin

lemma stamps_strict_total: "inj_on stamp S \<Longrightarrow> strict_total (\<lambda>e x. stamp x < stamp e) S"
  unfolding strict_total_def inj_on_def by (meson less_irrefl less_trans neqE)

lemma lww_run_ok: "ok m \<Longrightarrow> ok (foldl step m ms)"
  by (rule run_ok) (simp_all add: list_all_iff)

lemma lww_latest:
  assumes "ok m" and "inj_on stamp (known get payload m ms k)"
  shows "case get (foldl step m ms) k of
           None \<Rightarrow> known get payload m ms k = {}
         | Some e \<Rightarrow> e \<in> known get payload m ms k \<and>
                     (\<forall>x\<in>known get payload m ms k. stamp x \<le> stamp e)"
  using run_best[OF assms(1) _ stamps_strict_total[OF assms(2)]]
  by (auto simp: best_of_def list_all_iff split: option.splits)

lemma lww_converges:
  assumes "ok m" and "set ms = set ms'" and "\<And>k. inj_on stamp (known get payload m ms k)"
  shows "get (foldl step m ms) k = get (foldl step m ms') k"
  by (rule run_converges[OF assms(1)])
    (use assms in \<open>auto simp: list_all_iff intro: stamps_strict_total\<close>)

end

section \<open>The interpretations\<close>

lemmas lane_apply_defs =
  apply_peer_addr_message_def apply_node_name_message_def apply_user_message_def
  apply_service_message_def

interpretation pa: lww_lane bt_get bt_ok "\<lambda>b g. fst (apply_peer_addr_message b g self_id)"
    "peer_addr_payload self_id" pa_announced_at for self_id
  by unfold_locales
    (auto simp: lane_apply_defs lww_merge_cases map_simps map_ok
      split: GossipMessage.splits option.splits if_splits MergeResult.splits)

interpretation nn: lww_lane bt_get bt_ok "\<lambda>b g. fst (apply_node_name_message b g self_id)"
    "node_name_payload self_id" nn_announced_at for self_id
  by unfold_locales
    (auto simp: lane_apply_defs lww_merge_cases map_simps map_ok
      split: GossipMessage.splits option.splits if_splits MergeResult.splits)

interpretation ue: lww_lane bt_get bt_ok "\<lambda>b g. fst (apply_user_message b g)"
    user_payload ue_updated_at
  by unfold_locales
    (auto simp: lane_apply_defs lww_merge_cases map_simps map_ok
      split: GossipMessage.splits option.splits if_splits MergeResult.splits)

interpretation se: lww_lane bt_get bt_ok "\<lambda>b g. fst (apply_service_message b g)"
    service_payload se_updated_at
  by unfold_locales
    (auto simp: lane_apply_defs lww_merge_cases map_simps map_ok
      split: GossipMessage.splits option.splits if_splits MergeResult.splits)

interpretation sc: lane hm_get hm_ok "\<lambda>b g. fst (apply_subnet_message b g self_id)"
    not_release subnet_payload subnet_beats for self_id
  by unfold_locales
    (auto simp: apply_subnet_message_def merge_subnet_claim_cases subnet_beats_def
      map_simps map_ok Let_def
      split: GossipMessage.splits option.splits if_splits MergeResult.splits)

lemma own_payload_none:
  "peer_addr_payload self_id g \<noteq> Some (self_id, e)"
  "node_name_payload self_id g \<noteq> Some (self_id, n)"
  by (cases g; simp)+

section \<open>Properties\<close>

text \<open>The hypothesis of the last-writer-wins lanes: no two different records under one key carry
  the same timestamp. A record is stamped by the node that writes it with that node's id, so equal
  stamps mean one write.\<close>

definition unique_stamps ::
  "('m \<Rightarrow> 'k \<Rightarrow> 'e option) \<Rightarrow> ('msg \<Rightarrow> ('k \<times> 'e) option) \<Rightarrow> ('e \<Rightarrow> HLC) \<Rightarrow> 'm \<Rightarrow> 'msg list \<Rightarrow> bool" where
  "unique_stamps get payload stamp m ms \<longleftrightarrow> (\<forall>k. inj_on stamp (known get payload m ms k))"

text \<open>Strong eventual consistency of the last-writer-wins lanes: two nodes that start from the
  same books and receive the same set of gossip messages, in any order, with any duplication and
  interleaved with any messages of the other lanes, end with identical address book, node-name
  book, user directory and service directory.\<close>

theorem lww_lanes_converge:
  assumes "set ms = set ms'"
    and "bt_ok addrs" and "unique_stamps bt_get (peer_addr_payload self_id) pa_announced_at addrs ms"
    and "bt_ok names" and "unique_stamps bt_get (node_name_payload self_id) nn_announced_at names ms"
    and "bt_ok users" and "unique_stamps bt_get user_payload ue_updated_at users ms"
    and "bt_ok svcs" and "unique_stamps bt_get service_payload se_updated_at svcs ms"
  shows "foldl (\<lambda>b g. fst (apply_peer_addr_message b g self_id)) addrs ms =
           foldl (\<lambda>b g. fst (apply_peer_addr_message b g self_id)) addrs ms' \<and>
         foldl (\<lambda>b g. fst (apply_node_name_message b g self_id)) names ms =
           foldl (\<lambda>b g. fst (apply_node_name_message b g self_id)) names ms' \<and>
         foldl (\<lambda>b g. fst (apply_user_message b g)) users ms =
           foldl (\<lambda>b g. fst (apply_user_message b g)) users ms' \<and>
         foldl (\<lambda>b g. fst (apply_service_message b g)) svcs ms =
           foldl (\<lambda>b g. fst (apply_service_message b g)) svcs ms'"
  by (intro conjI bt_eqI pa.lww_run_ok nn.lww_run_ok ue.lww_run_ok se.lww_run_ok pa.lww_converges nn.lww_converges
      ue.lww_converges se.lww_converges)
    (use assms in \<open>auto simp: unique_stamps_def\<close>)

definition user_at :: "string \<Rightarrow> string \<Rightarrow> u64 \<Rightarrow> UserEntry" where
  "user_at name display t =
     \<lparr>ue_username = name, ue_display_name = display, ue_registered_by = ''r'', ue_attrs = [],
      ue_updated_at = HLC t 0 ''r''\<rparr>"

text \<open>Example: a record and its later edit, delivered in order and then edit first with a
  late duplicate.\<close>

theorem lww_lanes_converge_witness:
  "foldl (\<lambda>b g. fst (apply_user_message b g)) []
      [UserUpdate ''ada'' (user_at ''ada'' ''Ada'' 1), UserUpdate ''ada'' (user_at ''ada'' ''Ada L'' 2)] =
   foldl (\<lambda>b g. fst (apply_user_message b g)) []
      [UserUpdate ''ada'' (user_at ''ada'' ''Ada L'' 2), UserUpdate ''ada'' (user_at ''ada'' ''Ada'' 1),
       UserUpdate ''ada'' (user_at ''ada'' ''Ada L'' 2)]"
proof -
  let ?ms = "[UserUpdate ''ada'' (user_at ''ada'' ''Ada'' 1), UserUpdate ''ada'' (user_at ''ada'' ''Ada L'' 2)]"
  let ?ms' = "[UserUpdate ''ada'' (user_at ''ada'' ''Ada L'' 2), UserUpdate ''ada'' (user_at ''ada'' ''Ada'' 1),
       UserUpdate ''ada'' (user_at ''ada'' ''Ada L'' 2)]"
  have s: "set ?ms = set ?ms'" by auto
  have u: "unique_stamps bt_get user_payload ue_updated_at [] ?ms"
    by (auto simp: unique_stamps_def known_def offered_def bt_get_def inj_on_def user_at_def)
  have o: "unique_stamps bt_get (peer_addr_payload ''n'') pa_announced_at [] ?ms"
    "unique_stamps bt_get (node_name_payload ''n'') nn_announced_at [] ?ms"
    "unique_stamps bt_get service_payload se_updated_at [] ?ms"
    by (auto simp: unique_stamps_def known_def offered_def bt_get_def inj_on_def)
  show ?thesis
    using lww_lanes_converge[OF s bt_empty_ok o(1) bt_empty_ok o(2) bt_empty_ok u bt_empty_ok o(3)]
    by blast
qed

text \<open>Refinement of the address book to its specification: after any stream of gossip the entry
  under a peer id is the newest one the node ever held or was sent for that peer, and there is no
  entry exactly when there was none; the entry under the node's own id is never touched.\<close>

theorem addr_book_holds_latest:
  assumes "bt_ok book"
    and "unique_stamps bt_get (peer_addr_payload self_id) pa_announced_at book ms"
  shows "(case bt_get (foldl (\<lambda>b g. fst (apply_peer_addr_message b g self_id)) book ms) k of
            None \<Rightarrow> known bt_get (peer_addr_payload self_id) book ms k = {}
          | Some e \<Rightarrow> e \<in> known bt_get (peer_addr_payload self_id) book ms k \<and>
              (\<forall>x\<in>known bt_get (peer_addr_payload self_id) book ms k.
                 pa_announced_at x \<le> pa_announced_at e)) \<and>
         bt_get (foldl (\<lambda>b g. fst (apply_peer_addr_message b g self_id)) book ms) self_id =
           bt_get book self_id"
proof
  show "case bt_get (foldl (\<lambda>b g. fst (apply_peer_addr_message b g self_id)) book ms) k of
            None \<Rightarrow> known bt_get (peer_addr_payload self_id) book ms k = {}
          | Some e \<Rightarrow> e \<in> known bt_get (peer_addr_payload self_id) book ms k \<and>
              (\<forall>x\<in>known bt_get (peer_addr_payload self_id) book ms k.
                 pa_announced_at x \<le> pa_announced_at e)"
    by (rule pa.lww_latest) (use assms in \<open>auto simp: unique_stamps_def\<close>)
  have "offered (peer_addr_payload self_id) ms self_id = {}"
    by (simp add: offered_def own_payload_none)
  then show "bt_get (foldl (\<lambda>b g. fst (apply_peer_addr_message b g self_id)) book ms) self_id =
           bt_get book self_id"
    by (intro pa.run_untouched) (simp_all add: assms(1) list_all_iff)
qed

definition peer_at :: "string \<Rightarrow> u64 \<Rightarrow> PeerAddrEntry" where
  "peer_at node t =
     \<lparr>pa_node_id = node, pa_direct_addrs = [], pa_relay_url = None, pa_announced_at = HLC t 0 node\<rparr>"

text \<open>Example: of two announcements of peer \<open>p\<close>, delivered newest first, the newest stays.\<close>

theorem addr_book_holds_latest_witness:
  "bt_get (foldl (\<lambda>b g. fst (apply_peer_addr_message b g ''me'')) []
      [PeerAddrUpdate ''p'' (peer_at ''p'' 9), PeerAddrUpdate ''p'' (peer_at ''p'' 4)]) ''p'' =
   Some (peer_at ''p'' 9)"
proof -
  let ?ms = "[PeerAddrUpdate ''p'' (peer_at ''p'' 9), PeerAddrUpdate ''p'' (peer_at ''p'' 4)]"
  have k: "known bt_get (peer_addr_payload ''me'') [] ?ms ''p'' = {peer_at ''p'' 9, peer_at ''p'' 4}"
    by (auto simp: known_def offered_def bt_get_def)
  have u: "unique_stamps bt_get (peer_addr_payload ''me'') pa_announced_at [] ?ms"
    by (auto simp: unique_stamps_def known_def offered_def bt_get_def inj_on_def peer_at_def)
  have "\<not> pa_announced_at (peer_at ''p'' 9) \<le> pa_announced_at (peer_at ''p'' 4)"
    by (simp add: peer_at_def HLC_le_eval)
  then show ?thesis
    using addr_book_holds_latest[OF bt_empty_ok u, of "''p''"]
    by (auto simp: k split: option.splits)
qed

text \<open>The node-name book cannot be forged: after any stream of gossip every entry the stream
  changed sits under the id of the node it names, and the node's own name is never learned from
  the mesh.\<close>

theorem node_name_book_integrity:
  assumes "bt_ok book" and "\<forall>k e. bt_get book k = Some e \<longrightarrow> nn_node_id e = k"
  shows "(\<forall>k e. bt_get (foldl (\<lambda>b g. fst (apply_node_name_message b g self_id)) book ms) k = Some e
            \<longrightarrow> nn_node_id e = k) \<and>
         bt_get (foldl (\<lambda>b g. fst (apply_node_name_message b g self_id)) book ms) self_id =
           bt_get book self_id"
proof
  show "\<forall>k e. bt_get (foldl (\<lambda>b g. fst (apply_node_name_message b g self_id)) book ms) k = Some e
            \<longrightarrow> nn_node_id e = k"
    using assms
  proof (induction ms arbitrary: book)
    case Nil
    then show ?case unfolding foldl_Nil by blast
  next
    case (Cons g ms)
    let ?b = "fst (apply_node_name_message book g self_id)"
    have "bt_ok ?b" by (rule nn.lww_ok[OF Cons.prems(1)])
    moreover have "\<forall>k e. bt_get ?b k = Some e \<longrightarrow> nn_node_id e = k"
    proof (cases "node_name_payload self_id g")
      case None
      with Cons.prems(2) show ?thesis by (simp add: nn.lww_skip)
    next
      case (Some p)
      then obtain k e where p: "node_name_payload self_id g = Some (k, e)" and k: "nn_node_id e = k"
        by (cases g) (auto split: if_splits)
      show ?thesis
      proof (intro allI impI)
        fix k' e' assume "bt_get ?b k' = Some e'"
        then have "bt_get book k' = Some e' \<or> k' = k \<and> e' = e"
          unfolding nn.lww_get[OF Cons.prems(1) p] by (auto split: if_splits option.splits)
        then show "nn_node_id e' = k'" using Cons.prems(2) k by blast
      qed
    qed
    ultimately show ?case unfolding foldl_Cons by (rule Cons.IH)
  qed
  have "offered (node_name_payload self_id) ms self_id = {}"
    by (simp add: offered_def own_payload_none)
  then show "bt_get (foldl (\<lambda>b g. fst (apply_node_name_message b g self_id)) book ms) self_id =
           bt_get book self_id"
    by (intro nn.run_untouched) (simp_all add: assms(1) list_all_iff)
qed

text \<open>Example: a forged announcement (the record of \<open>b\<close> under the key \<open>a\<close>) and an echo of
  the node's own name leave the empty book empty at those keys.\<close>

theorem node_name_book_integrity_witness:
  "bt_get (foldl (\<lambda>b g. fst (apply_node_name_message b g ''me'')) []
      [NodeNameAnnounce ''a'' \<lparr>nn_node_id = ''b'', nn_name = ''attic'', nn_announced_at = HLC 1 0 ''b''\<rparr>,
       NodeNameAnnounce ''me'' \<lparr>nn_node_id = ''me'', nn_name = ''x'', nn_announced_at = HLC 1 0 ''me''\<rparr>])
     ''me'' = None"
  using node_name_book_integrity[OF bt_empty_ok, of "''me''"
      "[NodeNameAnnounce ''a'' \<lparr>nn_node_id = ''b'', nn_name = ''attic'', nn_announced_at = HLC 1 0 ''b''\<rparr>,
       NodeNameAnnounce ''me'' \<lparr>nn_node_id = ''me'', nn_name = ''x'', nn_announced_at = HLC 1 0 ''me''\<rparr>]"]
  by (simp add: map_simps del: foldl_Cons)

text \<open>The address book has no such check: an announcement keyed under one node may carry the record
  of another node and is stored, although the address book is documented to be keyed by the node
  id of its entries.\<close>

theorem addr_book_accepts_mismatched_key:
  "bt_get (fst (apply_peer_addr_message [] (PeerAddrUpdate ''a'' (peer_at ''me'' 1)) ''me'')) ''a'' =
     Some (peer_at ''me'' 1) \<and> pa_node_id (peer_at ''me'' 1) \<noteq> ''a''"
  by (simp add: apply_peer_addr_message_def bt_get_def peer_at_def)

lemma owners_beats:
  assumes "inj_on sc_owner_node_id S" and "x \<in> S" and "y \<in> S"
  shows "subnet_beats x y \<longleftrightarrow> rank_less (claim_rank x) (claim_rank y)"
  using inj_onD[OF assms(1) _ assms(2,3)] by (auto simp: subnet_beats_def)

lemma owners_strict_total: "inj_on sc_owner_node_id S \<Longrightarrow> strict_total subnet_beats S"
  unfolding strict_total_def
  by (auto simp: owners_beats claim_rank_def intro: rank_less_trans)
    (metis claim_rank_def inj_onD prod.inject rank_less_total)

text \<open>C3. Convergence of the subnet-claim store: when every owner stamps its claim on a CIDR once
  (re-publication keeps the stamp), two nodes with the same store that receive the same set of
  claim updates, in any order and with any duplication, agree on the owner of every CIDR, and it
  is the earliest claimant (lowest timestamp, then lowest owner id).\<close>

theorem subnet_claims_converge:
  assumes "set ms = set ms'" and "hm_ok store" and "list_all not_release ms"
    and "\<forall>k. inj_on sc_owner_node_id (known hm_get subnet_payload store ms k)"
  shows "hm_get (foldl (\<lambda>b g. fst (apply_subnet_message b g self_id)) store ms) k =
         hm_get (foldl (\<lambda>b g. fst (apply_subnet_message b g self_id)) store ms') k \<and>
         (\<forall>c\<in>known hm_get subnet_payload store ms k.
            \<exists>w. hm_get (foldl (\<lambda>b g. fst (apply_subnet_message b g self_id)) store ms) k = Some w \<and>
                (w = c \<or> rank_less (claim_rank w) (claim_rank c)))"
proof -
  note beats = owners_beats[OF assms(4)[rule_format]]
  have total: "strict_total subnet_beats (known hm_get subnet_payload store ms k)" for k
    using assms(4) by (simp add: owners_strict_total)
  have best: "best_of subnet_beats (known hm_get subnet_payload store ms k)
      (hm_get (foldl (\<lambda>b g. fst (apply_subnet_message b g self_id)) store ms) k)"
    by (rule sc.run_best[OF assms(2,3) total])
  have "hm_get (foldl (\<lambda>b g. fst (apply_subnet_message b g self_id)) store ms) k =
        hm_get (foldl (\<lambda>b g. fst (apply_subnet_message b g self_id)) store ms') k"
    by (rule sc.run_converges[OF assms(2,3,1) total])
  with best show ?thesis
    by (auto simp: best_of_def beats split: option.splits)
qed

text \<open>Witness of C3: two claimants of one CIDR, in both orders.\<close>

theorem subnet_claims_converge_witness:
  "hm_get (foldl (\<lambda>b g. fst (apply_subnet_message b g ''me'')) []
      [SubnetClaimUpdate ''c'' (claim_at ''a'' 2), SubnetClaimUpdate ''c'' (claim_at ''b'' 1)]) ''c'' =
   hm_get (foldl (\<lambda>b g. fst (apply_subnet_message b g ''me'')) []
      [SubnetClaimUpdate ''c'' (claim_at ''b'' 1), SubnetClaimUpdate ''c'' (claim_at ''a'' 2)]) ''c''"
proof -
  let ?ms = "[SubnetClaimUpdate ''c'' (claim_at ''a'' 2), SubnetClaimUpdate ''c'' (claim_at ''b'' 1)]"
  let ?ms' = "[SubnetClaimUpdate ''c'' (claim_at ''b'' 1), SubnetClaimUpdate ''c'' (claim_at ''a'' 2)]"
  have s: "set ?ms = set ?ms'" and n: "list_all not_release ?ms" by auto
  have i: "\<forall>k. inj_on sc_owner_node_id (known hm_get subnet_payload [] ?ms k)"
    by (auto simp: known_def offered_def hm_get_def inj_on_def claim_at_def)
  show ?thesis
    using subnet_claims_converge[OF s hm_empty_ok n i] by blast
qed

text \<open>Without the one-stamp hypothesis the lane does not converge: an owner that re-stamps its claim
  after a rival's claim loses or keeps the CIDR depending on the order of delivery.\<close>

theorem subnet_restamp_diverges:
  "hm_get (foldl (\<lambda>b g. fst (apply_subnet_message b g ''me'')) []
      [SubnetClaimUpdate ''c'' (claim_at ''a'' 1), SubnetClaimUpdate ''c'' (claim_at ''b'' 2),
       SubnetClaimUpdate ''c'' (claim_at ''a'' 3)]) ''c'' = Some (claim_at ''a'' 3) \<and>
   hm_get (foldl (\<lambda>b g. fst (apply_subnet_message b g ''me'')) []
      [SubnetClaimUpdate ''c'' (claim_at ''a'' 1), SubnetClaimUpdate ''c'' (claim_at ''a'' 3),
       SubnetClaimUpdate ''c'' (claim_at ''b'' 2)]) ''c'' = Some (claim_at ''b'' 2)"
  by (simp add: apply_subnet_message_def merge_subnet_claim_cases claim_at_def claim_rank_def
      rank_less_def HLC_less_eval hm_get_def)

text \<open>\<open>apply_subnet_message\<close> on every branch: what the store holds under the CIDR afterwards and
  which network the node has lost. A network is reported lost exactly when this node's claim, held
  or incoming, loses the arbitration to another owner's; a release removes the claim exactly when
  it is not older than it; other messages change nothing.\<close>

theorem apply_subnet_message_spec:
  assumes "hm_ok store"
  shows "apply_subnet_message store msg self_id = (store', lost) \<Longrightarrow>
    (case msg of
       SubnetClaimUpdate cidr e \<Rightarrow>
         (\<forall>k. k \<noteq> cidr \<longrightarrow> hm_get store' k = hm_get store k) \<and>
         (case hm_get store cidr of
            None \<Rightarrow> hm_get store' cidr = Some e \<and> lost = None
          | Some x \<Rightarrow>
              if sc_owner_node_id x = sc_owner_node_id e
              then hm_get store' cidr = Some (if sc_claimed_at x < sc_claimed_at e then e else x) \<and>
                   lost = None
              else if rank_less (claim_rank e) (claim_rank x)
              then hm_get store' cidr = Some e \<and>
                   (\<forall>n. lost = Some n \<longleftrightarrow> sc_owner_node_id x = self_id \<and> sc_cidr x = NetV4 n)
              else hm_get store' cidr = Some x \<and>
                   (\<forall>n. lost = Some n \<longleftrightarrow> sc_owner_node_id e = self_id \<and> sc_cidr e = NetV4 n))
     | SubnetClaimRelease cidr h \<Rightarrow>
         lost = None \<and>
         (\<forall>k. hm_get store' k =
            (if k = cidr \<and> (\<exists>x. hm_get store cidr = Some x \<and> sc_claimed_at x \<le> h) then None
             else hm_get store k))
     | _ \<Rightarrow> store' = store \<and> lost = None)"
  using assms
  by (cases msg)
    (auto simp: apply_subnet_message_def merge_subnet_claim_cases map_simps Let_def
      split: option.splits if_splits IpNet.splits bool.splits)

text \<open>Example: this node loses its claim to an earlier one.\<close>

theorem apply_subnet_message_spec_witness:
  "\<exists>store'. apply_subnet_message [(''c'', claim_at ''me'' 5)] (SubnetClaimUpdate ''c'' (claim_at ''b'' 2)) ''me'' =
     (store', Some (Ipv4Net 0x0A2A0100 24)) \<and> hm_get store' ''c'' = Some (claim_at ''b'' 2)"
proof -
  obtain store' lost where a:
    "apply_subnet_message [(''c'', claim_at ''me'' 5)] (SubnetClaimUpdate ''c'' (claim_at ''b'' 2)) ''me'' =
       (store', lost)" by fastforce
  have ok: "hm_ok [(''c'', claim_at ''me'' 5)]" by (simp add: hm_ok_def)
  have "rank_less (claim_rank (claim_at ''b'' 2)) (claim_rank (claim_at ''me'' 5))"
    by (simp add: claim_rank_def claim_at_def rank_less_def HLC_less_eval)
  then show ?thesis
    using apply_subnet_message_spec[OF ok a] a by (auto simp: hm_get_def claim_at_def)
qed

end
