(* ===== verification/Liveness.thy ===== *)
theory Liveness
  imports Lanes
begin

text \<open>
  The ephemeral planes of the daemon: internet egress (\<open>crdt/egress.rs\<close>, with the probe task and
  the advertisement of \<open>bin/mjolnir-meshd.rs\<close>) and liveness beacons (\<open>crdt/liveness.rs\<close>, with
  \<open>emit_liveness_beacon\<close>).

  The kernel's route table, the outcome of a \<open>wget\<close> run and the monotonic clock are inputs of the
  definitions. The accepted-beacon map is an interpretation of the \<open>lane\<close> interface: the pair
  (incarnation, counter) decides which beacon is kept.
\<close>

section \<open>Egress classification\<close>

definition EXCLUDED_EGRESS_IFACES :: "string list" where
  "EXCLUDED_EGRESS_IFACES = [''br-mesh'', ''mjolnir0'']"

record DefaultRoute =
  oif :: string
  proto_babel :: bool

definition classify_egress :: "DefaultRoute list \<Rightarrow> string list \<Rightarrow> bool \<Rightarrow> EgressAd option" where
  "classify_egress candidates excluded probe_healthy =
     (let qualifies = list_ex (\<lambda>r. \<not> proto_babel r \<and> \<not> List.member excluded (oif r)) candidates
      in if qualifies then Some \<lparr>ea_healthy = probe_healthy, ea_cost_hint = 0\<rparr> else None)"

section \<open>Fail-open probe hysteresis\<close>

record ProbeHysteresis =
  ph_healthy :: bool
  consecutive_fail :: u32
  demote_after :: u32

definition hysteresis_new :: "u32 \<Rightarrow> ProbeHysteresis" where
  "hysteresis_new d = \<lparr>ph_healthy = True, consecutive_fail = 0, demote_after = max d 1\<rparr>"

definition hysteresis_observe :: "ProbeHysteresis \<Rightarrow> bool option \<Rightarrow> ProbeHysteresis \<times> bool" where
  "hysteresis_observe h outcome =
     (let h' =
        (case outcome of
           Some True \<Rightarrow> h\<lparr>consecutive_fail := 0, ph_healthy := True\<rparr>
         | Some False \<Rightarrow>
             (let h1 = h\<lparr>consecutive_fail := saturating_add (consecutive_fail h) 1\<rparr>
              in if demote_after h1 \<le> consecutive_fail h1 then h1\<lparr>ph_healthy := False\<rparr> else h1)
         | None \<Rightarrow> h)
      in (h', ph_healthy h'))"

section \<open>The reachability probe\<close>

text \<open>What one \<open>wget\<close> run under the per-URL timeout came to.\<close>

datatype FetchResult =
    Fetched bool bool   \<comment> \<open>exit status is success, standard output is empty\<close>
  | SpawnNotFound
  | SpawnError
  | Elapsed

definition PROBE_URLS :: "string list" where
  "PROBE_URLS =
     [''http://connectivitycheck.gstatic.com/generate_204'',
      ''http://www.gstatic.com/generate_204'',
      ''http://clients3.google.com/generate_204'']"

fun probe_loop :: "(string \<Rightarrow> FetchResult) \<Rightarrow> string list \<Rightarrow> bool \<Rightarrow> bool option" where
  "probe_loop fetch [] any_ran = (if any_ran then Some False else None)"
| "probe_loop fetch (url # urls) any_ran =
     (case fetch url of
        Fetched success stdout_empty \<Rightarrow>
          if success \<and> stdout_empty then Some True else probe_loop fetch urls True
      | SpawnNotFound \<Rightarrow> None
      | SpawnError \<Rightarrow> probe_loop fetch urls any_ran
      | Elapsed \<Rightarrow> probe_loop fetch urls True)"

definition probe_internet :: "(string \<Rightarrow> FetchResult) \<Rightarrow> bool option" where
  "probe_internet fetch = probe_loop fetch PROBE_URLS False"

text \<open>The probe task owns the hysteresis and publishes its verdict in the global flag.\<close>

record ProbeTask =
  hyst :: ProbeHysteresis
  GATEWAY_PROBE_HEALTHY :: bool

definition DEMOTE_AFTER :: u32 where
  "DEMOTE_AFTER = 3"

definition probe_task_start :: ProbeTask where
  "probe_task_start = \<lparr>hyst = hysteresis_new DEMOTE_AFTER, GATEWAY_PROBE_HEALTHY = True\<rparr>"

definition gateway_probe_tick ::
  "ProbeTask \<Rightarrow> DefaultRoute list \<Rightarrow> (string \<Rightarrow> FetchResult) \<Rightarrow> ProbeTask" where
  "gateway_probe_tick s routes fetch =
     (if classify_egress routes EXCLUDED_EGRESS_IFACES True \<noteq> None then
        (let (h, healthy) = hysteresis_observe (hyst s) (probe_internet fetch)
         in s\<lparr>hyst := h, GATEWAY_PROBE_HEALTHY := healthy\<rparr>)
      else s\<lparr>hyst := hysteresis_new DEMOTE_AFTER, GATEWAY_PROBE_HEALTHY := True\<rparr>)"

definition gateway_probe_bypassed :: "string option \<Rightarrow> bool" where
  "gateway_probe_bypassed env_var =
     (case env_var of None \<Rightarrow> False | Some v \<Rightarrow> v = ''1'' \<or> v = ''true'' \<or> v = ''yes'')"

definition local_egress ::
  "DefaultRoute list \<Rightarrow> string option \<Rightarrow> ProbeTask \<Rightarrow> EgressAd option" where
  "local_egress routes env_var s =
     (let healthy = (gateway_probe_bypassed env_var \<or> GATEWAY_PROBE_HEALTHY s)
      in classify_egress routes EXCLUDED_EGRESS_IFACES healthy)"

section \<open>The liveness tracker\<close>

record Seen =
  incarnation :: u64
  seen_counter :: u64
  received_at_ms :: u64
  seen_egress :: "EgressAd option"

record LivenessTracker =
  seen :: "(string, Seen) btree_map"
  stale_threshold_ms :: u64
  hard_expiry_ms :: u64

definition superseded_by :: "Seen \<Rightarrow> u64 \<Rightarrow> u64 \<Rightarrow> bool" where
  "superseded_by s inc ctr \<longleftrightarrow>
     incarnation s < inc \<or> (inc = incarnation s \<and> seen_counter s < ctr)"

definition tracker_new :: "u64 \<Rightarrow> u64 \<Rightarrow> LivenessTracker" where
  "tracker_new stale hard = \<lparr>seen = [], stale_threshold_ms = stale, hard_expiry_ms = hard\<rparr>"

definition observe_with_egress ::
  "LivenessTracker \<Rightarrow> string \<Rightarrow> u64 \<Rightarrow> u64 \<Rightarrow> EgressAd option \<Rightarrow> u64 \<Rightarrow> LivenessTracker \<times> bool" where
  "observe_with_egress t node_id inc ctr egress now_ms =
     (let s = \<lparr>incarnation = inc, seen_counter = ctr, received_at_ms = now_ms, seen_egress = egress\<rparr>
      in (case bt_get (seen t) node_id of
            Some prev \<Rightarrow>
              if \<not> superseded_by prev inc ctr then (t, False)
              else (t\<lparr>seen := bt_insert node_id s (seen t)\<rparr>, True)
          | None \<Rightarrow> (t\<lparr>seen := bt_insert node_id s (seen t)\<rparr>, True)))"

definition observe :: "LivenessTracker \<Rightarrow> string \<Rightarrow> u64 \<Rightarrow> u64 \<Rightarrow> u64 \<Rightarrow> LivenessTracker \<times> bool" where
  "observe t node_id inc ctr now_ms = observe_with_egress t node_id inc ctr None now_ms"

definition touch :: "LivenessTracker \<Rightarrow> string \<Rightarrow> u64 \<Rightarrow> LivenessTracker" where
  "touch t node_id now_ms =
     (case bt_get (seen t) node_id of
        Some prev \<Rightarrow> t\<lparr>seen := bt_insert node_id (prev\<lparr>received_at_ms := now_ms\<rparr>) (seen t)\<rparr>
      | None \<Rightarrow>
          t\<lparr>seen := bt_insert node_id
              \<lparr>incarnation = 0, seen_counter = 0, received_at_ms = now_ms, seen_egress = None\<rparr>
              (seen t)\<rparr>)"

definition age_ms :: "LivenessTracker \<Rightarrow> string \<Rightarrow> u64 \<Rightarrow> u64 option" where
  "age_ms t node_id now_ms =
     map_option (\<lambda>s. saturating_sub now_ms (received_at_ms s)) (bt_get (seen t) node_id)"

definition last_seen_ms :: "LivenessTracker \<Rightarrow> string \<Rightarrow> u64 option" where
  "last_seen_ms t node_id = map_option received_at_ms (bt_get (seen t) node_id)"

definition is_stale :: "LivenessTracker \<Rightarrow> string \<Rightarrow> u64 \<Rightarrow> bool" where
  "is_stale t node_id now_ms =
     (case age_ms t node_id now_ms of None \<Rightarrow> True | Some age \<Rightarrow> stale_threshold_ms t < age)"

definition is_hard_expired :: "LivenessTracker \<Rightarrow> string \<Rightarrow> u64 \<Rightarrow> bool" where
  "is_hard_expired t node_id now_ms =
     (case age_ms t node_id now_ms of None \<Rightarrow> False | Some age \<Rightarrow> hard_expiry_ms t < age)"

definition forget :: "LivenessTracker \<Rightarrow> string \<Rightarrow> LivenessTracker" where
  "forget t node_id = t\<lparr>seen := bt_remove node_id (seen t)\<rparr>"

definition live_gateways :: "LivenessTracker \<Rightarrow> u64 \<Rightarrow> (string \<times> EgressAd) list" where
  "live_gateways t now_ms =
     List.map_filter
       (\<lambda>(id, s). case seen_egress s of
           Some ad \<Rightarrow> if ea_healthy ad then Some (id, ad) else None
         | None \<Rightarrow> None)
       (filter (\<lambda>(id, _). \<not> is_stale t id now_ms) (seen t))"

text \<open>\<open>emit_liveness_beacon\<close>: the message handed to the gossip layer (a failed publish is only
  logged), the advanced counter, and the tracker with this node touched.\<close>

definition emit_liveness_beacon ::
  "string \<Rightarrow> u64 \<Rightarrow> u64 \<Rightarrow> EgressAd option \<Rightarrow> u64 \<Rightarrow> LivenessTracker \<Rightarrow>
   GossipMessage \<times> u64 \<times> LivenessTracker" where
  "emit_liveness_beacon self_id inc ctr egress now_ms t =
     (LivenessBeacon self_id inc ctr egress, ctr + 1, touch t self_id now_ms)"

section \<open>Lemmas: hysteresis\<close>

text \<open>Specification of the verdict: the length of the current run of confirmed failures, where
  probes that could not run do not count.\<close>

definition failure_run :: "bool option list \<Rightarrow> nat" where
  "failure_run os = length (takeWhile (\<lambda>r. r = Some False) (rev (filter (\<lambda>r. r \<noteq> None) os)))"

lemma failure_run_snoc:
  "failure_run (os @ [r]) =
     (case r of None \<Rightarrow> failure_run os | Some True \<Rightarrow> 0 | Some False \<Rightarrow> Suc (failure_run os))"
  by (auto simp: failure_run_def split: option.splits bool.splits)

definition hyst_run :: "u32 \<Rightarrow> bool option list \<Rightarrow> ProbeHysteresis" where
  "hyst_run d os = foldl (\<lambda>h r. fst (hysteresis_observe h r)) (hysteresis_new d) os"

lemma hyst_run_snoc: "hyst_run d (os @ [r]) = fst (hysteresis_observe (hyst_run d os) r)"
  by (simp add: hyst_run_def)

lemma unat_max_1: "unat (max d 1 :: u32) = max (unat d) 1"
  by (cases "d = 0") (auto simp: max_def word_le_nat_alt unat_eq_0)

lemma hyst_run_counts:
  "demote_after (hyst_run d os) = max d 1 \<and>
   unat (consecutive_fail (hyst_run d os)) = min (failure_run os) (2 ^ 32 - 1) \<and>
   (ph_healthy (hyst_run d os) \<longleftrightarrow> failure_run os < max (unat d) 1)"
proof (induction os rule: rev_induct)
  case Nil
  then show ?case
    by (simp add: hyst_run_def hysteresis_new_def failure_run_def)
next
  case (snoc r os)
  let ?h = "hyst_run d os"
  have d: "unat (demote_after ?h) = max (unat d) 1" using snoc.IH by (simp add: unat_max_1)
  have "unat d < 2 ^ LENGTH(32)" by (rule unsigned_less)
  then have lt: "max (unat d) 1 \<le> 2 ^ 32 - 1" by simp
  consider "r = None" | "r = Some True" | "r = Some False" by (cases r) auto
  then show ?case
  proof cases
    case 3
    have c: "unat (saturating_add (consecutive_fail ?h) 1) = min (Suc (failure_run os)) (2 ^ 32 - 1)"
      using snoc.IH by (simp add: unat_saturating_add)
    have le: "demote_after ?h \<le> saturating_add (consecutive_fail ?h) 1 \<longleftrightarrow>
        max (unat d) 1 \<le> Suc (failure_run os)"
      unfolding word_le_nat_alt d c using lt by (auto simp: min_def)
    show ?thesis
      using snoc.IH 3 c le
      by (auto simp: hyst_run_snoc failure_run_snoc hysteresis_observe_def Let_def)
  qed (use snoc.IH in \<open>auto simp: hyst_run_snoc failure_run_snoc hysteresis_observe_def Let_def max_def\<close>)
qed

section \<open>Lemmas: the probe task\<close>

definition has_uplink :: "DefaultRoute list \<Rightarrow> bool" where
  "has_uplink routes \<longleftrightarrow> (\<exists>r\<in>set routes. \<not> proto_babel r \<and> oif r \<notin> {''br-mesh'', ''mjolnir0''})"

lemma classify_egress_iff:
  "classify_egress routes EXCLUDED_EGRESS_IFACES h =
     (if has_uplink routes then Some \<lparr>ea_healthy = h, ea_cost_hint = 0\<rparr> else None)"
  by (auto simp: classify_egress_def has_uplink_def EXCLUDED_EGRESS_IFACES_def list_ex_iff Let_def)

definition probe_task_run :: "(DefaultRoute list \<times> (string \<Rightarrow> FetchResult)) list \<Rightarrow> ProbeTask" where
  "probe_task_run ticks = foldl (\<lambda>s (routes, fetch). gateway_probe_tick s routes fetch) probe_task_start ticks"

text \<open>The probe outcomes since the uplink was last missing.\<close>

definition outcomes_since_uplink ::
  "(DefaultRoute list \<times> (string \<Rightarrow> FetchResult)) list \<Rightarrow> bool option list" where
  "outcomes_since_uplink ticks =
     map (probe_internet \<circ> snd) (rev (takeWhile (has_uplink \<circ> fst) (rev ticks)))"

lemma outcomes_since_uplink_snoc:
  "outcomes_since_uplink (ticks @ [(routes, fetch)]) =
     (if has_uplink routes then outcomes_since_uplink ticks @ [probe_internet fetch] else [])"
  by (simp add: outcomes_since_uplink_def)

lemma probe_task_run_state:
  "probe_task_run ticks =
     \<lparr>hyst = hyst_run DEMOTE_AFTER (outcomes_since_uplink ticks),
      GATEWAY_PROBE_HEALTHY = ph_healthy (hyst_run DEMOTE_AFTER (outcomes_since_uplink ticks))\<rparr>"
proof (induction ticks rule: rev_induct)
  case Nil
  then show ?case
    by (simp add: probe_task_run_def probe_task_start_def outcomes_since_uplink_def hyst_run_def
        hysteresis_new_def)
next
  case (snoc p ticks)
  obtain routes fetch where p: "p = (routes, fetch)" by fastforce
  have "probe_task_run (ticks @ [p]) = gateway_probe_tick (probe_task_run ticks) routes fetch"
    by (simp add: probe_task_run_def p)
  then show ?case
    by (simp add: snoc p gateway_probe_tick_def classify_egress_iff outcomes_since_uplink_snoc
        hyst_run_snoc split: prod.splits)
      (auto simp: hysteresis_observe_def Let_def hyst_run_def hysteresis_new_def)
qed

section \<open>Lemmas: the tracker as a lane\<close>

datatype beacon = Beacon (b_node: string) (b_inc: u64) (b_ctr: u64) (b_egress: "EgressAd option") (b_at: u64)

definition hear :: "LivenessTracker \<Rightarrow> beacon \<Rightarrow> LivenessTracker" where
  "hear t b = fst (observe_with_egress t (b_node b) (b_inc b) (b_ctr b) (b_egress b) (b_at b))"

definition seen_of :: "beacon \<Rightarrow> Seen" where
  "seen_of b = \<lparr>incarnation = b_inc b, seen_counter = b_ctr b, received_at_ms = b_at b, seen_egress = b_egress b\<rparr>"

definition seen_get :: "LivenessTracker \<Rightarrow> string \<Rightarrow> Seen option" where
  "seen_get t = bt_get (seen t)"

definition tracker_ok :: "LivenessTracker \<Rightarrow> bool" where
  "tracker_ok t \<longleftrightarrow> bt_ok (seen t)"

definition newer :: "Seen \<Rightarrow> Seen \<Rightarrow> bool" where
  "newer e x \<longleftrightarrow> superseded_by x (incarnation e) (seen_counter e)"

interpretation lv: lane seen_get tracker_ok hear "\<lambda>_. True" "\<lambda>b. Some (b_node b, seen_of b)" newer
  by unfold_locales
    (auto simp: seen_get_def tracker_ok_def hear_def observe_with_egress_def newer_def seen_of_def
      Let_def map_simps map_ok split: option.splits)

lemma seen_of_sel [simp]:
  "incarnation (seen_of b) = b_inc b" "seen_counter (seen_of b) = b_ctr b"
  by (simp_all add: seen_of_def)

lemma superseded_by_trans:
  "superseded_by a (incarnation b) (seen_counter b) \<Longrightarrow> superseded_by b i c \<Longrightarrow> superseded_by a i c"
  by (auto simp: superseded_by_def)

lemma hear_config [simp]:
  "stale_threshold_ms (foldl hear t bs) = stale_threshold_ms t"
  "hard_expiry_ms (foldl hear t bs) = hard_expiry_ms t"
  by (induction bs arbitrary: t)
    (auto simp: hear_def observe_with_egress_def Let_def split: option.splits)

text \<open>After hearing a beacon, the record of its origin is never superseded by it again.\<close>

lemma heard_not_superseded:
  assumes "tracker_ok t" and "b \<in> set bs"
  shows "\<exists>s. seen_get (foldl hear t bs) (b_node b) = Some s \<and> \<not> superseded_by s (b_inc b) (b_ctr b)"
  using assms(2)
proof (induction bs rule: rev_induct)
  case (snoc x bs)
  have ok: "tracker_ok (foldl hear t bs)" by (rule lv.run_ok[OF assms(1)]) (simp add: list_all_iff)
  note get = lv.step_get[OF ok TrueI refl, of x]
  show ?case
  proof (cases "b = x")
    case True
    then show ?thesis
      by (auto simp: get newer_def seen_of_def superseded_by_def split: option.splits)
  next
    case False
    with snoc obtain s where s: "seen_get (foldl hear t bs) (b_node b) = Some s"
      "\<not> superseded_by s (b_inc b) (b_ctr b)" by auto
    moreover have "superseded_by s (b_inc x) (b_ctr x) \<Longrightarrow> \<not> superseded_by (seen_of x) (b_inc b) (b_ctr b)"
      using s(2) superseded_by_trans[of s "seen_of x"] by auto
    ultimately show ?thesis
      by (auto simp: get newer_def split: if_splits)
  qed
qed simp

lemma live_gateways_iff:
  assumes "tracker_ok t"
  shows "(n, ad) \<in> set (live_gateways t now) \<longleftrightarrow>
    (\<exists>s. seen_get t n = Some s \<and> seen_egress s = Some ad \<and> ea_healthy ad \<and> \<not> is_stale t n now)"
  using assms
  by (force simp: live_gateways_def seen_get_def tracker_ok_def bt_get_iff List.map_filter_def
      split: option.splits if_splits)

lemma is_stale_iff:
  "is_stale t n now \<longleftrightarrow>
     (case seen_get t n of None \<Rightarrow> True
      | Some s \<Rightarrow> unat (stale_threshold_ms t) < unat now - unat (received_at_ms s))"
  by (auto simp: is_stale_def age_ms_def seen_get_def word_less_nat_alt unat_saturating_sub
      split: option.splits)

text \<open>A beacon that does not supersede the record of its origin is refused and changes nothing.\<close>

lemma observe_refused:
  "seen_get t n = Some s \<Longrightarrow> \<not> superseded_by s i c \<Longrightarrow> observe_with_egress t n i c eg at = (t, False)"
  by (simp add: observe_with_egress_def seen_get_def)

section \<open>Properties\<close>

text \<open>C37. The gateway advertisement refines its fail-open specification: after any sequence of probe
  ticks, a node advertises egress exactly when it has a default route that babel did not install
  and that does not leave through the backhaul bridge or the overlay, and the advertisement is
  unhealthy exactly when the probe is not bypassed and at least three confirmed failures in a row
  (not interrupted by a success; ticks on which the probe could not run do not count) were seen
  since the uplink appeared.\<close>

theorem egress_fail_open:
  "local_egress routes env_var (probe_task_run ticks) =
     (if has_uplink routes
      then Some \<lparr>ea_healthy = (gateway_probe_bypassed env_var \<or>
                               failure_run (outcomes_since_uplink ticks) < 3),
                 ea_cost_hint = 0\<rparr>
      else None)"
proof -
  have "unat DEMOTE_AFTER = 3" by (simp add: DEMOTE_AFTER_def)
  then have "GATEWAY_PROBE_HEALTHY (probe_task_run ticks) \<longleftrightarrow>
      failure_run (outcomes_since_uplink ticks) < 3"
    using hyst_run_counts[of DEMOTE_AFTER "outcomes_since_uplink ticks"]
    by (simp add: probe_task_run_state)
  then show ?thesis by (simp add: local_egress_def classify_egress_iff)
qed

text \<open>C36. Replay resistance of the liveness plane: once a beacon was heard, delivering it again, at
  any later time and with any egress advertisement attached, is refused and changes nothing, so
  replays can neither keep a dead node alive nor bring back a withdrawn gateway.\<close>

theorem beacon_replay_refused:
  assumes "tracker_ok t" and "b \<in> set bs"
  shows "observe_with_egress (foldl hear t bs) (b_node b) (b_inc b) (b_ctr b) egress now =
           (foldl hear t bs, False)"
  using heard_not_superseded[OF assms] observe_refused by blast

text \<open>Witness of C36: of a node's two beacons the first is replayed.\<close>

theorem beacon_replay_refused_witness:
  "observe_with_egress
     (foldl hear (tracker_new 90 900) [Beacon ''g'' 7 1 None 10, Beacon ''g'' 7 2 None 40])
     ''g'' 7 1 (Some \<lparr>ea_healthy = True, ea_cost_hint = 0\<rparr>) 500 =
   (foldl hear (tracker_new 90 900) [Beacon ''g'' 7 1 None 10, Beacon ''g'' 7 2 None 40], False)"
  using beacon_replay_refused[of "tracker_new 90 900" "Beacon ''g'' 7 1 None 10"
      "[Beacon ''g'' 7 1 None 10, Beacon ''g'' 7 2 None 40]"
      "Some \<lparr>ea_healthy = True, ea_cost_hint = 0\<rparr>" 500]
  by (simp add: tracker_new_def tracker_ok_def map_ok)

text \<open>Positive expiry of gateways: a node that was last heard at time \<open>r\<close> and from which only
  duplicates and older beacons arrive afterwards is a gateway exactly while its last advertisement
  is healthy and no more than the stale threshold has passed since \<open>r\<close>, whatever the other nodes
  send.\<close>

theorem gateway_expires:
  assumes "tracker_ok t" and "seen_get t n = Some s"
    and "\<forall>b\<in>set bs. b_node b = n \<longrightarrow> \<not> superseded_by s (b_inc b) (b_ctr b)"
  shows "(\<exists>ad. (n, ad) \<in> set (live_gateways (foldl hear t bs) now)) \<longleftrightarrow>
           (\<exists>ad. seen_egress s = Some ad \<and> ea_healthy ad) \<and>
           unat now - unat (received_at_ms s) \<le> unat (stale_threshold_ms t)"
proof -
  have ok: "tracker_ok (foldl hear t bs)" by (rule lv.run_ok[OF assms(1)]) (simp add: list_all_iff)
  have "seen_get (foldl hear t bs) n = Some s"
    using assms
  proof (induction bs arbitrary: t)
    case (Cons b bs)
    have "seen_get (hear t b) n = Some s"
      using Cons.prems(2,3)
      by (auto simp: lv.step_get[OF Cons.prems(1) TrueI refl] newer_def)
    moreover have "tracker_ok (hear t b)" by (rule lv.step_ok[OF Cons.prems(1) TrueI])
    ultimately show ?case using Cons by simp
  qed simp
  then show ?thesis
    by (auto simp: live_gateways_iff[OF ok] is_stale_iff)
qed

text \<open>Example: a healthy gateway heard at 10 with a threshold of 90 is gone at 101, though its
  beacon is replayed.\<close>

theorem gateway_expires_witness:
  "\<not> (\<exists>ad. (''g'', ad) \<in> set (live_gateways
        (foldl hear \<lparr>seen = [(''g'', \<lparr>incarnation = 7, seen_counter = 1, received_at_ms = 10,
              seen_egress = Some \<lparr>ea_healthy = True, ea_cost_hint = 0\<rparr>\<rparr>)],
            stale_threshold_ms = 90, hard_expiry_ms = 900\<rparr>
          [Beacon ''g'' 7 1 (Some \<lparr>ea_healthy = True, ea_cost_hint = 0\<rparr>) 80]) 101))"
  by (subst gateway_expires)
    (auto simp: tracker_ok_def bt_ok_def seen_get_def bt_get_def superseded_by_def)

end
