(* ===== verification/Services.thy ===== *)
theory Services
  imports Liveness
begin

text \<open>
  The owner-bound service directory (v2): the apply layer of \<open>crdt/service_apply.rs\<close> and the
  daemon code around it in \<open>bin/mjolnir-meshd.rs\<close> (local publish and unpublish, the gossip arms,
  anti-entropy re-announcement, the staleness sweep).

  The three shared stores are one record, \<open>ServiceStateV2\<close>, as the daemon persists them. An
  operation returns the new state, its result and its effects: the messages handed to the gossip
  layer (a publish that fails is only logged) and the snapshot written to disk.
\<close>

section \<open>State and outcomes\<close>

record ServiceStateV2 =
  book :: ServiceBookV2
  tombstones :: ServiceTombstoneBook
  lost_names :: LostNameMap

datatype PublishOutcome =
    Merged "ServiceEntryV2 MergeResult"
  | Revived
  | RejectedByTombstone

datatype UnpublishOutcome =
    Unpublished
  | TombstoneRecorded
  | UnpublishUnchanged
  | IgnoredNotOwner

datatype ServicePublishError =
    Reserved string
  | LostToPeer string

section \<open>\<open>service_apply.rs\<close>\<close>

definition apply_merge_result ::
  "ServiceBookV2 \<Rightarrow> string \<Rightarrow> ServiceEntryV2 \<Rightarrow> ServiceEntryV2 MergeResult \<Rightarrow> ServiceBookV2" where
  "apply_merge_result bk name incoming result =
     (case result of
        Inserted \<Rightarrow> bt_insert name incoming bk
      | Updated \<Rightarrow> bt_insert name incoming bk
      | Conflict winner _ \<Rightarrow> bt_insert name winner bk
      | Unchanged \<Rightarrow> bk)"

definition apply_service_publish_v2 ::
  "ServiceBookV2 \<Rightarrow> ServiceTombstoneBook \<Rightarrow> string \<Rightarrow> ServiceEntryV2 \<Rightarrow>
   ServiceBookV2 \<times> (ReservedServiceName + PublishOutcome)" where
  "apply_service_publish_v2 bk tombs name incoming =
     (case bt_get bk name of
        Some local \<Rightarrow>
          (case merge_service_v2 name (Some local) incoming of
             Inl e \<Rightarrow> (bk, Inl e)
           | Inr result \<Rightarrow> (apply_merge_result bk name incoming result, Inr (Merged result)))
      | None \<Rightarrow>
          (case bt_get tombs name of
             None \<Rightarrow>
               (case merge_service_v2 name None incoming of
                  Inl e \<Rightarrow> (bk, Inl e)
                | Inr result \<Rightarrow> (apply_merge_result bk name incoming result, Inr (Merged result)))
           | Some tombstone \<Rightarrow>
               if s2_owner_node_id incoming = ts_owner_node_id tombstone \<and>
                  ts_hlc tombstone < s2_updated_at incoming
               then (bt_insert name incoming bk, Inr Revived)
               else (bk, Inr RejectedByTombstone)))"

definition track_conflict_loss ::
  "LostNameMap \<Rightarrow> string \<Rightarrow> string \<Rightarrow> PublishOutcome \<Rightarrow> LostNameMap" where
  "track_conflict_loss lost self_id name outcome =
     (case outcome of
        Merged (Conflict winner loser) \<Rightarrow>
          if s2_owner_node_id loser = self_id
          then bt_insert name \<lparr>ln_winner_node_id = s2_owner_node_id winner,
                               ln_hlc = s2_first_claimed_at winner\<rparr> lost
          else lost
      | _ \<Rightarrow> lost)"

definition apply_service_publish_v2_tracking_loss ::
  "ServiceStateV2 \<Rightarrow> string \<Rightarrow> string \<Rightarrow> ServiceEntryV2 \<Rightarrow>
   ServiceStateV2 \<times> (ReservedServiceName + PublishOutcome)" where
  "apply_service_publish_v2_tracking_loss st self_id name incoming =
     (case apply_service_publish_v2 (book st) (tombstones st) name incoming of
        (bk, Inl e) \<Rightarrow> (st\<lparr>book := bk\<rparr>, Inl e)
      | (bk, Inr outcome) \<Rightarrow>
          (st\<lparr>book := bk, lost_names := track_conflict_loss (lost_names st) self_id name outcome\<rparr>,
           Inr outcome))"

definition publish_service_v2 ::
  "ServiceStateV2 \<Rightarrow> string \<Rightarrow> string \<Rightarrow> ServiceEntryV2 \<Rightarrow>
   ServiceStateV2 \<times> (ServicePublishError + PublishOutcome)" where
  "publish_service_v2 st self_id name incoming =
     (if is_reserved_service_name name then (st, Inl (Reserved name))
      else
        (case bt_get (lost_names st) name of
           Some lost \<Rightarrow> (st, Inl (LostToPeer (ln_winner_node_id lost)))
         | None \<Rightarrow>
             (case apply_service_publish_v2_tracking_loss st self_id name incoming of
                (st', Inl (ReservedServiceName n)) \<Rightarrow> (st', Inl (Reserved n))
              | (st', Inr outcome) \<Rightarrow> (st', Inr outcome))))"

definition apply_service_unpublish_v2 ::
  "ServiceBookV2 \<Rightarrow> ServiceTombstoneBook \<Rightarrow> string \<Rightarrow> string \<Rightarrow> HLC \<Rightarrow>
   ServiceBookV2 \<times> ServiceTombstoneBook \<times> UnpublishOutcome" where
  "apply_service_unpublish_v2 bk tombs name owner hlc =
     (let tomb = \<lparr>ts_owner_node_id = owner, ts_hlc = hlc\<rparr>
      in (case bt_get bk name of
            Some local \<Rightarrow>
              if s2_owner_node_id local \<noteq> owner then (bk, tombs, IgnoredNotOwner)
              else (bt_remove name bk, bt_insert name tomb tombs, Unpublished)
          | None \<Rightarrow>
              (case bt_get tombs name of
                 None \<Rightarrow> (bk, bt_insert name tomb tombs, TombstoneRecorded)
               | Some existing \<Rightarrow>
                   if ts_owner_node_id existing \<noteq> owner then (bk, tombs, IgnoredNotOwner)
                   else if ts_hlc existing < hlc
                   then (bk, bt_insert name tomb tombs, TombstoneRecorded)
                   else (bk, tombs, UnpublishUnchanged))))"

section \<open>The daemon around it\<close>

text \<open>The gossip arms for v2 service messages: the new stores and the snapshot persisted, which is
  the state after the message (also after a rejected publish).\<close>

definition service_gossip :: "string \<Rightarrow> ServiceStateV2 \<Rightarrow> GossipMessage \<Rightarrow> ServiceStateV2" where
  "service_gossip me st msg =
     (case msg of
        ServicePublishV2 name entry \<Rightarrow> fst (apply_service_publish_v2_tracking_loss st me name entry)
      | ServiceUnpublishV2 name owner hlc \<Rightarrow>
          (case apply_service_unpublish_v2 (book st) (tombstones st) name owner hlc of
             (bk, tombs, _) \<Rightarrow> st\<lparr>book := bk, tombstones := tombs\<rparr>)
      | _ \<Rightarrow> st)"

text \<open>Effects of a local operation: messages handed to gossip, and the snapshot persisted.\<close>

record ServiceEffects =
  broadcast :: "GossipMessage list"
  persisted :: "ServiceStateV2 option"

definition no_effects :: ServiceEffects where
  "no_effects = \<lparr>broadcast = [], persisted = None\<rparr>"

definition publish_service ::
  "ServiceStateV2 \<Rightarrow> string \<Rightarrow> string \<Rightarrow> ServiceEntryV2 \<Rightarrow>
   ServiceStateV2 \<times> ServiceEffects \<times> (ServicePublishError + PublishOutcome)" where
  "publish_service st self_id name entry =
     (case publish_service_v2 st self_id name entry of
        (st', Inl e) \<Rightarrow> (st', no_effects, Inl e)
      | (st', Inr outcome) \<Rightarrow>
          (st', \<lparr>broadcast = [ServicePublishV2 name entry], persisted = Some st'\<rparr>, Inr outcome))"

definition unpublish_service ::
  "ServiceStateV2 \<Rightarrow> string \<Rightarrow> string \<Rightarrow> HLC \<Rightarrow>
   ServiceStateV2 \<times> ServiceEffects \<times> UnpublishOutcome" where
  "unpublish_service st name owner hlc =
     (case apply_service_unpublish_v2 (book st) (tombstones st) name owner hlc of
        (bk, tombs, outcome) \<Rightarrow>
          (let st' = st\<lparr>book := bk, tombstones := tombs\<rparr>
           in (st', \<lparr>broadcast = [ServiceUnpublishV2 name owner hlc], persisted = Some st'\<rparr>, outcome)))"

text \<open>Anti-entropy: this node's own entries in key order, then its own tombstones.\<close>

definition announce_service_book_v2 :: "ServiceStateV2 \<Rightarrow> string \<Rightarrow> ServiceEffects" where
  "announce_service_book_v2 st self_id =
     (let own_entries = filter (\<lambda>(_, entry). s2_owner_node_id entry = self_id) (book st);
          own_tombstones = filter (\<lambda>(_, tomb). ts_owner_node_id tomb = self_id) (tombstones st)
      in \<lparr>broadcast =
            map (\<lambda>(name, entry). ServicePublishV2 name entry) own_entries @
            map (\<lambda>(name, tomb). ServiceUnpublishV2 name (ts_owner_node_id tomb) (ts_hlc tomb)) own_tombstones,
          persisted = Some st\<rparr>)"

text \<open>The sweep: hard-expire entries of silent owners, stamp new tombstones, collect old ones. The
  result carries the snapshot persisted, if anything changed.\<close>

definition or_insert :: "'k::linorder \<Rightarrow> 'v \<Rightarrow> ('k, 'v) btree_map \<Rightarrow> ('k, 'v) btree_map" where
  "or_insert k v m = (case bt_get m k of None \<Rightarrow> bt_insert k v m | Some _ \<Rightarrow> m)"

definition sweep_stale_lanes ::
  "ServiceStateV2 \<Rightarrow> LivenessTracker \<Rightarrow> (string, u64) btree_map \<Rightarrow> u64 \<Rightarrow> u64 \<Rightarrow>
   ServiceStateV2 \<times> (string, u64) btree_map \<times> ServiceStateV2 option" where
  "sweep_stale_lanes st liveness tombstone_observed now_ms tombstone_retention_ms =
     (let entries = map (\<lambda>(n, e). (n, s2_owner_node_id e)) (book st);
          expired = map fst (filter (\<lambda>(_, owner). is_hard_expired liveness owner now_ms) entries);
          bk = fold bt_remove expired (book st);
          observed = fold (\<lambda>name. or_insert name now_ms) (map fst (tombstones st)) tombstone_observed;
          gc = filter
                 (\<lambda>name. let seen_at = (case bt_get observed name of None \<Rightarrow> now_ms | Some t \<Rightarrow> t)
                         in tombstone_retention_ms < saturating_sub now_ms seen_at)
                 (map fst (tombstones st));
          tombs = fold bt_remove gc (tombstones st);
          observed' = filter (\<lambda>(name, _). bt_get tombs name \<noteq> None) observed;
          st' = st\<lparr>book := bk, tombstones := tombs\<rparr>
      in (st', observed', if expired \<noteq> [] \<or> gc \<noteq> [] then Some st' else None))"

section \<open>Well-formed stores\<close>

definition svc_ok :: "ServiceStateV2 \<Rightarrow> bool" where
  "svc_ok st \<longleftrightarrow> bt_ok (book st) \<and> bt_ok (tombstones st) \<and> bt_ok (lost_names st)"

lemmas svc_apply_defs =
  apply_service_publish_v2_def apply_service_publish_v2_tracking_loss_def apply_merge_result_def
  track_conflict_loss_def apply_service_unpublish_v2_def service_gossip_def

lemmas svc_splits =
  GossipMessage.splits option.splits if_splits MergeResult.splits sum.splits prod.splits
  PublishOutcome.splits

lemma service_gossip_ok [map_ok]: "svc_ok st \<Longrightarrow> svc_ok (service_gossip me st g)"
  by (auto simp: svc_ok_def svc_apply_defs map_ok Let_def split: svc_splits)

lemma service_gossip_run_ok [map_ok]: "svc_ok st \<Longrightarrow> svc_ok (foldl (service_gossip me) st ms)"
  by (induction ms arbitrary: st) (auto simp: map_ok)

text \<open>What a message does to the entry and the tombstone under one name.\<close>

lemma publish_book:
  assumes "svc_ok st"
  shows "bt_get (book (service_gossip me st (ServicePublishV2 n e))) k =
    (if k = n then
       (case bt_get (book st) n of
          Some x \<Rightarrow>
            if is_reserved_service_name n then Some x
            else if s2_owner_node_id x = s2_owner_node_id e
            then Some (if s2_updated_at x < s2_updated_at e then e else x)
            else Some (if rank_less (service_rank e) (service_rank x) then e else x)
        | None \<Rightarrow>
            (case bt_get (tombstones st) n of
               None \<Rightarrow> if is_reserved_service_name n then None else Some e
             | Some t \<Rightarrow>
                 if s2_owner_node_id e = ts_owner_node_id t \<and> ts_hlc t < s2_updated_at e
                 then Some e else None))
     else bt_get (book st) k)"
proof (cases "is_reserved_service_name n")
  case True
  then show ?thesis
    using assms by (auto simp: svc_ok_def svc_apply_defs merge_service_v2_def map_simps
        split: option.splits)
next
  case False
  then show ?thesis
    using assms by (auto simp: svc_ok_def svc_apply_defs merge_service_v2_cases map_simps
        split: option.splits)
qed

lemma publish_tombstones: "tombstones (service_gossip me st (ServicePublishV2 n e)) = tombstones st"
  by (auto simp: svc_apply_defs split: svc_splits)

lemma unpublish_get:
  assumes "svc_ok st"
  shows "bt_get (book (service_gossip me st (ServiceUnpublishV2 n w h))) k =
      (if k = n \<and> (\<exists>x. bt_get (book st) n = Some x \<and> s2_owner_node_id x = w) then None
       else bt_get (book st) k)"
    and "bt_get (tombstones (service_gossip me st (ServiceUnpublishV2 n w h))) k =
      (if k = n then
         (case bt_get (book st) n of
            Some x \<Rightarrow> if s2_owner_node_id x = w then Some \<lparr>ts_owner_node_id = w, ts_hlc = h\<rparr>
                      else bt_get (tombstones st) n
          | None \<Rightarrow>
              (case bt_get (tombstones st) n of
                 None \<Rightarrow> Some \<lparr>ts_owner_node_id = w, ts_hlc = h\<rparr>
               | Some t \<Rightarrow> if ts_owner_node_id t = w \<and> ts_hlc t < h
                          then Some \<lparr>ts_owner_node_id = w, ts_hlc = h\<rparr> else Some t))
       else bt_get (tombstones st) k)"
  using assms by (auto simp: svc_ok_def svc_apply_defs map_simps Let_def split: option.splits)

section \<open>Publications alone converge\<close>

fun service_v2_payload :: "GossipMessage \<Rightarrow> (string \<times> ServiceEntryV2) option" where
  "service_v2_payload (ServicePublishV2 n e) =
     (if is_reserved_service_name n then None else Some (n, e))"
| "service_v2_payload _ = None"

fun not_unpublish :: "GossipMessage \<Rightarrow> bool" where
  "not_unpublish (ServiceUnpublishV2 _ _ _) = False"
| "not_unpublish _ = True"

definition service_beats :: "ServiceEntryV2 \<Rightarrow> ServiceEntryV2 \<Rightarrow> bool" where
  "service_beats e x \<longleftrightarrow>
     (if s2_owner_node_id x = s2_owner_node_id e then s2_updated_at x < s2_updated_at e
      else rank_less (service_rank e) (service_rank x))"

definition book_get :: "ServiceStateV2 \<Rightarrow> string \<Rightarrow> ServiceEntryV2 option" where
  "book_get st = bt_get (book st)"

definition untombstoned :: "ServiceStateV2 \<Rightarrow> bool" where
  "untombstoned st \<longleftrightarrow> svc_ok st \<and> tombstones st = []"

interpretation sv: lane book_get untombstoned "service_gossip me" not_unpublish
    service_v2_payload service_beats for me
proof unfold_locales
  fix st :: ServiceStateV2 and g k e k'
  show "untombstoned (service_gossip me st g)" if "untombstoned st" "not_unpublish g"
    using that by (cases g) (auto simp: untombstoned_def map_ok service_gossip_def
        publish_tombstones[unfolded service_gossip_def, simplified]
        dest: service_gossip_ok[of st me g])
  show "service_gossip me st g = st"
    if "untombstoned st" "not_unpublish g" "service_v2_payload g = None"
    using that by (cases g)
      (auto simp: untombstoned_def svc_apply_defs merge_service_v2_def map_simps split: svc_splits)
  show "book_get (service_gossip me st g) k' =
      (if k' = k then Some (case book_get st k of None \<Rightarrow> e | Some x \<Rightarrow> if service_beats e x then e else x)
       else book_get st k')"
    if "untombstoned st" "not_unpublish g" "service_v2_payload g = Some (k, e)"
    using that by (cases g)
      (auto simp: untombstoned_def book_get_def publish_book service_beats_def map_simps
        split: option.splits if_splits)
qed

text \<open>Every owner of a name has one first-claim time on it, and one record per refresh time.\<close>

definition stable_claims :: "ServiceEntryV2 set \<Rightarrow> bool" where
  "stable_claims S \<longleftrightarrow>
     (\<forall>x\<in>S. \<forall>y\<in>S. s2_owner_node_id x = s2_owner_node_id y \<longrightarrow>
        s2_first_claimed_at x = s2_first_claimed_at y \<and>
        (s2_updated_at x = s2_updated_at y \<longrightarrow> x = y))"

lemma stable_claimsD:
  assumes "stable_claims S" and "x \<in> S" and "y \<in> S" and "s2_owner_node_id x = s2_owner_node_id y"
  shows "service_rank x = service_rank y" and "s2_updated_at x = s2_updated_at y \<Longrightarrow> x = y"
  using assms unfolding stable_claims_def service_rank_def by blast+

lemma service_rank_owner: "service_rank x = service_rank y \<Longrightarrow> s2_owner_node_id x = s2_owner_node_id y"
  by (simp add: service_rank_def)

lemma stable_beats:
  assumes "stable_claims S" and "x \<in> S" and "y \<in> S"
  shows "service_beats x y \<longleftrightarrow>
    rank_less (service_rank x) (service_rank y) \<or>
    service_rank x = service_rank y \<and> s2_updated_at y < s2_updated_at x"
proof (cases "s2_owner_node_id x = s2_owner_node_id y")
  case True
  with stable_claimsD(1)[OF assms True] show ?thesis by (simp add: service_beats_def)
next
  case False
  then show ?thesis using service_rank_owner[of x y] by (auto simp: service_beats_def)
qed

lemma stable_strict_total:
  assumes "stable_claims S"
  shows "strict_total service_beats S"
proof -
  note beats = stable_beats[OF assms]
  have tot: "service_beats x y \<or> service_beats y x" if "x \<in> S" "y \<in> S" "x \<noteq> y" for x y
  proof (cases "service_rank x = service_rank y")
    case True
    then have "s2_updated_at x \<noteq> s2_updated_at y"
      using stable_claimsD(2)[OF assms that(1,2) service_rank_owner] that(3) by blast
    with True show ?thesis by (simp add: beats[OF that(1,2)] beats[OF that(2,1)] neq_iff disj_commute)
  next
    case False
    with rank_less_total[OF this] show ?thesis
      by (auto simp: beats[OF that(1,2)] beats[OF that(2,1)])
  qed
  have tr: "service_beats x z" if "x \<in> S" "y \<in> S" "z \<in> S" "service_beats x y" "service_beats y z"
    for x y z
    using that(4,5) rank_less_trans[of "service_rank x" "service_rank y" "service_rank z"]
    unfolding beats[OF that(1,2)] beats[OF that(2,3)] beats[OF that(1,3)] by auto
  have irr: "\<not> service_beats x x" for x by (simp add: service_beats_def)
  show ?thesis
    unfolding strict_total_def using irr tot tr by blast
qed

section \<open>Owner binding\<close>

text \<open>Messages that do not challenge the claim of owner \<open>w\<close>, first made at \<open>fc\<close>: refreshes that keep
  the first-claim time, claims of others that come later, unpublishes by others.\<close>

fun unchallenging :: "string \<Rightarrow> string \<Rightarrow> HLC \<Rightarrow> GossipMessage \<Rightarrow> bool" where
  "unchallenging name w fc (ServicePublishV2 n e) \<longleftrightarrow>
     (n = name \<longrightarrow>
        (if s2_owner_node_id e = w then s2_first_claimed_at e = fc
         else rank_less (fc, w) (service_rank e)))"
| "unchallenging name w fc (ServiceUnpublishV2 n v h) \<longleftrightarrow> (n = name \<longrightarrow> v \<noteq> w)"
| "unchallenging name w fc _ \<longleftrightarrow> True"

definition holds_name :: "ServiceStateV2 \<Rightarrow> string \<Rightarrow> string \<Rightarrow> HLC \<Rightarrow> bool" where
  "holds_name st name w fc \<longleftrightarrow>
     (\<exists>e. bt_get (book st) name = Some e \<and> s2_owner_node_id e = w \<and> s2_first_claimed_at e = fc)"

lemma other_message_skips:
  "(\<forall>n e. g \<noteq> ServicePublishV2 n e) \<Longrightarrow> (\<forall>n v h. g \<noteq> ServiceUnpublishV2 n v h) \<Longrightarrow>
     service_gossip me st g = st"
  by (cases g) (auto simp: service_gossip_def)

lemma holds_name_step:
  assumes "svc_ok st" and "holds_name st name w fc" and "unchallenging name w fc g"
  shows "holds_name (service_gossip me st g) name w fc"
proof -
  obtain x where x: "bt_get (book st) name = Some x" "s2_owner_node_id x = w"
    "s2_first_claimed_at x = fc" using assms(2) by (auto simp: holds_name_def)
  consider (pub) n e where "g = ServicePublishV2 n e" | (unp) n v h where "g = ServiceUnpublishV2 n v h"
    | (other) "\<forall>n e. g \<noteq> ServicePublishV2 n e" "\<forall>n v h. g \<noteq> ServiceUnpublishV2 n v h" by blast
  then show ?thesis
  proof cases
    case pub
    have "\<not> rank_less (service_rank e) (service_rank x)" if "n = name" "s2_owner_node_id e \<noteq> w"
      using assms(3) that pub x by (auto simp: service_rank_def dest: rank_less_asym)
    then show ?thesis
      using assms(3) x unfolding pub holds_name_def publish_book[OF assms(1)] by auto
  next
    case unp
    then show ?thesis
      using assms(3) x by (auto simp: holds_name_def unpublish_get[OF assms(1)])
  next
    case other
    then show ?thesis using assms(2) by (simp add: other_message_skips)
  qed
qed

text \<open>Messages that cannot revive a name tombstoned by \<open>w\<close> at \<open>h\<close>.\<close>

fun cannot_revive :: "string \<Rightarrow> string \<Rightarrow> HLC \<Rightarrow> GossipMessage \<Rightarrow> bool" where
  "cannot_revive name w h (ServicePublishV2 n e) \<longleftrightarrow>
     (n = name \<longrightarrow> s2_owner_node_id e \<noteq> w \<or> s2_updated_at e \<le> h)"
| "cannot_revive name w h _ \<longleftrightarrow> True"

definition vacated :: "ServiceStateV2 \<Rightarrow> string \<Rightarrow> string \<Rightarrow> HLC \<Rightarrow> bool" where
  "vacated st name w h \<longleftrightarrow>
     bt_get (book st) name = None \<and>
     (\<exists>t. bt_get (tombstones st) name = Some t \<and> ts_owner_node_id t = w \<and> h \<le> ts_hlc t)"

lemma vacated_step:
  assumes "svc_ok st" and "vacated st name w h" and "cannot_revive name w h g"
  shows "vacated (service_gossip me st g) name w h"
proof -
  obtain t where t: "bt_get (book st) name = None" "bt_get (tombstones st) name = Some t"
    "ts_owner_node_id t = w" "h \<le> ts_hlc t" using assms(2) by (auto simp: vacated_def)
  consider (pub) n e where "g = ServicePublishV2 n e" | (unp) n v k where "g = ServiceUnpublishV2 n v k"
    | (other) "\<forall>n e. g \<noteq> ServicePublishV2 n e" "\<forall>n v h. g \<noteq> ServiceUnpublishV2 n v h" by blast
  then show ?thesis
  proof cases
    case pub
    have "\<not> (s2_owner_node_id e = w \<and> ts_hlc t < s2_updated_at e)" if "n = name"
      using assms(3) that pub t(4) by auto
    then show ?thesis
      using t unfolding pub vacated_def publish_book[OF assms(1)] publish_tombstones by auto
  next
    case unp
    then show ?thesis
      using t by (auto simp: vacated_def unpublish_get[OF assms(1)] split: option.splits)
  next
    case other
    then show ?thesis using assms(2) by (simp add: other_message_skips)
  qed
qed

section \<open>The sweep\<close>

lemma bt_get_or_insert:
  "bt_ok m \<Longrightarrow> bt_get (or_insert k v m) k' =
     (if k' = k then Some (case bt_get m k of None \<Rightarrow> v | Some x \<Rightarrow> x) else bt_get m k')"
  by (auto simp: or_insert_def map_simps split: option.splits)

lemma or_insert_ok [map_ok]: "bt_ok m \<Longrightarrow> bt_ok (or_insert k v m)"
  by (auto simp: or_insert_def map_ok split: option.splits)

lemma fold_or_insert:
  "bt_ok m \<Longrightarrow>
     bt_ok (fold (\<lambda>k. or_insert k v) ks m) \<and>
     bt_get (fold (\<lambda>k. or_insert k v) ks m) k' =
       (if k' \<in> set ks then Some (case bt_get m k' of None \<Rightarrow> v | Some x \<Rightarrow> x) else bt_get m k')"
  by (induction ks arbitrary: m) (auto simp: bt_get_or_insert or_insert_ok split: option.splits)

lemma bt_get_None_iff: "bt_get m k = None \<longleftrightarrow> k \<notin> fst ` set m"
  by (simp add: bt_get_def map_of_eq_None_iff)

lemma bt_get_filter_key:
  "bt_get (filter (\<lambda>(k, _). P k) m) k = (if P k then bt_get m k else None)"
  by (induction m) (auto simp: bt_get_def)

lemma bt_filter_ok [map_ok]: "bt_ok m \<Longrightarrow> bt_ok (filter P m)"
  unfolding bt_ok_def by (simp add: sorted_wrt_map sorted_wrt_filter)

definition first_seen :: "(string, u64) btree_map \<Rightarrow> u64 \<Rightarrow> string \<Rightarrow> u64" where
  "first_seen observed now name = (case bt_get observed name of None \<Rightarrow> now | Some t \<Rightarrow> t)"

lemma sweep_get:
  assumes "svc_ok st" and "bt_ok observed"
    and "sweep_stale_lanes st liveness observed now ret = (st', observed', out)"
  shows "bt_get (book st') n =
      (case bt_get (book st) n of
         Some e \<Rightarrow> if is_hard_expired liveness (s2_owner_node_id e) now then None else Some e
       | None \<Rightarrow> None)"
    and "bt_get (tombstones st') n =
      (case bt_get (tombstones st) n of
         Some t \<Rightarrow> if ret < saturating_sub now (first_seen observed now n) then None else Some t
       | None \<Rightarrow> None)"
    and "bt_get observed' n =
      (if bt_get (tombstones st') n = None then None else Some (first_seen observed now n))"
    and "svc_ok st'" and "bt_ok observed'" and "lost_names st' = lost_names st"
    and "out = (if st' = st then None else Some st')"
proof -
  define ex where "ex = map fst (filter (\<lambda>(_, owner). is_hard_expired liveness owner now)
      (map (\<lambda>(n, e). (n, s2_owner_node_id e)) (book st)))"
  define ob where "ob = fold (\<lambda>name. or_insert name now) (map fst (tombstones st)) observed"
  define gc where "gc = filter (\<lambda>name. let seen_at = (case bt_get ob name of None \<Rightarrow> now | Some t \<Rightarrow> t)
      in ret < saturating_sub now seen_at) (map fst (tombstones st))"
  have r: "st' = st\<lparr>book := fold bt_remove ex (book st), tombstones := fold bt_remove gc (tombstones st)\<rparr>"
    "observed' = filter (\<lambda>(name, _). bt_get (fold bt_remove gc (tombstones st)) name \<noteq> None) ob"
    "out = (if ex \<noteq> [] \<or> gc \<noteq> [] then Some st' else None)"
    using assms(3) by (auto simp: sweep_stale_lanes_def Let_def ex_def ob_def gc_def)
  have ok: "bt_ok (book st)" "bt_ok (tombstones st)" using assms(1) by (auto simp: svc_ok_def)
  note ob = fold_or_insert[OF assms(2), of now "map fst (tombstones st)"]
  have seen: "(case bt_get ob n of None \<Rightarrow> now | Some t \<Rightarrow> t) = first_seen observed now n" for n
    unfolding ob_def using ob[of n] by (auto simp: first_seen_def split: option.splits)
  have ex_iff: "n \<in> set ex \<longleftrightarrow> (\<exists>e. bt_get (book st) n = Some e \<and> is_hard_expired liveness (s2_owner_node_id e) now)"
    for n by (auto simp: ex_def bt_get_iff[OF ok(1)] image_iff Bex_def)
  have gc_iff: "n \<in> set gc \<longleftrightarrow> bt_get (tombstones st) n \<noteq> None \<and> ret < saturating_sub now (first_seen observed now n)"
    for n by (auto simp: gc_def seen bt_get_None_iff)
  show "bt_get (book st') n =
      (case bt_get (book st) n of
         Some e \<Rightarrow> if is_hard_expired liveness (s2_owner_node_id e) now then None else Some e
       | None \<Rightarrow> None)"
    using bt.get_fold_rem[OF ok(1), of ex n] ex_iff[of n] by (auto simp: r split: option.splits)
  show T: "bt_get (tombstones st') n =
      (case bt_get (tombstones st) n of
         Some t \<Rightarrow> if ret < saturating_sub now (first_seen observed now n) then None else Some t
       | None \<Rightarrow> None)" for n
    using bt.get_fold_rem[OF ok(2), of gc n] gc_iff[of n] by (auto simp: r split: option.splits)
  have "bt_get (tombstones st') n \<noteq> None \<Longrightarrow> bt_get ob n = Some (first_seen observed now n)"
    using ob[of n] T[of n] bt_get_None_iff[of "tombstones st" n]
    by (auto simp: ob_def first_seen_def split: option.splits if_splits)
  then show "bt_get observed' n =
      (if bt_get (tombstones st') n = None then None else Some (first_seen observed now n))"
    by (auto simp: r bt_get_filter_key)
  show "svc_ok st'"
    using assms(1) bt.get_fold_rem[OF ok(1)] bt.get_fold_rem[OF ok(2)] by (simp add: r svc_ok_def)
  show "bt_ok observed'" using ob by (simp add: r ob_def bt_filter_ok)
  show "lost_names st' = lost_names st" by (simp add: r)
  have "st' \<noteq> st" if "n \<in> set ex \<or> n \<in> set gc" for n
    using that bt.get_fold_rem[OF ok(1), of ex n] bt.get_fold_rem[OF ok(2), of gc n] ex_iff[of n] gc_iff[of n]
    unfolding r(1) by (cases st) auto
  then have "ex \<noteq> [] \<or> gc \<noteq> [] \<Longrightarrow> st' \<noteq> st" by (metis list.set_intros(1) neq_Nil_conv)
  moreover have "ex = [] \<Longrightarrow> gc = [] \<Longrightarrow> st' = st" by (simp add: r(1))
  ultimately show "out = (if st' = st then None else Some st')" by (auto simp: r(3))
qed

definition sweep_run ::
  "u64 \<Rightarrow> (LivenessTracker \<times> u64) list \<Rightarrow> ServiceStateV2 \<times> (string, u64) btree_map \<Rightarrow>
   ServiceStateV2 \<times> (string, u64) btree_map" where
  "sweep_run ret ticks s =
     foldl (\<lambda>(st, ob) (t, now). case sweep_stale_lanes st t ob now ret of (st', ob', _) \<Rightarrow> (st', ob')) s ticks"

lemma sweep_run_keeps:
  assumes "svc_ok st" and "bt_ok ob" and "bt_get (tombstones st) n = Some t" and "bt_get ob n = Some t0"
    and "list_all (\<lambda>(_, now). unat now \<le> unat t0 + unat ret) ticks"
  shows "bt_get (tombstones (fst (sweep_run ret ticks (st, ob)))) n = Some t"
  using assms
proof (induction ticks arbitrary: st ob)
  case (Cons tick ticks)
  obtain l now where tick: "tick = (l, now)" by fastforce
  obtain st' ob' p where sw: "sweep_stale_lanes st l ob now ret = (st', ob', p)" using prod_cases3 by blast
  note g = sweep_get[OF Cons.prems(1,2) sw]
  have "\<not> ret < saturating_sub now t0"
    using Cons.prems(5) by (auto simp: tick word_less_nat_alt unat_saturating_sub)
  then have "bt_get (tombstones st') n = Some t"
    using Cons.prems(3,4) by (simp add: g(2) first_seen_def)
  moreover from this have "bt_get ob' n = Some t0"
    using Cons.prems(4) by (simp add: g(3) first_seen_def)
  ultimately show ?case
    using Cons.IH[OF g(4,5)] Cons.prems(5) by (simp add: sweep_run_def tick sw)
qed (simp add: sweep_run_def)

section \<open>Properties\<close>

text \<open>C2. Convergence of the service directory: when every owner of a name keeps the time of its
  first claim in all its records (and never unpublishes), two nodes with the same state that
  receive the same publications, in any order and with any duplication, agree on every name, and
  the name belongs to the earliest claimant (first claim, then owner id) at its latest refresh.\<close>

theorem service_publishes_converge:
  assumes "set ms = set ms'" and "svc_ok st" and "tombstones st = []"
    and "list_all not_unpublish ms"
    and "\<forall>n. stable_claims (known book_get service_v2_payload st ms n)"
  shows "book (foldl (service_gossip me) st ms) = book (foldl (service_gossip me) st ms') \<and>
         (\<forall>x\<in>known book_get service_v2_payload st ms n.
            \<exists>w. bt_get (book (foldl (service_gossip me) st ms)) n = Some w \<and>
                (rank_less (service_rank w) (service_rank x) \<or>
                 service_rank w = service_rank x \<and> s2_updated_at x \<le> s2_updated_at w))"
proof -
  have u: "untombstoned st" using assms(2,3) by (simp add: untombstoned_def)
  have tot: "strict_total service_beats (known book_get service_v2_payload st ms n)" for n
    using assms(5) stable_strict_total by blast
  have "bt_get (book (foldl (service_gossip me) st ms)) n =
      bt_get (book (foldl (service_gossip me) st ms')) n" for n
    using sv.run_converges[OF u assms(4,1) tot] by (simp add: book_get_def)
  moreover have "bt_ok (book (foldl (service_gossip me) st qs))" for qs
    using service_gossip_run_ok[OF assms(2), of me qs] by (simp add: svc_ok_def)
  ultimately have eq: "book (foldl (service_gossip me) st ms) = book (foldl (service_gossip me) st ms')"
    by (intro bt_eqI) auto
  have best: "best_of service_beats (known book_get service_v2_payload st ms n)
      (bt_get (book (foldl (service_gossip me) st ms)) n)"
    using sv.run_best[OF u assms(4) tot] by (simp add: book_get_def)
  have "\<exists>w. bt_get (book (foldl (service_gossip me) st ms)) n = Some w \<and>
      (rank_less (service_rank w) (service_rank x) \<or>
       service_rank w = service_rank x \<and> s2_updated_at x \<le> s2_updated_at w)"
    if x: "x \<in> known book_get service_v2_payload st ms n" for x
  proof -
    obtain w where w: "bt_get (book (foldl (service_gossip me) st ms)) n = Some w"
      "w \<in> known book_get service_v2_payload st ms n" "x \<noteq> w \<longrightarrow> service_beats w x"
      using best x by (auto simp: best_of_def split: option.splits)
    then show ?thesis
      using stable_beats[OF assms(5)[rule_format] w(2) x] by fastforce
  qed
  with eq show ?thesis by blast
qed

text \<open>Witness of C2: two claimants of \<open>printer\<close>, the earlier one refreshed, in two orders.\<close>

definition empty_services :: ServiceStateV2 where
  "empty_services = \<lparr>book = [], tombstones = [], lost_names = []\<rparr>"

lemma empty_services_ok: "svc_ok empty_services" "tombstones empty_services = []"
  by (simp_all add: empty_services_def svc_ok_def map_ok)

theorem service_publishes_converge_witness:
  "book (foldl (service_gossip ''me'') empty_services
      [ServicePublishV2 ''printer'' (service_at ''a'' 1 1), ServicePublishV2 ''printer'' (service_at ''b'' 2 2),
       ServicePublishV2 ''printer'' (service_at ''a'' 1 3)]) =
   book (foldl (service_gossip ''me'') empty_services
      [ServicePublishV2 ''printer'' (service_at ''b'' 2 2), ServicePublishV2 ''printer'' (service_at ''a'' 1 3),
       ServicePublishV2 ''printer'' (service_at ''a'' 1 1)])"
proof -
  let ?ms = "[ServicePublishV2 ''printer'' (service_at ''a'' 1 1), ServicePublishV2 ''printer'' (service_at ''b'' 2 2),
       ServicePublishV2 ''printer'' (service_at ''a'' 1 3)]"
  let ?ms' = "[ServicePublishV2 ''printer'' (service_at ''b'' 2 2), ServicePublishV2 ''printer'' (service_at ''a'' 1 3),
       ServicePublishV2 ''printer'' (service_at ''a'' 1 1)]"
  have s: "set ?ms = set ?ms'" and n: "list_all not_unpublish ?ms" by auto
  have k: "known book_get service_v2_payload empty_services ?ms n \<subseteq>
      {service_at ''a'' 1 1, service_at ''b'' 2 2, service_at ''a'' 1 3}" for n
    by (auto simp: known_def offered_def book_get_def empty_services_def bt_get_def split: if_splits)
  have "stable_claims {service_at ''a'' 1 1, service_at ''b'' 2 2, service_at ''a'' 1 3}"
    by (simp add: stable_claims_def service_at_def)
  then have "\<forall>n. stable_claims (known book_get service_v2_payload empty_services ?ms n)"
    using k unfolding stable_claims_def by blast
  from service_publishes_converge[OF s empty_services_ok n this] show ?thesis by blast
qed

text \<open>The hypothesis matters: an owner whose refresh carries a new first-claim time keeps or loses
  the name depending on the order of delivery.\<close>

theorem service_refresh_diverges:
  "bt_get (book (foldl (service_gossip ''me'') empty_services
      [ServicePublishV2 ''printer'' (service_at ''a'' 1 1), ServicePublishV2 ''printer'' (service_at ''b'' 2 2),
       ServicePublishV2 ''printer'' (service_at ''a'' 3 3)])) ''printer'' = Some (service_at ''a'' 3 3) \<and>
   bt_get (book (foldl (service_gossip ''me'') empty_services
      [ServicePublishV2 ''printer'' (service_at ''a'' 1 1), ServicePublishV2 ''printer'' (service_at ''a'' 3 3),
       ServicePublishV2 ''printer'' (service_at ''b'' 2 2)])) ''printer'' = Some (service_at ''b'' 2 2)"
  by (simp add: svc_apply_defs merge_service_v2_def resolve_service_conflict_v2_rank service_rank_def
      rank_less_def service_at_def HLC_less_eval bt_get_def empty_services_def cmp_simps
      is_reserved_service_name_iff to_ascii_lowercase_def to_ascii_lowercase_char_def byte_def)

text \<open>Owner binding: as long as nobody brings an earlier claim and the owner neither unpublishes
  nor changes its first-claim time, a name stays with its owner under every stream of messages;
  in particular an unpublish by anyone else has no effect.\<close>

theorem owner_keeps_name:
  assumes "svc_ok st" and "holds_name st name w fc" and "list_all (unchallenging name w fc) ms"
  shows "holds_name (foldl (service_gossip me) st ms) name w fc"
  using assms
  by (induction ms arbitrary: st) (auto simp: holds_name_step service_gossip_ok)

text \<open>Example: a later claimant and a forged unpublish do not move \<open>printer\<close> from \<open>a\<close>.\<close>

theorem owner_keeps_name_witness:
  "holds_name
     (foldl (service_gossip ''me'')
        \<lparr>book = [(''printer'', service_at ''a'' 1 1)], tombstones = [], lost_names = []\<rparr>
        [ServicePublishV2 ''printer'' (service_at ''b'' 2 2), ServiceUnpublishV2 ''printer'' ''b'' (HLC 9 0 ''b'')])
     ''printer'' ''a'' (HLC 1 0 ''a'')"
  by (rule owner_keeps_name)
    (simp_all add: svc_ok_def bt_ok_def holds_name_def bt_get_def service_at_def service_rank_def
      rank_less_def HLC_less_eval)

text \<open>C34. Tombstones bind past the unpublish: a name its owner vacated stays vacant under every
  stream of messages that does not hold a publication by that same owner newer than the
  tombstone. Claims by others, replays of the owner's old publications and further unpublishes
  do not revive it.\<close>

theorem vacated_name_stays_vacant:
  assumes "svc_ok st" and "vacated st name w h" and "list_all (cannot_revive name w h) ms"
  shows "vacated (foldl (service_gossip me) st ms) name w h"
  using assms
  by (induction ms arbitrary: st) (auto simp: vacated_step service_gossip_ok)

text \<open>Witness of C34: a replay by the old owner and a claim by another node.\<close>

theorem vacated_name_stays_vacant_witness:
  "vacated
     (foldl (service_gossip ''me'')
        \<lparr>book = [], tombstones = [(''printer'', \<lparr>ts_owner_node_id = ''a'', ts_hlc = HLC 5 0 ''a''\<rparr>)], lost_names = []\<rparr>
        [ServicePublishV2 ''printer'' (service_at ''a'' 1 4), ServicePublishV2 ''printer'' (service_at ''b'' 6 6)])
     ''printer'' ''a'' (HLC 5 0 ''a'')"
  by (rule vacated_name_stays_vacant)
    (simp_all add: svc_ok_def bt_ok_def vacated_def bt_get_def service_at_def HLC_le_eval)

lemma lost_name_kept_step:
  "svc_ok s \<Longrightarrow> bt_get (lost_names s) name \<noteq> None \<Longrightarrow>
     bt_get (lost_names (service_gossip me s g)) name \<noteq> None"
  by (cases g) (auto simp: svc_ok_def svc_apply_defs map_simps Let_def split: svc_splits)

lemma lost_name_kept:
  "svc_ok st \<Longrightarrow> bt_get (lost_names st) name \<noteq> None \<Longrightarrow>
     bt_get (lost_names (foldl (service_gossip me) st ms)) name \<noteq> None"
  by (induction ms arbitrary: st)
    (simp_all add: service_gossip_ok lost_name_kept_step del: not_None_eq)

text \<open>The local publish gate: a reserved name is refused and nothing changes; a name this node
  once lost to a peer is refused for good, whatever gossip arrives in between, naming a winner;
  otherwise the publication is broadcast and the resulting state persisted, and the name becomes
  lost exactly when an existing claim of another owner wins over this node's.\<close>

theorem publish_service_gate:
  assumes "svc_ok st" and "s2_owner_node_id e = self_id"
  shows "(is_reserved_service_name name \<longrightarrow>
            publish_service st self_id name e = (st, no_effects, Inl (Reserved name))) \<and>
         (\<not> is_reserved_service_name name \<and> bt_get (lost_names st) name \<noteq> None \<longrightarrow>
            (\<exists>w. publish_service (foldl (service_gossip self_id) st ms) self_id name e =
                 (foldl (service_gossip self_id) st ms, no_effects, Inl (LostToPeer w)))) \<and>
         (\<not> is_reserved_service_name name \<and> bt_get (lost_names st) name = None \<longrightarrow>
            (\<exists>st' r. publish_service st self_id name e =
                 (st', \<lparr>broadcast = [ServicePublishV2 name e], persisted = Some st'\<rparr>, Inr r) \<and>
               (bt_get (lost_names st') name \<noteq> None \<longleftrightarrow>
                  (\<exists>x. bt_get (book st) name = Some x \<and> s2_owner_node_id x \<noteq> self_id \<and>
                       \<not> rank_less (service_rank e) (service_rank x)))))"
proof (intro conjI impI)
  assume "is_reserved_service_name name"
  then show "publish_service st self_id name e = (st, no_effects, Inl (Reserved name))"
    by (simp add: publish_service_def publish_service_v2_def)
next
  assume a: "\<not> is_reserved_service_name name \<and> bt_get (lost_names st) name \<noteq> None"
  then have "bt_get (lost_names (foldl (service_gossip self_id) st ms)) name \<noteq> None"
    using lost_name_kept[OF assms(1)] by blast
  with a show "\<exists>w. publish_service (foldl (service_gossip self_id) st ms) self_id name e =
      (foldl (service_gossip self_id) st ms, no_effects, Inl (LostToPeer w))"
    by (auto simp: publish_service_def publish_service_v2_def)
next
  assume "\<not> is_reserved_service_name name \<and> bt_get (lost_names st) name = None"
  then show "\<exists>st' r. publish_service st self_id name e =
      (st', \<lparr>broadcast = [ServicePublishV2 name e], persisted = Some st'\<rparr>, Inr r) \<and>
      (bt_get (lost_names st') name \<noteq> None \<longleftrightarrow>
         (\<exists>x. bt_get (book st) name = Some x \<and> s2_owner_node_id x \<noteq> self_id \<and>
              \<not> rank_less (service_rank e) (service_rank x)))"
    using assms
    by (cases "bt_get (book st) name")
      (auto simp: svc_ok_def publish_service_def publish_service_v2_def svc_apply_defs
        merge_service_v2_cases map_simps split: option.splits)
qed

text \<open>Example: \<open>me\<close> claims a name that \<open>a\<close> claimed earlier.\<close>

theorem publish_service_gate_witness:
  "\<exists>st' r. publish_service \<lparr>book = [(''wiki'', service_at ''a'' 1 1)], tombstones = [], lost_names = []\<rparr>
      ''me'' ''wiki'' (service_at ''me'' 2 2) =
      (st', \<lparr>broadcast = [ServicePublishV2 ''wiki'' (service_at ''me'' 2 2)], persisted = Some st'\<rparr>, Inr r) \<and>
    bt_get (lost_names st') ''wiki'' \<noteq> None"
proof -
  let ?st = "\<lparr>book = [(''wiki'', service_at ''a'' 1 1)], tombstones = [], lost_names = []\<rparr>"
  have ok: "svc_ok ?st" and own: "s2_owner_node_id (service_at ''me'' 2 2) = ''me''"
    by (simp_all add: svc_ok_def bt_ok_def service_at_def)
  have "\<not> is_reserved_service_name ''wiki'' \<and> bt_get (lost_names ?st) ''wiki'' = None"
    by (simp add: is_reserved_service_name_iff to_ascii_lowercase_def to_ascii_lowercase_char_def
        byte_def bt_get_def)
  moreover have "bt_get (book ?st) ''wiki'' = Some (service_at ''a'' 1 1) \<and>
      s2_owner_node_id (service_at ''a'' 1 1) \<noteq> ''me'' \<and>
      \<not> rank_less (service_rank (service_at ''me'' 2 2)) (service_rank (service_at ''a'' 1 1))"
    by (simp add: bt_get_def service_at_def service_rank_def rank_less_def HLC_less_eval)
  ultimately show ?thesis
    using publish_service_gate[OF ok own, of "''wiki''"] by blast
qed

text \<open>The staleness sweep removes exactly the entries of owners that were heard once and have
  been silent longer than the hard expiry, keeps every tombstone until more than the retention
  time has passed since the first sweep that saw it, however many sweeps run in between, and
  writes the state to disk exactly when it changed it.\<close>

theorem sweep_expires_and_retains:
  assumes "svc_ok st" and "bt_ok observed"
    and "sweep_stale_lanes st liveness observed now ret = (st', observed', out)"
    and "bt_get (tombstones st) n = Some t" and "bt_get observed n = None"
    and "list_all (\<lambda>(_, later). unat later \<le> unat now + unat ret) ticks"
  shows "bt_get (tombstones (fst (sweep_run ret ticks (st', observed')))) n = Some t \<and>
         (\<forall>m e. bt_get (book st') m = Some e \<longleftrightarrow>
            bt_get (book st) m = Some e \<and> \<not> is_hard_expired liveness (s2_owner_node_id e) now) \<and>
         (out = None \<longleftrightarrow> st' = st) \<and> (out \<noteq> None \<longrightarrow> out = Some st')"
proof (intro conjI)
  note g = sweep_get[OF assms(1,2,3)]
  have "\<not> ret < saturating_sub now now" by (simp add: saturating_sub_def)
  then have t: "bt_get (tombstones st') n = Some t"
    using assms(4,5) by (simp add: g(2) first_seen_def)
  then have ob: "bt_get observed' n = Some now" using assms(5) by (simp add: g(3) first_seen_def)
  show "bt_get (tombstones (fst (sweep_run ret ticks (st', observed')))) n = Some t"
    by (rule sweep_run_keeps[OF g(4,5) t ob assms(6)])
  show "\<forall>m e. bt_get (book st') m = Some e \<longleftrightarrow>
      bt_get (book st) m = Some e \<and> \<not> is_hard_expired liveness (s2_owner_node_id e) now"
    by (auto simp: g(1) split: option.splits if_splits)
  show "out = None \<longleftrightarrow> st' = st" and "out \<noteq> None \<longrightarrow> out = Some st'"
    by (simp_all add: g(7))
qed

text \<open>Example: the entry of a silent owner goes, a fresh tombstone survives a later sweep.\<close>

definition sweep_state :: ServiceStateV2 where
  "sweep_state =
     \<lparr>book = [(''nas'', service_at ''a'' 1 1), (''wiki'', service_at ''b'' 1 1)],
      tombstones = [(''printer'', \<lparr>ts_owner_node_id = ''a'', ts_hlc = HLC 5 0 ''a''\<rparr>)], lost_names = []\<rparr>"

definition sweep_tracker :: LivenessTracker where
  "sweep_tracker =
     \<lparr>seen = [(''a'', \<lparr>incarnation = 1, seen_counter = 1, received_at_ms = 0, seen_egress = None\<rparr>)],
      stale_threshold_ms = 90, hard_expiry_ms = 900\<rparr>"

theorem sweep_expires_and_retains_witness:
  "\<exists>st' ob out. sweep_stale_lanes sweep_state sweep_tracker [] 1000 50 = (st', ob, out) \<and>
     bt_get (tombstones (fst (sweep_run 50 [(sweep_tracker, 1020), (sweep_tracker, 1050)] (st', ob)))) ''printer'' =
       Some \<lparr>ts_owner_node_id = ''a'', ts_hlc = HLC 5 0 ''a''\<rparr> \<and>
     bt_get (book st') ''nas'' = None \<and> bt_get (book st') ''wiki'' = Some (service_at ''b'' 1 1)"
proof -
  obtain st' ob out where sw: "sweep_stale_lanes sweep_state sweep_tracker [] 1000 50 = (st', ob, out)"
    using prod_cases3 by blast
  have ok: "svc_ok sweep_state" by (simp add: svc_ok_def sweep_state_def bt_ok_def less_char_def)
  have t: "bt_get (tombstones sweep_state) ''printer'' = Some \<lparr>ts_owner_node_id = ''a'', ts_hlc = HLC 5 0 ''a''\<rparr>"
    by (simp add: sweep_state_def bt_get_def)
  have l: "list_all (\<lambda>(_, later). unat later \<le> unat (1000 :: u64) + unat (50 :: u64))
      [(sweep_tracker, 1020 :: u64), (sweep_tracker, 1050)]" by simp
  have ex: "is_hard_expired sweep_tracker ''a'' 1000" "\<not> is_hard_expired sweep_tracker ''b'' 1000"
    by (simp_all add: is_hard_expired_def age_ms_def sweep_tracker_def bt_get_def saturating_sub_def)
  have b: "bt_get (book sweep_state) ''nas'' = Some (service_at ''a'' 1 1)"
    "bt_get (book sweep_state) ''wiki'' = Some (service_at ''b'' 1 1)"
    "s2_owner_node_id (service_at ''a'' 1 1) = ''a''" "s2_owner_node_id (service_at ''b'' 1 1) = ''b''"
    by (simp_all add: sweep_state_def bt_get_def service_at_def)
  note p = sweep_expires_and_retains[OF ok bt_empty_ok sw t bt_get_empty l]
  have "bt_get (book st') ''wiki'' = Some (service_at ''b'' 1 1)" using p ex b by metis
  moreover have "bt_get (book st') ''nas'' = None"
  proof (cases "bt_get (book st') ''nas''")
    case (Some e)
    then have "e = service_at ''a'' 1 1" "\<not> is_hard_expired sweep_tracker (s2_owner_node_id e) 1000"
      using p b(1) by (metis option.inject)+
    with ex(1) b(3) show ?thesis by simp
  qed simp
  ultimately show ?thesis using sw p by blast
qed

section \<open>Where the directory does not do what it says\<close>

text \<open>A reserved name can be claimed: the unpublish arm records a tombstone without the reserved-name
  check, and reviving a tombstoned name does not pass through the merge that rejects it.\<close>

theorem reserved_name_revived:
  "bt_get (book (foldl (service_gossip ''me'') empty_services
      [ServiceUnpublishV2 ''hello'' ''a'' (HLC 1 0 ''a''), ServicePublishV2 ''hello'' (service_at ''a'' 2 2)]))
     ''hello'' = Some (service_at ''a'' 2 2)"
  by (simp add: svc_apply_defs empty_services_def bt_get_def service_at_def HLC_less_eval)

text \<open>An unpublish that is older than the live entry removes it all the same, and the tombstone it
  leaves is older than the entry it removed.\<close>

theorem stale_unpublish_applies:
  "service_gossip ''me''
     \<lparr>book = [(''wiki'', service_at ''a'' 1 9)], tombstones = [], lost_names = []\<rparr>
     (ServiceUnpublishV2 ''wiki'' ''a'' (HLC 4 0 ''a'')) =
   \<lparr>book = [], tombstones = [(''wiki'', \<lparr>ts_owner_node_id = ''a'', ts_hlc = HLC 4 0 ''a''\<rparr>)], lost_names = []\<rparr>"
  by (simp add: svc_apply_defs bt_get_def service_at_def bt_remove_def)

text \<open>A revived name does not survive anti-entropy: a node that holds its own live entry and its own
  old tombstone for the name announces the entry first and the tombstone after it, and whatever a
  peer held before, it does not hold the node's entry afterwards.\<close>

lemma unpublishes_keep_gone:
  assumes "svc_ok p" and "\<nexists>e. bt_get (book p) name = Some e \<and> s2_owner_node_id e = w"
    and "\<forall>g\<in>set gs. \<exists>n v h. g = ServiceUnpublishV2 n v h"
  shows "\<nexists>e. bt_get (book (foldl (service_gossip me) p gs)) name = Some e \<and> s2_owner_node_id e = w"
  using assms
proof (induction gs arbitrary: p)
  case (Cons g gs)
  obtain n v h where g: "g = ServiceUnpublishV2 n v h" using Cons.prems(3) by auto
  have "\<nexists>e. bt_get (book (service_gossip me p g)) name = Some e \<and> s2_owner_node_id e = w"
    using Cons.prems(2) by (auto simp: g unpublish_get[OF Cons.prems(1)])
  moreover have "\<forall>g\<in>set gs. \<exists>n v h. g = ServiceUnpublishV2 n v h" using Cons.prems(3) by simp
  ultimately show ?case
    unfolding foldl_Cons by (rule Cons.IH[OF service_gossip_ok[OF Cons.prems(1)]])
qed simp

theorem revived_name_lost_by_anti_entropy:
  assumes "svc_ok st" and "svc_ok p"
    and "bt_get (tombstones st) name = Some t" and "ts_owner_node_id t = self_id"
  shows "\<nexists>e. bt_get (book (foldl (service_gossip me) p (broadcast (announce_service_book_v2 st self_id)))) name = Some e
            \<and> s2_owner_node_id e = self_id"
proof -
  let ?tombs = "map (\<lambda>(name, tomb). ServiceUnpublishV2 name (ts_owner_node_id tomb) (ts_hlc tomb))
      (filter (\<lambda>(_, tomb). ts_owner_node_id tomb = self_id) (tombstones st))"
  define pubs where "pubs = map (\<lambda>(name, entry). ServicePublishV2 name entry)
      (filter (\<lambda>(_, entry). s2_owner_node_id entry = self_id) (book st))"
  have b: "broadcast (announce_service_book_v2 st self_id) = pubs @ ?tombs"
    by (simp add: announce_service_book_v2_def pubs_def Let_def)
  have "(name, t) \<in> set (filter (\<lambda>(_, tomb). ts_owner_node_id tomb = self_id) (tombstones st))"
    using assms(1,3,4) by (simp add: svc_ok_def bt_get_iff)
  then have "ServiceUnpublishV2 name self_id (ts_hlc t) \<in> set ?tombs"
    unfolding set_map by (rule rev_image_eqI) (simp add: assms(4))
  from split_list[OF this] obtain as bs
    where ab: "?tombs = as @ ServiceUnpublishV2 name self_id (ts_hlc t) # bs" by blast
  have bs: "\<forall>g\<in>set bs. \<exists>n v h. g = ServiceUnpublishV2 n v h"
  proof
    fix g assume "g \<in> set bs"
    then have "g \<in> set ?tombs" unfolding ab by simp
    then show "\<exists>n v h. g = ServiceUnpublishV2 n v h" by auto
  qed
  let ?q = "foldl (service_gossip me) p (pubs @ as)"
  have q: "svc_ok ?q" by (rule service_gossip_run_ok[OF assms(2)])
  have "\<nexists>e. bt_get (book (service_gossip me ?q (ServiceUnpublishV2 name self_id (ts_hlc t)))) name = Some e
      \<and> s2_owner_node_id e = self_id"
    unfolding unpublish_get(1)[OF q] by auto
  from unpublishes_keep_gone[OF service_gossip_ok[OF q] this bs, of me] show ?thesis
    by (simp add: b ab)
qed

end
