(* ===== verification/Names.thy ===== *)
theory Names
  imports Crdt_Merge
begin

text \<open>
  Device names and hardware addresses: the helpers of \<open>crdt/service.rs\<close> that turn an operator's
  host label and a node id into a scoped service name, and the MAC parser with the daemon's
  printer \<open>format_mac\<close>. The hash crate \<open>blake3\<close> is a parameter: a function from the bytes hashed
  to the digest; what is used of it is that a digest has 32 bytes.
\<close>

section \<open>Scope labels\<close>

definition SCOPE_BASE32_ALPHABET :: string where
  "SCOPE_BASE32_ALPHABET = ''abcdefghijklmnopqrstuvwxyz234567''"

definition SCOPE_LABEL_LEN :: nat where
  "SCOPE_LABEL_LEN = 4"

definition node_scope_label :: "(string \<Rightarrow> u8 list) \<Rightarrow> string \<Rightarrow> string" where
  "node_scope_label blake3 node_id =
     (let b = blake3 node_id;
          bits = push_bit 16 (ucast (b ! 0)) OR push_bit 8 (ucast (b ! 1)) OR (ucast (b ! 2) :: u32)
      in map (\<lambda>i. SCOPE_BASE32_ALPHABET ! unat (drop_bit (19 - 5 * i) bits AND 0x1f)) [0..<SCOPE_LABEL_LEN])"

section \<open>Host labels\<close>

datatype DeviceHostError = EmptyHost | TooLong | InvalidChar | HyphenBoundary

definition host_char :: "char \<Rightarrow> bool" where
  "host_char c \<longleftrightarrow> is_ascii_lowercase c \<or> is_ascii_digit c \<or> c = CHR ''-''"

definition normalize_device_host :: "string \<Rightarrow> DeviceHostError + string" where
  "normalize_device_host host0 =
     (let host = trim host0
      in if host = [] then Inl EmptyHost
         else if 63 < length host then Inl TooLong
         else
           (let lower = to_ascii_lowercase host
            in if \<not> list_all host_char lower then Inl InvalidChar
               else if starts_with ''-'' lower \<or> ends_with ''-'' lower then Inl HyphenBoundary
               else Inr lower))"

definition device_service_key ::
  "(string \<Rightarrow> u8 list) \<Rightarrow> string \<Rightarrow> string \<Rightarrow> DeviceHostError + string" where
  "device_service_key blake3 host node_id =
     (case normalize_device_host host of
        Inl e \<Rightarrow> Inl e
      | Inr h \<Rightarrow> Inr (h @ ''.'' @ node_scope_label blake3 node_id))"

section \<open>Hardware addresses\<close>

definition hex_digit :: "char \<Rightarrow> nat option" where
  "hex_digit c =
     (let n = byte c
      in if 48 \<le> n \<and> n \<le> 57 then Some (n - 48)
         else if 97 \<le> n \<and> n \<le> 102 then Some (n - 87)
         else if 65 \<le> n \<and> n \<le> 70 then Some (n - 55)
         else None)"

fun hex_digits :: "nat \<Rightarrow> string \<Rightarrow> nat option" where
  "hex_digits acc [] = Some acc"
| "hex_digits acc (c # s) =
     (case hex_digit c of
        None \<Rightarrow> None
      | Some d \<Rightarrow> let v = acc * 16 + d in if 255 < v then None else hex_digits v s)"

text \<open>\<open>u8::from_str_radix(s, 16)\<close>: empty input, a lone sign, a bad digit and overflow are errors; one
  leading \<open>+\<close> is accepted.\<close>

definition u8_from_str_radix_16 :: "string \<Rightarrow> u8 option" where
  "u8_from_str_radix_16 s =
     (if s = [] \<or> s = ''+'' \<or> s = ''-'' then None
      else map_option of_nat (hex_digits 0 (if hd s = CHR ''+'' then tl s else s)))"

fun parse_octets :: "nat \<Rightarrow> string list \<Rightarrow> u8 list option" where
  "parse_octets 0 parts = (if parts = [] then Some [] else None)"
| "parse_octets (Suc n) parts =
     (case parts of
        [] \<Rightarrow> None
      | part # rest \<Rightarrow>
          if length part \<noteq> 2 then None
          else
            (case u8_from_str_radix_16 part of
               None \<Rightarrow> None
             | Some b \<Rightarrow> map_option (\<lambda>bs. b # bs) (parse_octets n rest)))"

definition parse_host_mac :: "string \<Rightarrow> mac option" where
  "parse_host_mac s = parse_octets 6 (split_on CHR '':'' s)"

definition hex_char :: "nat \<Rightarrow> char" where
  "hex_char d = (if d < 10 then char_of (48 + d) else char_of (87 + d))"

definition format_mac :: "mac \<Rightarrow> string" where
  "format_mac m = join_with CHR '':'' (map (\<lambda>b. [hex_char (unat b div 16), hex_char (unat b mod 16)]) m)"

section \<open>Lemmas\<close>

lemma hex_digit_hex_char: "d < 16 \<Longrightarrow> hex_digit (hex_char d) = Some d"
  by (auto simp: hex_digit_def hex_char_def byte_char_of Let_def)

lemma hex_char_plain: "d < 16 \<Longrightarrow> hex_char d \<noteq> CHR '':'' \<and> hex_char d \<noteq> CHR ''+'' \<and> hex_char d \<noteq> CHR ''-''"
proof -
  assume d: "d < 16"
  have "hex_digit CHR '':'' = None" "hex_digit CHR ''+'' = None" "hex_digit CHR ''-'' = None"
    by (simp_all add: hex_digit_def byte_def)
  with hex_digit_hex_char[OF d] show ?thesis by auto
qed

lemma octet_round_trip:
  "u8_from_str_radix_16 [hex_char (unat b div 16), hex_char (unat b mod 16)] = Some b" for b :: u8
proof -
  have "unat b < 2 ^ LENGTH(8)" by (rule unsigned_less)
  then have b: "unat b < 256" by simp
  then have d: "unat b div 16 < 16" "unat b mod 16 < 16" by auto
  have v: "unat b div 16 * 16 + unat b mod 16 = unat b" by simp
  have "hex_digits 0 [hex_char (unat b div 16), hex_char (unat b mod 16)] = Some (unat b)"
    using b d by (simp add: hex_digit_hex_char Let_def v)
  then show ?thesis
    using hex_char_plain[OF d(1)] by (simp add: u8_from_str_radix_16_def)
qed

lemma split_join:
  assumes "ps \<noteq> []" and "\<forall>p\<in>set ps. c \<notin> set p"
  shows "split_on c (join_with c ps) = ps"
  using assms
proof (induction ps)
  case (Cons p ps)
  show ?case
  proof (cases ps)
    case Nil
    with Cons show ?thesis by (simp add: join_with_def split_on_no_sep)
  next
    case (Cons q qs)
    then have "join_with c (p # ps) = p @ c # join_with c ps" by (simp add: join_with_def)
    with Cons.IH Cons.prems Cons show ?thesis by (simp add: split_on_append_sep)
  qed
qed simp

lemma parse_octets_map:
  "(\<And>b. b \<in> set bs \<Longrightarrow> length (f b) = 2 \<and> u8_from_str_radix_16 (f b) = Some b) \<Longrightarrow>
     parse_octets (length bs) (map f bs) = Some bs"
  by (induction bs) auto

lemma to_ascii_lowercase_trim_ok:
  "list_all host_char s \<Longrightarrow> to_ascii_lowercase s = s"
  by (intro to_ascii_lowercase_fixed)
    (auto simp: list_all_iff host_char_def is_ascii_lowercase_def is_ascii_digit_def byte_def)

lemma host_char_visible: "host_char c \<Longrightarrow> 32 < byte c \<and> byte c < 128 \<and> c \<noteq> CHR ''.''"
  by (auto simp: host_char_def is_ascii_lowercase_def is_ascii_digit_def byte_def)

lemma normalize_ok_iff:
  "normalize_device_host s = Inr h \<longleftrightarrow>
     h = to_ascii_lowercase (trim s) \<and> h \<noteq> [] \<and> length h \<le> 63 \<and> list_all host_char h \<and>
     \<not> starts_with ''-'' h \<and> \<not> ends_with ''-'' h"
  by (auto simp: normalize_device_host_def Let_def split: if_splits)
    (auto simp: to_ascii_lowercase_def)

lemma length_alphabet: "length SCOPE_BASE32_ALPHABET = 32"
  by (simp add: SCOPE_BASE32_ALPHABET_def)

lemma scope_label_chars:
  "set (node_scope_label blake3 n) \<subseteq> set SCOPE_BASE32_ALPHABET \<and> length (node_scope_label blake3 n) = 4"
proof -
  have "unat (w AND 0x1f :: u32) < 32" for w
  proof -
    have "w AND 0x1f = take_bit 5 w" by (simp add: take_bit_eq_mask mask_eq_exp_minus_1)
    then have "unat (w AND 0x1f) < 2 ^ 5" using take_bit_nat_less_exp[of 5 "unat w"] by (simp add: unsigned_take_bit_eq)
    then show ?thesis by simp
  qed
  then have "SCOPE_BASE32_ALPHABET ! unat (w AND 0x1f :: u32) \<in> set SCOPE_BASE32_ALPHABET" for w
    by (intro nth_mem) (simp add: length_alphabet)
  then show ?thesis
    unfolding node_scope_label_def Let_def SCOPE_LABEL_LEN_def by (simp add: image_subset_iff)
qed

lemma alphabet_no_dot: "CHR ''.'' \<notin> set SCOPE_BASE32_ALPHABET"
  by (simp add: SCOPE_BASE32_ALPHABET_def)

lemma parse_octets_length: "parse_octets n parts = Some m \<Longrightarrow> length m = n"
  by (induction n parts arbitrary: m rule: parse_octets.induct)
    (auto split: list.splits if_splits option.splits)

lemma parse_format_mac_6:
  assumes "length m = 6"
  shows "parse_host_mac (format_mac m) = Some m"
proof -
  let ?f = "\<lambda>b :: u8. [hex_char (unat b div 16), hex_char (unat b mod 16)]"
  have plain: "CHR '':'' \<notin> set (?f b)" for b
  proof -
    have "unat b < 2 ^ LENGTH(8)" by (rule unsigned_less)
    then have "unat b div 16 < 16" "unat b mod 16 < 16" by auto
    then show ?thesis
      using hex_char_plain[of "unat b div 16"] hex_char_plain[of "unat b mod 16"] by auto
  qed
  have "split_on CHR '':'' (format_mac m) = map ?f m"
    unfolding format_mac_def by (rule split_join) (use assms plain in auto)
  then show ?thesis
    using parse_octets_map[of m ?f] octet_round_trip assms by (simp add: parse_host_mac_def)
qed

section \<open>Properties\<close>

text \<open>The MAC parser and printer agree: whatever the parser accepts has six octets, and printing
  those octets and parsing the result gives them back; every six octets print to accepted text.\<close>

theorem mac_round_trip:
  "(parse_host_mac s = Some m \<longrightarrow> length m = 6) \<and>
   (length m = 6 \<longrightarrow> parse_host_mac (format_mac m) = Some m)"
  using parse_octets_length parse_format_mac_6 by (auto simp: parse_host_mac_def)

text \<open>Example.\<close>

theorem mac_round_trip_witness:
  "parse_host_mac (format_mac [0xde, 0xad, 0xbe, 0xef, 0, 1]) = Some [0xde, 0xad, 0xbe, 0xef, 0, 1]"
  using mac_round_trip[of "[]" "[0xde, 0xad, 0xbe, 0xef, 0, 1]"] by simp

text \<open>The parser takes more than the documented colon-separated hex pairs: an octet may be a sign
  and one digit.\<close>

theorem mac_sign_accepted: "parse_host_mac ''+a:00:00:00:00:01'' = Some [0x0a, 0, 0, 0, 0, 1]"
  by (simp add: parse_host_mac_def numeral_eq_Suc u8_from_str_radix_16_def hex_digit_def byte_def Let_def)

text \<open>Scoped device names: a key is built exactly from a host that trims and case-folds to a
  valid DNS label of at most 63 bytes; it splits at its only dot into that label and a four-letter
  scope that depends on the node alone, so it never equals a bare one-label name, in particular
  no reserved one; normalising is idempotent.\<close>

theorem device_service_key_scoped:
  assumes "device_service_key blake3 host node_id = Inr key"
  shows "\<exists>h. normalize_device_host host = Inr h \<and> normalize_device_host h = Inr h \<and>
           h \<noteq> [] \<and> length h \<le> 63 \<and> list_all host_char h \<and>
           split_on CHR ''.'' key = [h, node_scope_label blake3 node_id] \<and>
           length (node_scope_label blake3 node_id) = 4 \<and>
           set (node_scope_label blake3 node_id) \<subseteq> set SCOPE_BASE32_ALPHABET \<and>
           \<not> is_reserved_service_name key"
proof -
  obtain h where h: "normalize_device_host host = Inr h"
    and key: "key = h @ ''.'' @ node_scope_label blake3 node_id"
    using assms by (auto simp: device_service_key_def split: sum.splits)
  note n = h[unfolded normalize_ok_iff]
  have vis: "\<forall>c\<in>set h. 32 < byte c \<and> byte c < 128 \<and> c \<noteq> CHR ''.''"
    using n host_char_visible by (auto simp: list_all_iff)
  have ne: "h \<noteq> []" using n by blast
  have "trim h = h"
    using trim_id[OF ne] vis hd_in_set[OF ne] last_in_set[OF ne] by blast
  then have idem: "normalize_device_host h = Inr h"
    using n to_ascii_lowercase_trim_ok[of h] unfolding normalize_ok_iff by metis
  have dot: "CHR ''.'' \<notin> set (node_scope_label blake3 node_id)"
    using scope_label_chars[of blake3 node_id] alphabet_no_dot by blast
  have hdot: "CHR ''.'' \<notin> set h" using vis by blast
  have split: "split_on CHR ''.'' key = [h, node_scope_label blake3 node_id]"
    using split_on_append_sep[OF hdot] split_on_no_sep[OF dot] by (simp add: key)
  have "CHR ''.'' \<in> set (to_ascii_lowercase key)"
    by (simp add: key to_ascii_lowercase_def to_ascii_lowercase_char_def byte_def)
  then have "\<not> is_reserved_service_name key"
    unfolding is_reserved_service_name_iff by auto
  then show ?thesis using h idem n split scope_label_chars[of blake3 node_id] by blast
qed

text \<open>Example: \<open>NAS\<close> under a node whose digest starts with zeros.\<close>

theorem device_service_key_scoped_witness:
  "device_service_key (\<lambda>_. replicate 32 0) ''NAS'' ''n'' = Inr ''nas.aaaa'' \<and>
   \<not> is_reserved_service_name ''nas.aaaa''"
proof
  have "trim ''NAS'' = ''NAS''" by (rule trim_id) (simp_all add: byte_def)
  moreover have "to_ascii_lowercase ''NAS'' = ''nas''" by code_simp
  ultimately show key: "device_service_key (\<lambda>_. replicate 32 0) ''NAS'' ''n'' = Inr ''nas.aaaa''"
    by (simp add: device_service_key_def normalize_device_host_def byte_def host_char_def
        is_ascii_lowercase_def starts_with_def ends_with_def node_scope_label_def SCOPE_LABEL_LEN_def
        upt_rec SCOPE_BASE32_ALPHABET_def)
  show "\<not> is_reserved_service_name ''nas.aaaa''"
    using device_service_key_scoped[OF key] by blast
qed

end
