(* ===== verification/Leased_Names.thy ===== *)
theory Leased_Names
  imports Lanes Names
begin

text \<open>
  Key-owned leased names: \<open>crdt/leased_name.rs\<close> and the daemon's name-claim spool
  (\<open>ingest_name_claim_spool\<close> of \<open>bin/mjolnir-meshd.rs\<close>).

  A spool file is its name, what reading it gave and the wall clock at the moment it is processed;
  the JSON decoder is a parameter of the model. A processed file is kept, removed or moved aside.
\<close>

section \<open>\<open>leased_name.rs\<close>\<close>

definition LEASE_TTL_MS :: u64 where
  "LEASE_TTL_MS = 60 * 60 * 1000"

definition lease_expiry_ms :: "LeasedName \<Rightarrow> u64" where
  "lease_expiry_ms e = saturating_add (wall_clock (le_renewed_at e)) LEASE_TTL_MS"

definition is_expired :: "LeasedName \<Rightarrow> u64 \<Rightarrow> bool" where
  "is_expired e now_ms \<longleftrightarrow> lease_expiry_ms e < now_ms"

definition cross_owner_winner :: "LeasedName \<Rightarrow> LeasedName \<Rightarrow> LeasedName \<times> LeasedName" where
  "cross_owner_winner a b =
     (let (incumbent, challenger) =
        (if le_first_claimed_at a \<le> le_first_claimed_at b then (a, b) else (b, a))
      in if lease_expiry_ms incumbent < wall_clock (le_first_claimed_at challenger)
         then (challenger, incumbent) else (incumbent, challenger))"

definition merge_leased_name :: "LeasedName option \<Rightarrow> LeasedName \<Rightarrow> LeasedName MergeResult" where
  "merge_leased_name existing incoming =
     (case existing of
        None \<Rightarrow> Inserted
      | Some x \<Rightarrow>
          if le_owner_pubkey x = le_owner_pubkey incoming then
            (if le_renewed_at x < le_renewed_at incoming then Updated else Unchanged)
          else (let (winner, loser) = cross_owner_winner x incoming in Conflict winner loser))"

definition apply_leased_name ::
  "LeasedNameBook \<Rightarrow> string \<Rightarrow> LeasedName \<Rightarrow> LeasedNameBook \<times> LeasedName MergeResult" where
  "apply_leased_name bk name incoming =
     (let result = merge_leased_name (bt_get bk name) incoming
      in (case result of
            Inserted \<Rightarrow> (bt_insert name incoming bk, result)
          | Updated \<Rightarrow> (bt_insert name incoming bk, result)
          | Conflict winner _ \<Rightarrow>
              (if le_owner_pubkey winner = le_owner_pubkey incoming \<and> winner = incoming
               then (bt_insert name incoming bk, result)
               else (bt_insert name winner bk, result))
          | Unchanged \<Rightarrow> (bk, result)))"

definition name_owned_by :: "LeasedNameBook \<Rightarrow> string \<Rightarrow> u64 \<Rightarrow> string option" where
  "name_owned_by bk pubkey now_ms =
     map_option fst (find (\<lambda>(_, e). le_owner_pubkey e = pubkey \<and> \<not> is_expired e now_ms) bk)"

section \<open>The name-claim spool\<close>

record NameClaimSpool =
  nc_pubkey :: string
  nc_sig :: string
  nc_challenge :: string
  nc_name :: string
  nc_port :: u16
  nc_ip :: "IpAddr option"
  nc_scheme :: "string option"

record SpoolFile =
  sf_name :: string
  sf_read :: "string option"   \<comment> \<open>\<open>None\<close>: the file could not be read\<close>
  sf_now :: u64                \<comment> \<open>the wall clock when the file is processed\<close>

datatype Disposition = KeptFile | RemovedFile | QuarantinedFile

text \<open>\<open>Path::extension\<close> of a file name: what follows the last dot, unless that dot is the first
  character or there is none.\<close>

definition path_extension :: "string \<Rightarrow> string option" where
  "path_extension name =
     (let r = rev name; ext = takeWhile (\<lambda>c. c \<noteq> CHR ''.'') r; before = drop (length ext + 1) r
      in if name = ''..'' \<or> CHR ''.'' \<notin> set name \<or> before = [] then None else Some (rev ext))"

definition name_claim_ok :: "string \<Rightarrow> bool" where
  "name_claim_ok name \<longleftrightarrow>
     (case normalize_device_host name of Inl _ \<Rightarrow> False | Inr n \<Rightarrow> n = name) \<and>
     \<not> is_reserved_service_name name"

definition claim_entry :: "LeasedNameBook \<Rightarrow> NameClaimSpool \<Rightarrow> IpAddr \<Rightarrow> HLC \<Rightarrow> LeasedName" where
  "claim_entry bk claim ip now =
     \<lparr>le_owner_pubkey = nc_pubkey claim, le_sig = nc_sig claim,
      le_challenge = nc_challenge claim, le_ip = ip, le_port = nc_port claim,
      le_scheme = nc_scheme claim,
      le_first_claimed_at =
        (case bt_get bk (nc_name claim) of
           Some e \<Rightarrow> if le_owner_pubkey e = nc_pubkey claim then le_first_claimed_at e else now
         | None \<Rightarrow> now),
      le_renewed_at = now\<rparr>"

definition already_owns_other :: "LeasedNameBook \<Rightarrow> NameClaimSpool \<Rightarrow> u64 \<Rightarrow> bool" where
  "already_owns_other bk claim now_ms =
     (case name_owned_by bk (nc_pubkey claim) now_ms of None \<Rightarrow> False | Some n \<Rightarrow> n \<noteq> nc_name claim)"

definition ingest_claim ::
  "string \<Rightarrow> LeasedNameBook \<Rightarrow> NameClaimSpool \<Rightarrow> u64 \<Rightarrow>
   LeasedNameBook \<times> (string \<times> LeasedName) option" where
  "ingest_claim self_id bk claim now_ms =
     (case nc_ip claim of
        None \<Rightarrow> (bk, None)
      | Some ip \<Rightarrow>
          if \<not> name_claim_ok (nc_name claim) then (bk, None)
          else
            (let now = now_hlc now_ms self_id
             in if already_owns_other bk claim (wall_clock now) then (bk, None)
                else
                  (let entry = claim_entry bk claim ip now;
                       (bk', result) = apply_leased_name bk (nc_name claim) entry
                   in (bk',
                       case result of
                         Inserted \<Rightarrow> Some (nc_name claim, entry)
                       | Updated \<Rightarrow> Some (nc_name claim, entry)
                       | Conflict winner _ \<Rightarrow>
                           (if le_owner_pubkey winner = nc_pubkey claim
                            then Some (nc_name claim, entry) else None)
                       | Unchanged \<Rightarrow> None))))"

definition ingest_file ::
  "(string \<Rightarrow> NameClaimSpool option) \<Rightarrow> string \<Rightarrow> LeasedNameBook \<Rightarrow> SpoolFile \<Rightarrow>
   LeasedNameBook \<times> (string \<times> LeasedName) option \<times> Disposition" where
  "ingest_file from_json self_id bk f =
     (if path_extension (sf_name f) \<noteq> Some ''json'' then (bk, None, KeptFile)
      else
        (case sf_read f of
           None \<Rightarrow> (bk, None, KeptFile)
         | Some bytes \<Rightarrow>
             (case from_json bytes of
                None \<Rightarrow> (bk, None, QuarantinedFile)
              | Some claim \<Rightarrow>
                  (case ingest_claim self_id bk claim (sf_now f) of
                     (bk', app) \<Rightarrow> (bk', app, RemovedFile)))))"

fun ingest_name_claim_spool ::
  "(string \<Rightarrow> NameClaimSpool option) \<Rightarrow> string \<Rightarrow> SpoolFile list \<Rightarrow> LeasedNameBook \<Rightarrow>
   LeasedNameBook \<times> (string \<times> LeasedName) list \<times> Disposition list" where
  "ingest_name_claim_spool from_json self_id [] bk = (bk, [], [])"
| "ingest_name_claim_spool from_json self_id (f # fs) bk =
     (case ingest_file from_json self_id bk f of
        (bk', app, d) \<Rightarrow>
          (case ingest_name_claim_spool from_json self_id fs bk' of
             (bk'', apps, ds) \<Rightarrow>
               (bk'', (case app of None \<Rightarrow> apps | Some a \<Rightarrow> a # apps), d # ds)))"

text \<open>The gossip arm for leased names: merge and keep the verdict's winner.\<close>

definition leased_gossip :: "LeasedNameBook \<Rightarrow> GossipMessage \<Rightarrow> LeasedNameBook" where
  "leased_gossip bk msg =
     (case msg of LeasedNamePublish name entry \<Rightarrow> fst (apply_leased_name bk name entry) | _ \<Rightarrow> bk)"

section \<open>Lemmas\<close>

text \<open>An incoming claim takes the name over from a different owner.\<close>

definition takes_over :: "LeasedName \<Rightarrow> LeasedName \<Rightarrow> bool" where
  "takes_over e x \<longleftrightarrow>
     (if le_first_claimed_at x \<le> le_first_claimed_at e
      then lease_expiry_ms x < wall_clock (le_first_claimed_at e)
      else wall_clock (le_first_claimed_at x) \<le> lease_expiry_ms e)"

lemma cross_owner_winner_eq:
  "cross_owner_winner x e = (if takes_over e x then (e, x) else (x, e))"
  by (auto simp: cross_owner_winner_def takes_over_def not_less)

definition leased_beats :: "LeasedName \<Rightarrow> LeasedName \<Rightarrow> bool" where
  "leased_beats e x \<longleftrightarrow>
     (if le_owner_pubkey x = le_owner_pubkey e then le_renewed_at x < le_renewed_at e
      else takes_over e x)"

lemma merge_leased_name_Some:
  "merge_leased_name (Some x) e =
     (if le_owner_pubkey x = le_owner_pubkey e then (if leased_beats e x then Updated else Unchanged)
      else if leased_beats e x then Conflict e x else Conflict x e)"
  by (auto simp: merge_leased_name_def leased_beats_def cross_owner_winner_eq)

lemma apply_leased_name_get:
  assumes "bt_ok bk"
  shows "bt_get (fst (apply_leased_name bk n e)) k =
    (if k = n then Some (case bt_get bk n of None \<Rightarrow> e | Some x \<Rightarrow> if leased_beats e x then e else x)
     else bt_get bk k)"
  using assms
  by (cases "bt_get bk n")
    (auto simp: apply_leased_name_def merge_leased_name_Some merge_leased_name_def[of None] map_simps Let_def)

lemma apply_leased_name_ok [map_ok]: "bt_ok bk \<Longrightarrow> bt_ok (fst (apply_leased_name bk n e))"
  by (auto simp: apply_leased_name_def map_ok Let_def split: MergeResult.splits)

fun leased_payload :: "GossipMessage \<Rightarrow> (string \<times> LeasedName) option" where
  "leased_payload (LeasedNamePublish n e) = Some (n, e)"
| "leased_payload _ = None"

interpretation lz: lane bt_get bt_ok leased_gossip "\<lambda>_. True" leased_payload leased_beats
  by unfold_locales
    (auto simp: leased_gossip_def apply_leased_name_get apply_leased_name_ok split: GossipMessage.splits)

text \<open>Claims on one name that overlap: every owner keeps its first-claim time, different owners first
  claimed at different times, and nobody's first claim falls after another's lease has lapsed.\<close>

definition overlapping_leases :: "LeasedName set \<Rightarrow> bool" where
  "overlapping_leases S \<longleftrightarrow>
     (\<forall>x\<in>S. \<forall>y\<in>S.
        (le_owner_pubkey x = le_owner_pubkey y \<longleftrightarrow> le_first_claimed_at x = le_first_claimed_at y) \<and>
        (le_owner_pubkey x = le_owner_pubkey y \<longrightarrow> le_renewed_at x = le_renewed_at y \<longrightarrow> x = y) \<and>
        (le_owner_pubkey x \<noteq> le_owner_pubkey y \<longrightarrow>
           wall_clock (le_first_claimed_at y) \<le> lease_expiry_ms x))"

lemma overlapping_beats:
  assumes "overlapping_leases S" and "x \<in> S" and "y \<in> S"
  shows "leased_beats x y \<longleftrightarrow>
    le_first_claimed_at x < le_first_claimed_at y \<or>
    le_first_claimed_at x = le_first_claimed_at y \<and> le_renewed_at y < le_renewed_at x"
proof (cases "le_owner_pubkey x = le_owner_pubkey y")
  case True
  then have "le_first_claimed_at x = le_first_claimed_at y"
    using assms unfolding overlapping_leases_def by blast
  with True show ?thesis by (simp add: leased_beats_def)
next
  case False
  then have ne: "le_first_claimed_at x \<noteq> le_first_claimed_at y"
    and w: "wall_clock (le_first_claimed_at y) \<le> lease_expiry_ms x"
      "wall_clock (le_first_claimed_at x) \<le> lease_expiry_ms y"
    using assms unfolding overlapping_leases_def by metis+
  with False show ?thesis by (auto simp: leased_beats_def takes_over_def not_less)
qed

lemma overlapping_strict_total:
  assumes "overlapping_leases S"
  shows "strict_total leased_beats S"
proof -
  note b = overlapping_beats[OF assms]
  have tot: "leased_beats x y \<or> leased_beats y x" if "x \<in> S" "y \<in> S" "x \<noteq> y" for x y
  proof (cases "le_first_claimed_at x = le_first_claimed_at y")
    case True
    then have "le_renewed_at x \<noteq> le_renewed_at y"
      using assms that unfolding overlapping_leases_def by blast
    with True show ?thesis by (auto simp: b[OF that(1,2)] b[OF that(2,1)])
  qed (auto simp: b[OF that(1,2)] b[OF that(2,1)])
  have irr: "\<not> leased_beats x x" for x by (simp add: leased_beats_def)
  have tr: "leased_beats x z" if "x \<in> S" "y \<in> S" "z \<in> S" "leased_beats x y" "leased_beats y z" for x y z
    using that(4,5) unfolding b[OF that(1,2)] b[OF that(2,3)] b[OF that(1,3)] by auto
  show ?thesis
    unfolding strict_total_def using irr tot tr by blast
qed

section \<open>Lemmas on the spool\<close>

definition one_live_name :: "LeasedNameBook \<Rightarrow> u64 \<Rightarrow> bool" where
  "one_live_name bk now \<longleftrightarrow>
     (\<forall>n m e f. bt_get bk n = Some e \<and> bt_get bk m = Some f \<and>
        le_owner_pubkey e = le_owner_pubkey f \<and> \<not> is_expired e now \<and> \<not> is_expired f now \<longrightarrow> n = m)"

lemma one_live_nameD:
  "one_live_name bk now \<Longrightarrow> bt_get bk n = Some e \<Longrightarrow> bt_get bk m = Some f \<Longrightarrow>
     le_owner_pubkey e = le_owner_pubkey f \<Longrightarrow> \<not> is_expired e now \<Longrightarrow> \<not> is_expired f now \<Longrightarrow> n = m"
  unfolding one_live_name_def by blast

lemma is_expired_mono: "is_expired e now \<Longrightarrow> now \<le> now' \<Longrightarrow> is_expired e now'"
  by (auto simp: is_expired_def)

lemma one_live_name_mono: "one_live_name bk now \<Longrightarrow> now \<le> now' \<Longrightarrow> one_live_name bk now'"
  by (subst one_live_name_def) (meson one_live_nameD is_expired_mono)

lemma name_owned_by_None:
  "bt_ok bk \<Longrightarrow> name_owned_by bk pk now = None \<longleftrightarrow>
     \<not> (\<exists>n e. bt_get bk n = Some e \<and> le_owner_pubkey e = pk \<and> \<not> is_expired e now)"
  by (auto simp: name_owned_by_def find_None_iff bt_get_iff)

lemma name_owned_by_Some:
  assumes "bt_ok bk" and "name_owned_by bk pk now = Some n"
  shows "\<exists>e. bt_get bk n = Some e \<and> le_owner_pubkey e = pk \<and> \<not> is_expired e now"
proof -
  obtain e where "find (\<lambda>(_, e). le_owner_pubkey e = pk \<and> \<not> is_expired e now) bk = Some (n, e)"
    using assms(2) by (auto simp: name_owned_by_def)
  then have "(n, e) \<in> set bk" "le_owner_pubkey e = pk" "\<not> is_expired e now"
    by (auto simp: find_Some_iff) (metis nth_mem)
  with assms(1) show ?thesis by (auto simp: bt_get_iff)
qed

text \<open>What processing one claim does to the book: nothing, or one claim of the key applied while the
  key owns no other live name.\<close>

lemma wall_clock_now_hlc [simp]: "wall_clock (now_hlc t n) = t"
  by (simp add: now_hlc_def)

lemma ingest_claim_eq:
  fixes self_id :: string
  assumes "bt_ok bk" and "nc_ip claim = Some ip" and "name_claim_ok (nc_name claim)"
    and "\<not> already_owns_other bk claim now"
  defines "e \<equiv> claim_entry bk claim ip (now_hlc now self_id)"
  shows "fst (ingest_claim self_id bk claim now) = fst (apply_leased_name bk (nc_name claim) e)"
    and "snd (ingest_claim self_id bk claim now) =
      (case bt_get bk (nc_name claim) of
         None \<Rightarrow> Some (nc_name claim, e)
       | Some x \<Rightarrow> if leased_beats e x then Some (nc_name claim, e) else None)"
proof -
  have own: "le_owner_pubkey e = nc_pubkey claim" by (simp add: e_def claim_entry_def)
  have i: "ingest_claim self_id bk claim now =
      (case apply_leased_name bk (nc_name claim) e of (bk', result) \<Rightarrow>
        (bk', case result of
            Inserted \<Rightarrow> Some (nc_name claim, e) | Updated \<Rightarrow> Some (nc_name claim, e)
          | Conflict winner _ \<Rightarrow>
              (if le_owner_pubkey winner = nc_pubkey claim then Some (nc_name claim, e) else None)
          | Unchanged \<Rightarrow> None))"
    using assms(2-4) unfolding e_def by (simp add: ingest_claim_def Let_def)
  show "fst (ingest_claim self_id bk claim now) = fst (apply_leased_name bk (nc_name claim) e)"
    by (simp add: i split: prod.splits)
  have r: "snd (apply_leased_name bk (nc_name claim) e) = merge_leased_name (bt_get bk (nc_name claim)) e"
    by (simp add: apply_leased_name_def Let_def split: MergeResult.splits)
  show "snd (ingest_claim self_id bk claim now) =
      (case bt_get bk (nc_name claim) of
         None \<Rightarrow> Some (nc_name claim, e)
       | Some x \<Rightarrow> if leased_beats e x then Some (nc_name claim, e) else None)"
  proof (cases "bt_get bk (nc_name claim)")
    case None
    then show ?thesis using r by (auto simp: i merge_leased_name_def split: prod.splits)
  next
    case (Some x)
    then show ?thesis
      using r own by (auto simp: i merge_leased_name_Some split: prod.splits)
  qed
qed

lemma ingest_claim_skip:
  "nc_ip claim = None \<or> \<not> name_claim_ok (nc_name claim) \<or> already_owns_other bk claim now \<Longrightarrow>
     ingest_claim self_id bk claim now = (bk, None)"
  by (auto simp: ingest_claim_def now_hlc_def split: option.splits)

lemma ingest_claim_ok: "bt_ok bk \<Longrightarrow> bt_ok (fst (ingest_claim self_id bk claim now))"
  by (cases "nc_ip claim = None \<or> \<not> name_claim_ok (nc_name claim) \<or> already_owns_other bk claim now")
    (auto simp: ingest_claim_skip ingest_claim_eq apply_leased_name_ok)

lemma ingest_claim_one_live_name:
  assumes "bt_ok bk" and "one_live_name bk now"
  shows "one_live_name (fst (ingest_claim self_id bk claim now)) now"
proof (cases "nc_ip claim = None \<or> \<not> name_claim_ok (nc_name claim) \<or> already_owns_other bk claim now")
  case True
  then show ?thesis using assms(2) by (simp add: ingest_claim_skip)
next
  case False
  then obtain ip where f: "nc_ip claim = Some ip" "name_claim_ok (nc_name claim)"
    "\<not> already_owns_other bk claim now" by auto
  let ?e = "claim_entry bk claim ip (now_hlc now self_id)" and ?c = "nc_name claim"
  have own: "le_owner_pubkey ?e = nc_pubkey claim" by (simp add: claim_entry_def)
  have no_other: "n = ?c" if "bt_get bk n = Some e" "le_owner_pubkey e = nc_pubkey claim"
    "\<not> is_expired e now" for n e
  proof (cases "name_owned_by bk (nc_pubkey claim) now")
    case None
    with that show ?thesis using name_owned_by_None[OF assms(1)] by blast
  next
    case (Some m)
    then have "m = ?c" using f(3) by (simp add: already_owns_other_def)
    moreover obtain f where "bt_get bk m = Some f" "le_owner_pubkey f = nc_pubkey claim"
      "\<not> is_expired f now" using name_owned_by_Some[OF assms(1) Some] by blast
    ultimately show ?thesis using one_live_nameD[OF assms(2) that(1)] that by simp
  qed
  have get: "bt_get (fst (ingest_claim self_id bk claim now)) k =
      (if k = ?c then Some (case bt_get bk ?c of None \<Rightarrow> ?e | Some x \<Rightarrow> if leased_beats ?e x then ?e else x)
       else bt_get bk k)" for k
    unfolding ingest_claim_eq(1)[OF assms(1) f] apply_leased_name_get[OF assms(1)] by simp
  have was: "bt_get bk n = Some e \<or> n = ?c \<and> le_owner_pubkey e = nc_pubkey claim"
    if "bt_get (fst (ingest_claim self_id bk claim now)) n = Some e" for n e
    using that own unfolding get by (auto split: if_splits option.splits)
  show ?thesis
    unfolding one_live_name_def
  proof (intro allI impI, elim conjE)
    fix n m e f
    assume n: "bt_get (fst (ingest_claim self_id bk claim now)) n = Some e"
      and m: "bt_get (fst (ingest_claim self_id bk claim now)) m = Some f"
      and eq: "le_owner_pubkey e = le_owner_pubkey f"
      and live: "\<not> is_expired e now" "\<not> is_expired f now"
    have c: "n = ?c" if "bt_get bk n = Some e" "m = ?c" "le_owner_pubkey f = nc_pubkey claim"
      using no_other[OF that(1)] eq live that(3) by simp
    have d: "m = ?c" if "bt_get bk m = Some f" "n = ?c" "le_owner_pubkey e = nc_pubkey claim"
      using no_other[OF that(1)] eq live that(3) by simp
    show "n = m"
      using was[OF n] was[OF m] c d one_live_nameD[OF assms(2) _ _ eq live] by blast
  qed
qed

lemma ingest_file_book:
  "fst (ingest_file from_json self_id bk f) = bk \<or>
   (\<exists>claim. fst (ingest_file from_json self_id bk f) = fst (ingest_claim self_id bk claim (sf_now f)))"
  by (auto simp: ingest_file_def split: option.splits prod.splits) (metis fst_conv)+

section \<open>Properties\<close>

text \<open>C8. Convergence of leased names while leases overlap: if every key keeps its first-claim time,
  no two keys first claim at the same time and no claim falls after another's lease has lapsed,
  then any two delivery orders of the same publications, with duplicates, end in the same book,
  and each name belongs to the first claimant at its latest renewal.\<close>

theorem leased_names_converge:
  assumes "set ms = set ms'" and "bt_ok bk"
    and "\<forall>n. overlapping_leases (known bt_get leased_payload bk ms n)"
  shows "foldl leased_gossip bk ms = foldl leased_gossip bk ms' \<and>
         (\<forall>x\<in>known bt_get leased_payload bk ms n.
            \<exists>w. bt_get (foldl leased_gossip bk ms) n = Some w \<and>
                (le_first_claimed_at w < le_first_claimed_at x \<or>
                 le_first_claimed_at w = le_first_claimed_at x \<and> le_renewed_at x \<le> le_renewed_at w))"
proof -
  have tot: "strict_total leased_beats (known bt_get leased_payload bk ms n)" for n
    using assms(3) overlapping_strict_total by blast
  have ad: "list_all (\<lambda>_. True) qs" for qs :: "GossipMessage list" by (simp add: list_all_iff)
  have eq: "foldl leased_gossip bk ms = foldl leased_gossip bk ms'"
    by (intro bt_eqI lz.run_ok[OF assms(2) ad] lz.run_converges[OF assms(2) ad assms(1) tot])
  have best: "best_of leased_beats (known bt_get leased_payload bk ms n) (bt_get (foldl leased_gossip bk ms) n)"
    by (rule lz.run_best[OF assms(2) ad tot])
  have "\<exists>w. bt_get (foldl leased_gossip bk ms) n = Some w \<and>
      (le_first_claimed_at w < le_first_claimed_at x \<or>
       le_first_claimed_at w = le_first_claimed_at x \<and> le_renewed_at x \<le> le_renewed_at w)"
    if x: "x \<in> known bt_get leased_payload bk ms n" for x
  proof -
    obtain w where w: "bt_get (foldl leased_gossip bk ms) n = Some w"
      "w \<in> known bt_get leased_payload bk ms n" "x \<noteq> w \<longrightarrow> leased_beats w x"
      using best x by (auto simp: best_of_def split: option.splits)
    then show ?thesis
      using overlapping_beats[OF assms(3)[rule_format] w(2) x] by fastforce
  qed
  with eq show ?thesis by blast
qed

definition lease_at :: "string \<Rightarrow> u64 \<Rightarrow> u64 \<Rightarrow> LeasedName" where
  "lease_at owner first renewed =
     \<lparr>le_owner_pubkey = owner, le_sig = [], le_challenge = [], le_ip = V4 0x0A2A0132, le_port = 80,
      le_scheme = None, le_first_claimed_at = HLC first 0 ''n'', le_renewed_at = HLC renewed 0 ''n''\<rparr>"

lemma lease_at_sel [simp]:
  "le_owner_pubkey (lease_at p a b) = p" "le_first_claimed_at (lease_at p a b) = HLC a 0 ''n''"
  "le_renewed_at (lease_at p a b) = HLC b 0 ''n''"
  "lease_expiry_ms (lease_at p a b) = saturating_add b 3600000"
  by (simp_all add: lease_at_def lease_expiry_ms_def LEASE_TTL_MS_def)

text \<open>Witness of C8: a claim, a rival one minute later and the owner's renewal.\<close>

theorem leased_names_converge_witness:
  "foldl leased_gossip []
      [LeasedNamePublish ''blog'' (lease_at ''a'' 0 0), LeasedNamePublish ''blog'' (lease_at ''b'' 60000 60000),
       LeasedNamePublish ''blog'' (lease_at ''a'' 0 120000)] =
   foldl leased_gossip []
      [LeasedNamePublish ''blog'' (lease_at ''b'' 60000 60000), LeasedNamePublish ''blog'' (lease_at ''a'' 0 120000),
       LeasedNamePublish ''blog'' (lease_at ''a'' 0 0)]"
proof -
  let ?ms = "[LeasedNamePublish ''blog'' (lease_at ''a'' 0 0), LeasedNamePublish ''blog'' (lease_at ''b'' 60000 60000),
       LeasedNamePublish ''blog'' (lease_at ''a'' 0 120000)]"
  let ?ms' = "[LeasedNamePublish ''blog'' (lease_at ''b'' 60000 60000), LeasedNamePublish ''blog'' (lease_at ''a'' 0 120000),
       LeasedNamePublish ''blog'' (lease_at ''a'' 0 0)]"
  let ?S = "{lease_at ''a'' 0 0, lease_at ''b'' 60000 60000, lease_at ''a'' 0 120000}"
  have s: "set ?ms = set ?ms'" by auto
  have k: "known bt_get leased_payload [] ?ms n \<subseteq> ?S" for n
    by (auto simp: known_def offered_def bt_get_def)
  have "overlapping_leases ?S"
    by (simp add: overlapping_leases_def saturating_add_def)
  then have "\<forall>n. overlapping_leases (known bt_get leased_payload [] ?ms n)"
    using k unfolding overlapping_leases_def by (meson subsetD)
  from leased_names_converge[OF s bt_empty_ok this] show ?thesis by blast
qed

fun lease_respecting :: "string \<Rightarrow> string \<Rightarrow> HLC \<Rightarrow> u64 \<Rightarrow> GossipMessage \<Rightarrow> bool" where
  "lease_respecting name pk fc exp (LeasedNamePublish n e) \<longleftrightarrow>
     (n = name \<longrightarrow>
        (if le_owner_pubkey e = pk then le_first_claimed_at e = fc
         else fc < le_first_claimed_at e \<and> wall_clock (le_first_claimed_at e) \<le> exp))"
| "lease_respecting name pk fc exp _ \<longleftrightarrow> True"

definition lease_held :: "LeasedNameBook \<Rightarrow> string \<Rightarrow> string \<Rightarrow> HLC \<Rightarrow> u64 \<Rightarrow> bool" where
  "lease_held bk name pk fc exp \<longleftrightarrow>
     (\<exists>x. bt_get bk name = Some x \<and> le_owner_pubkey x = pk \<and> le_first_claimed_at x = fc \<and>
          exp \<le> lease_expiry_ms x)"

lemma lease_expiry_mono: "le_renewed_at x < le_renewed_at e \<Longrightarrow> lease_expiry_ms x \<le> lease_expiry_ms e"
  unfolding lease_expiry_ms_def word_le_nat_alt unat_saturating_add
  using hlc_less_wall_le[of "le_renewed_at x" "le_renewed_at e"] by (simp add: word_le_nat_alt min_le_iff_disj)

lemma lease_held_step:
  assumes "bt_ok bk" and "lease_held bk name pk fc exp" and "lease_respecting name pk fc exp g"
  shows "lease_held (leased_gossip bk g) name pk fc exp"
proof (cases "leased_payload g")
  case None
  then show ?thesis using assms by (simp add: lz.step_skip[OF assms(1) TrueI])
next
  case (Some p)
  obtain x where x: "bt_get bk name = Some x" "le_owner_pubkey x = pk" "le_first_claimed_at x = fc"
    "exp \<le> lease_expiry_ms x" using assms(2) by (auto simp: lease_held_def)
  from Some obtain n e where g: "g = LeasedNamePublish n e" by (cases g) auto
  then have pay: "leased_payload g = Some (n, e)" by simp
  have other: "\<not> leased_beats e x" if "n = name" "le_owner_pubkey e \<noteq> pk"
    using assms(3) that x by (auto simp: g leased_beats_def takes_over_def)
  have same: "le_first_claimed_at e = fc \<and> (leased_beats e x \<longrightarrow> exp \<le> lease_expiry_ms e)"
    if "n = name" "le_owner_pubkey e = pk"
    using assms(3) that x lease_expiry_mono[of x e] by (auto simp: g leased_beats_def)
  show ?thesis
  proof (cases "n = name")
    case True
    with other same x show ?thesis
      unfolding lease_held_def lz.step_get[OF assms(1) TrueI pay]
      by (cases "le_owner_pubkey e = pk") auto
  next
    case False
    with x show ?thesis unfolding lease_held_def lz.step_get[OF assms(1) TrueI pay] by auto
  qed
qed

text \<open>C35. A live lease protects its holder: while others' first claims come after the holder's and not
  after the expiry of the lease held at the start, no stream of publications takes the name away;
  the holder's own renewals never shorten the lease.\<close>

theorem live_lease_protected:
  assumes "bt_ok bk" and "lease_held bk name pk fc exp" and "list_all (lease_respecting name pk fc exp) ms"
  shows "lease_held (foldl leased_gossip bk ms) name pk fc exp"
  using assms
proof (induction ms arbitrary: bk)
  case (Cons g ms)
  then show ?case
    using lease_held_step[of bk name pk fc exp g] lz.step_ok[OF Cons.prems(1) TrueI] by simp
qed simp

text \<open>Witness of C35: a rival half an hour later, then a renewal.\<close>

theorem live_lease_protected_witness:
  "lease_held (foldl leased_gossip [(''blog'', lease_at ''a'' 0 0)]
      [LeasedNamePublish ''blog'' (lease_at ''b'' 1800000 1800000), LeasedNamePublish ''blog'' (lease_at ''a'' 0 2000000)])
     ''blog'' ''a'' (HLC 0 0 ''n'') 3600000"
  by (rule live_lease_protected)
    (simp_all add: bt_ok_def lease_held_def bt_get_def saturating_add_def HLC_less_eval)

lemma ingest_spool_one_name:
  assumes "bt_ok bk" and "one_live_name bk t0" and "sorted (t0 # map sf_now fs)"
  shows "one_live_name (fst (ingest_name_claim_spool from_json self_id fs bk)) (last (t0 # map sf_now fs))"
  using assms
proof (induction fs arbitrary: bk t0)
  case (Cons f fs)
  let ?bk = "fst (ingest_file from_json self_id bk f)"
  have le: "t0 \<le> sf_now f" and srt: "sorted (sf_now f # map sf_now fs)" using Cons.prems(3) by auto
  have now: "one_live_name bk (sf_now f)" by (rule one_live_name_mono[OF Cons.prems(2) le])
  have ok: "bt_ok ?bk" and one: "one_live_name ?bk (sf_now f)"
    using ingest_file_book[of from_json self_id bk f] Cons.prems(1) now
      ingest_claim_ok ingest_claim_one_live_name by metis+
  have "fst (ingest_name_claim_spool from_json self_id (f # fs) bk) =
      fst (ingest_name_claim_spool from_json self_id fs ?bk)"
    by (simp split: prod.splits)
  with Cons.IH[OF ok one srt] show ?case by simp
qed simp

lemma ingest_file_reports:
  assumes "ingest_file from_json self_id bk f = (bk', Some (n, e), d)" and "bt_ok bk"
  shows "bt_get bk' n = Some e \<and> name_claim_ok n"
proof -
  obtain claim where i: "ingest_claim self_id bk claim (sf_now f) = (bk', Some (n, e))"
    using assms(1) by (auto simp: ingest_file_def split: if_splits option.splits prod.splits)
  have "\<not> (nc_ip claim = None \<or> \<not> name_claim_ok (nc_name claim) \<or> already_owns_other bk claim (sf_now f))"
    using i ingest_claim_skip[of claim bk "sf_now f" self_id] by force
  then obtain ip where f: "nc_ip claim = Some ip" "name_claim_ok (nc_name claim)"
    "\<not> already_owns_other bk claim (sf_now f)" by auto
  note eq = ingest_claim_eq[OF assms(2) f, of self_id]
  show ?thesis
    using eq i f(2) apply_leased_name_get[OF assms(2)]
    by (auto split: option.splits if_splits)
qed

lemma ingest_spool_reports:
  assumes "bt_ok bk"
  shows "length (snd (snd (ingest_name_claim_spool from_json self_id fs bk))) = length fs \<and>
         (\<forall>p\<in>set (fst (snd (ingest_name_claim_spool from_json self_id fs bk))). name_claim_ok (fst p))"
  using assms
proof (induction fs arbitrary: bk)
  case (Cons f fs)
  obtain bk' app d where i: "ingest_file from_json self_id bk f = (bk', app, d)" using prod_cases3 by blast
  have "bt_ok bk'"
    using ingest_file_book[of from_json self_id bk f] Cons.prems ingest_claim_ok by (metis i fst_conv)
  then show ?case
    using Cons.IH[of bk'] ingest_file_reports[of from_json self_id bk f bk'] i Cons.prems
    by (auto split: prod.splits option.splits)
qed simp

text \<open>One name per key: processing a spool of claims, at clock readings that do not go back,
  keeps the invariant that no key owns two live names; every processed file is disposed of, and
  the claims reported for broadcast are records the sweep put into the book under valid,
  unreserved names.\<close>

theorem spool_keeps_one_name_per_key:
  assumes "bt_ok bk" and "one_live_name bk t0" and "sorted (t0 # map sf_now fs)"
  shows "one_live_name (fst (ingest_name_claim_spool from_json self_id fs bk)) (last (t0 # map sf_now fs)) \<and>
         length (snd (snd (ingest_name_claim_spool from_json self_id fs bk))) = length fs \<and>
         (\<forall>p\<in>set (fst (snd (ingest_name_claim_spool from_json self_id fs bk))). name_claim_ok (fst p))"
  using ingest_spool_one_name[OF assms] ingest_spool_reports[OF assms(1)] by blast

text \<open>Example: one key spools claims for two names.\<close>

definition spool_claim :: "string \<Rightarrow> NameClaimSpool option" where
  "spool_claim bytes =
     Some \<lparr>nc_pubkey = ''k'', nc_sig = [], nc_challenge = [], nc_name = bytes, nc_port = 80,
           nc_ip = Some (V4 5), nc_scheme = None\<rparr>"

theorem spool_keeps_one_name_per_key_witness:
  "one_live_name
     (fst (ingest_name_claim_spool spool_claim ''me''
        [\<lparr>sf_name = ''a.json'', sf_read = Some ''blog'', sf_now = 5\<rparr>,
         \<lparr>sf_name = ''b.json'', sf_read = Some ''shop'', sf_now = 6\<rparr>] [])) 6"
  using spool_keeps_one_name_per_key[OF bt_empty_ok, of 0
      "[\<lparr>sf_name = ''a.json'', sf_read = Some ''blog'', sf_now = 5\<rparr>,
        \<lparr>sf_name = ''b.json'', sf_read = Some ''shop'', sf_now = 6\<rparr>]" spool_claim "''me''"]
  by (simp add: one_live_name_def map_simps del: ingest_name_claim_spool.simps)

text \<open>The publish gate of the spool: a well-formed claim by a key without another live name is
  accepted on a free name; on a name the key already holds it renews the lease and keeps the
  tenure; on a name held by another key with an older first claim it is accepted exactly when
  that lease has expired at the time of the claim, and otherwise the holder's record stays.\<close>

theorem ingest_claim_gate:
  assumes "bt_ok bk" and "nc_ip claim = Some ip" and "name_claim_ok (nc_name claim)"
    and "\<not> already_owns_other bk claim now"
  shows "case bt_get bk (nc_name claim) of
      None \<Rightarrow>
        bt_get (fst (ingest_claim self_id bk claim now)) (nc_name claim) =
          Some (claim_entry bk claim ip (now_hlc now self_id))
    | Some x \<Rightarrow>
        (le_owner_pubkey x = nc_pubkey claim \<and> le_renewed_at x < now_hlc now self_id \<longrightarrow>
           (\<exists>y. bt_get (fst (ingest_claim self_id bk claim now)) (nc_name claim) = Some y \<and>
                le_owner_pubkey y = nc_pubkey claim \<and>
                le_first_claimed_at y = le_first_claimed_at x \<and> le_renewed_at y = now_hlc now self_id)) \<and>
        (le_owner_pubkey x \<noteq> nc_pubkey claim \<and> le_first_claimed_at x \<le> now_hlc now self_id \<longrightarrow>
           bt_get (fst (ingest_claim self_id bk claim now)) (nc_name claim) =
             Some (if is_expired x now then claim_entry bk claim ip (now_hlc now self_id) else x) \<and>
           (snd (ingest_claim self_id bk claim now) \<noteq> None \<longleftrightarrow> is_expired x now))"
proof (cases "bt_get bk (nc_name claim)")
  case None
  then show ?thesis
    by (simp add: ingest_claim_eq[OF assms] apply_leased_name_get[OF assms(1)])
next
  case (Some x)
  let ?e = "claim_entry bk claim ip (now_hlc now self_id)"
  have fields: "le_owner_pubkey ?e = nc_pubkey claim" "le_renewed_at ?e = now_hlc now self_id"
    "le_first_claimed_at ?e = (if le_owner_pubkey x = nc_pubkey claim then le_first_claimed_at x
                               else now_hlc now self_id)"
    by (simp_all add: claim_entry_def Some)
  have "leased_beats ?e x \<longleftrightarrow> is_expired x now"
    if "le_owner_pubkey x \<noteq> nc_pubkey claim" "le_first_claimed_at x \<le> now_hlc now self_id"
    using that fields by (simp add: leased_beats_def takes_over_def is_expired_def)
  moreover have "leased_beats ?e x"
    if "le_owner_pubkey x = nc_pubkey claim" "le_renewed_at x < now_hlc now self_id"
    using that fields by (simp add: leased_beats_def)
  ultimately show ?thesis
    using Some fields
    by (auto simp: ingest_claim_eq[OF assms] apply_leased_name_get[OF assms(1)])
qed

text \<open>Example: \<open>k\<close> claims a name whose holder stopped renewing an hour and a second ago.\<close>

lemma blog_claim_ok: "name_claim_ok ''blog''"
proof -
  have "trim ''blog'' = ''blog''" by (rule trim_id) (simp_all add: byte_def)
  moreover have "to_ascii_lowercase ''blog'' = ''blog''" by code_simp
  ultimately show ?thesis
    by (simp add: name_claim_ok_def normalize_device_host_def host_char_def is_ascii_lowercase_def
        byte_def starts_with_def ends_with_def is_reserved_service_name_iff)
qed

theorem ingest_claim_gate_witness:
  "bt_get (fst (ingest_claim ''n'' [(''blog'', lease_at ''a'' 0 0)] (the (spool_claim ''blog'')) 3601000)) ''blog'' =
     Some (claim_entry [(''blog'', lease_at ''a'' 0 0)] (the (spool_claim ''blog'')) (V4 5) (now_hlc 3601000 ''n''))"
proof -
  let ?bk = "[(''blog'', lease_at ''a'' 0 0)]" and ?c = "the (spool_claim ''blog'')"
  have ok: "bt_ok ?bk" by (simp add: bt_ok_def)
  have ip: "nc_ip ?c = Some (V4 5)" and nm: "name_claim_ok (nc_name ?c)"
    by (simp_all add: spool_claim_def blog_claim_ok)
  have other: "\<not> already_owns_other ?bk ?c 3601000"
    by (simp add: already_owns_other_def name_owned_by_def spool_claim_def)
  have get: "bt_get ?bk (nc_name ?c) = Some (lease_at ''a'' 0 0)"
    by (simp add: spool_claim_def bt_get_def)
  have ex: "is_expired (lease_at ''a'' 0 0) 3601000"
    by (simp add: is_expired_def saturating_add_def)
  have "le_owner_pubkey (lease_at ''a'' 0 0) \<noteq> nc_pubkey ?c"
    "le_first_claimed_at (lease_at ''a'' 0 0) \<le> now_hlc 3601000 ''n''"
    by (simp_all add: spool_claim_def now_hlc_def HLC_le_eval)
  with ingest_claim_gate[OF ok ip nm other, of "''n''"] get ex show ?thesis
    by (simp add: spool_claim_def)
qed

section \<open>Where lease arbitration does not converge\<close>

text \<open>Arbitration by pairs is not transitive once a lease lapses in between: \<open>a\<close> beats \<open>b\<close> (its lease
  still ran), \<open>c\<close> beats \<open>a\<close> (its lease had lapsed), \<open>b\<close> beats \<open>c\<close> (its lease still ran). Three
  nodes that receive the three claims in different orders keep different owners.\<close>

theorem lapsed_lease_order_dependent:
  "let a = LeasedNamePublish ''blog'' (lease_at ''a'' 0 0);
       b = LeasedNamePublish ''blog'' (lease_at ''b'' 1800000 1800000);
       c = LeasedNamePublish ''blog'' (lease_at ''c'' 4000000 4000000)
   in map_option le_owner_pubkey (bt_get (foldl leased_gossip [] [a, b, c]) ''blog'') = Some ''c'' \<and>
      map_option le_owner_pubkey (bt_get (foldl leased_gossip [] [b, c, a]) ''blog'') = Some ''a'' \<and>
      map_option le_owner_pubkey (bt_get (foldl leased_gossip [] [c, a, b]) ''blog'') = Some ''b''"
  by (simp add: leased_gossip_def apply_leased_name_def merge_leased_name_def cross_owner_winner_eq
      takes_over_def HLC_le_eval HLC_less_eval saturating_add_def bt_get_def Let_def)

text \<open>Two keys whose first claims carry the same clock are arbitrated by argument order: each node
  keeps the claim it saw first.\<close>

theorem equal_claims_asymmetric:
  "fst (cross_owner_winner (lease_at ''a'' 7 7) (lease_at ''b'' 7 7)) = lease_at ''a'' 7 7 \<and>
   fst (cross_owner_winner (lease_at ''b'' 7 7) (lease_at ''a'' 7 7)) = lease_at ''b'' 7 7"
  by (simp add: cross_owner_winner_eq takes_over_def saturating_add_def)

end
