(* ===== verification/Persist.thy ===== *)
theory Persist
  imports Services Leased_Names
begin

text \<open>
  The state files of \<open>bin/mjolnir-meshd.rs\<close>: for each replicated book a path next to the claims
  file, a tolerant loader and a writer that goes through a temporary sibling and a rename.

  Parameters: the postcard codec (\<open>to_allocvec\<close>, which may fail, and \<open>from_bytes\<close>) and the
  environment, which decides for each system call whether it succeeds. A failing write may leave
  any prefix of its data behind. Since every failure makes the writer return at once, a failure at
  a call also stands for a crash there. A rename is atomic and takes effect after the write before
  it; the code does not flush the temporary file, so this is an assumption on the file system.
  Paths are lists of ordinary components.
\<close>

type_synonym path = "string list"
type_synonym bytes = "u8 list"
type_synonym FileSys = "path \<rightharpoonup> bytes"

datatype WriteOutcome = WroteAll | CreateFailed | WroteOnly nat

record IoEnv =
  mkdir_fails :: "path \<Rightarrow> bool"
  write_outcome :: "path \<Rightarrow> WriteOutcome"
  rename_fails :: "path \<Rightarrow> path \<Rightarrow> bool"
  read_fails :: "path \<Rightarrow> bool"

section \<open>Paths\<close>

definition parent :: "path \<Rightarrow> path option" where
  "parent p = (if p = [] then None else Some (butlast p))"

text \<open>\<open>Path::file_stem\<close>: the name up to its last dot, all of it when the only dot comes first.\<close>

definition file_stem :: "string \<Rightarrow> string" where
  "file_stem name =
     (let stem = rev (drop 1 (dropWhile (\<lambda>c. c \<noteq> CHR ''.'') (rev name)))
      in if CHR ''.'' \<notin> set name \<or> stem = [] then name else stem)"

definition with_extension :: "path \<Rightarrow> string \<Rightarrow> path" where
  "with_extension p ext = (if p = [] then p else butlast p @ [file_stem (last p) @ ''.'' @ ext])"

definition with_file_name :: "path \<Rightarrow> string \<Rightarrow> path" where
  "with_file_name p name = (if p = [] then [name] else butlast p @ [name])"

definition addr_book_path :: "path \<Rightarrow> path" where
  "addr_book_path claims_file = with_file_name claims_file ''addrbook.state''"

definition user_book_path :: "path \<Rightarrow> path" where
  "user_book_path claims_file = with_file_name claims_file ''users.state''"

definition user_seed_path :: "path \<Rightarrow> path" where
  "user_seed_path claims_file = with_file_name claims_file ''users.seed''"

definition node_name_book_path :: "path \<Rightarrow> path" where
  "node_name_book_path claims_file = with_file_name claims_file ''nodenames.state''"

definition service_book_path :: "path \<Rightarrow> path" where
  "service_book_path claims_file = with_file_name claims_file ''services.state''"

definition service_book_v2_path :: "path \<Rightarrow> path" where
  "service_book_v2_path claims_file = with_file_name claims_file ''services2.state''"

definition leased_names_path :: "path \<Rightarrow> path" where
  "leased_names_path claims_file = with_file_name claims_file ''leased-names.state''"

text \<open>The bytes of a text and back.\<close>

definition str_bytes :: "string \<Rightarrow> bytes" where
  "str_bytes s = map (\<lambda>c. of_nat (byte c)) s"

definition bytes_str :: "bytes \<Rightarrow> string" where
  "bytes_str bs = map (\<lambda>b. char_of (unat b)) bs"

lemma bytes_str_bytes [simp]: "bytes_str (str_bytes s) = s"
  by (simp add: bytes_str_def str_bytes_def comp_def byte_def unat_of_nat)

section \<open>Loading and writing\<close>

text \<open>The loaders: absent, unreadable and undecodable files all give the empty value.\<close>

definition load_state :: "(bytes \<Rightarrow> 'a option) \<Rightarrow> 'a \<Rightarrow> IoEnv \<Rightarrow> FileSys \<Rightarrow> path \<Rightarrow> 'a" where
  "load_state from_bytes dflt env fs p =
     (if read_fails env p then dflt
      else
        (case fs p of
           None \<Rightarrow> dflt
         | Some bytes \<Rightarrow> (case from_bytes bytes of Some x \<Rightarrow> x | None \<Rightarrow> dflt)))"

definition fs_write :: "IoEnv \<Rightarrow> path \<Rightarrow> bytes \<Rightarrow> FileSys \<Rightarrow> FileSys \<times> bool" where
  "fs_write env p bytes fs =
     (case write_outcome env p of
        WroteAll \<Rightarrow> (fs(p \<mapsto> bytes), True)
      | CreateFailed \<Rightarrow> (fs, False)
      | WroteOnly k \<Rightarrow> (fs(p \<mapsto> take k bytes), False))"

definition fs_rename :: "IoEnv \<Rightarrow> path \<Rightarrow> path \<Rightarrow> FileSys \<Rightarrow> FileSys" where
  "fs_rename env from to fs =
     (if rename_fails env from to then fs
      else (case fs from of None \<Rightarrow> fs | Some bytes \<Rightarrow> (fs(from := None))(to \<mapsto> bytes)))"

definition persist_state ::
  "('a \<Rightarrow> bytes option) \<Rightarrow> IoEnv \<Rightarrow> 'a \<Rightarrow> path \<Rightarrow> FileSys \<Rightarrow> FileSys" where
  "persist_state to_allocvec env snapshot p fs =
     (case to_allocvec snapshot of
        None \<Rightarrow> fs
      | Some bytes \<Rightarrow>
          if (case parent p of None \<Rightarrow> False | Some d \<Rightarrow> mkdir_fails env d) then fs
          else
            (let tmp_path = with_extension p ''tmp''
             in (case fs_write env tmp_path bytes fs of
                   (fs', False) \<Rightarrow> fs'
                 | (fs', True) \<Rightarrow> fs_rename env tmp_path p fs')))"

definition load_claims :: "(bytes \<Rightarrow> ClaimStore option) \<Rightarrow> IoEnv \<Rightarrow> FileSys \<Rightarrow> path \<Rightarrow> ClaimStore" where
  "load_claims from_bytes = load_state from_bytes []"

definition persist_claims :: "(ClaimStore \<Rightarrow> bytes option) \<Rightarrow> IoEnv \<Rightarrow> ClaimStore \<Rightarrow> path \<Rightarrow> FileSys \<Rightarrow> FileSys" where
  "persist_claims = persist_state"

definition load_addr_book :: "(bytes \<Rightarrow> AddrBook option) \<Rightarrow> IoEnv \<Rightarrow> FileSys \<Rightarrow> path \<Rightarrow> AddrBook" where
  "load_addr_book from_bytes = load_state from_bytes []"

definition persist_addr_book :: "(AddrBook \<Rightarrow> bytes option) \<Rightarrow> IoEnv \<Rightarrow> AddrBook \<Rightarrow> path \<Rightarrow> FileSys \<Rightarrow> FileSys" where
  "persist_addr_book = persist_state"

definition load_user_book :: "(bytes \<Rightarrow> UserBook option) \<Rightarrow> IoEnv \<Rightarrow> FileSys \<Rightarrow> path \<Rightarrow> UserBook" where
  "load_user_book from_bytes = load_state from_bytes []"

definition persist_user_book :: "(UserBook \<Rightarrow> bytes option) \<Rightarrow> IoEnv \<Rightarrow> UserBook \<Rightarrow> path \<Rightarrow> FileSys \<Rightarrow> FileSys" where
  "persist_user_book = persist_state"

definition load_node_name_book ::
  "(bytes \<Rightarrow> NodeNameBook option) \<Rightarrow> IoEnv \<Rightarrow> FileSys \<Rightarrow> path \<Rightarrow> NodeNameBook" where
  "load_node_name_book from_bytes = load_state from_bytes []"

definition persist_node_name_book ::
  "(NodeNameBook \<Rightarrow> bytes option) \<Rightarrow> IoEnv \<Rightarrow> NodeNameBook \<Rightarrow> path \<Rightarrow> FileSys \<Rightarrow> FileSys" where
  "persist_node_name_book = persist_state"

definition load_service_book :: "(bytes \<Rightarrow> ServiceBook option) \<Rightarrow> IoEnv \<Rightarrow> FileSys \<Rightarrow> path \<Rightarrow> ServiceBook" where
  "load_service_book from_bytes = load_state from_bytes []"

definition persist_service_book ::
  "(ServiceBook \<Rightarrow> bytes option) \<Rightarrow> IoEnv \<Rightarrow> ServiceBook \<Rightarrow> path \<Rightarrow> FileSys \<Rightarrow> FileSys" where
  "persist_service_book = persist_state"

definition load_service_state_v2 ::
  "(bytes \<Rightarrow> ServiceStateV2 option) \<Rightarrow> IoEnv \<Rightarrow> FileSys \<Rightarrow> path \<Rightarrow> ServiceStateV2" where
  "load_service_state_v2 from_bytes = load_state from_bytes \<lparr>book = [], tombstones = [], lost_names = []\<rparr>"

definition persist_service_state_v2 ::
  "(ServiceStateV2 \<Rightarrow> bytes option) \<Rightarrow> IoEnv \<Rightarrow> ServiceStateV2 \<Rightarrow> path \<Rightarrow> FileSys \<Rightarrow> FileSys" where
  "persist_service_state_v2 = persist_state"

definition load_leased_names ::
  "(bytes \<Rightarrow> LeasedNameBook option) \<Rightarrow> IoEnv \<Rightarrow> FileSys \<Rightarrow> path \<Rightarrow> LeasedNameBook" where
  "load_leased_names from_bytes = load_state from_bytes []"

definition persist_leased_names ::
  "(LeasedNameBook \<Rightarrow> bytes option) \<Rightarrow> IoEnv \<Rightarrow> LeasedNameBook \<Rightarrow> path \<Rightarrow> FileSys \<Rightarrow> FileSys" where
  "persist_leased_names = persist_state"

lemmas persist_defs =
  persist_claims_def persist_addr_book_def persist_user_book_def persist_node_name_book_def
  persist_service_book_def persist_service_state_v2_def persist_leased_names_def

lemmas load_defs =
  load_claims_def load_addr_book_def load_user_book_def load_node_name_book_def
  load_service_book_def load_service_state_v2_def load_leased_names_def

section \<open>The store a writer and a loader make together\<close>

text \<open>The paths of the daemon's state files.\<close>

definition state_files :: "path \<Rightarrow> path list" where
  "state_files claims_file =
     [claims_file, addr_book_path claims_file, user_book_path claims_file, node_name_book_path claims_file,
      service_book_path claims_file, service_book_v2_path claims_file, leased_names_path claims_file]"

text \<open>A claims file that does not take the name, or the temporary name, of another state file.\<close>

definition claims_file_ok :: "path \<Rightarrow> bool" where
  "claims_file_ok p \<longleftrightarrow>
     p \<noteq> [] \<and> distinct (state_files p) \<and>
     (\<forall>q\<in>set (state_files p). with_extension q ''tmp'' \<notin> set (state_files p))"

lemma fs_write_other: "q \<noteq> p \<Longrightarrow> fst (fs_write env p bytes fs) q = fs q"
  by (simp add: fs_write_def split: WriteOutcome.splits)

lemma persist_state_other:
  "q \<noteq> p \<Longrightarrow> q \<noteq> with_extension p ''tmp'' \<Longrightarrow> persist_state enc env snapshot p fs q = fs q"
  by (auto simp: persist_state_def fs_write_def fs_rename_def Let_def
      split: option.splits WriteOutcome.splits)

lemma persist_state_at:
  assumes "p \<noteq> with_extension p ''tmp''"
  shows "persist_state enc env snapshot p fs p = fs p \<or>
         (\<exists>bytes. enc snapshot = Some bytes \<and> persist_state enc env snapshot p fs p = Some bytes)"
  using assms
  by (auto simp: persist_state_def fs_write_def fs_rename_def Let_def
      split: option.splits WriteOutcome.splits)

text \<open>An environment in which every call succeeds.\<close>

definition io_ok :: "IoEnv \<Rightarrow> bool" where
  "io_ok env \<longleftrightarrow>
     (\<forall>p q. \<not> mkdir_fails env p \<and> write_outcome env p = WroteAll \<and> \<not> rename_fails env p q \<and> \<not> read_fails env p)"

lemma persist_state_ok:
  assumes "io_ok env" and "enc snapshot = Some bytes"
  shows "persist_state enc env snapshot p fs p = Some bytes"
  using assms
  by (auto simp: io_ok_def persist_state_def fs_write_def fs_rename_def Let_def
      split: option.splits)

lemma sibling_tmp:
  assumes "claims_file_ok cf" and "p \<in> set (state_files cf)" and "q \<in> set (state_files cf)"
  shows "with_extension p ''tmp'' \<noteq> q"
  using assms unfolding claims_file_ok_def by blast

text \<open>The default claims file, in any directory.\<close>

lemma default_claims_file_ok: "claims_file_ok (dir @ [''claims.state''])"
  unfolding claims_file_ok_def state_files_def addr_book_path_def user_book_path_def
    node_name_book_path_def service_book_path_def service_book_v2_path_def leased_names_path_def
  by (simp add: with_file_name_def with_extension_def file_stem_def Let_def)

text \<open>C12. The state files survive failures and crashes: whatever system call of a write fails, and
  wherever it stops, loading the file afterwards gives the value it had before or the new snapshot,
  never a truncated one; when every call succeeds it gives the snapshot; and no write touches what
  the loaders read from the other state files.\<close>

theorem persist_crash_safe:
  assumes "claims_file_ok claims_file" and "p \<in> set (state_files claims_file)"
    and "\<forall>b. to_allocvec snapshot = Some b \<longrightarrow> from_bytes b = Some snapshot"
    and "\<not> read_fails reader p"
    and "fs' = persist_state to_allocvec env snapshot p fs"
  shows "load_state from_bytes dflt reader fs' p \<in> {load_state from_bytes dflt reader fs p, snapshot} \<and>
         (io_ok env \<and> to_allocvec snapshot \<noteq> None \<longrightarrow> load_state from_bytes dflt reader fs' p = snapshot) \<and>
         (\<forall>q\<in>set (state_files claims_file) - {p}.
            load_state from_bytes' dflt' reader fs' q = load_state from_bytes' dflt' reader fs q)"
proof (intro conjI impI ballI)
  have tmp: "p \<noteq> with_extension p ''tmp''" using sibling_tmp[OF assms(1,2,2)] by simp
  show "load_state from_bytes dflt reader fs' p \<in> {load_state from_bytes dflt reader fs p, snapshot}"
    using persist_state_at[OF tmp, of to_allocvec env snapshot fs] assms(3,4,5)
    by (auto simp: load_state_def)
  show "load_state from_bytes dflt reader fs' p = snapshot" if "io_ok env \<and> to_allocvec snapshot \<noteq> None"
    using that persist_state_ok[of env to_allocvec snapshot _ p fs] assms(3,4,5)
    by (auto simp: load_state_def)
  fix q assume q: "q \<in> set (state_files claims_file) - {p}"
  then have "persist_state to_allocvec env snapshot p fs q = fs q"
    using sibling_tmp[OF assms(1,2), of q] by (intro persist_state_other) auto
  then show "load_state from_bytes' dflt' reader fs' q = load_state from_bytes' dflt' reader fs q"
    by (simp add: load_state_def assms(5))
qed

text \<open>Witness of C12: a write of a claim store that stops after one byte of the temporary file.\<close>

theorem persist_crash_safe_witness:
  "load_state (\<lambda>b. if b = [1, 2] then Some (7 :: nat) else None) 0
     \<lparr>mkdir_fails = \<lambda>_. False, write_outcome = \<lambda>_. WroteAll, rename_fails = \<lambda>_ _. False, read_fails = \<lambda>_. False\<rparr>
     (persist_state (\<lambda>n :: nat. if n = 7 then Some [1, 2] else None)
        \<lparr>mkdir_fails = \<lambda>_. False, write_outcome = \<lambda>_. WroteOnly 1, rename_fails = \<lambda>_ _. False, read_fails = \<lambda>_. False\<rparr>
        7 ([''etc''] @ [''claims.state'']) Map.empty)
     ([''etc''] @ [''claims.state'']) \<in> {0, 7}"
proof -
  let ?r = "\<lparr>mkdir_fails = \<lambda>_. False, write_outcome = \<lambda>_. WroteAll, rename_fails = \<lambda>_ _. False, read_fails = \<lambda>_. False\<rparr>"
  have "[''etc''] @ [''claims.state''] \<in> set (state_files ([''etc''] @ [''claims.state'']))"
    by (simp add: state_files_def)
  note safe = persist_crash_safe[OF default_claims_file_ok this,
      of "\<lambda>n :: nat. if n = 7 then Some [1, 2] else None" 7 "\<lambda>b. if b = [1, 2] then Some 7 else None" ?r _
      "?r\<lparr>write_outcome := \<lambda>_. WroteOnly 1\<rparr>" Map.empty, OF _ _ refl, of 0 "\<lambda>_. None :: unit option" "()", THEN conjunct1]
  have "load_state (\<lambda>b. if b = [1, 2] then Some (7 :: nat) else None) 0 ?r Map.empty
      ([''etc''] @ [''claims.state'']) = 0" by (simp add: load_state_def)
  with safe show ?thesis by simp
qed

end
