(* ===== verification/Claims.thy ===== *)
theory Claims
  imports Lanes Link "HOL-Library.Multiset"
begin

text \<open>
  The claim manager of \<open>bin/mjolnir-meshd.rs\<close>: which client subnet a node keeps, releases or
  picks, and its backhaul address. The claim store is shared with the gossip lane of \<open>Lanes\<close>;
  the allocator is that of \<open>Alloc\<close>.

  Parameters: \<open>network\<close>, \<open>contains\<close> and \<open>to_string\<close> of the CIDR crate (\<open>to_string\<close> is injective:
  the text determines the network), \<open>blake3\<close>, and \<open>clock\<close>, the reading of the system clock when
  the record for a given key is stamped. What the daemon does to the outside world is a list of
  effects in the order of the code.
\<close>

datatype ClaimEffect =
    Gossip GossipMessage
  | AssignClientAddr Ipv4Net
  | RetractClientAddr Ipv4Net
  | ReconcileClientUci Ipv4Net
  | SetGateway "ipv4 option"
  | PersistClaims ClaimStore
  | ExitProcess int

definition CLIENT_PREFIX_LEN :: nat where
  "CLIENT_PREFIX_LEN = 24"

definition EXIT_BACKHAUL_COLLISION :: int where
  "EXIT_BACKHAUL_COLLISION = 86"

definition BACKHAUL_PICK_ATTEMPTS :: nat where
  "BACKHAUL_PICK_ATTEMPTS = 64"

text \<open>\<open>Ipv4Addr::from(u32::from(subnet.network()) + 1)\<close>.\<close>

definition client_gateway_addr :: "(Ipv4Net \<Rightarrow> ipv4) \<Rightarrow> Ipv4Net \<Rightarrow> ipv4" where
  "client_gateway_addr network subnet = network subnet + 1"

text \<open>The filter of the client claims: an IPv4 network outside the backhaul block.\<close>

definition client_net :: "(Ipv4Net \<Rightarrow> ipv4) \<Rightarrow> SubnetClaim \<Rightarrow> Ipv4Net option" where
  "client_net network c =
     (case sc_cidr c of
        NetV4 n \<Rightarrow> if \<not> in_backhaul_block network n then Some n else None
      | NetV6 _ _ \<Rightarrow> None)"

definition backhaul_net :: "(Ipv4Net \<Rightarrow> ipv4) \<Rightarrow> SubnetClaim \<Rightarrow> Ipv4Net option" where
  "backhaul_net network c =
     (case sc_cidr c of
        NetV4 n \<Rightarrow> if in_backhaul_block network n then Some n else None
      | NetV6 _ _ \<Rightarrow> None)"

definition partition_claims ::
  "(Ipv4Net \<Rightarrow> ipv4) \<Rightarrow> ClaimStore \<Rightarrow> string \<Rightarrow>
   (Ipv4Net \<times> SubnetClaim) option \<times> Ipv4Net list \<times> Ipv4Net list" where
  "partition_claims network store self_id =
     (let own = List.map_filter (\<lambda>c. map_option (\<lambda>n. (n, c)) (client_net network c))
                  (filter (\<lambda>c. sc_owner_node_id c = self_id) (map snd store));
          foreign = List.map_filter (client_net network)
                  (filter (\<lambda>c. sc_owner_node_id c \<noteq> self_id) (map snd store));
          own = sort_key (\<lambda>p. sc_claimed_at (snd p)) own
      in (case own of
            [] \<Rightarrow> (None, [], foreign)
          | keep # extras \<Rightarrow> (Some keep, map fst extras, foreign)))"

definition owned_client_subnet ::
  "(Ipv4Net \<Rightarrow> ipv4) \<Rightarrow> (IpNet \<Rightarrow> string) \<Rightarrow> ClaimStore \<Rightarrow> string \<Rightarrow> string option" where
  "owned_client_subnet network to_string claims node_id =
     (case List.map_filter (client_net network)
             (filter (\<lambda>c. sc_owner_node_id c = node_id) (map snd claims)) of
        [] \<Rightarrow> None
      | n # _ \<Rightarrow> Some (to_string (NetV4 n)))"

text \<open>The node's own backhaul claims, senior first: shared by the next two functions.\<close>

definition backhaul_claims_of :: "(Ipv4Net \<Rightarrow> ipv4) \<Rightarrow> ClaimStore \<Rightarrow> string \<Rightarrow> SubnetClaim list" where
  "backhaul_claims_of network store node_id =
     sort_key sc_claimed_at
       (filter (\<lambda>c. backhaul_net network c \<noteq> None)
         (filter (\<lambda>c. sc_owner_node_id c = node_id) (map snd store)))"

definition senior_backhaul_addr :: "(Ipv4Net \<Rightarrow> ipv4) \<Rightarrow> ClaimStore \<Rightarrow> string \<Rightarrow> ipv4 option" where
  "senior_backhaul_addr network store node_id =
     (case backhaul_claims_of network store node_id of
        [] \<Rightarrow> None
      | c # _ \<Rightarrow> (case sc_cidr c of NetV4 n \<Rightarrow> Some (net_addr n) | NetV6 _ _ \<Rightarrow> None))"

definition taken_backhaul_addrs :: "(Ipv4Net \<Rightarrow> ipv4) \<Rightarrow> ClaimStore \<Rightarrow> string \<Rightarrow> ipv4 list" where
  "taken_backhaul_addrs network store self_id =
     List.map_filter
       (\<lambda>c. case backhaul_net network c of
           Some n \<Rightarrow> if prefix_len n = 32 then Some (net_addr n) else None
         | None \<Rightarrow> None)
       (filter (\<lambda>c. sc_owner_node_id c \<noteq> self_id) (map snd store))"

definition pick_backhaul_addr ::
  "(Ipv4Net \<Rightarrow> ipv4) \<Rightarrow> (string \<Rightarrow> u8 list) \<Rightarrow> ClaimStore \<Rightarrow> string \<Rightarrow> ipv4" where
  "pick_backhaul_addr network blake3 store self_id =
     (case senior_backhaul_addr network store self_id of
        Some a \<Rightarrow> a
      | None \<Rightarrow>
          (let taken = taken_backhaul_addrs network store self_id
           in (case find (\<lambda>a. \<not> List.member taken a)
                      (map (\<lambda>k. backhaul_addr_salted blake3 self_id (of_nat k)) [0..<BACKHAUL_PICK_ATTEMPTS]) of
                 Some a \<Rightarrow> a
               | None \<Rightarrow> backhaul_addr blake3 self_id)))"

definition peer_backhaul_hint ::
  "(Ipv4Net \<Rightarrow> ipv4) \<Rightarrow> (string \<Rightarrow> u8 list) \<Rightarrow> ClaimStore \<Rightarrow> string \<Rightarrow> ipv4" where
  "peer_backhaul_hint network blake3 store peer_id =
     (case senior_backhaul_addr network store peer_id of
        Some a \<Rightarrow> a
      | None \<Rightarrow> backhaul_addr blake3 peer_id)"

definition claim_backhaul_and_publish ::
  "(IpNet \<Rightarrow> string) \<Rightarrow> (string \<Rightarrow> u64) \<Rightarrow> ClaimStore \<Rightarrow> string \<Rightarrow> ipv4 \<Rightarrow>
   ClaimStore \<times> ClaimEffect list" where
  "claim_backhaul_and_publish to_string clock store self_id addr =
     (let net = Ipv4Net addr 32;
          key = to_string (NetV4 net);
          fresh = \<lparr>sc_cidr = NetV4 net, sc_owner_node_id = self_id, sc_site_name = None,
                   sc_claimed_at = now_hlc (clock key) self_id\<rparr>
      in if (case merge_subnet_claim (hm_get store key) fresh of
               Conflict winner _ \<Rightarrow> sc_owner_node_id winner \<noteq> self_id | _ \<Rightarrow> False)
         then (store, [PersistClaims store, ExitProcess EXIT_BACKHAUL_COLLISION])
         else
           (let entry = (case hm_get store key of
                           Some c \<Rightarrow> if sc_owner_node_id c = self_id then c else fresh
                         | None \<Rightarrow> fresh)
            in (hm_insert key entry store, [Gossip (SubnetClaimUpdate key entry)])))"

definition release_claim ::
  "(IpNet \<Rightarrow> string) \<Rightarrow> (string \<Rightarrow> u64) \<Rightarrow> string \<Rightarrow> Ipv4Net \<Rightarrow> ClaimStore \<times> ClaimEffect list \<Rightarrow>
   ClaimStore \<times> ClaimEffect list" where
  "release_claim to_string clock self_id net s =
     (case s of (store, effs) \<Rightarrow>
        (let key = to_string (NetV4 net)
         in (hm_remove key store,
             effs @ [Gossip (SubnetClaimRelease key (now_hlc (clock key) self_id)), RetractClientAddr net])))"

definition hold_net :: "(Ipv4Net \<Rightarrow> ipv4) \<Rightarrow> Ipv4Net \<Rightarrow> ClaimEffect list" where
  "hold_net network net =
     [AssignClientAddr net, ReconcileClientUci net, SetGateway (Some (client_gateway_addr network net))]"

definition claim_and_publish ::
  "(Ipv4Net \<Rightarrow> ipv4) \<Rightarrow> (Ipv4Net \<Rightarrow> Ipv4Net \<Rightarrow> bool) \<Rightarrow> (string \<Rightarrow> u8 list) \<Rightarrow> (IpNet \<Rightarrow> string) \<Rightarrow>
   (string \<Rightarrow> u64) \<Rightarrow> ClaimStore \<Rightarrow> string \<Rightarrow> string + ClaimStore \<times> ClaimEffect list" where
  "claim_and_publish network contains blake3 to_string clock store self_id =
     (case partition_claims network store self_id of
        (keep, extras, foreign) \<Rightarrow>
          (case fold (release_claim to_string clock self_id) extras (store, []) of
             (store1, effs) \<Rightarrow>
               (case keep of
                  Some (net, claim) \<Rightarrow>
                    Inr (store1,
                         effs @ [Gossip (SubnetClaimUpdate (to_string (NetV4 net)) claim)] @ hold_net network net)
                | None \<Rightarrow>
                    (case pick_subnet_or_smaller network contains blake3 self_id foreign
                            DEFAULT_MESH_SPACE CLIENT_PREFIX_LEN of
                       Inl panic \<Rightarrow> Inl panic
                     | Inr None \<Rightarrow> Inr (store1, effs)
                     | Inr (Some net) \<Rightarrow>
                         (let key = to_string (NetV4 net);
                              claim = \<lparr>sc_cidr = NetV4 net, sc_owner_node_id = self_id,
                                       sc_site_name = None, sc_claimed_at = now_hlc (clock key) self_id\<rparr>
                          in Inr (hm_insert key claim store1,
                                  effs @ [Gossip (SubnetClaimUpdate key claim)] @ hold_net network net))))))"

section \<open>Lemmas\<close>

definition store_keyed :: "(IpNet \<Rightarrow> string) \<Rightarrow> ClaimStore \<Rightarrow> bool" where
  "store_keyed to_string store \<longleftrightarrow>
     hm_ok store \<and> (\<forall>k c. hm_get store k = Some c \<longrightarrow> k = to_string (sc_cidr c))"

text \<open>The client claims a node holds.\<close>

definition own_claims :: "(Ipv4Net \<Rightarrow> ipv4) \<Rightarrow> string \<Rightarrow> ClaimStore \<Rightarrow> (string \<times> SubnetClaim) set" where
  "own_claims network self_id store =
     {(k, c). hm_get store k = Some c \<and> sc_owner_node_id c = self_id \<and> client_net network c \<noteq> None}"

lemma client_net_cidr: "client_net network c = Some n \<Longrightarrow> sc_cidr c = NetV4 n"
  by (auto simp: client_net_def split: IpNet.splits if_splits)

lemma fold_release:
  "fold (release_claim to_string clock self_id) nets (store, effs) =
     (fold hm_remove (map (\<lambda>n. to_string (NetV4 n)) nets) store,
      effs @ concat (map (\<lambda>n. [Gossip (SubnetClaimRelease (to_string (NetV4 n))
         (now_hlc (clock (to_string (NetV4 n))) self_id)), RetractClientAddr n]) nets))"
  by (induction nets arbitrary: store effs) (simp_all add: release_claim_def Let_def)

lemma store_key_of:
  assumes "store_keyed to_string store" and "hm_get store k = Some c" and "client_net network c = Some n"
  shows "k = to_string (NetV4 n)"
  using assms(1,2) client_net_cidr[OF assms(3)] unfolding store_keyed_def by metis

definition own_list :: "(Ipv4Net \<Rightarrow> ipv4) \<Rightarrow> ClaimStore \<Rightarrow> string \<Rightarrow> (Ipv4Net \<times> SubnetClaim) list" where
  "own_list network store self_id =
     sort_key (\<lambda>p. sc_claimed_at (snd p))
       (List.map_filter (\<lambda>c. map_option (\<lambda>n. (n, c)) (client_net network c))
         (filter (\<lambda>c. sc_owner_node_id c = self_id) (map snd store)))"

lemma partition_claims_own:
  "partition_claims network store self_id =
     ((case own_list network store self_id of [] \<Rightarrow> None | k # _ \<Rightarrow> Some k),
      map fst (tl (own_list network store self_id)),
      List.map_filter (client_net network) (filter (\<lambda>c. sc_owner_node_id c \<noteq> self_id) (map snd store)))"
  by (simp add: partition_claims_def own_list_def Let_def split: list.splits)

lemma own_list_set:
  assumes "store_keyed to_string store"
  shows "(n, c) \<in> set (own_list network store self_id) \<longleftrightarrow>
    (to_string (NetV4 n), c) \<in> own_claims network self_id store \<and> client_net network c = Some n"
proof -
  have ok: "hm_ok store" using assms by (simp add: store_keyed_def)
  have "(n, c) \<in> set (own_list network store self_id) \<longleftrightarrow>
      (\<exists>k. hm_get store k = Some c \<and> sc_owner_node_id c = self_id \<and> client_net network c = Some n)"
    by (auto simp: own_list_def set_map_filter hm_get_iff[OF ok]) force
  then show ?thesis
    using store_key_of[OF assms] by (auto simp: own_claims_def)
qed

lemma own_list_distinct:
  assumes "store_keyed to_string store"
  shows "distinct (map fst (own_list network store self_id))"
proof -
  let ?ml = "\<lambda>xs. List.map_filter (\<lambda>c. map_option (\<lambda>n. (n, c)) (client_net network c))
      (filter (\<lambda>c. sc_owner_node_id c = self_id) (map snd xs))"
  have keys: "map (\<lambda>p. to_string (NetV4 (fst p))) (?ml xs) =
      map fst (filter (\<lambda>(k, c). sc_owner_node_id c = self_id \<and> client_net network c \<noteq> None) xs)"
    if "set xs \<subseteq> set store" for xs
    using that
  proof (induction xs)
    case (Cons x xs)
    obtain k c where x: "x = (k, c)" by fastforce
    have "hm_get store k = Some c" using Cons.prems assms by (simp add: x store_keyed_def hm_get_iff)
    then have "client_net network c = Some n \<Longrightarrow> k = to_string (NetV4 n)" for n
      using store_key_of[OF assms] by blast
    with Cons show ?case
      by (cases "client_net network c") (auto simp: x List.map_filter_def)
  qed (simp add: List.map_filter_def)
  have "distinct (map fst store)" using assms by (simp add: store_keyed_def hm_ok_def)
  then have "distinct (map (\<lambda>p. to_string (NetV4 (fst p))) (?ml store))"
    unfolding keys[OF subset_refl] by (rule distinct_map_filter)
  then have "distinct (map (\<lambda>n. to_string (NetV4 n)) (map fst (?ml store)))" by (simp add: comp_def)
  then have "distinct (map fst (?ml store))" unfolding distinct_map[of "\<lambda>n. to_string (NetV4 n)"] by blast
  moreover have "mset (own_list network store self_id) = mset (?ml store)" by (simp add: own_list_def)
  ultimately show ?thesis using mset_eq_imp_distinct_iff[of "map fst (own_list network store self_id)" "map fst (?ml store)"] by simp
qed

lemma own_list_sorted: "sorted (map (\<lambda>p. sc_claimed_at (snd p)) (own_list network store self_id))"
  by (simp add: own_list_def)

lemma partition_claims_spec:
  assumes "store_keyed to_string store" and "inj to_string"
    and "partition_claims network store self_id = (keep, extras, foreign)"
  shows "set foreign = {n. \<exists>k c. hm_get store k = Some c \<and> sc_owner_node_id c \<noteq> self_id \<and> client_net network c = Some n}"
    and "keep = None \<Longrightarrow> own_claims network self_id store = {} \<and> extras = []"
    and "keep = Some (n, c) \<Longrightarrow>
      (to_string (NetV4 n), c) \<in> own_claims network self_id store \<and> client_net network c = Some n \<and>
      (\<forall>k' c'. (k', c') \<in> own_claims network self_id store \<longrightarrow> sc_claimed_at c \<le> sc_claimed_at c') \<and>
      (\<lambda>n. to_string (NetV4 n)) ` set extras = fst ` own_claims network self_id store - {to_string (NetV4 n)}"
proof -
  have ok: "hm_ok store" using assms(1) by (simp add: store_keyed_def)
  note p = assms(3)[unfolded partition_claims_own]
  show "set foreign = {n. \<exists>k c. hm_get store k = Some c \<and> sc_owner_node_id c \<noteq> self_id \<and> client_net network c = Some n}"
    using p by (force simp: set_map_filter hm_get_iff[OF ok])
  have own: "(k, c) \<in> own_claims network self_id store \<longleftrightarrow>
      (\<exists>n. k = to_string (NetV4 n) \<and> (n, c) \<in> set (own_list network store self_id))" for k c
    using own_list_set[OF assms(1)] store_key_of[OF assms(1)] by (auto simp: own_claims_def)
  show "own_claims network self_id store = {} \<and> extras = []" if "keep = None"
    using that p own by (auto split: list.splits)
  show "(to_string (NetV4 n), c) \<in> own_claims network self_id store \<and> client_net network c = Some n \<and>
      (\<forall>k' c'. (k', c') \<in> own_claims network self_id store \<longrightarrow> sc_claimed_at c \<le> sc_claimed_at c') \<and>
      (\<lambda>n. to_string (NetV4 n)) ` set extras = fst ` own_claims network self_id store - {to_string (NetV4 n)}"
    if kp: "keep = Some (n, c)"
  proof -
    obtain rest where l: "own_list network store self_id = (n, c) # rest" and ex: "extras = map fst rest"
      using kp p by (cases "own_list network store self_id") auto
    have mem: "(n, c) \<in> set (own_list network store self_id)" by (simp add: l)
    have le: "sc_claimed_at c \<le> sc_claimed_at c'" if "(k', c') \<in> own_claims network self_id store" for k' c'
      using that own own_list_sorted[of network store self_id] by (auto simp: l)
    have "n \<notin> set extras" using own_list_distinct[OF assms(1), of network self_id] by (simp add: l ex)
    then have "to_string (NetV4 n) \<notin> (\<lambda>n. to_string (NetV4 n)) ` set extras"
      by (auto dest: injD[OF assms(2)])
    moreover have "fst ` own_claims network self_id store =
        (\<lambda>p. to_string (NetV4 (fst p))) ` set (own_list network store self_id)"
      using own by (auto simp: image_iff) (metis fst_conv)+
    ultimately have "(\<lambda>n. to_string (NetV4 n)) ` set extras = fst ` own_claims network self_id store - {to_string (NetV4 n)}"
      by (simp add: l ex image_image)
    with mem le own_list_set[OF assms(1), of n c] show ?thesis by blast
  qed
qed

lemma fold_remove_own:
  assumes "store_keyed to_string store" and "ks \<subseteq> fst ` own_claims network self_id store" and "set rs = ks"
  shows "own_claims network self_id (fold hm_remove rs store) = {p \<in> own_claims network self_id store. fst p \<notin> ks}"
    and "(k, c) \<notin> own_claims network self_id store \<Longrightarrow> hm_get store k = Some c \<Longrightarrow>
           hm_get (fold hm_remove rs store) k = Some c"
proof -
  have ok: "hm_ok store" using assms(1) by (simp add: store_keyed_def)
  have get: "hm_get (fold hm_remove rs store) k = (if k \<in> ks then None else hm_get store k)" for k
    using hm.get_fold_rem[OF ok, of rs k] assms(3) by simp
  show "own_claims network self_id (fold hm_remove rs store) = {p \<in> own_claims network self_id store. fst p \<notin> ks}"
    by (auto simp: own_claims_def get split: if_splits)
  show "hm_get (fold hm_remove rs store) k = Some c"
    if "(k, c) \<notin> own_claims network self_id store" "hm_get store k = Some c"
    using that assms(2) by (auto simp: get own_claims_def split: if_splits)
qed

lemma mesh_space_not_backhaul:
  assumes "ipnet_laws network contains" and "net_addrs n \<subseteq> net_addrs DEFAULT_MESH_SPACE"
  shows "\<not> in_backhaul_block network n"
proof
  assume "in_backhaul_block network n"
  then have o: "octet (network n) 0 = 10" "octet (network n) 1 = 254"
    by (auto simp: in_backhaul_block_def BACKHAUL_BLOCK_def)
  have base: "net_first DEFAULT_MESH_SPACE = 0x0A2A0000" "net_size (prefix_len DEFAULT_MESH_SPACE) = 2 ^ 16"
    by (simp_all add: DEFAULT_MESH_SPACE_def net_first_def net_size_def ipv4_of_octets_def)
  have u: "unat (network n) = net_first n" by (rule ipnet_laws.network_first[OF assms(1)])
  have "net_first n \<in> net_addrs n" by (simp add: net_addrs_def)
  then have b: "0x0A2A0000 \<le> unat (network n)" "unat (network n) < 0x0A2B0000"
    using assms(2) base u unfolding net_addrs_def[of DEFAULT_MESH_SPACE] by auto
  then have "drop_bit 16 (unat (network n)) = 0x0A2A" by (simp add: drop_bit_eq_div)
  then have "unat (drop_bit 16 (network n)) = 0x0A2A" by (simp only: unat_drop_bit_eq)
  then have "drop_bit 16 (network n) = 0x0A2A" by (simp add: word_unat_eq_iff)
  then have "octet (network n) 1 = 42" by (simp add: octet_def)
  with o(2) show False by simp
qed

lemma store_keyed_remove:
  assumes "store_keyed to_string store"
  shows "store_keyed to_string (fold hm_remove rs store)"
  using assms
proof (induction rs arbitrary: store)
  case (Cons r rs)
  have "store_keyed to_string (hm_remove r store)"
    using Cons.prems by (auto simp: store_keyed_def map_ok map_simps split: if_splits)
  then show ?case using Cons.IH by simp
qed simp

text \<open>The client subnets other nodes claim: what a fresh pick must avoid.\<close>

definition others_client_nets :: "(Ipv4Net \<Rightarrow> ipv4) \<Rightarrow> ClaimStore \<Rightarrow> string \<Rightarrow> Ipv4Net list" where
  "others_client_nets network store self_id =
     List.map_filter (client_net network) (filter (\<lambda>c. sc_owner_node_id c \<noteq> self_id) (map snd store))"

lemma partition_claims_foreign:
  "partition_claims network store self_id = (keep, extras, foreign) \<Longrightarrow>
     foreign = others_client_nets network store self_id"
  by (simp add: partition_claims_own others_client_nets_def)

text \<open>A freshly picked network has no entry in the store yet, so recording it overwrites nothing.\<close>

lemma fresh_net_unclaimed:
  assumes laws: "ipnet_laws network contains" and inj: "inj to_string"
    and keyed: "store_keyed to_string store" and none: "own_claims network self_id store = {}"
    and fit: "best_fit (others_client_nets network store self_id) DEFAULT_MESH_SPACE p (Some net)"
  shows "hm_get store (to_string (NetV4 net)) = None" and "\<not> in_backhaul_block network net"
proof -
  have pl: "placeable (others_client_nets network store self_id) DEFAULT_MESH_SPACE (prefix_len net) net"
    using fit by (simp add: best_fit_def)
  show nb: "\<not> in_backhaul_block network net"
    using mesh_space_not_backhaul[OF laws] pl by (simp add: placeable_def)
  show "hm_get store (to_string (NetV4 net)) = None"
  proof (rule ccontr)
    assume "hm_get store (to_string (NetV4 net)) \<noteq> None"
    then obtain c where c: "hm_get store (to_string (NetV4 net)) = Some c" by auto
    then have "sc_cidr c = NetV4 net" using keyed injD[OF inj] unfolding store_keyed_def by metis
    then have cn: "client_net network c = Some net" using nb by (simp add: client_net_def)
    have "sc_owner_node_id c \<noteq> self_id" using none c cn by (auto simp: own_claims_def)
    moreover have "(to_string (NetV4 net), c) \<in> set store"
      using c keyed by (simp add: store_keyed_def hm_get_iff)
    ultimately have "net \<in> set (others_client_nets network store self_id)"
      using cn by (force simp: others_client_nets_def set_map_filter)
    then have "net_addrs net = {}" using pl by (auto simp: placeable_def)
    then show False by (simp add: net_addrs_def)
  qed
qed

text \<open>What a node holds after claiming: exactly one client claim.\<close>

definition holds_client_claim ::
  "(Ipv4Net \<Rightarrow> ipv4) \<Rightarrow> (IpNet \<Rightarrow> string) \<Rightarrow> string \<Rightarrow> ClaimStore \<Rightarrow> ClaimEffect list \<Rightarrow>
   Ipv4Net \<Rightarrow> SubnetClaim \<Rightarrow> bool" where
  "holds_client_claim network to_string self_id store effs net c \<longleftrightarrow>
     own_claims network self_id store = {(to_string (NetV4 net), c)} \<and> sc_cidr c = NetV4 net \<and>
     (\<exists>pre. effs = pre @ [Gossip (SubnetClaimUpdate (to_string (NetV4 net)) c), AssignClientAddr net,
                          ReconcileClientUci net, SetGateway (Some (network net + 1))])"

lemma claim_and_publish_held:
  assumes "inj to_string" and keyed: "store_keyed to_string store"
    and part: "partition_claims network store self_id = (Some (net, c), extras, foreign)"
  shows "\<exists>store' effs.
    claim_and_publish network contains blake3 to_string clock store self_id = Inr (store', effs) \<and>
    holds_client_claim network to_string self_id store' effs net c \<and> store_keyed to_string store' \<and>
    (\<forall>k d. (k, d) \<notin> own_claims network self_id store \<longrightarrow> hm_get store k = Some d \<longrightarrow> hm_get store' k = Some d)"
proof -
  let ?rs = "map (\<lambda>n. to_string (NetV4 n)) extras"
  let ?store' = "fold hm_remove ?rs store"
  note spec = partition_claims_spec(3)[OF keyed assms(1) part refl]
  have ks: "set ?rs = fst ` own_claims network self_id store - {to_string (NetV4 net)}" using spec by simp
  note rem = fold_remove_own[OF keyed _ refl, of ?rs network self_id]
  have "own_claims network self_id ?store' =
      {p \<in> own_claims network self_id store. fst p = to_string (NetV4 net)}"
    using rem(1) ks by (auto simp: image_iff)
  also have "\<dots> = {(to_string (NetV4 net), c)}"
    using spec by (auto simp: own_claims_def)
  finally have own: "own_claims network self_id ?store' = {(to_string (NetV4 net), c)}" .
  have keep: "hm_get ?store' k = Some d" if "(k, d) \<notin> own_claims network self_id store" "hm_get store k = Some d" for k d
    using rem(2)[OF _ that] ks by simp
  have cid: "sc_cidr c = NetV4 net" using spec client_net_cidr by blast
  show ?thesis
    unfolding claim_and_publish_def part prod.case fold_release option.case
    by (intro exI conjI, rule refl)
      (use own cid keep store_keyed_remove[OF keyed, of ?rs] in
        \<open>auto simp: holds_client_claim_def hold_net_def client_gateway_addr_def\<close>)
qed

lemma claim_and_publish_fresh:
  assumes laws: "ipnet_laws network contains" and "inj to_string" and keyed: "store_keyed to_string store"
    and none: "own_claims network self_id store = {}"
    and fit: "best_fit (others_client_nets network store self_id) DEFAULT_MESH_SPACE p (Some net)"
    and claim: "c = \<lparr>sc_cidr = NetV4 net, sc_owner_node_id = self_id, sc_site_name = None,
                  sc_claimed_at = now_hlc t self_id\<rparr>"
    and store': "store' = hm_insert (to_string (NetV4 net)) c store"
  shows "own_claims network self_id store' = {(to_string (NetV4 net), c)}"
    and "store_keyed to_string store'"
    and "hm_get store k = Some d \<Longrightarrow> hm_get store' k = Some d"
proof -
  note fresh = fresh_net_unclaimed[OF laws assms(2) keyed none fit]
  have ok: "hm_ok store" using keyed by (simp add: store_keyed_def)
  have get: "hm_get store' k = (if k = to_string (NetV4 net) then Some c else hm_get store k)" for k
    using ok by (simp add: store' map_simps)
  have cn: "client_net network c = Some net" using fresh(2) by (simp add: client_net_def claim)
  show "own_claims network self_id store' = {(to_string (NetV4 net), c)}"
  proof -
    have "(k, d) \<in> own_claims network self_id store' \<longleftrightarrow> k = to_string (NetV4 net) \<and> d = c" for k d
      using none cn claim unfolding own_claims_def get by (cases "k = to_string (NetV4 net)") auto
    then show ?thesis by auto
  qed
  show "store_keyed to_string store'"
    using keyed ok get unfolding store_keyed_def by (auto simp: store' claim map_ok split: if_splits)
  show "hm_get store k = Some d \<Longrightarrow> hm_get store' k = Some d"
    using fresh(1) by (auto simp: get)
qed

section \<open>A concrete network text\<close>

definition net_text :: "IpNet \<Rightarrow> string" where
  "net_text n =
     (case n of
        NetV4 m \<Rightarrow> show_ipv4 (net_addr m) @ ''/'' @ decimal (prefix_len m)
      | NetV6 a p \<Rightarrow> '':'' @ decimal (unat a) @ ''/'' @ decimal p)"

lemma show_ipv4_inj: "show_ipv4 a = show_ipv4 b \<Longrightarrow> a = b"
  by (metis option.inject parse_show_ipv4)

lemma sep_split:
  "c \<notin> set xs \<Longrightarrow> c \<notin> set ys \<Longrightarrow> xs @ c # us = ys @ c # vs \<Longrightarrow> xs = ys \<and> us = vs"
  by (induction xs arbitrary: ys) (auto simp: Cons_eq_append_conv append_eq_Cons_conv)

lemma net_text_inj: "inj net_text"
proof
  fix a b assume eq: "net_text a = net_text b"
  have dec: "CHR ''/'' \<notin> set (decimal n)" "CHR '':'' \<notin> set (decimal n)" for n
    by (rule decimal_no_sep, simp add: is_ascii_digit_def byte_def)+
  have addr: "CHR ''/'' \<notin> set (show_ipv4 x)" "CHR '':'' \<notin> set (show_ipv4 x)" for x
    using show_ipv4_chars by (force simp: is_ascii_digit_def byte_def)+
  have colon: "CHR '':'' \<in> set (net_text n) \<longleftrightarrow> (\<exists>x p. n = NetV6 x p)" for n
    by (cases n) (auto simp: net_text_def dec addr)
  show "a = b"
  proof (cases a)
    case (NetV4 m)
    then obtain m' where b: "b = NetV4 m'" using colon[of a] colon[of b] eq by (cases b) auto
    have "show_ipv4 (net_addr m) = show_ipv4 (net_addr m') \<and> decimal (prefix_len m) = decimal (prefix_len m')"
      using eq by (intro sep_split[OF addr(1) addr(1)]) (simp add: net_text_def NetV4 b)
    then show ?thesis using show_ipv4_inj decimal_inj by (auto simp: NetV4 b intro: Ipv4Net.expand)
  next
    case (NetV6 x p)
    then obtain x' p' where b: "b = NetV6 x' p'" using colon[of a] colon[of b] eq by auto
    have "decimal (unat x) = decimal (unat x') \<and> decimal p = decimal p'"
      using eq by (intro sep_split[OF dec(1) dec(1)]) (simp add: net_text_def NetV6 b)
    then show ?thesis using decimal_inj by (metis NetV6 b word_unat_eq_iff)
  qed
qed

text \<open>Node \<open>a\<close> holds 10.42.1.0/24 and, junior, 10.42.2.0/24; node \<open>b\<close> holds 10.42.3.0/24.\<close>

definition sample_claims :: ClaimStore where
  "sample_claims =
     map (\<lambda>c. (net_text (sc_cidr c), c))
      [\<lparr>sc_cidr = NetV4 (Ipv4Net 0x0A2A0200 24), sc_owner_node_id = ''a'', sc_site_name = None,
             sc_claimed_at = now_hlc 7 ''a''\<rparr>,
       \<lparr>sc_cidr = NetV4 (Ipv4Net 0x0A2A0100 24), sc_owner_node_id = ''a'', sc_site_name = None,
             sc_claimed_at = now_hlc 5 ''a''\<rparr>,
       \<lparr>sc_cidr = NetV4 (Ipv4Net 0x0A2A0300 24), sc_owner_node_id = ''b'', sc_site_name = None,
             sc_claimed_at = now_hlc 6 ''b''\<rparr>]"

lemma sample_claims_keyed: "store_keyed net_text sample_claims"
proof -
  have ok: "hm_ok sample_claims"
    by (simp add: hm_ok_def sample_claims_def inj_eq[OF net_text_inj])
  then show ?thesis
    unfolding store_keyed_def hm_get_iff[OF ok] by (auto simp: sample_claims_def)
qed

lemma sample_claims_own: "own_claims std_network ''a'' sample_claims \<noteq> {}"
proof -
  let ?c = "\<lparr>sc_cidr = NetV4 (Ipv4Net 0x0A2A0100 24), sc_owner_node_id = ''a'', sc_site_name = None,
             sc_claimed_at = now_hlc 5 ''a''\<rparr>"
  have "hm_ok sample_claims" using sample_claims_keyed by (simp add: store_keyed_def)
  then have "hm_get sample_claims (net_text (sc_cidr ?c)) = Some ?c"
    by (simp add: hm_get_iff sample_claims_def)
  moreover have "client_net std_network ?c \<noteq> None"
    by (simp add: client_net_def in_backhaul_block_def std_network_def net_first_def net_size_def
        BACKHAUL_BLOCK_def octet_def)
  ultimately show ?thesis unfolding own_claims_def by force
qed

section \<open>Properties\<close>

text \<open>C4. The claim manager establishes one client subnet per node. From any well-keyed claim store
  it returns without a panic and the node ends up holding exactly one client claim, announced and
  installed as the gateway: the most senior of those it held, unchanged (its extra claims are
  dropped), or, holding none, a fresh one on the largest block of the mesh space, /24 or smaller,
  that is disjoint from every other node's client claim; it holds none only when no such block is
  left. No other node's claim and no backhaul claim is touched, in particular the fresh claim
  overwrites nothing.\<close>

theorem claim_and_publish_establishes:
  assumes laws: "ipnet_laws network contains" and inj: "inj to_string" and keyed: "store_keyed to_string store"
  shows "\<exists>store' effs.
    claim_and_publish network contains blake3 to_string clock store self_id = Inr (store', effs) \<and>
    store_keyed to_string store' \<and>
    (\<forall>k c. (k, c) \<notin> own_claims network self_id store \<longrightarrow> hm_get store k = Some c \<longrightarrow> hm_get store' k = Some c) \<and>
    (if own_claims network self_id store \<noteq> {}
     then \<exists>net c. (to_string (NetV4 net), c) \<in> own_claims network self_id store \<and>
            (\<forall>k' c'. (k', c') \<in> own_claims network self_id store \<longrightarrow> sc_claimed_at c \<le> sc_claimed_at c') \<and>
            holds_client_claim network to_string self_id store' effs net c
     else (\<exists>net c. best_fit (others_client_nets network store self_id) DEFAULT_MESH_SPACE 24 (Some net) \<and>
             sc_owner_node_id c = self_id \<and>
             holds_client_claim network to_string self_id store' effs net c) \<or>
          (best_fit (others_client_nets network store self_id) DEFAULT_MESH_SPACE 24 None \<and>
             store' = store \<and> effs = []))"
proof -
  obtain keep extras foreign where part: "partition_claims network store self_id = (keep, extras, foreign)"
    by (rule prod_cases3)
  note spec = partition_claims_spec[OF keyed inj part]
  show ?thesis
  proof (cases keep)
    case (Some p)
    obtain net c where p: "p = (net, c)" by fastforce
    note sp = spec(3)[OF Some[unfolded p]]
    then have ne: "own_claims network self_id store \<noteq> {}" by blast
    obtain store' effs where
      "claim_and_publish network contains blake3 to_string clock store self_id = Inr (store', effs)"
      "holds_client_claim network to_string self_id store' effs net c" "store_keyed to_string store'"
      "\<forall>k d. (k, d) \<notin> own_claims network self_id store \<longrightarrow> hm_get store k = Some d \<longrightarrow> hm_get store' k = Some d"
      using claim_and_publish_held[OF inj keyed part[unfolded Some p], of contains blake3 clock] by blast
    then show ?thesis
      using sp ne by (intro exI[of _ store'] exI[of _ effs]) (simp only: simp_thms if_True, blast)
  next
    case None
    then have none: "own_claims network self_id store = {}" "extras = []" using spec(2) by blast+
    let ?foreign = "others_client_nets network store self_id"
    note fo = partition_claims_foreign[OF part]
    have len: "prefix_len DEFAULT_MESH_SPACE \<le> 24" by (simp add: DEFAULT_MESH_SPACE_def)
    obtain r where r: "pick_subnet_or_smaller network contains blake3 self_id ?foreign DEFAULT_MESH_SPACE 24 = Inr r"
      "best_fit ?foreign DEFAULT_MESH_SPACE 24 r"
      using pick_or_smaller_fits[OF laws len, of blake3 self_id ?foreign] by auto
    note unf = claim_and_publish_def part prod.case none fold_simps id_apply None option.case fo CLIENT_PREFIX_LEN_def r(1) sum.case
    show ?thesis
    proof (cases r)
      case None
      then show ?thesis using r(2) keyed none(1) by (simp add: unf)
    next
      case (Some net)
      let ?key = "to_string (NetV4 net)"
      let ?c = "\<lparr>sc_cidr = NetV4 net, sc_owner_node_id = self_id, sc_site_name = None,
                  sc_claimed_at = now_hlc (clock ?key) self_id\<rparr>"
      note fr = claim_and_publish_fresh[OF laws inj keyed none(1) r(2)[unfolded Some] refl refl,
          where t = "clock (to_string (NetV4 net))"]
      have "claim_and_publish network contains blake3 to_string clock store self_id =
          Inr (hm_insert ?key ?c store, [Gossip (SubnetClaimUpdate ?key ?c)] @ hold_net network net)"
        by (simp add: unf Some Let_def)
      moreover have "holds_client_claim network to_string self_id (hm_insert ?key ?c store)
          ([Gossip (SubnetClaimUpdate ?key ?c)] @ hold_net network net) net ?c"
        using fr(1) by (simp add: holds_client_claim_def hold_net_def client_gateway_addr_def)
      moreover have "sc_owner_node_id ?c = self_id" by simp
      ultimately show ?thesis
        using fr(2,3) none(1) r(2)[unfolded Some]
        by (intro exI[of _ "hm_insert ?key ?c store"] exI[of _ "[Gossip (SubnetClaimUpdate ?key ?c)] @ hold_net network net"])
          (simp only: simp_thms if_False, blast)
    qed
  qed
qed

text \<open>Witness of C4: a node that holds two subnets and shares the store with a peer; the text of a
  network is its usual notation for IPv4.\<close>

theorem claim_and_publish_establishes_witness:
  "\<exists>store' effs net c.
     claim_and_publish std_network std_contains (\<lambda>_. replicate 32 0) net_text (\<lambda>_. 9) sample_claims ''a'' =
       Inr (store', effs) \<and>
     holds_client_claim std_network net_text ''a'' store' effs net c"
  using claim_and_publish_establishes[OF std_ipnet_laws net_text_inj sample_claims_keyed,
      of "\<lambda>_. replicate 32 0" "\<lambda>_. 9" "''a''"] sample_claims_own by auto

lemma pick_backhaul_avoids_taken:
  assumes none: "backhaul_claims_of network store self_id = []"
    and ex: "\<exists>k<64. backhaul_addr_salted blake3 self_id (of_nat k) \<notin> set (taken_backhaul_addrs network store self_id)"
  shows "pick_backhaul_addr network blake3 store self_id \<notin> set (taken_backhaul_addrs network store self_id)"
proof -
  let ?taken = "taken_backhaul_addrs network store self_id"
  let ?found = "find (\<lambda>a. \<not> List.member ?taken a)
      (map (\<lambda>k. backhaul_addr_salted blake3 self_id (of_nat k)) [0..<64])"
  have "?found \<noteq> None" using ex by (auto simp: find_None_iff List.member_iff)
  then obtain a where a: "?found = Some a" by blast
  then have "pick_backhaul_addr network blake3 store self_id = a"
    by (simp add: pick_backhaul_addr_def senior_backhaul_addr_def none BACKHAUL_PICK_ATTEMPTS_def)
  then show ?thesis using a by (auto simp: find_Some_iff List.member_iff)
qed

text \<open>The backhaul address of a node: a node that holds a backhaul claim reuses the address of
  the most senior one; otherwise it takes the first of its 64 salted candidates that no other node
  has claimed as a /32, falling back to its plain derivation only when all are taken. The address
  it picks is then either unclaimed by others, or one on which the merge decides. The hint peers
  dial agrees with the pick whenever the node's own claim is known.\<close>

theorem pick_backhaul_addr_avoids:
  assumes a: "a = pick_backhaul_addr network blake3 store self_id"
  shows "(backhaul_claims_of network store self_id \<noteq> [] \<longrightarrow>
            (\<exists>c\<in>set (map snd store). \<exists>n. sc_owner_node_id c = self_id \<and> sc_cidr c = NetV4 n \<and>
               in_backhaul_block network n \<and> a = net_addr n \<and>
               (\<forall>d\<in>set (backhaul_claims_of network store self_id). sc_claimed_at c \<le> sc_claimed_at d)) \<and>
            peer_backhaul_hint network blake3 store self_id = a) \<and>
         (backhaul_claims_of network store self_id = [] \<longrightarrow>
            (\<exists>k. a = backhaul_addr_salted blake3 self_id k) \<and>
            ((\<exists>k<64. backhaul_addr_salted blake3 self_id (of_nat k) \<notin> set (taken_backhaul_addrs network store self_id)) \<longrightarrow>
               a \<notin> set (taken_backhaul_addrs network store self_id)) \<and>
            (backhaul_addr blake3 self_id \<notin> set (taken_backhaul_addrs network store self_id) \<longrightarrow>
               a = backhaul_addr blake3 self_id))"
proof (intro conjI impI)
  assume "backhaul_claims_of network store self_id \<noteq> []"
  then obtain c cs where cc: "backhaul_claims_of network store self_id = c # cs" by (cases "backhaul_claims_of network store self_id") auto
  then have mem: "c \<in> set (backhaul_claims_of network store self_id)" by simp
  then have c: "c \<in> set (map snd store)" "sc_owner_node_id c = self_id" "backhaul_net network c \<noteq> None"
    by (auto simp: backhaul_claims_of_def)
  then obtain n where n: "sc_cidr c = NetV4 n" "in_backhaul_block network n"
    by (auto simp: backhaul_net_def split: IpNet.splits if_splits)
  have sen: "senior_backhaul_addr network store self_id = Some (net_addr n)"
    by (simp add: senior_backhaul_addr_def cc n)
  have "sorted (map sc_claimed_at (c # cs))" unfolding cc[symmetric] backhaul_claims_of_def by simp
  then have "\<forall>d\<in>set (c # cs). sc_claimed_at c \<le> sc_claimed_at d" by auto
  then show "\<exists>c\<in>set (map snd store). \<exists>n. sc_owner_node_id c = self_id \<and> sc_cidr c = NetV4 n \<and>
      in_backhaul_block network n \<and> a = net_addr n \<and>
      (\<forall>d\<in>set (backhaul_claims_of network store self_id). sc_claimed_at c \<le> sc_claimed_at d)"
    using c n by (intro bexI[of _ c] exI[of _ n]) (auto simp: a pick_backhaul_addr_def sen cc)
  show "peer_backhaul_hint network blake3 store self_id = a"
    by (simp add: a pick_backhaul_addr_def peer_backhaul_hint_def sen)
next
  assume none: "backhaul_claims_of network store self_id = []"
  let ?cand = "\<lambda>k. backhaul_addr_salted blake3 self_id (of_nat k)"
  let ?taken = "taken_backhaul_addrs network store self_id"
  let ?found = "find (\<lambda>a. \<not> List.member ?taken a) (map ?cand [0..<64])"
  have pick: "a = (case ?found of Some a \<Rightarrow> a | None \<Rightarrow> backhaul_addr blake3 self_id)"
    by (simp add: a pick_backhaul_addr_def senior_backhaul_addr_def none BACKHAUL_PICK_ATTEMPTS_def)
  have zero: "?cand 0 = backhaul_addr blake3 self_id" by (simp add: backhaul_addr_def)
  show "\<exists>k. a = backhaul_addr_salted blake3 self_id k"
  proof (cases ?found)
    case (Some b)
    then have "b = a" using pick by simp
    then show ?thesis using Some by (auto simp: find_Some_iff)
  qed (use pick in \<open>auto simp: backhaul_addr_def\<close>)
  show "a \<notin> set ?taken" if "\<exists>k<64. ?cand k \<notin> set ?taken"
    unfolding a by (rule pick_backhaul_avoids_taken[OF none that])
  show "a = backhaul_addr blake3 self_id" if "backhaul_addr blake3 self_id \<notin> set ?taken"
    using that zero unfolding pick by (simp add: upt_rec[of 0] List.member_iff del: upt_Suc)
qed

text \<open>Example: a node without claims in an empty store.\<close>

theorem pick_backhaul_addr_avoids_witness:
  "pick_backhaul_addr std_network (\<lambda>_. replicate 32 0) [] ''a'' = backhaul_addr (\<lambda>_. replicate 32 0) ''a''"
  using pick_backhaul_addr_avoids[of _ std_network "\<lambda>_. replicate 32 0" "[]" "''a''", OF refl]
  by (simp add: backhaul_claims_of_def taken_backhaul_addrs_def List.map_filter_def)

end
