(* ===== verification/Daemon.thy ===== *)
theory Daemon
  imports Persist Claims
begin

text \<open>
  The gossip loop of the daemon: \<open>GossipSync::run\<close> of \<open>crdt/sync.rs\<close> and the handler that
  \<open>bin/mjolnir-meshd.rs\<close> passes to it, over one record of all replicated books. The handler tries
  the lanes in the order of the code, each with an early return, and ends in the claim lane.

  Parameters: \<open>decode\<close> (postcard), \<open>network\<close> of the CIDR crate, and \<open>has_lookup\<close>, whether an
  address lookup was configured. Each received payload carries the reading of the monotonic clock
  at its handling. Effects are listed in the order of the code; \<open>run_effects\<close> executes those on
  files with the writers of \<open>Persist\<close>.
\<close>

section \<open>The receive loop\<close>

datatype GossipError = Encode string | Decode string | Transport string | Closed

datatype RunEnd =
    RunOk                  \<comment> \<open>the transport was closed\<close>
  | RunErr GossipError     \<comment> \<open>the transport failed\<close>
  | RunExited int          \<comment> \<open>the handler ended the process\<close>
  | RunWaiting             \<comment> \<open>waiting for the next payload\<close>

fun sync_run ::
  "('p \<Rightarrow> 'g option) \<Rightarrow> ('t \<Rightarrow> 's \<Rightarrow> 'g \<Rightarrow> 's \<times> int option) \<Rightarrow> 's \<Rightarrow>
   ('t \<times> (GossipError + 'p)) list \<Rightarrow> 's \<times> RunEnd" where
  "sync_run decode on_message s [] = (s, RunWaiting)"
| "sync_run decode on_message s ((t, received) # rest) =
     (case received of
        Inl Closed \<Rightarrow> (s, RunOk)
      | Inl e \<Rightarrow> (s, RunErr e)
      | Inr payload \<Rightarrow>
          (case decode payload of
             None \<Rightarrow> sync_run decode on_message s rest
           | Some msg \<Rightarrow>
               (case on_message t s msg of
                  (s', Some code) \<Rightarrow> (s', RunExited code)
                | (s', None) \<Rightarrow> sync_run decode on_message s' rest)))"

text \<open>\<open>GossipSync::publish\<close>: encode, then broadcast.\<close>

definition sync_publish :: "('g \<Rightarrow> string + 'p) \<Rightarrow> ('p \<Rightarrow> GossipError option) \<Rightarrow> 'g \<Rightarrow> GossipError + 'p" where
  "sync_publish encode transport msg =
     (case encode msg of
        Inl e \<Rightarrow> Inl (Encode e)
      | Inr payload \<Rightarrow> (case transport payload of Some e \<Rightarrow> Inl e | None \<Rightarrow> Inr payload))"

section \<open>The handler\<close>

record Node =
  nd_liveness :: LivenessTracker
  nd_addr_book :: AddrBook
  nd_user_book :: UserBook
  nd_node_names :: NodeNameBook
  nd_services :: ServiceBook
  nd_services_v2 :: ServiceStateV2
  nd_leased :: LeasedNameBook
  nd_claims :: ClaimStore

datatype Effect =
    PersistAddrBook AddrBook
  | FeedAddrLookup PeerAddrEntry
  | PersistUserBook UserBook
  | PersistNodeNameBook NodeNameBook
  | PersistServiceBook ServiceBook
  | PersistServiceStateV2 ServiceStateV2
  | PersistLeasedNames LeasedNameBook
  | PersistClaimsFile ClaimStore
  | SendReclaim Ipv4Net

text \<open>The arms, in the order of the code.\<close>

definition liveness_arm :: "u64 \<Rightarrow> LivenessTracker \<Rightarrow> GossipMessage \<Rightarrow> LivenessTracker" where
  "liveness_arm now lv msg =
     (case msg of
        LivenessBeacon node_id inc ctr egress \<Rightarrow>
          fst (observe_with_egress lv node_id inc ctr egress now)
      | _ \<Rightarrow> lv)"

text \<open>The arms that take several steps: the v2 service lane, the leased names and the claim store.\<close>

definition service_v2_arm :: "string \<Rightarrow> Node \<Rightarrow> GossipMessage \<Rightarrow> Node \<times> Effect list \<times> int option" where
  "service_v2_arm me n msg =
     (let st = service_gossip me (nd_services_v2 n) msg
      in (n\<lparr>nd_services_v2 := st\<rparr>, [PersistServiceStateV2 st], None))"

definition leased_arm :: "Node \<Rightarrow> GossipMessage \<Rightarrow> Node \<times> Effect list \<times> int option" where
  "leased_arm n msg =
     (let b = leased_gossip (nd_leased n) msg
      in (n\<lparr>nd_leased := b\<rparr>, [PersistLeasedNames b], None))"

definition claim_arm ::
  "(Ipv4Net \<Rightarrow> ipv4) \<Rightarrow> string \<Rightarrow> Node \<Rightarrow> GossipMessage \<Rightarrow> Node \<times> Effect list \<times> int option" where
  "claim_arm network me n msg =
     (case apply_subnet_message (nd_claims n) msg me of
        (s, None) \<Rightarrow> (n\<lparr>nd_claims := s\<rparr>, [], None)
      | (s, Some lost) \<Rightarrow>
          if in_backhaul_block network lost
          then (n\<lparr>nd_claims := s\<rparr>, [PersistClaimsFile s], Some EXIT_BACKHAUL_COLLISION)
          else (n\<lparr>nd_claims := s\<rparr>, [SendReclaim lost], None))"

definition dispatch ::
  "(Ipv4Net \<Rightarrow> ipv4) \<Rightarrow> string \<Rightarrow> bool \<Rightarrow> u64 \<Rightarrow> Node \<Rightarrow> GossipMessage \<Rightarrow> Node \<times> Effect list \<times> int option" where
  "dispatch network me has_lookup now n msg =
     (case msg of
        LivenessBeacon _ _ _ _ \<Rightarrow> (n\<lparr>nd_liveness := liveness_arm now (nd_liveness n) msg\<rparr>, [], None)
      | PeerAddrUpdate _ _ \<Rightarrow>
          (case apply_peer_addr_message (nd_addr_book n) msg me of
             (b, None) \<Rightarrow> (n\<lparr>nd_addr_book := b\<rparr>, [], None)
           | (b, Some entry) \<Rightarrow>
               (n\<lparr>nd_addr_book := b\<rparr>,
                PersistAddrBook b # (if has_lookup then [FeedAddrLookup entry] else []), None))
      | UserUpdate _ _ \<Rightarrow>
          (case apply_user_message (nd_user_book n) msg of
             (b, None) \<Rightarrow> (n\<lparr>nd_user_book := b\<rparr>, [], None)
           | (b, Some _) \<Rightarrow> (n\<lparr>nd_user_book := b\<rparr>, [PersistUserBook b], None))
      | NodeNameAnnounce _ _ \<Rightarrow>
          (case apply_node_name_message (nd_node_names n) msg me of
             (b, None) \<Rightarrow> (n\<lparr>nd_node_names := b\<rparr>, [], None)
           | (b, Some _) \<Rightarrow> (n\<lparr>nd_node_names := b\<rparr>, [PersistNodeNameBook b], None))
      | ServiceUpdate _ _ \<Rightarrow>
          (case apply_service_message (nd_services n) msg of
             (b, None) \<Rightarrow> (n\<lparr>nd_services := b\<rparr>, [], None)
           | (b, Some _) \<Rightarrow> (n\<lparr>nd_services := b\<rparr>, [PersistServiceBook b], None))
      | ServicePublishV2 _ _ \<Rightarrow> service_v2_arm me n msg
      | ServiceUnpublishV2 _ _ _ \<Rightarrow> service_v2_arm me n msg
      | LeasedNamePublish _ _ \<Rightarrow> leased_arm n msg
      | _ \<Rightarrow> claim_arm network me n msg)"

lemmas dispatch_arms = dispatch_def service_v2_arm_def leased_arm_def claim_arm_def

text \<open>The spawned task: the loop over the node and the log of its effects.\<close>

definition on_message ::
  "(Ipv4Net \<Rightarrow> ipv4) \<Rightarrow> string \<Rightarrow> bool \<Rightarrow> u64 \<Rightarrow> Node \<times> Effect list \<Rightarrow> GossipMessage \<Rightarrow>
   (Node \<times> Effect list) \<times> int option" where
  "on_message network me has_lookup now s msg =
     (case s of (n, log) \<Rightarrow>
        (case dispatch network me has_lookup now n msg of (n', effs, code) \<Rightarrow> ((n', log @ effs), code)))"

definition gossip_task ::
  "(Ipv4Net \<Rightarrow> ipv4) \<Rightarrow> ('p \<Rightarrow> GossipMessage option) \<Rightarrow> string \<Rightarrow> bool \<Rightarrow> Node \<Rightarrow>
   (u64 \<times> (GossipError + 'p)) list \<Rightarrow> (Node \<times> Effect list) \<times> RunEnd" where
  "gossip_task network decode me has_lookup n rs =
     sync_run decode (on_message network me has_lookup) (n, []) rs"

section \<open>The effects on files, and a restart\<close>

text \<open>The postcard codec of each state file.\<close>

record Codecs =
  enc_addr :: "AddrBook \<Rightarrow> bytes option"           dec_addr :: "bytes \<Rightarrow> AddrBook option"
  enc_users :: "UserBook \<Rightarrow> bytes option"          dec_users :: "bytes \<Rightarrow> UserBook option"
  enc_names :: "NodeNameBook \<Rightarrow> bytes option"      dec_names :: "bytes \<Rightarrow> NodeNameBook option"
  enc_svcs :: "ServiceBook \<Rightarrow> bytes option"        dec_svcs :: "bytes \<Rightarrow> ServiceBook option"
  enc_v2 :: "ServiceStateV2 \<Rightarrow> bytes option"       dec_v2 :: "bytes \<Rightarrow> ServiceStateV2 option"
  enc_leased :: "LeasedNameBook \<Rightarrow> bytes option"   dec_leased :: "bytes \<Rightarrow> LeasedNameBook option"
  enc_claims :: "ClaimStore \<Rightarrow> bytes option"       dec_claims :: "bytes \<Rightarrow> ClaimStore option"

definition run_effect :: "Codecs \<Rightarrow> IoEnv \<Rightarrow> path \<Rightarrow> Effect \<Rightarrow> FileSys \<Rightarrow> FileSys" where
  "run_effect cd env claims_file eff fs =
     (case eff of
        PersistAddrBook b \<Rightarrow> persist_addr_book (enc_addr cd) env b (addr_book_path claims_file) fs
      | PersistUserBook b \<Rightarrow> persist_user_book (enc_users cd) env b (user_book_path claims_file) fs
      | PersistNodeNameBook b \<Rightarrow> persist_node_name_book (enc_names cd) env b (node_name_book_path claims_file) fs
      | PersistServiceBook b \<Rightarrow> persist_service_book (enc_svcs cd) env b (service_book_path claims_file) fs
      | PersistServiceStateV2 st \<Rightarrow>
          persist_service_state_v2 (enc_v2 cd) env st (service_book_v2_path claims_file) fs
      | PersistLeasedNames b \<Rightarrow> persist_leased_names (enc_leased cd) env b (leased_names_path claims_file) fs
      | PersistClaimsFile s \<Rightarrow> persist_claims (enc_claims cd) env s claims_file fs
      | FeedAddrLookup _ \<Rightarrow> fs
      | SendReclaim _ \<Rightarrow> fs)"

definition run_effects :: "Codecs \<Rightarrow> IoEnv \<Rightarrow> path \<Rightarrow> Effect list \<Rightarrow> FileSys \<Rightarrow> FileSys" where
  "run_effects cd env claims_file effs fs = fold (run_effect cd env claims_file) effs fs"

text \<open>The books a starting daemon restores; the liveness tracker starts empty.\<close>

definition boot :: "Codecs \<Rightarrow> IoEnv \<Rightarrow> path \<Rightarrow> u64 \<Rightarrow> u64 \<Rightarrow> FileSys \<Rightarrow> Node" where
  "boot cd env claims_file stale_ms expiry_ms fs =
     \<lparr>nd_liveness = tracker_new stale_ms expiry_ms,
      nd_addr_book = load_addr_book (dec_addr cd) env fs (addr_book_path claims_file),
      nd_user_book = load_user_book (dec_users cd) env fs (user_book_path claims_file),
      nd_node_names = load_node_name_book (dec_names cd) env fs (node_name_book_path claims_file),
      nd_services = load_service_book (dec_svcs cd) env fs (service_book_path claims_file),
      nd_services_v2 = load_service_state_v2 (dec_v2 cd) env fs (service_book_v2_path claims_file),
      nd_leased = load_leased_names (dec_leased cd) env fs (leased_names_path claims_file),
      nd_claims = load_claims (dec_claims cd) env fs claims_file\<rparr>"

section \<open>The receive loop delivers what it can decode\<close>

text \<open>What reaches the handler: the decodable payloads before the transport ends.\<close>

fun delivered :: "('p \<Rightarrow> 'g option) \<Rightarrow> ('t \<times> (GossipError + 'p)) list \<Rightarrow> ('t \<times> 'g) list" where
  "delivered decode [] = []"
| "delivered decode ((t, r) # rest) =
     (case r of
        Inl _ \<Rightarrow> []
      | Inr payload \<Rightarrow> (case decode payload of None \<Rightarrow> [] | Some g \<Rightarrow> [(t, g)]) @ delivered decode rest)"

text \<open>The loop folds the handler over what is delivered, all of it unless a message ends the process;
  then that message is the last one handled.\<close>

lemma sync_run_delivers:
  assumes "sync_run decode h s rs = (s', end)"
  shows "\<exists>ms rest. delivered decode rs = ms @ rest \<and> s' = foldl (\<lambda>s (t, g). fst (h t s g)) s ms \<and>
    (case end of
       RunExited code \<Rightarrow>
         \<exists>pre t g. ms = pre @ [(t, g)] \<and> snd (h t (foldl (\<lambda>s (t, g). fst (h t s g)) s pre) g) = Some code
     | _ \<Rightarrow> rest = [])"
  using assms
proof (induction decode h s rs arbitrary: s' rule: sync_run.induct)
  case (2 decode h s t received rest)
  show ?case
  proof (cases received)
    case (Inl e)
    with 2 show ?thesis by (cases e) auto
  next
    case (Inr p)
    show ?thesis
    proof (cases "decode p")
      case None
      with Inr 2 show ?thesis by simp
    next
      case (Some g)
      obtain s1 code where h: "h t s g = (s1, code)" by fastforce
      show ?thesis
      proof (cases code)
        case None
        obtain ms r where "delivered decode rest = ms @ r"
          "s' = foldl (\<lambda>s (t, g). fst (h t s g)) s1 ms"
          "case end of RunExited code \<Rightarrow>
             \<exists>pre t g. ms = pre @ [(t, g)] \<and> snd (h t (foldl (\<lambda>s (t, g). fst (h t s g)) s1 pre) g) = Some code
           | _ \<Rightarrow> r = []"
          using 2 Inr Some h None by fastforce
        moreover have "\<exists>pre t' g'. (t, g) # ms = pre @ [(t', g')] \<and>
            snd (h t' (foldl (\<lambda>s (t, g). fst (h t s g)) s pre) g') = Some c"
          if ex: "\<exists>pre t' g'. ms = pre @ [(t', g')] \<and>
            snd (h t' (foldl (\<lambda>s (t, g). fst (h t s g)) s1 pre) g') = Some c" for c
        proof -
          obtain pre t' g' where "ms = pre @ [(t', g')]"
            "snd (h t' (foldl (\<lambda>s (t, g). fst (h t s g)) s1 pre) g') = Some c" using ex by blast
          then show ?thesis by (intro exI[of _ "(t, g) # pre"] exI[of _ t'] exI[of _ g']) (simp add: h)
        qed
        ultimately show ?thesis
          using Inr Some h
          by - (rule exI[of _ "(t, g) # ms"], rule exI[of _ r], cases "end", simp_all)
      next
        case (Some c)
        with Inr \<open>decode p = Some g\<close> h 2 show ?thesis
          by - (rule exI[of _ "[(t, g)]"], rule exI[of _ "delivered decode rest"], auto)
      qed
    qed
  qed
qed simp

text \<open>The handler acts on each book as that book's lane and on nothing else.\<close>

lemma dispatch_lanes:
  assumes "dispatch network me has_lookup now n msg = (n', effs, code)"
  shows "nd_liveness n' = liveness_arm now (nd_liveness n) msg"
    and "nd_addr_book n' = fst (apply_peer_addr_message (nd_addr_book n) msg me)"
    and "nd_user_book n' = fst (apply_user_message (nd_user_book n) msg)"
    and "nd_node_names n' = fst (apply_node_name_message (nd_node_names n) msg me)"
    and "nd_services n' = fst (apply_service_message (nd_services n) msg)"
    and "nd_services_v2 n' = service_gossip me (nd_services_v2 n) msg"
    and "nd_leased n' = leased_gossip (nd_leased n) msg"
    and "nd_claims n' = fst (apply_subnet_message (nd_claims n) msg me)"
  using assms
  by (auto simp: dispatch_arms liveness_arm_def lane_apply_defs apply_subnet_message_def
      service_gossip_def leased_gossip_def Let_def
      split: GossipMessage.splits prod.splits option.splits if_splits MergeResult.splits)

lemma on_message_lanes:
  "nd_addr_book (fst (fst (on_message network me lk t s g))) = fst (apply_peer_addr_message (nd_addr_book (fst s)) g me)"
  "nd_user_book (fst (fst (on_message network me lk t s g))) = fst (apply_user_message (nd_user_book (fst s)) g)"
  "nd_node_names (fst (fst (on_message network me lk t s g))) = fst (apply_node_name_message (nd_node_names (fst s)) g me)"
  "nd_services (fst (fst (on_message network me lk t s g))) = fst (apply_service_message (nd_services (fst s)) g)"
  "nd_services_v2 (fst (fst (on_message network me lk t s g))) = service_gossip me (nd_services_v2 (fst s)) g"
  "nd_leased (fst (fst (on_message network me lk t s g))) = leased_gossip (nd_leased (fst s)) g"
  "nd_claims (fst (fst (on_message network me lk t s g))) = fst (apply_subnet_message (nd_claims (fst s)) g me)"
  "nd_liveness (fst (fst (on_message network me lk t s g))) = liveness_arm t (nd_liveness (fst s)) g"
proof -
  obtain n log where s: "s = (n, log)" by fastforce
  obtain n' effs code where d: "dispatch network me lk t n g = (n', effs, code)" by (rule prod_cases3)
  show
    "nd_addr_book (fst (fst (on_message network me lk t s g))) = fst (apply_peer_addr_message (nd_addr_book (fst s)) g me)"
    "nd_user_book (fst (fst (on_message network me lk t s g))) = fst (apply_user_message (nd_user_book (fst s)) g)"
    "nd_node_names (fst (fst (on_message network me lk t s g))) = fst (apply_node_name_message (nd_node_names (fst s)) g me)"
    "nd_services (fst (fst (on_message network me lk t s g))) = fst (apply_service_message (nd_services (fst s)) g)"
    "nd_services_v2 (fst (fst (on_message network me lk t s g))) = service_gossip me (nd_services_v2 (fst s)) g"
    "nd_leased (fst (fst (on_message network me lk t s g))) = leased_gossip (nd_leased (fst s)) g"
    "nd_claims (fst (fst (on_message network me lk t s g))) = fst (apply_subnet_message (nd_claims (fst s)) g me)"
    "nd_liveness (fst (fst (on_message network me lk t s g))) = liveness_arm t (nd_liveness (fst s)) g"
    by (simp_all add: on_message_def s d dispatch_lanes[OF d])
qed

lemma on_message_fold:
  "nd_addr_book (fst (foldl (\<lambda>s (t, g). fst (on_message network me lk t s g)) s ms)) =
     foldl (\<lambda>b g. fst (apply_peer_addr_message b g me)) (nd_addr_book (fst s)) (map snd ms)"
  "nd_user_book (fst (foldl (\<lambda>s (t, g). fst (on_message network me lk t s g)) s ms)) =
     foldl (\<lambda>b g. fst (apply_user_message b g)) (nd_user_book (fst s)) (map snd ms)"
  "nd_node_names (fst (foldl (\<lambda>s (t, g). fst (on_message network me lk t s g)) s ms)) =
     foldl (\<lambda>b g. fst (apply_node_name_message b g me)) (nd_node_names (fst s)) (map snd ms)"
  "nd_services (fst (foldl (\<lambda>s (t, g). fst (on_message network me lk t s g)) s ms)) =
     foldl (\<lambda>b g. fst (apply_service_message b g)) (nd_services (fst s)) (map snd ms)"
  "nd_services_v2 (fst (foldl (\<lambda>s (t, g). fst (on_message network me lk t s g)) s ms)) =
     foldl (service_gossip me) (nd_services_v2 (fst s)) (map snd ms)"
  "nd_leased (fst (foldl (\<lambda>s (t, g). fst (on_message network me lk t s g)) s ms)) =
     foldl leased_gossip (nd_leased (fst s)) (map snd ms)"
  "nd_claims (fst (foldl (\<lambda>s (t, g). fst (on_message network me lk t s g)) s ms)) =
     foldl (\<lambda>b g. fst (apply_subnet_message b g me)) (nd_claims (fst s)) (map snd ms)"
  "nd_liveness (fst (foldl (\<lambda>s (t, g). fst (on_message network me lk t s g)) s ms)) =
     foldl (\<lambda>lv (t, g). liveness_arm t lv g) (nd_liveness (fst s)) ms"
  by (induction ms arbitrary: s) (simp_all add: on_message_lanes split: prod.splits)

text \<open>What one node publishes, another delivers.\<close>

lemma published_delivered:
  assumes "sync_publish encode transport msg = Inr payload" and "\<And>m p. encode m = Inr p \<Longrightarrow> decode p = Some m"
  shows "delivered decode [(t, Inr payload)] = [(t, msg)]"
  using assms by (auto simp: sync_publish_def split: sum.splits option.splits)

section \<open>Restarting after a run\<close>

definition round_trips :: "('a \<Rightarrow> bytes option) \<Rightarrow> (bytes \<Rightarrow> 'a option) \<Rightarrow> 'a \<Rightarrow> bool" where
  "round_trips enc dec x \<longleftrightarrow> (\<exists>b. enc x = Some b \<and> dec b = Some x)"

text \<open>The codec encodes what an effect writes, and decodes it again.\<close>

definition encodes :: "Codecs \<Rightarrow> Effect \<Rightarrow> bool" where
  "encodes cd eff \<longleftrightarrow>
     (case eff of
        PersistAddrBook b \<Rightarrow> round_trips (enc_addr cd) (dec_addr cd) b
      | PersistUserBook b \<Rightarrow> round_trips (enc_users cd) (dec_users cd) b
      | PersistNodeNameBook b \<Rightarrow> round_trips (enc_names cd) (dec_names cd) b
      | PersistServiceBook b \<Rightarrow> round_trips (enc_svcs cd) (dec_svcs cd) b
      | PersistServiceStateV2 st \<Rightarrow> round_trips (enc_v2 cd) (dec_v2 cd) st
      | PersistLeasedNames b \<Rightarrow> round_trips (enc_leased cd) (dec_leased cd) b
      | PersistClaimsFile s \<Rightarrow> round_trips (enc_claims cd) (dec_claims cd) s
      | FeedAddrLookup _ \<Rightarrow> True
      | SendReclaim _ \<Rightarrow> True)"

definition same_books :: "Node \<Rightarrow> Node \<Rightarrow> bool" where
  "same_books m n \<longleftrightarrow>
     nd_addr_book m = nd_addr_book n \<and> nd_user_book m = nd_user_book n \<and>
     nd_node_names m = nd_node_names n \<and> nd_services m = nd_services n \<and>
     nd_services_v2 m = nd_services_v2 n \<and> nd_leased m = nd_leased n"

lemma load_persisted:
  assumes "io_ok env" and "round_trips enc dec x"
  shows "load_state dec d env (persist_state enc env x p fs) p = x"
proof -
  obtain b where "enc x = Some b" "dec b = Some x" using assms(2) by (auto simp: round_trips_def)
  then show ?thesis
    using persist_state_ok[OF assms(1), of enc x b p fs] assms(1) by (simp add: load_state_def io_ok_def)
qed

lemma load_other:
  assumes "claims_file_ok cf" and "p \<in> set (state_files cf)" and "q \<in> set (state_files cf)" and "q \<noteq> p"
  shows "load_state dec d env (persist_state enc env' x p fs) q = load_state dec d env fs q"
  using persist_state_other[OF assms(4), of enc env' x fs] sibling_tmp[OF assms(1,2,3)]
  by (auto simp: load_state_def)

lemma boot_run_effect:
  assumes "io_ok env" and "claims_file_ok cf" and "encodes cd eff"
  shows "boot cd env cf s e (run_effect cd env cf eff fs) =
    (let m = boot cd env cf s e fs
     in case eff of
          PersistAddrBook b \<Rightarrow> m\<lparr>nd_addr_book := b\<rparr>
        | PersistUserBook b \<Rightarrow> m\<lparr>nd_user_book := b\<rparr>
        | PersistNodeNameBook b \<Rightarrow> m\<lparr>nd_node_names := b\<rparr>
        | PersistServiceBook b \<Rightarrow> m\<lparr>nd_services := b\<rparr>
        | PersistServiceStateV2 st \<Rightarrow> m\<lparr>nd_services_v2 := st\<rparr>
        | PersistLeasedNames b \<Rightarrow> m\<lparr>nd_leased := b\<rparr>
        | PersistClaimsFile c \<Rightarrow> m\<lparr>nd_claims := c\<rparr>
        | FeedAddrLookup _ \<Rightarrow> m
        | SendReclaim _ \<Rightarrow> m)"
proof -
  have d: "distinct (state_files cf)" using assms(2) by (simp add: claims_file_ok_def)
  note other = load_other[OF assms(2)] and own = load_persisted[OF assms(1)]
  show ?thesis
    using d assms(3)
    by (cases eff) (simp_all add: Let_def boot_def run_effect_def persist_defs load_defs
        encodes_def other other[OF _ _ not_sym] own state_files_def)
qed

lemma apply_unchanged:
  "apply_peer_addr_message b g me = (b', None) \<Longrightarrow> b' = b"
  "apply_user_message ub g = (ub', None) \<Longrightarrow> ub' = ub"
  "apply_node_name_message nb g me = (nb', None) \<Longrightarrow> nb' = nb"
  "apply_service_message sb g = (sb', None) \<Longrightarrow> sb' = sb"
  by (auto simp: lane_apply_defs split: GossipMessage.splits MergeResult.splits if_splits)

lemma dispatch_claims_file:
  assumes "io_ok env" and "claims_file_ok cf" and "list_all (encodes cd) effs"
    and "dispatch network me lk now n g = (n', effs, Some code)"
  shows "nd_claims (boot cd env cf s e (run_effects cd env cf effs fs)) = nd_claims n'"
  using assms(3,4) boot_run_effect[OF assms(1,2)]
  by (auto simp: dispatch_arms run_effects_def Let_def
      split: GossipMessage.splits prod.splits option.splits if_splits)

lemma dispatch_durable:
  assumes "io_ok env" and "claims_file_ok cf" and "list_all (encodes cd) effs"
    and "same_books (boot cd env cf s e fs) n"
    and "dispatch network me lk now n g = (n', effs, code)"
    and "m = boot cd env cf s e (run_effects cd env cf effs fs)"
  shows "same_books m n'"
  using assms(3,4,5) boot_run_effect[OF assms(1,2)]
  unfolding assms(6)
  by (auto simp: dispatch_arms run_effects_def same_books_def Let_def
      dest!: apply_unchanged[THEN sym] split: GossipMessage.splits prod.splits option.splits if_splits)

lemma log_grows:
  "\<exists>more. snd (foldl (\<lambda>s (t, g). fst (on_message network me lk t s g)) (n, log) ms) = log @ more"
proof (induction ms arbitrary: n log)
  case (Cons m ms)
  obtain t g where m: "m = (t, g)" by fastforce
  obtain n1 effs code where d: "dispatch network me lk t n g = (n1, effs, code)" by (rule prod_cases3)
  from Cons[of n1 "log @ effs"] show ?case by (auto simp: m on_message_def d)
qed simp

lemma run_durable:
  assumes io: "io_ok env" and cf: "claims_file_ok cf"
    and "same_books (boot cd env cf s e (run_effects cd env cf log fs)) n"
    and "(n', log') = foldl (\<lambda>s (t, g). fst (on_message network me lk t s g)) (n, log) ms"
    and "list_all (encodes cd) log'"
  shows "same_books (boot cd env cf s e (run_effects cd env cf log' fs)) n'"
  using assms(3-)
proof (induction ms arbitrary: n log)
  case (Cons m ms)
  obtain t g where m: "m = (t, g)" by fastforce
  obtain n1 effs code where d: "dispatch network me lk t n g = (n1, effs, code)" by (rule prod_cases3)
  have fold: "(n', log') = foldl (\<lambda>s (t, g). fst (on_message network me lk t s g)) (n1, log @ effs) ms"
    using Cons.prems(2) by (simp add: m on_message_def d)
  then obtain more where "log' = (log @ effs) @ more"
    using log_grows[of network me lk n1 "log @ effs" ms] by (metis snd_conv)
  then have "list_all (encodes cd) effs" using Cons.prems(3) by simp
  from dispatch_durable[OF io cf this Cons.prems(1) d refl]
  have "same_books (boot cd env cf s e (run_effects cd env cf (log @ effs) fs)) n1"
    by (simp add: run_effects_def)
  from Cons.IH[OF this fold Cons.prems(3)] show ?case .
qed simp

text \<open>The claim store is written when the process ends over a collision, and only then.\<close>

lemma run_exit_last:
  assumes "gossip_task network decode me lk n rs = ((n', log), RunExited code)"
  obtains pre t g rest m log0 effs where "delivered decode rs = pre @ [(t, g)] @ rest"
    "foldl (\<lambda>s (t, g). fst (on_message network me lk t s g)) (n, []) pre = (m, log0)"
    "dispatch network me lk t m g = (n', effs, Some code)" "log = log0 @ effs"
proof -
  let ?run = "foldl (\<lambda>s (t, g). fst (on_message network me lk t s g))"
  obtain pre t g rest where ms: "delivered decode rs = pre @ [(t, g)] @ rest"
    and end_state: "(n', log) = fst (on_message network me lk t (?run (n, []) pre) g)"
    and exit: "snd (on_message network me lk t (?run (n, []) pre) g) = Some code"
    using sync_run_delivers[OF assms[unfolded gossip_task_def]] by auto
  obtain m log0 where m: "?run (n, []) pre = (m, log0)" by fastforce
  obtain m' effs c where d: "dispatch network me lk t m g = (m', effs, c)" by (rule prod_cases3)
  have "n' = m'" "log = log0 @ effs" "c = Some code"
    using end_state[unfolded m] exit[unfolded m] by (simp_all add: on_message_def d)
  then show thesis using that[OF ms m] d by simp
qed

lemma run_claims_file:
  assumes io: "io_ok env" and cf: "claims_file_ok cf" and cd: "list_all (encodes cd) log"
    and run: "gossip_task network decode me lk n rs = ((n', log), RunExited code)"
  shows "nd_claims (boot cd env cf s e (run_effects cd env cf log fs)) = nd_claims n'"
proof -
  obtain m log0 effs t g where d: "dispatch network me lk t m g = (n', effs, Some code)" "log = log0 @ effs"
    by (rule run_exit_last[OF run]) blast
  then show ?thesis
    using dispatch_claims_file[OF io cf _ d(1), of cd s e "run_effects cd env cf log0 fs"] cd by (simp add: run_effects_def)
qed

section \<open>Losing the backhaul address\<close>

text \<open>A claim message whose key is the text of the network it claims.\<close>

fun keyed_message :: "(IpNet \<Rightarrow> string) \<Rightarrow> GossipMessage \<Rightarrow> bool" where
  "keyed_message to_string (SubnetClaimUpdate cidr entry) \<longleftrightarrow> cidr = to_string (sc_cidr entry)"
| "keyed_message to_string _ \<longleftrightarrow> True"

lemma subnet_keeps_keyed:
  assumes "store_keyed to_string store" and "keyed_message to_string g"
  shows "store_keyed to_string (fst (apply_subnet_message store g me))"
proof (cases g)
  case (SubnetClaimUpdate cidr entry)
  then show ?thesis
    using assms
    by (cases "hm_get store (to_string (sc_cidr entry))")
      (auto simp: store_keyed_def apply_subnet_message_def merge_subnet_claim_cases map_simps map_ok Let_def)
qed (use assms in \<open>auto simp: store_keyed_def apply_subnet_message_def map_simps map_ok split: option.splits if_splits\<close>)

lemma run_keeps_keyed:
  assumes "store_keyed to_string store" and "\<forall>g\<in>set ms. keyed_message to_string g"
  shows "store_keyed to_string (foldl (\<lambda>b g. fst (apply_subnet_message b g me)) store ms)"
  using assms by (induction ms arbitrary: store) (simp_all add: subnet_keeps_keyed)

lemma lost_winner:
  assumes "apply_subnet_message store (SubnetClaimUpdate cidr entry) me = (store', Some lost)"
    and "store_keyed to_string store" and "cidr = to_string (sc_cidr entry)" and "inj to_string"
  shows "\<exists>w. hm_get store' cidr = Some w \<and> sc_owner_node_id w \<noteq> me \<and> sc_cidr w = NetV4 lost"
proof -
  have "hm_get store cidr = Some x \<Longrightarrow> sc_cidr x = sc_cidr entry" for x
    using assms(2-4) unfolding store_keyed_def by (metis injD)
  then show ?thesis
    using assms(1)
    by (cases "hm_get store cidr")
      (auto simp: apply_subnet_message_def merge_subnet_claim_cases map_simps Let_def
        split: if_splits IpNet.splits bool.splits)
qed

lemma dispatch_exit:
  assumes "dispatch network me lk now n g = (n', effs, Some code)"
  shows "\<exists>cidr entry lost. g = SubnetClaimUpdate cidr entry \<and> code = EXIT_BACKHAUL_COLLISION \<and>
    in_backhaul_block network lost \<and> apply_subnet_message (nd_claims n) g me = (nd_claims n', Some lost)"
  using assms
  by (auto simp: dispatch_arms apply_subnet_message_def Let_def
      split: GossipMessage.splits prod.splits option.splits if_splits MergeResult.splits)

lemma won_is_taken:
  assumes "store_keyed to_string store" and "hm_get store k = Some w" and "sc_owner_node_id w \<noteq> me"
    and "sc_cidr w = NetV4 lost" and "in_backhaul_block network lost" and "prefix_len lost = 32"
  shows "net_addr lost \<in> set (taken_backhaul_addrs network store me)"
proof -
  have "(k, w) \<in> set store" using assms(1,2) by (simp add: store_keyed_def hm_get_iff)
  then show ?thesis
    unfolding taken_backhaul_addrs_def set_map_filter
    using assms(3-6) by (force simp: backhaul_net_def)
qed

section \<open>Properties\<close>

text \<open>C6. The lanes do not interfere: whatever arrives, in whatever interleaving and with any
  undecodable payloads in between, each book ends up as its own lane would leave it after the
  decoded messages in their order, all of them when the task ends by a closed or failed transport
  or is still waiting, and otherwise all up to the message that ended the process.\<close>

theorem gossip_task_runs_lanes:
  assumes "gossip_task network decode me has_lookup n rs = ((n', log), end)"
  shows "\<exists>ms rest.
    delivered decode rs = ms @ rest \<and> ((\<nexists>code. end = RunExited code) \<longrightarrow> rest = []) \<and>
    nd_addr_book n' = foldl (\<lambda>b g. fst (apply_peer_addr_message b g me)) (nd_addr_book n) (map snd ms) \<and>
    nd_user_book n' = foldl (\<lambda>b g. fst (apply_user_message b g)) (nd_user_book n) (map snd ms) \<and>
    nd_node_names n' = foldl (\<lambda>b g. fst (apply_node_name_message b g me)) (nd_node_names n) (map snd ms) \<and>
    nd_services n' = foldl (\<lambda>b g. fst (apply_service_message b g)) (nd_services n) (map snd ms) \<and>
    nd_services_v2 n' = foldl (service_gossip me) (nd_services_v2 n) (map snd ms) \<and>
    nd_leased n' = foldl leased_gossip (nd_leased n) (map snd ms) \<and>
    nd_claims n' = foldl (\<lambda>b g. fst (apply_subnet_message b g me)) (nd_claims n) (map snd ms) \<and>
    nd_liveness n' = foldl (\<lambda>lv (t, g). liveness_arm t lv g) (nd_liveness n) ms"
proof -
  obtain ms rest where ms: "delivered decode rs = ms @ rest"
    "(n', log) = foldl (\<lambda>s (t, g). fst (on_message network me has_lookup t s g)) (n, []) ms"
    "(\<nexists>code. end = RunExited code) \<longrightarrow> rest = []"
    using sync_run_delivers[OF assms[unfolded gossip_task_def]] by (cases "end") auto
  have n': "n' = fst (foldl (\<lambda>s (t, g). fst (on_message network me has_lookup t s g)) (n, []) ms)"
    using ms(2) by (metis fst_conv)
  show ?thesis
    by (rule exI[of _ ms], rule exI[of _ rest]) (simp add: n' on_message_fold ms(1,3))
qed

definition empty_node :: Node where
  "empty_node =
     \<lparr>nd_liveness = tracker_new 90000 600000, nd_addr_book = [], nd_user_book = [], nd_node_names = [],
      nd_services = [], nd_services_v2 = empty_services, nd_leased = [], nd_claims = []\<rparr>"

text \<open>Witness of C6: an undecodable payload, then a user record, then the transport closes.\<close>

theorem gossip_task_runs_lanes_witness:
  "\<exists>n' log.
     gossip_task std_network (\<lambda>p. if p = (0 :: nat) then None else Some (UserUpdate ''ada'' (user_at ''ada'' ''Ada'' 1)))
       ''me'' False empty_node [(5, Inr 0), (6, Inr 1), (7, Inl Closed)] = ((n', log), RunOk) \<and>
     nd_user_book n' = [(''ada'', user_at ''ada'' ''Ada'' 1)]"
proof -
  let ?d = "\<lambda>p. if p = (0 :: nat) then None else Some (UserUpdate ''ada'' (user_at ''ada'' ''Ada'' 1))"
  have "snd (gossip_task std_network ?d ''me'' False empty_node [(5, Inr 0), (6, Inr 1), (7, Inl Closed)]) = RunOk"
    by (simp add: gossip_task_def on_message_def dispatch_arms split: prod.splits option.splits)
  then obtain n' log where t:
    "gossip_task std_network ?d ''me'' False empty_node [(5, Inr 0), (6, Inr 1), (7, Inl Closed)] = ((n', log), RunOk)"
    by (metis prod.collapse)
  then show ?thesis
    using gossip_task_runs_lanes[OF t]
    by (auto simp: empty_node_def apply_user_message_def bt_get_def merge_user_def)
qed

text \<open>C11. Restarting restores the books the gossip task writes: when the state files agree with the
  node's books at the start, every write of the run succeeds and the codec round-trips what is written,
  then after any run of the gossip task a daemon booting from the files has the same address, user,
  node-name, service, v2 service (with tombstones and lost names) and leased-name books. The claim
  store is restored if the run ended the process; in other runs the gossip task leaves the claims
  file to the claim manager and the anti-entropy loop.\<close>

theorem restart_restores_books:
  assumes "io_ok env" and "claims_file_ok claims_file"
    and "same_books (boot codecs env claims_file stale_ms expiry_ms fs) n"
    and "gossip_task network decode me has_lookup n rs = ((n', log), end)"
    and "list_all (encodes codecs) log"
  shows "same_books (boot codecs env claims_file stale_ms expiry_ms (run_effects codecs env claims_file log fs)) n' \<and>
    (\<forall>code. end = RunExited code \<longrightarrow>
       nd_claims (boot codecs env claims_file stale_ms expiry_ms (run_effects codecs env claims_file log fs)) = nd_claims n')"
proof -
  obtain ms where ms: "(n', log) = foldl (\<lambda>s (t, g). fst (on_message network me has_lookup t s g)) (n, []) ms"
    using sync_run_delivers[OF assms(4)[unfolded gossip_task_def]] by auto
  have "same_books (boot codecs env claims_file stale_ms expiry_ms (run_effects codecs env claims_file [] fs)) n"
    using assms(3) by (simp add: run_effects_def)
  from run_durable[OF assms(1,2) this ms assms(5)] show ?thesis
    using run_claims_file[OF assms(1,2,5)] assms(4) by blast
qed

text \<open>A codec that knows one user book and one claim store, and an environment without failures.\<close>

definition sample_users :: UserBook where
  "sample_users = [(''ada'', user_at ''ada'' ''Ada'' 1)]"

definition backhaul_claim_at :: "string \<Rightarrow> u64 \<Rightarrow> SubnetClaim" where
  "backhaul_claim_at owner t =
     \<lparr>sc_cidr = NetV4 (Ipv4Net 0x0AFE0001 32), sc_owner_node_id = owner, sc_site_name = None,
      sc_claimed_at = HLC t 0 owner\<rparr>"

definition lost_store :: ClaimStore where
  "lost_store = [(net_text (NetV4 (Ipv4Net 0x0AFE0001 32)), backhaul_claim_at ''b'' 2)]"

definition sample_codecs :: Codecs where
  "sample_codecs =
     \<lparr>enc_addr = \<lambda>_. None, dec_addr = \<lambda>_. None,
      enc_users = (\<lambda>u. if u = sample_users then Some [1] else None),
      dec_users = (\<lambda>b. if b = [1] then Some sample_users else None),
      enc_names = \<lambda>_. None, dec_names = \<lambda>_. None, enc_svcs = \<lambda>_. None, dec_svcs = \<lambda>_. None,
      enc_v2 = \<lambda>_. None, dec_v2 = \<lambda>_. None, enc_leased = \<lambda>_. None, dec_leased = \<lambda>_. None,
      enc_claims = (\<lambda>s. if s = lost_store then Some [2] else None),
      dec_claims = (\<lambda>b. if b = [2] then Some lost_store else None)\<rparr>"

definition io_env_ok :: IoEnv where
  "io_env_ok =
     \<lparr>mkdir_fails = \<lambda>_. False, write_outcome = \<lambda>_. WroteAll, rename_fails = \<lambda>_ _. False,
      read_fails = \<lambda>_. False\<rparr>"

lemma io_env_ok: "io_ok io_env_ok"
  by (simp add: io_ok_def io_env_ok_def)

lemma boot_empty: "same_books (boot sample_codecs io_env_ok cf s e Map.empty) empty_node"
  by (simp add: same_books_def boot_def load_defs load_state_def empty_node_def empty_services_def)

text \<open>Witness of C11: a user record arrives on first boot.\<close>

theorem restart_restores_books_witness:
  "nd_user_book (boot sample_codecs io_env_ok ([''etc''] @ [''claims.state'']) 1 2
     (run_effects sample_codecs io_env_ok ([''etc''] @ [''claims.state''])
        (snd (fst (gossip_task std_network (\<lambda>p :: unit. Some (UserUpdate ''ada'' (user_at ''ada'' ''Ada'' 1)))
           ''me'' False empty_node [(5, Inr ())]))) Map.empty)) = sample_users"
proof -
  let ?t = "gossip_task std_network (\<lambda>p :: unit. Some (UserUpdate ''ada'' (user_at ''ada'' ''Ada'' 1)))
           ''me'' False empty_node [(5, Inr ())]"
  have t: "?t = ((empty_node\<lparr>nd_user_book := sample_users\<rparr>, [PersistUserBook sample_users]), RunWaiting)"
    by (simp add: gossip_task_def on_message_def dispatch_arms apply_user_message_def empty_node_def
        bt_get_def merge_user_def sample_users_def)
  have "list_all (encodes sample_codecs) [PersistUserBook sample_users]"
    by (simp add: encodes_def round_trips_def sample_codecs_def)
  from restart_restores_books[OF io_env_ok default_claims_file_ok[of "[''etc'']"] boot_empty[of _ 1 2] t this]
  show ?thesis by (simp add: t same_books_def)
qed

text \<open>C15. A lost backhaul address is not taken again: the gossip task ends the process only with the
  collision code, after this node's claim on a backhaul address lost to another owner's; the claims
  file then holds the winner's claim, and a daemon restarting from it, holding no other backhaul
  claim, picks a different address as long as one of its candidates is free.\<close>

theorem backhaul_loss_recovers:
  assumes io: "io_ok env" and cf: "claims_file_ok claims_file" and cd: "list_all (encodes codecs) log"
    and inj: "inj to_string" and keyed: "store_keyed to_string (nd_claims n)"
    and msgs: "\<forall>(t, g)\<in>set (delivered decode rs). keyed_message to_string g"
    and run: "gossip_task network decode me has_lookup n rs = ((n', log), RunExited code)"
    and store: "store = nd_claims (boot codecs env claims_file stale_ms expiry_ms (run_effects codecs env claims_file log fs))"
  shows "code = 86 \<and> store = nd_claims n' \<and>
    (\<exists>lost w. in_backhaul_block network lost \<and>
       hm_get store (to_string (NetV4 lost)) = Some w \<and> sc_owner_node_id w \<noteq> me \<and> sc_cidr w = NetV4 lost \<and>
       (prefix_len lost = 32 \<and> backhaul_claims_of network store me = [] \<and>
        (\<exists>k<64. backhaul_addr_salted blake3 me (of_nat k) \<notin> set (taken_backhaul_addrs network store me)) \<longrightarrow>
        pick_backhaul_addr network blake3 store me \<noteq> net_addr lost))"
proof -
  obtain pre t g rest m log0 effs where ms: "delivered decode rs = pre @ [(t, g)] @ rest"
    and m: "foldl (\<lambda>s (t, g). fst (on_message network me has_lookup t s g)) (n, []) pre = (m, log0)"
    and d: "dispatch network me has_lookup t m g = (n', effs, Some code)"
    by (rule run_exit_last[OF run])
  obtain cidr entry lost where g: "g = SubnetClaimUpdate cidr entry" and code: "code = EXIT_BACKHAUL_COLLISION"
    and lost: "in_backhaul_block network lost" and ap: "apply_subnet_message (nd_claims m) g me = (nd_claims n', Some lost)"
    using dispatch_exit[OF d] by blast
  have "nd_claims m = foldl (\<lambda>b g. fst (apply_subnet_message b g me)) (nd_claims n) (map snd pre)"
    using on_message_fold(7)[of network me has_lookup "(n, [])" pre] by (simp add: m)
  moreover have "\<forall>g\<in>set (map snd pre). keyed_message to_string g" using msgs by (auto simp: ms)
  ultimately have km: "store_keyed to_string (nd_claims m)" using run_keeps_keyed[OF keyed] by simp
  have kg: "keyed_message to_string g" using msgs by (auto simp: ms)
  then have ci: "cidr = to_string (sc_cidr entry)" by (simp add: g)
  obtain w where w: "hm_get (nd_claims n') cidr = Some w" "sc_owner_node_id w \<noteq> me" "sc_cidr w = NetV4 lost"
    using lost_winner[OF ap[unfolded g] km ci inj] by blast
  have kn: "store_keyed to_string (nd_claims n')" using subnet_keeps_keyed[OF km kg, of me] by (simp add: ap)
  then have key: "cidr = to_string (NetV4 lost)" using w unfolding store_keyed_def by metis
  have st: "store = nd_claims n'" unfolding store by (rule run_claims_file[OF io cf cd run])
  have "pick_backhaul_addr network blake3 store me \<noteq> net_addr lost"
    if "prefix_len lost = 32" "backhaul_claims_of network store me = []"
      "\<exists>k<64. backhaul_addr_salted blake3 me (of_nat k) \<notin> set (taken_backhaul_addrs network store me)"
    using pick_backhaul_avoids_taken[OF that(2,3)] won_is_taken[OF kn w lost that(1)] by (auto simp: st)
  then show ?thesis using w lost code key st by (auto simp: EXIT_BACKHAUL_COLLISION_def)
qed

text \<open>Witness of C15: node \<open>me\<close> holds 10.254.0.1 since time 5; the claim of \<open>b\<close> since time 2 arrives.\<close>

theorem backhaul_loss_recovers_witness:
  "\<exists>n' log code. gossip_task std_network
       (\<lambda>p :: unit. Some (SubnetClaimUpdate (net_text (NetV4 (Ipv4Net 0x0AFE0001 32))) (backhaul_claim_at ''b'' 2)))
       ''me'' False
       (empty_node\<lparr>nd_claims := [(net_text (NetV4 (Ipv4Net 0x0AFE0001 32)), backhaul_claim_at ''me'' 5)]\<rparr>)
       [(5, Inr ())] = ((n', log), RunExited code) \<and> code = 86 \<and>
     nd_claims (boot sample_codecs io_env_ok ([''etc''] @ [''claims.state'']) 1 2
       (run_effects sample_codecs io_env_ok ([''etc''] @ [''claims.state'']) log Map.empty)) = nd_claims n'"
proof -
  let ?k = "net_text (NetV4 (Ipv4Net 0x0AFE0001 32))"
  let ?n = "empty_node\<lparr>nd_claims := [(?k, backhaul_claim_at ''me'' 5)]\<rparr>"
  let ?d = "\<lambda>p :: unit. Some (SubnetClaimUpdate ?k (backhaul_claim_at ''b'' 2))"
  have less: "rank_less (claim_rank (backhaul_claim_at ''b'' 2)) (claim_rank (backhaul_claim_at ''me'' 5))"
    by (simp add: claim_rank_def backhaul_claim_at_def rank_less_def HLC_less_eval)
  have bh: "in_backhaul_block std_network (Ipv4Net 0x0AFE0001 32)"
    by (simp add: in_backhaul_block_def std_network_def net_first_def net_size_def
        BACKHAUL_BLOCK_def BACKHAUL_PREFIX_LEN_def octet_def)
  have ap: "apply_subnet_message [(?k, backhaul_claim_at ''me'' 5)] (SubnetClaimUpdate ?k (backhaul_claim_at ''b'' 2)) ''me'' =
      (lost_store, Some (Ipv4Net 0x0AFE0001 32))"
    using less by (simp add: apply_subnet_message_def merge_subnet_claim_cases hm_get_def lost_store_def
        backhaul_claim_at_def)
  have t: "gossip_task std_network ?d ''me'' False ?n [(5, Inr ())] =
      ((?n\<lparr>nd_claims := lost_store\<rparr>, [PersistClaimsFile lost_store]), RunExited EXIT_BACKHAUL_COLLISION)"
    by (simp add: gossip_task_def on_message_def dispatch_arms ap bh del: fun_upd_apply)
  have e: "list_all (encodes sample_codecs) [PersistClaimsFile lost_store]"
    by (simp add: encodes_def round_trips_def sample_codecs_def)
  have k: "store_keyed net_text (nd_claims ?n)"
    by (simp add: store_keyed_def hm_ok_def hm_get_def backhaul_claim_at_def)
  have m: "\<forall>(t, g)\<in>set (delivered ?d [(5 :: u64, Inr ())]). keyed_message net_text g"
    by (simp add: backhaul_claim_at_def)
  from backhaul_loss_recovers[OF io_env_ok default_claims_file_ok[of "[''etc'']"] e net_text_inj k m t refl, of 1 2 Map.empty]
  show ?thesis using t by (intro exI conjI) (rule t, simp_all)
qed

end
