(* ===== verification/Tunnels.thy ===== *)
theory Tunnels
  imports Overlay Daemon "HOL-Library.Sublist"
begin

text \<open>
  The tasks of the data plane: the TUN devices of \<open>tun/iface.rs\<close>, the encapsulation loops of \<open>tun/encap.rs\<close>, the inbound queue
  of \<open>tun/overlay.rs\<close>, and in \<open>bin/mjolnir-meshd.rs\<close> the connections that are served (\<open>serve_tunnel\<close>, \<open>serve_overlay_conn\<close>)
  and the gossip transport.

  Parameters: \<open>TunKernel\<close>, what the kernel does for a device (creation, release, the netlink calls), and the answers of an iroh
  connection. A value that a Rust function drops on an early return is released there: dropping the device handle closes it.
  Errors keep their text. Setting up a device is one step of the task that does it.
\<close>

section \<open>Devices\<close>

record ('k, 'h) TunKernel =
  tun_create :: "string \<Rightarrow> nat option \<Rightarrow> 'k \<Rightarrow> 'k \<times> (string + 'h)"
  tun_split :: "'h \<Rightarrow> 'k \<Rightarrow> string + unit"
  tun_drop :: "'h \<Rightarrow> 'k \<Rightarrow> 'k"
  rt_connect :: "'k \<Rightarrow> string + unit"
  rt_link :: "string \<Rightarrow> 'k \<Rightarrow> string + nat option"
  rt_add_address :: "nat \<Rightarrow> IpAddr \<Rightarrow> nat \<Rightarrow> 'k \<Rightarrow> 'k \<times> (string + unit)"
  rt_set_up :: "nat \<Rightarrow> bool \<Rightarrow> 'k \<Rightarrow> 'k \<times> (string + unit)"
  rt_del_link :: "nat \<Rightarrow> 'k \<Rightarrow> 'k \<times> (string + unit)"
  proc_write :: "string \<Rightarrow> string \<Rightarrow> 'k \<Rightarrow> 'k"

datatype IfaceError = Netlink string | Io string | Unsupported

definition TUNNEL_MTU :: nat where
  "TUNNEL_MTU = 1300"

record OverlayLink =
  ol_iface_name :: string
  ol_self_addr :: ipv4
  ol_link_local :: ipv6
  ol_index :: nat

record 'h Tunnel =
  tn_iface_name :: string
  tn_self_addr :: ipv4
  tn_peer_addr :: ipv4
  tn_device :: 'h

definition link_index :: "('k, 'h) TunKernel \<Rightarrow> string \<Rightarrow> 'k \<Rightarrow> IfaceError + nat" where
  "link_index K name k =
     (case rt_connect K k of
        Inl e \<Rightarrow> Inl (Io e)
      | Inr _ \<Rightarrow>
          (case rt_link K name k of
             Inl e \<Rightarrow> Inl (Netlink e)
           | Inr None \<Rightarrow> Inl (Io (''interface '' @ name @ '' not found after creation''))
           | Inr (Some index) \<Rightarrow> Inr index))"

definition netlink_result :: "'k \<times> (string + unit) \<Rightarrow> 'k \<times> (IfaceError + unit)" where
  "netlink_result r = (case r of (k, Inl e) \<Rightarrow> (k, Inl (Netlink e)) | (k, Inr _) \<Rightarrow> (k, Inr ()))"

definition enable_ipv6 :: "('k, 'h) TunKernel \<Rightarrow> string \<Rightarrow> 'k \<Rightarrow> 'k" where
  "enable_ipv6 K name = proc_write K (''/proc/sys/net/ipv6/conf/'' @ name @ ''/disable_ipv6'') ''0''"

definition peer_iface_name :: "string \<Rightarrow> string" where
  "peer_iface_name peer_short_id = take 15 (''mj-peer-'' @ peer_short_id)"

definition tunnel_link_local :: "ipv4 \<Rightarrow> ipv6" where
  "tunnel_link_local self_addr = ipv6_of_segments [0xFE80, 0, 0, 0, 0, 0, 0, ucast (octet self_addr 3)]"

definition configure_tunnel :: "('k, 'h) TunKernel \<Rightarrow> string \<Rightarrow> ipv4 \<Rightarrow> 'k \<Rightarrow> 'k \<times> (IfaceError + unit)" where
  "configure_tunnel K name self_addr k =
     (case link_index K name k of
        Inl e \<Rightarrow> (k, Inl e)
      | Inr index \<Rightarrow>
          (case netlink_result (rt_add_address K index (V4 self_addr) 31 k) of
             (k1, Inl e) \<Rightarrow> (k1, Inl e)
           | (k1, Inr _) \<Rightarrow>
               (case netlink_result (rt_set_up K index False k1) of
                  (k2, Inl e) \<Rightarrow> (k2, Inl e)
                | (k2, Inr _) \<Rightarrow>
                    (fst (rt_add_address K index (V6 (tunnel_link_local self_addr)) 64 (enable_ipv6 K name k2)), Inr ()))))"

text \<open>Every failure after the creation drops the device.\<close>

definition spawn_tunnel ::
  "('k, 'h) TunKernel \<Rightarrow> string \<Rightarrow> ipv4 \<Rightarrow> ipv4 \<Rightarrow> 'k \<Rightarrow> 'k \<times> (IfaceError + 'h Tunnel)" where
  "spawn_tunnel K peer_short_id self_addr peer_addr k =
     (let name = peer_iface_name peer_short_id
      in case tun_create K name (Some TUNNEL_MTU) k of
           (k1, Inl e) \<Rightarrow> (k1, Inl (Io e))
         | (k1, Inr device) \<Rightarrow>
             (case configure_tunnel K name self_addr k1 of
                (k2, Inl e) \<Rightarrow> (tun_drop K device k2, Inl e)
              | (k2, Inr _) \<Rightarrow>
                  (case tun_split K device k2 of
                     Inl e \<Rightarrow> (tun_drop K device k2, Inl (Io e))
                   | Inr _ \<Rightarrow>
                       (k2, Inr \<lparr>tn_iface_name = name, tn_self_addr = self_addr, tn_peer_addr = peer_addr,
                          tn_device = device\<rparr>))))"

definition configure_overlay :: "('k, 'h) TunKernel \<Rightarrow> string \<Rightarrow> ipv4 \<Rightarrow> 'k \<Rightarrow> 'k \<times> (IfaceError + nat)" where
  "configure_overlay K name self_addr k =
     (case link_index K name k of
        Inl e \<Rightarrow> (k, Inl e)
      | Inr index \<Rightarrow>
          (case netlink_result (rt_add_address K index (V4 self_addr) BACKHAUL_PREFIX_LEN k) of
             (k1, Inl e) \<Rightarrow> (k1, Inl e)
           | (k1, Inr _) \<Rightarrow>
               (let k2 = fst (rt_add_address K index (V6 (overlay_link_local self_addr)) 64 (enable_ipv6 K name k1))
                in case netlink_result (rt_set_up K index True k2) of
                     (k3, Inl e) \<Rightarrow> (k3, Inl e)
                   | (k3, Inr _) \<Rightarrow> (k3, Inr index))))"

definition spawn_overlay_tun ::
  "('k, 'h) TunKernel \<Rightarrow> ipv4 \<Rightarrow> string \<Rightarrow> 'k \<Rightarrow> 'k \<times> (IfaceError + 'h \<times> OverlayLink)" where
  "spawn_overlay_tun K self_addr name k =
     (case tun_create K name (Some TUNNEL_MTU) k of
        (k1, Inl e) \<Rightarrow> (k1, Inl (Io e))
      | (k1, Inr device) \<Rightarrow>
          (case configure_overlay K name self_addr k1 of
             (k2, Inl e) \<Rightarrow> (tun_drop K device k2, Inl e)
           | (k2, Inr index) \<Rightarrow>
               (k2, Inr (device, \<lparr>ol_iface_name = name, ol_self_addr = self_addr,
                  ol_link_local = overlay_link_local self_addr, ol_index = index\<rparr>))))"

text \<open>\<open>PeerInterface\<close>: \<open>create\<close> binds the device to a local variable, which is dropped when the function returns.\<close>

record PeerInterface =
  pi_name :: string
  pi_self_addr :: ipv4
  pi_peer_addr :: ipv4

definition peer_interface_create ::
  "('k, 'h) TunKernel \<Rightarrow> string \<Rightarrow> ipv4 \<Rightarrow> ipv4 \<Rightarrow> 'k \<Rightarrow> 'k \<times> (IfaceError + PeerInterface)" where
  "peer_interface_create K peer_short_id self_addr peer_addr k =
     (let name = peer_iface_name peer_short_id
      in case tun_create K name None k of
           (k1, Inl e) \<Rightarrow> (k1, Inl (Io e))
         | (k1, Inr device) \<Rightarrow>
             (case link_index K name k1 of
                Inl e \<Rightarrow> (tun_drop K device k1, Inl e)
              | Inr index \<Rightarrow>
                  (case netlink_result (rt_add_address K index (V4 self_addr) 31 k1) of
                     (k2, Inl e) \<Rightarrow> (tun_drop K device k2, Inl e)
                   | (k2, Inr _) \<Rightarrow>
                       (case netlink_result (rt_set_up K index False k2) of
                          (k3, Inl e) \<Rightarrow> (tun_drop K device k3, Inl e)
                        | (k3, Inr _) \<Rightarrow>
                            (tun_drop K device k3, Inr \<lparr>pi_name = name, pi_self_addr = self_addr, pi_peer_addr = peer_addr\<rparr>)))))"

definition peer_interface_close :: "('k, 'h) TunKernel \<Rightarrow> PeerInterface \<Rightarrow> 'k \<Rightarrow> 'k \<times> (IfaceError + unit)" where
  "peer_interface_close K p k =
     (case rt_connect K k of
        Inl e \<Rightarrow> (k, Inl (Io e))
      | Inr _ \<Rightarrow>
          (case rt_link K (pi_name p) k of
             Inl e \<Rightarrow> (k, Inl (Netlink e))
           | Inr None \<Rightarrow> (k, Inr ())
           | Inr (Some index) \<Rightarrow> netlink_result (rt_del_link K index k)))"

section \<open>What the kernel promises\<close>

text \<open>The interfaces as the kernel shows them. A device that is created is a new interface, one that is dropped is gone,
  and a call on an index changes that interface only.\<close>

record TunIf =
  ti_index :: nat
  ti_addrs :: "(IpAddr \<times> nat) set"
  ti_up :: bool
  ti_multicast :: bool

definition at_index :: "nat \<Rightarrow> (TunIf \<Rightarrow> TunIf) \<Rightarrow> (string \<rightharpoonup> TunIf) \<Rightarrow> (string \<rightharpoonup> TunIf)" where
  "at_index i f m = (\<lambda>n. map_option (\<lambda>t. if ti_index t = i then f t else t) (m n))"

definition same_or :: "('k \<Rightarrow> (string \<rightharpoonup> TunIf)) \<Rightarrow> ((string \<rightharpoonup> TunIf) \<Rightarrow> (string \<rightharpoonup> TunIf)) \<Rightarrow> 'k \<Rightarrow> 'k \<times> (string + unit) \<Rightarrow> bool" where
  "same_or ifs f k r \<longleftrightarrow> (case r of (k', Inl _) \<Rightarrow> ifs k' = ifs k | (k', Inr _) \<Rightarrow> ifs k' = f (ifs k))"

definition add_addr :: "IpAddr \<times> nat \<Rightarrow> TunIf \<Rightarrow> TunIf" where
  "add_addr a t = t\<lparr>ti_addrs := insert a (ti_addrs t)\<rparr>"

definition set_up :: "bool \<Rightarrow> TunIf \<Rightarrow> TunIf" where
  "set_up mc t = t\<lparr>ti_up := True, ti_multicast := (ti_multicast t \<or> mc)\<rparr>"

definition create_ok :: "('k \<Rightarrow> (string \<rightharpoonup> TunIf)) \<Rightarrow> ('h \<Rightarrow> string) \<Rightarrow> string \<Rightarrow> 'k \<Rightarrow> 'k \<times> (string + 'h) \<Rightarrow> bool" where
  "create_ok ifs name_of name k r \<longleftrightarrow>
     (case r of
        (k', Inl _) \<Rightarrow> ifs k' = ifs k
      | (k', Inr h) \<Rightarrow> ifs k name = None \<and> name_of h = name \<and>
          (\<exists>t. (\<forall>n u. ifs k n = Some u \<longrightarrow> ti_index u \<noteq> ti_index t) \<and> ifs k' = (ifs k)(name \<mapsto> t)))"

definition tun_kernel_ok :: "('k, 'h) TunKernel \<Rightarrow> ('k \<Rightarrow> (string \<rightharpoonup> TunIf)) \<Rightarrow> ('h \<Rightarrow> string) \<Rightarrow> bool" where
  "tun_kernel_ok K ifs name_of \<longleftrightarrow>
     (\<forall>name mtu k. create_ok ifs name_of name k (tun_create K name mtu k)) \<and>
     (\<forall>h k. ifs (tun_drop K h k) = (ifs k)(name_of h := None)) \<and>
     (\<forall>name k i. rt_link K name k = Inr (Some i) \<longrightarrow> (\<exists>t. ifs k name = Some t \<and> ti_index t = i)) \<and>
     (\<forall>i a plen k. same_or ifs (at_index i (add_addr (a, plen))) k (rt_add_address K i a plen k)) \<and>
     (\<forall>i mc k. same_or ifs (at_index i (set_up mc)) k (rt_set_up K i mc k)) \<and>
     (\<forall>p body k. ifs (proc_write K p body k) = ifs k)"

definition index_ok :: "(string \<rightharpoonup> TunIf) \<Rightarrow> bool" where
  "index_ok m \<longleftrightarrow> (\<forall>n u n' u'. m n = Some u \<longrightarrow> m n' = Some u' \<longrightarrow> ti_index u = ti_index u' \<longrightarrow> n = n')"

section \<open>Setting up a device is all or nothing\<close>

lemma tun_kernel_okD:
  assumes "tun_kernel_ok K ifs name_of"
  shows "create_ok ifs name_of name k (tun_create K name mtu k)"
    and "ifs (tun_drop K h k) = (ifs k)(name_of h := None)"
    and "rt_link K name k = Inr (Some i) \<Longrightarrow> \<exists>t. ifs k name = Some t \<and> ti_index t = i"
    and "same_or ifs (at_index i (add_addr (a, plen))) k (rt_add_address K i a plen k)"
    and "same_or ifs (at_index i (set_up mc)) k (rt_set_up K i mc k)"
    and "ifs (proc_write K p body k) = ifs k"
  using assms unfolding tun_kernel_ok_def by simp_all

text \<open>One interface among the others, by an index of its own.\<close>

definition alone :: "(string \<rightharpoonup> TunIf) \<Rightarrow> string \<Rightarrow> TunIf \<Rightarrow> (string \<rightharpoonup> TunIf) \<Rightarrow> bool" where
  "alone m name t m' \<longleftrightarrow> m' = m(name \<mapsto> t) \<and> m name = None \<and> (\<forall>n u. m n = Some u \<longrightarrow> ti_index u \<noteq> ti_index t)"

lemma alone_call:
  assumes "alone m name t (ifs k)" and "same_or ifs (at_index (ti_index t) f) k r" and "\<And>u. ti_index (f u) = ti_index u"
  obtains t' where "alone m name t' (ifs (fst r))" "ti_index t' = ti_index t" "t' = t \<or> t' = f t" "isl (snd r) \<or> t' = f t"
proof -
  have a: "at_index (ti_index t) f (m(name \<mapsto> t)) = m(name \<mapsto> f t)"
  proof
    fix n
    show "at_index (ti_index t) f (m(name \<mapsto> t)) n = (m(name \<mapsto> f t)) n"
      using assms(1) by (cases "m n") (auto simp: at_index_def alone_def)
  qed
  show thesis
  proof (cases "snd r")
    case (Inl e)
    then have "ifs (fst r) = ifs k" using assms(2) by (cases r) (simp add: same_or_def)
    then show thesis using that[of t] assms(1) Inl by simp
  next
    case (Inr u)
    then have "ifs (fst r) = m(name \<mapsto> f t)" using assms(1,2) a by (cases r) (simp add: same_or_def alone_def)
    then show thesis using that[of "f t"] assms(1,3) by (simp add: alone_def)
  qed
qed

lemma configure_start:
  assumes "tun_kernel_ok K ifs name_of" and "alone m name t (ifs k)" and "link_index K name k = Inr i"
  shows "i = ti_index t"
proof -
  have "rt_link K name k = Inr (Some i)" using assms(3) by (auto simp: link_index_def split: sum.splits option.splits)
  then show ?thesis using tun_kernel_okD(3)[OF assms(1)] assms(2) by (fastforce simp: alone_def)
qed

lemma keeps_index: "ti_index (add_addr a t) = ti_index t" "ti_index (set_up mc t) = ti_index t"
  by (simp_all add: add_addr_def set_up_def)

lemma netlink_step:
  "(case netlink_result r of (k, res) \<Rightarrow> (case res of Inl e \<Rightarrow> f k e | Inr u \<Rightarrow> g k)) =
     (if isl (snd r) then f (fst r) (Netlink (projl (snd r))) else g (fst r))"
  by (cases r; cases "snd r") (simp_all add: netlink_result_def)

lemma configure_tunnel_alone:
  assumes ok: "tun_kernel_ok K ifs name_of" and t: "alone m name t (ifs k)" and c: "configure_tunnel K name a k = (k', res)"
  obtains t' where "alone m name t' (ifs k')" "isl res \<or> ti_up t' \<and> (V4 a, 31) \<in> ti_addrs t'"
proof (cases "link_index K name k")
  case (Inl e)
  then have "k' = k" "isl res" using c by (auto simp: configure_tunnel_def)
  then show thesis using that[of t] t by simp
next
  case (Inr i)
  then have i: "i = ti_index t" by (rule configure_start[OF ok t])
  let ?r1 = "rt_add_address K i (V4 a) 31 k"
  obtain t1 where t1: "alone m name t1 (ifs (fst ?r1))" "ti_index t1 = i" "isl (snd ?r1) \<or> t1 = add_addr (V4 a, 31) t"
    using alone_call[OF t tun_kernel_okD(4)[OF ok, of i "V4 a" 31, unfolded i] keeps_index(1)] i by metis
  let ?r2 = "rt_set_up K i False (fst ?r1)"
  obtain t2 where t2: "alone m name t2 (ifs (fst ?r2))" "ti_index t2 = i" "isl (snd ?r2) \<or> t2 = set_up False t1"
    using alone_call[OF t1(1) tun_kernel_okD(5)[OF ok, of i False, folded t1(2)] keeps_index(2)] t1(2) by metis
  let ?k3 = "enable_ipv6 K name (fst ?r2)"
  let ?ll = "V6 (tunnel_link_local a)"
  have k3: "alone m name t2 (ifs ?k3)" using t2(1) tun_kernel_okD(6)[OF ok] by (simp add: enable_ipv6_def)
  obtain t3 where t3: "alone m name t3 (ifs (fst (rt_add_address K i ?ll 64 ?k3)))" "t3 = t2 \<or> t3 = add_addr (?ll, 64) t2"
    using alone_call[OF k3 tun_kernel_okD(4)[OF ok, of i ?ll 64, folded t2(2)] keeps_index(1)] t2(2) by metis
  consider "isl (snd ?r1)" "k' = fst ?r1" "isl res" | "\<not> isl (snd ?r1)" "isl (snd ?r2)" "k' = fst ?r2" "isl res"
    | "\<not> isl (snd ?r1)" "\<not> isl (snd ?r2)" "k' = fst (rt_add_address K i ?ll 64 ?k3)"
    using c unfolding configure_tunnel_def Inr netlink_step sum.case by (auto split: if_splits)
  then show thesis
  proof cases
    case 3
    then show thesis using that[of t3] t1(3) t2(3) t3 by (auto simp: add_addr_def set_up_def)
  qed (use that t1(1) t2(1) in blast)+
qed

lemma configure_overlay_alone:
  assumes ok: "tun_kernel_ok K ifs name_of" and t: "alone m name t (ifs k)" and c: "configure_overlay K name a k = (k', res)"
  obtains t' where "alone m name t' (ifs k')"
    "isl res \<or> ti_up t' \<and> ti_multicast t' \<and> (V4 a, BACKHAUL_PREFIX_LEN) \<in> ti_addrs t' \<and> res = Inr (ti_index t')"
proof (cases "link_index K name k")
  case (Inl e)
  then have "k' = k \<and> res = Inl e" using c by (simp add: configure_overlay_def eq_commute[of _ res])
  then have "k' = k" "isl res" by simp_all
  then show thesis using that[of t] t by simp
next
  case (Inr i)
  then have i: "i = ti_index t" by (rule configure_start[OF ok t])
  let ?r1 = "rt_add_address K i (V4 a) BACKHAUL_PREFIX_LEN k"
  obtain t1 where t1: "alone m name t1 (ifs (fst ?r1))" "ti_index t1 = i" "isl (snd ?r1) \<or> t1 = add_addr (V4 a, BACKHAUL_PREFIX_LEN) t"
    using alone_call[OF t tun_kernel_okD(4)[OF ok, of i "V4 a" BACKHAUL_PREFIX_LEN, unfolded i] keeps_index(1)] i by metis
  let ?k2 = "enable_ipv6 K name (fst ?r1)" and ?ll = "V6 (overlay_link_local a)"
  let ?r2 = "rt_add_address K i ?ll 64 ?k2"
  have k2: "alone m name t1 (ifs ?k2)" using t1(1) tun_kernel_okD(6)[OF ok] by (simp add: enable_ipv6_def)
  obtain t2 where t2: "alone m name t2 (ifs (fst ?r2))" "ti_index t2 = i" "t2 = t1 \<or> t2 = add_addr (?ll, 64) t1"
    using alone_call[OF k2 tun_kernel_okD(4)[OF ok, of i ?ll 64, folded t1(2)] keeps_index(1)] t1(2) by metis
  let ?r3 = "rt_set_up K i True (fst ?r2)"
  obtain t3 where t3: "alone m name t3 (ifs (fst ?r3))" "ti_index t3 = i" "isl (snd ?r3) \<or> t3 = set_up True t2"
    using alone_call[OF t2(1) tun_kernel_okD(5)[OF ok, of i True, folded t2(2)] keeps_index(2)] t2(2) by metis
  consider "isl (snd ?r1)" "k' = fst ?r1" "isl res" | "\<not> isl (snd ?r1)" "k' = fst ?r3" "isl (snd ?r3)" "isl res"
    | "\<not> isl (snd ?r1)" "k' = fst ?r3" "\<not> isl (snd ?r3)" "res = Inr i"
    using c unfolding configure_overlay_def Inr netlink_step sum.case Let_def by (auto split: if_splits)
  then show thesis
  proof cases
    case 3
    then show thesis using that[of t3] t1(3) t2(3) t3 by (auto simp: add_addr_def set_up_def)
  qed (use that t1(1) t3(1) in blast)+
qed

lemma create_alone:
  assumes "tun_kernel_ok K ifs name_of" and "tun_create K name mtu k = (k', Inr h)"
  obtains t where "alone (ifs k) name t (ifs k')" "name_of h = name"
proof -
  have "create_ok ifs name_of name k (k', Inr h)" using tun_kernel_okD(1)[OF assms(1), of name k mtu] assms(2) by simp
  then show thesis using that by (auto simp: create_ok_def alone_def)
qed

lemma dropped_alone:
  assumes "tun_kernel_ok K ifs name_of" and "alone m name t (ifs k)" and "name_of h = name"
  shows "ifs (tun_drop K h k) = m"
  using assms(2,3) tun_kernel_okD(2)[OF assms(1), of h k] by (auto simp: alone_def fun_eq_iff)

text \<open>A tunnel is up with its address or leaves no trace.\<close>

lemma spawn_tunnel_spec:
  assumes ok: "tun_kernel_ok K ifs name_of" and s: "spawn_tunnel K short a b k = (k', res)"
  shows "case res of
      Inl e \<Rightarrow> ifs k' = ifs k
    | Inr tn \<Rightarrow> tn_iface_name tn = peer_iface_name short \<and> tn_self_addr tn = a \<and> tn_peer_addr tn = b \<and>
        name_of (tn_device tn) = tn_iface_name tn \<and>
        (\<exists>t. alone (ifs k) (tn_iface_name tn) t (ifs k') \<and> ti_up t \<and> (V4 a, 31) \<in> ti_addrs t)"
proof (cases "tun_create K (peer_iface_name short) (Some TUNNEL_MTU) k")
  case (Pair k1 r)
  show ?thesis
  proof (cases r)
    case (Inl e)
    then have "create_ok ifs name_of (peer_iface_name short) k (k1, Inl e)"
      using tun_kernel_okD(1)[OF ok, of _ k "Some TUNNEL_MTU"] Pair by metis
    then show ?thesis using s Pair Inl by (auto simp: spawn_tunnel_def create_ok_def)
  next
    case (Inr h)
    obtain t where t: "alone (ifs k) (peer_iface_name short) t (ifs k1)" "name_of h = peer_iface_name short"
      using create_alone[OF ok] Pair Inr by metis
    obtain k2 r2 where c: "configure_tunnel K (peer_iface_name short) a k1 = (k2, r2)" by fastforce
    obtain t' where t': "alone (ifs k) (peer_iface_name short) t' (ifs k2)" "isl r2 \<or> ti_up t' \<and> (V4 a, 31) \<in> ti_addrs t'"
      using configure_tunnel_alone[OF ok t(1) c] by metis
    note d = dropped_alone[OF ok t'(1) t(2)]
    show ?thesis using s Pair Inr c t(2) t' d by (auto simp: spawn_tunnel_def Let_def split: sum.splits)
  qed
qed

lemma spawn_overlay_spec:
  assumes ok: "tun_kernel_ok K ifs name_of" and s: "spawn_overlay_tun K a name k = (k', res)"
  shows "case res of
      Inl e \<Rightarrow> ifs k' = ifs k
    | Inr (h, link) \<Rightarrow> ol_iface_name link = name \<and> ol_self_addr link = a \<and> ol_link_local link = overlay_link_local a \<and>
        name_of h = name \<and>
        (\<exists>t. alone (ifs k) name t (ifs k') \<and> ti_up t \<and> ti_multicast t \<and> (V4 a, BACKHAUL_PREFIX_LEN) \<in> ti_addrs t \<and>
           ol_index link = ti_index t)"
proof (cases "tun_create K name (Some TUNNEL_MTU) k")
  case (Pair k1 r)
  show ?thesis
  proof (cases r)
    case (Inl e)
    then have "create_ok ifs name_of name k (k1, Inl e)" using tun_kernel_okD(1)[OF ok, of name k "Some TUNNEL_MTU"] Pair by metis
    then show ?thesis using s Pair Inl by (auto simp: spawn_overlay_tun_def create_ok_def)
  next
    case (Inr h)
    obtain t where t: "alone (ifs k) name t (ifs k1)" "name_of h = name"
      using create_alone[OF ok] Pair Inr by metis
    obtain k2 r2 where c: "configure_overlay K name a k1 = (k2, r2)" by fastforce
    obtain t' where t': "alone (ifs k) name t' (ifs k2)"
      "isl r2 \<or> ti_up t' \<and> ti_multicast t' \<and> (V4 a, BACKHAUL_PREFIX_LEN) \<in> ti_addrs t' \<and> r2 = Inr (ti_index t')"
      using configure_overlay_alone[OF ok t(1) c] by metis
    note d = dropped_alone[OF ok t'(1) t(2)]
    show ?thesis using s Pair Inr c t(2) t' d by (auto simp: spawn_overlay_tun_def split: sum.splits)
  qed
qed

text \<open>\<open>PeerInterface::create\<close> promises a live interface, but the device is gone when it returns.\<close>

theorem peer_interface_gone:
  assumes ok: "tun_kernel_ok K ifs name_of" and s: "peer_interface_create K short a b k = (k', Inr p)"
  shows "ifs k' (pi_name p) = None"
proof (cases "tun_create K (peer_iface_name short) None k")
  case (Pair k1 r)
  show ?thesis
  proof (cases r)
    case (Inl e)
    then show ?thesis using s Pair by (simp add: peer_interface_create_def)
  next
    case (Inr h)
    have n: "name_of h = peer_iface_name short" using create_alone[OF ok] Pair Inr by metis
    have "\<exists>k3. k' = tun_drop K h k3 \<and> pi_name p = peer_iface_name short"
      using s Pair Inr by (auto simp: peer_interface_create_def Let_def split: sum.splits prod.splits)
    then show ?thesis using tun_kernel_okD(2)[OF ok] n by auto
  qed
qed

section \<open>Serving a tunnel per peer\<close>

text \<open>\<open>serve_tunnel\<close> runs once for every connection, dialled or accepted, and the runs interleave at their waits: after the slot
  is reserved, while the device is set up, and while the tunnel is held open. The two encapsulation loops of a tunnel are tasks of
  their own and share the device: it is closed when the second of them has ended, by itself (a packet too large, a failed read
  or write, the closed connection) or because dropping the tunnel aborted it, which takes effect later. \<open>tr_encap\<close> gives for
  a connection the tunnel and which of its loops (sending, receiving) still run, as long as one does.\<close>

definition short_id :: "string \<Rightarrow> string" where
  "short_id peer = take 8 peer"

datatype 'h TunnelPhase = Reserved | Up "'h Tunnel"

datatype EncapTask = Tx | Rx

record ('k, 'h, 'c) TunnelState =
  tr_registry :: "(string, string) hash_map"
  tr_tasks :: "'c \<rightharpoonup> string \<times> 'h TunnelPhase"
  tr_encap :: "'c \<rightharpoonup> 'h Tunnel \<times> bool \<times> bool"
  tr_kernel :: 'k
  tr_closed :: "('c \<times> nat \<times> string) list"

definition reserve_slot :: "'c \<Rightarrow> string \<Rightarrow> ('k, 'h, 'c) TunnelState \<Rightarrow> ('k, 'h, 'c) TunnelState" where
  "reserve_slot c peer s =
     (if hm_get (tr_registry s) peer \<noteq> None
      then s\<lparr>tr_closed := tr_closed s @ [(c, 2, ''duplicate tunnel'')]\<rparr>
      else s\<lparr>tr_registry := hm_insert peer [] (tr_registry s), tr_tasks := (tr_tasks s)(c \<mapsto> (peer, Reserved))\<rparr>)"

definition bring_up ::
  "('k, 'h) TunKernel \<Rightarrow> (string \<Rightarrow> u8 list) \<Rightarrow> string \<Rightarrow> 'c \<Rightarrow> string \<Rightarrow> ('k, 'h, 'c) TunnelState \<Rightarrow> ('k, 'h, 'c) TunnelState" where
  "bring_up K blake3 self_id c peer s =
     (case pick_link_31 blake3 self_id peer of (self_addr, peer_addr) \<Rightarrow>
        (case spawn_tunnel K (short_id peer) self_addr peer_addr (tr_kernel s) of
           (k, Inl e) \<Rightarrow>
             s\<lparr>tr_kernel := k, tr_registry := hm_remove peer (tr_registry s), tr_tasks := (tr_tasks s)(c := None),
               tr_closed := tr_closed s @ [(c, 1, ''tunnel setup failed'')]\<rparr>
         | (k, Inr tunnel) \<Rightarrow>
             s\<lparr>tr_kernel := k, tr_registry := hm_insert peer (tn_iface_name tunnel) (tr_registry s),
               tr_tasks := (tr_tasks s)(c \<mapsto> (peer, Up tunnel)), tr_encap := (tr_encap s)(c \<mapsto> (tunnel, True, True))\<rparr>))"

text \<open>The connection closes: deregister and drop the tunnel, which only asks its loops to stop.\<close>

definition tear_down :: "'c \<Rightarrow> string \<Rightarrow> ('k, 'h, 'c) TunnelState \<Rightarrow> ('k, 'h, 'c) TunnelState" where
  "tear_down c peer s =
     s\<lparr>tr_registry := hm_remove peer (tr_registry s), tr_tasks := (tr_tasks s)(c := None)\<rparr>"

text \<open>A loop ends; the last one closes the device.\<close>

definition encap_ends ::
  "('k, 'h) TunKernel \<Rightarrow> 'c \<Rightarrow> EncapTask \<Rightarrow> 'h Tunnel \<Rightarrow> bool \<Rightarrow> bool \<Rightarrow> ('k, 'h, 'c) TunnelState \<Rightarrow> ('k, 'h, 'c) TunnelState" where
  "encap_ends K c which tunnel tx rx s =
     (let tx' = (tx \<and> which \<noteq> Tx); rx' = (rx \<and> which \<noteq> Rx)
      in if tx' \<or> rx' then s\<lparr>tr_encap := (tr_encap s)(c \<mapsto> (tunnel, tx', rx'))\<rparr>
         else s\<lparr>tr_encap := (tr_encap s)(c := None), tr_kernel := tun_drop K (tn_device tunnel) (tr_kernel s)\<rparr>)"

inductive serve_step ::
  "('k, 'h) TunKernel \<Rightarrow> (string \<Rightarrow> u8 list) \<Rightarrow> string \<Rightarrow> ('k, 'h, 'c) TunnelState \<Rightarrow> ('k, 'h, 'c) TunnelState \<Rightarrow> bool"
  for K blake3 self_id where
  connected: "tr_tasks s c = None \<Longrightarrow> tr_encap s c = None \<Longrightarrow> serve_step K blake3 self_id s (reserve_slot c peer s)"
| set_up: "tr_tasks s c = Some (peer, Reserved) \<Longrightarrow> serve_step K blake3 self_id s (bring_up K blake3 self_id c peer s)"
| closed: "tr_tasks s c = Some (peer, Up tunnel) \<Longrightarrow> serve_step K blake3 self_id s (tear_down c peer s)"
| ended: "tr_encap s c = Some (tunnel, tx, rx) \<Longrightarrow> serve_step K blake3 self_id s (encap_ends K c which tunnel tx rx s)"

definition tunnels_start :: "'k \<Rightarrow> ('k, 'h, 'c) TunnelState" where
  "tunnels_start k = \<lparr>tr_registry = [], tr_tasks = Map.empty, tr_encap = Map.empty, tr_kernel = k, tr_closed = []\<rparr>"

text \<open>The devices that are open, and what is invariant about the tasks and the devices.\<close>

definition iface_of :: "'h TunnelPhase \<Rightarrow> string" where
  "iface_of ph = (case ph of Reserved \<Rightarrow> [] | Up tunnel \<Rightarrow> tn_iface_name tunnel)"

definition open_on :: "('k, 'h, 'c) TunnelState \<Rightarrow> string \<Rightarrow> 'c \<Rightarrow> 'h Tunnel \<Rightarrow> bool" where
  "open_on s name c tunnel \<longleftrightarrow> map_option fst (tr_encap s c) = Some tunnel \<and> tn_iface_name tunnel = name"

definition registry_inv :: "('k, 'h, 'c) TunnelState \<Rightarrow> bool" where
  "registry_inv s \<longleftrightarrow>
     hm_ok (tr_registry s) \<and>
     (\<forall>c p ph. tr_tasks s c = Some (p, ph) \<longrightarrow> hm_get (tr_registry s) p = Some (iface_of ph)) \<and>
     (\<forall>c c' p ph ph'. tr_tasks s c = Some (p, ph) \<longrightarrow> tr_tasks s c' = Some (p, ph') \<longrightarrow> c = c') \<and>
     (\<forall>p name. hm_get (tr_registry s) p = Some name \<longrightarrow> (\<exists>c ph. tr_tasks s c = Some (p, ph)))"

definition task_inv :: "(string \<Rightarrow> u8 list) \<Rightarrow> string \<Rightarrow> ('k, 'h, 'c) TunnelState \<Rightarrow> bool" where
  "task_inv blake3 self_id s \<longleftrightarrow>
     (\<forall>c p. tr_tasks s c = Some (p, Reserved) \<longrightarrow> tr_encap s c = None) \<and>
     (\<forall>c p tn. tr_tasks s c = Some (p, Up tn) \<longrightarrow> tn_self_addr tn = fst (pick_link_31 blake3 self_id p) \<and>
        (\<forall>name tn'. open_on s name c tn' \<longrightarrow> tn' = tn))"

definition device_inv ::
  "('k \<Rightarrow> (string \<rightharpoonup> TunIf)) \<Rightarrow> ('h \<Rightarrow> string) \<Rightarrow> 'k \<Rightarrow> ('k, 'h, 'c) TunnelState \<Rightarrow> bool" where
  "device_inv ifs name_of k0 s \<longleftrightarrow>
     (\<forall>name c tn. open_on s name c tn \<longrightarrow>
        name_of (tn_device tn) = name \<and> ifs k0 name = None \<and>
        (\<exists>t. ifs (tr_kernel s) name = Some t \<and> ti_up t \<and> (V4 (tn_self_addr tn), 31) \<in> ti_addrs t)) \<and>
     (\<forall>name c tn c' tn'. open_on s name c tn \<longrightarrow> open_on s name c' tn' \<longrightarrow> c = c') \<and>
     (\<forall>name. (\<forall>c tn. \<not> open_on s name c tn) \<longrightarrow> ifs (tr_kernel s) name = ifs k0 name)"

lemma tunnel_open: "tr_encap s c = Some (tn, h) \<Longrightarrow> open_on s (tn_iface_name tn) c tn"
  by (simp add: open_on_def)

lemma device_inv_cong:
  assumes "open_on s' = open_on s" and "ifs (tr_kernel s') = ifs (tr_kernel s)"
  shows "device_inv ifs name_of k0 s' = device_inv ifs name_of k0 s"
  by (simp add: device_inv_def assms)

lemma registry_step:
  assumes "serve_step K blake3 self_id s s'" and "registry_inv s"
  shows "registry_inv s'"
  using assms
proof cases
  case (connected c peer)
  then show ?thesis using assms(2)
    by (auto simp: registry_inv_def reserve_slot_def iface_of_def hm.get_ins hm.ok_ins split: if_splits)
      (metis option.distinct(1))
next
  case (set_up c peer)
  obtain a b where ab: "pick_link_31 blake3 self_id peer = (a, b)" by fastforce
  obtain k res where r: "spawn_tunnel K (short_id peer) a b (tr_kernel s) = (k, res)" by fastforce
  show ?thesis using assms(2) set_up
    by (cases res; auto simp: registry_inv_def bring_up_def ab r iface_of_def hm.get_ins hm.ok_ins hm.get_rem hm.ok_rem
        split: if_splits; metis option.inject prod.inject)
next
  case (closed c peer tunnel)
  then show ?thesis using assms(2)
    by (auto simp: registry_inv_def tear_down_def hm.get_rem hm.ok_rem split: if_splits)
      (metis option.inject prod.inject)+
next
  case (ended c tunnel tx rx which)
  then show ?thesis using assms(2) by (simp add: registry_inv_def encap_ends_def Let_def)
qed

text \<open>What a successful set-up adds, and what an ended loop leaves.\<close>

lemma brought_up:
  assumes ok: "tun_kernel_ok K ifs name_of" and eq: "s' = bring_up K blake3 self_id c peer s"
  obtains
    (failed) "tr_tasks s' = (tr_tasks s)(c := None)" "tr_encap s' = tr_encap s" "ifs (tr_kernel s') = ifs (tr_kernel s)"
  | (up) tn t where "tr_tasks s' = (tr_tasks s)(c \<mapsto> (peer, Up tn))" "tr_encap s' = (tr_encap s)(c \<mapsto> (tn, True, True))"
      "alone (ifs (tr_kernel s)) (tn_iface_name tn) t (ifs (tr_kernel s'))" "ti_up t" "(V4 (tn_self_addr tn), 31) \<in> ti_addrs t"
      "name_of (tn_device tn) = tn_iface_name tn" "tn_self_addr tn = fst (pick_link_31 blake3 self_id peer)"
proof -
  obtain a b where ab: "pick_link_31 blake3 self_id peer = (a, b)" by fastforce
  obtain k res where r: "spawn_tunnel K (short_id peer) a b (tr_kernel s) = (k, res)" by fastforce
  note spec = spawn_tunnel_spec[OF ok r]
  show thesis
  proof (cases res)
    case (Inl e)
    show thesis by (rule failed) (use spec eq Inl in \<open>auto simp: bring_up_def ab r\<close>)
  next
    case (Inr tn)
    then obtain t where "alone (ifs (tr_kernel s)) (tn_iface_name tn) t (ifs k)" "ti_up t" "(V4 a, 31) \<in> ti_addrs t"
      "name_of (tn_device tn) = tn_iface_name tn" "tn_self_addr tn = a" using spec by auto
    then show thesis by (intro up[of tn t]) (use eq Inr in \<open>auto simp: bring_up_def ab r\<close>)
  qed
qed

lemma encap_ended:
  assumes "tr_encap s c = Some (tn, tx, rx)" and "s' = encap_ends K c which tn tx rx s"
  obtains (half) "open_on s' = open_on s" "tr_kernel s' = tr_kernel s"
  | (last) "\<And>name c' tn'. open_on s' name c' tn' \<longleftrightarrow> c' \<noteq> c \<and> open_on s name c' tn'"
      "tr_kernel s' = tun_drop K (tn_device tn) (tr_kernel s)"
proof (cases "tx \<and> which \<noteq> Tx \<or> rx \<and> which \<noteq> Rx")
  case True
  show thesis by (rule half) (use assms True in \<open>auto simp: encap_ends_def Let_def open_on_def fun_eq_iff\<close>)
next
  case False
  show thesis by (rule last) (use assms False in \<open>auto simp: encap_ends_def Let_def open_on_def\<close>)
qed

lemma task_step:
  assumes ok: "tun_kernel_ok K ifs name_of" and "serve_step K blake3 self_id s s'" and inv: "task_inv blake3 self_id s"
  shows "task_inv blake3 self_id s'"
  using assms(2)
proof cases
  case (connected c peer)
  then show ?thesis using inv by (auto simp: task_inv_def reserve_slot_def open_on_def)
next
  case (set_up c peer)
  from ok set_up(1) show ?thesis
  proof (cases rule: brought_up)
    case (up tn t)
    then show ?thesis using inv by (auto simp: task_inv_def open_on_def)
  qed (use inv in \<open>auto simp: task_inv_def open_on_def\<close>)
next
  case (closed c peer tunnel)
  then show ?thesis using inv by (auto simp: task_inv_def tear_down_def open_on_def)
next
  case (ended c tunnel tx rx which)
  have t: "tr_tasks s' = tr_tasks s" using ended by (simp add: encap_ends_def Let_def)
  have r: "tr_encap s' d = None" if "tr_encap s d = None" for d using ended that by (auto simp: encap_ends_def Let_def)
  have o: "open_on s' name d tn \<Longrightarrow> open_on s name d tn" for name d tn
    using ended by (auto simp: encap_ends_def Let_def open_on_def split: if_splits)
  show ?thesis using inv r o unfolding task_inv_def t by blast
qed

lemma device_step:
  assumes ok: "tun_kernel_ok K ifs name_of" and "serve_step K blake3 self_id s s'"
    and task: "task_inv blake3 self_id s" and inv: "device_inv ifs name_of k0 s"
  shows "device_inv ifs name_of k0 s'"
  using assms(2)
proof cases
  case (connected c peer)
  have "open_on s' = open_on s" "tr_kernel s' = tr_kernel s" using connected by (auto simp: open_on_def reserve_slot_def fun_eq_iff)
  then show ?thesis using device_inv_cong[of s' s ifs] inv by simp
next
  case (set_up c peer)
  have free: "tr_encap s c = None" using task set_up(2) by (simp add: task_inv_def)
  from ok set_up(1) show ?thesis
  proof (cases rule: brought_up)
    case failed
    then have "open_on s' = open_on s" by (simp add: open_on_def fun_eq_iff)
    then show ?thesis using device_inv_cong[of s' s ifs] failed inv by simp
  next
    case (up tn t)
    let ?n = "tn_iface_name tn"
    have u: "open_on s' name c' tn' \<longleftrightarrow> (c' = c \<and> tn' = tn \<and> name = ?n) \<or> open_on s name c' tn'" for name c' tn'
      using up(2) free by (auto simp: open_on_def)
    have "\<not> open_on s ?n c' tn'" for c' tn' using inv up(3) by (fastforce simp: device_inv_def alone_def)
    then show ?thesis using inv up(3-6) unfolding device_inv_def u by (auto simp: alone_def) blast
  qed
next
  case (closed c peer tunnel)
  have "open_on s' = open_on s" "tr_kernel s' = tr_kernel s" using closed by (auto simp: open_on_def tear_down_def fun_eq_iff)
  then show ?thesis using device_inv_cong[of s' s ifs] inv by simp
next
  case (ended c tn tx rx which)
  from ended(2,1) show ?thesis
  proof (cases rule: encap_ended)
    case half
    then show ?thesis using device_inv_cong[of s' s ifs] inv by simp
  next
    case last
    let ?n = "tn_iface_name tn"
    note n = tunnel_open[OF ended(2)]
    then have d: "ifs (tr_kernel s') = (ifs (tr_kernel s))(?n := None)" and old: "ifs k0 ?n = None"
      using last(2) inv tun_kernel_okD(2)[OF ok] by (auto simp: device_inv_def)
    have one: "c' = c" if "open_on s ?n c' tn'" for c' tn' using inv n that unfolding device_inv_def by blast
    have "ifs (tr_kernel s') name = ifs k0 name" if "\<forall>c' tn'. \<not> open_on s' name c' tn'" for name
    proof (cases "name = ?n")
      case False
      then have "\<not> open_on s name c' tn'" for c' tn'
        using that ended(2) unfolding last(1) by (cases "c' = c") (auto simp: open_on_def)
      then show ?thesis using inv False unfolding device_inv_def d by simp
    qed (use old in \<open>simp add: d\<close>)
    moreover have "name_of (tn_device tn') = name \<and> ifs k0 name = None \<and>
        (\<exists>t. ifs (tr_kernel s') name = Some t \<and> ti_up t \<and> (V4 (tn_self_addr tn'), 31) \<in> ti_addrs t)"
      if "open_on s' name c' tn'" for name c' tn'
      using that one[of c' tn'] inv unfolding last(1) d device_inv_def by (cases "name = ?n") auto
    ultimately show ?thesis using inv unfolding device_inv_def last(1) by blast
  qed
qed

lemma tunnels_invariant:
  assumes "tun_kernel_ok K ifs name_of" and "(serve_step K blake3 self_id)\<^sup>*\<^sup>* (tunnels_start k0) s"
  shows "registry_inv s \<and> task_inv blake3 self_id s \<and> device_inv ifs name_of k0 s"
  using assms(2)
proof (induction rule: rtranclp_induct)
  case base
  then show ?case
    by (simp add: registry_inv_def task_inv_def device_inv_def tunnels_start_def open_on_def hm.get_emp hm.ok_emp)
next
  case (step s s')
  then show ?case using registry_step task_step[OF assms(1)] device_step[OF assms(1)] by blast
qed

text \<open>C16. One tunnel per peer, and no device is lost. In every interleaving of connections, set-ups, closings and ends of the
  encapsulation loops, a registered peer has exactly one connection being served; a peer whose tunnel has come up is registered
  under its interface, and the interface is up with this node's address of the pair as long as one of the tunnel's loops runs.
  No two open devices share a name. The kernel differs from where it started only in interfaces a running loop holds, so when
  the loops have ended it has the interfaces it started with, and when no connection is served the registry is empty.\<close>

theorem tunnel_registry_live:
  assumes "tun_kernel_ok K ifs name_of" and "(serve_step K blake3 self_id)\<^sup>*\<^sup>* (tunnels_start k0) s"
  shows "(\<forall>p name. hm_get (tr_registry s) p = Some name \<longrightarrow> (\<exists>!c. \<exists>ph. tr_tasks s c = Some (p, ph))) \<and>
    (\<forall>c p tn. tr_tasks s c = Some (p, Up tn) \<longrightarrow>
       hm_get (tr_registry s) p = Some (tn_iface_name tn) \<and>
       (tr_encap s c \<noteq> None \<longrightarrow> (\<exists>t. ifs (tr_kernel s) (tn_iface_name tn) = Some t \<and> ti_up t \<and>
          (V4 (fst (pick_link_31 blake3 self_id p)), 31) \<in> ti_addrs t))) \<and>
    (\<forall>c c' tn tn' h h'. tr_encap s c = Some (tn, h) \<and> tr_encap s c' = Some (tn', h') \<and>
       tn_iface_name tn = tn_iface_name tn' \<longrightarrow> c = c') \<and>
    (\<forall>name. ifs (tr_kernel s) name \<noteq> ifs k0 name \<longrightarrow> (\<exists>c tn h. tr_encap s c = Some (tn, h) \<and> tn_iface_name tn = name)) \<and>
    (tr_tasks s = Map.empty \<longrightarrow> tr_registry s = [])"
proof (intro conjI allI impI)
  have r: "registry_inv s" and t: "task_inv blake3 self_id s" and d: "device_inv ifs name_of k0 s"
    using tunnels_invariant[OF assms] by auto
  show "\<exists>!c. \<exists>ph. tr_tasks s c = Some (p, ph)" if "hm_get (tr_registry s) p = Some name" for p name
    using r that unfolding registry_inv_def by metis
  show "hm_get (tr_registry s) p = Some (tn_iface_name tn)" if "tr_tasks s c = Some (p, Up tn)" for c p tn
    using r that by (auto simp: registry_inv_def iface_of_def)
  show "\<exists>u. ifs (tr_kernel s) (tn_iface_name tn) = Some u \<and> ti_up u \<and> (V4 (fst (pick_link_31 blake3 self_id p)), 31) \<in> ti_addrs u"
    if up: "tr_tasks s c = Some (p, Up tn)" and run: "tr_encap s c \<noteq> None" for c p tn
  proof -
    obtain tn' h where h: "tr_encap s c = Some (tn', h)" using run by auto
    from tunnel_open[OF this] have "open_on s (tn_iface_name tn) c tn" "tn_self_addr tn = fst (pick_link_31 blake3 self_id p)"
      using t up unfolding task_inv_def by blast+
    then show ?thesis using d unfolding device_inv_def by metis
  qed
  show "c = c'" if "tr_encap s c = Some (tn, h) \<and> tr_encap s c' = Some (tn', h') \<and> tn_iface_name tn = tn_iface_name tn'"
    for c c' tn tn' h h'
  proof -
    have "open_on s (tn_iface_name tn) c tn" "open_on s (tn_iface_name tn) c' tn'" using that by (auto simp: open_on_def)
    then show ?thesis using d unfolding device_inv_def by blast
  qed
  show "\<exists>c tn h. tr_encap s c = Some (tn, h) \<and> tn_iface_name tn = name" if "ifs (tr_kernel s) name \<noteq> ifs k0 name" for name
    using d that unfolding device_inv_def open_on_def by fastforce
  show "tr_registry s = []" if "tr_tasks s = Map.empty"
  proof -
    have "hm_get (tr_registry s) p = None" for p using r that unfolding registry_inv_def by (metis option.distinct(1) option.exhaust)
    then show ?thesis by (cases "tr_registry s") (auto simp: hm_get_def split: if_splits, metis option.distinct(1))
  qed
qed

text \<open>A tunnel whose loops have both ended stays registered while its connection is open, although its interface is gone: the
  registry, which the routing configuration reads and which refuses a second connection of the peer, is documented as the set of
  live tunnels.\<close>

theorem dead_tunnel_stays_registered:
  assumes ok: "tun_kernel_ok K ifs name_of" and reach: "(serve_step K blake3 self_id)\<^sup>*\<^sup>* (tunnels_start k0) s"
    and up: "tr_tasks s c = Some (p, Up tn)" and run: "tr_encap s c = Some (tn, True, True)"
  shows "\<exists>s'. (serve_step K blake3 self_id)\<^sup>*\<^sup>* s s' \<and> hm_get (tr_registry s') p = Some (tn_iface_name tn) \<and>
    ifs (tr_kernel s') (tn_iface_name tn) = None"
proof -
  let ?s1 = "encap_ends K c Tx tn True True s"
  let ?s2 = "encap_ends K c Rx tn False True ?s1"
  have s1: "serve_step K blake3 self_id s ?s1" by (rule serve_step.ended[OF run])
  have "tr_encap ?s1 c = Some (tn, False, True)" by (simp add: encap_ends_def)
  then have s2: "serve_step K blake3 self_id ?s1 ?s2" by (rule serve_step.ended)
  have n: "name_of (tn_device tn) = tn_iface_name tn" "hm_get (tr_registry s) p = Some (tn_iface_name tn)"
    using tunnels_invariant[OF ok reach] tunnel_open[OF run] up unfolding device_inv_def registry_inv_def
    by (blast, force simp: iface_of_def)
  have "tr_kernel ?s2 = tun_drop K (tn_device tn) (tr_kernel s)" "tr_registry ?s2 = tr_registry s"
    by (simp_all add: encap_ends_def)
  then have "hm_get (tr_registry ?s2) p = Some (tn_iface_name tn)" "ifs (tr_kernel ?s2) (tn_iface_name tn) = None"
    using n tun_kernel_okD(2)[OF ok] by simp_all
  then show ?thesis using s1 s2 by (meson rtranclp.rtrancl_into_rtrancl rtranclp.rtrancl_refl)
qed

text \<open>A kernel that grants every request on a free name.\<close>

definition sim_kernel :: "((string \<times> TunIf) list, string) TunKernel" where
  "sim_kernel =
     \<lparr>tun_create = (\<lambda>name _ k. if name \<in> fst ` set k then (k, Inl ''busy'')
        else ((name, \<lparr>ti_index = Suc (sum_list (map (\<lambda>e. ti_index (snd e)) k)), ti_addrs = {}, ti_up = False, ti_multicast = False\<rparr>) # k,
          Inr name)),
      tun_split = (\<lambda>_ _. Inr ()), tun_drop = (\<lambda>h k. filter (\<lambda>e. fst e \<noteq> h) k), rt_connect = (\<lambda>_. Inr ()),
      rt_link = (\<lambda>name k. Inr (map_option ti_index (map_of k name))),
      rt_add_address = (\<lambda>i a plen k. (map (\<lambda>(n, t). (n, if ti_index t = i then add_addr (a, plen) t else t)) k, Inr ())),
      rt_set_up = (\<lambda>i mc k. (map (\<lambda>(n, t). (n, if ti_index t = i then set_up mc t else t)) k, Inr ())),
      rt_del_link = (\<lambda>i k. (filter (\<lambda>e. ti_index (snd e) \<noteq> i) k, Inr ())), proc_write = (\<lambda>_ _ k. k)\<rparr>"

lemma sim_calls:
  "tun_create sim_kernel name mtu [] = ([(name, \<lparr>ti_index = 1, ti_addrs = {}, ti_up = False, ti_multicast = False\<rparr>)], Inr name)"
  "tun_split sim_kernel h k = Inr ()" "rt_connect sim_kernel k = Inr ()"
  "rt_link sim_kernel name k = Inr (map_option ti_index (map_of k name))"
  "isl (snd (rt_add_address sim_kernel i a plen k)) = False" "isl (snd (rt_set_up sim_kernel i mc k)) = False"
  by (simp_all add: sim_kernel_def)

lemma sim_spawn:
  "\<exists>k tn. spawn_tunnel sim_kernel short a b [] = (k, Inr tn) \<and> tn_iface_name tn = peer_iface_name short"
  unfolding spawn_tunnel_def Let_def sim_calls prod.case sum.case configure_tunnel_def link_index_def
  by (simp add: netlink_step sim_calls)

lemma sim_at_index: "map_of (map (\<lambda>(n, t). (n, if ti_index t = i then f t else t)) k) = at_index i f (map_of k)"
  unfolding at_index_def map_of_map[symmetric] by (induction k) (auto simp: fun_eq_iff)

lemma sim_fresh: "map_of k n = Some u \<Longrightarrow> ti_index u \<le> sum_list (map (\<lambda>e. ti_index (snd e)) k)"
  by (induction k) (auto split: if_splits)

lemma sim_tun_kernel_ok: "tun_kernel_ok sim_kernel map_of (\<lambda>h. h)"
proof -
  have "map_of (filter (\<lambda>e. fst e \<noteq> h) k) = (map_of k)(h := None)" for h and k :: "(string \<times> TunIf) list"
    by (induction k) (auto simp: fun_eq_iff)
  moreover have "create_ok map_of (\<lambda>h. h) name k (tun_create sim_kernel name mtu k)" for name mtu k
    using sim_fresh[of k] by (force simp: create_ok_def sim_kernel_def map_of_eq_None_iff)
  ultimately show ?thesis
    by (auto simp: tun_kernel_ok_def same_or_def sim_kernel_def sim_at_index)
qed

text \<open>Witness of C16: one peer connects, its tunnel comes up, and a second connection of the same peer is refused.\<close>

definition tunnel_trace :: "((string \<times> TunIf) list, string, nat) TunnelState" where
  "tunnel_trace =
     (let s1 = reserve_slot 1 ''abcdefgh12'' (tunnels_start []);
          s2 = bring_up sim_kernel (\<lambda>_. replicate 32 0) ''self'' 1 ''abcdefgh12'' s1
      in reserve_slot 2 ''abcdefgh12'' s2)"

theorem tunnel_registry_live_witness:
  "hm_get (tr_registry tunnel_trace) ''abcdefgh12'' = Some ''mj-peer-abcdefg'' \<and>
   tr_closed tunnel_trace = [(2, 2, ''duplicate tunnel'')] \<and>
   (\<exists>t. map_of (tr_kernel tunnel_trace) ''mj-peer-abcdefg'' = Some t \<and> ti_up t)"
proof -
  let ?H = "\<lambda>_. replicate 32 0" and ?p = "''abcdefgh12''"
  let ?s1 = "reserve_slot 1 ?p (tunnels_start []) :: ((string \<times> TunIf) list, string, nat) TunnelState"
  let ?s2 = "bring_up sim_kernel ?H ''self'' 1 ?p ?s1"
  have t1: "tr_tasks ?s1 1 = Some (?p, Reserved)" by (simp add: reserve_slot_def tunnels_start_def hm.get_emp)
  obtain a b where ab: "pick_link_31 ?H ''self'' ?p = (a, b)" by (meson surj_pair)
  obtain k tn where sp: "spawn_tunnel sim_kernel (short_id ?p) a b [] = (k, Inr tn)" "tn_iface_name tn = peer_iface_name (short_id ?p)"
    using sim_spawn by blast
  have n: "peer_iface_name (short_id ?p) = ''mj-peer-abcdefg''" by (simp add: peer_iface_name_def short_id_def)
  have k1: "tr_kernel ?s1 = []" "hm_ok (tr_registry ?s1)" "tr_closed ?s1 = []" "tr_tasks ?s1 2 = None" "tr_encap ?s1 = Map.empty"
    by (simp_all add: reserve_slot_def tunnels_start_def hm.get_emp hm_ok_def)
  have e: "tr_tasks ?s2 2 = None" "tr_encap ?s2 2 = None" "hm_get (tr_registry ?s2) ?p = Some ''mj-peer-abcdefg''" "tr_closed ?s2 = []"
    and up: "tr_tasks ?s2 1 = Some (?p, Up tn)" "tr_encap ?s2 1 = Some (tn, True, True)"
    unfolding bring_up_def ab k1 prod.case sp(1) sum.case using k1 sp(2) n by (simp_all add: hm.get_ins)
  have s1: "serve_step sim_kernel ?H ''self'' (tunnels_start []) ?s1" by (rule serve_step.connected) (simp_all add: tunnels_start_def)
  have s2: "serve_step sim_kernel ?H ''self'' ?s1 ?s2" by (rule serve_step.set_up[OF t1])
  have s3: "serve_step sim_kernel ?H ''self'' ?s2 (reserve_slot 2 ?p ?s2)" by (rule serve_step.connected[OF e(1,2)])
  have reach: "(serve_step sim_kernel ?H ''self'')\<^sup>*\<^sup>* (tunnels_start []) tunnel_trace"
    unfolding tunnel_trace_def Let_def using s1 s2 s3 by (meson rtranclp.rtrancl_into_rtrancl rtranclp.rtrancl_refl)
  have g: "hm_get (tr_registry tunnel_trace) ?p = Some ''mj-peer-abcdefg''" "tr_closed tunnel_trace = [(2, 2, ''duplicate tunnel'')]"
    and t: "tr_tasks tunnel_trace 1 = Some (?p, Up tn)" "tr_encap tunnel_trace 1 \<noteq> None"
    using e up by (simp_all add: tunnel_trace_def Let_def reserve_slot_def[of 2])
  then show ?thesis
    using tunnel_registry_live[OF sim_tun_kernel_ok reach, THEN conjunct2, THEN conjunct1, rule_format, OF t(1)] by auto
qed

section \<open>Encapsulation\<close>

datatype EncapError = EncapIo string | ConnectionClosed | DatagramTooLarge nat

text \<open>What iroh answers to a datagram: nothing when it is taken.\<close>

datatype SendDatagramError = TooLarge | OtherSendError string

definition send_datagram :: "SendDatagramError option \<Rightarrow> u8 list \<Rightarrow> EncapError + unit" where
  "send_datagram answer packet =
     (case answer of
        None \<Rightarrow> Inr ()
      | Some TooLarge \<Rightarrow> Inl (DatagramTooLarge (length packet))
      | Some (OtherSendError e) \<Rightarrow> Inl (EncapIo e))"

definition recv_datagram :: "string + u8 list \<Rightarrow> EncapError + u8 list" where
  "recv_datagram r = (case r of Inl _ \<Rightarrow> Inl ConnectionClosed | Inr packet \<Rightarrow> Inr packet)"

text \<open>The two loops of \<open>spawn_encap_pair\<close>, each over its rounds: what the TUN gave and how the send went, what the connection
  gave and how the write went. The result is what was passed on and how the task ended, \<open>None\<close> while it still runs.\<close>

fun encap_tx ::
  "nat \<Rightarrow> ((string + u8 list) \<times> SendDatagramError option) list \<Rightarrow> u8 list list \<times> (EncapError + unit) option" where
  "encap_tx mtu [] = ([], None)"
| "encap_tx mtu ((Inl e, answer) # rounds) = ([], Some (Inl (EncapIo e)))"
| "encap_tx mtu ((Inr frame, answer) # rounds) =
     (let packet = take mtu frame
      in if packet = [] then ([], Some (Inr ()))
         else case send_datagram answer packet of
                Inl e \<Rightarrow> ([], Some (Inl e))
              | Inr _ \<Rightarrow> (case encap_tx mtu rounds of (sent, res) \<Rightarrow> (packet # sent, res)))"

fun encap_rx :: "((string + u8 list) \<times> (string + unit)) list \<Rightarrow> u8 list list \<times> (EncapError + unit) option" where
  "encap_rx [] = ([], None)"
| "encap_rx ((r, written) # rounds) =
     (case recv_datagram r of
        Inl ConnectionClosed \<Rightarrow> ([], Some (Inr ()))
      | Inl e \<Rightarrow> ([], Some (Inl e))
      | Inr packet \<Rightarrow>
          (case written of
             Inl e \<Rightarrow> ([], Some (Inl (EncapIo e)))
           | Inr _ \<Rightarrow> (case encap_rx rounds of (out, res) \<Rightarrow> (packet # out, res))))"

text \<open>The flooding reader of \<open>spawn_overlay\<close>.\<close>

definition overlay_flood_step :: "'c list \<Rightarrow> u8 list \<Rightarrow> ('c \<times> u8 list) list" where
  "overlay_flood_step conns packet = (case classify packet of None \<Rightarrow> [] | Some _ \<Rightarrow> map (\<lambda>c. (c, packet)) conns)"

text \<open>One packet that the connection's path finds too large ends the sending task: nothing read afterwards is sent, while the
  receiving task and the connection go on.\<close>

theorem oversized_packet_ends_sending:
  assumes "frame \<noteq> []" and "mtu \<noteq> 0"
  shows "encap_tx mtu ((Inr frame, Some TooLarge) # rounds) = ([], Some (Inl (DatagramTooLarge (length (take mtu frame)))))"
  using assms by (simp add: send_datagram_def)

section \<open>The inbound queue of the overlay\<close>

text \<open>Every connection has a task that holds it (\<open>serve_overlay_conn\<close>) and one that receives; all receivers feed one bounded
  queue and one writer drains it into the device. \<open>in_receiver\<close> gives for a receiving connection the datagram it is waiting to
  enqueue; \<open>in_got\<close> and \<open>in_written\<close> record what each received and what reached the device.\<close>

definition INBOUND_QUEUE :: nat where
  "INBOUND_QUEUE = 1024"

record 'c InboundState =
  in_conns :: "'c ConnManager"
  in_serving :: "'c \<rightharpoonup> string"
  in_used :: "'c set"
  in_receiver :: "'c \<rightharpoonup> u8 list option"
  in_queue :: "('c \<times> u8 list) list"
  in_writer :: bool
  in_written :: "('c \<times> u8 list) list"
  in_got :: "'c \<Rightarrow> u8 list list"
  in_closed :: "('c \<times> nat \<times> string) list"

definition inbound_start :: "'c InboundState" where
  "inbound_start =
     \<lparr>in_conns = conns_new, in_serving = Map.empty, in_used = {}, in_receiver = Map.empty, in_queue = [], in_writer = True,
      in_written = [], in_got = (\<lambda>_. []), in_closed = []\<rparr>"

definition overlay_connect :: "(string \<Rightarrow> u8 list) \<Rightarrow> 'c \<Rightarrow> string \<Rightarrow> 'c InboundState \<Rightarrow> 'c InboundState" where
  "overlay_connect blake3 c peer s =
     (case conn_register blake3 (in_conns s) peer c of
        (_, False) \<Rightarrow> s\<lparr>in_used := insert c (in_used s), in_closed := in_closed s @ [(c, 2, ''duplicate connection'')]\<rparr>
      | (m, True) \<Rightarrow>
          s\<lparr>in_conns := m, in_used := insert c (in_used s), in_serving := (in_serving s)(c \<mapsto> peer),
            in_receiver := (in_receiver s)(c \<mapsto> None)\<rparr>)"

definition overlay_disconnect :: "(string \<Rightarrow> u8 list) \<Rightarrow> 'c \<Rightarrow> string \<Rightarrow> 'c InboundState \<Rightarrow> 'c InboundState" where
  "overlay_disconnect blake3 c peer s =
     s\<lparr>in_receiver := (in_receiver s)(c := None), in_conns := conn_deregister blake3 (in_conns s) peer,
       in_serving := (in_serving s)(c := None)\<rparr>"

definition receive_datagram :: "'c \<Rightarrow> u8 list \<Rightarrow> 'c InboundState \<Rightarrow> 'c InboundState" where
  "receive_datagram c packet s =
     s\<lparr>in_receiver := (in_receiver s)(c \<mapsto> Some packet), in_got := (in_got s)(c := in_got s c @ [packet])\<rparr>"

definition end_receiver :: "'c \<Rightarrow> 'c InboundState \<Rightarrow> 'c InboundState" where
  "end_receiver c s = s\<lparr>in_receiver := (in_receiver s)(c := None)\<rparr>"

definition enqueue_datagram :: "'c \<Rightarrow> u8 list \<Rightarrow> 'c InboundState \<Rightarrow> 'c InboundState" where
  "enqueue_datagram c packet s =
     s\<lparr>in_receiver := (in_receiver s)(c \<mapsto> None), in_queue := in_queue s @ [(c, packet)]\<rparr>"

definition write_next :: "string + unit \<Rightarrow> 'c InboundState \<Rightarrow> 'c InboundState" where
  "write_next outcome s =
     (case in_queue s of
        [] \<Rightarrow> s
      | x # rest \<Rightarrow>
          (case outcome of
             Inl _ \<Rightarrow> s\<lparr>in_writer := False, in_queue := []\<rparr>
           | Inr _ \<Rightarrow> s\<lparr>in_queue := rest, in_written := in_written s @ [x]\<rparr>))"

inductive inbound_step :: "(string \<Rightarrow> u8 list) \<Rightarrow> 'c InboundState \<Rightarrow> 'c InboundState \<Rightarrow> bool" for blake3 where
  connect: "c \<notin> in_used s \<Longrightarrow> inbound_step blake3 s (overlay_connect blake3 c peer s)"
| datagram: "in_receiver s c = Some None \<Longrightarrow> inbound_step blake3 s (receive_datagram c packet s)"
| no_datagram: "in_receiver s c = Some None \<Longrightarrow> inbound_step blake3 s (end_receiver c s)"
| enqueue: "in_receiver s c = Some (Some packet) \<Longrightarrow> in_writer s \<Longrightarrow> length (in_queue s) < INBOUND_QUEUE \<Longrightarrow>
    inbound_step blake3 s (enqueue_datagram c packet s)"
| writer_gone: "in_receiver s c = Some (Some packet) \<Longrightarrow> \<not> in_writer s \<Longrightarrow> inbound_step blake3 s (end_receiver c s)"
| writing: "in_writer s \<Longrightarrow> in_queue s \<noteq> [] \<Longrightarrow> inbound_step blake3 s (write_next outcome s)"
| disconnect: "in_serving s c = Some peer \<Longrightarrow> inbound_step blake3 s (overlay_disconnect blake3 c peer s)"

definition from_conn :: "'c \<Rightarrow> ('c \<times> u8 list) list \<Rightarrow> u8 list list" where
  "from_conn c xs = map snd (filter (\<lambda>x. fst x = c) xs)"

definition waiting :: "'c InboundState \<Rightarrow> 'c \<Rightarrow> u8 list list" where
  "waiting s c = (case in_receiver s c of Some (Some packet) \<Rightarrow> [packet] | _ \<Rightarrow> [])"

definition queue_inv :: "'c InboundState \<Rightarrow> bool" where
  "queue_inv s \<longleftrightarrow>
     length (in_queue s) \<le> INBOUND_QUEUE \<and>
     (\<forall>c. prefix (from_conn c (in_written s @ in_queue s)) (in_got s c)) \<and>
     (in_writer s \<longrightarrow> (\<forall>c. in_receiver s c \<noteq> None \<longrightarrow> from_conn c (in_written s @ in_queue s) @ waiting s c = in_got s c)) \<and>
     (\<forall>c. c \<notin> in_used s \<longrightarrow> in_got s c = [] \<and> in_receiver s c = None \<and> in_serving s c = None)"

definition serving_inv :: "'c InboundState \<Rightarrow> bool" where
  "serving_inv s \<longleftrightarrow>
     hm_ok (by_peer (in_conns s)) \<and> (\<forall>p c. hm_get (by_peer (in_conns s)) p = Some c \<longleftrightarrow> in_serving s c = Some p) \<and>
     (\<forall>c. c \<notin> in_used s \<longrightarrow> in_serving s c = None) \<and> (\<forall>c. in_receiver s c \<noteq> None \<longrightarrow> in_serving s c \<noteq> None)"

lemma from_conn_append: "from_conn c (xs @ ys) = from_conn c xs @ from_conn c ys"
  by (simp add: from_conn_def)

lemma from_conn_one: "from_conn c [(c', x)] = (if c' = c then [x] else [])"
  by (simp add: from_conn_def)

lemma queue_step:
  assumes "inbound_step blake3 s s'" and inv: "queue_inv s"
  shows "queue_inv s'"
  using assms(1)
proof cases
  case (connect c peer)
  obtain m r where r: "conn_register blake3 (in_conns s) peer c = (m, r)" by fastforce
  have "in_got s c = []" "in_receiver s c = None" using inv connect by (auto simp: queue_inv_def)
  moreover from this(1) have "from_conn c (in_written s @ in_queue s) = []" using inv unfolding queue_inv_def by (metis prefix_Nil)
  ultimately show ?thesis using inv connect by (cases r) (auto simp: queue_inv_def overlay_connect_def r waiting_def)
next
  case (datagram c packet)
  have "from_conn c (in_written s @ in_queue s) = in_got s c" if "in_writer s"
    using inv datagram that by (auto simp: queue_inv_def waiting_def split: option.splits)
  moreover have "prefix (from_conn c (in_written s @ in_queue s)) (in_got s c @ [packet])"
    using inv by (auto simp: queue_inv_def)
  moreover have "c \<in> in_used s" using inv datagram by (auto simp: queue_inv_def)
  ultimately show ?thesis using inv datagram by (auto simp: queue_inv_def receive_datagram_def waiting_def)
next
  case (no_datagram c)
  then show ?thesis using inv by (auto simp: queue_inv_def end_receiver_def waiting_def)
next
  case (enqueue c packet)
  have e: "from_conn c (in_written s @ in_queue s) @ [packet] = in_got s c"
    using inv enqueue by (auto simp: queue_inv_def waiting_def split: option.splits)
  have "c \<in> in_used s" using inv enqueue by (auto simp: queue_inv_def)
  then show ?thesis
    using inv enqueue e[symmetric] by (auto simp: queue_inv_def enqueue_datagram_def waiting_def from_conn_append from_conn_one)
next
  case (writer_gone c packet)
  then show ?thesis using inv by (auto simp: queue_inv_def end_receiver_def waiting_def)
next
  case (writing outcome)
  then obtain x rest where q: "in_queue s = x # rest" by (cases "in_queue s") auto
  have f: "from_conn c (in_written s @ x # rest) = from_conn c ((in_written s @ [x]) @ rest)" for c by simp
  have "prefix (from_conn c (in_written s)) (in_got s c)" for c
    using inv unfolding queue_inv_def from_conn_append by (meson prefix_order.trans prefixI)
  then show ?thesis
    using inv writing q by (cases outcome) (auto simp: queue_inv_def write_next_def waiting_def)
next
  case (disconnect c peer)
  then show ?thesis using inv by (auto simp: queue_inv_def overlay_disconnect_def waiting_def)
qed

lemma serving_step:
  assumes "inbound_step blake3 s s'" and inv: "serving_inv s"
  shows "serving_inv s'"
  using assms(1)
proof cases
  case (connect c peer)
  then have "in_serving s c = None" using inv by (simp add: serving_inv_def)
  then show ?thesis using inv connect
    by (auto simp: serving_inv_def overlay_connect_def conn_register_def hm.get_ins hm.ok_ins split: if_splits)
next
  case (disconnect c peer)
  have ok: "hm_ok (by_peer (in_conns s))" and reg: "\<And>p c. hm_get (by_peer (in_conns s)) p = Some c \<longleftrightarrow> in_serving s c = Some p"
    using inv by (auto simp: serving_inv_def)
  have "hm_get (hm_remove peer (by_peer (in_conns s))) p = Some c' \<longleftrightarrow> c' \<noteq> c \<and> in_serving s c' = Some p" for p c'
  proof (cases "p = peer")
    case True
    have "c' = c" if "in_serving s c' = Some peer" using reg[of peer c] reg[of peer c'] disconnect(2) that by simp
    then show ?thesis using True by (auto simp: hm.get_rem[OF ok])
  next
    case False
    then show ?thesis using reg disconnect(2) by (auto simp: hm.get_rem[OF ok])
  qed
  then show ?thesis using inv disconnect(1) by (simp add: serving_inv_def overlay_disconnect_def conn_deregister_def hm.ok_rem)
qed (use inv in \<open>auto simp: serving_inv_def receive_datagram_def end_receiver_def enqueue_datagram_def write_next_def split: list.splits sum.splits\<close>)

lemma inbound_invariant:
  assumes "(inbound_step blake3)\<^sup>*\<^sup>* inbound_start s"
  shows "queue_inv s \<and> serving_inv s"
  using assms
proof (induction rule: rtranclp_induct)
  case base
  then show ?case
    by (simp add: queue_inv_def serving_inv_def inbound_start_def conns_new_def from_conn_def hm.get_emp hm.ok_emp)
next
  case (step s s')
  then show ?case using queue_step serving_step by blast
qed

text \<open>C17. Datagrams reach the overlay device in order and none is lost on the way. In every interleaving of the receivers, the
  writer and the coming and going of connections: the queue never exceeds its bound; what the device got from a connection
  is a prefix of what was received there; once the queue is drained and a receiver waits for its next datagram, it is all of it;
  and a peer is registered exactly while one connection of it is served.\<close>

theorem overlay_inbound_in_order:
  assumes "(inbound_step blake3)\<^sup>*\<^sup>* inbound_start s"
  shows "length (in_queue s) \<le> INBOUND_QUEUE \<and>
    (\<forall>c. prefix (from_conn c (in_written s)) (in_got s c)) \<and>
    (\<forall>c. in_writer s \<and> in_queue s = [] \<and> in_receiver s c = Some None \<longrightarrow> from_conn c (in_written s) = in_got s c) \<and>
    (\<forall>p c. hm_get (by_peer (in_conns s)) p = Some c \<longleftrightarrow> in_serving s c = Some p)"
proof -
  have q: "queue_inv s" and v: "serving_inv s" using inbound_invariant[OF assms] by auto
  have "prefix (from_conn c (in_written s)) (in_got s c)" for c
    using q unfolding queue_inv_def from_conn_append by (meson prefix_order.trans prefixI)
  moreover have "from_conn c (in_written s) = in_got s c" if "in_writer s" "in_queue s = []" "in_receiver s c = Some None" for c
    using q that by (auto simp: queue_inv_def waiting_def split: option.splits)
  ultimately show ?thesis using q v by (simp add: queue_inv_def serving_inv_def)
qed

text \<open>Witness of C17: a connection delivers two datagrams, the second still waits in the queue.\<close>

theorem overlay_inbound_in_order_witness:
  "\<exists>s. (inbound_step (\<lambda>_. replicate 32 0))\<^sup>*\<^sup>* inbound_start s \<and> in_queue s = [(1::nat, [2])] \<and> in_written s = [(1, [1])] \<and>
     prefix (from_conn 1 (in_written s)) (in_got s 1) \<and> hm_get (by_peer (in_conns s)) ''p'' = Some 1"
proof -
  let ?H = "\<lambda>_. replicate 32 (0 :: u8)"
  let ?s1 = "overlay_connect ?H (1::nat) ''p'' inbound_start"
  let ?s2 = "receive_datagram 1 [1] ?s1" let ?s3 = "enqueue_datagram 1 [1] ?s2"
  let ?s4 = "receive_datagram 1 [2] ?s3" let ?s5 = "enqueue_datagram 1 [2] ?s4" let ?s6 = "write_next (Inr ()) ?s5"
  have r: "conn_register ?H conns_new ''p'' (1::nat) = (fst (conn_register ?H conns_new ''p'' 1), True)"
    by (simp add: conn_register_def conns_new_def hm.get_emp)
  have c: "in_receiver ?s1 1 = Some None" "in_queue ?s1 = []" "in_writer ?s1" "in_written ?s1 = []" "in_serving ?s1 1 = Some ''p''"
    by (simp_all add: overlay_connect_def inbound_start_def conn_register_def conns_new_def hm.get_emp)
  note d = receive_datagram_def enqueue_datagram_def write_next_def
  have "inbound_step ?H inbound_start ?s1" by (rule inbound_step.connect) (simp add: inbound_start_def)
  moreover have "inbound_step ?H ?s1 ?s2" by (rule inbound_step.datagram[OF c(1)])
  moreover have "inbound_step ?H ?s2 ?s3" by (rule inbound_step.enqueue) (use c in \<open>simp_all add: d INBOUND_QUEUE_def\<close>)
  moreover have "inbound_step ?H ?s3 ?s4" by (rule inbound_step.datagram) (simp add: d)
  moreover have "inbound_step ?H ?s4 ?s5" by (rule inbound_step.enqueue) (use c in \<open>simp_all add: d INBOUND_QUEUE_def\<close>)
  moreover have "inbound_step ?H ?s5 ?s6" by (rule inbound_step.writing) (use c in \<open>simp_all add: d\<close>)
  ultimately have reach: "(inbound_step ?H)\<^sup>*\<^sup>* inbound_start ?s6" by (meson converse_rtranclp_into_rtranclp rtranclp.rtrancl_refl)
  have e: "in_queue ?s6 = [(1, [2])]" "in_written ?s6 = [(1, [1])]" "in_serving ?s6 1 = Some ''p''"
    using c by (simp_all add: d)
  show ?thesis using overlay_inbound_in_order[OF reach] e by (intro exI[of _ ?s6] conjI reach) blast+
qed

text \<open>A write that fails ends the writer for good. The kernel refuses a packet that is neither IPv4 nor IPv6, so one malformed
  datagram of one peer stops the delivery of every peer's traffic, while all connections stay registered.\<close>

theorem failed_write_ends_delivery:
  assumes "in_queue s \<noteq> []" and "(inbound_step blake3)\<^sup>*\<^sup>* (write_next (Inl e) s) s'"
  shows "\<not> in_writer s' \<and> in_written s' = in_written s"
  using assms(2)
proof (induction rule: rtranclp_induct)
  case base
  then show ?case using assms(1) by (cases "in_queue s") (simp_all add: write_next_def)
next
  case (step t t')
  show ?case
    using step(2)
  proof cases
    case (connect c peer)
    then show ?thesis using step(3) by (auto simp: overlay_connect_def conn_register_def)
  qed (use step(3) in \<open>auto simp: receive_datagram_def end_receiver_def enqueue_datagram_def overlay_disconnect_def\<close>)
qed

section \<open>The gossip transport\<close>

datatype 'p GossipEvent = Received 'p | NeighborUp string | NeighborDown string | OtherEvent

text \<open>\<open>recv\<close> on what the stream yields from now on: the new neighbour count, the result, and what is left of the stream.\<close>

fun gossip_recv :: "nat \<Rightarrow> (string + 'p GossipEvent) list \<Rightarrow> nat \<times> (GossipError + 'p) \<times> (string + 'p GossipEvent) list" where
  "gossip_recv n [] = (n, Inl Closed, [])"
| "gossip_recv n (Inl e # evs) = (n, Inl (Transport e), evs)"
| "gossip_recv n (Inr (Received content) # evs) = (n, Inr content, evs)"
| "gossip_recv n (Inr (NeighborUp _) # evs) = gossip_recv (n + 1) evs"
| "gossip_recv n (Inr (NeighborDown _) # evs) = gossip_recv (n - 1) evs"
| "gossip_recv n (Inr OtherEvent # evs) = gossip_recv n evs"

text \<open>The neighbours after some events, and events that come in pairs.\<close>

fun neighbors_after :: "string set \<Rightarrow> (string + 'p GossipEvent) list \<Rightarrow> string set" where
  "neighbors_after N [] = N"
| "neighbors_after N (Inr (NeighborUp p) # evs) = neighbors_after (insert p N) evs"
| "neighbors_after N (Inr (NeighborDown p) # evs) = neighbors_after (N - {p}) evs"
| "neighbors_after N (_ # evs) = neighbors_after N evs"

fun paired :: "string set \<Rightarrow> (string + 'p GossipEvent) list \<Rightarrow> bool" where
  "paired N [] = True"
| "paired N (Inr (NeighborUp p) # evs) = (p \<notin> N \<and> paired (insert p N) evs)"
| "paired N (Inr (NeighborDown p) # evs) = (p \<in> N \<and> paired (N - {p}) evs)"
| "paired N (_ # evs) = paired N evs"

text \<open>The count that gates the first claim and the rejoin loop is the number of neighbours, and \<open>recv\<close> returns the next payload.\<close>

lemma gossip_recv_counts:
  assumes "finite N" and "paired N evs" and "gossip_recv (card N) evs = (n, res, rest)"
  shows "\<exists>used. evs = used @ rest \<and> n = card (neighbors_after N used) \<and> finite (neighbors_after N used) \<and>
    paired (neighbors_after N used) rest \<and>
    (\<forall>content. res = Inr content \<longleftrightarrow> used \<noteq> [] \<and> last used = Inr (Received content))"
  using assms
proof (induction N evs rule: paired.induct)
  case (2 N p evs)
  then obtain used where "evs = used @ rest \<and> n = card (neighbors_after (insert p N) used) \<and> finite (neighbors_after (insert p N) used) \<and>
    paired (neighbors_after (insert p N) used) rest \<and> (\<forall>content. res = Inr content \<longleftrightarrow> used \<noteq> [] \<and> last used = Inr (Received content))"
    by auto
  then show ?case by (intro exI[of _ "Inr (NeighborUp p) # used"]) auto
next
  case (3 N p evs)
  then obtain used where "evs = used @ rest \<and> n = card (neighbors_after (N - {p}) used) \<and> finite (neighbors_after (N - {p}) used) \<and>
    paired (neighbors_after (N - {p}) used) rest \<and> (\<forall>content. res = Inr content \<longleftrightarrow> used \<noteq> [] \<and> last used = Inr (Received content))"
    by (auto simp: card_Diff_singleton)
  then show ?case by (intro exI[of _ "Inr (NeighborDown p) # used"]) auto
qed (auto intro: exI[of _ "[_]"])

end
