(* ===== verification/Dns.thy ===== *)
theory Dns
  imports Services Leased_Names
begin

text \<open>
  The \<open>.mesh\<close> DNS responder, \<open>dns_responder.rs\<close>: the name tables and the answer to a query.

  A trait object is a record of its methods. The wire format belongs to the \<open>simple_dns\<close> crate:
  \<open>parse\<close> and \<open>build\<close> are parameters, as is \<open>char_string\<close>, whether a text fits one DNS character
  string. A query name is its dotted text. Locks are never poisoned here, the poisoned branches
  (which answer as if the table were empty or unclaimed) are left out. The two clocks are arguments
  of the tables that read them.
\<close>

definition MAX_RESPONSE_LEN :: nat where
  "MAX_RESPONSE_LEN = 512"

definition LEASED_NAME_RESOLVE_STALE_MS :: u64 where
  "LEASED_NAME_RESOLVE_STALE_MS = 90000"

definition PRE_CLAIM_GATEWAY :: ipv4 where
  "PRE_CLAIM_GATEWAY = ipv4_of_octets 192 168 1 1"

section \<open>Name tables\<close>

record NameTable =
  lookup_a :: "string \<Rightarrow> ipv4 list option"
  exists_name :: "string \<Rightarrow> bool"
  lookup_srv :: "string \<Rightarrow> u16 option"
  lookup_txt :: "string \<Rightarrow> (string, string) btree_map option"

definition no_answers :: NameTable where
  "no_answers =
     \<lparr>lookup_a = \<lambda>_. None, exists_name = \<lambda>_. False, lookup_srv = \<lambda>_. None, lookup_txt = \<lambda>_. None\<rparr>"

definition is_well_known_name :: "string \<Rightarrow> bool" where
  "is_well_known_name name =
     (let lower = to_ascii_lowercase (trim_end_matches CHR ''.'' name)
      in case strip_suffix ''.mesh'' lower of
           Some label \<Rightarrow> is_reserved_service_name label
         | None \<Rightarrow> False)"

definition current_gateway :: "ipv4 option \<Rightarrow> ipv4" where
  "current_gateway gateway = (case gateway of Some g \<Rightarrow> g | None \<Rightarrow> PRE_CLAIM_GATEWAY)"

definition well_known_table :: "ipv4 option \<Rightarrow> NameTable" where
  "well_known_table gateway =
     \<lparr>lookup_a = (\<lambda>name. if is_well_known_name name then Some [current_gateway gateway] else None),
      exists_name = is_well_known_name,
      lookup_srv = \<lambda>_. None,
      lookup_txt = \<lambda>_. None\<rparr>"

text \<open>\<open>Iterator::find_map\<close>.\<close>

fun find_map :: "('a \<Rightarrow> 'b option) \<Rightarrow> 'a list \<Rightarrow> 'b option" where
  "find_map f [] = None"
| "find_map f (x # xs) = (case f x of Some y \<Rightarrow> Some y | None \<Rightarrow> find_map f xs)"

definition composite_table :: "NameTable list \<Rightarrow> NameTable" where
  "composite_table tables =
     \<lparr>lookup_a = (\<lambda>name. find_map (\<lambda>t. lookup_a t name) tables),
      exists_name = (\<lambda>name. list_ex (\<lambda>t. exists_name t name) tables),
      lookup_srv = (\<lambda>name. find_map (\<lambda>t. lookup_srv t name) tables),
      lookup_txt = (\<lambda>name. find_map (\<lambda>t. lookup_txt t name) tables)\<rparr>"

definition book_key :: "string \<Rightarrow> string option" where
  "book_key name = strip_suffix ''.mesh'' (trim_end_matches CHR ''.'' name)"

definition owner_stale :: "LivenessTracker option \<Rightarrow> u64 \<Rightarrow> string \<Rightarrow> bool" where
  "owner_stale liveness now owner_node_id =
     (case liveness of Some tracker \<Rightarrow> is_stale tracker owner_node_id now | None \<Rightarrow> False)"

definition get_if_live ::
  "ServiceBookV2 \<Rightarrow> LivenessTracker option \<Rightarrow> u64 \<Rightarrow> string \<Rightarrow> (ServiceEntryV2 \<Rightarrow> 'a) \<Rightarrow> 'a option" where
  "get_if_live store liveness now key extract =
     (case bt_get store key of
        None \<Rightarrow> None
      | Some entry \<Rightarrow>
          if owner_stale liveness now (s2_owner_node_id entry) then None else Some (extract entry))"

definition service_table :: "ServiceBookV2 \<Rightarrow> LivenessTracker option \<Rightarrow> u64 \<Rightarrow> NameTable" where
  "service_table store liveness now =
     \<lparr>lookup_a = (\<lambda>name. case book_key name of
        None \<Rightarrow> None
      | Some key \<Rightarrow>
          (case get_if_live store liveness now key s2_ip of
             Some (V4 v4) \<Rightarrow> Some [v4]
           | Some (V6 _) \<Rightarrow> None
           | None \<Rightarrow> None)),
      exists_name = (\<lambda>name. case book_key name of
        Some key \<Rightarrow> get_if_live store liveness now key (\<lambda>_. ()) \<noteq> None
      | None \<Rightarrow> False),
      lookup_srv = (\<lambda>name. case book_key name of
        None \<Rightarrow> None
      | Some key \<Rightarrow>
          (case get_if_live store liveness now key s2_port of
             Some p \<Rightarrow> if p \<noteq> 0 then Some p else None
           | None \<Rightarrow> None)),
      lookup_txt = (\<lambda>name. case book_key name of
        None \<Rightarrow> None
      | Some key \<Rightarrow> get_if_live store liveness now key s2_txt)\<rparr>"

definition resolves :: "LeasedName \<Rightarrow> u64 \<Rightarrow> bool" where
  "resolves e now_ms \<longleftrightarrow> saturating_sub now_ms (wall_clock (le_renewed_at e)) \<le> LEASED_NAME_RESOLVE_STALE_MS"

definition get_if_fresh :: "LeasedNameBook \<Rightarrow> string \<Rightarrow> u64 \<Rightarrow> (LeasedName \<Rightarrow> 'a) \<Rightarrow> 'a option" where
  "get_if_fresh store key now_ms extract =
     (case bt_get store key of
        None \<Rightarrow> None
      | Some e \<Rightarrow> if \<not> resolves e now_ms then None else Some (extract e))"

definition leased_name_table :: "LeasedNameBook \<Rightarrow> u64 \<Rightarrow> NameTable" where
  "leased_name_table store wall_now =
     \<lparr>lookup_a = (\<lambda>name. case book_key name of
        None \<Rightarrow> None
      | Some key \<Rightarrow>
          (case get_if_fresh store key wall_now le_ip of
             Some (V4 v4) \<Rightarrow> Some [v4]
           | Some (V6 _) \<Rightarrow> None
           | None \<Rightarrow> None)),
      exists_name = (\<lambda>name. case book_key name of
        Some key \<Rightarrow> get_if_fresh store key wall_now (\<lambda>_. ()) \<noteq> None
      | None \<Rightarrow> False),
      lookup_srv = (\<lambda>name. case book_key name of
        None \<Rightarrow> None
      | Some key \<Rightarrow>
          (case get_if_fresh store key wall_now le_port of
             Some p \<Rightarrow> if p \<noteq> 0 then Some p else None
           | None \<Rightarrow> None)),
      lookup_txt = \<lambda>_. None\<rparr>"

text \<open>The daemon's table.\<close>

definition dns_table ::
  "ipv4 option \<Rightarrow> ServiceBookV2 \<Rightarrow> LivenessTracker \<Rightarrow> LeasedNameBook \<Rightarrow> u64 \<Rightarrow> u64 \<Rightarrow> NameTable" where
  "dns_table gateway store liveness leased monotonic_now wall_now =
     composite_table
       [well_known_table gateway, service_table store (Some liveness) monotonic_now,
        leased_name_table leased wall_now]"

section \<open>Queries and replies\<close>

datatype QType = TYPE_A | TYPE_SRV | TYPE_TXT | TYPE_Other nat

record Question =
  qname :: string
  qtype :: QType

record Query =
  query_id :: u16
  query_questions :: "Question list"

datatype RData =
    RD_A ipv4
  | RD_SRV (srv_priority: u16) (srv_weight: u16) (srv_port: u16) (srv_target: string)
  | RD_TXT "string list"
  | RD_SOA (soa_mname: string) (soa_rname: string) (soa_serial: u32) (soa_refresh: int) (soa_retry: int)
      (soa_expire: int) (soa_minimum: u32)

record ResourceRecord =
  rr_name :: string
  rr_ttl :: u32
  rr_rdata :: RData

datatype RCode = NoError | NameError

record Reply =
  reply_id :: u16
  reply_authoritative :: bool
  reply_rcode :: RCode
  reply_questions :: "Question list"
  reply_answers :: "ResourceRecord list"
  reply_name_servers :: "ResourceRecord list"

definition new_reply :: "u16 \<Rightarrow> Reply" where
  "new_reply i =
     \<lparr>reply_id = i, reply_authoritative = True, reply_rcode = NoError, reply_questions = [],
      reply_answers = [], reply_name_servers = []\<rparr>"

definition mesh_soa_record :: ResourceRecord where
  "mesh_soa_record =
     \<lparr>rr_name = ''mesh.'', rr_ttl = 30,
      rr_rdata = RD_SOA ''hello.mesh.'' ''ops.hello.mesh.'' 1 3600 600 86400 30\<rparr>"

text \<open>The records answering a question; \<open>TXT\<close> drops the pairs that do not fit a character string.\<close>

definition txt_strings :: "(string, string) btree_map \<Rightarrow> string list" where
  "txt_strings m = map (\<lambda>(k, v). k @ ''='' @ v) m"

definition answers_for :: "(string \<Rightarrow> bool) \<Rightarrow> NameTable \<Rightarrow> Question \<Rightarrow> ResourceRecord list option" where
  "answers_for char_string table q =
     (case qtype q of
        TYPE_A \<Rightarrow>
          (case lookup_a table (qname q) of
             Some addrs \<Rightarrow>
               if addrs = [] then None
               else Some (map (\<lambda>addr. \<lparr>rr_name = qname q, rr_ttl = 30, rr_rdata = RD_A addr\<rparr>) addrs)
           | None \<Rightarrow> None)
      | TYPE_SRV \<Rightarrow>
          (case lookup_srv table (qname q) of
             Some port \<Rightarrow> Some [\<lparr>rr_name = qname q, rr_ttl = 30, rr_rdata = RD_SRV 0 0 port (qname q)\<rparr>]
           | None \<Rightarrow> None)
      | TYPE_TXT \<Rightarrow>
          (case lookup_txt table (qname q) of
             Some m \<Rightarrow>
               if m = [] then None
               else Some [\<lparr>rr_name = qname q, rr_ttl = 30, rr_rdata = RD_TXT (filter char_string (txt_strings m))\<rparr>]
           | None \<Rightarrow> None)
      | TYPE_Other _ \<Rightarrow> None)"

definition build_reply :: "(string \<Rightarrow> bool) \<Rightarrow> NameTable \<Rightarrow> Query \<Rightarrow> Reply" where
  "build_reply char_string table query =
     (let reply = new_reply (query_id query)
      in case query_questions query of
           question # _ \<Rightarrow>
             (let answers = answers_for char_string table question;
                  name_exists = exists_name table (qname question);
                  reply = reply\<lparr>reply_questions := [question]\<rparr>
              in case answers of
                   Some records \<Rightarrow> reply\<lparr>reply_answers := records\<rparr>
                 | None \<Rightarrow>
                     if name_exists then reply
                     else reply\<lparr>reply_rcode := NameError, reply_name_servers := [mesh_soa_record]\<rparr>)
         | [] \<Rightarrow> reply\<lparr>reply_rcode := NameError, reply_name_servers := [mesh_soa_record]\<rparr>)"

definition handle_query ::
  "('b \<Rightarrow> Query option) \<Rightarrow> (Reply \<Rightarrow> u8 list option) \<Rightarrow> (string \<Rightarrow> bool) \<Rightarrow> 'b \<Rightarrow> NameTable \<Rightarrow> u8 list option" where
  "handle_query parse build char_string query_bytes table =
     (case parse query_bytes of
        None \<Rightarrow> None
      | Some query \<Rightarrow>
          (case build (build_reply char_string table query) of
             None \<Rightarrow> None
           | Some bytes \<Rightarrow> if MAX_RESPONSE_LEN < length bytes then None else Some bytes))"

text \<open>The receive loop: a datagram gives a reply to its sender or nothing, a receive error is skipped.\<close>

fun dns_recv_loop ::
  "('b \<Rightarrow> Query option) \<Rightarrow> (Reply \<Rightarrow> u8 list option) \<Rightarrow> (string \<Rightarrow> bool) \<Rightarrow>
   (string + 'b \<times> SocketAddr \<times> NameTable) list \<Rightarrow> (u8 list \<times> SocketAddr) list" where
  "dns_recv_loop parse build char_string [] = []"
| "dns_recv_loop parse build char_string (Inl err # rest) = dns_recv_loop parse build char_string rest"
| "dns_recv_loop parse build char_string (Inr (bytes, peer, table) # rest) =
     (case handle_query parse build char_string bytes table of
        Some reply \<Rightarrow> [(reply, peer)]
      | None \<Rightarrow> []) @ dns_recv_loop parse build char_string rest"

section \<open>The contract of a name table\<close>

text \<open>A table that has an answer of any type for a name reports that name as existing. This is what
  keeps a reply from answering a name and denying it at once.\<close>

locale name_table =
  fixes t :: NameTable
  assumes a_known: "lookup_a t name \<noteq> None \<Longrightarrow> exists_name t name"
    and srv_known: "lookup_srv t name \<noteq> None \<Longrightarrow> exists_name t name"
    and txt_known: "lookup_txt t name \<noteq> None \<Longrightarrow> exists_name t name"
begin

lemma answers_known: "answers_for char_string t q \<noteq> None \<Longrightarrow> exists_name t (qname q)"
  by (auto simp: answers_for_def split: QType.splits option.splits if_splits
      intro: a_known srv_known txt_known)

lemma answers_nonempty: "answers_for char_string t q = Some rs \<Longrightarrow> rs \<noteq> []"
  by (auto simp: answers_for_def split: QType.splits option.splits if_splits)

text \<open>The three shapes of a reply: an answer, no data, no such name.\<close>

lemma reply_shapes:
  assumes "query_questions query = q # rest" and "r = build_reply char_string t query"
  shows "reply_id r = query_id query \<and> reply_authoritative r \<and> reply_questions r = [q] \<and>
    (if exists_name t (qname q)
     then reply_rcode r = NoError \<and> reply_name_servers r = [] \<and>
          reply_answers r = (case answers_for char_string t q of Some rs \<Rightarrow> rs | None \<Rightarrow> [])
     else reply_rcode r = NameError \<and> reply_name_servers r = [mesh_soa_record] \<and> reply_answers r = [])"
  using assms answers_known[of char_string q]
  by (auto simp: build_reply_def new_reply_def Let_def split: option.splits)

end

lemma find_map_Some: "find_map f xs = Some y \<Longrightarrow> \<exists>x\<in>set xs. f x = Some y"
  by (induction xs) (auto split: option.splits)

lemma composite_name_table:
  assumes "\<forall>t\<in>set ts. name_table t"
  shows "name_table (composite_table ts)"
proof
  fix name
  show "exists_name (composite_table ts) name" if "lookup_a (composite_table ts) name \<noteq> None"
    using that assms by (auto simp: composite_table_def list_ex_iff dest!: find_map_Some dest: name_table.a_known)
  show "exists_name (composite_table ts) name" if "lookup_srv (composite_table ts) name \<noteq> None"
    using that assms by (auto simp: composite_table_def list_ex_iff dest!: find_map_Some dest: name_table.srv_known)
  show "exists_name (composite_table ts) name" if "lookup_txt (composite_table ts) name \<noteq> None"
    using that assms by (auto simp: composite_table_def list_ex_iff dest!: find_map_Some dest: name_table.txt_known)
qed

interpretation none: name_table no_answers
  by unfold_locales (simp_all add: no_answers_def)

interpretation wk: name_table "well_known_table gateway" for gateway
  by unfold_locales (auto simp: well_known_table_def split: if_splits)

interpretation svc: name_table "service_table store liveness now" for store liveness now
  by unfold_locales
    (auto simp: service_table_def get_if_live_def split: option.splits if_splits IpAddr.splits)

interpretation lsd: name_table "leased_name_table store now" for store now
  by unfold_locales
    (auto simp: leased_name_table_def get_if_fresh_def split: option.splits if_splits IpAddr.splits)

interpretation dns: name_table "dns_table gateway store liveness leased mnow wnow"
  for gateway store liveness leased mnow wnow
  unfolding dns_table_def
  by (rule composite_name_table)
    (simp add: wk.name_table_axioms svc.name_table_axioms lsd.name_table_axioms)

section \<open>Properties\<close>

text \<open>What the mesh knows about a name at query time: the entry of a live owner, or a fresh lease.\<close>

definition live_service :: "ServiceBookV2 \<Rightarrow> LivenessTracker \<Rightarrow> u64 \<Rightarrow> string \<Rightarrow> ServiceEntryV2 option" where
  "live_service store liveness mnow name =
     (case book_key name of
        None \<Rightarrow> None
      | Some key \<Rightarrow>
          (case bt_get store key of
             Some e \<Rightarrow> if is_stale liveness (s2_owner_node_id e) mnow then None else Some e
           | None \<Rightarrow> None))"

definition fresh_lease :: "LeasedNameBook \<Rightarrow> u64 \<Rightarrow> string \<Rightarrow> LeasedName option" where
  "fresh_lease leased wnow name =
     (case book_key name of
        None \<Rightarrow> None
      | Some key \<Rightarrow>
          (case bt_get leased key of
             Some e \<Rightarrow> if resolves e wnow then Some e else None
           | None \<Rightarrow> None))"

lemma dns_table_exists:
  "exists_name (dns_table gateway store liveness leased mnow wnow) name \<longleftrightarrow>
     is_well_known_name name \<or> live_service store liveness mnow name \<noteq> None \<or> fresh_lease leased wnow name \<noteq> None"
  by (auto simp: dns_table_def composite_table_def well_known_table_def service_table_def leased_name_table_def
      live_service_def fresh_lease_def get_if_live_def get_if_fresh_def owner_stale_def
      split: option.splits if_splits)

text \<open>A query name stands for a key when they agree up to the zone, trailing dots and case. Where the query and the keys are
  spelled in lower case this is the lookup of the tables.\<close>

definition stands_for :: "string \<Rightarrow> string \<Rightarrow> bool" where
  "stands_for name key \<longleftrightarrow> to_ascii_lowercase (trim_end_matches CHR ''.'' name) = to_ascii_lowercase (key @ ''.mesh'')"

definition lower_case :: "string \<Rightarrow> bool" where
  "lower_case s \<longleftrightarrow> to_ascii_lowercase s = s"

lemma lower_case_trimmed: "lower_case s \<Longrightarrow> lower_case (trim_end_matches c s)"
proof -
  assume "lower_case s"
  then have "\<forall>x\<in>set s. to_ascii_lowercase_char x = x"
    unfolding lower_case_def to_ascii_lowercase_def by (induction s) auto
  then show "lower_case (trim_end_matches c s)"
    unfolding lower_case_def to_ascii_lowercase_def by (intro map_idI) (auto simp: trim_end_matches_def dest: set_dropWhileD)
qed

lemma strip_suffix_Some: "strip_suffix p s = Some t \<longleftrightarrow> s = t @ p"
proof
  assume "strip_suffix p s = Some t"
  then have t: "take (length p) (rev s) = rev p" "t = take (length s - length p) s"
    by (auto simp: strip_suffix_def ends_with_def starts_with_def split: if_splits)
  from t(1) have "drop (length s - length p) s = p" by (simp add: take_rev)
  then show "s = t @ p" unfolding t(2) by (metis append_take_drop_id)
qed (simp add: strip_suffix_def ends_with_def starts_with_def)

lemma book_key_stands_for:
  assumes "lower_case name" and "lower_case key"
  shows "book_key name = Some key \<longleftrightarrow> stands_for name key"
  using lower_case_trimmed[OF assms(1), of "CHR ''.''"] assms(2)
  by (simp add: book_key_def stands_for_def strip_suffix_Some lower_case_def to_ascii_lowercase_def to_ascii_lowercase_char_def byte_def)

lemma lower_case_lookups:
  assumes "lower_case name"
  shows "\<forall>key\<in>set (map fst store). lower_case key \<Longrightarrow> live_service store liveness mnow name = None \<longleftrightarrow>
      (\<forall>key e. bt_get store key = Some e \<and> stands_for name key \<longrightarrow> is_stale liveness (s2_owner_node_id e) mnow)"
    and "\<forall>key\<in>set (map fst leased). lower_case key \<Longrightarrow> fresh_lease leased wnow name = None \<longleftrightarrow>
      (\<forall>key e. bt_get leased key = Some e \<and> stands_for name key \<longrightarrow> \<not> resolves e wnow)"
proof -
  have key: "lower_case key" if "\<forall>key\<in>set (map fst m). lower_case key" "bt_get m key = Some e" for m :: "(string \<times> 'v) list" and key e
    using that by (force simp: bt_get_def dest: map_of_SomeD)
  note b = book_key_stands_for[OF assms]
  show "live_service store liveness mnow name = None \<longleftrightarrow>
      (\<forall>key e. bt_get store key = Some e \<and> stands_for name key \<longrightarrow> is_stale liveness (s2_owner_node_id e) mnow)"
    if "\<forall>key\<in>set (map fst store). lower_case key"
    using b key[OF that] by (fastforce simp: live_service_def split: option.splits if_splits)
  show "fresh_lease leased wnow name = None \<longleftrightarrow>
      (\<forall>key e. bt_get leased key = Some e \<and> stands_for name key \<longrightarrow> \<not> resolves e wnow)"
    if "\<forall>key\<in>set (map fst leased). lower_case key"
    using b key[OF that] by (fastforce simp: fresh_lease_def split: option.splits if_splits)
qed

text \<open>The address a name resolves to: the gateway, the live service, the fresh lease, in this order.\<close>

definition resolved_addr ::
  "ipv4 option \<Rightarrow> ServiceBookV2 \<Rightarrow> LivenessTracker \<Rightarrow> LeasedNameBook \<Rightarrow> u64 \<Rightarrow> u64 \<Rightarrow> string \<Rightarrow> ipv4 option" where
  "resolved_addr gateway store liveness leased mnow wnow name =
     (if is_well_known_name name then Some (current_gateway gateway)
      else
        (case map_option s2_ip (live_service store liveness mnow name) of
           Some (V4 a) \<Rightarrow> Some a
         | _ \<Rightarrow> (case map_option le_ip (fresh_lease leased wnow name) of Some (V4 a) \<Rightarrow> Some a | _ \<Rightarrow> None)))"

lemma dns_table_a:
  "lookup_a (dns_table gateway store liveness leased mnow wnow) name =
     map_option (\<lambda>a. [a]) (resolved_addr gateway store liveness leased mnow wnow name)"
  by (auto simp: dns_table_def composite_table_def well_known_table_def service_table_def leased_name_table_def
      resolved_addr_def live_service_def fresh_lease_def get_if_live_def get_if_fresh_def owner_stale_def
      split: option.splits if_splits IpAddr.splits)

text \<open>C13. The DNS answers of the daemon: every reply to a parsed query echoes its id and question. A well-known name in any
  spelling is answered with the gateway, which no service or lease can shadow. For queries and books in lower case, a name
  is denied, with the zone's SOA, exactly when it is not well-known and stands neither for a service of a live owner nor
  for a fresh lease; otherwise the reply is without error and SOA, and an address query is answered with exactly the
  address the name resolves to, that of the service or else of the lease. A reply is sent only if it fits 512 bytes.\<close>

theorem dns_answers:
  assumes "query_questions query = q # rest"
    and "r = build_reply char_string (dns_table gateway store liveness leased mnow wnow) query"
    and "parse bytes = Some query"
    and "is_well_known_name (qname q) \<or> lower_case (qname q)"
    and "\<forall>key\<in>set (map fst store) \<union> set (map fst leased). lower_case key"
  shows "reply_id r = query_id query \<and> reply_questions r = [q] \<and>
    (reply_rcode r = NameError \<longleftrightarrow>
       \<not> is_well_known_name (qname q) \<and>
       (\<forall>key e. bt_get store key = Some e \<and> stands_for (qname q) key \<longrightarrow> is_stale liveness (s2_owner_node_id e) mnow) \<and>
       (\<forall>key e. bt_get leased key = Some e \<and> stands_for (qname q) key \<longrightarrow> \<not> resolves e wnow)) \<and>
    reply_name_servers r = (if reply_rcode r = NameError then [mesh_soa_record] else []) \<and>
    (reply_rcode r = NameError \<longrightarrow> reply_answers r = []) \<and>
    (qtype q = TYPE_A \<longrightarrow>
       map rr_rdata (reply_answers r) =
         (case resolved_addr gateway store liveness leased mnow wnow (qname q) of Some a \<Rightarrow> [RD_A a] | None \<Rightarrow> [])) \<and>
    (\<forall>out. handle_query parse build char_string bytes (dns_table gateway store liveness leased mnow wnow) = Some out
       \<longleftrightarrow> build r = Some out \<and> length out \<le> 512)"
proof -
  let ?t = "dns_table gateway store liveness leased mnow wnow"
  note shape = dns.reply_shapes[OF assms(1,2)] and ex = dns_table_exists[of gateway store liveness leased mnow wnow "qname q"]
  have addr: "resolved_addr gateway store liveness leased mnow wnow (qname q) = None"
    if "\<not> exists_name ?t (qname q)"
    using that dns.a_known[of gateway store liveness leased mnow wnow "qname q"]
    by (cases "resolved_addr gateway store liveness leased mnow wnow (qname q)") (auto simp: dns_table_a)
  have out: "\<forall>out. handle_query parse build char_string bytes ?t = Some out \<longleftrightarrow> build r = Some out \<and> length out \<le> 512"
    using assms(2,3) by (auto simp: handle_query_def MAX_RESPONSE_LEN_def split: option.splits)
  have a: "qtype q = TYPE_A \<longrightarrow>
       map rr_rdata (reply_answers r) =
         (case resolved_addr gateway store liveness leased mnow wnow (qname q) of Some a \<Rightarrow> [RD_A a] | None \<Rightarrow> [])"
  proof
    assume "qtype q = TYPE_A"
    then have "answers_for char_string ?t q =
        map_option (\<lambda>a. [\<lparr>rr_name = qname q, rr_ttl = 30, rr_rdata = RD_A a\<rparr>])
          (resolved_addr gateway store liveness leased mnow wnow (qname q))"
      by (simp add: answers_for_def dns_table_a option.map_comp comp_def split: option.splits)
    then show "map rr_rdata (reply_answers r) =
         (case resolved_addr gateway store liveness leased mnow wnow (qname q) of Some a \<Rightarrow> [RD_A a] | None \<Rightarrow> [])"
      using shape addr
      by (cases "resolved_addr gateway store liveness leased mnow wnow (qname q)"; cases "exists_name ?t (qname q)") simp_all
  qed
  have known: "reply_rcode r = NameError \<longleftrightarrow>
       \<not> is_well_known_name (qname q) \<and>
       (\<forall>key e. bt_get store key = Some e \<and> stands_for (qname q) key \<longrightarrow> is_stale liveness (s2_owner_node_id e) mnow) \<and>
       (\<forall>key e. bt_get leased key = Some e \<and> stands_for (qname q) key \<longrightarrow> \<not> resolves e wnow)"
  proof (cases "is_well_known_name (qname q)")
    case True
    then show ?thesis using shape ex by simp
  next
    case False
    then have "lower_case (qname q)" using assms(4) by simp
    from lower_case_lookups[OF this] show ?thesis using shape ex False assms(5) by (auto split: if_splits)
  qed
  have "reply_id r = query_id query" "reply_questions r = [q]"
    "reply_name_servers r = (if reply_rcode r = NameError then [mesh_soa_record] else [])"
    "reply_rcode r = NameError \<longrightarrow> reply_answers r = []"
    using shape by (auto split: if_splits)
  then show ?thesis using known out a by blast
qed

text \<open>Witness of C13: \<open>HELLO.mesh.\<close> before a subnet is claimed.\<close>

theorem dns_answers_witness:
  "map rr_rdata (reply_answers (build_reply (\<lambda>_. True) (dns_table None [] (tracker_new 1 2) [] 5 5)
     \<lparr>query_id = 7, query_questions = [\<lparr>qname = ''HELLO.mesh.'', qtype = TYPE_A\<rparr>]\<rparr>)) = [RD_A PRE_CLAIM_GATEWAY]"
proof -
  have "is_well_known_name ''HELLO.mesh.''" by code_simp
  then have "resolved_addr None [] (tracker_new 1 2) [] 5 5 ''HELLO.mesh.'' = Some PRE_CLAIM_GATEWAY"
    by (simp add: resolved_addr_def current_gateway_def)
  then show ?thesis
    using dns_answers[of "\<lparr>query_id = 7, query_questions = [\<lparr>qname = ''HELLO.mesh.'', qtype = TYPE_A\<rparr>]\<rparr>"
        "\<lparr>qname = ''HELLO.mesh.'', qtype = TYPE_A\<rparr>" "[]" _ "\<lambda>_. True" None "[]" "tracker_new 1 2" "[]" 5 5
        "\<lambda>_ :: unit. Some \<lparr>query_id = 7, query_questions = [\<lparr>qname = ''HELLO.mesh.'', qtype = TYPE_A\<rparr>]\<rparr>" "()",
        OF _ refl, of "\<lambda>_. None"] \<open>is_well_known_name ''HELLO.mesh.''\<close>
    by simp
qed

text \<open>A published service does not resolve under another spelling of its name, although the interface
  documents names as case-insensitive and the well-known names are.\<close>

theorem service_lookup_case_sensitive:
  "lookup_a (service_table [(''printer'', service_at ''a'' 1 1)] None 5) ''printer.mesh.'' \<noteq> None \<and>
   exists_name (service_table [(''printer'', service_at ''a'' 1 1)] None 5) ''Printer.mesh.'' = False"
  by code_simp

text \<open>A service with long TXT data gets no reply at all: if the wire form is at least as long as the
  text it carries, three pairs of 200 characters exceed the limit and the reply is dropped.\<close>

definition txt_len :: "Reply \<Rightarrow> nat" where
  "txt_len r = sum_list (map (\<lambda>rr. case rr_rdata rr of RD_TXT ss \<Rightarrow> sum_list (map length ss) | _ \<Rightarrow> 0) (reply_answers r))"

theorem long_txt_unanswered:
  assumes "\<And>r b. build r = Some b \<Longrightarrow> txt_len r \<le> length b"
    and "parse bytes = Some \<lparr>query_id = 7, query_questions = [\<lparr>qname = ''nas.mesh'', qtype = TYPE_TXT\<rparr>]\<rparr>"
  shows "handle_query parse build (\<lambda>s. length s \<le> 255) bytes
     (service_table [(''nas'', service_at ''a'' 1 1\<lparr>s2_txt := map (\<lambda>k. ([k], replicate 200 CHR ''x'')) ''abc''\<rparr>)] None 5) = None"
proof -
  let ?q = "\<lparr>qname = ''nas.mesh'', qtype = TYPE_TXT\<rparr>"
  let ?e = "service_at ''a'' 1 1\<lparr>s2_txt := map (\<lambda>k. ([k], replicate 200 CHR ''x'')) ''abc''\<rparr>"
  let ?t = "service_table [(''nas'', ?e)] None 5"
  let ?r = "build_reply (\<lambda>s. length s \<le> 255) ?t \<lparr>query_id = 7, query_questions = [?q]\<rparr>"
  have k: "book_key ''nas.mesh'' = Some ''nas''" by code_simp
  have l: "lookup_txt ?t ''nas.mesh'' = Some (map (\<lambda>k. ([k], replicate 200 CHR ''x'')) ''abc'')"
    by (simp add: service_table_def k get_if_live_def owner_stale_def bt_get_def)
  have "txt_len ?r = 606"
    by (simp add: txt_len_def build_reply_def new_reply_def answers_for_def l[simplified] txt_strings_def Let_def)
  then show ?thesis
    using assms(1)[of ?r] by (auto simp: handle_query_def assms(2) MAX_RESPONSE_LEN_def split: option.splits)
qed

end
