(* ===== verification/Directory.thy ===== *)
theory Directory
  imports Dns Claims Persist
begin

text \<open>
  The read-only projection of the replicated books that \<open>mjolnir-hello\<close> and the control API show,
  from \<open>bin/mjolnir-meshd.rs\<close>: the snapshot of the file \<open>directory.json\<close>, the snapshot of the
  control API, and the user records a node originates (seed file and identity spool).

  Parameters: the text of addresses and networks (\<open>ip_text\<close>, \<open>socket_text\<close>, \<open>to_string\<close>), the JSON
  encoder and decoder, \<open>network\<close>. A string is its UTF-8 bytes; slicing off a character boundary is
  a panic, \<open>Inl\<close>.
\<close>

section \<open>Snapshots\<close>

definition DIRECTORY_SCHEMA_VERSION :: u32 where
  "DIRECTORY_SCHEMA_VERSION = 1"

record DirectoryNode =
  dn_node_id :: string
  dn_subnet :: "string option"
  dn_backhaul_addr :: string
  dn_name :: "string option"

record DirectoryNeighbor =
  db_node_id :: string
  db_addrs :: "string list"
  db_subnet :: "string option"
  db_name :: "string option"

record DirectoryGateway =
  dg_node_id :: string
  dg_cost_hint :: u16

record DirectoryIdentity =
  di_username :: string
  di_display_name :: string
  di_last_seen_unix :: u64

record DirectoryService =
  ds_name :: string
  ds_ip :: string
  ds_port :: u16
  ds_protocol :: string
  ds_hostname :: "string option"
  ds_txt :: "(string, string) btree_map"
  ds_host_mac :: "string option"

record DirectoryLostName =
  dl_name :: string
  dl_winner_node_id :: string

record DirectorySnapshot =
  dir_version :: u32
  dir_node :: DirectoryNode
  dir_neighbors :: "DirectoryNeighbor list"
  dir_identities :: "DirectoryIdentity list"
  dir_services :: "DirectoryService list"
  dir_lost_names :: "DirectoryLostName list"
  dir_gateways :: "DirectoryGateway list"

text \<open>The sections both builders write out in the same way.\<close>

definition directory_node ::
  "(Ipv4Net \<Rightarrow> ipv4) \<Rightarrow> (IpNet \<Rightarrow> string) \<Rightarrow> ClaimStore \<Rightarrow> NodeNameBook \<Rightarrow> string \<Rightarrow> ipv4 \<Rightarrow> DirectoryNode" where
  "directory_node network to_string claims names self_id backhaul_ip =
     \<lparr>dn_node_id = self_id, dn_subnet = owned_client_subnet network to_string claims self_id,
      dn_backhaul_addr = show_ipv4 backhaul_ip, dn_name = map_option nn_name (bt_get names self_id)\<rparr>"

definition directory_neighbors ::
  "(Ipv4Net \<Rightarrow> ipv4) \<Rightarrow> (IpNet \<Rightarrow> string) \<Rightarrow> (SocketAddr \<Rightarrow> string) \<Rightarrow> ClaimStore \<Rightarrow> AddrBook \<Rightarrow>
   NodeNameBook \<Rightarrow> string \<Rightarrow> DirectoryNeighbor list" where
  "directory_neighbors network to_string socket_text claims addrs names self_id =
     map (\<lambda>entry.
       \<lparr>db_node_id = pa_node_id entry, db_addrs = map socket_text (pa_direct_addrs entry),
        db_subnet = owned_client_subnet network to_string claims (pa_node_id entry),
        db_name = map_option nn_name (bt_get names (pa_node_id entry))\<rparr>)
       (filter (\<lambda>entry. pa_node_id entry \<noteq> self_id) (map snd addrs))"

definition directory_identities :: "UserBook \<Rightarrow> DirectoryIdentity list" where
  "directory_identities users =
     map (\<lambda>u. \<lparr>di_username = ue_username u, di_display_name = ue_display_name u,
                di_last_seen_unix = wall_clock (ue_updated_at u)\<rparr>) (map snd users)"

definition build_directory_snapshot ::
  "(Ipv4Net \<Rightarrow> ipv4) \<Rightarrow> (IpNet \<Rightarrow> string) \<Rightarrow> (SocketAddr \<Rightarrow> string) \<Rightarrow> (IpAddr \<Rightarrow> string) \<Rightarrow> ClaimStore \<Rightarrow>
   AddrBook \<Rightarrow> UserBook \<Rightarrow> ServiceBook \<Rightarrow> NodeNameBook \<Rightarrow> string \<Rightarrow> ipv4 \<Rightarrow> (string \<times> EgressAd) list \<Rightarrow>
   DirectorySnapshot" where
  "build_directory_snapshot network to_string socket_text ip_text claims addrs users svcs names self_id
     backhaul_ip gateways =
     \<lparr>dir_version = DIRECTORY_SCHEMA_VERSION,
      dir_node = directory_node network to_string claims names self_id backhaul_ip,
      dir_neighbors = directory_neighbors network to_string socket_text claims addrs names self_id,
      dir_identities = directory_identities users,
      dir_services =
        map (\<lambda>(name, entry).
          \<lparr>ds_name = name, ds_ip = ip_text (se_ip entry), ds_port = se_port entry,
           ds_protocol = se_protocol entry, ds_hostname = Some (se_hostname entry),
           ds_txt = se_txt entry, ds_host_mac = Some (format_mac (se_host_mac entry))\<rparr>) svcs,
      dir_lost_names = [],
      dir_gateways = map (\<lambda>(node_id, ad). \<lparr>dg_node_id = node_id, dg_cost_hint = ea_cost_hint ad\<rparr>) gateways\<rparr>"

definition build_directory_snapshot_v2 ::
  "(Ipv4Net \<Rightarrow> ipv4) \<Rightarrow> (IpNet \<Rightarrow> string) \<Rightarrow> (SocketAddr \<Rightarrow> string) \<Rightarrow> (IpAddr \<Rightarrow> string) \<Rightarrow> ClaimStore \<Rightarrow>
   AddrBook \<Rightarrow> UserBook \<Rightarrow> ServiceBookV2 \<Rightarrow> LostNameMap \<Rightarrow> NodeNameBook \<Rightarrow> string \<Rightarrow> ipv4 \<Rightarrow>
   DirectorySnapshot" where
  "build_directory_snapshot_v2 network to_string socket_text ip_text claims addrs users svcs lost names self_id
     backhaul_ip =
     \<lparr>dir_version = DIRECTORY_SCHEMA_VERSION,
      dir_node = directory_node network to_string claims names self_id backhaul_ip,
      dir_neighbors = directory_neighbors network to_string socket_text claims addrs names self_id,
      dir_identities = directory_identities users,
      dir_services =
        map (\<lambda>(name, entry).
          \<lparr>ds_name = name, ds_ip = ip_text (s2_ip entry), ds_port = s2_port entry,
           ds_protocol = s2_protocol entry, ds_hostname = None,
           ds_txt = s2_txt entry, ds_host_mac = map_option format_mac (s2_host_mac entry)\<rparr>) svcs,
      dir_lost_names = map (\<lambda>(name, l). \<lparr>dl_name = name, dl_winner_node_id = ln_winner_node_id l\<rparr>) lost,
      dir_gateways = []\<rparr>"

section \<open>Slicing\<close>

text \<open>\<open>str::is_char_boundary\<close> on UTF-8 bytes, and \<open>&s[..n]\<close>.\<close>

definition is_char_boundary :: "string \<Rightarrow> nat \<Rightarrow> bool" where
  "is_char_boundary s n \<longleftrightarrow>
     n = 0 \<or> n = length s \<or> n < length s \<and> \<not> (128 \<le> byte (s ! n) \<and> byte (s ! n) < 192)"

definition slice_to :: "string \<Rightarrow> nat \<Rightarrow> string + string" where
  "slice_to s n = (if is_char_boundary s n then Inr (take n s) else Inl ''not a char boundary'')"

definition short_pubkey :: "string \<Rightarrow> string + string" where
  "short_pubkey pubkey =
     (let n = min (length pubkey) 8
      in case slice_to pubkey n of
           Inl panic \<Rightarrow> Inl panic
         | Inr front \<Rightarrow> Inr (front @ [CHR 0xE2, CHR 0x80, CHR 0xA6]))"

section \<open>Leased names in the projection\<close>

text \<open>A mapping over a list that stops at the first panic.\<close>

fun map_panic :: "('a \<Rightarrow> string + 'b) \<Rightarrow> 'a list \<Rightarrow> string + 'b list" where
  "map_panic f [] = Inr []"
| "map_panic f (x # xs) =
     (case f x of
        Inl p \<Rightarrow> Inl p
      | Inr y \<Rightarrow> (case map_panic f xs of Inl p \<Rightarrow> Inl p | Inr ys \<Rightarrow> Inr (y # ys)))"

definition leased_row :: "(IpAddr \<Rightarrow> string) \<Rightarrow> string \<times> LeasedName \<Rightarrow> string + DirectoryService" where
  "leased_row ip_text p =
     (case p of (name, e) \<Rightarrow>
        (case short_pubkey (le_owner_pubkey e) of
           Inl panic \<Rightarrow> Inl panic
         | Inr owner \<Rightarrow>
             (let protocol =
                (case le_scheme e of
                   Some s \<Rightarrow> if s = ''http'' then ''http'' else if s = ''https'' then ''https'' else ''_tcp''
                 | None \<Rightarrow> ''_tcp'')
              in Inr \<lparr>ds_name = name, ds_ip = ip_text (le_ip e), ds_port = le_port e, ds_protocol = protocol,
                      ds_hostname = None, ds_txt = bt_insert ''owner'' owner [], ds_host_mac = None\<rparr>)))"

definition leased_directory_services ::
  "(IpAddr \<Rightarrow> string) \<Rightarrow> LeasedNameBook \<Rightarrow> u64 \<Rightarrow> string + DirectoryService list" where
  "leased_directory_services ip_text bk now_ms =
     map_panic (leased_row ip_text)
       (filter (\<lambda>(_, e). saturating_sub now_ms (wall_clock (le_renewed_at e)) \<le> LEASED_NAME_RESOLVE_STALE_MS) bk)"

definition persist_directory ::
  "(DirectorySnapshot \<Rightarrow> bytes option) \<Rightarrow> IoEnv \<Rightarrow> DirectorySnapshot \<Rightarrow> path \<Rightarrow> FileSys \<Rightarrow> FileSys" where
  "persist_directory = persist_state"

definition directory_projection ::
  "(Ipv4Net \<Rightarrow> ipv4) \<Rightarrow> (IpNet \<Rightarrow> string) \<Rightarrow> (SocketAddr \<Rightarrow> string) \<Rightarrow> (IpAddr \<Rightarrow> string) \<Rightarrow> ClaimStore \<Rightarrow>
   AddrBook \<Rightarrow> UserBook \<Rightarrow> ServiceBook \<Rightarrow> NodeNameBook \<Rightarrow> LeasedNameBook \<Rightarrow> LivenessTracker \<Rightarrow> string \<Rightarrow>
   ipv4 \<Rightarrow> u64 \<Rightarrow> u64 \<Rightarrow> string + DirectorySnapshot" where
  "directory_projection network to_string socket_text ip_text claims addrs users svcs names leased liveness
     self_id backhaul_ip monotonic_now wall_now =
     (let gateways = live_gateways liveness monotonic_now;
          snapshot = build_directory_snapshot network to_string socket_text ip_text claims addrs users svcs
                       names self_id backhaul_ip gateways
      in case leased_directory_services ip_text leased wall_now of
           Inl panic \<Rightarrow> Inl panic
         | Inr rows \<Rightarrow> Inr (snapshot\<lparr>dir_services := dir_services snapshot @ rows\<rparr>))"

section \<open>User records a node originates\<close>

text \<open>The seed file; \<open>text\<close> is \<open>None\<close> when it cannot be read, \<open>clock\<close> the wall clock at each line.\<close>

definition seed_entry :: "string \<Rightarrow> u64 \<Rightarrow> string \<Rightarrow> UserEntry" where
  "seed_entry self_id now line =
     (let (username, display) =
        (case split_once CHR '':'' line of Some (u, d) \<Rightarrow> (trim u, trim d) | None \<Rightarrow> (line, line))
      in \<lparr>ue_username = username, ue_display_name = display, ue_registered_by = self_id, ue_attrs = [],
          ue_updated_at = now_hlc now self_id\<rparr>)"

definition load_user_seed :: "string option \<Rightarrow> string \<Rightarrow> (string \<Rightarrow> u64) \<Rightarrow> UserEntry list" where
  "load_user_seed content self_id clock =
     (case content of
        None \<Rightarrow> []
      | Some txt \<Rightarrow>
          map (\<lambda>line. seed_entry self_id (clock line) line)
            (filter (\<lambda>l. l \<noteq> [] \<and> \<not> starts_with ''#'' l) (map trim (lines txt))))"

record SpoolSubmission =
  ss_pubkey :: string
  ss_sig :: string
  ss_challenge :: string
  ss_label :: "string option"

definition spool_submission_to_user_entry ::
  "SpoolSubmission \<Rightarrow> UserEntry option \<Rightarrow> string \<Rightarrow> u64 \<Rightarrow> string + UserEntry" where
  "spool_submission_to_user_entry sub existing self_id now =
     (let label = (case ss_label sub of Some l \<Rightarrow> if trim l \<noteq> [] then Some (trim l) else None | None \<Rightarrow> None);
          display =
            (case label of
               Some l \<Rightarrow> Inr l
             | None \<Rightarrow>
                 (case existing of
                    Some e \<Rightarrow> Inr (ue_display_name e)
                  | None \<Rightarrow> short_pubkey (ss_pubkey sub)))
      in case display of
           Inl panic \<Rightarrow> Inl panic
         | Inr display_name \<Rightarrow>
             Inr \<lparr>ue_username = ss_pubkey sub, ue_display_name = display_name, ue_registered_by = self_id,
                  ue_attrs = bt_insert ''pubkey'' (ss_pubkey sub) [], ue_updated_at = now_hlc now self_id\<rparr>)"

text \<open>Merging a record the node originates: kept when it is new or newer.\<close>

definition merge_own_user :: "UserEntry \<Rightarrow> UserBook \<Rightarrow> UserBook" where
  "merge_own_user entry bk =
     (case merge_user (bt_get bk (ue_username entry)) entry of
        Inserted \<Rightarrow> bt_insert (ue_username entry) entry bk
      | Updated \<Rightarrow> bt_insert (ue_username entry) entry bk
      | Unchanged \<Rightarrow> bk
      | Conflict _ _ \<Rightarrow> bk)"

definition ingest_identity_file ::
  "(string \<Rightarrow> SpoolSubmission option) \<Rightarrow> string \<Rightarrow> UserBook \<Rightarrow> SpoolFile \<Rightarrow> string + UserBook \<times> Disposition" where
  "ingest_identity_file from_json self_id bk f =
     (if path_extension (sf_name f) \<noteq> Some ''json'' then Inr (bk, KeptFile)
      else
        (case sf_read f of
           None \<Rightarrow> Inr (bk, KeptFile)
         | Some bytes \<Rightarrow>
             (case from_json bytes of
                None \<Rightarrow> Inr (bk, QuarantinedFile)
              | Some sub \<Rightarrow>
                  (case spool_submission_to_user_entry sub (bt_get bk (ss_pubkey sub)) self_id (sf_now f) of
                     Inl panic \<Rightarrow> Inl panic
                   | Inr entry \<Rightarrow> Inr (merge_own_user entry bk, RemovedFile)))))"

fun ingest_identity_spool ::
  "(string \<Rightarrow> SpoolSubmission option) \<Rightarrow> string \<Rightarrow> SpoolFile list \<Rightarrow> UserBook \<Rightarrow>
   string + UserBook \<times> Disposition list" where
  "ingest_identity_spool from_json self_id [] bk = Inr (bk, [])"
| "ingest_identity_spool from_json self_id (f # fs) bk =
     (case ingest_identity_file from_json self_id bk f of
        Inl panic \<Rightarrow> Inl panic
      | Inr (bk', d) \<Rightarrow>
          (case ingest_identity_spool from_json self_id fs bk' of
             Inl panic \<Rightarrow> Inl panic
           | Inr (bk'', ds) \<Rightarrow> Inr (bk'', d # ds)))"

section \<open>Lemmas\<close>

lemma book_key_mesh: "book_key (n @ ''.mesh'') = Some n"
  by (simp add: book_key_def trim_end_matches_def strip_suffix_def ends_with_def starts_with_def)

lemma map_panic_Inr: "map_panic f xs = Inr ys \<Longrightarrow> list_all2 (\<lambda>x y. f x = Inr y) xs ys"
  by (induction xs arbitrary: ys) (auto split: sum.splits)

lemma leased_row_name: "leased_row ip_text p = Inr row \<Longrightarrow> ds_name row = fst p"
  by (auto simp: leased_row_def Let_def split: prod.splits sum.splits)

lemma list_all2_image:
  "list_all2 R xs ys \<Longrightarrow> (\<And>x y. R x y \<Longrightarrow> g y = f x) \<Longrightarrow> g ` set ys = f ` set xs"
  by (induction rule: list_all2_induct) auto

lemma slice_to_ascii:
  assumes "\<forall>c\<in>set s. byte c < 128" and "n \<le> length s"
  shows "slice_to s n = Inr (take n s)"
proof -
  have "is_char_boundary s n"
  proof (cases "n = length s")
    case False
    then have "n < length s" using assms(2) by simp
    then have "byte (s ! n) < 128" using assms(1) nth_mem by blast
    with \<open>n < length s\<close> show ?thesis by (simp add: is_char_boundary_def)
  qed (simp add: is_char_boundary_def)
  then show ?thesis by (simp add: slice_to_def)
qed

section \<open>Properties\<close>

text \<open>A row shows the address and port of its entry.\<close>

lemma leased_row_shows: "leased_row ip_text (n, e) = Inr row \<Longrightarrow> ds_ip row = ip_text (le_ip e) \<and> ds_port row = le_port e"
  by (auto simp: leased_row_def Let_def split: sum.splits)

lemma list_all2_set2: "list_all2 R xs ys \<Longrightarrow> \<forall>y\<in>set ys. \<exists>x\<in>set xs. R x y"
  by (induction rule: list_all2_induct) auto

lemma leased_rows:
  assumes "bt_ok leased" and "leased_directory_services ip_text leased now = Inr rows"
  shows "(\<exists>row\<in>set rows. ds_name row = n) \<longleftrightarrow> (\<exists>e. bt_get leased n = Some e \<and> resolves e now)"
    and "row \<in> set rows \<Longrightarrow> \<exists>e. bt_get leased (ds_name row) = Some e \<and> resolves e now \<and> ds_ip row = ip_text (le_ip e) \<and> ds_port row = le_port e"
proof -
  let ?fresh = "filter (\<lambda>(_, e). resolves e now) leased"
  have "map_panic (leased_row ip_text) ?fresh = Inr rows"
    using assms(2) by (simp add: leased_directory_services_def resolves_def)
  then have r: "list_all2 (\<lambda>x y. leased_row ip_text x = Inr y) ?fresh rows" by (rule map_panic_Inr)
  then have eq: "ds_name ` set rows = fst ` set ?fresh"
    by (rule list_all2_image) (rule leased_row_name)
  have "n \<in> fst ` set ?fresh \<longleftrightarrow> (\<exists>e. (n, e) \<in> set leased \<and> resolves e now)" by (auto simp: image_iff)
  then show "(\<exists>row\<in>set rows. ds_name row = n) \<longleftrightarrow> (\<exists>e. bt_get leased n = Some e \<and> resolves e now)"
    unfolding eq[symmetric] bt_get_iff[OF assms(1)] by auto
  assume "row \<in> set rows"
  then obtain k e where "(k, e) \<in> set ?fresh" and l: "leased_row ip_text (k, e) = Inr row"
    using list_all2_set2[OF r] by fastforce
  then show "\<exists>e. bt_get leased (ds_name row) = Some e \<and> resolves e now \<and> ds_ip row = ip_text (le_ip e) \<and> ds_port row = le_port e"
    using leased_row_shows[OF l] leased_row_name[OF l] by (auto simp: bt_get_iff[OF assms(1)])
qed

text \<open>For a name that is neither well known nor in the service book, the responder's table answers from the leases.\<close>

lemma dns_table_leased:
  assumes "\<not> is_well_known_name (n @ ''.mesh'')" and "bt_get store n = None"
  shows "exists_name (dns_table gateway store liveness leased mono_now now) (n @ ''.mesh'') = (\<exists>e. bt_get leased n = Some e \<and> resolves e now)"
    and "bt_get leased n = Some e \<Longrightarrow> resolves e now \<Longrightarrow>
      lookup_a (dns_table gateway store liveness leased mono_now now) (n @ ''.mesh'') = (case le_ip e of V4 a \<Rightarrow> Some [a] | V6 _ \<Rightarrow> None)"
    and "bt_get leased n = Some e \<Longrightarrow> resolves e now \<Longrightarrow>
      lookup_srv (dns_table gateway store liveness leased mono_now now) (n @ ''.mesh'') = (if le_port e = 0 then None else Some (le_port e))"
  using assms
  by (auto simp: dns_table_def composite_table_def well_known_table_def service_table_def leased_name_table_def book_key_mesh
      get_if_live_def get_if_fresh_def split: option.splits IpAddr.splits)

text \<open>C38. The directory lists what resolves: the projection is built when all owner keys are ASCII text, and its services end
  with the rows of the leased names. For a name that is neither well known nor in the service book, there is such a row
  exactly when the DNS responder, asked at the same time for the name under \<open>.mesh\<close>, reports it as existing, and the row shows the
  address and port the responder answers with (it has no answer for an IPv6 address and for port 0).\<close>

theorem directory_lists_what_resolves:
  assumes "bt_ok leased"
  shows "((\<forall>k e. bt_get leased k = Some e \<longrightarrow> (\<forall>c\<in>set (le_owner_pubkey e). byte c < 128)) \<longrightarrow>
            (\<exists>snapshot. directory_projection network to_string socket_text ip_text claims addrs users svcs names leased liveness
               self_id backhaul_ip mono_now now = Inr snapshot)) \<and>
         (\<forall>snapshot. directory_projection network to_string socket_text ip_text claims addrs users svcs names leased liveness
             self_id backhaul_ip mono_now now = Inr snapshot \<longrightarrow>
           (\<exists>rows. dir_services snapshot = dir_services (build_directory_snapshot network to_string socket_text ip_text claims addrs
                users svcs names self_id backhaul_ip (live_gateways liveness mono_now)) @ rows \<and>
              (\<forall>n. \<not> is_well_known_name (n @ ''.mesh'') \<and> bt_get store n = None \<longrightarrow>
                 ((\<exists>row\<in>set rows. ds_name row = n) \<longleftrightarrow>
                    exists_name (dns_table gateway store liveness leased mono_now now) (n @ ''.mesh'')) \<and>
                 (\<forall>row\<in>set rows. ds_name row = n \<longrightarrow>
                    (\<exists>ip. ds_ip row = ip_text ip \<and>
                       lookup_a (dns_table gateway store liveness leased mono_now now) (n @ ''.mesh'') =
                         (case ip of V4 a \<Rightarrow> Some [a] | V6 _ \<Rightarrow> None)) \<and>
                    lookup_srv (dns_table gateway store liveness leased mono_now now) (n @ ''.mesh'') =
                      (if ds_port row = 0 then None else Some (ds_port row))))))"
proof (intro conjI allI impI)
  fix snapshot assume "directory_projection network to_string socket_text ip_text claims addrs users svcs names leased liveness
    self_id backhaul_ip mono_now now = Inr snapshot"
  then obtain rows where r: "leased_directory_services ip_text leased now = Inr rows"
    and s: "dir_services snapshot = dir_services (build_directory_snapshot network to_string socket_text ip_text claims addrs
                users svcs names self_id backhaul_ip (live_gateways liveness mono_now)) @ rows"
    by (auto simp: directory_projection_def Let_def split: sum.splits)
  note rows = leased_rows[OF assms r]
  show "\<exists>rows. dir_services snapshot = dir_services (build_directory_snapshot network to_string socket_text ip_text claims addrs
                users svcs names self_id backhaul_ip (live_gateways liveness mono_now)) @ rows \<and>
              (\<forall>n. \<not> is_well_known_name (n @ ''.mesh'') \<and> bt_get store n = None \<longrightarrow>
                 ((\<exists>row\<in>set rows. ds_name row = n) \<longleftrightarrow>
                    exists_name (dns_table gateway store liveness leased mono_now now) (n @ ''.mesh'')) \<and>
                 (\<forall>row\<in>set rows. ds_name row = n \<longrightarrow>
                    (\<exists>ip. ds_ip row = ip_text ip \<and>
                       lookup_a (dns_table gateway store liveness leased mono_now now) (n @ ''.mesh'') =
                         (case ip of V4 a \<Rightarrow> Some [a] | V6 _ \<Rightarrow> None)) \<and>
                    lookup_srv (dns_table gateway store liveness leased mono_now now) (n @ ''.mesh'') =
                      (if ds_port row = 0 then None else Some (ds_port row))))"
    using rows(1) by (intro exI[of _ rows]) (auto simp: s dns_table_leased dest!: rows(2))
next
  assume ascii: "\<forall>k e. bt_get leased k = Some e \<longrightarrow> (\<forall>c\<in>set (le_owner_pubkey e). byte c < 128)"
  have row: "\<exists>row. leased_row ip_text p = Inr row" if "p \<in> set leased" for p
  proof -
    obtain k e where p: "p = (k, e)" by fastforce
    then have "\<forall>c\<in>set (le_owner_pubkey e). byte c < 128" using that ascii bt_get_iff[OF assms] by blast
    then show ?thesis by (simp add: p leased_row_def short_pubkey_def slice_to_ascii Let_def)
  qed
  have "\<exists>rows. map_panic (leased_row ip_text) ps = Inr rows" if "set ps \<subseteq> set leased" for ps
    using that by (induction ps) (use row in fastforce)+
  then have "\<exists>rows. leased_directory_services ip_text leased now = Inr rows"
    unfolding leased_directory_services_def by (metis filter_is_subset)
  then show "\<exists>snapshot. directory_projection network to_string socket_text ip_text claims addrs users svcs names leased liveness
               self_id backhaul_ip mono_now now = Inr snapshot"
    by (auto simp: directory_projection_def Let_def)
qed

text \<open>Witness of C38: a fresh lease and a lapsed one.\<close>

theorem directory_lists_what_resolves_witness:
  "\<exists>snapshot. directory_projection std_network (\<lambda>_. []) (\<lambda>_. []) (\<lambda>_. ''ip'') [] [] [] [] []
      [(''a'', lease_at ''k'' 1 5000), (''b'', lease_at ''l'' 1 200000)] (tracker_new 1 1) ''me'' 1 0 200000 = Inr snapshot \<and>
     (\<exists>row\<in>set (dir_services snapshot). ds_name row = ''b'')"
proof -
  let ?bk = "[(''a'', lease_at ''k'' 1 5000), (''b'', lease_at ''l'' 1 200000)]"
  have ok: "bt_ok ?bk" by (simp add: bt_ok_def less_char_def)
  have ascii: "\<forall>k e. bt_get ?bk k = Some e \<longrightarrow> (\<forall>c\<in>set (le_owner_pubkey e). byte c < 128)"
    by (auto simp: bt_get_def lease_at_def byte_def split: if_splits)
  note C = directory_lists_what_resolves[OF ok, of std_network "\<lambda>_. []" "\<lambda>_. []" "\<lambda>_. ''ip''" "[]" "[]" "[]" "[]" "[]" "tracker_new 1 1" "''me''" 1 0
      200000 "[]" None]
  obtain s where s: "directory_projection std_network (\<lambda>_. []) (\<lambda>_. []) (\<lambda>_. ''ip'') [] [] [] [] [] ?bk (tracker_new 1 1) ''me'' 1 0 200000 = Inr s"
    using C[THEN conjunct1] ascii by blast
  obtain rows where d: "dir_services s = dir_services (build_directory_snapshot std_network (\<lambda>_. []) (\<lambda>_. []) (\<lambda>_. ''ip'') [] [] [] [] []
      ''me'' 1 (live_gateways (tracker_new 1 1) 0)) @ rows"
    and b: "\<forall>n. \<not> is_well_known_name (n @ ''.mesh'') \<and> bt_get [] n = (None :: ServiceEntryV2 option) \<longrightarrow>
      (\<exists>row\<in>set rows. ds_name row = n) = exists_name (dns_table None [] (tracker_new 1 1) ?bk 0 200000) (n @ ''.mesh'')"
    using C[THEN conjunct2, rule_format, OF s] by blast
  have w: "\<not> is_well_known_name (''b'' @ ''.mesh'')" by code_simp
  have "exists_name (dns_table None [] (tracker_new 1 1) ?bk 0 200000) (''b'' @ ''.mesh'')"
    using w by (subst dns_table_leased)
      (simp_all add: bt_get_def lease_at_def resolves_def saturating_sub_def LEASED_NAME_RESOLVE_STALE_MS_def)
  then have "\<exists>row\<in>set rows. ds_name row = ''b''" using b[rule_format, of "''b''"] w by (simp add: bt_get_def)
  then show ?thesis using s d by auto
qed

text \<open>A no-label identity submission keeps the display name the key already has, whatever else is in
  the spool before it is handled.\<close>

theorem relabel_needs_label:
  assumes "bt_ok bk" and "bt_get bk (ss_pubkey sub) = Some old"
    and "case ss_label sub of None \<Rightarrow> True | Some l \<Rightarrow> trim l = []"
    and "from_json bytes = Some sub" and "path_extension (sf_name f) = Some ''json''" and "sf_read f = Some bytes"
  shows "\<exists>bk' new. ingest_identity_file from_json self_id bk f = Inr (bk', RemovedFile) \<and>
    bt_get bk' (ss_pubkey sub) = Some new \<and> ue_display_name new = ue_display_name old \<and>
    (\<forall>k. k \<noteq> ss_pubkey sub \<longrightarrow> bt_get bk' k = bt_get bk k)"
  using assms
  by (auto simp: ingest_identity_file_def spool_submission_to_user_entry_def merge_own_user_def
      map_simps Let_def split: option.splits MergeResult.splits)

text \<open>A leased name whose owner key is not ASCII stops the projection: a name published over gossip
  with the key \<open>kkkkkkk\<close> followed by a three-byte character is stored, and building the directory
  then panics in \<open>short_pubkey\<close>.\<close>

definition hostile_lease :: LeasedName where
  "hostile_lease = (lease_at ''kkkkkkk'' 1 5)\<lparr>le_owner_pubkey := ''kkkkkkk'' @ [CHR 0xE2, CHR 0x82, CHR 0xAC]\<rparr>"

theorem gossiped_key_panics_projection:
  "leased_directory_services (\<lambda>_. ''ip'') (leased_gossip [] (LeasedNamePublish ''x'' hostile_lease)) 5 =
     Inl ''not a char boundary''"
  by code_simp

end
