(* ===== verification/Anti_Entropy.thy ===== *)
theory Anti_Entropy
  imports Daemon Directory
begin

text \<open>
  The anti-entropy loop of \<open>bin/mjolnir-meshd.rs\<close>: what a node re-announces, re-reads and rewrites on
  start and on every tick, over the node of \<open>Daemon\<close>. Broadcasts are listed in the order of the
  code (a failing broadcast is logged and skipped, so the list holds the attempts); file writes are
  effects of \<open>Daemon\<close>.

  Parameters: the observed addresses of the endpoint, the address texts and JSON decoder of
  \<open>Directory\<close>, the clock readings and file contents of a tick (\<open>TickInput\<close>).
\<close>

definition MESH_IROH_PORT :: u16 where
  "MESH_IROH_PORT = 49737"

definition LIVENESS_STALE_THRESHOLD :: u64 where
  "LIVENESS_STALE_THRESHOLD = 60 * 1000"

definition LIVENESS_HARD_EXPIRY :: u64 where
  "LIVENESS_HARD_EXPIRY = 3600 * 1000"

definition TOMBSTONE_RETENTION :: u64 where
  "TOMBSTONE_RETENTION = 3600 * 1000"

section \<open>What a node announces\<close>

record SelfAnnounce =
  sa_ip_addrs :: "SocketAddr list"     \<comment> \<open>observed by the endpoint\<close>
  sa_relay_urls :: "string list"       \<comment> \<open>observed by the endpoint\<close>
  sa_self_id :: string
  sa_backhaul_ip :: ipv4
  sa_no_relay :: bool
  sa_node_name :: "string option"

definition build_self_addr_entry :: "(SocketAddr \<Rightarrow> string) \<Rightarrow> SelfAnnounce \<Rightarrow> u64 \<Rightarrow> PeerAddrEntry" where
  "build_self_addr_entry socket_text ctx now =
     (let direct = sa_ip_addrs ctx @ [SocketAddr (V4 (sa_backhaul_ip ctx)) MESH_IROH_PORT];
          relay_url = (if sa_no_relay ctx then None
                       else (case sa_relay_urls ctx of [] \<Rightarrow> None | u # _ \<Rightarrow> Some u))
      in peer_addr_new socket_text (sa_self_id ctx) direct relay_url (now_hlc now (sa_self_id ctx)))"

definition announce_addr_book ::
  "(SocketAddr \<Rightarrow> string) \<Rightarrow> SelfAnnounce \<Rightarrow> u64 \<Rightarrow> AddrBook \<Rightarrow> AddrBook \<times> GossipMessage list \<times> Effect list" where
  "announce_addr_book socket_text ctx now bk =
     (let snapshot = bt_insert (sa_self_id ctx) (build_self_addr_entry socket_text ctx now) bk
      in (snapshot, map (\<lambda>(node_id, entry). PeerAddrUpdate node_id entry) snapshot, [PersistAddrBook snapshot]))"

definition announce_node_name ::
  "SelfAnnounce \<Rightarrow> u64 \<Rightarrow> NodeNameBook \<Rightarrow> NodeNameBook \<times> GossipMessage list \<times> Effect list" where
  "announce_node_name ctx now bk =
     (case sa_node_name ctx of
        None \<Rightarrow> (bk, [], [])
      | Some name \<Rightarrow>
          (let entry = \<lparr>nn_node_id = sa_self_id ctx, nn_name = name,
                        nn_announced_at = now_hlc now (sa_self_id ctx)\<rparr>;
               snapshot = bt_insert (sa_self_id ctx) entry bk
           in (snapshot, map (\<lambda>(node_id, e). NodeNameAnnounce node_id e) snapshot, [PersistNodeNameBook snapshot])))"

definition announce_user_book ::
  "string option \<Rightarrow> (string \<Rightarrow> u64) \<Rightarrow> string \<Rightarrow> UserBook \<Rightarrow> UserBook \<times> GossipMessage list \<times> Effect list" where
  "announce_user_book seed clock self_id bk =
     (let snapshot = fold merge_own_user (load_user_seed seed self_id clock) bk
      in (snapshot, map (\<lambda>(username, e). UserUpdate username e) snapshot, [PersistUserBook snapshot]))"

definition announce_service_book :: "ServiceBook \<Rightarrow> GossipMessage list \<times> Effect list" where
  "announce_service_book bk = (map (\<lambda>(name, e). ServiceUpdate name e) bk, [PersistServiceBook bk])"

section \<open>The loop\<close>

record TickInput =
  ti_egress :: "EgressAd option"
  ti_beacon_now :: u64          \<comment> \<open>monotonic\<close>
  ti_sweep_now :: u64           \<comment> \<open>monotonic\<close>
  ti_addr_now :: u64            \<comment> \<open>wall clock\<close>
  ti_name_now :: u64            \<comment> \<open>wall clock\<close>
  ti_spool :: "SpoolFile list"
  ti_seed :: "string option"
  ti_seed_clock :: "string \<Rightarrow> u64"
  ti_dir_mono :: u64
  ti_dir_wall :: u64

record LoopState =
  ls_node :: Node
  ls_counter :: u64
  ls_observed :: "(string, u64) btree_map"

record LoopParams =
  lp_network :: "Ipv4Net \<Rightarrow> ipv4"
  lp_to_string :: "IpNet \<Rightarrow> string"
  lp_socket_text :: "SocketAddr \<Rightarrow> string"
  lp_ip_text :: "IpAddr \<Rightarrow> string"
  lp_from_json :: "string \<Rightarrow> SpoolSubmission option"
  lp_announce :: SelfAnnounce
  lp_incarnation :: u64

text \<open>The announcements of the books, from the address book to the directory: common to the start of
  the loop and to every tick.\<close>

definition announce_books ::
  "LoopParams \<Rightarrow> TickInput \<Rightarrow> Node \<Rightarrow>
   string + Node \<times> GossipMessage list \<times> Effect list \<times> DirectorySnapshot" where
  "announce_books p inp n =
     (let ctx = lp_announce p; self_id = sa_self_id ctx;
          (addrs, addr_msgs, addr_effs) =
            announce_addr_book (lp_socket_text p) ctx (ti_addr_now inp) (nd_addr_book n)
      in case ingest_identity_spool (lp_from_json p) self_id (ti_spool inp) (nd_user_book n) of
           Inl panic \<Rightarrow> Inl panic
         | Inr (users0, _) \<Rightarrow>
             (let (users, user_msgs, user_effs) = announce_user_book (ti_seed inp) (ti_seed_clock inp) self_id users0;
                  (svc_msgs, svc_effs) = announce_service_book (nd_services n);
                  v2 = announce_service_book_v2 (nd_services_v2 n) self_id;
                  v2_effs = (case persisted v2 of None \<Rightarrow> [] | Some st \<Rightarrow> [PersistServiceStateV2 st]);
                  (names, name_msgs, name_effs) = announce_node_name ctx (ti_name_now inp) (nd_node_names n);
                  n' = n\<lparr>nd_addr_book := addrs, nd_user_book := users, nd_node_names := names\<rparr>
              in case directory_projection (lp_network p) (lp_to_string p) (lp_socket_text p) (lp_ip_text p)
                        (nd_claims n') addrs users (nd_services n') names (nd_leased n') (nd_liveness n')
                        self_id (sa_backhaul_ip ctx) (ti_dir_mono inp) (ti_dir_wall inp) of
                   Inl panic \<Rightarrow> Inl panic
                 | Inr dir \<Rightarrow>
                     Inr (n', addr_msgs @ user_msgs @ svc_msgs @ broadcast v2 @ name_msgs,
                          addr_effs @ user_effs @ svc_effs @ v2_effs @ name_effs, dir)))"

definition beacon_step :: "LoopParams \<Rightarrow> TickInput \<Rightarrow> LoopState \<Rightarrow> LoopState \<times> GossipMessage" where
  "beacon_step p inp st =
     (case emit_liveness_beacon (sa_self_id (lp_announce p)) (lp_incarnation p) (ls_counter st) (ti_egress inp)
             (ti_beacon_now inp) (nd_liveness (ls_node st)) of
        (msg, c, lv) \<Rightarrow>
          (st\<lparr>ls_counter := c, ls_node := (ls_node st)\<lparr>nd_liveness := lv\<rparr>\<rparr>, msg))"

text \<open>Before the ticker: announce everything once, then the first beacon.\<close>

definition anti_entropy_start ::
  "LoopParams \<Rightarrow> TickInput \<Rightarrow> Node \<Rightarrow>
   string + LoopState \<times> GossipMessage list \<times> Effect list \<times> DirectorySnapshot" where
  "anti_entropy_start p inp n =
     (case announce_books p inp n of
        Inl panic \<Rightarrow> Inl panic
      | Inr (n', msgs, effs, dir) \<Rightarrow>
          (case beacon_step p inp \<lparr>ls_node = n', ls_counter = 0, ls_observed = []\<rparr> of
             (st, msg) \<Rightarrow> Inr (st, msgs @ [msg], effs, dir)))"

text \<open>One tick: beacon, sweep, the full claim map, then the books.\<close>

definition anti_entropy_tick ::
  "LoopParams \<Rightarrow> TickInput \<Rightarrow> LoopState \<Rightarrow>
   string + LoopState \<times> GossipMessage list \<times> Effect list \<times> DirectorySnapshot" where
  "anti_entropy_tick p inp st =
     (case beacon_step p inp st of
        (st1, beacon) \<Rightarrow>
          (let n1 = ls_node st1
           in case sweep_stale_lanes (nd_services_v2 n1) (nd_liveness n1) (ls_observed st1) (ti_sweep_now inp)
                     TOMBSTONE_RETENTION of
                (v2, observed, out) \<Rightarrow>
                  (let sweep_effs = (case out of None \<Rightarrow> [] | Some s \<Rightarrow> [PersistServiceStateV2 s]);
                       n2 = n1\<lparr>nd_services_v2 := v2\<rparr>;
                       claim_msgs = map (\<lambda>(cidr, entry). SubnetClaimUpdate cidr entry) (nd_claims n2)
                   in case announce_books p inp n2 of
                        Inl panic \<Rightarrow> Inl panic
                      | Inr (n3, msgs, effs, dir) \<Rightarrow>
                          Inr (st1\<lparr>ls_node := n3, ls_observed := observed\<rparr>,
                               beacon # claim_msgs @ msgs,
                               sweep_effs @ [PersistClaimsFile (nd_claims n2)] @ effs, dir))))"

section \<open>What a stream of announcements gives a receiver\<close>

context lww_lane
begin

lemma lww_keeps:
  "ok m \<Longrightarrow> get m k = Some e \<Longrightarrow> \<exists>e'. get (foldl step m ms) k = Some e' \<and> stamp e \<le> stamp e'"
proof (induction ms arbitrary: m e)
  case (Cons g ms)
  have "\<exists>e1. get (step m g) k = Some e1 \<and> stamp e \<le> stamp e1"
  proof (cases "payload g")
    case None
    then show ?thesis using Cons.prems(2) by (simp add: lww_skip)
  next
    case (Some p)
    then obtain k' x where "payload g = Some (k', x)" by (cases p) auto
    then show ?thesis
      using Cons.prems(2) by (auto simp: lww_get[OF Cons.prems(1)] intro: less_imp_le)
  qed
  then obtain e1 where e1: "get (step m g) k = Some e1" "stamp e \<le> stamp e1" by blast
  from Cons.IH[OF lww_ok[OF Cons.prems(1)] e1(1)] e1(2) show ?case by (auto intro: order_trans)
qed auto

lemma lww_reaches:
  assumes "ok m" and "g \<in> set ms" and "payload g = Some (k, e)"
  shows "\<exists>e'. get (foldl step m ms) k = Some e' \<and> stamp e \<le> stamp e'"
proof -
  obtain pre post where ms: "ms = pre @ g # post" using split_list[OF assms(2)] by blast
  let ?m = "foldl step m pre"
  have ok: "ok ?m" by (rule lww_run_ok[OF assms(1)])
  let ?e1 = "case get ?m k of None \<Rightarrow> e | Some x \<Rightarrow> if stamp x < stamp e then e else x"
  have e1: "get (step ?m g) k = Some ?e1" "stamp e \<le> stamp ?e1"
    by (simp_all add: lww_get[OF ok assms(3)] not_less split: option.splits)
  from lww_keeps[OF lww_ok[OF ok] e1(1), of post] e1(2) show ?thesis
    by (auto simp: ms intro: order_trans)
qed

lemma lww_copies:
  assumes "ok m" and "get m k = None" and "offered payload ms k = {e. r = Some e}"
  shows "get (foldl step m ms) k = r"
proof (cases r)
  case None
  then show ?thesis
    using assms run_untouched[of m ms k] by (simp add: list_all_iff)
next
  case (Some e)
  then have "known get payload m ms k = {e}" using assms(2,3) by (simp add: known_def)
  then show ?thesis using lww_latest[OF assms(1), of ms k] Some by (auto split: option.splits)
qed

end

context lane
begin

lemma offer_reaches:
  assumes "ok m" and "list_all admissible ms" and "strict_total beats (known get payload m ms k)"
    and "g \<in> set ms" and "payload g = Some (k, e)"
  shows "\<exists>e'. get (foldl step m ms) k = Some e' \<and> (e' = e \<or> beats e' e)"
proof -
  have "e \<in> known get payload m ms k" using assms(4,5) by (auto simp: known_def offered_def)
  then show ?thesis using run_best[OF assms(1-3)] by (auto simp: best_of_def split: option.splits)
qed

end

lemma bt_get_mem: "bt_get m k = Some v \<Longrightarrow> (k, v) \<in> set m"
  unfolding bt_get_def by (rule map_of_SomeD)

lemma hm_get_mem: "hm_get m k = Some v \<Longrightarrow> (k, v) \<in> set m"
  unfolding hm_get_def by (rule map_of_SomeD)

text \<open>Everything in the announced books is broadcast.\<close>

lemma announce_books_msgs:
  assumes "announce_books p inp n = Inr (n', msgs, effs, dir)"
  shows "bt_get (nd_addr_book n') k = Some a \<Longrightarrow> PeerAddrUpdate k a \<in> set msgs"
    and "bt_get (nd_user_book n') k = Some u \<Longrightarrow> UserUpdate k u \<in> set msgs"
    and "bt_get (nd_services n') k = Some s \<Longrightarrow> ServiceUpdate k s \<in> set msgs"
    and "sa_node_name (lp_announce p) \<noteq> None \<Longrightarrow> bt_get (nd_node_names n') k = Some x \<Longrightarrow>
           NodeNameAnnounce k x \<in> set msgs"
    and "book_get (nd_services_v2 n') k = Some e \<Longrightarrow> s2_owner_node_id e = sa_self_id (lp_announce p) \<Longrightarrow>
           ServicePublishV2 k e \<in> set msgs"
  using assms
  by (auto simp: announce_books_def announce_addr_book_def announce_user_book_def announce_service_book_def
      announce_node_name_def announce_service_book_v2_def book_get_def Let_def dest!: bt_get_mem
      split: sum.splits prod.splits option.splits)

lemma tick_announces:
  assumes "anti_entropy_tick p inp st = Inr (st', msgs, effs, dir)"
  obtains n2 bmsgs beffs where "announce_books p inp n2 = Inr (ls_node st', bmsgs, beffs, dir)"
    "set bmsgs \<subseteq> set msgs" "nd_claims (ls_node st') = nd_claims n2"
    "(\<lambda>(k, c). SubnetClaimUpdate k c) ` set (nd_claims n2) \<subseteq> set msgs"
proof -
  obtain st1 beacon where b: "beacon_step p inp st = (st1, beacon)" by fastforce
  obtain v2 observed out where s: "sweep_stale_lanes (nd_services_v2 (ls_node st1)) (nd_liveness (ls_node st1))
      (ls_observed st1) (ti_sweep_now inp) TOMBSTONE_RETENTION = (v2, observed, out)" by (rule prod_cases3)
  let ?n2 = "(ls_node st1)\<lparr>nd_services_v2 := v2\<rparr>"
  obtain n3 bmsgs beffs where a: "announce_books p inp ?n2 = Inr (n3, bmsgs, beffs, dir)"
    and st': "ls_node st' = n3"
    and msgs: "msgs = beacon # map (\<lambda>(cidr, entry). SubnetClaimUpdate cidr entry) (nd_claims ?n2) @ bmsgs"
    using assms by (auto simp: anti_entropy_tick_def b s Let_def split: sum.splits)
  have claims: "nd_claims n3 = nd_claims ?n2"
    using a by (auto simp: announce_books_def Let_def split: sum.splits prod.splits)
  show thesis
    by (rule that[of ?n2 bmsgs beffs]) (use a st' msgs claims in auto)
qed

section \<open>Properties\<close>

definition books_ok :: "Node \<Rightarrow> bool" where
  "books_ok n \<longleftrightarrow> bt_ok (nd_addr_book n) \<and> bt_ok (nd_user_book n) \<and> bt_ok (nd_node_names n) \<and>
     bt_ok (nd_services n) \<and> hm_ok (nd_claims n)"

text \<open>C7. Anti-entropy lets a node catch up without asking on what a tick announces. Whoever receives the broadcasts of one
  tick of a peer, between whose announcements that peer handles no message, in any order and mixed with any other traffic and
  without a process exit, holds afterwards a record at least as new as the peer's for every user and v1 service, for every
  address (its own apart), and for every node name (its own apart) if the peer has a name itself. Every subnet the peer knows
  claimed is known to be claimed by the same claim or an earlier claimant, unless claims were released or an owner restamped a
  claim. A v2 service the peer owns itself is known as the peer knows it, newer, or with an earlier claimant, unless the
  receiver holds tombstones, services were unpublished, the name is reserved or an owner changed its first-claim time. Leased
  names and v2 services the peer only learned are not announced by a tick.\<close>

theorem late_joiner_catches_up:
  assumes tick: "anti_entropy_tick p inp st = Inr (st', msgs, effs, dir)"
    and ok: "books_ok m"
    and run: "gossip_task network decode me has_lookup m rs = ((m', log), end)" "\<nexists>code. end = RunExited code"
    and heard: "set msgs \<subseteq> snd ` set (delivered decode rs)"
  shows "(\<forall>k e. bt_get (nd_user_book (ls_node st')) k = Some e \<longrightarrow>
            (\<exists>e'. bt_get (nd_user_book m') k = Some e' \<and> ue_updated_at e \<le> ue_updated_at e')) \<and>
         (\<forall>k e. bt_get (nd_services (ls_node st')) k = Some e \<longrightarrow>
            (\<exists>e'. bt_get (nd_services m') k = Some e' \<and> se_updated_at e \<le> se_updated_at e')) \<and>
         (\<forall>k e. k \<noteq> me \<longrightarrow> bt_get (nd_addr_book (ls_node st')) k = Some e \<longrightarrow>
            (\<exists>e'. bt_get (nd_addr_book m') k = Some e' \<and> pa_announced_at e \<le> pa_announced_at e')) \<and>
         (\<forall>k e. k \<noteq> me \<longrightarrow> sa_node_name (lp_announce p) \<noteq> None \<longrightarrow> nn_node_id e = k \<longrightarrow>
            bt_get (nd_node_names (ls_node st')) k = Some e \<longrightarrow>
            (\<exists>e'. bt_get (nd_node_names m') k = Some e' \<and> nn_announced_at e \<le> nn_announced_at e')) \<and>
         (\<forall>k c. list_all not_release (map snd (delivered decode rs)) \<longrightarrow>
            inj_on sc_owner_node_id (known hm_get subnet_payload (nd_claims m) (map snd (delivered decode rs)) k) \<longrightarrow>
            hm_get (nd_claims (ls_node st')) k = Some c \<longrightarrow>
            (\<exists>c'. hm_get (nd_claims m') k = Some c' \<and> (c' = c \<or> rank_less (claim_rank c') (claim_rank c)))) \<and>
         (\<forall>k e. list_all not_unpublish (map snd (delivered decode rs)) \<longrightarrow> untombstoned (nd_services_v2 m) \<longrightarrow>
            stable_claims (known book_get service_v2_payload (nd_services_v2 m) (map snd (delivered decode rs)) k) \<longrightarrow>
            \<not> is_reserved_service_name k \<longrightarrow> s2_owner_node_id e = sa_self_id (lp_announce p) \<longrightarrow>
            book_get (nd_services_v2 (ls_node st')) k = Some e \<longrightarrow>
            (\<exists>e'. book_get (nd_services_v2 m') k = Some e' \<and> (e' = e \<or> service_beats e' e)))"
proof -
  obtain n2 bmsgs beffs where a: "announce_books p inp n2 = Inr (ls_node st', bmsgs, beffs, dir)"
    and sub: "set bmsgs \<subseteq> set msgs" and cl: "nd_claims (ls_node st') = nd_claims n2"
    "(\<lambda>(k, c). SubnetClaimUpdate k c) ` set (nd_claims n2) \<subseteq> set msgs"
    using tick_announces[OF tick] by blast
  note bc = announce_books_msgs[OF a]
  let ?ms = "map snd (delivered decode rs)"
  obtain ms rest where ms: "delivered decode rs = ms @ rest"
    "(m', log) = foldl (\<lambda>s (t, g). fst (on_message network me has_lookup t s g)) (m, []) ms" "rest = []"
    using sync_run_delivers[OF run(1)[unfolded gossip_task_def]] run(2) by (cases "end") auto
  have m': "m' = fst (foldl (\<lambda>s (t, g). fst (on_message network me has_lookup t s g)) (m, []) (delivered decode rs))"
    using ms by (metis fst_conv append_Nil2)
  note lanes = on_message_fold[of network me has_lookup "(m, [])" "delivered decode rs", folded m', simplified]
  have in_ms: "g \<in> set bmsgs \<Longrightarrow> g \<in> set ?ms" for g using sub heard by auto
  have u: "\<exists>e'. bt_get (nd_user_book m') k = Some e' \<and> ue_updated_at e \<le> ue_updated_at e'"
    if "bt_get (nd_user_book (ls_node st')) k = Some e" for k e
    unfolding lanes(2) using ue.lww_reaches[OF _ in_ms[OF bc(2)[OF that]]] ok by (auto simp: books_ok_def)
  have s: "\<exists>e'. bt_get (nd_services m') k = Some e' \<and> se_updated_at e \<le> se_updated_at e'"
    if "bt_get (nd_services (ls_node st')) k = Some e" for k e
    unfolding lanes(4) using se.lww_reaches[OF _ in_ms[OF bc(3)[OF that]]] ok by (auto simp: books_ok_def)
  have ad: "\<exists>e'. bt_get (nd_addr_book m') k = Some e' \<and> pa_announced_at e \<le> pa_announced_at e'"
    if "k \<noteq> me" "bt_get (nd_addr_book (ls_node st')) k = Some e" for k e
    unfolding lanes(1) using pa.lww_reaches[OF _ in_ms[OF bc(1)[OF that(2)]], of _ me k e] ok that(1)
    by (auto simp: books_ok_def)
  have nm: "\<exists>e'. bt_get (nd_node_names m') k = Some e' \<and> nn_announced_at e \<le> nn_announced_at e'"
    if "k \<noteq> me" "sa_node_name (lp_announce p) \<noteq> None" "nn_node_id e = k" "bt_get (nd_node_names (ls_node st')) k = Some e"
    for k e
    unfolding lanes(3) using nn.lww_reaches[OF _ in_ms[OF bc(4)[OF that(2,4)]], of _ me k e] ok that(1,3)
    by (auto simp: books_ok_def)
  have c: "\<exists>c'. hm_get (nd_claims m') k = Some c' \<and> (c' = c \<or> rank_less (claim_rank c') (claim_rank c))"
    if nr: "list_all not_release ?ms" and inj: "inj_on sc_owner_node_id (known hm_get subnet_payload (nd_claims m) ?ms k)"
      and held: "hm_get (nd_claims (ls_node st')) k = Some c" for k c
  proof -
    have "(k, c) \<in> set (nd_claims n2)" using held cl(1) hm_get_mem by fastforce
    then have g: "SubnetClaimUpdate k c \<in> set ?ms" using cl(2) heard by force
    then have "c \<in> known hm_get subnet_payload (nd_claims m) ?ms k" by (force simp: known_def offered_def)
    moreover have "best_of subnet_beats (known hm_get subnet_payload (nd_claims m) ?ms k) (hm_get (nd_claims m') k)"
      unfolding lanes(7) by (rule sc.run_best[OF _ nr owners_strict_total[OF inj]]) (use ok in \<open>simp add: books_ok_def\<close>)
    ultimately show ?thesis using owners_beats[OF inj] by (auto simp: best_of_def split: option.splits)
  qed
  have v: "\<exists>e'. book_get (nd_services_v2 m') k = Some e' \<and> (e' = e \<or> service_beats e' e)"
    if "list_all not_unpublish ?ms" "untombstoned (nd_services_v2 m)"
      "stable_claims (known book_get service_v2_payload (nd_services_v2 m) ?ms k)" "\<not> is_reserved_service_name k"
      "s2_owner_node_id e = sa_self_id (lp_announce p)" "book_get (nd_services_v2 (ls_node st')) k = Some e" for k e
    unfolding lanes(5)
    by (rule sv.offer_reaches[OF that(2,1) stable_strict_total[OF that(3)] in_ms[OF bc(5)[OF that(6,5)]]]) (simp add: that(4))
  show ?thesis using u s ad nm c v by blast
qed

definition sample_params :: LoopParams where
  "sample_params =
     \<lparr>lp_network = std_network, lp_to_string = net_text, lp_socket_text = socket_key, lp_ip_text = \<lambda>_. [],
      lp_from_json = \<lambda>_. None,
      lp_announce = \<lparr>sa_ip_addrs = [], sa_relay_urls = [], sa_self_id = ''s'', sa_backhaul_ip = 0x0AFE0001,
                     sa_no_relay = True, sa_node_name = None\<rparr>,
      lp_incarnation = 1\<rparr>"

definition quiet_input :: TickInput where
  "quiet_input =
     \<lparr>ti_egress = None, ti_beacon_now = 5, ti_sweep_now = 5, ti_addr_now = 5, ti_name_now = 5, ti_spool = [],
      ti_seed = None, ti_seed_clock = \<lambda>_. 5, ti_dir_mono = 5, ti_dir_wall = 5\<rparr>"

text \<open>Witness of C7: a peer that knows one user ticks; an empty node hears it.\<close>

theorem late_joiner_catches_up_witness:
  "\<exists>st' msgs effs dir m' log end.
     anti_entropy_tick sample_params quiet_input
       \<lparr>ls_node = empty_node\<lparr>nd_user_book := sample_users\<rparr>, ls_counter = 0, ls_observed = []\<rparr> = Inr (st', msgs, effs, dir) \<and>
     gossip_task std_network Some ''me'' False empty_node (map (\<lambda>g. (0, Inr g)) msgs) = ((m', log), end) \<and>
     bt_get (nd_user_book m') ''ada'' \<noteq> None"
proof -
  let ?st = "\<lparr>ls_node = empty_node\<lparr>nd_user_book := sample_users\<rparr>, ls_counter = 0, ls_observed = []\<rparr>"
  let ?addr = "build_self_addr_entry socket_key (lp_announce sample_params) 5"
  let ?ms = "[LivenessBeacon ''s'' 1 0 None, PeerAddrUpdate ''s'' ?addr, UserUpdate ''ada'' (user_at ''ada'' ''Ada'' 1)]"
  obtain st' effs dir where t: "anti_entropy_tick sample_params quiet_input ?st = Inr (st', ?ms, effs, dir)"
    and n: "nd_user_book (ls_node st') = sample_users"
    by (simp add: anti_entropy_tick_def beacon_step_def emit_liveness_beacon_def sweep_stale_lanes_def
        announce_books_def announce_addr_book_def announce_user_book_def announce_service_book_def
        announce_service_book_v2_def announce_node_name_def load_user_seed_def directory_projection_def
        leased_directory_services_def empty_node_def empty_services_def sample_params_def quiet_input_def
        sample_users_def Let_def)
  have ok: "books_ok empty_node" by (simp add: books_ok_def empty_node_def bt_ok_def hm_ok_def)
  have "snd (gossip_task std_network Some ''me'' False empty_node (map (\<lambda>g. (0, Inr g)) ?ms)) = RunWaiting"
    by (simp add: gossip_task_def on_message_def dispatch_arms split: prod.splits option.splits)
  then obtain m' log where r:
    "gossip_task std_network Some ''me'' False empty_node (map (\<lambda>g. (0, Inr g)) ?ms) = ((m', log), RunWaiting)"
    by (metis prod.collapse)
  have h: "set ?ms \<subseteq> snd ` set (delivered Some (map (\<lambda>g. (0 :: u64, Inr g)) ?ms))" by simp
  have "bt_get (nd_user_book (ls_node st')) ''ada'' = Some (user_at ''ada'' ''Ada'' 1)"
    by (simp add: n sample_users_def bt_get_def)
  moreover have "\<nexists>code. RunWaiting = RunExited code" by simp
  ultimately have "bt_get (nd_user_book m') ''ada'' \<noteq> None"
    using late_joiner_catches_up[OF t ok r _ h, THEN conjunct1, rule_format, of "''ada''"] by force
  then show ?thesis using t r by metis
qed

text \<open>A seeded user always wins: the seed is stamped afresh on every tick, so a newer edit of the same
  user received from a peer is overwritten at the next tick, although the merge is documented to
  keep a peer's newer record from being overwritten by the seed.\<close>

theorem seed_overwrites_peer_edit:
  assumes "clock ''ada:Ada'' = 9"
  shows "bt_get (fst (announce_user_book (Some ''ada:Ada'') clock ''s'' [(''ada'', user_at ''ada'' ''Ada L'' 8)])) ''ada'' =
    Some \<lparr>ue_username = ''ada'', ue_display_name = ''Ada'', ue_registered_by = ''s'', ue_attrs = [],
          ue_updated_at = HLC 9 0 ''s''\<rparr>"
proof -
  have t: "trim ''ada:Ada'' = ''ada:Ada''" "trim ''ada'' = ''ada''" "trim ''Ada'' = ''Ada''"
    by (rule trim_id; simp add: byte_def)+
  have l: "lines ''ada:Ada'' = [''ada:Ada'']" by (simp add: lines_def strip_cr_def)
  show ?thesis
    using assms by (simp add: announce_user_book_def load_user_seed_def seed_entry_def t l starts_with_def now_hlc_def
        merge_own_user_def merge_user_def user_at_def bt_get_def HLC_less_eval cmp_simps Let_def)
qed

end
