(* ===== verification/Claim_Loop.thy ===== *)
theory Claim_Loop
  imports Daemon
begin

text \<open>
  The claim manager as it runs: \<open>claim_manager\<close> of \<open>bin/mjolnir-meshd.rs\<close> interleaved with the gossip task.
  Everything the manager does is an action of its own: reading the claims and deciding what to claim, each change of
  the store under its lock, and each effect (a message, a netlink call, the gateway handle). Between any two actions
  the gossip task may handle messages (\<open>Daemon\<close>) and report lost networks through the reclaim channel. Run without
  interruption, the actions of a claim are \<open>claim_and_publish\<close> of \<open>Claims\<close>.

  The state holds what the two tasks share (the books and the channel), where the manager stands, the
  actions it still has to carry out, and what these have done: the networks whose gateway address is on the
  client interface, the gateway handle of the name server and the messages sent.
\<close>

datatype Phase =
    Launching          \<comment> \<open>before the backhaul claim\<close>
  | Checking           \<comment> \<open>about to look for a claim of its own\<close>
  | Joining            \<comment> \<open>waiting for a first neighbour and the warm-up\<close>
  | Claiming           \<comment> \<open>about to claim for the first time\<close>
  | Managing           \<comment> \<open>in the loop over the reclaim channel\<close>
  | Panicked string
  | Exited int

datatype ClaimAction =
    Do ClaimEffect
  | RemoveClaim string
  | InsertClaim string SubnetClaim
  | Decide             \<comment> \<open>the start of \<open>claim_and_publish\<close>: read the claims, pick\<close>

record ClaimSys =
  cs_node :: Node
  cs_phase :: Phase
  cs_pending :: "ClaimAction list"
  cs_queue :: "Ipv4Net list"
  cs_addrs :: "Ipv4Net set"
  cs_gateway :: "ipv4 option"
  cs_sent :: "GossipMessage list"

abbreviation cs_store :: "ClaimSys \<Rightarrow> ClaimStore" where
  "cs_store s \<equiv> nd_claims (cs_node s)"

text \<open>\<open>has_own_claim\<close>: a client claim; backhaul claims do not count.\<close>

definition has_own_claim :: "(Ipv4Net \<Rightarrow> ipv4) \<Rightarrow> ClaimStore \<Rightarrow> string \<Rightarrow> bool" where
  "has_own_claim network store self_id \<longleftrightarrow>
     (\<exists>c\<in>set (map snd store). sc_owner_node_id c = self_id \<and>
        (case sc_cidr c of NetV4 n \<Rightarrow> \<not> in_backhaul_block network n | NetV6 _ _ \<Rightarrow> False))"

text \<open>An effect, with the answer to the call: a message may not be sent, a netlink call may be refused.\<close>

definition carry_out :: "bool \<Rightarrow> ClaimEffect \<Rightarrow> ClaimSys \<Rightarrow> ClaimSys" where
  "carry_out ok eff s =
     (case eff of
        Gossip msg \<Rightarrow> if ok then s\<lparr>cs_sent := cs_sent s @ [msg]\<rparr> else s
      | AssignClientAddr net \<Rightarrow> if ok then s\<lparr>cs_addrs := insert net (cs_addrs s)\<rparr> else s
      | RetractClientAddr net \<Rightarrow> if ok then s\<lparr>cs_addrs := cs_addrs s - {net}\<rparr> else s
      | ReconcileClientUci _ \<Rightarrow> s
      | SetGateway g \<Rightarrow> s\<lparr>cs_gateway := g\<rparr>
      | PersistClaims _ \<Rightarrow> s
      | ExitProcess code \<Rightarrow> s\<lparr>cs_phase := Exited code\<rparr>)"

text \<open>What \<open>claim_and_publish\<close> does after reading the claims, action by action.\<close>

definition release_actions :: "(IpNet \<Rightarrow> string) \<Rightarrow> (string \<Rightarrow> u64) \<Rightarrow> string \<Rightarrow> Ipv4Net \<Rightarrow> ClaimAction list" where
  "release_actions to_string clock self_id net =
     (let key = to_string (NetV4 net)
      in [RemoveClaim key, Do (Gossip (SubnetClaimRelease key (now_hlc (clock key) self_id))), Do (RetractClientAddr net)])"

definition claim_actions ::
  "(Ipv4Net \<Rightarrow> ipv4) \<Rightarrow> (Ipv4Net \<Rightarrow> Ipv4Net \<Rightarrow> bool) \<Rightarrow> (string \<Rightarrow> u8 list) \<Rightarrow> (IpNet \<Rightarrow> string) \<Rightarrow>
   (string \<Rightarrow> u64) \<Rightarrow> ClaimStore \<Rightarrow> string \<Rightarrow> string + ClaimAction list" where
  "claim_actions network contains blake3 to_string clock store self_id =
     (case partition_claims network store self_id of
        (keep, extras, foreign) \<Rightarrow>
          (let releases = concat (map (release_actions to_string clock self_id) extras)
           in case keep of
                Some (net, claim) \<Rightarrow>
                  Inr (releases @ [Do (Gossip (SubnetClaimUpdate (to_string (NetV4 net)) claim))] @ map Do (hold_net network net))
              | None \<Rightarrow>
                  (case pick_subnet_or_smaller network contains blake3 self_id foreign DEFAULT_MESH_SPACE CLIENT_PREFIX_LEN of
                     Inl panic \<Rightarrow> Inl panic
                   | Inr None \<Rightarrow> Inr releases
                   | Inr (Some net) \<Rightarrow>
                       (let key = to_string (NetV4 net);
                            claim = \<lparr>sc_cidr = NetV4 net, sc_owner_node_id = self_id,
                                     sc_site_name = None, sc_claimed_at = now_hlc (clock key) self_id\<rparr>
                        in Inr (releases @ [InsertClaim key claim, Do (Gossip (SubnetClaimUpdate key claim))] @
                                map Do (hold_net network net))))))"

text \<open>The body of the manager's loop, for a network reported lost by the gossip lane.\<close>

definition reclaim_actions :: "Ipv4Net \<Rightarrow> ClaimAction list" where
  "reclaim_actions lost = [Do (RetractClientAddr lost), Do (SetGateway None), Decide]"

definition set_store :: "ClaimStore \<Rightarrow> ClaimSys \<Rightarrow> ClaimSys" where
  "set_store store s = s\<lparr>cs_node := (cs_node s)\<lparr>nd_claims := store\<rparr>\<rparr>"

definition perform ::
  "(Ipv4Net \<Rightarrow> ipv4) \<Rightarrow> (Ipv4Net \<Rightarrow> Ipv4Net \<Rightarrow> bool) \<Rightarrow> (string \<Rightarrow> u8 list) \<Rightarrow> (IpNet \<Rightarrow> string) \<Rightarrow>
   (string \<Rightarrow> u64) \<Rightarrow> string \<Rightarrow> bool \<Rightarrow> ClaimAction \<Rightarrow> ClaimSys \<Rightarrow> ClaimSys" where
  "perform network contains blake3 to_string clock self_id ok action s =
     (case action of
        Do eff \<Rightarrow> carry_out ok eff s
      | RemoveClaim key \<Rightarrow> set_store (hm_remove key (cs_store s)) s
      | InsertClaim key claim \<Rightarrow> set_store (hm_insert key claim (cs_store s)) s
      | Decide \<Rightarrow>
          (case claim_actions network contains blake3 to_string clock (cs_store s) self_id of
             Inl panic \<Rightarrow> s\<lparr>cs_phase := Panicked panic\<rparr>
           | Inr actions \<Rightarrow> s\<lparr>cs_pending := actions @ cs_pending s\<rparr>))"

fun reclaims :: "Effect list \<Rightarrow> Ipv4Net list" where
  "reclaims [] = []"
| "reclaims (SendReclaim n # effs) = n # reclaims effs"
| "reclaims (_ # effs) = reclaims effs"

definition running :: "ClaimSys \<Rightarrow> bool" where
  "running s \<longleftrightarrow> (case cs_phase s of Panicked _ \<Rightarrow> False | Exited _ \<Rightarrow> False | _ \<Rightarrow> True)"

text \<open>The steps: one action of the manager, with the answer to its call, or one message of the gossip task. The clock
  readings of a step are arbitrary.\<close>

datatype StepLabel = ManagerStep bool | GossipStep GossipMessage

inductive claim_step ::
  "(Ipv4Net \<Rightarrow> ipv4) \<Rightarrow> (Ipv4Net \<Rightarrow> Ipv4Net \<Rightarrow> bool) \<Rightarrow> (string \<Rightarrow> u8 list) \<Rightarrow> (IpNet \<Rightarrow> string) \<Rightarrow> string \<Rightarrow> ipv4 \<Rightarrow>
   ClaimSys \<Rightarrow> StepLabel \<Rightarrow> ClaimSys \<Rightarrow> bool"
  for network contains blake3 to_string self_id backhaul_ip where
  launch: "cs_phase s = Launching \<Longrightarrow>
    claim_backhaul_and_publish to_string clock (cs_store s) self_id backhaul_ip = (store, effs) \<Longrightarrow>
    claim_step network contains blake3 to_string self_id backhaul_ip s (ManagerStep ok)
      ((set_store store s)\<lparr>cs_phase := Checking, cs_pending := map Do effs\<rparr>)"
| action: "running s \<Longrightarrow> cs_pending s = action # actions \<Longrightarrow>
    claim_step network contains blake3 to_string self_id backhaul_ip s (ManagerStep ok)
      (perform network contains blake3 to_string clock self_id ok action (s\<lparr>cs_pending := actions\<rparr>))"
| check: "cs_phase s = Checking \<Longrightarrow> cs_pending s = [] \<Longrightarrow>
    claim_step network contains blake3 to_string self_id backhaul_ip s (ManagerStep ok)
      (s\<lparr>cs_phase := if has_own_claim network (cs_store s) self_id then Claiming else Joining\<rparr>)"
| joined: "cs_phase s = Joining \<Longrightarrow>
    claim_step network contains blake3 to_string self_id backhaul_ip s (ManagerStep ok) (s\<lparr>cs_phase := Claiming\<rparr>)"
| claim: "cs_phase s = Claiming \<Longrightarrow>
    claim_step network contains blake3 to_string self_id backhaul_ip s (ManagerStep ok)
      (s\<lparr>cs_phase := Managing, cs_pending := [Decide]\<rparr>)"
| reclaim: "cs_phase s = Managing \<Longrightarrow> cs_pending s = [] \<Longrightarrow> cs_queue s = lost # queue \<Longrightarrow>
    claim_step network contains blake3 to_string self_id backhaul_ip s (ManagerStep ok)
      (s\<lparr>cs_queue := queue, cs_pending := reclaim_actions lost\<rparr>)"
| gossip: "running s \<Longrightarrow>
    dispatch network self_id has_lookup now (cs_node s) msg = (node, effs, code) \<Longrightarrow>
    claim_step network contains blake3 to_string self_id backhaul_ip s (GossipStep msg)
      (s\<lparr>cs_node := node, cs_queue := cs_queue s @ reclaims effs,
         cs_phase := (case code of None \<Rightarrow> cs_phase s | Some c \<Rightarrow> Exited c)\<rparr>)"

inductive_cases claim_stepE: "claim_step network contains blake3 to_string self_id backhaul_ip s l s'"

text \<open>Run without interruption, the actions are \<open>claim_and_publish\<close>: the same store and the same effects.\<close>

fun run_actions :: "ClaimAction list \<Rightarrow> ClaimStore \<Rightarrow> ClaimStore \<times> ClaimEffect list" where
  "run_actions [] store = (store, [])"
| "run_actions (Do eff # actions) store = (case run_actions actions store of (store', effs) \<Rightarrow> (store', eff # effs))"
| "run_actions (RemoveClaim key # actions) store = run_actions actions (hm_remove key store)"
| "run_actions (InsertClaim key claim # actions) store = run_actions actions (hm_insert key claim store)"
| "run_actions (Decide # actions) store = run_actions actions store"

lemma run_actions_append:
  "run_actions (xs @ ys) store =
     (case run_actions xs store of (store1, e1) \<Rightarrow> (case run_actions ys store1 of (store2, e2) \<Rightarrow> (store2, e1 @ e2)))"
  by (induction xs store rule: run_actions.induct) (auto split: prod.splits)

lemma run_actions_Do: "run_actions (map Do effs) store = (store, effs)"
  by (induction effs) auto

lemma run_actions_releases:
  "run_actions (concat (map (release_actions to_string clock self_id) extras)) store =
     fold (release_claim to_string clock self_id) extras (store, [])"
  unfolding fold_release
  by (induction extras arbitrary: store) (simp_all add: release_actions_def Let_def)

theorem claim_actions_refine:
  "claim_and_publish network contains blake3 to_string clock store self_id =
     map_sum id (\<lambda>actions. run_actions actions store) (claim_actions network contains blake3 to_string clock store self_id)"
  unfolding claim_and_publish_def claim_actions_def
  by (auto simp: run_actions_append run_actions_Do run_actions_releases[unfolded fold_release] fold_release Let_def
      split: prod.splits option.splits sum.splits)






section \<open>The networks a node holds\<close>

definition own_nets :: "(Ipv4Net \<Rightarrow> ipv4) \<Rightarrow> string \<Rightarrow> ClaimStore \<Rightarrow> Ipv4Net set" where
  "own_nets network self_id store =
     {n. \<exists>k c. hm_get store k = Some c \<and> sc_owner_node_id c = self_id \<and> client_net network c = Some n}"

lemma own_nets_claims: "own_claims network self_id store = {} \<Longrightarrow> own_nets network self_id store = {}"
  by (auto simp: own_nets_def own_claims_def)

lemma own_nets_keys:
  assumes "store_keyed to_string store" and "inj to_string"
  shows "to_string (NetV4 n) \<in> fst ` own_claims network self_id store \<longleftrightarrow> n \<in> own_nets network self_id store"
proof
  assume "to_string (NetV4 n) \<in> fst ` own_claims network self_id store"
  then obtain c m where c: "hm_get store (to_string (NetV4 n)) = Some c" "sc_owner_node_id c = self_id"
    "client_net network c = Some m" by (auto simp: own_claims_def)
  then have "to_string (NetV4 n) = to_string (NetV4 m)" using store_key_of[OF assms(1)] by blast
  then have "n = m" using assms(2) by (simp add: inj_eq)
  then show "n \<in> own_nets network self_id store" using c by (auto simp: own_nets_def)
next
  assume "n \<in> own_nets network self_id store"
  then obtain k c where c: "hm_get store k = Some c" "sc_owner_node_id c = self_id" "client_net network c = Some n"
    by (auto simp: own_nets_def)
  then have "(to_string (NetV4 n), c) \<in> own_claims network self_id store"
    using store_key_of[OF assms(1) c(1,3)] by (simp add: own_claims_def)
  then show "to_string (NetV4 n) \<in> fst ` own_claims network self_id store" by (simp add: rev_image_eqI)
qed





section \<open>What the effects of a claim do to the addresses\<close>

fun addr_effect :: "ClaimEffect \<Rightarrow> Ipv4Net set \<times> ipv4 option \<Rightarrow> Ipv4Net set \<times> ipv4 option" where
  "addr_effect (AssignClientAddr net) (A, g) = (insert net A, g)"
| "addr_effect (RetractClientAddr net) (A, g) = (A - {net}, g)"
| "addr_effect (SetGateway g') (A, g) = (A, g')"
| "addr_effect _ Ag = Ag"

fun effects_of :: "ClaimAction list \<Rightarrow> ClaimEffect list" where
  "effects_of [] = []"
| "effects_of (Do eff # actions) = eff # effects_of actions"
| "effects_of (_ # actions) = effects_of actions"

lemma effects_of_append [simp]: "effects_of (xs @ ys) = effects_of xs @ effects_of ys"
  by (induction xs rule: effects_of.induct) auto

lemma effects_of_Do [simp]: "effects_of (map Do effs) = effs"
  by (induction effs) auto




lemma carry_out_keeps [simp]:
  "cs_node (carry_out ok eff s) = cs_node s" "cs_queue (carry_out ok eff s) = cs_queue s"
  "cs_pending (carry_out ok eff s) = cs_pending s"
  by (cases eff; simp add: carry_out_def)+


lemma set_store_keeps [simp]:
  "cs_store (set_store store s) = store" "cs_phase (set_store store s) = cs_phase s" "cs_queue (set_store store s) = cs_queue s"
  "cs_pending (set_store store s) = cs_pending s" "cs_addrs (set_store store s) = cs_addrs s"
  "cs_gateway (set_store store s) = cs_gateway s"
  by (simp_all add: set_store_def)

lemma fold_releases:
  "fold addr_effect (concat (map (\<lambda>n. [Gossip (m n), RetractClientAddr n]) nets)) (A, g) = (A - set nets, g)"
  by (induction nets arbitrary: A) auto

lemma extras_are_own:
  assumes keyed: "store_keyed to_string store" and inj: "inj to_string"
    and part: "partition_claims network store self_id = (Some (net, c), extras, foreign)"
  shows "set extras = own_nets network self_id store - {net}" and "net \<in> own_nets network self_id store"
proof -
  note spec = partition_claims_spec(3)[OF keyed inj part refl]
  have "to_string (NetV4 n) \<in> (\<lambda>n. to_string (NetV4 n)) ` set extras \<longleftrightarrow> n \<in> set extras" for n
    using inj by (auto simp: inj_eq)
  then have "n \<in> set extras \<longleftrightarrow> n \<in> own_nets network self_id store - {net}" for n
    using spec own_nets_keys[OF keyed inj, of n network self_id] inj by (auto simp: inj_eq)
  then show "set extras = own_nets network self_id store - {net}" by blast
  show "net \<in> own_nets network self_id store" using spec by (auto simp: own_claims_def own_nets_def)
qed

lemma own_claims_nets: "own_claims network self_id store = {(k, c)} \<Longrightarrow> client_net network c = Some n \<Longrightarrow>
    n \<in> own_nets network self_id store"
  by (drule equalityD2) (auto simp: own_claims_def own_nets_def)

text \<open>Claiming never panics; it leaves the gateway address of one network on the interface, its own, and no
  other of its own, or, holding nothing and finding no free block, does nothing.\<close>

lemma claim_outcome:
  assumes laws: "ipnet_laws network contains" and inj: "inj to_string" and keyed: "store_keyed to_string store"
  shows "\<exists>store' effs. claim_and_publish network contains blake3 to_string clock store self_id = Inr (store', effs) \<and>
    store_keyed to_string store' \<and> (\<forall>code. ExitProcess code \<notin> set effs) \<and>
    ((\<exists>net. net \<in> own_nets network self_id store' \<and>
        (\<forall>A g. fold addr_effect effs (A, g) =
          (insert net (A - own_nets network self_id store), Some (client_gateway_addr network net)))) \<or>
     own_nets network self_id store = {} \<and> effs = [] \<and> store' = store)"
proof -
  obtain keep extras foreign where part: "partition_claims network store self_id = (keep, extras, foreign)"
    by (rule prod_cases3)
  show ?thesis
  proof (cases keep)
    case (Some p)
    obtain net c where p: "p = (net, c)" by fastforce
    note part = part[unfolded Some p]
    obtain store' effs where cap: "claim_and_publish network contains blake3 to_string clock store self_id = Inr (store', effs)"
      "holds_client_claim network to_string self_id store' effs net c" "store_keyed to_string store'"
      using claim_and_publish_held[OF inj keyed part, of contains blake3 clock] by blast
    have effs: "effs = concat (map (\<lambda>n. [Gossip (SubnetClaimRelease (to_string (NetV4 n))
         (now_hlc (clock (to_string (NetV4 n))) self_id)), RetractClientAddr n]) extras) @
         [Gossip (SubnetClaimUpdate (to_string (NetV4 net)) c)] @ hold_net network net"
      using cap(1) by (simp add: claim_and_publish_def part fold_release)
    have "client_net network c = Some net" using partition_claims_spec(3)[OF keyed inj part refl] by blast
    then have "net \<in> own_nets network self_id store'"
      using cap(2) own_claims_nets unfolding holds_client_claim_def by blast
    moreover have "insert net (A - set extras) = insert net (A - own_nets network self_id store)" for A
      using extras_are_own[OF keyed inj part] by auto
    ultimately show ?thesis
      using cap(1,3) by (intro exI[of _ store'] exI[of _ effs] conjI disjI1 exI[of _ net])
        (auto simp: effs fold_releases hold_net_def)
  next
    case None
    then have none: "own_claims network self_id store = {}" "extras = []"
      using partition_claims_spec(2)[OF keyed inj part] by blast+
    note fo = partition_claims_foreign[OF part]
    obtain r where r: "pick_subnet_or_smaller network contains blake3 self_id (others_client_nets network store self_id)
        DEFAULT_MESH_SPACE 24 = Inr r" "best_fit (others_client_nets network store self_id) DEFAULT_MESH_SPACE 24 r"
      using pick_or_smaller_fits[OF laws, of DEFAULT_MESH_SPACE 24 blake3 self_id "others_client_nets network store self_id"]
      by (auto simp: DEFAULT_MESH_SPACE_def)
    note unf = claim_and_publish_def part prod.case none fold_simps id_apply None option.case fo CLIENT_PREFIX_LEN_def r(1) sum.case
    show ?thesis
    proof (cases r)
      case None
      then show ?thesis using keyed own_nets_claims[OF none(1)] by (simp add: unf)
    next
      case (Some net)
      note fr = claim_and_publish_fresh[OF laws inj keyed none(1) r(2)[unfolded Some] refl refl,
          where t = "clock (to_string (NetV4 net))"]
      have "client_net network \<lparr>sc_cidr = NetV4 net, sc_owner_node_id = self_id, sc_site_name = None, sc_claimed_at = h\<rparr> = Some net" for h
        using fresh_net_unclaimed(2)[OF laws inj keyed none(1) r(2)[unfolded Some]] by (simp add: client_net_def)
      then show ?thesis
        using fr(2) own_claims_nets[OF fr(1)] own_nets_claims[OF none(1)]
        by (simp add: unf Some Let_def hold_net_def) blast
    qed
  qed
qed

section \<open>The actions of a claim\<close>






section \<open>The invariant\<close>

















section \<open>Progress\<close>













section \<open>Properties\<close>





text \<open>A release drops the claim whoever sent it, and nothing is reported to the manager: the address stays on the
  interface and the gateway handle keeps naming it, while the network is free for everybody else.\<close>

theorem foreign_release_strands_address:
  assumes "hm_ok (cs_store s)" and "running s" and "hm_get (cs_store s) key = Some c" and "sc_claimed_at c \<le> h"
  shows "\<exists>s'. claim_step network contains blake3 to_string self_id backhaul_ip s (GossipStep (SubnetClaimRelease key h)) s' \<and>
    hm_get (cs_store s') key = None \<and> cs_queue s' = cs_queue s \<and> cs_addrs s' = cs_addrs s \<and> cs_gateway s' = cs_gateway s"
proof -
  have d: "dispatch network self_id False 0 (cs_node s) (SubnetClaimRelease key h) =
      ((cs_node s)\<lparr>nd_claims := hm_remove key (cs_store s)\<rparr>, [], None)"
    using assms(3,4) by (simp add: dispatch_def claim_arm_def apply_subnet_message_def)
  show ?thesis
    using claim_step.gossip[OF assms(2) d, of contains blake3 to_string backhaul_ip] assms(1)
    by (intro exI conjI) (assumption, simp_all add: map_simps)
qed

end
