(* ===== verification/Host_Config.thy ===== *)
theory Host_Config
  imports Claim_Loop
begin

text \<open>
  How the daemon configures its host (\<open>bin/mjolnir-meshd.rs\<close>): the addresses of the client and backhaul
  interfaces and the default routes over netlink, and the OpenWrt configuration of the LAN and of \<open>dnsmasq\<close>
  through \<open>uci\<close>.

  Parameters: \<open>Netlink\<close>, what the kernel answers (connection, the dumps of addresses, links and routes, adding and
  deleting an address, the files under \<open>/sys/class/net\<close>), and \<open>Shell\<close>, running \<open>uci\<close> and \<open>sh -c\<close> under the
  timeout. A dump is the list of messages before the stream ends or fails. The output of a command is the
  decoded text.
\<close>

section \<open>Addresses\<close>

datatype AddressAttribute = Local IpAddr | Address IpAddr | OtherAttribute

record AddressMessage =
  am_index :: nat
  am_prefix_len :: nat
  am_attributes :: "AddressAttribute list"

datatype LinkAttribute = IfName string | OtherLink

datatype RouteAttribute = Oif nat | Destination ipv4 | Gateway ipv4 | OtherRoute

record RouteMessage =
  rm_destination_prefix_length :: nat
  rm_babel :: bool
  rm_attributes :: "RouteAttribute list"

record 'k Netlink =
  nl_connect :: "'k \<Rightarrow> string + unit"
  nl_addresses :: "'k \<Rightarrow> AddressMessage list"
  nl_add :: "nat \<Rightarrow> ipv4 \<Rightarrow> nat \<Rightarrow> 'k \<Rightarrow> 'k \<times> (string + unit)"
  nl_del :: "AddressMessage \<Rightarrow> 'k \<Rightarrow> 'k \<times> (string + unit)"
  nl_links :: "'k \<Rightarrow> (nat \<times> LinkAttribute list) list"
  nl_routes :: "'k \<Rightarrow> RouteMessage list"
  sys_ifindex :: "string \<Rightarrow> 'k \<Rightarrow> string option"
  sys_class_net :: "'k \<Rightarrow> string list option"

definition ifindex :: "'k Netlink \<Rightarrow> string \<Rightarrow> 'k \<Rightarrow> nat option" where
  "ifindex nl iface k =
     (case sys_ifindex nl iface k of None \<Rightarrow> None | Some s \<Rightarrow> parse_uint 4294967295 (trim s))"

definition assign_client_addr :: "'k Netlink \<Rightarrow> (Ipv4Net \<Rightarrow> ipv4) \<Rightarrow> Ipv4Net \<Rightarrow> string \<Rightarrow> 'k \<Rightarrow> 'k" where
  "assign_client_addr nl network subnet iface k =
     (let gw = client_gateway_addr network subnet
      in case ifindex nl iface k of
           None \<Rightarrow> k
         | Some index \<Rightarrow>
             (case nl_connect nl k of
                Inl _ \<Rightarrow> k
              | Inr _ \<Rightarrow> (case nl_add nl index gw (prefix_len subnet) k of (k', _) \<Rightarrow> k')))"

definition is_gw :: "nat \<Rightarrow> nat \<Rightarrow> ipv4 \<Rightarrow> AddressMessage \<Rightarrow> bool" where
  "is_gw index prefix gw msg \<longleftrightarrow>
     am_index msg = index \<and> am_prefix_len msg = prefix \<and>
     list_ex (\<lambda>a. a = Local (V4 gw) \<or> a = Address (V4 gw)) (am_attributes msg)"

definition retract_client_addr :: "'k Netlink \<Rightarrow> (Ipv4Net \<Rightarrow> ipv4) \<Rightarrow> Ipv4Net \<Rightarrow> string \<Rightarrow> 'k \<Rightarrow> 'k" where
  "retract_client_addr nl network subnet iface k =
     (let gw = client_gateway_addr network subnet
      in case ifindex nl iface k of
           None \<Rightarrow> k
         | Some index \<Rightarrow>
             (case nl_connect nl k of
                Inl _ \<Rightarrow> k
              | Inr _ \<Rightarrow>
                  (case find (is_gw index (prefix_len subnet) gw) (nl_addresses nl k) of
                     None \<Rightarrow> k
                   | Some msg \<Rightarrow> (case nl_del nl msg k of (k', _) \<Rightarrow> k'))))"

text \<open>The backhaul interface: the configured name if it is there, else the only one that is not the loopback or a
  tunnel. Each poll comes with the time since the start, in milliseconds.\<close>

datatype Resolved = ResolvedIface string nat | NoIface | StillWaiting

definition backhaul_candidates :: "'k Netlink \<Rightarrow> 'k \<Rightarrow> string list" where
  "backhaul_candidates nl k =
     (case sys_class_net nl k of
        None \<Rightarrow> []
      | Some names \<Rightarrow> filter (\<lambda>n. n \<noteq> ''lo'' \<and> \<not> starts_with ''mj-peer-'' n) names)"

definition choose_iface :: "string \<Rightarrow> string list \<Rightarrow> string option" where
  "choose_iface iface candidates =
     (if List.member candidates iface then Some iface
      else if length candidates = 1 then Some (hd candidates) else None)"

definition BACKHAUL_DEADLINE_MS :: nat where
  "BACKHAUL_DEADLINE_MS = 20000"

fun resolve_backhaul :: "'k Netlink \<Rightarrow> string \<Rightarrow> (nat \<times> 'k) list \<Rightarrow> Resolved" where
  "resolve_backhaul nl iface [] = StillWaiting"
| "resolve_backhaul nl iface ((elapsed, k) # polls) =
     (case (case choose_iface iface (backhaul_candidates nl k) of
              None \<Rightarrow> None
            | Some name \<Rightarrow> map_option (Pair name) (ifindex nl name k)) of
        Some (name, idx) \<Rightarrow> ResolvedIface name idx
      | None \<Rightarrow> if BACKHAUL_DEADLINE_MS \<le> elapsed then NoIface else resolve_backhaul nl iface polls)"

definition assign_backhaul_addr ::
  "'k Netlink \<Rightarrow> string \<Rightarrow> ipv4 \<Rightarrow> (nat \<times> 'k) list \<Rightarrow> 'k \<Rightarrow> 'k \<times> string option" where
  "assign_backhaul_addr nl iface addr polls k =
     (case nl_connect nl k of
        Inl _ \<Rightarrow> (k, None)
      | Inr _ \<Rightarrow>
          (case resolve_backhaul nl iface polls of
             ResolvedIface target index \<Rightarrow>
               (case nl_add nl index addr BACKHAUL_PREFIX_LEN k of (k', _) \<Rightarrow> (k', Some target))
           | _ \<Rightarrow> (k, None)))"

section \<open>Default routes\<close>

fun first_name :: "LinkAttribute list \<Rightarrow> string option" where
  "first_name [] = None"
| "first_name (IfName n # _) = Some n"
| "first_name (OtherLink # as) = first_name as"

fun first_oif :: "RouteAttribute list \<Rightarrow> nat option" where
  "first_oif [] = None"
| "first_oif (Oif i # _) = Some i"
| "first_oif (_ # as) = first_oif as"

definition link_names :: "(nat \<times> LinkAttribute list) list \<Rightarrow> nat \<rightharpoonup> string" where
  "link_names links =
     foldl (\<lambda>m (i, as). case first_name as of Some n \<Rightarrow> m(i \<mapsto> n) | None \<Rightarrow> m) Map.empty links"

definition read_default_routes :: "'k Netlink \<Rightarrow> 'k \<Rightarrow> DefaultRoute list" where
  "read_default_routes nl k =
     (case nl_connect nl k of
        Inl _ \<Rightarrow> []
      | Inr _ \<Rightarrow>
          (let names = link_names (nl_links nl k)
           in List.map_filter
                (\<lambda>r. if rm_destination_prefix_length r \<noteq> 0 then None
                      else case first_oif (rm_attributes r) of
                             None \<Rightarrow> None
                           | Some i \<Rightarrow>
                               Some \<lparr>oif = (case names i of Some n \<Rightarrow> n | None \<Rightarrow> ''if'' @ decimal i),
                                     proto_babel = rm_babel r\<rparr>)
                (nl_routes nl k)))"

section \<open>The OpenWrt configuration\<close>

record Output =
  o_success :: bool
  o_stdout :: string
  o_stderr :: string

datatype ShellRun = Finished Output | NotRun string | TimedOut

record 'k Shell =
  run_uci :: "string list \<Rightarrow> 'k \<Rightarrow> 'k \<times> (string + Output)"
  run_sh :: "string \<Rightarrow> 'k \<Rightarrow> 'k \<times> ShellRun"

datatype Reconciled = NotOpenWrt | AlreadyCurrent | Ran ShellRun

definition uci_exists :: "'k Shell \<Rightarrow> string \<Rightarrow> 'k \<Rightarrow> 'k \<times> bool" where
  "uci_exists sh key k =
     (case run_uci sh [''-q'', ''get'', key] k of
        (k', Inl _) \<Rightarrow> (k', False)
      | (k', Inr out) \<Rightarrow> (k', o_success out))"

definition uci_get :: "'k Shell \<Rightarrow> string \<Rightarrow> 'k \<Rightarrow> 'k \<times> string" where
  "uci_get sh key k =
     (case run_uci sh [''-q'', ''get'', key] k of
        (k', Inl _) \<Rightarrow> (k', [])
      | (k', Inr out) \<Rightarrow> (k', if o_success out then trim (o_stdout out) else []))"

definition lan_uci_is_current :: "string \<Rightarrow> string \<Rightarrow> bool" where
  "lan_uci_is_current current want_primary \<longleftrightarrow>
     (case split_whitespace current of [] \<Rightarrow> False | first # _ \<Rightarrow> first = want_primary)"

definition lan_script :: "string \<Rightarrow> string" where
  "lan_script gw_cidr =
     ''uci -q delete network.lan.ipaddr; '' @
     ''uci -q delete network.lan.netmask; '' @
     ''uci add_list network.lan.ipaddr='' @ [CHR 0x27] @ gw_cidr @ [CHR 0x27] @ ''; '' @
     ''uci add_list network.lan.ipaddr='' @ [CHR 0x27] @ ''192.168.1.1/24'' @ [CHR 0x27] @ ''; '' @
     ''uci commit network && /etc/init.d/network reload && /etc/init.d/dnsmasq restart''"

definition reconcile_client_uci :: "'k Shell \<Rightarrow> (Ipv4Net \<Rightarrow> ipv4) \<Rightarrow> Ipv4Net \<Rightarrow> 'k \<Rightarrow> 'k \<times> Reconciled" where
  "reconcile_client_uci sh network subnet k =
     (let gw_cidr = show_ipv4 (network subnet + 1) @ ''/'' @ decimal (prefix_len subnet)
      in case uci_exists sh ''network.lan'' k of
           (k1, False) \<Rightarrow> (k1, NotOpenWrt)
         | (k1, True) \<Rightarrow>
             (case uci_get sh ''network.lan.ipaddr'' k1 of
                (k2, current) \<Rightarrow>
                  if lan_uci_is_current current gw_cidr then (k2, AlreadyCurrent)
                  else (case run_sh sh (lan_script gw_cidr) k2 of (k3, r) \<Rightarrow> (k3, Ran r))))"

definition MESH_DNS_SERVER_LINE :: string where
  "MESH_DNS_SERVER_LINE = ''/mesh/127.0.0.1#5335''"

definition DOH_CANARY_SERVER_LINE :: string where
  "DOH_CANARY_SERVER_LINE = ''/use-application-dns.net/''"

definition DHCP_OPTION_114 :: string where
  "DHCP_OPTION_114 = ''114,http://hello.mesh/api/captive-portal''"

definition MESH_REBIND_DOMAIN :: string where
  "MESH_REBIND_DOMAIN = ''/mesh/''"

definition dnsmasq_uci_is_current :: "string \<Rightarrow> string \<Rightarrow> string \<Rightarrow> bool" where
  "dnsmasq_uci_is_current current_server_list current_dhcp_options current_rebind_domains \<longleftrightarrow>
     (let servers = split_whitespace current_server_list;
          options = split_whitespace current_dhcp_options;
          rebinds = split_whitespace current_rebind_domains
      in List.member servers MESH_DNS_SERVER_LINE \<and> List.member servers DOH_CANARY_SERVER_LINE \<and>
         List.member options DHCP_OPTION_114 \<and> List.member rebinds MESH_REBIND_DOMAIN)"

definition shell_quoted :: "string \<Rightarrow> string" where
  "shell_quoted s = [CHR 0x27] @ s @ [CHR 0x27]"

definition dnsmasq_script :: "string list \<Rightarrow> string list \<Rightarrow> string list \<Rightarrow> string" where
  "dnsmasq_script servers options rebinds =
     (if List.member servers MESH_DNS_SERVER_LINE then []
      else ''uci add_list dhcp.@dnsmasq[0].server='' @ shell_quoted MESH_DNS_SERVER_LINE @ ''; '') @
     (if List.member servers DOH_CANARY_SERVER_LINE then []
      else ''uci add_list dhcp.@dnsmasq[0].server='' @ shell_quoted DOH_CANARY_SERVER_LINE @ ''; '') @
     (if List.member options DHCP_OPTION_114 then []
      else concat (map (\<lambda>stale. ''uci del_list dhcp.lan.dhcp_option='' @ shell_quoted stale @ ''; '')
             (filter (\<lambda>opt. starts_with ''114,'' opt \<and> opt \<noteq> DHCP_OPTION_114) options)) @
           ''uci add_list dhcp.lan.dhcp_option='' @ shell_quoted DHCP_OPTION_114 @ ''; '') @
     (if List.member rebinds MESH_REBIND_DOMAIN then []
      else ''uci add_list dhcp.@dnsmasq[0].rebind_domain='' @ shell_quoted MESH_REBIND_DOMAIN @ ''; '') @
     ''uci commit dhcp && /etc/init.d/dnsmasq restart''"

definition reconcile_dnsmasq_uci :: "'k Shell \<Rightarrow> 'k \<Rightarrow> 'k \<times> Reconciled" where
  "reconcile_dnsmasq_uci sh k =
     (case uci_exists sh ''dhcp.@dnsmasq[0]'' k of
        (k0, False) \<Rightarrow> (k0, NotOpenWrt)
      | (k0, True) \<Rightarrow>
          (case uci_get sh ''dhcp.@dnsmasq[0].server'' k0 of (k1, current_server_list) \<Rightarrow>
           case uci_get sh ''dhcp.lan.dhcp_option'' k1 of (k2, current_dhcp_options) \<Rightarrow>
           case uci_get sh ''dhcp.@dnsmasq[0].rebind_domain'' k2 of (k3, current_rebind_domains) \<Rightarrow>
             if dnsmasq_uci_is_current current_server_list current_dhcp_options current_rebind_domains
             then (k3, AlreadyCurrent)
             else (case run_sh sh (dnsmasq_script (split_whitespace current_server_list)
                          (split_whitespace current_dhcp_options) (split_whitespace current_rebind_domains)) k3 of
                     (k4, r) \<Rightarrow> (k4, Ran r))))"

section \<open>The interface addresses refine the claim manager's view\<close>

text \<open>What the claim manager's effects do to the host: the addresses of the client interface and, on OpenWrt, its
  configuration, whose reload puts the configured addresses on the interface.\<close>

definition host_effect ::
  "'k Netlink \<Rightarrow> 'k Shell \<Rightarrow> (Ipv4Net \<Rightarrow> ipv4) \<Rightarrow> string \<Rightarrow> ClaimEffect \<Rightarrow> 'k \<Rightarrow> 'k" where
  "host_effect nl sh network iface eff k =
     (case eff of
        AssignClientAddr net \<Rightarrow> assign_client_addr nl network net iface k
      | RetractClientAddr net \<Rightarrow> retract_client_addr nl network net iface k
      | ReconcileClientUci net \<Rightarrow> fst (reconcile_client_uci sh network net k)
      | _ \<Rightarrow> k)"

text \<open>The kernel's side: an ordinary IPv4 address is listed once, with its two attributes; adding one that is there
  fails, adding a new one lists it, deleting removes it, and none of this changes the interface index.\<close>

definition plain_message :: "nat \<Rightarrow> nat \<Rightarrow> ipv4 \<Rightarrow> AddressMessage" where
  "plain_message i p a = \<lparr>am_index = i, am_prefix_len = p, am_attributes = [Address (V4 a), Local (V4 a)]\<rparr>"

definition kernel_ok :: "'k Netlink \<Rightarrow> bool" where
  "kernel_ok nl \<longleftrightarrow>
     (\<forall>k. nl_connect nl k = Inr ()) \<and>
     (\<forall>k i a p. plain_message i p a \<in> set (nl_addresses nl k) \<longrightarrow> fst (nl_add nl i a p k) = k) \<and>
     (\<forall>k i a p. plain_message i p a \<notin> set (nl_addresses nl k) \<longrightarrow>
        nl_addresses nl (fst (nl_add nl i a p k)) = nl_addresses nl k @ [plain_message i p a]) \<and>
     (\<forall>k m. nl_addresses nl (fst (nl_del nl m k)) = filter (\<lambda>x. x \<noteq> m) (nl_addresses nl k)) \<and>
     (\<forall>k i a p name. sys_ifindex nl name (fst (nl_add nl i a p k)) = sys_ifindex nl name k) \<and>
     (\<forall>k m name. sys_ifindex nl name (fst (nl_del nl m k)) = sys_ifindex nl name k)"

definition plain_addresses :: "'k Netlink \<Rightarrow> 'k \<Rightarrow> bool" where
  "plain_addresses nl k \<longleftrightarrow> (\<forall>m\<in>set (nl_addresses nl k). \<exists>i p a. m = plain_message i p a)"

definition gateway_key :: "(Ipv4Net \<Rightarrow> ipv4) \<Rightarrow> Ipv4Net \<Rightarrow> nat \<times> ipv4" where
  "gateway_key network n = (prefix_len n, client_gateway_addr network n)"

definition on_iface :: "'k Netlink \<Rightarrow> nat \<Rightarrow> 'k \<Rightarrow> (nat \<times> ipv4) set" where
  "on_iface nl i k = {(p, a). plain_message i p a \<in> set (nl_addresses nl k)}"

fun effect_nets :: "ClaimEffect list \<Rightarrow> Ipv4Net set" where
  "effect_nets [] = {}"
| "effect_nets (AssignClientAddr n # effs) = insert n (effect_nets effs)"
| "effect_nets (RetractClientAddr n # effs) = insert n (effect_nets effs)"
| "effect_nets (_ # effs) = effect_nets effs"

lemma effect_nets_append: "effect_nets (xs @ ys) = effect_nets xs \<union> effect_nets ys"
  by (induction xs rule: effect_nets.induct) auto

lemma plain_message_inj [simp]: "plain_message i p a = plain_message i' p' a' \<longleftrightarrow> i = i' \<and> p = p' \<and> a = a'"
  by (auto simp: plain_message_def)

lemma is_gw_plain: "is_gw i p a (plain_message i' p' a') \<longleftrightarrow> i' = i \<and> p' = p \<and> a' = a"
  by (auto simp: is_gw_def plain_message_def)

lemma find_eq: "find (\<lambda>y. y = x) xs = (if x \<in> set xs then Some x else None)"
  by (induction xs) auto

lemma find_gw:
  assumes "plain_addresses nl k"
  shows "find (is_gw i p a) (nl_addresses nl k) =
    (if plain_message i p a \<in> set (nl_addresses nl k) then Some (plain_message i p a) else None)"
proof -
  have "is_gw i p a m \<longleftrightarrow> m = plain_message i p a" if "m \<in> set (nl_addresses nl k)" for m
    using assms that by (auto simp: plain_addresses_def is_gw_plain)
  then have "find (is_gw i p a) (nl_addresses nl k) = find (\<lambda>m. m = plain_message i p a) (nl_addresses nl k)"
    by (intro find_cong) auto
  then show ?thesis by (simp add: find_eq)
qed

lemma assign_effect:
  assumes ok: "kernel_ok nl" and "plain_addresses nl k" and i: "ifindex nl iface k = Some i"
    and k': "k' = assign_client_addr nl network net iface k"
  shows "on_iface nl i k' = insert (gateway_key network net) (on_iface nl i k)"
    and "plain_addresses nl k'" and "ifindex nl iface k' = Some i"
proof -
  let ?m = "plain_message i (prefix_len net) (client_gateway_addr network net)"
  have k'': "k' = fst (nl_add nl i (client_gateway_addr network net) (prefix_len net) k)"
    using ok i by (simp add: k' assign_client_addr_def kernel_ok_def split: prod.splits)
  show "ifindex nl iface k' = Some i" using ok i by (simp add: k'' kernel_ok_def ifindex_def)
  show "on_iface nl i k' = insert (gateway_key network net) (on_iface nl i k)"
    using ok unfolding k'' kernel_ok_def
    by (cases "?m \<in> set (nl_addresses nl k)") (auto simp: on_iface_def gateway_key_def)
  show "plain_addresses nl k'"
    using ok assms(2) unfolding k'' kernel_ok_def
    by (cases "?m \<in> set (nl_addresses nl k)") (auto simp: plain_addresses_def)
qed

lemma retract_effect:
  assumes ok: "kernel_ok nl" and plain: "plain_addresses nl k" and i: "ifindex nl iface k = Some i"
    and k': "k' = retract_client_addr nl network net iface k"
  shows "on_iface nl i k' = on_iface nl i k - {gateway_key network net}"
    and "plain_addresses nl k'" and "ifindex nl iface k' = Some i"
proof -
  let ?m = "plain_message i (prefix_len net) (client_gateway_addr network net)"
  have k'': "k' = (if ?m \<in> set (nl_addresses nl k) then fst (nl_del nl ?m k) else k)"
    using ok i by (simp add: k' retract_client_addr_def find_gw[OF plain] kernel_ok_def split: prod.splits)
  show "ifindex nl iface k' = Some i" using ok i by (simp add: k'' kernel_ok_def ifindex_def)
  show "on_iface nl i k' = on_iface nl i k - {gateway_key network net}"
    using ok unfolding k'' kernel_ok_def by (auto simp: on_iface_def gateway_key_def)
  show "plain_addresses nl k'"
    using ok plain unfolding k'' kernel_ok_def by (auto simp: plain_addresses_def)
qed

lemma inj_image_remove: "inj_on f (insert x A) \<Longrightarrow> f ` (A - {x}) = f ` A - {f x}"
  by (auto simp: inj_on_def)

text \<open>The address the configuration keeps for recovery beside the gateway, and what a shell on OpenWrt does to the interface:
  reading the configuration does nothing; reloading it for a network adds at most the two configured addresses, keeps the
  gateway address if it is there, and may drop others.\<close>

definition RECOVERY_ALIAS :: "nat \<times> ipv4" where
  "RECOVERY_ALIAS = (24, ipv4_of_octets 192 168 1 1)"

definition shell_ok :: "'k Netlink \<Rightarrow> 'k Shell \<Rightarrow> (Ipv4Net \<Rightarrow> ipv4) \<Rightarrow> string \<Rightarrow> bool" where
  "shell_ok nl sh network iface \<longleftrightarrow>
     (\<forall>args k. nl_addresses nl (fst (run_uci sh args k)) = nl_addresses nl k \<and>
        ifindex nl iface (fst (run_uci sh args k)) = ifindex nl iface k) \<and>
     (\<forall>net k i. let k' = fst (run_sh sh (lan_script (show_ipv4 (network net + 1) @ ''/'' @ decimal (prefix_len net))) k)
        in ifindex nl iface k' = ifindex nl iface k \<and> (plain_addresses nl k \<longrightarrow> plain_addresses nl k') \<and>
           (ifindex nl iface k = Some i \<longrightarrow>
              on_iface nl i k' \<subseteq> insert (gateway_key network net) (insert RECOVERY_ALIAS (on_iface nl i k)) \<and>
              (gateway_key network net \<in> on_iface nl i k \<longrightarrow> gateway_key network net \<in> on_iface nl i k')))"

lemma reconcile_effect:
  assumes ok: "shell_ok nl sh network iface" and i: "ifindex nl iface k = Some i"
    and k': "k' = fst (reconcile_client_uci sh network net k)"
  shows "on_iface nl i k' \<subseteq> insert (gateway_key network net) (insert RECOVERY_ALIAS (on_iface nl i k))"
    and "gateway_key network net \<in> on_iface nl i k \<Longrightarrow> gateway_key network net \<in> on_iface nl i k'"
proof -
  let ?s = "lan_script (show_ipv4 (network net + 1) @ ''/'' @ decimal (prefix_len net))"
  let ?e = "uci_exists sh ''network.lan'' k"
  let ?g = "uci_get sh ''network.lan.ipaddr'' (fst ?e)"
  have e: "fst (uci_exists sh key q) = fst (run_uci sh [''-q'', ''get'', key] q)"
    "fst (uci_get sh key q) = fst (run_uci sh [''-q'', ''get'', key] q)" for key q
    by (auto simp: uci_exists_def uci_get_def split: prod.splits sum.splits)
  have u: "nl_addresses nl (fst (run_uci sh args q)) = nl_addresses nl q"
    "ifindex nl iface (fst (run_uci sh args q)) = ifindex nl iface q" for args q
    using ok by (simp_all add: shell_ok_def)
  have q: "on_iface nl i (fst ?e) = on_iface nl i k" "on_iface nl i (fst ?g) = on_iface nl i k" "ifindex nl iface (fst ?g) = Some i"
    unfolding e on_iface_def u using i by simp_all
  have r: "on_iface nl i (fst (run_sh sh ?s (fst ?g))) \<subseteq> insert (gateway_key network net) (insert RECOVERY_ALIAS (on_iface nl i (fst ?g)))"
    "gateway_key network net \<in> on_iface nl i (fst ?g) \<Longrightarrow> gateway_key network net \<in> on_iface nl i (fst (run_sh sh ?s (fst ?g)))"
    using ok q(3) unfolding shell_ok_def Let_def by blast+
  have "k' = fst ?e \<or> k' = fst ?g \<or> k' = fst (run_sh sh ?s (fst ?g))"
    unfolding k' reconcile_client_uci_def Let_def by (auto split: prod.splits bool.splits if_splits)
  then show "on_iface nl i k' \<subseteq> insert (gateway_key network net) (insert RECOVERY_ALIAS (on_iface nl i k))"
    and "gateway_key network net \<in> on_iface nl i k \<Longrightarrow> gateway_key network net \<in> on_iface nl i k'"
    using q r by auto
qed

text \<open>Up to the recovery alias, the retractions before a claim do to the kernel what they do to the manager's view.\<close>

lemma effects_refine:
  assumes "kernel_ok nl" and "plain_addresses nl k" and "ifindex nl iface k = Some i"
    and "inj_on (gateway_key network) (A \<union> effect_nets effs)" and "on_iface nl i k \<subseteq> insert RECOVERY_ALIAS (gateway_key network ` A)"
    and "\<forall>net. ReconcileClientUci net \<notin> set effs" and "k' = fold (host_effect nl sh network iface) effs k"
  shows "on_iface nl i k' \<subseteq> insert RECOVERY_ALIAS (gateway_key network ` fst (fold addr_effect effs (A, g)))"
    and "plain_addresses nl k'" and "ifindex nl iface k' = Some i"
proof -
  have "on_iface nl i k' \<subseteq> insert RECOVERY_ALIAS (gateway_key network ` fst (fold addr_effect effs (A, g))) \<and>
      plain_addresses nl k' \<and> ifindex nl iface k' = Some i"
    using assms(2-)
  proof (induction effs arbitrary: k A g)
    case (Cons eff effs)
    show ?case
    proof (cases eff)
      case (AssignClientAddr net)
      note e = assign_effect[OF assms(1) Cons.prems(1,2) refl, of network net]
      have "on_iface nl i (assign_client_addr nl network net iface k) \<subseteq> insert RECOVERY_ALIAS (gateway_key network ` insert net A)"
        using e(1) Cons.prems(4) by auto
      then show ?thesis
        using Cons.IH[of "assign_client_addr nl network net iface k" "insert net A" g] e(2,3) Cons.prems(3,5,6)
        by (simp add: AssignClientAddr host_effect_def Un_commute)
    next
      case (RetractClientAddr net)
      note e = retract_effect[OF assms(1) Cons.prems(1,2) refl, of network net]
      have inj: "inj_on (gateway_key network) (insert net A)" "inj_on (gateway_key network) (A - {net} \<union> effect_nets effs)"
        using Cons.prems(3) by (auto simp: RetractClientAddr inj_on_def)
      have "on_iface nl i (retract_client_addr nl network net iface k) \<subseteq> insert RECOVERY_ALIAS (gateway_key network ` (A - {net}))"
        using e(1) Cons.prems(4) inj_image_remove[OF inj(1)] by auto
      then show ?thesis
        using Cons.IH[of "retract_client_addr nl network net iface k" "A - {net}" g] e(2,3) Cons.prems(5,6) inj(2)
        by (simp add: RetractClientAddr host_effect_def)
    next
      case (SetGateway g')
      then show ?thesis using Cons.IH[of k A g'] Cons.prems by (simp add: host_effect_def)
    next
      case (Gossip m)
      then show ?thesis using Cons.IH[of k A g] Cons.prems by (simp add: host_effect_def)
    next
      case (ReconcileClientUci net)
      then show ?thesis using Cons.prems(5) by auto
    next
      case (PersistClaims st)
      then show ?thesis using Cons.IH[of k A g] Cons.prems by (simp add: host_effect_def)
    next
      case (ExitProcess code)
      then show ?thesis using Cons.IH[of k A g] Cons.prems by (simp add: host_effect_def)
    qed
  qed simp
  then show "on_iface nl i k' \<subseteq> insert RECOVERY_ALIAS (gateway_key network ` fst (fold addr_effect effs (A, g)))"
    and "plain_addresses nl k'" and "ifindex nl iface k' = Some i" by auto
qed

section \<open>The OpenWrt configuration settles\<close>

text \<open>The configuration as \<open>uci\<close> documents it: an option or section has a list of entries, none when it is absent. The
  scripts are sequences of three kinds of command and an ending that commits and reloads.\<close>

datatype UciCmd = DeleteOption string | AddList string string | DelList string string

fun cmd_text :: "UciCmd \<Rightarrow> string" where
  "cmd_text (DeleteOption key) = ''uci -q delete '' @ key @ ''; ''"
| "cmd_text (AddList key v) = ''uci add_list '' @ key @ ''='' @ shell_quoted v @ ''; ''"
| "cmd_text (DelList key v) = ''uci del_list '' @ key @ ''='' @ shell_quoted v @ ''; ''"

fun cmd_effect :: "UciCmd \<Rightarrow> (string \<Rightarrow> string list) \<Rightarrow> string \<Rightarrow> string list" where
  "cmd_effect (DeleteOption key) opts = opts(key := [])"
| "cmd_effect (AddList key v) opts = opts(key := opts key @ [v])"
| "cmd_effect (DelList key v) opts = opts(key := filter (\<lambda>x. x \<noteq> v) (opts key))"

definition uci_reads :: "'k Shell \<Rightarrow> ('k \<Rightarrow> string \<Rightarrow> string list) \<Rightarrow> bool" where
  "uci_reads sh opts \<longleftrightarrow>
     (\<forall>k key. \<exists>out. run_uci sh [''-q'', ''get'', key] k = (k, Inr out) \<and>
        (o_success out \<longleftrightarrow> opts k key \<noteq> []) \<and> o_stdout out = join_with CHR '' '' (opts k key) @ [CHR 0x0A])"

definition script_runs :: "'k Shell \<Rightarrow> ('k \<Rightarrow> string \<Rightarrow> string list) \<Rightarrow> UciCmd list \<Rightarrow> string \<Rightarrow> 'k \<Rightarrow> 'k \<Rightarrow> ShellRun \<Rightarrow> bool" where
  "script_runs sh opts cmds ending k k' r \<longleftrightarrow>
     run_sh sh (concat (map cmd_text cmds) @ ending) k = (k', r) \<and> opts k' = fold cmd_effect cmds (opts k)"

definition lan_cmds :: "string \<Rightarrow> UciCmd list" where
  "lan_cmds gw_cidr =
     [DeleteOption ''network.lan.ipaddr'', DeleteOption ''network.lan.netmask'',
      AddList ''network.lan.ipaddr'' gw_cidr, AddList ''network.lan.ipaddr'' ''192.168.1.1/24'']"

definition lan_ending :: string where
  "lan_ending = ''uci commit network && /etc/init.d/network reload && /etc/init.d/dnsmasq restart''"

definition stale_options :: "string list \<Rightarrow> string list" where
  "stale_options options = filter (\<lambda>opt. starts_with ''114,'' opt \<and> opt \<noteq> DHCP_OPTION_114) options"

definition dnsmasq_cmds :: "string list \<Rightarrow> string list \<Rightarrow> string list \<Rightarrow> UciCmd list" where
  "dnsmasq_cmds servers options rebinds =
     (if MESH_DNS_SERVER_LINE \<in> set servers then [] else [AddList ''dhcp.@dnsmasq[0].server'' MESH_DNS_SERVER_LINE]) @
     (if DOH_CANARY_SERVER_LINE \<in> set servers then [] else [AddList ''dhcp.@dnsmasq[0].server'' DOH_CANARY_SERVER_LINE]) @
     (if DHCP_OPTION_114 \<in> set options then []
      else map (DelList ''dhcp.lan.dhcp_option'') (stale_options options) @ [AddList ''dhcp.lan.dhcp_option'' DHCP_OPTION_114]) @
     (if MESH_REBIND_DOMAIN \<in> set rebinds then [] else [AddList ''dhcp.@dnsmasq[0].rebind_domain'' MESH_REBIND_DOMAIN])"

definition dnsmasq_ending :: string where
  "dnsmasq_ending = ''uci commit dhcp && /etc/init.d/dnsmasq restart''"

lemma lan_script_cmds: "lan_script gw_cidr = concat (map cmd_text (lan_cmds gw_cidr)) @ lan_ending"
  by (simp add: lan_script_def lan_cmds_def lan_ending_def shell_quoted_def)

lemma dnsmasq_script_cmds:
  "dnsmasq_script servers options rebinds =
     concat (map cmd_text (dnsmasq_cmds servers options rebinds)) @ dnsmasq_ending"
  by (simp add: dnsmasq_script_def dnsmasq_cmds_def dnsmasq_ending_def stale_options_def List.member_iff comp_def)

lemma uci_exists_eq: "uci_reads sh opts \<Longrightarrow> uci_exists sh key k = (k, opts k key \<noteq> [])"
  unfolding uci_reads_def uci_exists_def by (elim allE[of _ k] allE[of _ key]) auto

lemma uci_get_words:
  assumes "uci_reads sh opts" and "\<forall>e\<in>set (opts k key). visible e"
  obtains t where "uci_get sh key k = (k, t)" and "split_whitespace t = opts k key"
proof -
  obtain out where out: "run_uci sh [''-q'', ''get'', key] k = (k, Inr out)" "o_success out \<longleftrightarrow> opts k key \<noteq> []"
    "o_stdout out = join_with CHR '' '' (opts k key) @ [CHR 0x0A]"
    using assms(1) unfolding uci_reads_def by blast
  show thesis
  proof (cases "opts k key = []")
    case True
    then show thesis using that[of "[]"] out split_whitespace_join[of "[]"] by (simp add: uci_get_def join_with_def)
  next
    case False
    then show thesis
      using that[of "join_with CHR '' '' (opts k key)"] out trim_words[OF assms(2) False] split_whitespace_join[OF assms(2)]
      by (simp add: uci_get_def)
  qed
qed

text \<open>One run of either reconciler, in terms of the entries.\<close>

definition lan_current :: "(string \<Rightarrow> string list) \<Rightarrow> string \<Rightarrow> bool" where
  "lan_current opts gw_cidr \<longleftrightarrow> (\<exists>rest. opts ''network.lan.ipaddr'' = gw_cidr # rest)"

lemma reconcile_client_uci_eq:
  assumes uci: "uci_reads sh opts" and vis: "\<forall>e\<in>set (opts k ''network.lan.ipaddr''). visible e"
    and lan: "opts k ''network.lan'' \<noteq> []"
    and gw: "gw_cidr = show_ipv4 (network subnet + 1) @ ''/'' @ decimal (prefix_len subnet)"
  shows "reconcile_client_uci sh network subnet k =
    (if lan_current (opts k) gw_cidr then (k, AlreadyCurrent)
     else (case run_sh sh (concat (map cmd_text (lan_cmds gw_cidr)) @ lan_ending) k of (k', r) \<Rightarrow> (k', Ran r)))"
proof -
  obtain t where t: "uci_get sh ''network.lan.ipaddr'' k = (k, t)" "split_whitespace t = opts k ''network.lan.ipaddr''"
    by (rule uci_get_words[of sh opts k "''network.lan.ipaddr''", OF uci vis])
  have "lan_uci_is_current t gw_cidr \<longleftrightarrow> lan_current (opts k) gw_cidr"
    by (auto simp: lan_uci_is_current_def lan_current_def t(2) split: list.splits)
  then show ?thesis
    unfolding reconcile_client_uci_def gw[symmetric] Let_def uci_exists_eq[OF uci] lan_script_cmds
    using lan by (simp only: t(1) prod.case bool.case not_False_eq_True)
qed

definition dnsmasq_current :: "(string \<Rightarrow> string list) \<Rightarrow> bool" where
  "dnsmasq_current opts \<longleftrightarrow>
     MESH_DNS_SERVER_LINE \<in> set (opts ''dhcp.@dnsmasq[0].server'') \<and>
     DOH_CANARY_SERVER_LINE \<in> set (opts ''dhcp.@dnsmasq[0].server'') \<and>
     DHCP_OPTION_114 \<in> set (opts ''dhcp.lan.dhcp_option'') \<and>
     MESH_REBIND_DOMAIN \<in> set (opts ''dhcp.@dnsmasq[0].rebind_domain'')"

definition dnsmasq_keys :: "string list" where
  "dnsmasq_keys = [''dhcp.@dnsmasq[0].server'', ''dhcp.lan.dhcp_option'', ''dhcp.@dnsmasq[0].rebind_domain'']"

lemma reconcile_dnsmasq_uci_eq:
  assumes uci: "uci_reads sh opts" and vis: "\<forall>key\<in>set dnsmasq_keys. \<forall>e\<in>set (opts k key). visible e"
    and sect: "opts k ''dhcp.@dnsmasq[0]'' \<noteq> []"
    and cmds: "cmds = dnsmasq_cmds (opts k ''dhcp.@dnsmasq[0].server'') (opts k ''dhcp.lan.dhcp_option'')
      (opts k ''dhcp.@dnsmasq[0].rebind_domain'')"
  shows "reconcile_dnsmasq_uci sh k =
    (if dnsmasq_current (opts k) then (k, AlreadyCurrent)
     else (case run_sh sh (concat (map cmd_text cmds) @ dnsmasq_ending) k of (k', r) \<Rightarrow> (k', Ran r)))"
proof -
  have get: thesis if "key \<in> set dnsmasq_keys"
    "\<And>t. uci_get sh key k = (k, t) \<Longrightarrow> split_whitespace t = opts k key \<Longrightarrow> thesis" for key thesis
    using uci_get_words[OF uci, of k key] vis that by blast
  obtain t1 where t1: "uci_get sh ''dhcp.@dnsmasq[0].server'' k = (k, t1)"
    "split_whitespace t1 = opts k ''dhcp.@dnsmasq[0].server''" by (rule get[rotated]) (auto simp: dnsmasq_keys_def)
  obtain t2 where t2: "uci_get sh ''dhcp.lan.dhcp_option'' k = (k, t2)"
    "split_whitespace t2 = opts k ''dhcp.lan.dhcp_option''" by (rule get[rotated]) (auto simp: dnsmasq_keys_def)
  obtain t3 where t3: "uci_get sh ''dhcp.@dnsmasq[0].rebind_domain'' k = (k, t3)"
    "split_whitespace t3 = opts k ''dhcp.@dnsmasq[0].rebind_domain''" by (rule get[rotated]) (auto simp: dnsmasq_keys_def)
  have "dnsmasq_uci_is_current t1 t2 t3 \<longleftrightarrow> dnsmasq_current (opts k)"
    by (simp add: dnsmasq_uci_is_current_def dnsmasq_current_def t1 t2 t3 List.member_iff Let_def)
  then show ?thesis
    unfolding reconcile_dnsmasq_uci_def uci_exists_eq[OF uci] cmds dnsmasq_script_cmds
    using sect by (simp only: t1 t2 t3 prod.case bool.case not_False_eq_True)
qed

lemma fold_del_list:
  "fold cmd_effect (map (DelList key) vs) opts = opts(key := filter (\<lambda>x. x \<notin> set vs) (opts key))"
  by (induction vs arbitrary: opts) (auto simp: fun_eq_iff intro: filter_cong)

lemma dnsmasq_cmds_effect:
  assumes "opts' = fold cmd_effect (dnsmasq_cmds (opts ''dhcp.@dnsmasq[0].server'') (opts ''dhcp.lan.dhcp_option'')
      (opts ''dhcp.@dnsmasq[0].rebind_domain'')) opts"
  shows "\<exists>new. opts' ''dhcp.@dnsmasq[0].server'' = opts ''dhcp.@dnsmasq[0].server'' @ new"
    and "\<exists>new. opts' ''dhcp.@dnsmasq[0].rebind_domain'' = opts ''dhcp.@dnsmasq[0].rebind_domain'' @ new"
    and "opts' ''dhcp.lan.dhcp_option'' = (if DHCP_OPTION_114 \<in> set (opts ''dhcp.lan.dhcp_option'') then opts ''dhcp.lan.dhcp_option''
       else filter (\<lambda>opt. \<not> starts_with ''114,'' opt) (opts ''dhcp.lan.dhcp_option'') @ [DHCP_OPTION_114])"
    and "key \<notin> set dnsmasq_keys \<Longrightarrow> opts' key = opts key"
    and "dnsmasq_current opts'"
proof -
  have opt: "filter (\<lambda>x. x \<notin> set (stale_options os)) os = filter (\<lambda>opt. \<not> starts_with ''114,'' opt) os"
    if "DHCP_OPTION_114 \<notin> set os" for os
    using that by (intro filter_cong) (auto simp: stale_options_def)
  note e = assms[unfolded dnsmasq_cmds_def fold_append comp_apply if_distrib[of "\<lambda>l. fold cmd_effect l _"] fold_del_list]
  show "\<exists>new. opts' ''dhcp.@dnsmasq[0].server'' = opts ''dhcp.@dnsmasq[0].server'' @ new" by (simp add: e)
  show "\<exists>new. opts' ''dhcp.@dnsmasq[0].rebind_domain'' = opts ''dhcp.@dnsmasq[0].rebind_domain'' @ new" by (simp add: e)
  show "opts' ''dhcp.lan.dhcp_option'' = (if DHCP_OPTION_114 \<in> set (opts ''dhcp.lan.dhcp_option'') then opts ''dhcp.lan.dhcp_option''
       else filter (\<lambda>opt. \<not> starts_with ''114,'' opt) (opts ''dhcp.lan.dhcp_option'') @ [DHCP_OPTION_114])"
    using opt by (simp add: e)
  show "key \<notin> set dnsmasq_keys \<Longrightarrow> opts' key = opts key" by (simp add: e dnsmasq_keys_def)
  show "dnsmasq_current opts'" by (simp add: e dnsmasq_current_def)
qed

lemma lines_visible:
  "visible ''192.168.1.1/24''" "visible MESH_DNS_SERVER_LINE" "visible DOH_CANARY_SERVER_LINE" "visible DHCP_OPTION_114"
  "visible MESH_REBIND_DOMAIN"
  by (simp_all add: visible_def byte_def MESH_DNS_SERVER_LINE_def DOH_CANARY_SERVER_LINE_def DHCP_OPTION_114_def
      MESH_REBIND_DOMAIN_def)

lemma cidr_visible: "visible (show_ipv4 a @ ''/'' @ decimal n)"
  using show_ipv4_visible[of a] decimal_visible[of n] by (auto simp: visible_def byte_def)

lemma entry_kept: "set (cmd_effect c ops key) \<subseteq> set (ops key) \<union> {v. \<exists>kk. c = AddList kk v}"
  by (cases c) auto

lemma entries_kept: "set (fold cmd_effect cmds ops key) \<subseteq> set (ops key) \<union> {v. \<exists>kk. AddList kk v \<in> set cmds}"
proof (induction cmds arbitrary: ops)
  case (Cons c cmds)
  show ?case using Cons[of "cmd_effect c ops"] entry_kept[of c ops key] by auto
qed simp

text \<open>Whatever the shell reports, once its commands took effect the next run finds nothing to do.\<close>

lemma lan_settled:
  assumes uci: "uci_reads sh opts" and lan: "opts k ''network.lan'' \<noteq> []"
    and vis: "\<forall>e\<in>set (opts k ''network.lan.ipaddr''). visible e"
    and gw: "gw_cidr = show_ipv4 (network subnet + 1) @ ''/'' @ decimal (prefix_len subnet)"
    and run: "script_runs sh opts (lan_cmds gw_cidr) lan_ending k k' r" and new: "\<not> lan_current (opts k) gw_cidr"
  shows "reconcile_client_uci sh network subnet k = (k', Ran r)"
    and "opts k' = (opts k)(''network.lan.ipaddr'' := [gw_cidr, ''192.168.1.1/24''], ''network.lan.netmask'' := [])"
    and "reconcile_client_uci sh network subnet k' = (k', AlreadyCurrent)"
proof -
  show "reconcile_client_uci sh network subnet k = (k', Ran r)"
    unfolding reconcile_client_uci_eq[of sh opts k gw_cidr network subnet, OF uci vis lan gw] using run new by (simp add: script_runs_def)
  show e: "opts k' = (opts k)(''network.lan.ipaddr'' := [gw_cidr, ''192.168.1.1/24''], ''network.lan.netmask'' := [])"
    using run by (simp add: script_runs_def lan_cmds_def fun_eq_iff)
  have vis': "\<forall>e\<in>set (opts k' ''network.lan.ipaddr''). visible e"
    using lines_visible(1) cidr_visible by (simp add: e gw)
  have lan': "opts k' ''network.lan'' \<noteq> []" using lan by (simp add: e)
  show "reconcile_client_uci sh network subnet k' = (k', AlreadyCurrent)"
    unfolding reconcile_client_uci_eq[of sh opts k' gw_cidr network subnet, OF uci vis' lan' gw] by (simp add: lan_current_def e)
qed

lemma dnsmasq_settled:
  assumes uci: "uci_reads sh opts" and sect: "opts k ''dhcp.@dnsmasq[0]'' \<noteq> []"
    and vis: "\<forall>key\<in>set dnsmasq_keys. \<forall>e\<in>set (opts k key). visible e"
    and run: "script_runs sh opts (dnsmasq_cmds (opts k ''dhcp.@dnsmasq[0].server'') (opts k ''dhcp.lan.dhcp_option'')
      (opts k ''dhcp.@dnsmasq[0].rebind_domain'')) dnsmasq_ending k k' r" and new: "\<not> dnsmasq_current (opts k)"
  shows "reconcile_dnsmasq_uci sh k = (k', Ran r)"
    and "reconcile_dnsmasq_uci sh k' = (k', AlreadyCurrent)"
proof -
  show "reconcile_dnsmasq_uci sh k = (k', Ran r)"
    unfolding reconcile_dnsmasq_uci_eq[of sh opts k, OF uci vis sect refl] using run new by (simp add: script_runs_def)
  have e: "opts k' = fold cmd_effect (dnsmasq_cmds (opts k ''dhcp.@dnsmasq[0].server'') (opts k ''dhcp.lan.dhcp_option'')
      (opts k ''dhcp.@dnsmasq[0].rebind_domain'')) (opts k)" using run by (simp add: script_runs_def)
  note eff = dnsmasq_cmds_effect[OF e]
  have "visible v" if "AddList kk v \<in> set (dnsmasq_cmds a b c)" for kk v a b c
    using that lines_visible by (auto simp: dnsmasq_cmds_def split: if_splits)
  then have vis': "\<forall>key\<in>set dnsmasq_keys. \<forall>e\<in>set (opts k' key). visible e"
    unfolding e using entries_kept vis by blast
  have sect': "opts k' ''dhcp.@dnsmasq[0]'' \<noteq> []" using sect eff(4)[of "''dhcp.@dnsmasq[0]''"] by (simp add: dnsmasq_keys_def)
  show "reconcile_dnsmasq_uci sh k' = (k', AlreadyCurrent)"
    unfolding reconcile_dnsmasq_uci_eq[of sh opts k', OF uci vis' sect' refl] using eff(5) by simp
qed

section \<open>Properties\<close>

text \<open>The effects of a claim: retractions and messages, then the network is put on the interface.\<close>

lemma claim_effects_split:
  assumes "claim_and_publish network contains blake3 to_string clock store self_id = Inr (store', effs)"
  obtains (hold) pre net where "effs = pre @ hold_net network net" "\<forall>n. ReconcileClientUci n \<notin> set pre"
      "\<forall>A g. fst (fold addr_effect pre (A, g)) \<subseteq> A"
    | (none) "\<forall>A g. snd (fold addr_effect effs (A, g)) = g"
proof -
  obtain keep extras foreign where part: "partition_claims network store self_id = (keep, extras, foreign)" by (rule prod_cases3)
  let ?rel = "concat (map (\<lambda>n. [Gossip (SubnetClaimRelease (to_string (NetV4 n))
      (now_hlc (clock (to_string (NetV4 n))) self_id)), RetractClientAddr n]) extras)"
  consider msg net where "effs = (?rel @ [Gossip msg]) @ hold_net network net" | "effs = ?rel"
    using assms by (auto simp: claim_and_publish_def part fold_release Let_def split: option.splits sum.splits prod.splits)
  then show thesis
  proof cases
    case 1
    then show thesis by (rule hold) (auto simp: fold_releases)
  next
    case 2
    then show thesis by (intro none) (simp add: fold_releases)
  qed
qed

text \<open>C23. The claim reaches the kernel: when the daemon carries out the effects of a claim and the kernel grants its calls,
  on an interface that carries gateway addresses of networks it held and at most the recovery alias beside them, the
  interface ends with the gateway address of the one network it now holds, and with no other address but the recovery
  alias, which the OpenWrt configuration keeps; holding nothing and without a free network it leaves the host as it was.\<close>

theorem claim_reaches_kernel:
  assumes laws: "ipnet_laws network contains" and inj: "inj to_string" and keyed: "store_keyed to_string store"
    and claim: "claim_and_publish network contains blake3 to_string clock store self_id = Inr (store', effs)"
    and kernel: "kernel_ok nl" "shell_ok nl sh network iface" and plain: "plain_addresses nl k" and i: "ifindex nl iface k = Some i"
    and before: "on_iface nl i k \<subseteq> insert RECOVERY_ALIAS (gateway_key network ` A)" and held: "A \<subseteq> own_nets network self_id store"
    and key: "inj_on (gateway_key network) (A \<union> effect_nets effs)"
  shows "(\<exists>net\<in>own_nets network self_id store'.
            gateway_key network net \<in> on_iface nl i (fold (host_effect nl sh network iface) effs k) \<and>
            on_iface nl i (fold (host_effect nl sh network iface) effs k) \<subseteq> {gateway_key network net, RECOVERY_ALIAS}) \<or>
         own_nets network self_id store = {} \<and> fold (host_effect nl sh network iface) effs k = k"
proof -
  have "(\<exists>net. net \<in> own_nets network self_id store' \<and>
        (\<forall>A g. fold addr_effect effs (A, g) =
          (insert net (A - own_nets network self_id store), Some (client_gateway_addr network net)))) \<or>
     own_nets network self_id store = {} \<and> effs = [] \<and> store' = store"
    using claim_outcome[OF laws inj keyed, of blake3 clock self_id] claim by auto
  then show ?thesis
  proof (elim disjE exE conjE)
    fix net assume net: "net \<in> own_nets network self_id store'" and f: "\<forall>A g. fold addr_effect effs (A, g) =
          (insert net (A - own_nets network self_id store), Some (client_gateway_addr network net))"
    from claim show ?thesis
    proof (cases rule: claim_effects_split)
      case (hold pre net')
      let ?B = "fst (fold addr_effect pre (A, None))" and ?k1 = "fold (host_effect nl sh network iface) pre k"
      let ?k2 = "assign_client_addr nl network net' iface ?k1"
      let ?k3 = "fst (reconcile_client_uci sh network net' ?k2)"
      have fin: "fold (host_effect nl sh network iface) effs k = ?k3" by (simp add: hold(1) hold_net_def host_effect_def)
      have view: "fold addr_effect effs (X, g) = (insert net' (fst (fold addr_effect pre (X, g))), Some (client_gateway_addr network net'))" for X g
        by (cases "fold addr_effect pre (X, g)") (simp add: hold(1) hold_net_def)
      have eq: "insert net' (fst (fold addr_effect pre (X, g))) = insert net (X - own_nets network self_id store)" for X g
        using view[of X g] f[rule_format, of X g] by simp
      have nn: "net' = net" using hold(3)[rule_format, of "{}" None] eq[of "{}" None] by auto
      have B: "?B \<subseteq> {net}" using eq[of A None] held by auto
      have nets: "inj_on (gateway_key network) (A \<union> effect_nets pre)"
        by (rule inj_on_subset[OF key]) (auto simp: hold(1) effect_nets_append)
      note pr = effects_refine[OF kernel(1) plain i nets before hold(2) refl[of ?k1]]
      note as = assign_effect[OF kernel(1) pr(2,3) refl, of network net']
      note rc = reconcile_effect[OF kernel(2) as(3) refl, of net']
      have "on_iface nl i ?k2 \<subseteq> {gateway_key network net, RECOVERY_ALIAS}" "gateway_key network net \<in> on_iface nl i ?k2"
        using as(1) pr(1)[of None] B by (auto simp: nn)
      then have "on_iface nl i ?k3 \<subseteq> {gateway_key network net, RECOVERY_ALIAS}" "gateway_key network net \<in> on_iface nl i ?k3"
        using rc by (auto simp: nn)
      then show ?thesis using net unfolding fin by blast
    next
      case none
      then show ?thesis using f[rule_format, of "{}" None] by (metis option.distinct(1) snd_conv)
    qed
  qed simp
qed

text \<open>A kernel with one interface, \<open>br-lan\<close>, and its list of addresses.\<close>

definition list_kernel :: "AddressMessage list Netlink" where
  "list_kernel =
     \<lparr>nl_connect = \<lambda>_. Inr (), nl_addresses = \<lambda>k. k,
      nl_add = \<lambda>i a p k. if plain_message i p a \<in> set k then (k, Inl ''File exists'') else (k @ [plain_message i p a], Inr ()),
      nl_del = \<lambda>m k. (filter (\<lambda>x. x \<noteq> m) k, Inr ()), nl_links = \<lambda>_. [(7, [IfName ''br-lan''])], nl_routes = \<lambda>_. [],
      sys_ifindex = \<lambda>name k. if name = ''br-lan'' then Some ''7'' else None, sys_class_net = \<lambda>_. Some [''lo'', ''br-lan'']\<rparr>"

lemma list_kernel_ok: "kernel_ok list_kernel"
  by (simp add: kernel_ok_def list_kernel_def)

lemma list_kernel_index: "ifindex list_kernel ''br-lan'' k = Some 7"
proof -
  have "trim ''7'' = ''7''" by (rule trim_id) (simp_all add: byte_def)
  then show ?thesis by (simp add: ifindex_def list_kernel_def parse_uint_def digit_value_def is_ascii_digit_def byte_def)
qed

text \<open>A shell on that kernel: the configuration still has the stock address, and a reload adds the recovery alias.\<close>

definition list_shell :: "AddressMessage list Shell" where
  "list_shell =
     \<lparr>run_uci = \<lambda>_ k. (k, Inr \<lparr>o_success = True, o_stdout = ''192.168.1.1'', o_stderr = []\<rparr>),
      run_sh = \<lambda>_ k. (k @ [plain_message 7 24 (ipv4_of_octets 192 168 1 1)], Finished \<lparr>o_success = True, o_stdout = [], o_stderr = []\<rparr>)\<rparr>"

lemma list_shell_ok: "shell_ok list_kernel list_shell network ''br-lan''"
  by (auto simp: shell_ok_def list_shell_def list_kernel_index on_iface_def plain_addresses_def RECOVERY_ALIAS_def Let_def)
    (auto simp: list_kernel_def)

text \<open>Witness of C23: an empty mesh and an interface without addresses.\<close>

theorem claim_reaches_kernel_witness:
  "\<exists>store' effs net. claim_and_publish std_network std_contains (\<lambda>_. replicate 32 0) net_text (\<lambda>_. 9) [] ''a'' = Inr (store', effs) \<and>
     (gateway_key std_network net \<in> on_iface list_kernel 7 (fold (host_effect list_kernel list_shell std_network ''br-lan'') effs []) \<or>
      fold (host_effect list_kernel list_shell std_network ''br-lan'') effs [] = [])"
proof -
  have keyed: "store_keyed net_text []" by (simp add: store_keyed_def hm_ok_def hm_get_def)
  have empty: "own_nets std_network ''a'' [] = {}" by (simp add: own_nets_def hm_get_def)
  obtain r where r: "pick_subnet_or_smaller std_network std_contains (\<lambda>_. replicate 32 0) ''a'' [] DEFAULT_MESH_SPACE 24 = Inr r"
    using pick_or_smaller_fits[OF std_ipnet_laws, of DEFAULT_MESH_SPACE 24 "\<lambda>_. replicate 32 0" "''a''" "[]"]
    by (auto simp: DEFAULT_MESH_SPACE_def)
  have part: "partition_claims std_network [] ''a'' = (None, [], [])" by (simp add: partition_claims_def List.map_filter_def)
  obtain store' effs where cap: "claim_and_publish std_network std_contains (\<lambda>_. replicate 32 0) net_text (\<lambda>_. 9) [] ''a'' = Inr (store', effs)"
    and nets: "\<exists>n. effect_nets effs \<subseteq> {n}"
    using r by (cases r) (auto simp: claim_and_publish_def part CLIENT_PREFIX_LEN_def hold_net_def Let_def)
  have ij: "inj_on (gateway_key std_network) (effect_nets effs)" using nets by (auto simp: inj_on_def)
  have "(\<exists>net\<in>own_nets std_network ''a'' store'.
      gateway_key std_network net \<in> on_iface list_kernel 7 (fold (host_effect list_kernel list_shell std_network ''br-lan'') effs []) \<and>
      on_iface list_kernel 7 (fold (host_effect list_kernel list_shell std_network ''br-lan'') effs []) \<subseteq>
        {gateway_key std_network net, RECOVERY_ALIAS}) \<or>
     own_nets std_network ''a'' [] = {} \<and> fold (host_effect list_kernel list_shell std_network ''br-lan'') effs [] = []"
    by (rule claim_reaches_kernel[OF std_ipnet_laws net_text_inj keyed cap list_kernel_ok list_shell_ok _ list_kernel_index, where A = "{}"])
      (simp_all add: plain_addresses_def on_iface_def list_kernel_def ij)
  then show ?thesis using cap by blast
qed

text \<open>C22. The OpenWrt configuration settles. On a router whose \<open>uci\<close> and shell work as documented, one run makes the claimed
  gateway the primary LAN address: where it was not, it replaces the LAN address list by the gateway and the recovery alias,
  deletes the separate netmask and touches no other option. One run makes \<open>dnsmasq\<close> forward the mesh zone, refuse the canary
  domain, allow private answers and announce the captive-portal address, and this once, if the announcement of this
  version was not already there beside a stale one; other announcements are removed, other entries are kept and other options
  are not touched. A second run of either changes nothing.\<close>

theorem openwrt_settles:
  assumes uci: "uci_reads sh opts"
    and lan: "opts k ''network.lan'' \<noteq> []" and sect: "opts k ''dhcp.@dnsmasq[0]'' \<noteq> []"
    and vis: "\<forall>key\<in>set (''network.lan.ipaddr'' # dnsmasq_keys). \<forall>e\<in>set (opts k key). visible e"
    and one: "DHCP_OPTION_114 \<in> set (opts k ''dhcp.lan.dhcp_option'') \<longrightarrow>
      filter (starts_with ''114,'') (opts k ''dhcp.lan.dhcp_option'') = [DHCP_OPTION_114]"
    and gw: "gw_cidr = show_ipv4 (network subnet + 1) @ ''/'' @ decimal (prefix_len subnet)"
    and lan_run: "script_runs sh opts (lan_cmds gw_cidr) lan_ending k k1 (Finished out1)"
    and dns_run: "script_runs sh opts (dnsmasq_cmds (opts k ''dhcp.@dnsmasq[0].server'') (opts k ''dhcp.lan.dhcp_option'')
      (opts k ''dhcp.@dnsmasq[0].rebind_domain'')) dnsmasq_ending k k2 (Finished out2)"
    and lan_res: "reconcile_client_uci sh network subnet k = (kl, rl)"
    and dns_res: "reconcile_dnsmasq_uci sh k = (kd, rd)"
  shows "(lan_current (opts kl) gw_cidr \<and>
      (kl = k \<or> opts kl = (opts k)(''network.lan.ipaddr'' := [gw_cidr, ''192.168.1.1/24''], ''network.lan.netmask'' := [])) \<and>
      reconcile_client_uci sh network subnet kl = (kl, AlreadyCurrent)) \<and>
      (dnsmasq_current (opts kd) \<and>
      (\<exists>new. opts kd ''dhcp.@dnsmasq[0].server'' = opts k ''dhcp.@dnsmasq[0].server'' @ new) \<and>
      (\<exists>new. opts kd ''dhcp.@dnsmasq[0].rebind_domain'' = opts k ''dhcp.@dnsmasq[0].rebind_domain'' @ new) \<and>
      filter (starts_with ''114,'') (opts kd ''dhcp.lan.dhcp_option'') = [DHCP_OPTION_114] \<and>
      filter (\<lambda>opt. \<not> starts_with ''114,'' opt) (opts kd ''dhcp.lan.dhcp_option'') =
        filter (\<lambda>opt. \<not> starts_with ''114,'' opt) (opts k ''dhcp.lan.dhcp_option'') \<and>
      (\<forall>key. key \<notin> set dnsmasq_keys \<longrightarrow> opts kd key = opts k key) \<and>
      reconcile_dnsmasq_uci sh kd = (kd, AlreadyCurrent))"
proof (rule conjI)
  have lvis: "\<forall>e\<in>set (opts k ''network.lan.ipaddr''). visible e"
    using vis by simp
  show "lan_current (opts kl) gw_cidr \<and>
      (kl = k \<or> opts kl = (opts k)(''network.lan.ipaddr'' := [gw_cidr, ''192.168.1.1/24''], ''network.lan.netmask'' := [])) \<and>
      reconcile_client_uci sh network subnet kl = (kl, AlreadyCurrent)"
  proof (cases "lan_current (opts k) gw_cidr")
    case True
    then show ?thesis
      using lan_res reconcile_client_uci_eq[of sh opts k gw_cidr network subnet, OF uci lvis lan gw] by simp
  next
    case False
    note st = lan_settled[of sh opts k gw_cidr network subnet, OF uci lan lvis gw lan_run False]
    have "kl = k1" using st(1) lan_res by simp
    then show ?thesis using st(2,3) by (simp add: lan_current_def)
  qed
next
  have dvis: "\<forall>key\<in>set dnsmasq_keys. \<forall>e\<in>set (opts k key). visible e" using vis by simp
  show "dnsmasq_current (opts kd) \<and>
      (\<exists>new. opts kd ''dhcp.@dnsmasq[0].server'' = opts k ''dhcp.@dnsmasq[0].server'' @ new) \<and>
      (\<exists>new. opts kd ''dhcp.@dnsmasq[0].rebind_domain'' = opts k ''dhcp.@dnsmasq[0].rebind_domain'' @ new) \<and>
      filter (starts_with ''114,'') (opts kd ''dhcp.lan.dhcp_option'') = [DHCP_OPTION_114] \<and>
      filter (\<lambda>opt. \<not> starts_with ''114,'' opt) (opts kd ''dhcp.lan.dhcp_option'') =
        filter (\<lambda>opt. \<not> starts_with ''114,'' opt) (opts k ''dhcp.lan.dhcp_option'') \<and>
      (\<forall>key. key \<notin> set dnsmasq_keys \<longrightarrow> opts kd key = opts k key) \<and>
      reconcile_dnsmasq_uci sh kd = (kd, AlreadyCurrent)"
  proof (cases "dnsmasq_current (opts k)")
    case True
    then have "kd = k" "reconcile_dnsmasq_uci sh k = (k, AlreadyCurrent)"
      using dns_res reconcile_dnsmasq_uci_eq[of sh opts k, OF uci dvis sect refl] by simp_all
    then show ?thesis using True one by (simp add: dnsmasq_current_def)
  next
    case False
    note st = dnsmasq_settled[of sh opts k, OF uci sect dvis dns_run False]
    have kd: "kd = k2" using st(1) dns_res by simp
    note eff = dnsmasq_cmds_effect[OF dns_run[unfolded script_runs_def, THEN conjunct2]]
    have "starts_with ''114,'' DHCP_OPTION_114" by (simp add: DHCP_OPTION_114_def)
    then show ?thesis unfolding kd using st(2) eff one by simp
  qed
qed

text \<open>A router that runs these scripts: its state is the entry list of every option.\<close>

definition sim_openwrt :: "string \<Rightarrow> (string \<Rightarrow> string list) Shell" where
  "sim_openwrt gw_cidr =
     \<lparr>run_uci = \<lambda>args k. (k, Inr \<lparr>o_success = k (last args) \<noteq> [], o_stdout = join_with CHR '' '' (k (last args)) @ [CHR 0x0A], o_stderr = []\<rparr>),
      run_sh = \<lambda>script k.
        (fold cmd_effect
           (if starts_with ''uci -q'' script then lan_cmds gw_cidr
            else dnsmasq_cmds (k ''dhcp.@dnsmasq[0].server'') (k ''dhcp.lan.dhcp_option'') (k ''dhcp.@dnsmasq[0].rebind_domain'')) k,
         Finished \<lparr>o_success = True, o_stdout = [], o_stderr = []\<rparr>)\<rparr>"

definition stock_router :: "string \<Rightarrow> string list" where
  "stock_router = (\<lambda>_. [])(''network.lan'' := [''interface''], ''network.lan.ipaddr'' := [''192.168.1.1''],
     ''network.lan.netmask'' := [''255.255.255.0''], ''dhcp.@dnsmasq[0]'' := [''dnsmasq''],
     ''dhcp.lan.dhcp_option'' := [''6,10.0.0.1'', ''114,http://hello.mesh''])"

lemma sim_openwrt_reads: "uci_reads (sim_openwrt gw) (\<lambda>k. k)"
  by (simp add: uci_reads_def sim_openwrt_def)

text \<open>Witness of C22: a router as shipped, with an announcement of an earlier version.\<close>

theorem openwrt_settles_witness:
  "\<exists>kl rl kd rd. reconcile_client_uci (sim_openwrt ''10.42.1.1/24'') net_addr (Ipv4Net 0x0A2A0100 24) stock_router = (kl, rl) \<and>
     kl ''network.lan.ipaddr'' = [''10.42.1.1/24'', ''192.168.1.1/24''] \<and>
     reconcile_dnsmasq_uci (sim_openwrt ''10.42.1.1/24'') stock_router = (kd, rd) \<and>
     filter (starts_with ''114,'') (kd ''dhcp.lan.dhcp_option'') = [DHCP_OPTION_114]"
proof -
  let ?sh = "sim_openwrt ''10.42.1.1/24''"
  let ?n = "Ipv4Net 0x0A2A0100 24"
  obtain kl rl where l: "reconcile_client_uci ?sh net_addr ?n stock_router = (kl, rl)" by fastforce
  obtain kd rd where d: "reconcile_dnsmasq_uci ?sh stock_router = (kd, rd)" by fastforce
  have gw: "''10.42.1.1/24'' = show_ipv4 (net_addr ?n + 1) @ ''/'' @ decimal (prefix_len ?n)" by code_simp
  have vis: "\<forall>key\<in>set (''network.lan.ipaddr'' # dnsmasq_keys). \<forall>e\<in>set (stock_router key). visible e"
    by (simp add: stock_router_def dnsmasq_keys_def visible_def byte_def)
  have r1: "script_runs ?sh (\<lambda>k. k) (lan_cmds ''10.42.1.1/24'') lan_ending stock_router
      (fold cmd_effect (lan_cmds ''10.42.1.1/24'') stock_router) (Finished \<lparr>o_success = True, o_stdout = [], o_stderr = []\<rparr>)"
    by (simp add: script_runs_def sim_openwrt_def lan_cmds_def)
  let ?c = "dnsmasq_cmds (stock_router ''dhcp.@dnsmasq[0].server'') (stock_router ''dhcp.lan.dhcp_option'')
      (stock_router ''dhcp.@dnsmasq[0].rebind_domain'')"
  have "\<not> starts_with ''uci -q'' (concat (map cmd_text ?c) @ dnsmasq_ending)"
    by (simp add: dnsmasq_cmds_def stock_router_def)
  then have r2: "script_runs ?sh (\<lambda>k. k) ?c dnsmasq_ending stock_router (fold cmd_effect ?c stock_router)
      (Finished \<lparr>o_success = True, o_stdout = [], o_stderr = []\<rparr>)"
    by (simp add: script_runs_def sim_openwrt_def)
  have sect: "stock_router ''network.lan'' \<noteq> []" "stock_router ''dhcp.@dnsmasq[0]'' \<noteq> []" by (simp_all add: stock_router_def)
  have one: "DHCP_OPTION_114 \<in> set (stock_router ''dhcp.lan.dhcp_option'') \<longrightarrow>
      filter (starts_with ''114,'') (stock_router ''dhcp.lan.dhcp_option'') = [DHCP_OPTION_114]"
    by (simp add: stock_router_def DHCP_OPTION_114_def)
  note st = openwrt_settles[of ?sh "\<lambda>k. k" stock_router, OF sim_openwrt_reads sect vis one gw r1 r2 l d]
  obtain rest where "kl ''network.lan.ipaddr'' = ''10.42.1.1/24'' # rest" using st by (auto simp: lan_current_def)
  moreover have "stock_router ''network.lan.ipaddr'' = [''192.168.1.1'']" by (simp add: stock_router_def)
  ultimately have "kl \<noteq> stock_router" by auto
  then have "kl ''network.lan.ipaddr'' = [''10.42.1.1/24'', ''192.168.1.1/24'']" using st by auto
  moreover have "filter (starts_with ''114,'') (kd ''dhcp.lan.dhcp_option'') = [DHCP_OPTION_114]" using st by blast
  ultimately show ?thesis using l d by blast
qed

text \<open>The commands that write the configuration run before the one that restarts the service, and the check reads only
  the configuration: when the restart fails or times out, no later run tries it again.\<close>

theorem dnsmasq_restart_not_retried:
  assumes "uci_reads sh opts" and "opts k ''dhcp.@dnsmasq[0]'' \<noteq> []"
    and "\<forall>key\<in>set dnsmasq_keys. \<forall>e\<in>set (opts k key). visible e"
    and "script_runs sh opts (dnsmasq_cmds (opts k ''dhcp.@dnsmasq[0].server'') (opts k ''dhcp.lan.dhcp_option'')
      (opts k ''dhcp.@dnsmasq[0].rebind_domain'')) dnsmasq_ending k k' TimedOut" and "\<not> dnsmasq_current (opts k)"
  shows "reconcile_dnsmasq_uci sh k = (k', Ran TimedOut) \<and> reconcile_dnsmasq_uci sh k' = (k', AlreadyCurrent)"
  using dnsmasq_settled[of sh opts k, OF assms] by blast

text \<open>An announcement of an earlier version is only removed while the new one is missing; beside it, it stays.\<close>

theorem stale_option_kept:
  "dnsmasq_script servers [''114,http://hello.mesh'', DHCP_OPTION_114] rebinds =
     dnsmasq_script servers [DHCP_OPTION_114] rebinds"
  by (simp add: dnsmasq_script_def List.member_iff)

section \<open>Egress from the kernel's routes\<close>

text \<open>What the daemon advertises rests on the kernel's table alone: an egress is advertised exactly when the kernel has a
  default route that babel did not install and that leaves through an interface outside the mesh. Routes with a
  destination, blackholes and a failed dump never count.\<close>

theorem egress_from_kernel:
  "local_egress (read_default_routes nl k) env_var s \<noteq> None \<longleftrightarrow>
     nl_connect nl k = Inr () \<and>
     (\<exists>r\<in>set (nl_routes nl k). rm_destination_prefix_length r = 0 \<and> \<not> rm_babel r \<and>
        (\<exists>i. first_oif (rm_attributes r) = Some i \<and>
           (case link_names (nl_links nl k) i of Some n \<Rightarrow> n \<notin> set EXCLUDED_EGRESS_IFACES | None \<Rightarrow> True)))"
proof -
  have num: "''if'' @ decimal i \<notin> set EXCLUDED_EGRESS_IFACES" for i by (simp add: EXCLUDED_EGRESS_IFACES_def)
  show ?thesis
  proof (cases "nl_connect nl k")
    case (Inl e)
    then show ?thesis by (simp add: local_egress_def classify_egress_def read_default_routes_def)
  next
    case (Inr u)
    let ?name = "\<lambda>i. case link_names (nl_links nl k) i of Some n \<Rightarrow> n | None \<Rightarrow> ''if'' @ decimal i"
    have mem: "d \<in> set (read_default_routes nl k) \<longleftrightarrow> (\<exists>r\<in>set (nl_routes nl k). rm_destination_prefix_length r = 0 \<and>
        (\<exists>i. first_oif (rm_attributes r) = Some i \<and> d = \<lparr>oif = ?name i, proto_babel = rm_babel r\<rparr>))" for d
      by (auto simp: read_default_routes_def Inr set_map_filter Let_def split: option.splits if_splits)
    have name: "?name i \<notin> set EXCLUDED_EGRESS_IFACES \<longleftrightarrow>
        (case link_names (nl_links nl k) i of Some n \<Rightarrow> n \<notin> set EXCLUDED_EGRESS_IFACES | None \<Rightarrow> True)" for i
      using num by (cases "link_names (nl_links nl k) i") simp_all
    have "local_egress (read_default_routes nl k) env_var s \<noteq> None \<longleftrightarrow>
        (\<exists>d\<in>set (read_default_routes nl k). \<not> proto_babel d \<and> oif d \<notin> set EXCLUDED_EGRESS_IFACES)"
      by (simp add: local_egress_def classify_egress_def List.member_iff list_ex_iff Let_def)
    also have "\<dots> \<longleftrightarrow> (\<exists>r\<in>set (nl_routes nl k). rm_destination_prefix_length r = 0 \<and> \<not> rm_babel r \<and>
        (\<exists>i. first_oif (rm_attributes r) = Some i \<and> ?name i \<notin> set EXCLUDED_EGRESS_IFACES))"
      unfolding Bex_def mem by fastforce
    finally show ?thesis unfolding name using Inr by simp
  qed
qed

end
