(* ===== verification/Meshctl.thy ===== *)
theory Meshctl
  imports Net_Text Rust_Strings
begin

text \<open>
  The operator's reconciler \<open>meshctl\<close>: the router inventory (\<open>inventory.rs\<close>), the query layer over SSH
  (\<open>routeros.rs\<close>), the desired resources and their diff (\<open>plan.rs\<close>), the changes (\<open>apply.rs\<close>) and the
  commands that select routers and apply (\<open>main.rs\<close>).

  Parameters: the SSH channel to a router, which takes a script and the state of the world and gives the
  new state with the output or an error; the TOML reader; the parser of a network (\<open>ipnet\<close>) and its network
  address. An \<open>anyhow\<close> error is its chain of messages, the outermost context first.
\<close>

type_synonym anyhow = "string list"

type_synonym 'd ssh = "'d \<Rightarrow> string \<Rightarrow> 'd \<times> (anyhow + string)"

section \<open>Inventory\<close>

datatype Role = Listener | Connector

definition role_text :: "Role \<Rightarrow> string" where
  "role_text role = (case role of Listener \<Rightarrow> ''listener'' | Connector \<Rightarrow> ''connector'')"

record Router =
  rt_name :: string
  rt_address :: string
  rt_user :: "string option"
  rt_role :: Role
  rt_subnet :: "string option"
  rt_tar :: "string option"
  rt_peer :: "string option"
  rt_peer_blob :: "string option"

record Inventory =
  default_user :: string
  default_subnet :: string
  default_tar :: "string option"
  routers :: "Router list"

definition router_user :: "Router \<Rightarrow> Inventory \<Rightarrow> string" where
  "router_user r inventory = (case rt_user r of Some u \<Rightarrow> u | None \<Rightarrow> default_user inventory)"

definition router_subnet :: "Router \<Rightarrow> Inventory \<Rightarrow> string" where
  "router_subnet r inventory = (case rt_subnet r of Some s \<Rightarrow> s | None \<Rightarrow> default_subnet inventory)"

definition router_tar :: "Router \<Rightarrow> Inventory \<Rightarrow> string option" where
  "router_tar r inventory = (case rt_tar r of Some t \<Rightarrow> Some t | None \<Rightarrow> default_tar inventory)"

definition ssh_target :: "Router \<Rightarrow> Inventory \<Rightarrow> string" where
  "ssh_target r inventory = router_user r inventory @ ''@'' @ rt_address r"

definition inv_get :: "Inventory \<Rightarrow> string \<Rightarrow> Router option" where
  "inv_get inventory name = find (\<lambda>r. rt_name r = name) (routers inventory)"

definition peer_of :: "Inventory \<Rightarrow> Router \<Rightarrow> Router option" where
  "peer_of inventory r = (case rt_peer r of Some p \<Rightarrow> inv_get inventory p | None \<Rightarrow> None)"

definition dq :: string where
  "dq = [CHR 0x22]"

text \<open>The \<open>Debug\<close> form of a string: quotes, backslashes and control characters are escaped.\<close>

definition debug_hex :: "nat \<Rightarrow> char" where
  "debug_hex n = char_of (if n < 10 then 48 + n else 87 + n)"

definition debug_char :: "char \<Rightarrow> string" where
  "debug_char c =
     (if c = CHR 0x22 \<or> c = CHR 0x5C then [CHR 0x5C, c]
      else if c = CHR 0x09 then [CHR 0x5C, CHR ''t'']
      else if c = CHR 0x0A then [CHR 0x5C, CHR ''n'']
      else if c = CHR 0x0D then [CHR 0x5C, CHR ''r'']
      else if c = CHR 0x00 then [CHR 0x5C, CHR ''0'']
      else if byte c < 32 \<or> byte c = 127
      then [CHR 0x5C] @ ''u{'' @ (if byte c < 16 then [] else [debug_hex (byte c div 16)]) @
           [debug_hex (byte c mod 16)] @ ''}''
      else [c])"

definition debug_str :: "string \<Rightarrow> string" where
  "debug_str s = dq @ concat (map debug_char s) @ dq"

fun unique_names :: "string list \<Rightarrow> Router list \<Rightarrow> anyhow + unit" where
  "unique_names seen_names [] = Inr ()"
| "unique_names seen_names (r # rs) =
     (if List.member seen_names (rt_name r) then Inl [''duplicate router name in inventory: '' @ rt_name r]
      else unique_names (rt_name r # seen_names) rs)"

fun peers_defined :: "Inventory \<Rightarrow> Router list \<Rightarrow> anyhow + unit" where
  "peers_defined inventory [] = Inr ()"
| "peers_defined inventory (r # rs) =
     (case rt_peer r of
        None \<Rightarrow> peers_defined inventory rs
      | Some peer \<Rightarrow>
          if inv_get inventory peer = None
          then Inl [''router '' @ rt_name r @ '': peer '' @ debug_str peer @ '' is not defined in the inventory'']
          else if peer = rt_name r then Inl [''router '' @ rt_name r @ '': peer references itself'']
          else peers_defined inventory rs)"

definition validate :: "Inventory \<Rightarrow> anyhow + unit" where
  "validate inventory =
     (case unique_names [] (routers inventory) of
        Inl e \<Rightarrow> Inl e
      | Inr _ \<Rightarrow> peers_defined inventory (routers inventory))"

definition inventory_load ::
  "(string \<Rightarrow> anyhow + Inventory) \<Rightarrow> string \<Rightarrow> anyhow + string \<Rightarrow> anyhow + Inventory" where
  "inventory_load toml_from_str path_text file =
     (case file of
        Inl e \<Rightarrow> Inl ((''reading inventory '' @ path_text) # e)
      | Inr contents \<Rightarrow>
          (case toml_from_str contents of
             Inl e \<Rightarrow> Inl ((''parsing '' @ path_text) # e)
           | Inr inventory \<Rightarrow> (case validate inventory of Inl e \<Rightarrow> Inl e | Inr _ \<Rightarrow> Inr inventory)))"

section \<open>Queries\<close>

definition REC_PREFIX :: string where
  "REC_PREFIX = ''MCTL>''"

definition FIELD_SEP :: string where
  "FIELD_SEP = ''~|~''"

definition END_MARKER :: string where
  "END_MARKER = ''MCTL-END''"

type_synonym Record = "(string, string) btree_map"

definition build_query_script :: "string \<Rightarrow> string option \<Rightarrow> string list \<Rightarrow> string" where
  "build_query_script path find_filter props =
     (let find_text = (case find_filter of
                         Some f \<Rightarrow> ''['' @ path @ ''/find where '' @ f @ '']''
                       | None \<Rightarrow> ''['' @ path @ ''/find]'');
          expr = debug_str REC_PREFIX @
            concat (map (\<lambda>(i, field).
              (if i = 0 then '' . '' else '' . '' @ debug_str FIELD_SEP @ '' . '') @
              debug_str (field @ ''='') @ '' . [:tostr ['' @ path @ ''/get $i '' @ field @ '']]'')
              (enumerate 0 props))
      in '':foreach i in='' @ find_text @ '' do={:put ('' @ expr @ '')}; :put '' @ debug_str END_MARKER)"

text \<open>\<open>str::split\<close> on a separator of several bytes, with the piece read so far.\<close>

function split_str :: "string \<Rightarrow> string \<Rightarrow> string \<Rightarrow> string list" where
  "split_str sep cur [] = [cur]"
| "split_str sep cur (c # s) =
     (if sep \<noteq> [] \<and> starts_with sep (c # s) then cur # split_str sep [] (drop (length sep) (c # s))
      else split_str sep (cur @ [c]) s)"
  by pat_completeness auto
termination
  by (relation "measure (\<lambda>(sep, cur, s). length s)") auto

definition parse_fields :: "string \<Rightarrow> Record" where
  "parse_fields rest =
     foldl (\<lambda>rec pair. case split_once CHR ''='' pair of Some (k, v) \<Rightarrow> bt_insert k v rec | None \<Rightarrow> rec) []
       (split_str FIELD_SEP [] rest)"

definition parse_records :: "string \<Rightarrow> Record list" where
  "parse_records stdout =
     List.map_filter
       (\<lambda>raw. case strip_prefix REC_PREFIX (trim_end_matches CHR 0x0D raw) of
                None \<Rightarrow> None
              | Some rest \<Rightarrow> Some (if rest = [] then [] else parse_fields rest))
       (lines stdout)"

definition ensure_complete :: "string \<Rightarrow> anyhow + unit" where
  "ensure_complete stdout =
     (if \<exists>l\<in>set (lines stdout). trim_end_matches CHR 0x0D l = END_MARKER then Inr ()
      else Inl [''RouterOS query did not complete (no '' @ END_MARKER @ '' sentinel) '' @ em_dash @
        '' the script likely errored. Router output:'' @ [CHR 0x0A] @ trim stdout])"

definition run_command :: "'d ssh \<Rightarrow> string \<Rightarrow> 'd \<Rightarrow> 'd \<times> (anyhow + string)" where
  "run_command ssh cmd w =
     (case ssh w (cmd @ ''; :put '' @ debug_str END_MARKER) of
        (w', Inl e) \<Rightarrow> (w', Inl e)
      | (w', Inr out) \<Rightarrow>
          (case ensure_complete out of
             Inl e \<Rightarrow> (w', Inl ((''RouterOS rejected `'' @ cmd @ ''`'') # e))
           | Inr _ \<Rightarrow> (w', Inr out)))"

definition query :: "'d ssh \<Rightarrow> string \<Rightarrow> string option \<Rightarrow> string list \<Rightarrow> 'd \<Rightarrow> 'd \<times> (anyhow + Record list)" where
  "query ssh path find_filter props w =
     (case ssh w (build_query_script path find_filter props) of
        (w', Inl e) \<Rightarrow> (w', Inl e)
      | (w', Inr out) \<Rightarrow>
          (case ensure_complete out of Inl e \<Rightarrow> (w', Inl e) | Inr _ \<Rightarrow> (w', Inr (parse_records out))))"

section \<open>Desired resources and their diff\<close>

definition OWN_COMMENT :: string where
  "OWN_COMMENT = ''mjolnir container egress''"

definition OWN_PREFIX_RE :: string where
  "OWN_PREFIX_RE = ''comment~'' @ dq @ ''^mjolnir'' @ dq"

record Desired =
  ds_kind :: string
  ds_path :: string
  ds_id :: string
  ds_identity :: "string \<times> string"
  ds_fields :: "(string \<times> string) list"
  ds_comment_owned :: bool

definition key_value :: "string \<times> string \<Rightarrow> string" where
  "key_value kv = fst kv @ ''='' @ dq @ snd kv @ dq"

definition find_expr :: "Desired \<Rightarrow> string" where
  "find_expr d = key_value (ds_identity d)"

definition field_keys :: "Desired \<Rightarrow> string list" where
  "field_keys d = map fst (ds_fields d)"

definition add_args :: "Desired \<Rightarrow> string" where
  "add_args d = join_with CHR '' '' (map key_value (ds_identity d # ds_fields d))"

definition set_args :: "Desired \<Rightarrow> string" where
  "set_args d = join_with CHR '' '' (map key_value (ds_fields d))"

record FieldDiff =
  fd_field :: string
  fd_want :: string
  fd_got :: string

datatype Status = Missing | Converged | Drifted "FieldDiff list" | Conflict nat

record Observed =
  ob_desired :: Desired
  ob_status :: Status

record PruneEntry =
  pr_kind :: string
  pr_path :: string
  pr_comment :: string

definition desired_resources ::
  "(string \<Rightarrow> Ipv4Net option) \<Rightarrow> (Ipv4Net \<Rightarrow> ipv4) \<Rightarrow> Inventory \<Rightarrow> Router \<Rightarrow> anyhow + Desired list" where
  "desired_resources parse_net network inventory r =
     (let subnet = router_subnet r inventory
      in case parse_net subnet of
           None \<Rightarrow> Inl [''router '' @ rt_name r @ '': invalid subnet '' @ debug_str subnet]
         | Some net \<Rightarrow>
             (let base = network net;
                  plen = decimal (prefix_len net);
                  gw = base + 1;
                  ct = base + 2;
                  veth_addr = show_ipv4 ct @ ''/'' @ plen;
                  gw_cidr = show_ipv4 gw @ ''/'' @ plen;
                  source = show_ipv4 base @ ''/'' @ plen
              in Inr
                [\<lparr>ds_kind = ''veth'', ds_path = ''/interface/veth'', ds_id = ''veth-mesh'',
                  ds_identity = (''name'', ''veth-mesh''),
                  ds_fields = [(''address'', veth_addr), (''gateway'', show_ipv4 gw)], ds_comment_owned = False\<rparr>,
                 \<lparr>ds_kind = ''bridge'', ds_path = ''/interface/bridge'', ds_id = ''br-mesh'',
                  ds_identity = (''name'', ''br-mesh''), ds_fields = [], ds_comment_owned = False\<rparr>,
                 \<lparr>ds_kind = ''bridge-port'', ds_path = ''/interface/bridge/port'', ds_id = ''veth-mesh@br-mesh'',
                  ds_identity = (''interface'', ''veth-mesh''), ds_fields = [(''bridge'', ''br-mesh'')],
                  ds_comment_owned = False\<rparr>,
                 \<lparr>ds_kind = ''ip-address'', ds_path = ''/ip/address'', ds_id = gw_cidr @ ''@br-mesh'',
                  ds_identity = (''address'', gw_cidr), ds_fields = [(''interface'', ''br-mesh'')],
                  ds_comment_owned = False\<rparr>,
                 \<lparr>ds_kind = ''nat'', ds_path = ''/ip/firewall/nat'', ds_id = OWN_COMMENT,
                  ds_identity = (''comment'', OWN_COMMENT),
                  ds_fields = [(''chain'', ''srcnat''), (''action'', ''masquerade''), (''src-address'', source)],
                  ds_comment_owned = True\<rparr>,
                 \<lparr>ds_kind = ''filter'', ds_path = ''/ip/firewall/filter'', ds_id = OWN_COMMENT,
                  ds_identity = (''comment'', OWN_COMMENT),
                  ds_fields = [(''chain'', ''forward''), (''action'', ''accept''), (''src-address'', source)],
                  ds_comment_owned = True\<rparr>]))"

definition classify_resource :: "(string \<times> string) list \<Rightarrow> Record list \<Rightarrow> Status" where
  "classify_resource props recs =
     (case recs of
        [] \<Rightarrow> Missing
      | [obs] \<Rightarrow>
          (let diffs = List.map_filter
                 (\<lambda>(k, want). let got = (case bt_get obs k of Some v \<Rightarrow> v | None \<Rightarrow> [])
                   in if got \<noteq> want then Some \<lparr>fd_field = k, fd_want = want, fd_got = got\<rparr> else None) props
           in if diffs = [] then Converged else Drifted diffs)
      | _ \<Rightarrow> Conflict (length recs))"

fun observe_desired :: "'d ssh \<Rightarrow> Desired list \<Rightarrow> 'd \<Rightarrow> 'd \<times> (anyhow + Observed list)" where
  "observe_desired ssh [] w = (w, Inr [])"
| "observe_desired ssh (d # ds) w =
     (case query ssh (ds_path d) (Some (find_expr d)) (field_keys d) w of
        (w', Inl e) \<Rightarrow> (w', Inl ((''observing '' @ ds_kind d @ '' '' @ ds_id d) # e))
      | (w', Inr recs) \<Rightarrow>
          (case observe_desired ssh ds w' of
             (w'', Inl e) \<Rightarrow> (w'', Inl e)
           | (w'', Inr os) \<Rightarrow>
               (w'', Inr (\<lparr>ob_desired = d, ob_status = classify_resource (ds_fields d) recs\<rparr> # os))))"

definition owned_paths :: "Desired list \<Rightarrow> string list" where
  "owned_paths ds = sort (remdups (map ds_path (filter ds_comment_owned ds)))"

definition wanted_ids :: "Desired list \<Rightarrow> string \<Rightarrow> string list" where
  "wanted_ids ds path = map (\<lambda>d. snd (ds_identity d)) (filter (\<lambda>d. ds_path d = path) ds)"

definition path_kind :: "Desired list \<Rightarrow> string \<Rightarrow> string" where
  "path_kind ds path = (case find (\<lambda>d. ds_path d = path) ds of Some d \<Rightarrow> ds_kind d | None \<Rightarrow> ''?'')"

definition leftovers :: "Desired list \<Rightarrow> string \<Rightarrow> Record list \<Rightarrow> PruneEntry list" where
  "leftovers ds path recs =
     List.map_filter
       (\<lambda>rec. case bt_get rec ''comment'' of
                Some c \<Rightarrow>
                  if \<not> List.member (wanted_ids ds path) c
                  then Some \<lparr>pr_kind = path_kind ds path, pr_path = path, pr_comment = c\<rparr> else None
              | None \<Rightarrow> None) recs"

fun prune_scan :: "'d ssh \<Rightarrow> Desired list \<Rightarrow> string list \<Rightarrow> 'd \<Rightarrow> 'd \<times> (anyhow + PruneEntry list)" where
  "prune_scan ssh ds [] w = (w, Inr [])"
| "prune_scan ssh ds (path # paths) w =
     (case query ssh path (Some OWN_PREFIX_RE) [''comment''] w of
        (w', Inl e) \<Rightarrow> (w', Inl ((''prune scan on '' @ path) # e))
      | (w', Inr recs) \<Rightarrow>
          (case prune_scan ssh ds paths w' of
             (w'', Inl e) \<Rightarrow> (w'', Inl e)
           | (w'', Inr ps) \<Rightarrow> (w'', Inr (leftovers ds path recs @ ps))))"

definition observe_router ::
  "'d ssh \<Rightarrow> (anyhow + Desired list) \<Rightarrow> 'd \<Rightarrow> 'd \<times> (anyhow + Observed list \<times> PruneEntry list)" where
  "observe_router ssh desired w =
     (case desired of
        Inl e \<Rightarrow> (w, Inl e)
      | Inr ds \<Rightarrow>
          (case observe_desired ssh ds w of
             (w', Inl e) \<Rightarrow> (w', Inl e)
           | (w', Inr observed) \<Rightarrow>
               (case prune_scan ssh ds (owned_paths ds) w' of
                  (w'', Inl e) \<Rightarrow> (w'', Inl e)
                | (w'', Inr prunes) \<Rightarrow> (w'', Inr (observed, prunes)))))"

section \<open>Changes\<close>

record Change =
  ch_kind :: string
  ch_id :: string
  ch_verb :: string
  ch_cmd :: string
  ch_reason :: string

record Skipped =
  sk_kind :: string
  sk_id :: string
  sk_why :: string

definition add_cmd :: "Desired \<Rightarrow> string" where
  "add_cmd d = ds_path d @ ''/add '' @ add_args d"

definition set_cmd :: "Desired \<Rightarrow> string" where
  "set_cmd d = ds_path d @ ''/set [find where '' @ find_expr d @ ''] '' @ set_args d"

definition remove_cmd :: "string \<Rightarrow> string \<Rightarrow> string" where
  "remove_cmd path comment = path @ ''/remove [find where '' @ key_value (''comment'', comment) @ '']''"

definition change_for :: "Observed \<Rightarrow> Change list" where
  "change_for ob =
     (let d = ob_desired ob
      in case ob_status ob of
           Missing \<Rightarrow> [\<lparr>ch_kind = ds_kind d, ch_id = ds_id d, ch_verb = ''add'', ch_cmd = add_cmd d,
                        ch_reason = ''missing''\<rparr>]
         | Drifted diffs \<Rightarrow>
             [\<lparr>ch_kind = ds_kind d, ch_id = ds_id d, ch_verb = ''set'', ch_cmd = set_cmd d,
               ch_reason = ''drift: '' @ join_with CHR '','' (map fd_field diffs)\<rparr>]
         | Converged \<Rightarrow> []
         | Conflict n \<Rightarrow> [])"

definition skipped_for :: "Observed \<Rightarrow> Skipped list" where
  "skipped_for ob =
     (case ob_status ob of
        Conflict n \<Rightarrow> [\<lparr>sk_kind = ds_kind (ob_desired ob), sk_id = ds_id (ob_desired ob),
          sk_why = decimal n @ '' live matches '' @ em_dash @ '' ambiguous, resolve by hand''\<rparr>]
      | _ \<Rightarrow> [])"

definition prune_change :: "PruneEntry \<Rightarrow> Change" where
  "prune_change p =
     \<lparr>ch_kind = pr_kind p, ch_id = pr_comment p, ch_verb = ''remove'', ch_cmd = remove_cmd (pr_path p) (pr_comment p),
      ch_reason = ''prune leftover''\<rparr>"

definition plan_changes ::
  "'d ssh \<Rightarrow> (anyhow + Desired list) \<Rightarrow> 'd \<Rightarrow> 'd \<times> (anyhow + Change list \<times> Skipped list)" where
  "plan_changes ssh desired w =
     (case observe_router ssh desired w of
        (w', Inl e) \<Rightarrow> (w', Inl e)
      | (w', Inr (observed, prunes)) \<Rightarrow>
          (w', Inr (concat (map change_for observed) @ map prune_change prunes, concat (map skipped_for observed))))"

definition run_change :: "'d ssh \<Rightarrow> Change \<Rightarrow> 'd \<Rightarrow> 'd \<times> (anyhow + unit)" where
  "run_change ssh c w =
     (case run_command ssh (ch_cmd c) w of (w', Inl e) \<Rightarrow> (w', Inl e) | (w', Inr _) \<Rightarrow> (w', Inr ()))"

section \<open>Commands\<close>

definition select_routers :: "Inventory \<Rightarrow> string option \<Rightarrow> bool \<Rightarrow> anyhow + Router list" where
  "select_routers inventory name all =
     (case (name, all) of
        (Some _, True) \<Rightarrow> Inl [''pass a router name OR --all, not both'']
      | (None, False) \<Rightarrow> Inl [''specify a router name, or --all'']
      | (Some n, False) \<Rightarrow>
          (case inv_get inventory n of
             None \<Rightarrow> Inl [''no router named '' @ debug_str n @ '' in the inventory'']
           | Some r \<Rightarrow> Inr [r])
      | (None, True) \<Rightarrow> Inr (routers inventory))"

text \<open>The changes of one router, counting what was done and what failed.\<close>

fun run_changes :: "'d ssh \<Rightarrow> Change list \<Rightarrow> 'd \<times> nat \<times> nat \<Rightarrow> 'd \<times> nat \<times> nat" where
  "run_changes ssh [] acc = acc"
| "run_changes ssh (c # cs) (w, done_count, failed) =
     (case run_change ssh c w of
        (w', Inr _) \<Rightarrow> run_changes ssh cs (w', done_count + 1, failed)
      | (w', Inl _) \<Rightarrow> run_changes ssh cs (w', done_count, failed + 1))"

definition unconverged :: "Observed list \<times> PruneEntry list \<Rightarrow> nat" where
  "unconverged obs = length (filter (\<lambda>ob. ob_status ob \<noteq> Converged) (fst obs)) + length (snd obs)"

fun apply_routers ::
  "(string \<Rightarrow> 'd ssh) \<Rightarrow> (Router \<Rightarrow> anyhow + Desired list) \<Rightarrow> Inventory \<Rightarrow> bool \<Rightarrow> Router list \<Rightarrow> 'd \<times> nat \<Rightarrow> 'd \<times> (anyhow + nat)"
where
  "apply_routers connect desired inventory dry_run [] (w, failures) = (w, Inr failures)"
| "apply_routers connect desired inventory dry_run (r # rs) (w, failures) =
     (let ssh = connect (ssh_target r inventory)
      in case plan_changes ssh (desired r) w of
           (w1, Inl e) \<Rightarrow> (w1, Inl e)
         | (w1, Inr (changes, skipped)) \<Rightarrow>
             if changes = [] \<or> dry_run then apply_routers connect desired inventory dry_run rs (w1, failures)
             else
               (case run_changes ssh changes (w1, 0, 0) of
                  (w2, done_count, failed) \<Rightarrow>
                    (case observe_router ssh (desired r) w2 of
                       (w3, Inl e) \<Rightarrow> (w3, Inl e)
                     | (w3, Inr after) \<Rightarrow>
                         apply_routers connect desired inventory dry_run rs
                           (w3, if 0 < failed \<or> 0 < unconverged after then failures + 1 else failures))))"

definition cmd_apply ::
  "(string \<Rightarrow> 'd ssh) \<Rightarrow> (string \<Rightarrow> Ipv4Net option) \<Rightarrow> (Ipv4Net \<Rightarrow> ipv4) \<Rightarrow> Inventory \<Rightarrow> string option \<Rightarrow> bool \<Rightarrow>
     bool \<Rightarrow> 'd \<Rightarrow> 'd \<times> (anyhow + unit)" where
  "cmd_apply connect parse_net network inventory name all dry_run w =
     (case select_routers inventory name all of
        Inl e \<Rightarrow> (w, Inl e)
      | Inr targets \<Rightarrow>
          (case apply_routers connect (desired_resources parse_net network inventory) inventory dry_run targets (w, 0) of
             (w', Inl e) \<Rightarrow> (w', Inl e)
           | (w', Inr failures) \<Rightarrow>
               if 0 < failures then (w', Inl [decimal failures @ '' router(s) did not fully converge''])
               else (w', Inr ())))"

text \<open>\<open>meshctl ping\<close>: the script, and how many routers did not answer.\<close>

fun ping_routers :: "(string \<Rightarrow> 'd ssh) \<Rightarrow> Inventory \<Rightarrow> Router list \<Rightarrow> 'd \<times> nat \<Rightarrow> 'd \<times> nat" where
  "ping_routers connect inventory [] acc = acc"
| "ping_routers connect inventory (r # rs) (w, failures) =
     (case connect (ssh_target r inventory) w '':put [/system/identity/get name]'' of
        (w', Inr _) \<Rightarrow> ping_routers connect inventory rs (w', failures)
      | (w', Inl _) \<Rightarrow> ping_routers connect inventory rs (w', failures + 1))"

definition cmd_ping :: "(string \<Rightarrow> 'd ssh) \<Rightarrow> Inventory \<Rightarrow> string option \<Rightarrow> bool \<Rightarrow> 'd \<Rightarrow> 'd \<times> (anyhow + unit)" where
  "cmd_ping connect inventory name all w =
     (case select_routers inventory name all of
        Inl e \<Rightarrow> (w, Inl e)
      | Inr targets \<Rightarrow>
          (case ping_routers connect inventory targets (w, 0) of
             (w', failures) \<Rightarrow>
               if 0 < failures then (w', Inl [decimal failures @ '' router(s) unreachable over SSH''])
               else (w', Inr ())))"

section \<open>What a router does with the scripts\<close>

text \<open>The items of a menu are lists of properties. The output of a query and the effect of the commands
  are what RouterOS documents: \<open>find\<close> selects the matching items, \<open>add\<close> appends an item, \<open>set\<close> changes
  the properties of the selected items, \<open>remove\<close> deletes them, and a script that runs to its end prints the
  marker.\<close>

type_synonym item = "(string \<times> string) list"

definition item_get :: "item \<Rightarrow> string \<Rightarrow> string" where
  "item_get it k = (case map_of it k of Some v \<Rightarrow> v | None \<Rightarrow> [])"

definition item_set :: "(string \<times> string) list \<Rightarrow> item \<Rightarrow> item" where
  "item_set props it = rev props @ it"

definition found :: "Desired \<Rightarrow> item \<Rightarrow> bool" where
  "found d it \<longleftrightarrow> item_get it (fst (ds_identity d)) = snd (ds_identity d)"

definition tagged :: "item \<Rightarrow> bool" where
  "tagged it \<longleftrightarrow> starts_with ''mjolnir'' (item_get it ''comment'')"

definition end_of_line :: string where
  "end_of_line = [CHR 0x0D, CHR 0x0A]"

fun join_fields :: "string list \<Rightarrow> string" where
  "join_fields [] = []"
| "join_fields [p] = p"
| "join_fields (p # ps) = p @ FIELD_SEP @ join_fields ps"

definition record_line :: "string list \<Rightarrow> item \<Rightarrow> string" where
  "record_line props it = REC_PREFIX @ join_fields (map (\<lambda>f. f @ ''='' @ item_get it f) props)"

definition query_output :: "string list \<Rightarrow> item list \<Rightarrow> string" where
  "query_output props items = concat (map (\<lambda>l. l @ end_of_line) (map (record_line props) items @ [END_MARKER]))"

definition script_of :: "string \<Rightarrow> string" where
  "script_of cmd = cmd @ ''; :put '' @ debug_str END_MARKER"

definition plain :: "string \<Rightarrow> bool" where
  "plain s \<longleftrightarrow> (\<forall>c\<in>set s. 32 \<le> byte c \<and> byte c < 127 \<and> c \<notin> {CHR 0x22, CHR 0x5C, CHR ''$'', CHR ''~''})"

text \<open>A command has its effect where the router accepts it. An item is added only if none with its identity is there, and an
  interface only if its name is free among the interface menus \<open>ifs\<close>; an item that refers to an interface or a bridge is added
  or changed only if that interface exists. Where a command is not accepted, nothing is said of it.\<close>

definition effect_when ::
  "((string \<Rightarrow> item list) \<Rightarrow> bool) \<Rightarrow> 'd ssh \<Rightarrow> ('d \<Rightarrow> string \<Rightarrow> item list) \<Rightarrow> string \<Rightarrow> string \<Rightarrow> (item list \<Rightarrow> item list) \<Rightarrow> bool" where
  "effect_when accepted ssh menu cmd path f \<longleftrightarrow>
     (\<forall>w. accepted (menu w) \<longrightarrow>
        (\<exists>w'. ssh w (script_of cmd) = (w', Inr (END_MARKER @ end_of_line)) \<and> menu w' = (menu w)(path := f (menu w path))))"

abbreviation effect :: "'d ssh \<Rightarrow> ('d \<Rightarrow> string \<Rightarrow> item list) \<Rightarrow> string \<Rightarrow> string \<Rightarrow> (item list \<Rightarrow> item list) \<Rightarrow> bool" where
  "effect \<equiv> effect_when (\<lambda>_. True)"

definition interface_named :: "string list \<Rightarrow> (string \<Rightarrow> item list) \<Rightarrow> string \<Rightarrow> bool" where
  "interface_named ifs m n \<longleftrightarrow> (\<exists>p\<in>set ifs. \<exists>it\<in>set (m p). item_get it ''name'' = n)"

definition refers_to :: "Desired \<Rightarrow> string list" where
  "refers_to d = map snd (filter (\<lambda>(k, _). k \<in> {''interface'', ''bridge''}) (ds_identity d # ds_fields d))"

definition settable :: "string list \<Rightarrow> Desired \<Rightarrow> (string \<Rightarrow> item list) \<Rightarrow> bool" where
  "settable ifs d m \<longleftrightarrow> (\<forall>n\<in>set (refers_to d). interface_named ifs m n)"

definition addable :: "string list \<Rightarrow> Desired \<Rightarrow> (string \<Rightarrow> item list) \<Rightarrow> bool" where
  "addable ifs d m \<longleftrightarrow>
     (\<forall>it\<in>set (m (ds_path d)). \<not> found d it) \<and>
     (fst (ds_identity d) = ''name'' \<longrightarrow> \<not> interface_named ifs m (snd (ds_identity d))) \<and> settable ifs d m"

definition answers ::
  "'d ssh \<Rightarrow> ('d \<Rightarrow> string \<Rightarrow> item list) \<Rightarrow> string \<Rightarrow> string \<Rightarrow> string list \<Rightarrow> (item \<Rightarrow> bool) \<Rightarrow> bool" where
  "answers ssh menu path flt props p \<longleftrightarrow>
     (\<forall>w. ssh w (build_query_script path (Some flt) props) = (w, Inr (query_output props (filter p (menu w path)))))"

definition routeros_ok :: "string list \<Rightarrow> 'd ssh \<Rightarrow> ('d \<Rightarrow> string \<Rightarrow> item list) \<Rightarrow> Desired list \<Rightarrow> bool" where
  "routeros_ok ifs ssh menu ds \<longleftrightarrow>
     (\<forall>d\<in>set ds.
        answers ssh menu (ds_path d) (find_expr d) (field_keys d) (found d) \<and>
        effect_when (addable ifs d) ssh menu (add_cmd d) (ds_path d) (\<lambda>items. items @ [ds_identity d # ds_fields d]) \<and>
        effect_when (settable ifs d) ssh menu (set_cmd d) (ds_path d) (map (\<lambda>it. if found d it then item_set (ds_fields d) it else it)) \<and>
        (ds_comment_owned d \<longrightarrow>
           answers ssh menu (ds_path d) OWN_PREFIX_RE [''comment''] tagged \<and>
           (\<forall>c. plain c \<longrightarrow> effect ssh menu (remove_cmd (ds_path d) c) (ds_path d) (filter (\<lambda>it. item_get it ''comment'' \<noteq> c)))))"

definition plain_item :: "item \<Rightarrow> bool" where
  "plain_item it \<longleftrightarrow> (\<forall>k. plain (item_get it k))"

text \<open>No interface of another kind has the name of a resource.\<close>

definition names_free :: "string list \<Rightarrow> Desired list \<Rightarrow> (string \<Rightarrow> item list) \<Rightarrow> bool" where
  "names_free ifs ds m \<longleftrightarrow>
     (\<forall>d\<in>set ds. fst (ds_identity d) = ''name'' \<longrightarrow>
        (\<forall>p\<in>set ifs. p \<noteq> ds_path d \<longrightarrow> (\<forall>it\<in>set (m p). item_get it ''name'' \<noteq> snd (ds_identity d))))"

text \<open>Dependency order: a resource refers only to interfaces before it.\<close>

fun dependency_order :: "string list \<Rightarrow> string list \<Rightarrow> Desired list \<Rightarrow> bool" where
  "dependency_order ifs ns [] \<longleftrightarrow> True"
| "dependency_order ifs ns (d # ds) \<longleftrightarrow>
     (\<forall>n\<in>set (refers_to d). n \<in> set ns) \<and>
     dependency_order ifs (if fst (ds_identity d) = ''name'' \<and> ds_path d \<in> set ifs then snd (ds_identity d) # ns else ns) ds"

text \<open>What the proofs need of the desired resources: no two live under one path, the identity is not among
  the props, names of interfaces differ, and the texts are plain.\<close>

definition desired_ok :: "Desired list \<Rightarrow> bool" where
  "desired_ok ds \<longleftrightarrow>
     distinct (map ds_path ds) \<and>
     (\<forall>d\<in>set ds. distinct (field_keys d) \<and> fst (ds_identity d) \<notin> set (field_keys d) \<and>
        (\<forall>(k, v)\<in>set (ds_fields d). plain k \<and> CHR ''='' \<notin> set k \<and> k \<noteq> ''comment'' \<and> k \<noteq> ''name'' \<and> plain v) \<and>
        plain (snd (ds_identity d)) \<and> snd (ds_identity d) \<noteq> [] \<and>
        (ds_comment_owned d \<longrightarrow> fst (ds_identity d) = ''comment'')) \<and>
     distinct (map ds_identity (filter (\<lambda>d. fst (ds_identity d) = ''name'') ds))"

section \<open>Reading records back\<close>

lemma sep_start: "starts_with FIELD_SEP (c # s) \<Longrightarrow> c = CHR ''~''"
  by (simp add: FIELD_SEP_def)

lemma split_str_sep: "split_str FIELD_SEP cur (FIELD_SEP @ s) = cur # split_str FIELD_SEP [] s"
proof -
  have f: "FIELD_SEP @ s = CHR ''~'' # CHR ''|'' # CHR ''~'' # s" by (simp add: FIELD_SEP_def)
  have "starts_with FIELD_SEP (FIELD_SEP @ s)" "FIELD_SEP \<noteq> []" "drop (length FIELD_SEP) (FIELD_SEP @ s) = s"
    by (simp_all add: starts_with_def FIELD_SEP_def)
  then show ?thesis unfolding f by (simp only: split_str.simps if_True simp_thms)
qed

lemma split_str_other: "c \<noteq> CHR ''~'' \<Longrightarrow> split_str FIELD_SEP cur (c # s) = split_str FIELD_SEP (cur @ [c]) s"
  using sep_start by (metis split_str.simps(2))

lemma split_str_piece:
  assumes "CHR ''~'' \<notin> set p"
  shows "split_str FIELD_SEP cur p = [cur @ p]"
    and "split_str FIELD_SEP cur (p @ FIELD_SEP @ s) = (cur @ p) # split_str FIELD_SEP [] s"
  using assms
  by (induction p arbitrary: cur)
    (simp_all add: split_str_sep split_str_other eq_commute[of "CHR ''~''"] del: split_str.simps(2))

lemma split_join_fields:
  "ps \<noteq> [] \<Longrightarrow> \<forall>p\<in>set ps. CHR ''~'' \<notin> set p \<Longrightarrow> split_str FIELD_SEP [] (join_fields ps) = ps"
  by (induction ps rule: join_fields.induct) (simp_all add: split_str_piece)

lemma plainD: "plain s \<Longrightarrow> CHR ''~'' \<notin> set s \<and> CHR 0x0A \<notin> set s \<and> CHR 0x0D \<notin> set s"
  unfolding plain_def by (intro conjI notI; drule (1) bspec; simp add: byte_def)

lemma lines_crlf: "\<forall>l\<in>set ls. CHR 0x0A \<notin> set l \<Longrightarrow> lines (concat (map (\<lambda>l. l @ end_of_line) ls)) = ls"
proof -
  assume a: "\<forall>l\<in>set ls. CHR 0x0A \<notin> set l"
  have e: "concat (map (\<lambda>l. l @ end_of_line) ls) = concat (map (\<lambda>l. l @ [CHR 0x0A]) (map (\<lambda>l. l @ [CHR 0x0D]) ls))"
    by (simp add: end_of_line_def comp_def)
  have "split_on CHR 0x0A (concat (map (\<lambda>l. l @ [CHR 0x0A]) (map (\<lambda>l. l @ [CHR 0x0D]) ls))) =
      map (\<lambda>l. l @ [CHR 0x0D]) ls @ [[]]"
    by (rule split_on_lines) (use a in auto)
  then show ?thesis unfolding e lines_def by (simp add: comp_def strip_cr_def)
qed

lemma trim_cr_id: "CHR 0x0D \<notin> set l \<Longrightarrow> trim_end_matches CHR 0x0D l = l"
  by (cases l rule: rev_cases) (auto simp: trim_end_matches_def)

text \<open>What a query reads of an item: the asked properties.\<close>

definition read_item :: "string list \<Rightarrow> item \<Rightarrow> Record" where
  "read_item props it = foldl (\<lambda>rec f. bt_insert f (item_get it f) rec) [] props"

lemma read_item_get: "f \<in> set props \<Longrightarrow> bt_get (read_item props it) f = Some (item_get it f)"
proof -
  have "bt_ok rec \<Longrightarrow> bt_get (foldl (\<lambda>rec f. bt_insert f (item_get it f) rec) rec props) f =
      (if f \<in> set props then Some (item_get it f) else bt_get rec f)" for rec
    by (induction props arbitrary: rec) (auto simp: bt_get_insert bt_insert_ok)
  then show "f \<in> set props \<Longrightarrow> bt_get (read_item props it) f = Some (item_get it f)"
    by (simp add: read_item_def bt_empty_ok)
qed

definition field_name :: "string \<Rightarrow> bool" where
  "field_name k \<longleftrightarrow> plain k \<and> CHR ''='' \<notin> set k"

lemma parse_fields_line:
  assumes "props \<noteq> []" and "\<forall>f\<in>set props. field_name f" and "plain_item it"
  shows "parse_fields (join_fields (map (\<lambda>f. f @ ''='' @ item_get it f) props)) = read_item props it"
proof -
  have "\<forall>p\<in>set (map (\<lambda>f. f @ ''='' @ item_get it f) props). CHR ''~'' \<notin> set p"
    using assms plainD unfolding field_name_def plain_item_def by auto
  then have s: "split_str FIELD_SEP [] (join_fields (map (\<lambda>f. f @ ''='' @ item_get it f) props)) =
      map (\<lambda>f. f @ ''='' @ item_get it f) props"
    using assms(1) by (intro split_join_fields) simp_all
  have "foldl (\<lambda>rec pair. case split_once CHR ''='' pair of Some (k, v) \<Rightarrow> bt_insert k v rec | None \<Rightarrow> rec) rec
      (map (\<lambda>f. f @ ''='' @ item_get it f) props) = foldl (\<lambda>rec f. bt_insert f (item_get it f) rec) rec props" for rec
    using assms(2) by (induction props arbitrary: rec) (simp_all add: field_name_def split_once_append_sep)
  then show ?thesis unfolding parse_fields_def s read_item_def .
qed

lemma join_fields_no_break:
  "c \<notin> set FIELD_SEP \<Longrightarrow> c \<notin> \<Union> (set ` set ps) \<Longrightarrow> c \<notin> set (join_fields ps)"
  by (induction ps rule: join_fields.induct) auto

lemma record_line_no_break:
  assumes "\<forall>f\<in>set props. field_name f" and "plain_item it"
  shows "CHR 0x0A \<notin> set (record_line props it) \<and> CHR 0x0D \<notin> set (record_line props it)"
proof -
  have "c \<notin> \<Union> (set ` set (map (\<lambda>f. f @ ''='' @ item_get it f) props))" if "c = CHR 0x0A \<or> c = CHR 0x0D" for c
    using assms that plainD unfolding field_name_def plain_item_def by auto
  then show ?thesis
    unfolding record_line_def using join_fields_no_break[of _ "map (\<lambda>f. f @ ''='' @ item_get it f) props"]
    by (auto simp: REC_PREFIX_def FIELD_SEP_def)
qed

lemma output_lines:
  assumes "\<forall>f\<in>set props. field_name f" and "\<forall>it\<in>set items. plain_item it"
  shows "lines (query_output props items) = map (record_line props) items @ [END_MARKER]"
  unfolding query_output_def
  by (rule lines_crlf) (use record_line_no_break assms in \<open>auto simp: END_MARKER_def\<close>)

lemma parse_line:
  assumes "\<forall>f\<in>set props. field_name f" and "plain_item it"
  shows "(case strip_prefix REC_PREFIX (trim_end_matches CHR 0x0D (record_line props it)) of
            None \<Rightarrow> None | Some rest \<Rightarrow> Some (if rest = [] then [] else parse_fields rest)) = Some (read_item props it)"
proof -
  have t: "trim_end_matches CHR 0x0D (record_line props it) = record_line props it"
    using record_line_no_break[OF assms] by (intro trim_cr_id) simp
  show ?thesis
  proof (cases "props = []")
    case True
    then show ?thesis unfolding t by (simp add: record_line_def strip_prefix_def starts_with_def read_item_def)
  next
    case False
    then obtain f fs where "props = f # fs" by (cases props) auto
    then have "join_fields (map (\<lambda>f. f @ ''='' @ item_get it f) props) \<noteq> []" by (cases fs) simp_all
    then show ?thesis
      unfolding t using parse_fields_line[OF False assms] by (simp add: record_line_def strip_prefix_def starts_with_def)
  qed
qed

lemma query_reads:
  assumes "answers ssh menu path flt props p" and "\<forall>f\<in>set props. field_name f" and "\<forall>it\<in>set (menu w path). plain_item it"
  shows "query ssh path (Some flt) props w = (w, Inr (map (read_item props) (filter p (menu w path))))"
proof -
  let ?items = "filter p (menu w path)"
  have pl: "\<forall>it\<in>set ?items. plain_item it" using assms(3) by simp
  have l: "lines (query_output props ?items) = map (record_line props) ?items @ [END_MARKER]"
    by (rule output_lines[OF assms(2) pl])
  have e: "ensure_complete (query_output props ?items) = Inr ()"
    unfolding ensure_complete_def l by (simp add: END_MARKER_def trim_end_matches_def)
  have m: "strip_prefix REC_PREFIX (trim_end_matches CHR 0x0D END_MARKER) = None"
    by (simp add: END_MARKER_def trim_end_matches_def strip_prefix_def REC_PREFIX_def starts_with_def)
  have pr: "parse_records (query_output props ?items) = map (read_item props) ?items"
    using pl unfolding parse_records_def l List.map_filter_def by (simp add: parse_line[OF assms(2)] m)
  show ?thesis using assms(1) e pr by (simp add: query_def answers_def)
qed

section \<open>Observing and converging\<close>

definition in_step :: "Desired \<Rightarrow> item \<Rightarrow> bool" where
  "in_step d it \<longleftrightarrow> (\<forall>(k, v)\<in>set (ds_fields d). item_get it k = v)"

definition seen_status :: "('d \<Rightarrow> string \<Rightarrow> item list) \<Rightarrow> 'd \<Rightarrow> Desired \<Rightarrow> Status" where
  "seen_status menu w d =
     classify_resource (ds_fields d) (map (read_item (field_keys d)) (filter (found d) (menu w (ds_path d))))"

definition seen_leftovers :: "('d \<Rightarrow> string \<Rightarrow> item list) \<Rightarrow> 'd \<Rightarrow> Desired list \<Rightarrow> string \<Rightarrow> PruneEntry list" where
  "seen_leftovers menu w ds path = leftovers ds path (map (read_item [''comment'']) (filter tagged (menu w path)))"

text \<open>What the change for one resource makes of the items of its menu.\<close>

definition converge :: "Desired \<Rightarrow> item list \<Rightarrow> item list" where
  "converge d items =
     (case filter (found d) items of
        [] \<Rightarrow> items @ [ds_identity d # ds_fields d]
      | [it] \<Rightarrow> if in_step d it then items
                else map (\<lambda>it. if found d it then item_set (ds_fields d) it else it) items
      | _ \<Rightarrow> items)"

lemma classify_resource_one:
  "classify_resource (ds_fields d) [read_item (field_keys d) it] = Converged \<longleftrightarrow> in_step d it"
  "\<not> in_step d it \<Longrightarrow> \<exists>diffs. classify_resource (ds_fields d) [read_item (field_keys d) it] = Drifted diffs"
proof -
  have g: "bt_get (read_item (field_keys d) it) k = Some (item_get it k)" if "(k, v) \<in> set (ds_fields d)" for k v
    by (rule read_item_get) (use that in \<open>force simp: field_keys_def\<close>)
  let ?ds = "List.map_filter (\<lambda>(k, want). let got = (case bt_get (read_item (field_keys d) it) k of Some v \<Rightarrow> v | None \<Rightarrow> [])
      in if got \<noteq> want then Some \<lparr>fd_field = k, fd_want = want, fd_got = got\<rparr> else None) (ds_fields d)"
  have "?ds = [] \<longleftrightarrow> (\<forall>p\<in>set (ds_fields d). item_get it (fst p) = snd p)"
    unfolding List.map_filter_def Let_def map_is_Nil_conv filter_empty_conv
    by (rule ball_cong) (auto simp: g split: if_splits)
  then have "?ds = [] \<longleftrightarrow> in_step d it" unfolding in_step_def by (simp add: case_prod_beta)
  then show "classify_resource (ds_fields d) [read_item (field_keys d) it] = Converged \<longleftrightarrow> in_step d it"
    "\<not> in_step d it \<Longrightarrow> \<exists>diffs. classify_resource (ds_fields d) [read_item (field_keys d) it] = Drifted diffs"
    by (simp_all add: classify_resource_def)
qed

lemma seen_status_cases:
  assumes "length (filter (found d) (menu w (ds_path d))) \<le> 1"
  obtains "filter (found d) (menu w (ds_path d)) = []" "seen_status menu w d = Missing"
    | it where "filter (found d) (menu w (ds_path d)) = [it]" "in_step d it" "seen_status menu w d = Converged"
    | it diffs where "filter (found d) (menu w (ds_path d)) = [it]" "\<not> in_step d it" "seen_status menu w d = Drifted diffs"
proof (cases "filter (found d) (menu w (ds_path d))")
  case Nil
  then show thesis by (intro that(1)) (simp_all add: seen_status_def classify_resource_def)
next
  case (Cons it its)
  with assms have f: "filter (found d) (menu w (ds_path d)) = [it]" by simp
  show thesis
  proof (cases "in_step d it")
    case True
    then show thesis using f by (intro that(2)[of it]) (simp_all add: seen_status_def classify_resource_one)
  next
    case False
    then obtain diffs where "classify_resource (ds_fields d) [read_item (field_keys d) it] = Drifted diffs"
      using classify_resource_one(2) by blast
    then show thesis using f False by (intro that(3)[of it diffs]) (simp_all add: seen_status_def)
  qed
qed

lemma desired_okD:
  assumes "desired_ok ds" and "d \<in> set ds"
  shows "distinct (field_keys d)" "fst (ds_identity d) \<notin> set (field_keys d)" "\<forall>k\<in>set (field_keys d). field_name k"
    "''comment'' \<notin> set (field_keys d)" "\<forall>(k, v)\<in>set (ds_fields d). plain v" "plain (snd (ds_identity d))"
    "ds_comment_owned d \<Longrightarrow> fst (ds_identity d) = ''comment''" "''name'' \<notin> set (field_keys d)" "snd (ds_identity d) \<noteq> []"
  using assms by (fastforce simp: desired_ok_def field_name_def field_keys_def)+

lemma item_get_set:
  assumes "distinct (field_keys d)"
  shows "k \<notin> set (field_keys d) \<Longrightarrow> item_get (item_set (ds_fields d) it) k = item_get it k"
    and "(k, v) \<in> set (ds_fields d) \<Longrightarrow> item_get (item_set (ds_fields d) it) k = v"
proof -
  have d: "distinct (map fst (rev (ds_fields d)))" using assms by (simp add: field_keys_def rev_map[symmetric])
  show "k \<notin> set (field_keys d) \<Longrightarrow> item_get (item_set (ds_fields d) it) k = item_get it k"
    by (simp add: item_get_def item_set_def field_keys_def map_add_dom_app_simps(3) dom_map_of_conv_image_fst)
  show "(k, v) \<in> set (ds_fields d) \<Longrightarrow> item_get (item_set (ds_fields d) it) k = v"
    using map_of_is_SomeI[OF d, of k v] by (simp add: item_get_def item_set_def map_add_def)
qed

lemma new_item:
  assumes "desired_ok ds" and "d \<in> set ds"
  shows "found d (ds_identity d # ds_fields d)" "in_step d (ds_identity d # ds_fields d)" "plain_item (ds_identity d # ds_fields d)"
proof -
  note k = desired_okD[OF assms]
  have n: "map_of (ds_fields d) (fst (ds_identity d)) = None" using k(2) by (simp add: map_of_eq_None_iff field_keys_def)
  show "found d (ds_identity d # ds_fields d)" by (simp add: found_def item_get_def)
  have m: "map_of (ds_fields d) kk = Some v \<and> kk \<noteq> fst (ds_identity d)" if "(kk, v) \<in> set (ds_fields d)" for kk v
  proof -
    have "map_of (ds_fields d) kk = Some v" using that k(1) by (intro map_of_is_SomeI) (simp_all add: field_keys_def)
    moreover have "kk \<in> set (field_keys d)" using that by (force simp: field_keys_def)
    ultimately show ?thesis using k(2) by metis
  qed
  then show "in_step d (ds_identity d # ds_fields d)" by (auto simp: in_step_def item_get_def)
  have "plain v" if "map_of (ds_identity d # ds_fields d) kk = Some v" for kk v
  proof -
    have "(kk, v) = ds_identity d \<or> (kk, v) \<in> set (ds_fields d)" using map_of_SomeD[OF that] by auto
    then show ?thesis using k(5,6) by (auto simp: prod_eq_iff)
  qed
  then show "plain_item (ds_identity d # ds_fields d)"
    unfolding plain_item_def item_get_def by (auto simp: plain_def[of "[]"] simp del: map_of.simps split: option.split)
qed

lemma set_item:
  assumes "desired_ok ds" and "d \<in> set ds"
  shows "found d (item_set (ds_fields d) it) = found d it" "in_step d (item_set (ds_fields d) it)"
    "plain_item it \<Longrightarrow> plain_item (item_set (ds_fields d) it)"
    "item_get (item_set (ds_fields d) it) ''comment'' = item_get it ''comment''"
proof -
  note k = desired_okD[OF assms]
  show "found d (item_set (ds_fields d) it) = found d it" by (simp add: found_def item_get_set(1)[OF k(1,2)])
  show "in_step d (item_set (ds_fields d) it)" using item_get_set(2)[OF k(1)] by (auto simp: in_step_def)
  show "item_get (item_set (ds_fields d) it) ''comment'' = item_get it ''comment''" by (rule item_get_set(1)[OF k(1,4)])
  show "plain_item (item_set (ds_fields d) it)" if "plain_item it"
    unfolding plain_item_def
  proof
    fix kk
    show "plain (item_get (item_set (ds_fields d) it) kk)"
    proof (cases "kk \<in> set (field_keys d)")
      case True
      then obtain v where v: "(kk, v) \<in> set (ds_fields d)" by (auto simp: field_keys_def)
      then show ?thesis using item_get_set(2)[OF k(1) v] k(5) by auto
    next
      case False
      then show ?thesis using item_get_set(1)[OF k(1) False] that by (simp add: plain_item_def)
    qed
  qed
qed

lemma converge_props:
  assumes "desired_ok ds" and "d \<in> set ds" and "length (filter (found d) items) \<le> 1"
  shows "\<exists>it. filter (found d) (converge d items) = [it] \<and> in_step d it"
    and "filter (\<lambda>it. \<not> found d it) (converge d items) = filter (\<lambda>it. \<not> found d it) items"
    and "\<forall>it\<in>set items. plain_item it \<Longrightarrow> \<forall>it\<in>set (converge d items). plain_item it"
proof -
  note n = new_item[OF assms(1,2)] and s = set_item[OF assms(1,2)]
  let ?up = "\<lambda>it. if found d it then item_set (ds_fields d) it else it"
  have f: "filter (found d) (map ?up xs) = map (item_set (ds_fields d)) (filter (found d) xs)" for xs
    by (induction xs) (simp_all add: s)
  have g: "filter (\<lambda>it. \<not> found d it) (map ?up xs) = filter (\<lambda>it. \<not> found d it) xs" for xs
    by (induction xs) (simp_all add: s)
  consider "filter (found d) items = []" | it where "filter (found d) items = [it]"
    using assms(3) by (cases "filter (found d) items") auto
  then have "(\<exists>it. filter (found d) (converge d items) = [it] \<and> in_step d it) \<and>
      filter (\<lambda>it. \<not> found d it) (converge d items) = filter (\<lambda>it. \<not> found d it) items \<and>
      ((\<forall>it\<in>set items. plain_item it) \<longrightarrow> (\<forall>it\<in>set (converge d items). plain_item it))"
    by cases (auto simp: converge_def n s f g)
  then show "\<exists>it. filter (found d) (converge d items) = [it] \<and> in_step d it"
    "filter (\<lambda>it. \<not> found d it) (converge d items) = filter (\<lambda>it. \<not> found d it) items"
    "\<forall>it\<in>set items. plain_item it \<Longrightarrow> \<forall>it\<in>set (converge d items). plain_item it" by blast+
qed

lemma observe_desired_eq:
  assumes "routeros_ok ifs ssh menu ds" and "desired_ok ds" and "\<forall>d\<in>set ds. \<forall>it\<in>set (menu w (ds_path d)). plain_item it"
    and "set ds' \<subseteq> set ds"
  shows "observe_desired ssh ds' w = (w, Inr (map (\<lambda>d. \<lparr>ob_desired = d, ob_status = seen_status menu w d\<rparr>) ds'))"
  using assms(4)
proof (induction ds')
  case (Cons d ds')
  have "query ssh (ds_path d) (Some (find_expr d)) (field_keys d) w =
      (w, Inr (map (read_item (field_keys d)) (filter (found d) (menu w (ds_path d)))))"
    by (rule query_reads) (use Cons.prems assms(1,3) desired_okD(3)[OF assms(2)] in \<open>auto simp: routeros_ok_def\<close>)
  then show ?case using Cons by (simp add: seen_status_def)
qed simp

lemma prune_scan_eq:
  assumes "routeros_ok ifs ssh menu ds" and "\<forall>d\<in>set ds. \<forall>it\<in>set (menu w (ds_path d)). plain_item it"
    and "set paths \<subseteq> ds_path ` {d \<in> set ds. ds_comment_owned d}"
  shows "prune_scan ssh ds paths w = (w, Inr (concat (map (seen_leftovers menu w ds) paths)))"
  using assms(3)
proof (induction paths)
  case (Cons path paths)
  then obtain d where d: "d \<in> set ds" "ds_comment_owned d" "ds_path d = path" by auto
  have "query ssh path (Some OWN_PREFIX_RE) [''comment''] w = (w, Inr (map (read_item [''comment'']) (filter tagged (menu w path))))"
    by (rule query_reads) (use d assms(1,2) in \<open>auto simp: routeros_ok_def field_name_def plain_def byte_def\<close>)
  then show ?case using Cons by (simp add: seen_leftovers_def)
qed simp

lemma set_owned_paths: "set (owned_paths ds) = ds_path ` {d \<in> set ds. ds_comment_owned d}"
  by (auto simp: owned_paths_def)

lemma observe_eq:
  assumes "routeros_ok ifs ssh menu ds" and "desired_ok ds" and "\<forall>d\<in>set ds. \<forall>it\<in>set (menu w (ds_path d)). plain_item it"
  shows "observe_router ssh (Inr ds) w =
    (w, Inr (map (\<lambda>d. \<lparr>ob_desired = d, ob_status = seen_status menu w d\<rparr>) ds,
             concat (map (seen_leftovers menu w ds) (owned_paths ds))))"
  using observe_desired_eq[OF assms order_refl] prune_scan_eq[OF assms(1,3) equalityD1[OF set_owned_paths]]
  by (simp add: observe_router_def)

lemma wanted_ids_one:
  assumes "desired_ok ds" and "d \<in> set ds"
  shows "wanted_ids ds (ds_path d) = [snd (ds_identity d)]"
proof -
  have "distinct (map ds_path ds)" using assms(1) by (simp add: desired_ok_def)
  then have "filter (\<lambda>x. ds_path x = ds_path d) ds = [d]" using assms(2)
  proof (induction ds)
    case (Cons x ds)
    then show ?case
    proof (cases "x = d")
      case True
      then have "\<forall>y\<in>set ds. ds_path y \<noteq> ds_path d" using Cons.prems(1) by (metis distinct.simps(2) imageI image_set list.simps(9))
      then show ?thesis using True by simp
    next
      case False
      then have "d \<in> set ds" using Cons.prems(2) by simp
      moreover have "ds_path x \<noteq> ds_path d"
        using Cons.prems(1) calculation by (metis distinct.simps(2) imageI image_set list.simps(9))
      ultimately show ?thesis using Cons by simp
    qed
  qed simp
  then show ?thesis by (simp add: wanted_ids_def)
qed

lemma seen_leftovers_iff:
  assumes "desired_ok ds" and "d \<in> set ds"
  shows "set (seen_leftovers menu w ds (ds_path d)) =
    {\<lparr>pr_kind = path_kind ds (ds_path d), pr_path = ds_path d, pr_comment = item_get it ''comment''\<rparr> | it.
       it \<in> set (menu w (ds_path d)) \<and> tagged it \<and> item_get it ''comment'' \<noteq> snd (ds_identity d)}"
  unfolding seen_leftovers_def leftovers_def set_map_filter wanted_ids_one[OF assms]
  by (auto simp: read_item_get)

lemma run_change_effect:
  assumes "effect_when accepted ssh menu (ch_cmd c) path f" and "accepted (menu w)"
  obtains w' where "run_changes ssh (c # cs) (w, n, m) = run_changes ssh cs (w', n + 1, m)"
    "menu w' = (menu w)(path := f (menu w path))"
proof -
  obtain w' where w': "ssh w (script_of (ch_cmd c)) = (w', Inr (END_MARKER @ end_of_line))"
    "menu w' = (menu w)(path := f (menu w path))" using assms unfolding effect_when_def by blast
  have l: "lines (END_MARKER @ end_of_line) = [END_MARKER]"
    using lines_crlf[of "[END_MARKER]"] by (simp add: END_MARKER_def)
  have "ensure_complete (END_MARKER @ end_of_line) = Inr ()"
    unfolding ensure_complete_def l by (simp add: END_MARKER_def trim_end_matches_def)
  then show thesis using w' by (intro that[of w']) (simp_all add: run_change_def run_command_def script_of_def)
qed

lemma change_step:
  assumes "routeros_ok ifs ssh menu ds" and "d \<in> set ds" and "length (filter (found d) (menu w0 (ds_path d))) \<le> 1"
    and same: "menu w (ds_path d) = menu w0 (ds_path d)"
    and acc: "filter (found d) (menu w0 (ds_path d)) = [] \<Longrightarrow> addable ifs d (menu w)" "settable ifs d (menu w)"
  shows "\<exists>w1 n1. run_changes ssh (change_for \<lparr>ob_desired = d, ob_status = seen_status menu w0 d\<rparr> @ cs) (w, n, m) =
      run_changes ssh cs (w1, n1, m) \<and> menu w1 = (menu w)(ds_path d := converge d (menu w0 (ds_path d)))"
proof -
  have eff: "effect_when (addable ifs d) ssh menu (add_cmd d) (ds_path d) (\<lambda>items. items @ [ds_identity d # ds_fields d])"
    "effect_when (settable ifs d) ssh menu (set_cmd d) (ds_path d) (map (\<lambda>it. if found d it then item_set (ds_fields d) it else it))"
    using assms(1,2) by (simp_all add: routeros_ok_def)
  have c1: "ch_cmd (hd (change_for \<lparr>ob_desired = d, ob_status = Missing\<rparr>)) = add_cmd d"
    and c2: "ch_cmd (hd (change_for \<lparr>ob_desired = d, ob_status = Drifted diffs\<rparr>)) = set_cmd d" for diffs
    by (simp_all add: change_for_def Let_def)
  have ch: "\<exists>w1 n1. run_changes ssh (c # cs) (w, n, m) = run_changes ssh cs (w1, n1, m) \<and>
      menu w1 = (menu w)(ds_path d := f (menu w (ds_path d)))" if "effect_when accepted ssh menu (ch_cmd c) (ds_path d) f" "accepted (menu w)" for c f accepted
    by (rule run_change_effect[OF that]) blast
  show ?thesis
  proof (rule seen_status_cases[of d menu w0])
    show "length (filter (found d) (menu w0 (ds_path d))) \<le> 1" by (rule assms(3))
  next
    assume s: "filter (found d) (menu w0 (ds_path d)) = []" "seen_status menu w0 d = Missing"
    show ?thesis
      using ch[where c = "hd (change_for \<lparr>ob_desired = d, ob_status = Missing\<rparr>)", OF eff(1)[folded c1] acc(1)[OF s(1)]] s same
      by (simp add: change_for_def converge_def Let_def del: run_changes.simps)
  next
    fix it assume s: "filter (found d) (menu w0 (ds_path d)) = [it]" "in_step d it" "seen_status menu w0 d = Converged"
    then show ?thesis using same
      by (intro exI[of _ w] exI[of _ n]) (auto simp: change_for_def converge_def Let_def)
  next
    fix it diffs
    assume s: "filter (found d) (menu w0 (ds_path d)) = [it]" "\<not> in_step d it" "seen_status menu w0 d = Drifted diffs"
    show ?thesis
      using ch[where c = "hd (change_for \<lparr>ob_desired = d, ob_status = Drifted diffs\<rparr>)", OF eff(2)[folded c2[of diffs]] acc(2)] s same
      by (simp add: change_for_def converge_def Let_def del: run_changes.simps)
  qed
qed

text \<open>Converging keeps the names in a menu and brings at most the resource's own.\<close>

lemma converge_names:
  assumes "desired_ok ds" and "d \<in> set ds"
  shows "(\<lambda>it. item_get it ''name'') ` set items \<subseteq> (\<lambda>it. item_get it ''name'') ` set (converge d items)"
    and "it \<in> set (converge d items) \<Longrightarrow> item_get it ''name'' \<in> (\<lambda>it. item_get it ''name'') ` set items \<or> item_get it ''name'' = [] \<or>
      ds_identity d = (''name'', item_get it ''name'')"
proof -
  note k = desired_okD[OF assms]
  have s: "item_get (if found d it then item_set (ds_fields d) it else it) ''name'' = item_get it ''name''" for it
    using item_get_set(1)[OF k(1,8)] by simp
  have n: "item_get (ds_identity d # ds_fields d) ''name'' = (if fst (ds_identity d) = ''name'' then snd (ds_identity d) else [])"
    using k(8) by (auto simp: item_get_def field_keys_def map_of_eq_None_iff split: option.split)
       (metis map_of_SomeD fst_conv image_eqI)
  have m: "(\<lambda>it. item_get it ''name'') ` set (map (\<lambda>it. if found d it then item_set (ds_fields d) it else it) items) =
      (\<lambda>it. item_get it ''name'') ` set items" unfolding set_map image_image s ..
  show "(\<lambda>it. item_get it ''name'') ` set items \<subseteq> (\<lambda>it. item_get it ''name'') ` set (converge d items)"
    using m by (auto simp: converge_def split: list.splits)
  assume it: "it \<in> set (converge d items)"
  have "converge d items \<in> {items @ [ds_identity d # ds_fields d], items, map (\<lambda>it. if found d it then item_set (ds_fields d) it else it) items}"
    by (auto simp: converge_def split: list.split)
  then show "item_get it ''name'' \<in> (\<lambda>it. item_get it ''name'') ` set items \<or> item_get it ''name'' = [] \<or>
      ds_identity d = (''name'', item_get it ''name'')"
    using it m n by (elim insertE emptyE) (auto simp: prod_eq_iff split: if_splits)
qed

lemma interface_named_step:
  assumes "desired_ok ds" and "d \<in> set ds"
  shows "interface_named ifs m n \<Longrightarrow> interface_named ifs (m(ds_path d := converge d (m (ds_path d)))) n"
    and "ds_identity d = (''name'', n) \<Longrightarrow> ds_path d \<in> set ifs \<Longrightarrow> length (filter (found d) (m (ds_path d))) \<le> 1 \<Longrightarrow>
      interface_named ifs (m(ds_path d := converge d (m (ds_path d)))) n"
proof -
  show "interface_named ifs m n \<Longrightarrow> interface_named ifs (m(ds_path d := converge d (m (ds_path d)))) n"
  proof -
    assume "interface_named ifs m n"
    then obtain p where p: "p \<in> set ifs" "n \<in> (\<lambda>it. item_get it ''name'') ` set (m p)" unfolding interface_named_def by blast
    then have "n \<in> (\<lambda>it. item_get it ''name'') ` set ((m(ds_path d := converge d (m (ds_path d)))) p)"
      using converge_names(1)[OF assms, of "m (ds_path d)"] by (cases "p = ds_path d") (simp_all add: subset_iff del: image_iff)
    then show ?thesis using p(1) unfolding interface_named_def by blast
  qed
  assume d: "ds_identity d = (''name'', n)" "ds_path d \<in> set ifs" and "length (filter (found d) (m (ds_path d))) \<le> 1"
  then obtain it where "filter (found d) (converge d (m (ds_path d))) = [it]" using converge_props(1)[OF assms] by blast
  then have "it \<in> set (converge d (m (ds_path d)))" "found d it" by (auto simp: filter_eq_Cons_iff)
  then have "it \<in> set ((m(ds_path d := converge d (m (ds_path d)))) (ds_path d))" "item_get it ''name'' = n"
    using d(1) by (simp_all add: found_def)
  then show "interface_named ifs (m(ds_path d := converge d (m (ds_path d)))) n"
    using d(2) unfolding interface_named_def by blast
qed

lemma names_free_step:
  assumes "desired_ok ds" and "d \<in> set ds" and "set ds' \<subseteq> set ds" and "distinct (map ds_path (d # ds'))" and "names_free ifs (d # ds') m"
  shows "names_free ifs ds' (m(ds_path d := converge d (m (ds_path d))))"
  unfolding names_free_def
proof (intro ballI impI)
  fix e p it assume e: "e \<in> set ds'" "fst (ds_identity e) = ''name''" and p: "p \<in> set ifs" "p \<noteq> ds_path e"
    and it: "it \<in> set ((m(ds_path d := converge d (m (ds_path d)))) p)"
  have ne: "d \<noteq> e" using assms(4) e(1) by auto
  have free: "\<forall>it\<in>set (m p). item_get it ''name'' \<noteq> snd (ds_identity e)"
    using assms(5) e p unfolding names_free_def by auto
  have "ds_identity d \<noteq> ds_identity e"
  proof
    assume "ds_identity d = ds_identity e"
    moreover have "inj_on ds_identity (set (filter (\<lambda>d. fst (ds_identity d) = ''name'') ds))"
      using assms(1) by (simp add: desired_ok_def distinct_map)
    ultimately show False using ne assms(2,3) e by (auto simp: inj_on_def)
  qed
  then show "item_get it ''name'' \<noteq> snd (ds_identity e)"
    using it free converge_names(2)[OF assms(1,2), of it "m p"] desired_okD(9)[OF assms(1), of e] assms(3) e
    by (cases "p = ds_path d") (auto simp: prod_eq_iff)
qed

lemma run_convergence:
  assumes "routeros_ok ifs ssh menu ds" and "desired_ok ds"
    and "\<forall>d\<in>set ds. length (filter (found d) (menu w0 (ds_path d))) \<le> 1"
    and "set ds' \<subseteq> set ds" and "distinct (map ds_path ds')" and "\<forall>d\<in>set ds'. menu w (ds_path d) = menu w0 (ds_path d)"
    and "dependency_order ifs ns ds'" and "\<forall>n\<in>set ns. interface_named ifs (menu w) n" and "names_free ifs ds' (menu w)"
  shows "\<exists>w' n'. run_changes ssh (concat (map (\<lambda>d. change_for \<lparr>ob_desired = d, ob_status = seen_status menu w0 d\<rparr>) ds') @ cs)
      (w, n, m) = run_changes ssh cs (w', n', m) \<and>
    (\<forall>d\<in>set ds'. menu w' (ds_path d) = converge d (menu w0 (ds_path d))) \<and>
    (\<forall>p. p \<notin> ds_path ` set ds' \<longrightarrow> menu w' p = menu w p)"
  using assms(4-9)
proof (induction ds' arbitrary: w n ns)
  case (Cons d ds')
  let ?cs = "concat (map (\<lambda>d. change_for \<lparr>ob_desired = d, ob_status = seen_status menu w0 d\<rparr>) ds') @ cs"
  let ?ns = "if fst (ds_identity d) = ''name'' \<and> ds_path d \<in> set ifs then snd (ds_identity d) # ns else ns"
  have d: "d \<in> set ds" using Cons.prems(1) by simp
  have here: "menu w (ds_path d) = menu w0 (ds_path d)" using Cons.prems(3) by simp
  have st: "settable ifs d (menu w)" using Cons.prems(4,5) by (auto simp: settable_def)
  have ad: "addable ifs d (menu w)" if "filter (found d) (menu w0 (ds_path d)) = []"
  proof -
    have no: "\<forall>it\<in>set (menu w (ds_path d)). \<not> found d it" using that here by (simp add: filter_empty_conv)
    then have "\<not> interface_named ifs (menu w) (snd (ds_identity d))" if "fst (ds_identity d) = ''name''"
      using Cons.prems(6) that unfolding names_free_def interface_named_def found_def by auto
    then show ?thesis using no st by (simp add: addable_def)
  qed
  obtain w1 n1 where w1: "run_changes ssh (change_for \<lparr>ob_desired = d, ob_status = seen_status menu w0 d\<rparr> @ ?cs) (w, n, m) =
      run_changes ssh ?cs (w1, n1, m)" "menu w1 = (menu w)(ds_path d := converge d (menu w (ds_path d)))"
    using change_step[OF assms(1) d assms(3)[rule_format, OF d] here ad st, of ?cs n m] here by auto
  have other: "ds_path d \<notin> ds_path ` set ds'" using Cons.prems(2) by simp
  then have "\<forall>e\<in>set ds'. menu w1 (ds_path e) = menu w0 (ds_path e)" using Cons.prems(3) w1(2) by (metis (no_types, lifting) fun_upd_other imageI list.set_intros(2))
  moreover have "\<forall>n\<in>set ?ns. interface_named ifs (menu w1) n"
    using Cons.prems(5) interface_named_step[OF assms(2) d, where ifs = ifs and m = "menu w"] assms(3)[rule_format, OF d] here
    unfolding w1(2) by (auto simp: prod_eq_iff)
  moreover have "names_free ifs ds' (menu w1)"
    unfolding w1(2) by (rule names_free_step[OF assms(2) d _ Cons.prems(2,6)]) (use Cons.prems(1) in auto)
  ultimately obtain w2 n2 where w2: "run_changes ssh ?cs (w1, n1, m) = run_changes ssh cs (w2, n2, m)"
    "\<forall>e\<in>set ds'. menu w2 (ds_path e) = converge e (menu w0 (ds_path e))"
    "\<forall>p. p \<notin> ds_path ` set ds' \<longrightarrow> menu w2 p = menu w1 p"
    using Cons.IH[of w1 ?ns n1] Cons.prems(1,2,4) by (simp del: run_changes.simps) blast
  show ?case using w1 w2 other here by (intro exI[of _ w2] exI[of _ n2]) auto
qed auto

lemma run_prunes:
  assumes "routeros_ok ifs ssh menu ds"
    and "\<forall>p\<in>set ps. plain (pr_comment p) \<and> (\<exists>d\<in>set ds. ds_comment_owned d \<and> ds_path d = pr_path p)"
  shows "\<exists>w' n'. run_changes ssh (map prune_change ps) (w, n, m) = (w', n', m) \<and>
    (\<forall>path. menu w' path =
       filter (\<lambda>it. \<forall>p\<in>set ps. pr_path p = path \<longrightarrow> item_get it ''comment'' \<noteq> pr_comment p) (menu w path))"
  using assms(2)
proof (induction ps arbitrary: w n)
  case (Cons p ps)
  have "effect ssh menu (ch_cmd (prune_change p)) (pr_path p) (filter (\<lambda>it. item_get it ''comment'' \<noteq> pr_comment p))"
    using assms(1) Cons.prems by (fastforce simp: routeros_ok_def prune_change_def)
  then obtain w1 where w1: "run_changes ssh (prune_change p # map prune_change ps) (w, n, m) =
      run_changes ssh (map prune_change ps) (w1, n + 1, m)"
    "menu w1 = (menu w)(pr_path p := filter (\<lambda>it. item_get it ''comment'' \<noteq> pr_comment p) (menu w (pr_path p)))"
    by (rule run_change_effect) simp_all
  obtain w2 n2 where "run_changes ssh (map prune_change ps) (w1, n + 1, m) = (w2, n2, m)"
    "\<forall>path. menu w2 path =
       filter (\<lambda>it. \<forall>p\<in>set ps. pr_path p = path \<longrightarrow> item_get it ''comment'' \<noteq> pr_comment p) (menu w1 path)"
    using Cons.IH[of w1 "n + 1"] Cons.prems by auto
  then show ?case using w1
    by (intro exI[of _ w2] exI[of _ n2]) (auto intro: filter_cong)
qed simp

text \<open>Once no item stands out, nothing is left to do.\<close>

lemma nothing_to_do:
  assumes "routeros_ok ifs ssh menu ds" and "desired_ok ds" and "\<forall>d\<in>set ds. \<forall>it\<in>set (menu w (ds_path d)). plain_item it"
    and "\<forall>d\<in>set ds. (\<exists>it. filter (found d) (menu w (ds_path d)) = [it] \<and> in_step d it) \<and>
      (ds_comment_owned d \<longrightarrow> (\<forall>it\<in>set (menu w (ds_path d)). tagged it \<longrightarrow> found d it))"
  shows "observe_router ssh (Inr ds) w = (w, Inr (map (\<lambda>d. \<lparr>ob_desired = d, ob_status = Converged\<rparr>) ds, []))"
    and "plan_changes ssh (Inr ds) w = (w, Inr ([], []))"
proof -
  have "seen_status menu w d = Converged" if "d \<in> set ds" for d
    using assms(4)[rule_format, OF that] by (auto simp: seen_status_def classify_resource_one)
  moreover have "seen_leftovers menu w ds path = []" if path: "path \<in> set (owned_paths ds)" for path
  proof -
    obtain d where d: "d \<in> set ds" "ds_comment_owned d" "path = ds_path d" using path by (auto simp: set_owned_paths)
    have "fst (ds_identity d) = ''comment''" using desired_okD(7)[OF assms(2) d(1)] d(2) .
    then have "item_get it ''comment'' = snd (ds_identity d)" if "it \<in> set (menu w path)" "tagged it" for it
      using assms(4) d that unfolding found_def by force
    then have "set (seen_leftovers menu w ds path) = {}"
      unfolding d(3) seen_leftovers_iff[OF assms(2) d(1)] by auto
    then show ?thesis by simp
  qed
  ultimately show o: "observe_router ssh (Inr ds) w = (w, Inr (map (\<lambda>d. \<lparr>ob_desired = d, ob_status = Converged\<rparr>) ds, []))"
    unfolding observe_eq[OF assms(1-3)] by simp
  show "plan_changes ssh (Inr ds) w = (w, Inr ([], []))"
    unfolding plan_changes_def o by (simp add: change_for_def skipped_for_def)
qed

text \<open>An item that \<open>meshctl\<close> does not own.\<close>

definition foreign :: "Desired list \<Rightarrow> string \<Rightarrow> item \<Rightarrow> bool" where
  "foreign ds path it \<longleftrightarrow> (\<forall>d\<in>set ds. ds_path d = path \<longrightarrow> \<not> found d it \<and> \<not> (ds_comment_owned d \<and> tagged it))"

lemma path_unique:
  assumes "desired_ok ds" and "d \<in> set ds" and "e \<in> set ds" and "ds_path d = ds_path e"
  shows "d = e"
proof -
  have "distinct (map ds_path ds)" using assms(1) by (simp add: desired_ok_def)
  then show ?thesis using assms(2-4) by (metis distinct_map inj_onD)
qed

lemma converge_foreign:
  assumes "desired_ok ds" and "d \<in> set ds" and "length (filter (found d) items) \<le> 1"
  shows "filter (foreign ds (ds_path d)) (converge d items) = filter (foreign ds (ds_path d)) items"
proof -
  have nf: "foreign ds (ds_path d) it \<Longrightarrow> \<not> found d it" for it using assms(2) by (auto simp: foreign_def)
  have e: "filter (foreign ds (ds_path d)) xs = filter (foreign ds (ds_path d)) (filter (\<lambda>it. \<not> found d it) xs)" for xs
    unfolding filter_filter by (rule filter_cong) (use nf in auto)
  show ?thesis unfolding e[of "converge d items"] converge_props(2)[OF assms] e[of items] ..
qed

text \<open>The tagged items after converging are the resource itself or were there before.\<close>

lemma converge_tagged:
  assumes "desired_ok ds" and "d \<in> set ds" and "length (filter (found d) items) \<le> 1"
    and "it \<in> set (converge d items)" and "\<not> found d it"
  shows "it \<in> set items"
proof -
  have "it \<in> set (filter (\<lambda>it. \<not> found d it) (converge d items))" using assms(4,5) by simp
  then show ?thesis unfolding converge_props(2)[OF assms(1-3)] by simp
qed

lemma pruned_menu:
  assumes "desired_ok ds"
    and "\<forall>d\<in>set ds. length (filter (found d) (menu w (ds_path d))) \<le> 1 \<and> (\<forall>it\<in>set (menu w (ds_path d)). plain_item it)"
    and conv: "\<forall>d\<in>set ds. menu w' (ds_path d) = converge d (menu w (ds_path d))"
    and oth: "\<forall>p. p \<notin> ds_path ` set ds \<longrightarrow> menu w' p = menu w p"
    and ps: "\<And>p. p \<in> set ps \<longleftrightarrow> (\<exists>d it. d \<in> set ds \<and> ds_comment_owned d \<and> it \<in> set (menu w (ds_path d)) \<and> tagged it \<and>
      item_get it ''comment'' \<noteq> snd (ds_identity d) \<and>
      p = \<lparr>pr_kind = path_kind ds (ds_path d), pr_path = ds_path d, pr_comment = item_get it ''comment''\<rparr>)"
    and fin: "\<forall>path. menu w2 path =
       filter (\<lambda>it. \<forall>p\<in>set ps. pr_path p = path \<longrightarrow> item_get it ''comment'' \<noteq> pr_comment p) (menu w' path)"
  shows "\<forall>d\<in>set ds. \<forall>it\<in>set (menu w2 (ds_path d)). plain_item it"
    and "\<forall>d\<in>set ds. (\<exists>it. filter (found d) (menu w2 (ds_path d)) = [it] \<and> in_step d it) \<and>
      (ds_comment_owned d \<longrightarrow> (\<forall>it\<in>set (menu w2 (ds_path d)). tagged it \<longrightarrow> found d it))"
    and "filter (foreign ds path) (menu w2 path) = filter (foreign ds path) (menu w path)"
    and "d \<in> set ds \<Longrightarrow> filter (found d) (menu w (ds_path d)) = [] \<Longrightarrow>
      \<exists>items. menu w2 (ds_path d) = items @ [ds_identity d # ds_fields d]"
proof -
  let ?keep = "\<lambda>path it. \<forall>p\<in>set ps. pr_path p = path \<longrightarrow> item_get it ''comment'' \<noteq> pr_comment p"
  have len: "length (filter (found d) (menu w (ds_path d))) \<le> 1" if "d \<in> set ds" for d using assms(2) that by blast
  show "\<forall>d\<in>set ds. \<forall>it\<in>set (menu w2 (ds_path d)). plain_item it"
    using converge_props(3)[OF assms(1) _ len] assms(2) conv fin by fastforce
  have keep: "?keep (ds_path d) it" if "d \<in> set ds" "found d it" for d it
  proof (intro ballI impI)
    fix p assume "p \<in> set ps" "pr_path p = ds_path d"
    then obtain e where e: "e \<in> set ds" "ds_comment_owned e" "pr_comment p \<noteq> snd (ds_identity e)" "ds_path e = ds_path d"
      unfolding ps by auto
    have "e = d" by (rule path_unique[OF assms(1) e(1) that(1) e(4)])
    then show "item_get it ''comment'' \<noteq> pr_comment p"
      using e that desired_okD(7)[OF assms(1) e(1,2)] by (simp add: found_def)
  qed
  show "\<forall>d\<in>set ds. (\<exists>it. filter (found d) (menu w2 (ds_path d)) = [it] \<and> in_step d it) \<and>
      (ds_comment_owned d \<longrightarrow> (\<forall>it\<in>set (menu w2 (ds_path d)). tagged it \<longrightarrow> found d it))"
  proof (intro ballI conjI impI)
    fix d assume d: "d \<in> set ds"
    have "filter (found d) (menu w2 (ds_path d)) = filter (found d) (menu w' (ds_path d))"
      unfolding fin[rule_format] filter_filter by (rule filter_cong) (use keep d in auto)
    then show "\<exists>it. filter (found d) (menu w2 (ds_path d)) = [it] \<and> in_step d it"
      using converge_props(1)[OF assms(1) d len[OF d]] conv d by simp
    fix it assume it: "ds_comment_owned d" "it \<in> set (menu w2 (ds_path d))" "tagged it"
    show "found d it"
    proof (rule ccontr)
      assume nf: "\<not> found d it"
      have "it \<in> set (converge d (menu w (ds_path d)))" using it(2) fin conv d by simp
      then have "it \<in> set (menu w (ds_path d))" using converge_tagged[OF assms(1) d len[OF d]] nf by blast
      moreover have "item_get it ''comment'' \<noteq> snd (ds_identity d)"
        using nf desired_okD(7)[OF assms(1) d it(1)] by (simp add: found_def)
      ultimately have "\<lparr>pr_kind = path_kind ds (ds_path d), pr_path = ds_path d, pr_comment = item_get it ''comment''\<rparr> \<in> set ps"
        unfolding ps using d it by blast
      then show False using it(2) fin by force
    qed
  qed
  show "\<exists>items. menu w2 (ds_path d) = items @ [ds_identity d # ds_fields d]"
    if d: "d \<in> set ds" "filter (found d) (menu w (ds_path d)) = []"
  proof -
    have c: "menu w' (ds_path d) = menu w (ds_path d) @ [ds_identity d # ds_fields d]"
      using conv d by (simp add: converge_def)
    show ?thesis
      using keep[OF d(1) new_item(1)[OF assms(1) d(1)]] unfolding fin[rule_format] c filter_append by simp
  qed
  have "?keep path it" if "foreign ds path it" for it
    using that unfolding foreign_def tagged_def ps Ball_def by fastforce
  then have "filter (foreign ds path) (menu w2 path) = filter (foreign ds path) (menu w' path)"
    unfolding fin[rule_format] filter_filter by (intro filter_cong) auto
  also have "\<dots> = filter (foreign ds path) (menu w path)"
    using converge_foreign[OF assms(1) _ len] conv oth by (cases "path \<in> ds_path ` set ds") auto
  finally show "filter (foreign ds path) (menu w2 path) = filter (foreign ds path) (menu w path)" .
qed

lemma change_for_cmd: "c \<in> set (change_for ob) \<Longrightarrow> ch_cmd c \<in> {add_cmd (ob_desired ob), set_cmd (ob_desired ob)}"
  by (cases "ob_status ob") (simp_all add: change_for_def Let_def)

lemma apply_one:
  assumes "routeros_ok ifs ssh menu ds" and "desired_ok ds" and order: "dependency_order ifs [] ds" and free: "names_free ifs ds (menu w)"
    and "\<forall>d\<in>set ds. length (filter (found d) (menu w (ds_path d))) \<le> 1 \<and> (\<forall>it\<in>set (menu w (ds_path d)). plain_item it)"
    and "plan_changes ssh (Inr ds) w = (w1, Inr (changes, skipped))" and "run_changes ssh changes (w1, 0, 0) = (w2, done_count, failed)"
  shows "w1 = w \<and> skipped = [] \<and> failed = 0 \<and> plan_changes ssh (Inr ds) w2 = (w2, Inr ([], [])) \<and>
    observe_router ssh (Inr ds) w2 = (w2, Inr (map (\<lambda>d. \<lparr>ob_desired = d, ob_status = Converged\<rparr>) ds, [])) \<and>
    (\<forall>path. filter (foreign ds path) (menu w2 path) = filter (foreign ds path) (menu w path)) \<and>
    (\<forall>d\<in>set ds. ds_comment_owned d \<longrightarrow> (\<forall>it\<in>set (menu w2 (ds_path d)). tagged it \<longrightarrow> found d it)) \<and>
    (\<forall>d\<in>set ds. filter (found d) (menu w (ds_path d)) = [] \<longrightarrow>
       (\<exists>items. menu w2 (ds_path d) = items @ [ds_identity d # ds_fields d])) \<and>
    (\<forall>d\<in>set ds. \<exists>it\<in>set (menu w2 (ds_path d)). found d it) \<and> (\<forall>c\<in>set changes. \<exists>d\<in>set ds. \<exists>x. ch_cmd c = ds_path d @ x)"
proof -
  have len: "\<forall>d\<in>set ds. length (filter (found d) (menu w (ds_path d))) \<le> 1"
    and pl: "\<forall>d\<in>set ds. \<forall>it\<in>set (menu w (ds_path d)). plain_item it" using assms(5) by auto
  let ?ps = "concat (map (seen_leftovers menu w ds) (owned_paths ds))"
  let ?obs = "map (\<lambda>d. \<lparr>ob_desired = d, ob_status = seen_status menu w d\<rparr>) ds"
  have plan: "w1 = w" "changes = concat (map change_for ?obs) @ map prune_change ?ps" "skipped = concat (map skipped_for ?obs)"
    using assms(6) unfolding plan_changes_def observe_eq[OF assms(1,2) pl] prod.case sum.case prod.inject sum.inject
    by blast+
  have "skipped_for \<lparr>ob_desired = d, ob_status = seen_status menu w d\<rparr> = []" if "d \<in> set ds" for d
    by (rule seen_status_cases[of d menu w]) (use len that in \<open>auto simp: skipped_for_def\<close>)
  then have sk: "skipped = []" unfolding plan(3) by simp
  have ps: "p \<in> set ?ps \<longleftrightarrow> (\<exists>d it. d \<in> set ds \<and> ds_comment_owned d \<and> it \<in> set (menu w (ds_path d)) \<and> tagged it \<and>
      item_get it ''comment'' \<noteq> snd (ds_identity d) \<and>
      p = \<lparr>pr_kind = path_kind ds (ds_path d), pr_path = ds_path d, pr_comment = item_get it ''comment''\<rparr>)" for p
    by (auto simp: set_owned_paths seen_leftovers_iff[OF assms(2)])
  obtain w' n' where w': "run_changes ssh changes (w, 0, 0) = run_changes ssh (map prune_change ?ps) (w', n', 0)"
    "\<forall>d\<in>set ds. menu w' (ds_path d) = converge d (menu w (ds_path d))" "\<forall>p. p \<notin> ds_path ` set ds \<longrightarrow> menu w' p = menu w p"
    using run_convergence[OF assms(1,2) len order_refl _ _ order _ free, of "map prune_change ?ps" 0 0] assms(2)
    unfolding plan(2) by (auto simp: desired_ok_def comp_def)
  have "\<forall>p\<in>set ?ps. plain (pr_comment p) \<and> (\<exists>d\<in>set ds. ds_comment_owned d \<and> ds_path d = pr_path p)"
  proof
    fix p assume "p \<in> set ?ps"
    then obtain d it where "d \<in> set ds" "ds_comment_owned d" "it \<in> set (menu w (ds_path d))"
      "p = \<lparr>pr_kind = path_kind ds (ds_path d), pr_path = ds_path d, pr_comment = item_get it ''comment''\<rparr>"
      unfolding ps by blast
    then show "plain (pr_comment p) \<and> (\<exists>d\<in>set ds. ds_comment_owned d \<and> ds_path d = pr_path p)"
      using pl by (auto simp: plain_item_def)
  qed
  from run_prunes[OF assms(1) this, of w' n' 0] have r2: "failed = 0"
    "\<forall>path. menu w2 path =
       filter (\<lambda>it. \<forall>p\<in>set ?ps. pr_path p = path \<longrightarrow> item_get it ''comment'' \<noteq> pr_comment p) (menu w' path)"
    using assms(7) unfolding plan(1) w'(1) by auto
  note pm = pruned_menu[OF assms(2,5) w'(2,3) ps r2(2)]
  have there: "\<exists>it\<in>set (menu w2 (ds_path d)). found d it" if "d \<in> set ds" for d
  proof -
    obtain it where "filter (found d) (menu w2 (ds_path d)) = [it]" using pm(2) \<open>d \<in> set ds\<close> by blast
    then have "it \<in> set (filter (found d) (menu w2 (ds_path d)))" by simp
    then show ?thesis by auto
  qed
  have cmds: "\<exists>d\<in>set ds. \<exists>x. ch_cmd c = ds_path d @ x" if "c \<in> set changes" for c
    using that unfolding plan(2) set_append Un_iff
  proof
    assume "c \<in> set (concat (map change_for ?obs))"
    then obtain d where d: "d \<in> set ds" "c \<in> set (change_for \<lparr>ob_desired = d, ob_status = seen_status menu w d\<rparr>)" by auto
    show ?thesis using change_for_cmd[OF d(2)] by (intro bexI[OF _ d(1)]) (auto simp: add_cmd_def set_cmd_def)
  next
    assume "c \<in> set (map prune_change ?ps)"
    then obtain p where p: "p \<in> set ?ps" "c = prune_change p" unfolding set_map by blast
    then obtain d where "d \<in> set ds" "pr_path p = ds_path d" unfolding ps by auto
    then show ?thesis unfolding p(2) by (intro bexI[of _ d]) (auto simp: prune_change_def remove_cmd_def)
  qed
  show ?thesis
    using there cmds plan(1) sk r2(1) nothing_to_do[OF assms(1,2) pm(1,2)] pm(2-4) by simp
qed

lemma digit_plain: "is_ascii_digit c \<Longrightarrow> 32 \<le> byte c \<and> byte c < 127 \<and> c \<notin> {CHR 0x22, CHR 0x5C, CHR ''$'', CHR ''~''}"
  by (auto simp: is_ascii_digit_def byte_def)

lemma plain_cidr: "plain (show_ipv4 a)" "plain (show_ipv4 a @ ''/'' @ decimal n)"
proof -
  have d: "plain (decimal n)" using decimal_chars[of _ n] digit_plain unfolding plain_def by blast
  show a: "plain (show_ipv4 a)"
    unfolding plain_def
  proof
    fix c assume "c \<in> set (show_ipv4 a)"
    then have "is_ascii_digit c \<or> c = CHR ''.''" by (rule show_ipv4_chars)
    then show "32 \<le> byte c \<and> byte c < 127 \<and> c \<notin> {CHR 0x22, CHR 0x5C, CHR ''$'', CHR ''~''}"
      using digit_plain[of c] by (auto simp: byte_def)
  qed
  show "plain (show_ipv4 a @ ''/'' @ decimal n)" using a d by (simp add: plain_def ball_Un byte_def)
qed

lemma desired_resources_ok:
  assumes "desired_resources parse_net network inventory r = Inr ds"
  shows "desired_ok ds"
proof -
  have lit: "plain ''veth-mesh''" "plain ''br-mesh''" "plain OWN_COMMENT" "plain ''srcnat''" "plain ''masquerade''"
    "plain ''forward''" "plain ''accept''" "plain ''address''" "plain ''gateway''" "plain ''bridge''" "plain ''interface''"
    "plain ''chain''" "plain ''action''" "plain ''src-address''"
    by (simp_all add: plain_def byte_def OWN_COMMENT_def)
  have "OWN_COMMENT \<noteq> []" by (simp add: OWN_COMMENT_def)
  then show ?thesis
    using assms by (auto simp: desired_resources_def Let_def desired_ok_def field_keys_def lit plain_cidr plain_cidr(2)[simplified]
        split: option.splits)
qed

text \<open>The command on one router.\<close>

lemma desired_resources_ordered:
  assumes "desired_resources parse_net network inventory r = Inr ds" and "{''/interface/veth'', ''/interface/bridge''} \<subseteq> set ifs"
  shows "dependency_order ifs [] ds"
  using assms by (auto simp: desired_resources_def Let_def refers_to_def split: option.splits)

lemma cmd_apply_one:
  assumes "inv_get inventory name = Some r"
    and "desired_resources parse_net network inventory r = Inr ds"
    and "{''/interface/veth'', ''/interface/bridge''} \<subseteq> set ifs"
    and "routeros_ok ifs (connect (ssh_target r inventory)) menu ds"
    and "\<forall>d\<in>set ds. length (filter (found d) (menu w (ds_path d))) \<le> 1 \<and> (\<forall>it\<in>set (menu w (ds_path d)). plain_item it)"
    and "names_free ifs ds (menu w)"
    and "cmd_apply connect parse_net network inventory (Some name) False False w = (w', res)"
  shows "res = Inr () \<and>
    plan_changes (connect (ssh_target r inventory)) (Inr ds) w' = (w', Inr ([], [])) \<and>
    (\<forall>path. filter (foreign ds path) (menu w' path) = filter (foreign ds path) (menu w path)) \<and>
    (\<forall>d\<in>set ds. ds_comment_owned d \<longrightarrow> (\<forall>it\<in>set (menu w' (ds_path d)). tagged it \<longrightarrow> found d it)) \<and>
    (\<forall>d\<in>set ds. filter (found d) (menu w (ds_path d)) = [] \<longrightarrow>
       (\<exists>items. menu w' (ds_path d) = items @ [ds_identity d # ds_fields d]))"
proof -
  let ?ssh = "connect (ssh_target r inventory)"
  note ok = desired_resources_ok[OF assms(2)] and order = desired_resources_ordered[OF assms(2,3)]
  have pl: "\<forall>d\<in>set ds. \<forall>it\<in>set (menu w (ds_path d)). plain_item it" using assms(5) by blast
  obtain changes skipped where plan: "plan_changes ?ssh (Inr ds) w = (w, Inr (changes, skipped))"
    unfolding plan_changes_def observe_eq[OF assms(4) ok pl] by simp
  obtain w2 done_count failed where run: "run_changes ?ssh changes (w, 0, 0) = (w2, done_count, failed)"
    by (cases "run_changes ?ssh changes (w, 0, 0)") auto
  note one = apply_one[OF assms(4) ok order assms(6) assms(5) plan run]
  have sel: "select_routers inventory (Some name) False = Inr [r]" by (simp add: select_routers_def assms(1))
  show ?thesis
  proof (cases "changes = []")
    case True
    then have "w' = w \<and> res = Inr ()" using assms(7) plan by (simp add: cmd_apply_def sel assms(2))
    moreover have "w2 = w" using run True by simp
    ultimately show ?thesis using one by simp
  next
    case False
    then have "w' = w2 \<and> res = Inr ()"
      using assms(7) plan run one by (simp add: cmd_apply_def sel assms(2) unconverged_def)
    then show ?thesis using one by simp
  qed
qed

section \<open>Properties\<close>

text \<open>C29. \<open>meshctl apply\<close> converges, and does so in one pass because it works in dependency order: on a router that runs the
  scripts as RouterOS documents, accepting an item only when its identity is free and the interfaces it refers to exist, where no
  resource matches two items and no other kind of interface has the name of a managed one, the command succeeds, a plan made
  afterwards has nothing left to change, skip or prune, and no item that \<open>meshctl\<close> does not own was touched, in any menu.\<close>

theorem apply_converges:
  assumes "inv_get inventory name = Some r"
    and "desired_resources parse_net network inventory r = Inr ds"
    and "{''/interface/veth'', ''/interface/bridge''} \<subseteq> set ifs"
    and "routeros_ok ifs (connect (ssh_target r inventory)) menu ds"
    and "\<forall>d\<in>set ds. length (filter (found d) (menu w (ds_path d))) \<le> 1 \<and> (\<forall>it\<in>set (menu w (ds_path d)). plain_item it)"
    and "names_free ifs ds (menu w)"
    and "cmd_apply connect parse_net network inventory (Some name) False False w = (w', res)"
  shows "res = Inr () \<and>
    plan_changes (connect (ssh_target r inventory)) (Inr ds) w' = (w', Inr ([], [])) \<and>
    (\<forall>path. filter (foreign ds path) (menu w' path) = filter (foreign ds path) (menu w path))"
  using cmd_apply_one[OF assms] by blast

text \<open>A router that runs exactly these scripts: the known ones from a table, and the removals by their text. It refuses an item
  it cannot accept.\<close>

definition SIM_IFS :: "string list" where
  "SIM_IFS = [''/interface/veth'', ''/interface/bridge'']"

type_synonym rstate = "string \<Rightarrow> item list"

definition sim_scripts :: "Desired list \<Rightarrow> (string \<times> (rstate \<Rightarrow> rstate \<times> string)) list" where
  "sim_scripts ds =
     concat (map (\<lambda>d. let p = ds_path d; ok = END_MARKER @ end_of_line in
       [(build_query_script p (Some (find_expr d)) (field_keys d),
         \<lambda>s. (s, query_output (field_keys d) (filter (found d) (s p)))),
        (build_query_script p (Some OWN_PREFIX_RE) [''comment''], \<lambda>s. (s, query_output [''comment''] (filter tagged (s p)))),
        (script_of (add_cmd d), \<lambda>s. if addable SIM_IFS d s then (s(p := s p @ [ds_identity d # ds_fields d]), ok) else (s, ''failure'')),
        (script_of (set_cmd d), \<lambda>s. if settable SIM_IFS d s
           then (s(p := map (\<lambda>it. if found d it then item_set (ds_fields d) it else it) (s p)), ok) else (s, ''failure''))]) ds)"

definition sim_remove :: "string \<Rightarrow> string \<Rightarrow> string option" where
  "sim_remove path script =
     (case strip_prefix (path @ ''/remove [find where comment='' @ dq) script of
        None \<Rightarrow> None
      | Some rest \<Rightarrow> strip_suffix (dq @ '']; :put '' @ debug_str END_MARKER) rest)"

definition sim_ssh :: "Desired list \<Rightarrow> rstate ssh" where
  "sim_ssh ds s script =
     (case map_of (sim_scripts ds) script of
        Some act \<Rightarrow> (case act s of (s', out) \<Rightarrow> (s', Inr out))
      | None \<Rightarrow>
          (case List.map_filter (\<lambda>p. map_option (Pair p) (sim_remove p script)) (map ds_path ds) of
             (p, c) # _ \<Rightarrow> (s(p := filter (\<lambda>it. item_get it ''comment'' \<noteq> c) (s p)), Inr (END_MARKER @ end_of_line))
           | [] \<Rightarrow> (s, Inr ''bad command name'')))"

definition sample_inventory :: Inventory where
  "sample_inventory =
     \<lparr>default_user = ''admin'', default_subnet = ''172.20.0.0/24'', default_tar = None,
      routers = [\<lparr>rt_name = ''r1'', rt_address = ''10.0.0.1'', rt_user = None, rt_role = Listener, rt_subnet = None,
        rt_tar = None, rt_peer = None, rt_peer_blob = None\<rparr>]\<rparr>"

definition sample_parse :: "string \<Rightarrow> Ipv4Net option" where
  "sample_parse s = (if s = ''172.20.0.0/24'' then Some (Ipv4Net 0xAC140000 24) else None)"

definition sample_desired :: "Desired list" where
  "sample_desired = projr (desired_resources sample_parse net_addr sample_inventory (hd (routers sample_inventory)))"

lemma sample_scripts_distinct: "distinct (map fst (sim_scripts sample_desired))"
  by code_simp

lemma sample_no_removal:
  "\<forall>x\<in>set (map fst (sim_scripts sample_desired)). \<forall>p\<in>set (owned_paths sample_desired). \<not> starts_with (p @ ''/remove'') x"
  by code_simp

lemma sample_paths:
  "map ds_path sample_desired = [''/interface/veth'', ''/interface/bridge'', ''/interface/bridge/port'', ''/ip/address'',
     ''/ip/firewall/nat'', ''/ip/firewall/filter'']"
  "map ds_comment_owned sample_desired = [False, False, False, False, True, True]"
  by code_simp+

lemma sample_owned: "owned_paths sample_desired = [''/ip/firewall/filter'', ''/ip/firewall/nat'']"
  by code_simp

lemma strip_append: "strip_prefix p (p @ s) = Some s" "strip_suffix q (s @ q) = Some s"
  by (simp_all add: strip_prefix_def strip_suffix_def starts_with_def ends_with_def)

lemma remove_script: "script_of (remove_cmd p c) = (p @ ''/remove [find where comment='' @ dq) @ c @ dq @ '']; :put '' @ debug_str END_MARKER"
  by (simp add: script_of_def remove_cmd_def key_value_def)

lemma sim_remove_own: "sim_remove p (script_of (remove_cmd p c)) = Some c"
  unfolding remove_script sim_remove_def strip_append(1) option.case by (rule strip_append(2)[of _ c, simplified])

lemma sim_table:
  assumes "(script, act) \<in> set (sim_scripts sample_desired)"
  shows "sim_ssh sample_desired s script = (fst (act s), Inr (snd (act s)))"
  using map_of_is_SomeI[OF sample_scripts_distinct assms] by (simp add: sim_ssh_def split: prod.splits)

lemma sim_removal:
  assumes "p \<in> {''/ip/firewall/nat'', ''/ip/firewall/filter''}"
  shows "sim_ssh sample_desired s (script_of (remove_cmd p c)) =
    (s(p := filter (\<lambda>it. item_get it ''comment'' \<noteq> c) (s p)), Inr (END_MARKER @ end_of_line))"
proof -
  have own: "p \<in> set (owned_paths sample_desired)" using assms by (auto simp: sample_owned)
  have "starts_with (p @ ''/remove'') (script_of (remove_cmd p c))" unfolding remove_script by (simp add: starts_with_def)
  then have "script_of (remove_cmd p c) \<notin> set (map fst (sim_scripts sample_desired))" using sample_no_removal own by blast
  then have t: "map_of (sim_scripts sample_desired) (script_of (remove_cmd p c)) = None"
    by (simp add: map_of_eq_None_iff)
  have "List.map_filter (\<lambda>q. map_option (Pair q) (sim_remove q (script_of (remove_cmd p c)))) (map ds_path sample_desired) =
      [(p, c)]"
    using assms
  proof (elim insertE emptyE)
    assume p: "p = ''/ip/firewall/nat''"
    have "sim_remove q (script_of (remove_cmd p c)) = None" if "q \<in> set (map ds_path sample_desired)" "q \<noteq> p" for q
      using that unfolding p sample_paths remove_script sim_remove_def by (auto simp: strip_prefix_def)
    then show ?thesis
      using sim_remove_own[of p c] unfolding p sample_paths by (simp add: List.map_filter_def)
  next
    assume p: "p = ''/ip/firewall/filter''"
    have "sim_remove q (script_of (remove_cmd p c)) = None" if "q \<in> set (map ds_path sample_desired)" "q \<noteq> p" for q
      using that unfolding p sample_paths remove_script sim_remove_def by (auto simp: strip_prefix_def)
    then show ?thesis
      using sim_remove_own[of p c] unfolding p sample_paths by (simp add: List.map_filter_def)
  qed
  then show ?thesis by (simp add: sim_ssh_def t)
qed

lemma sim_runs:
  assumes d: "d \<in> set sample_desired"
  shows "sim_ssh sample_desired s (build_query_script (ds_path d) (Some (find_expr d)) (field_keys d)) =
      (s, Inr (query_output (field_keys d) (filter (found d) (s (ds_path d)))))"
    and "sim_ssh sample_desired s (build_query_script (ds_path d) (Some OWN_PREFIX_RE) [''comment'']) =
      (s, Inr (query_output [''comment''] (filter tagged (s (ds_path d)))))"
    and "addable SIM_IFS d s \<Longrightarrow> sim_ssh sample_desired s (script_of (add_cmd d)) =
      (s(ds_path d := s (ds_path d) @ [ds_identity d # ds_fields d]), Inr (END_MARKER @ end_of_line))"
    and "settable SIM_IFS d s \<Longrightarrow> sim_ssh sample_desired s (script_of (set_cmd d)) =
      (s(ds_path d := map (\<lambda>it. if found d it then item_set (ds_fields d) it else it) (s (ds_path d))),
       Inr (END_MARKER @ end_of_line))"
proof -
  have m: "sim_ssh sample_desired s (fst e) = (fst (snd e s), Inr (snd (snd e s)))" if "e \<in> set (sim_scripts [d])" for e
    by (rule sim_table) (use that d in \<open>auto simp: sim_scripts_def\<close>)
  have e: "sim_scripts [d] ! i \<in> set (sim_scripts [d])" if "i < 4" for i
    by (rule nth_mem) (use that in \<open>simp add: sim_scripts_def Let_def\<close>)
  show "sim_ssh sample_desired s (build_query_script (ds_path d) (Some (find_expr d)) (field_keys d)) =
      (s, Inr (query_output (field_keys d) (filter (found d) (s (ds_path d)))))"
    using m[OF e[of 0]] by (simp add: sim_scripts_def Let_def)
  show "sim_ssh sample_desired s (build_query_script (ds_path d) (Some OWN_PREFIX_RE) [''comment'']) =
      (s, Inr (query_output [''comment''] (filter tagged (s (ds_path d)))))"
    using m[OF e[of 1]] by (simp add: sim_scripts_def Let_def)
  show "addable SIM_IFS d s \<Longrightarrow> sim_ssh sample_desired s (script_of (add_cmd d)) =
      (s(ds_path d := s (ds_path d) @ [ds_identity d # ds_fields d]), Inr (END_MARKER @ end_of_line))"
    using m[OF e[of 2]] by (simp add: sim_scripts_def Let_def)
  show "settable SIM_IFS d s \<Longrightarrow> sim_ssh sample_desired s (script_of (set_cmd d)) =
      (s(ds_path d := map (\<lambda>it. if found d it then item_set (ds_fields d) it else it) (s (ds_path d))),
       Inr (END_MARKER @ end_of_line))"
    using m[OF e[of 3]] by (simp add: sim_scripts_def Let_def)
qed

lemma sample_router_ok: "routeros_ok SIM_IFS (sim_ssh sample_desired) (\<lambda>s. s) sample_desired"
proof -
  have "ds_path d \<in> {''/ip/firewall/nat'', ''/ip/firewall/filter''}" if "d \<in> set sample_desired" "ds_comment_owned d" for d
    using that set_owned_paths[of sample_desired] unfolding sample_owned by auto
  then show ?thesis
    unfolding routeros_ok_def answers_def effect_when_def by (simp add: sim_runs sim_removal)
qed

text \<open>Witness of C29: a router with a drop rule of its owner and a rule left over from an older setup.\<close>

definition drop_rule :: item where
  "drop_rule = [(''chain'', ''forward''), (''action'', ''drop'')]"

definition transit_rule :: item where
  "transit_rule = [(''chain'', ''forward''), (''action'', ''accept''), (''comment'', ''mjolnir mesh transit src'')]"

definition sample_state :: rstate where
  "sample_state = (\<lambda>path. if path = ''/ip/firewall/filter'' then [drop_rule, transit_rule] else [])"

lemma sample_desired_eq:
  "inv_get sample_inventory ''r1'' = Some (hd (routers sample_inventory))"
  "desired_resources sample_parse net_addr sample_inventory (hd (routers sample_inventory)) = Inr sample_desired"
proof -
  show "inv_get sample_inventory ''r1'' = Some (hd (routers sample_inventory))"
    by (simp add: inv_get_def sample_inventory_def)
  have "router_subnet (hd (routers sample_inventory)) sample_inventory = ''172.20.0.0/24''"
    by (simp add: router_subnet_def sample_inventory_def)
  then show "desired_resources sample_parse net_addr sample_inventory (hd (routers sample_inventory)) = Inr sample_desired"
    unfolding sample_desired_def desired_resources_def Let_def by (simp add: sample_parse_def)
qed

lemma sample_state_ok:
  "\<forall>d\<in>set sample_desired. length (filter (found d) (sample_state (ds_path d))) \<le> 1 \<and>
     (\<forall>it\<in>set (sample_state (ds_path d)). plain_item it)"
proof -
  have lit: "plain ''forward''" "plain ''drop''" "plain ''accept''" "plain ''mjolnir mesh transit src''" "plain []"
    by (simp_all add: plain_def byte_def)
  have "plain_item drop_rule" "plain_item transit_rule"
    by (simp_all add: plain_item_def item_get_def drop_rule_def transit_rule_def lit)
  moreover have "\<forall>d\<in>set sample_desired. length (filter (found d) (sample_state (ds_path d))) \<le> 1" by code_simp
  ultimately show ?thesis unfolding sample_state_def by auto
qed

lemma sample_names_free: "names_free SIM_IFS sample_desired sample_state"
  by (simp add: names_free_def SIM_IFS_def sample_state_def)

theorem apply_converges_witness:
  "\<exists>w'. cmd_apply (\<lambda>_. sim_ssh sample_desired) sample_parse net_addr sample_inventory (Some ''r1'') False False sample_state =
     (w', Inr ()) \<and> plan_changes (sim_ssh sample_desired) (Inr sample_desired) w' = (w', Inr ([], [])) \<and>
     drop_rule \<in> set (w' ''/ip/firewall/filter'')"
proof -
  obtain w' res where c: "cmd_apply (\<lambda>_. sim_ssh sample_desired) sample_parse net_addr sample_inventory (Some ''r1'') False False
      sample_state = (w', res)" by fastforce
  note a = apply_converges[where connect = "\<lambda>_. sim_ssh sample_desired" and menu = "\<lambda>s. s",
      OF sample_desired_eq _ sample_router_ok sample_state_ok sample_names_free c]
  have subset_ifs: "{''/interface/veth'', ''/interface/bridge''} \<subseteq> set SIM_IFS" by (simp add: SIM_IFS_def)
  have "foreign sample_desired ''/ip/firewall/filter'' drop_rule" unfolding foreign_def drop_rule_def by code_simp
  then have "drop_rule \<in> set (filter (foreign sample_desired ''/ip/firewall/filter'') (sample_state ''/ip/firewall/filter''))"
    by (simp add: sample_state_def)
  then have "drop_rule \<in> set (filter (foreign sample_desired ''/ip/firewall/filter'') (w' ''/ip/firewall/filter''))"
    using a[OF subset_ifs] by metis
  then have "drop_rule \<in> set (w' ''/ip/firewall/filter'')" by simp
  then show ?thesis using a[OF subset_ifs] c by blast
qed

section \<open>Where the reconciler does not do what it says\<close>

lemma filter_resource:
  assumes "desired_resources parse_net network inventory r = Inr ds"
  shows "\<exists>d\<in>set ds. ds_comment_owned d \<and> ds_path d = ''/ip/firewall/filter'' \<and> ds_identity d = (''comment'', OWN_COMMENT) \<and>
    map_of (ds_fields d) ''action'' = Some ''accept''"
  using assms unfolding desired_resources_def Let_def by (cases "parse_net (router_subnet r inventory)") auto

text \<open>\<open>client-routing.rsc\<close> of the same repository installs filter rules commented ''mjolnir mesh transit src''
  and ''mjolnir mesh transit dst''. Every \<open>apply\<close> takes them for leftovers and removes them, and with them the
  forwarding between clients.\<close>

theorem apply_removes_transit_rules:
  assumes "inv_get inventory name = Some r"
    and "desired_resources parse_net network inventory r = Inr ds"
    and "{''/interface/veth'', ''/interface/bridge''} \<subseteq> set ifs"
    and "routeros_ok ifs (connect (ssh_target r inventory)) menu ds"
    and "\<forall>d\<in>set ds. length (filter (found d) (menu w (ds_path d))) \<le> 1 \<and> (\<forall>it\<in>set (menu w (ds_path d)). plain_item it)"
    and "names_free ifs ds (menu w)"
    and "cmd_apply connect parse_net network inventory (Some name) False False w = (w', res)"
  shows "\<forall>it\<in>set (menu w' ''/ip/firewall/filter'').
    item_get it ''comment'' \<notin> {''mjolnir mesh transit src'', ''mjolnir mesh transit dst''}"
proof -
  obtain d where d: "d \<in> set ds" "ds_comment_owned d" "ds_path d = ''/ip/firewall/filter''" "ds_identity d = (''comment'', OWN_COMMENT)"
    using filter_resource[OF assms(2)] by blast
  then have "tagged it \<Longrightarrow> item_get it ''comment'' = OWN_COMMENT" if "it \<in> set (menu w' ''/ip/firewall/filter'')" for it
    using cmd_apply_one[OF assms] that by (fastforce simp: found_def)
  moreover have "starts_with ''mjolnir'' ''mjolnir mesh transit src''" "starts_with ''mjolnir'' ''mjolnir mesh transit dst''"
    by (simp_all add: starts_with_def)
  ultimately show ?thesis unfolding tagged_def OWN_COMMENT_def by force
qed

text \<open>\<open>container-net.rsc\<close>, which the desired set is said to mirror, puts the accept rule at the top of the filter,
  so that a drop rule cannot come before it. \<open>apply\<close> adds it without a place: it ends up after every rule there is,
  so on a router with a default drop the containers stay cut off although the plan reports convergence.\<close>

theorem accept_rule_added_last:
  assumes "inv_get inventory name = Some r"
    and "desired_resources parse_net network inventory r = Inr ds"
    and "{''/interface/veth'', ''/interface/bridge''} \<subseteq> set ifs"
    and "routeros_ok ifs (connect (ssh_target r inventory)) menu ds"
    and "\<forall>d\<in>set ds. length (filter (found d) (menu w (ds_path d))) \<le> 1 \<and> (\<forall>it\<in>set (menu w (ds_path d)). plain_item it)"
    and "names_free ifs ds (menu w)"
    and "cmd_apply connect parse_net network inventory (Some name) False False w = (w', res)"
    and "\<forall>it\<in>set (menu w ''/ip/firewall/filter''). item_get it ''comment'' \<noteq> OWN_COMMENT"
  shows "\<exists>items. menu w' ''/ip/firewall/filter'' = items @ [last (menu w' ''/ip/firewall/filter'')] \<and>
    item_get (last (menu w' ''/ip/firewall/filter'')) ''action'' = ''accept'' \<and>
    filter (foreign ds ''/ip/firewall/filter'') items = filter (foreign ds ''/ip/firewall/filter'') (menu w ''/ip/firewall/filter'')"
proof -
  obtain d where d: "d \<in> set ds" "ds_comment_owned d" "ds_path d = ''/ip/firewall/filter''" "ds_identity d = (''comment'', OWN_COMMENT)"
    "map_of (ds_fields d) ''action'' = Some ''accept''" using filter_resource[OF assms(2)] by blast
  have "filter (found d) (menu w (ds_path d)) = []"
    using assms(8) d by (simp add: filter_empty_conv found_def)
  then obtain items where i: "menu w' ''/ip/firewall/filter'' = items @ [ds_identity d # ds_fields d]"
    using cmd_apply_one[OF assms(1-7)] d by fastforce
  have f: "\<not> foreign ds ''/ip/firewall/filter'' (ds_identity d # ds_fields d)"
    using d(1-4) unfolding foreign_def by (fastforce simp: found_def item_get_def)
  have "filter (foreign ds ''/ip/firewall/filter'') (menu w' ''/ip/firewall/filter'') =
      filter (foreign ds ''/ip/firewall/filter'') (menu w ''/ip/firewall/filter'')"
    using cmd_apply_one[OF assms(1-7)] by blast
  then show ?thesis unfolding i using f d(4,5) by (simp add: item_get_def)
qed

end
