(* ===== verification/Meshctl_Deploy.thy ===== *)
theory Meshctl_Deploy
  imports Meshctl Persist
begin

text \<open>
  \<open>meshctl deploy\<close> and \<open>meshctl bootstrap\<close>: the SSH and SCP channel (\<open>ssh.rs\<close>), the deployment of the mesh container
  (\<open>deploy.rs\<close>) and the remaining commands of \<open>main.rs\<close>.

  Parameters: starting a process, the clock and sleeping, the derivation of an Ed25519 public key, the random source
  and which local files exist. The state of a run is that of the world behind the channel together with the operator's
  files (\<open>FileSys\<close>, with the failures of \<open>IoEnv\<close>). A polling loop takes fuel, one unit per poll; \<open>None\<close> means it
  is still polling. Of an operating-system error only the context added to it is kept.
\<close>

section \<open>The channel\<close>

record Ssh =
  ssh_to :: string
  connect_timeout_secs :: nat
  batch :: bool

definition ssh_new :: "string \<Rightarrow> Ssh" where
  "ssh_new target = \<lparr>ssh_to = target, connect_timeout_secs = 10, batch = True\<rparr>"

definition ssh_interactive :: "Ssh \<Rightarrow> Ssh" where
  "ssh_interactive s = s\<lparr>batch := False\<rparr>"

definition base_opts :: "Ssh \<Rightarrow> string list" where
  "base_opts s =
     [''-o'', ''StrictHostKeyChecking=accept-new'', ''-o'', ''ConnectTimeout='' @ decimal (connect_timeout_secs s)] @
     (if batch s then [''-o'', ''BatchMode=yes''] else [])"

record ProcOutput =
  po_success :: bool
  po_status :: string
  po_stdout :: string
  po_stderr :: string

type_synonym 'd spawn = "string \<Rightarrow> string list \<Rightarrow> 'd \<Rightarrow> 'd \<times> (anyhow + ProcOutput)"

definition ssh_run :: "'d spawn \<Rightarrow> Ssh \<Rightarrow> 'd ssh" where
  "ssh_run spawn s d remote_cmd =
     (if \<not> batch s then (d, Inl [''Ssh::run requires batch mode; use run_interactive for prompts''])
      else case spawn ''ssh'' (base_opts s @ [ssh_to s, remote_cmd]) d of
             (d', Inl e) \<Rightarrow> (d', Inl ((''spawning ssh to '' @ ssh_to s) # e))
           | (d', Inr out) \<Rightarrow>
               if \<not> po_success out
               then (d', Inl [''ssh '' @ ssh_to s @ '' `'' @ remote_cmd @ ''` failed ('' @ po_status out @ ''): '' @ trim (po_stderr out)])
               else (d', Inr (po_stdout out)))"

definition ssh_run_interactive :: "'d spawn \<Rightarrow> Ssh \<Rightarrow> string \<Rightarrow> 'd \<Rightarrow> 'd \<times> (anyhow + unit)" where
  "ssh_run_interactive spawn s remote_cmd d =
     (case spawn ''ssh'' (base_opts s @ [ssh_to s, remote_cmd]) d of
        (d', Inl e) \<Rightarrow> (d', Inl ((''spawning ssh to '' @ ssh_to s) # e))
      | (d', Inr out) \<Rightarrow>
          if \<not> po_success out
          then (d', Inl [''ssh '' @ ssh_to s @ '' `'' @ remote_cmd @ ''` failed ('' @ po_status out @ '')''])
          else (d', Inr ()))"

definition ssh_upload :: "'d spawn \<Rightarrow> (string \<Rightarrow> bool) \<Rightarrow> Ssh \<Rightarrow> string \<Rightarrow> string \<Rightarrow> 'd \<Rightarrow> 'd \<times> (anyhow + unit)" where
  "ssh_upload spawn path_exists s local_path remote_dest d =
     (if \<not> path_exists local_path then (d, Inl [''local file does not exist: '' @ local_path])
      else
        (let dest = ssh_to s @ '':'' @ remote_dest
         in case spawn ''scp'' ([''-O''] @ base_opts s @ [local_path, dest]) d of
              (d', Inl e) \<Rightarrow> (d', Inl ((''spawning scp to '' @ ssh_to s) # e))
            | (d', Inr out) \<Rightarrow>
                if \<not> po_success out
                then (d', Inl [''scp '' @ local_path @ '' -> '' @ dest @ '' failed ('' @ po_status out @ '')''])
                else (d', Inr ())))"

text \<open>What a deployment uses of a channel, with the clock (in milliseconds) and sleeping.\<close>

record 'd Remote =
  r_run :: "'d ssh"
  r_upload :: "string \<Rightarrow> string \<Rightarrow> 'd \<Rightarrow> 'd \<times> (anyhow + unit)"
  r_now :: "'d \<Rightarrow> nat"
  r_sleep :: "nat \<Rightarrow> 'd \<Rightarrow> 'd"

definition remote_new ::
  "'d spawn \<Rightarrow> (string \<Rightarrow> bool) \<Rightarrow> ('d \<Rightarrow> nat) \<Rightarrow> (nat \<Rightarrow> 'd \<Rightarrow> 'd) \<Rightarrow> string \<Rightarrow> 'd Remote" where
  "remote_new spawn path_exists now sleep target =
     \<lparr>r_run = ssh_run spawn (ssh_new target), r_upload = ssh_upload spawn path_exists (ssh_new target), r_now = now,
      r_sleep = sleep\<rparr>"

section \<open>Node secrets\<close>

definition CONTAINER_COMMENT :: string where
  "CONTAINER_COMMENT = ''mjolnir-meshd''"

definition ENV_LIST :: string where
  "ENV_LIST = ''mjolnir-env''"

definition show_path :: "path \<Rightarrow> string" where
  "show_path p = join_with CHR ''/'' p"

definition is_ascii_hexdigit :: "char \<Rightarrow> bool" where
  "is_ascii_hexdigit c \<longleftrightarrow> hex_digit c \<noteq> None"

definition hex_byte :: "u8 \<Rightarrow> string" where
  "hex_byte b = [hex_char (unat b div 16), hex_char (unat b mod 16)]"

definition valid_secret :: "string \<Rightarrow> bool" where
  "valid_secret s \<longleftrightarrow> length s = 64 \<and> list_all is_ascii_hexdigit s"

definition ensure_secret ::
  "IoEnv \<Rightarrow> (bytes \<Rightarrow> bool) \<Rightarrow> anyhow + u8 list \<Rightarrow> path \<Rightarrow> string \<Rightarrow> FileSys \<Rightarrow> FileSys \<times> (anyhow + string)" where
  "ensure_secret env is_utf8 urandom secrets_dir router fs =
     (let p = secrets_dir @ [router @ ''.secret'']
      in case fs p of
           Some contents \<Rightarrow>
             if read_fails env p \<or> \<not> is_utf8 contents then (fs, Inl [''reading secret '' @ show_path p])
             else
               (let s = trim (bytes_str contents)
                in if valid_secret s then (fs, Inr s)
                   else (fs, Inl [''secret '' @ show_path p @ '' is not 64 hex chars'']))
         | None \<Rightarrow>
             (case urandom of
                Inl e \<Rightarrow> (fs, Inl (''reading /dev/urandom for a new node secret'' # e))
              | Inr buf \<Rightarrow>
                  (let hex = concat (map hex_byte buf)
                   in if mkdir_fails env secrets_dir then (fs, Inl [''creating '' @ show_path secrets_dir])
                      else (case fs_write env p (str_bytes (hex @ [CHR 0x0A])) fs of
                              (fs', False) \<Rightarrow> (fs', Inl [''writing secret '' @ show_path p])
                            | (fs', True) \<Rightarrow> (fs', Inr hex)))))"

fun parse_hex_pairs :: "string \<Rightarrow> u8 list option" where
  "parse_hex_pairs [] = Some []"
| "parse_hex_pairs [c] = None"
| "parse_hex_pairs (a # b # s) =
     (case u8_from_str_radix_16 [a, b] of None \<Rightarrow> None | Some x \<Rightarrow> map_option (\<lambda>xs. x # xs) (parse_hex_pairs s))"

definition node_id :: "(u8 list \<Rightarrow> u8 list) \<Rightarrow> string \<Rightarrow> anyhow + string" where
  "node_id verifying_key secret_hex =
     (if length secret_hex \<noteq> 64 then Inl [''secret must be 64 hex chars, got '' @ decimal (length secret_hex)]
      else case parse_hex_pairs secret_hex of
             None \<Rightarrow> Inl [''secret is not valid hex'']
           | Some seed \<Rightarrow> Inr (concat (map hex_byte (verifying_key seed))))"

section \<open>The container\<close>

record DeployOpts =
  do_dns :: string
  do_root_dir :: string
  do_timeout :: nat

definition default_opts :: DeployOpts where
  "default_opts = \<lparr>do_dns = ''1.1.1.1'', do_root_dir = ''mjolnir'', do_timeout = 90000\<rparr>"

definition check_container_capable :: "'d Remote \<Rightarrow> 'd \<Rightarrow> 'd \<times> (anyhow + unit)" where
  "check_container_capable R d =
     (case r_run R d '':put [/system/device-mode/get container]'' of
        (d', Inl e) \<Rightarrow> (d', Inl e)
      | (d', Inr out) \<Rightarrow>
          if trim out = ''true'' then (d', Inr ())
          else (d', Inl [''device-mode containers not enabled (got '' @ debug_str (trim out) @
            ''). This requires a physical reset-button hold at boot '' @ em_dash @
            '' it CANNOT be done over SSH. See docs/deploy/mikrotik-routeros-container.md.'']))"

datatype State = Stopped | Running

definition container_find :: string where
  "container_find = ''comment='' @ dq @ CONTAINER_COMMENT @ dq"

definition container_state :: "'d Remote \<Rightarrow> 'd \<Rightarrow> 'd \<times> (anyhow + State option)" where
  "container_state R d =
     (case query (r_run R) ''/container'' (Some container_find) [''running'', ''stopped''] d of
        (d', Inl e) \<Rightarrow> (d', Inl e)
      | (d', Inr recs) \<Rightarrow>
          (d', Inr (case recs of
                      [] \<Rightarrow> None
                    | r # _ \<Rightarrow> Some (if bt_get r ''running'' = Some ''true'' then Running else Stopped))))"

fun wait_present :: "nat \<Rightarrow> 'd Remote \<Rightarrow> nat \<Rightarrow> 'd \<Rightarrow> ('d \<times> (anyhow + unit)) option" where
  "wait_present 0 R deadline d = None"
| "wait_present (Suc fuel) R deadline d =
     (case container_state R d of
        (d', Inl e) \<Rightarrow> Some (d', Inl e)
      | (d', Inr (Some _)) \<Rightarrow> Some (d', Inr ())
      | (d', Inr None) \<Rightarrow>
          if deadline \<le> r_now R d' then Some (d', Inl [''container did not appear after add (extraction failed?)''])
          else wait_present fuel R deadline (r_sleep R 2000 d'))"

definition state_text :: "State \<Rightarrow> string" where
  "state_text s = (case s of Stopped \<Rightarrow> ''Stopped'' | Running \<Rightarrow> ''Running'')"

fun wait_for_state :: "nat \<Rightarrow> 'd Remote \<Rightarrow> State \<Rightarrow> nat \<Rightarrow> 'd \<Rightarrow> ('d \<times> (anyhow + unit)) option" where
  "wait_for_state 0 R wanted deadline d = None"
| "wait_for_state (Suc fuel) R wanted deadline d =
     (case container_state R d of
        (d', Inl e) \<Rightarrow> Some (d', Inl e)
      | (d', Inr (Some s)) \<Rightarrow>
          if s = wanted then Some (d', Inr ())
          else if deadline \<le> r_now R d'
          then Some (d', Inl [''timed out waiting for '' @ state_text wanted @ '' (still '' @ state_text s @ '')''])
          else wait_for_state fuel R wanted deadline (r_sleep R 2000 d')
      | (d', Inr None) \<Rightarrow> Some (d', Inl [''container disappeared while waiting for '' @ state_text wanted]))"

definition stop_cmd :: string where
  "stop_cmd = ''/container/stop [find where '' @ container_find @ '']''"

definition remove_container_cmd :: string where
  "remove_container_cmd = ''/container/remove [find where '' @ container_find @ '']''"

definition start_cmd :: string where
  "start_cmd = ''/container/start [find where '' @ container_find @ '']''"

definition remove_existing :: "'d Remote \<Rightarrow> 'd \<Rightarrow> 'd \<times> (anyhow + unit)" where
  "remove_existing R d =
     (case container_state R d of
        (d1, Inl e) \<Rightarrow> (d1, Inl e)
      | (d1, Inr None) \<Rightarrow> (d1, Inr ())
      | (d1, Inr (Some _)) \<Rightarrow>
          (case run_command (r_run R) stop_cmd d1 of (d2, _) \<Rightarrow>
             (case run_command (r_run R) remove_container_cmd (r_sleep R 3000 d2) of
                (d3, Inl e) \<Rightarrow> (d3, Inl (''removing existing container'' # e))
              | (d3, Inr _) \<Rightarrow> (d3, Inr ()))))"

section \<open>The container's log\<close>

definition LOG_SCRIPT :: string where
  "LOG_SCRIPT = '':foreach l in=[/log/find where topics~'' @ dq @ ''container'' @ dq @ ''] do={:put [:tostr [/log/get $l message]]}''"

text \<open>\<open>str::find\<close> with the rest of the line after the match.\<close>

fun after_str :: "string \<Rightarrow> string \<Rightarrow> string option" where
  "after_str pat [] = (if pat = [] then Some [] else None)"
| "after_str pat (c # s) = (if starts_with pat (c # s) then Some (drop (length pat) (c # s)) else after_str pat s)"

definition scan_line :: "string \<Rightarrow> string option \<times> string option \<Rightarrow> string \<Rightarrow> string option \<times> string option" where
  "scan_line expected_id acc line =
     (case acc of (last_id, blob) \<Rightarrow>
        (case after_str ''node id:'' line of
           Some rest \<Rightarrow> (Some (trim rest), blob)
         | None \<Rightarrow>
             (case after_str ''address:'' line of
                Some rest \<Rightarrow> if last_id = Some expected_id then (last_id, Some (trim rest)) else acc
              | None \<Rightarrow> acc)))"

definition scan_log :: "string \<Rightarrow> string \<Rightarrow> string option" where
  "scan_log expected_id out = snd (foldl (scan_line expected_id) (None, None) (lines out))"

fun read_blob_for_id :: "nat \<Rightarrow> 'd Remote \<Rightarrow> string \<Rightarrow> nat \<Rightarrow> 'd \<Rightarrow> ('d \<times> (anyhow + string option)) option" where
  "read_blob_for_id 0 R expected_id deadline d = None"
| "read_blob_for_id (Suc fuel) R expected_id deadline d =
     (case r_run R d LOG_SCRIPT of
        (d', Inl e) \<Rightarrow> Some (d', Inl e)
      | (d', Inr out) \<Rightarrow>
          (case scan_log expected_id out of
             Some b \<Rightarrow> Some (d', Inr (Some b))
           | None \<Rightarrow>
               if deadline \<le> r_now R d' then Some (d', Inr None)
               else read_blob_for_id fuel R expected_id deadline (r_sleep R 3000 d')))"

fun report_reachability :: "nat \<Rightarrow> 'd Remote \<Rightarrow> nat \<Rightarrow> 'd \<Rightarrow> ('d \<times> (anyhow + bool)) option" where
  "report_reachability 0 R deadline d = None"
| "report_reachability (Suc fuel) R deadline d =
     (case r_run R d LOG_SCRIPT of
        (d', Inl e) \<Rightarrow> Some (d', Inl e)
      | (d', Inr out) \<Rightarrow>
          if after_str ''reachability OK'' out \<noteq> None \<or> after_str ''home is now relay'' out \<noteq> None then Some (d', Inr True)
          else if deadline \<le> r_now R d' then Some (d', Inr False)
          else report_reachability fuel R deadline (r_sleep R 3000 d'))"

definition container_cmd :: "Role \<Rightarrow> string option \<Rightarrow> anyhow + string" where
  "container_cmd role peer_blob =
     (case role of
        Listener \<Rightarrow> Inr ''tun-listen''
      | Connector \<Rightarrow>
          (case peer_blob of
             None \<Rightarrow> Inl [''connector has no peer blob '' @ em_dash @ '' deploy its listener first, or set peer_blob'']
           | Some blob \<Rightarrow> Inr (''tun-connect '' @ blob)))"

section \<open>Deployment of one router\<close>

text \<open>A computation on the world and the operator's files; \<open>then_run\<close> is the operator \<open>?\<close>.\<close>

type_synonym ('d, 'a) run = "'d \<times> FileSys \<Rightarrow> (('d \<times> FileSys) \<times> (anyhow + 'a)) option"

definition then_run :: "('d, 'a) run \<Rightarrow> ('a \<Rightarrow> ('d, 'b) run) \<Rightarrow> ('d, 'b) run" where
  "then_run m f s =
     (case m s of
        None \<Rightarrow> None
      | Some (s', Inl e) \<Rightarrow> Some (s', Inl e)
      | Some (s', Inr x) \<Rightarrow> f x s')"

definition in_context :: "string \<Rightarrow> ('d, 'a) run \<Rightarrow> ('d, 'a) run" where
  "in_context ctx m s =
     (case m s of
        None \<Rightarrow> None
      | Some (s', Inl e) \<Rightarrow> Some (s', Inl (ctx # e))
      | Some (s', Inr x) \<Rightarrow> Some (s', Inr x))"

definition ignoring :: "('d, 'a) run \<Rightarrow> ('d, unit) run" where
  "ignoring m s = (case m s of None \<Rightarrow> None | Some (s', _) \<Rightarrow> Some (s', Inr ()))"

definition give :: "anyhow + 'a \<Rightarrow> ('d, 'a) run" where
  "give r s = Some (s, r)"

definition on_router :: "('d \<Rightarrow> 'd \<times> (anyhow + 'a)) \<Rightarrow> ('d, 'a) run" where
  "on_router f s = (case s of (d, fs) \<Rightarrow> (case f d of (d', r) \<Rightarrow> Some ((d', fs), r)))"

definition polling :: "('d \<Rightarrow> ('d \<times> (anyhow + 'a)) option) \<Rightarrow> ('d, 'a) run" where
  "polling f s = (case s of (d, fs) \<Rightarrow> map_option (\<lambda>(d', r). ((d', fs), r)) (f d))"

definition on_files :: "(FileSys \<Rightarrow> FileSys \<times> (anyhow + 'a)) \<Rightarrow> ('d, 'a) run" where
  "on_files f s = (case s of (d, fs) \<Rightarrow> (case f fs of (fs', r) \<Rightarrow> Some ((d, fs'), r)))"

definition pausing :: "'d Remote \<Rightarrow> nat \<Rightarrow> ('d, unit) run" where
  "pausing R ms = on_router (\<lambda>d. (r_sleep R ms d, Inr ()))"

text \<open>\<open>Path::file_name\<close> of a path text.\<close>

definition path_file_name :: "string \<Rightarrow> string option" where
  "path_file_name p =
     (let comps = filter (\<lambda>c. c \<noteq> [] \<and> c \<noteq> ''.'') (split_on CHR ''/'' p)
      in if comps = [] \<or> last comps = ''..'' then None else Some (last comps))"

fun run_all_changes :: "'d ssh \<Rightarrow> Change list \<Rightarrow> 'd \<Rightarrow> 'd \<times> (anyhow + unit)" where
  "run_all_changes ssh [] d = (d, Inr ())"
| "run_all_changes ssh (c # cs) d =
     (case run_change ssh c d of (d', Inl e) \<Rightarrow> (d', Inl e) | (d', Inr _) \<Rightarrow> run_all_changes ssh cs d')"

definition envs_remove_cmd :: string where
  "envs_remove_cmd = ''/container/envs/remove [find where list='' @ dq @ ENV_LIST @ dq @ '']''"

definition envs_add_cmd :: "string \<Rightarrow> string" where
  "envs_add_cmd secret =
     ''/container/envs/add list='' @ dq @ ENV_LIST @ dq @ '' key='' @ dq @ ''IROH_SECRET'' @ dq @ '' value='' @ dq @ secret @ dq"

definition container_add_cmd :: "string \<Rightarrow> DeployOpts \<Rightarrow> string \<Rightarrow> string" where
  "container_add_cmd tar_name opts cmd =
     ''/container/add file='' @ dq @ tar_name @ dq @ '' interface=veth-mesh root-dir='' @ dq @ do_root_dir opts @ dq @
     '' dns='' @ do_dns opts @ '' cmd='' @ dq @ cmd @ dq @ '' envlist='' @ dq @ ENV_LIST @ dq @
     '' comment='' @ dq @ CONTAINER_COMMENT @ dq @ '' logging=yes start-on-boot=yes''"

text \<open>The local side of a deployment: the failures of the file system, its text check and the random source.\<close>

record Operator =
  op_env :: IoEnv
  op_utf8 :: "bytes \<Rightarrow> bool"
  op_urandom :: "anyhow + u8 list"
  op_verifying_key :: "u8 list \<Rightarrow> u8 list"

definition operator_secret :: "Operator \<Rightarrow> path \<Rightarrow> string \<Rightarrow> FileSys \<Rightarrow> FileSys \<times> (anyhow + string)" where
  "operator_secret op = ensure_secret (op_env op) (op_utf8 op) (op_urandom op)"

definition start_container ::
  "nat \<Rightarrow> 'd Remote \<Rightarrow> string \<Rightarrow> string \<Rightarrow> DeployOpts \<Rightarrow> ('d, unit) run" where
  "start_container fuel R tar_name cmd opts =
     then_run (on_router (remove_existing R)) (\<lambda>_.
     then_run (in_context ''container add'' (on_router (run_command (r_run R) (container_add_cmd tar_name opts cmd)))) (\<lambda>_.
     then_run (polling (\<lambda>d. wait_present fuel R (r_now R d + do_timeout opts) d)) (\<lambda>_.
     then_run (pausing R 5000) (\<lambda>_.
     then_run (in_context ''container start'' (on_router (run_command (r_run R) start_cmd))) (\<lambda>_.
     polling (\<lambda>d. wait_for_state fuel R Running (r_now R d + do_timeout opts) d))))))"

definition deploy_one ::
  "nat \<Rightarrow> 'd Remote \<Rightarrow> Operator \<Rightarrow> Inventory \<Rightarrow> Router \<Rightarrow> (anyhow + Desired list) \<Rightarrow> string \<Rightarrow> DeployOpts \<Rightarrow> path \<Rightarrow> ('d, unit) run" where
  "deploy_one fuel R op inventory r desired cmd opts secrets_dir =
     then_run (on_router (check_container_capable R)) (\<lambda>_.
     then_run (on_router (plan_changes (r_run R) desired)) (\<lambda>(changes, skipped).
     then_run (on_router (run_all_changes (r_run R) changes)) (\<lambda>_.
     case router_tar r inventory of
       None \<Rightarrow> give (Inl [rt_name r @ '': no container tar in inventory''])
     | Some tar \<Rightarrow>
         (case path_file_name tar of
            None \<Rightarrow> give (Inl [''tar path has no file name''])
          | Some tar_name \<Rightarrow>
              then_run (in_context ''uploading tar'' (on_router (r_upload R tar []))) (\<lambda>_.
              then_run (on_files (operator_secret op secrets_dir (rt_name r))) (\<lambda>secret.
              then_run (ignoring (on_router (run_command (r_run R) envs_remove_cmd))) (\<lambda>_.
              then_run (in_context ''setting IROH_SECRET container env''
                (on_router (run_command (r_run R) (envs_add_cmd secret)))) (\<lambda>_.
              start_container fuel R tar_name cmd opts))))))))"

section \<open>The commands\<close>

definition resolve_peer_blob ::
  "nat \<Rightarrow> (string \<Rightarrow> 'd Remote) \<Rightarrow> Operator \<Rightarrow> Inventory \<Rightarrow> path \<Rightarrow> Router \<Rightarrow> ('d, string) run" where
  "resolve_peer_blob fuel connect op inventory secrets_dir r =
     (case rt_peer_blob r of
        Some b \<Rightarrow> give (Inr b)
      | None \<Rightarrow>
          (case peer_of inventory r of
             None \<Rightarrow> give (Inl [''connector '' @ rt_name r @ '' has no peer / peer_blob to connect to''])
           | Some peer \<Rightarrow>
               then_run (on_files (operator_secret op secrets_dir (rt_name peer))) (\<lambda>peer_secret.
               then_run (give (node_id (op_verifying_key op) peer_secret)) (\<lambda>peer_id.
               let R = connect (ssh_target peer inventory)
               in then_run (polling (\<lambda>d. read_blob_for_id fuel R peer_id (r_now R d + 30000) d)) (\<lambda>found.
                  give (Inr (case found of Some blob \<Rightarrow> blob | None \<Rightarrow> peer_id)))))))"

definition role_rank :: "Router \<Rightarrow> nat" where
  "role_rank r = (case rt_role r of Listener \<Rightarrow> 0 | Connector \<Rightarrow> 1)"

definition command_for ::
  "nat \<Rightarrow> (string \<Rightarrow> 'd Remote) \<Rightarrow> Operator \<Rightarrow> Inventory \<Rightarrow> path \<Rightarrow> Router \<Rightarrow> ('d, string) run" where
  "command_for fuel connect op inventory secrets_dir r =
     (case rt_role r of
        Listener \<Rightarrow> give (container_cmd Listener None)
      | Connector \<Rightarrow>
          then_run (resolve_peer_blob fuel connect op inventory secrets_dir r) (\<lambda>blob. give (container_cmd Connector (Some blob))))"

text \<open>After a successful deployment the reachability is reported and a listener's address is read; neither changes the
  outcome.\<close>

definition after_deploy ::
  "nat \<Rightarrow> 'd Remote \<Rightarrow> Operator \<Rightarrow> path \<Rightarrow> DeployOpts \<Rightarrow> Router \<Rightarrow> ('d, unit) run" where
  "after_deploy fuel R op secrets_dir opts r =
     then_run (ignoring (polling (\<lambda>d. report_reachability fuel R (r_now R d + do_timeout opts) d))) (\<lambda>_.
     if rt_role r \<noteq> Listener then give (Inr ())
     else ignoring
       (then_run (on_files (operator_secret op secrets_dir (rt_name r))) (\<lambda>secret.
        then_run (give (node_id (op_verifying_key op) secret)) (\<lambda>id.
        polling (\<lambda>d. read_blob_for_id fuel R id (r_now R d + 30000) d)))))"

fun deploy_routers ::
  "nat \<Rightarrow> (string \<Rightarrow> 'd Remote) \<Rightarrow> Operator \<Rightarrow> (Router \<Rightarrow> anyhow + Desired list) \<Rightarrow> Inventory \<Rightarrow> DeployOpts \<Rightarrow> path \<Rightarrow> Router list \<Rightarrow>
   nat \<Rightarrow> 'd \<times> FileSys \<Rightarrow> (('d \<times> FileSys) \<times> nat) option" where
  "deploy_routers fuel connect op desired inventory opts secrets_dir [] failures s = Some (s, failures)"
| "deploy_routers fuel connect op desired inventory opts secrets_dir (r # rs) failures s =
     (let R = connect (ssh_target r inventory)
      in case command_for fuel connect op inventory secrets_dir r s of
           None \<Rightarrow> None
         | Some (s1, Inl _) \<Rightarrow> deploy_routers fuel connect op desired inventory opts secrets_dir rs (failures + 1) s1
         | Some (s1, Inr cmd) \<Rightarrow>
             (case deploy_one fuel R op inventory r (desired r) cmd opts secrets_dir s1 of
                None \<Rightarrow> None
              | Some (s2, Inl _) \<Rightarrow> deploy_routers fuel connect op desired inventory opts secrets_dir rs (failures + 1) s2
              | Some (s2, Inr _) \<Rightarrow>
                  (case after_deploy fuel R op secrets_dir opts r s2 of
                     None \<Rightarrow> None
                   | Some (s3, _) \<Rightarrow> deploy_routers fuel connect op desired inventory opts secrets_dir rs failures s3)))"

definition cmd_deploy ::
  "nat \<Rightarrow> (string \<Rightarrow> 'd Remote) \<Rightarrow> Operator \<Rightarrow> (Router \<Rightarrow> anyhow + Desired list) \<Rightarrow> Inventory \<Rightarrow> path \<Rightarrow> string option \<Rightarrow> bool \<Rightarrow>
   string option \<Rightarrow> string option \<Rightarrow> ('d, unit) run" where
  "cmd_deploy fuel connect op desired inventory inv_path name all dns root_dir s =
     (let opts = default_opts\<lparr>do_dns := (case dns of Some d \<Rightarrow> d | None \<Rightarrow> do_dns default_opts),
                  do_root_dir := (case root_dir of Some rd \<Rightarrow> rd | None \<Rightarrow> do_root_dir default_opts)\<rparr>;
          secrets_dir = (case parent inv_path of Some p \<Rightarrow> p | None \<Rightarrow> [''.'']) @ [''secrets'']
      in case select_routers inventory name all of
           Inl e \<Rightarrow> Some (s, Inl e)
         | Inr targets \<Rightarrow>
             (case deploy_routers fuel connect op desired inventory opts secrets_dir (sort_key role_rank targets) 0 s of
                None \<Rightarrow> None
              | Some (s', failures) \<Rightarrow>
                  Some (s', if failures > 0 then Inl [decimal failures @ '' router(s) failed to deploy''] else Inr ())))"

text \<open>Installing the operator's key.\<close>

definition resolve_pubkey :: "(string \<Rightarrow> bool) \<Rightarrow> string option \<Rightarrow> string option \<Rightarrow> anyhow + string" where
  "resolve_pubkey path_exists home explicit =
     (case explicit of
        Some p \<Rightarrow> if \<not> path_exists p then Inl [''--pubkey '' @ p @ '' does not exist''] else Inr p
      | None \<Rightarrow>
          (case home of
             None \<Rightarrow> Inl [''HOME not set; pass --pubkey'']
           | Some h \<Rightarrow>
               (case find path_exists (map (\<lambda>cand. h @ ''/.ssh/'' @ cand) [''id_ed25519.pub'', ''id_rsa.pub'']) of
                  Some p \<Rightarrow> Inr p
                | None \<Rightarrow> Inl [''no SSH public key found in ~/.ssh (id_ed25519.pub / id_rsa.pub); pass --pubkey''])))"

definition bootstrap_one ::
  "'d spawn \<Rightarrow> (string \<Rightarrow> bool) \<Rightarrow> Inventory \<Rightarrow> Router \<Rightarrow> string \<Rightarrow> string \<Rightarrow> 'd \<Rightarrow> 'd \<times> (anyhow + unit)" where
  "bootstrap_one spawn path_exists inventory r pubkey remote_name d =
     (let user = router_user r inventory; target = ssh_target r inventory; interactive = ssh_interactive (ssh_new target)
      in case ssh_upload spawn path_exists interactive pubkey [] d of
           (d1, Inl e) \<Rightarrow> (d1, Inl (''uploading public key'' # e))
         | (d1, Inr _) \<Rightarrow>
             (case ssh_run_interactive spawn interactive
                     (''/user/ssh-keys/import public-key-file='' @ remote_name @ '' user='' @ user) d1 of
                (d2, Inl e) \<Rightarrow> (d2, Inl (''importing public key'' # e))
              | (d2, Inr _) \<Rightarrow>
                  (case ssh_run spawn (ssh_new target) d2 '':put [/system/identity/get name]'' of
                     (d3, Inl e) \<Rightarrow> (d3, Inl (''passwordless verification failed after key import'' # e))
                   | (d3, Inr _) \<Rightarrow>
                       (case ssh_run spawn (ssh_new target) d3
                               (''/file/remove [find where name='' @ dq @ remote_name @ dq @ '']'') of
                          (d4, _) \<Rightarrow> (d4, Inr ())))))"

fun bootstrap_routers ::
  "'d spawn \<Rightarrow> (string \<Rightarrow> bool) \<Rightarrow> Inventory \<Rightarrow> string \<Rightarrow> string \<Rightarrow> Router list \<Rightarrow> 'd \<times> nat \<Rightarrow> 'd \<times> nat" where
  "bootstrap_routers spawn path_exists inventory pubkey remote_name [] acc = acc"
| "bootstrap_routers spawn path_exists inventory pubkey remote_name (r # rs) (d, failures) =
     (case bootstrap_one spawn path_exists inventory r pubkey remote_name d of
        (d', Inr _) \<Rightarrow> bootstrap_routers spawn path_exists inventory pubkey remote_name rs (d', failures)
      | (d', Inl _) \<Rightarrow> bootstrap_routers spawn path_exists inventory pubkey remote_name rs (d', failures + 1))"

definition cmd_bootstrap ::
  "'d spawn \<Rightarrow> (string \<Rightarrow> bool) \<Rightarrow> string option \<Rightarrow> Inventory \<Rightarrow> string option \<Rightarrow> bool \<Rightarrow> string option \<Rightarrow> 'd \<Rightarrow> 'd \<times> (anyhow + unit)" where
  "cmd_bootstrap spawn path_exists home inventory name all pubkey d =
     (case select_routers inventory name all of
        Inl e \<Rightarrow> (d, Inl e)
      | Inr targets \<Rightarrow>
          (case resolve_pubkey path_exists home pubkey of
             Inl e \<Rightarrow> (d, Inl e)
           | Inr key \<Rightarrow>
               (case path_file_name key of
                  None \<Rightarrow> (d, Inl [''pubkey path has no file name''])
                | Some remote_name \<Rightarrow>
                    (case bootstrap_routers spawn path_exists inventory key remote_name targets (d, 0) of
                       (d', failures) \<Rightarrow>
                         (d', if failures > 0 then Inl [decimal failures @ '' router(s) failed to bootstrap''] else Inr ())))))"

text \<open>The inventory file: the one given, or the first one found from the current directory upwards. A path is the list
  of its components, the root the empty list.\<close>

definition DEFAULT_PATH :: path where
  "DEFAULT_PATH = [''deploy'', ''mikrotik'', ''routers.toml'']"

function find_upward :: "(path \<Rightarrow> bool) \<Rightarrow> path \<Rightarrow> path \<Rightarrow> path option" where
  "find_upward path_exists dir suffix =
     (if path_exists (dir @ suffix) then Some (dir @ suffix)
      else if dir = [] then None else find_upward path_exists (butlast dir) suffix)"
  by pat_completeness auto
termination
  by (relation "measure (\<lambda>(_, dir, _). length dir)") auto

declare find_upward.simps [simp del]

definition resolve_inventory :: "(path \<Rightarrow> bool) \<Rightarrow> anyhow + path \<Rightarrow> path option \<Rightarrow> anyhow + path" where
  "resolve_inventory path_exists current_dir explicit =
     (case explicit of
        Some p \<Rightarrow> if \<not> path_exists p then Inl [''--inventory '' @ show_path p @ '' does not exist''] else Inr p
      | None \<Rightarrow>
          (case current_dir of
             Inl e \<Rightarrow> Inl (''getting current directory'' # e)
           | Inr cwd \<Rightarrow>
               (case find_upward path_exists cwd DEFAULT_PATH of
                  Some p \<Rightarrow> Inr p
                | None \<Rightarrow> Inl [''no '' @ show_path DEFAULT_PATH @ '' found in '' @ show_path cwd @
                    '' or any parent directory (pass --inventory to point elsewhere)''])))"

text \<open>The plan as it is printed: a line for every resource and leftover, and the summary.\<close>

definition pad :: "nat \<Rightarrow> string \<Rightarrow> string" where
  "pad n s = s @ replicate (n - length s) CHR '' ''"

definition status_label :: "Status \<Rightarrow> string" where
  "status_label st =
     (case st of
        Missing \<Rightarrow> ''MISSING''
      | Converged \<Rightarrow> ''CONVERGED''
      | Drifted diffs \<Rightarrow>
          ''DRIFTED ('' @
          (let parts = map (\<lambda>d. fd_field d @ '': want '' @ debug_str (fd_want d) @ '' got '' @ debug_str (fd_got d)) diffs
           in concat (map (\<lambda>(i, p). if i = 0 then p else '', '' @ p) (enumerate 0 parts))) @ '')''
      | Status.Conflict n \<Rightarrow> ''CONFLICT ('' @ decimal n @ '' live matches)'')"

definition count_status :: "(Status \<Rightarrow> bool) \<Rightarrow> Observed list \<Rightarrow> nat" where
  "count_status P obs = length (filter (\<lambda>e. P (ob_status e)) obs)"

definition plan_lines :: "Router \<Rightarrow> Observed list \<times> PruneEntry list \<Rightarrow> string list" where
  "plan_lines r plan =
     (case plan of (observed, prunes) \<Rightarrow>
        [[CHR 0x0A] @ rt_name r @ '' plan ('' @ decimal (length observed) @ '' resources):''] @
        map (\<lambda>e. ''  '' @ pad 11 (ds_kind (ob_desired e)) @ '' '' @ pad 26 (ds_id (ob_desired e)) @ '' '' @ status_label (ob_status e))
          observed @
        map (\<lambda>p. ''  '' @ pad 11 (pr_kind p) @ '' '' @ pad 26 (pr_comment p) @ '' PRUNE (leftover)'') prunes @
        [''summary: '' @ decimal (count_status (\<lambda>s. s = Converged) observed) @ '' converged, '' @
         decimal (count_status (\<lambda>s. s = Missing) observed) @ '' missing, '' @
         decimal (count_status (\<lambda>s. case s of Drifted _ \<Rightarrow> True | _ \<Rightarrow> False) observed) @ '' drifted, '' @
         decimal (count_status (\<lambda>s. case s of Status.Conflict _ \<Rightarrow> True | _ \<Rightarrow> False) observed) @ '' conflict, '' @
         decimal (length prunes) @ '' prune''])"

fun plan_routers ::
  "(string \<Rightarrow> 'd ssh) \<Rightarrow> (Router \<Rightarrow> anyhow + Desired list) \<Rightarrow> Inventory \<Rightarrow> Router list \<Rightarrow> 'd \<times> string list \<Rightarrow> ('d \<times> string list) \<times> (anyhow + unit)" where
  "plan_routers connect desired inventory [] acc = (acc, Inr ())"
| "plan_routers connect desired inventory (r # rs) (d, out) =
     (case observe_router (connect (ssh_target r inventory)) (desired r) d of
        (d', Inl e) \<Rightarrow> ((d', out), Inl e)
      | (d', Inr plan) \<Rightarrow> plan_routers connect desired inventory rs (d', out @ plan_lines r plan))"

definition cmd_plan ::
  "(string \<Rightarrow> 'd ssh) \<Rightarrow> (Router \<Rightarrow> anyhow + Desired list) \<Rightarrow> Inventory \<Rightarrow> string option \<Rightarrow> bool \<Rightarrow> 'd \<Rightarrow> ('d \<times> string list) \<times> (anyhow + unit)" where
  "cmd_plan connect desired inventory name all d =
     (case select_routers inventory name all of
        Inl e \<Rightarrow> ((d, []), Inl e)
      | Inr targets \<Rightarrow> plan_routers connect desired inventory targets (d, []))"

definition query_line :: "string list \<Rightarrow> nat \<times> Record \<Rightarrow> string" where
  "query_line names row =
     (case row of (i, rec) \<Rightarrow>
        ''  ['' @ decimal i @ ''] '' @
        concat (map (\<lambda>(j, f). (if j = 0 then [] else ''  '') @ f @ ''='' @ (case bt_get rec f of Some v \<Rightarrow> v | None \<Rightarrow> []))
          (enumerate 0 names)))"

definition cmd_query ::
  "(string \<Rightarrow> 'd ssh) \<Rightarrow> Inventory \<Rightarrow> string \<Rightarrow> string \<Rightarrow> string list option \<Rightarrow> string option \<Rightarrow> 'd \<Rightarrow> ('d \<times> string list) \<times> (anyhow + unit)" where
  "cmd_query connect inventory name menu_path names find_filter d =
     (case inv_get inventory name of
        None \<Rightarrow> ((d, []), Inl [''no router named '' @ debug_str name @ '' in the inventory''])
      | Some r \<Rightarrow>
          (let cols = (case names of Some ns \<Rightarrow> ns | None \<Rightarrow> [''name'', ''comment''])
           in case query (connect (ssh_target r inventory)) menu_path find_filter cols d of
                (d', Inl e) \<Rightarrow> ((d', []), Inl e)
              | (d', Inr records) \<Rightarrow>
                  ((d', (rt_name r @ '' '' @ decimal (length records) @ '' record(s) under '' @ menu_path) #
                     map (query_line cols) (enumerate 0 records)), Inr ())))"

definition cmd_list :: "Inventory \<Rightarrow> string list" where
  "cmd_list inventory =
     (if routers inventory = [] then [''(inventory is empty)'']
      else (decimal (length (routers inventory)) @ '' router(s); default user='' @ default_user inventory @ '' subnet='' @
              default_subnet inventory) #
        map (\<lambda>r. ''  '' @ pad 12 (rt_name r) @ '' '' @ pad 18 (ssh_target r inventory) @ '' '' @ role_text (rt_role r) @
              '' subnet='' @ router_subnet r inventory @
              (case (rt_peer r, rt_peer_blob r) of
                 (Some p, _) \<Rightarrow> '' peer='' @ p
               | (None, Some _) \<Rightarrow> '' peer=<blob>''
               | (None, None) \<Rightarrow> []))
          (routers inventory))"

section \<open>A node keeps its identity\<close>

lemma byte_high: "unat b div 16 < 16" for b :: u8
proof -
  have "unat b < 2 ^ LENGTH(8)" by (rule unsigned_less)
  then show ?thesis by simp
qed

lemma hex_roundtrip: "parse_hex_pairs (concat (map hex_byte buf)) = Some buf"
  by (induction buf) (simp_all add: hex_byte_def octet_round_trip)

lemma length_hex: "length (concat (map hex_byte buf)) = 2 * length buf"
  by (induction buf) (simp_all add: hex_byte_def)

lemma hex_text_digits: "list_all is_ascii_hexdigit (concat (map hex_byte buf))"
  by (induction buf) (simp_all add: hex_byte_def is_ascii_hexdigit_def hex_digit_hex_char byte_high)

lemma hexdigit_visible: "is_ascii_hexdigit c \<Longrightarrow> 32 < byte c \<and> byte c < 128"
  by (auto simp: is_ascii_hexdigit_def hex_digit_def Let_def split: if_splits)

lemma valid_ends:
  assumes "valid_secret s"
  shows "s \<noteq> []" "32 < byte (hd s)" "byte (hd s) < 128" "32 < byte (last s)" "byte (last s) < 128"
proof -
  show ne: "s \<noteq> []" using assms by (auto simp: valid_secret_def)
  have "is_ascii_hexdigit c" if "c \<in> set s" for c using assms that by (simp add: valid_secret_def list_all_iff)
  then show "32 < byte (hd s)" "byte (hd s) < 128" "32 < byte (last s)" "byte (last s) < 128"
    using hexdigit_visible ne by simp_all
qed

lemma hex_pairs_parse:
  assumes "list_all is_ascii_hexdigit s" and "even (length s)"
  shows "\<exists>seed. parse_hex_pairs s = Some seed \<and> length seed = length s div 2"
  using assms
proof (induction s rule: parse_hex_pairs.induct)
  case (3 a b s)
  obtain x y where h: "hex_digit a = Some x" "hex_digit b = Some y" using 3(2) by (auto simp: is_ascii_hexdigit_def)
  then have "x < 16" "y < 16" "a \<noteq> CHR ''+''" by (auto simp: hex_digit_def byte_def Let_def split: if_splits)
  then obtain v where x: "u8_from_str_radix_16 [a, b] = Some v" using h by (simp add: u8_from_str_radix_16_def Let_def)
  then show ?case using 3 by (auto simp: x)
qed auto

lemma valid_seed:
  assumes "valid_secret s"
  obtains seed where "parse_hex_pairs s = Some seed" "length seed = 32"
    "node_id verifying_key s = Inr (concat (map hex_byte (verifying_key seed)))"
  using hex_pairs_parse[of s] assms by (auto simp: valid_secret_def node_id_def)

text \<open>An environment in which every call succeeds.\<close>

definition sample_env :: IoEnv where
  "sample_env = \<lparr>mkdir_fails = (\<lambda>_. False), write_outcome = (\<lambda>_. WroteAll), rename_fails = (\<lambda>_ _. False), read_fails = (\<lambda>_. False)\<rparr>"

text \<open>What a successful call leaves behind: a file that reads as the secret it returned.\<close>

lemma ensure_secret_file:
  assumes "\<And>t. list_all (\<lambda>c. byte c < 128) t \<Longrightarrow> is_utf8 (str_bytes t)" and "length buf = 32"
    and "ensure_secret env is_utf8 (Inr buf) dir router fs = (fs', Inr s)"
  shows "valid_secret s \<and> (\<exists>c. fs' (dir @ [router @ ''.secret'']) = Some c \<and> is_utf8 c \<and> trim (bytes_str c) = s) \<and>
    (\<forall>q. q \<noteq> dir @ [router @ ''.secret''] \<longrightarrow> fs' q = fs q) \<and>
    (fs (dir @ [router @ ''.secret'']) = None \<longrightarrow> s = concat (map hex_byte buf))"
proof (cases "fs (dir @ [router @ ''.secret''])")
  case (Some c)
  then show ?thesis using assms(3) by (auto simp: ensure_secret_def Let_def split: if_splits)
next
  case None
  let ?hex = "concat (map hex_byte buf)"
  have v: "valid_secret ?hex" using assms(2) by (simp add: valid_secret_def length_hex hex_text_digits)
  have r: "fs' = fs(dir @ [router @ ''.secret''] \<mapsto> str_bytes (?hex @ [CHR 0x0A]))" "s = ?hex"
    using assms(3) None by (auto simp: ensure_secret_def fs_write_def Let_def split: if_splits WriteOutcome.splits)
  have "list_all (\<lambda>c. byte c < 128) (?hex @ [CHR 0x0A])"
    using hex_text_digits[of buf] hexdigit_visible by (auto simp: list_all_iff byte_def)
  then have "is_utf8 (str_bytes (?hex @ [CHR 0x0A]))" by (rule assms(1))
  moreover have "trim (?hex @ [CHR 0x0A]) = ?hex" by (rule trim_line[OF valid_ends[OF v]])
  ultimately show ?thesis by (simp add: r v)
qed

text \<open>A router keeps its identity. Once \<open>ensure_secret\<close> has succeeded, every later call returns the same secret and
  changes no file, whatever the random source then gives; the secret is the hex text of a 32-byte seed, so \<open>node_id\<close>
  succeeds on it, and a freshly generated secret encodes exactly the bytes drawn. No other file is touched.\<close>

theorem secret_stable:
  assumes "\<And>t. list_all (\<lambda>c. byte c < 128) t \<Longrightarrow> is_utf8 (str_bytes t)"
    and "length buf = 32"
    and "ensure_secret env is_utf8 (Inr buf) dir router fs = (fs', Inr s)"
    and "\<not> read_fails env' (dir @ [router @ ''.secret''])"
  shows "ensure_secret env' is_utf8 urandom' dir router fs' = (fs', Inr s) \<and>
    (\<exists>seed. parse_hex_pairs s = Some seed \<and> length seed = 32 \<and>
       node_id verifying_key s = Inr (concat (map hex_byte (verifying_key seed))) \<and>
       (fs (dir @ [router @ ''.secret'']) = None \<longrightarrow> seed = buf)) \<and>
    (\<forall>q. q \<noteq> dir @ [router @ ''.secret''] \<longrightarrow> fs' q = fs q)"
proof -
  note f = ensure_secret_file[OF assms(1-3)]
  then obtain seed where seed: "parse_hex_pairs s = Some seed" "length seed = 32"
    "node_id verifying_key s = Inr (concat (map hex_byte (verifying_key seed)))" using valid_seed by blast
  moreover have "fs (dir @ [router @ ''.secret'']) = None \<Longrightarrow> seed = buf" using f seed(1) by (simp add: hex_roundtrip)
  moreover have "ensure_secret env' is_utf8 urandom' dir router fs' = (fs', Inr s)"
    using f assms(4) by (auto simp: ensure_secret_def Let_def)
  ultimately show ?thesis using f by simp
qed

text \<open>Example: the first deployment of a router draws 32 bytes; the next one draws others and keeps the first.\<close>

theorem secret_stable_witness:
  "\<exists>fs' s. ensure_secret sample_env (\<lambda>_. True) (Inr (replicate 32 0xAB)) [''secrets''] ''r1'' Map.empty = (fs', Inr s) \<and>
     s = concat (replicate 32 ''ab'') \<and>
     ensure_secret sample_env (\<lambda>_. True) (Inr (replicate 32 1)) [''secrets''] ''r1'' fs' = (fs', Inr s) \<and>
     fs' [''secrets'', ''r2.secret''] = None"
proof -
  let ?hex = "concat (map hex_byte (replicate 32 0xAB))"
  let ?fs = "Map.empty([''secrets'', ''r1.secret''] \<mapsto> str_bytes (?hex @ [CHR 0x0A]))"
  have e: "ensure_secret sample_env (\<lambda>_. True) (Inr (replicate 32 0xAB)) [''secrets''] ''r1'' Map.empty = (?fs, Inr ?hex)"
    by (simp add: ensure_secret_def fs_write_def sample_env_def Let_def)
  have h: "?hex = concat (replicate 32 ''ab'')" by code_simp
  note s = secret_stable[OF _ _ e, where env' = sample_env and urandom' = "Inr (replicate 32 1)"]
  show ?thesis using s e h by (auto simp: sample_env_def)
qed

section \<open>What the router documents of containers\<close>

text \<open>The container menu as the router keeps it. The flags \<open>running\<close> and \<open>stopped\<close> change with time, the configuration of
  a container only by a command; stopping, adding and starting take effect later. \<open>settled\<close> says that no import of an image is
  under way, \<open>extracted\<close> that the image of the mesh container has been unpacked, and \<open>k\<close> is a number of polls.\<close>

definition mesh_container :: "item \<Rightarrow> bool" where
  "mesh_container it \<longleftrightarrow> item_get it ''comment'' = CONTAINER_COMMENT"

definition config :: "item \<Rightarrow> item" where
  "config it = filter (\<lambda>(k, _). k \<notin> {''running'', ''stopped''}) it"

definition new_container :: "string \<Rightarrow> DeployOpts \<Rightarrow> string \<Rightarrow> item" where
  "new_container tar_name opts cmd =
     [(''file'', tar_name), (''interface'', ''veth-mesh''), (''root-dir'', do_root_dir opts), (''dns'', do_dns opts), (''cmd'', cmd),
      (''envlist'', ENV_LIST), (''comment'', CONTAINER_COMMENT), (''logging'', ''yes''), (''start-on-boot'', ''yes'')]"

definition secret_env :: "string \<Rightarrow> item" where
  "secret_env secret = [(''list'', ENV_LIST), (''key'', ''IROH_SECRET''), (''value'', secret)]"

definition keeps_config :: "('d \<Rightarrow> string \<Rightarrow> item list) \<Rightarrow> 'd \<Rightarrow> 'd \<Rightarrow> bool" where
  "keeps_config menu d d' \<longleftrightarrow>
     (\<forall>p. p \<noteq> ''/container'' \<longrightarrow> menu d' p = menu d p) \<and>
     map config (menu d' ''/container'') = map config (menu d ''/container'')"

definition script_ok :: string where
  "script_ok = END_MARKER @ end_of_line"

definition polled :: "'d Remote \<Rightarrow> nat \<Rightarrow> 'd \<Rightarrow> 'd" where
  "polled R n = r_sleep R 2000 ^^ n"

definition comes_up :: "'d Remote \<Rightarrow> ('d \<Rightarrow> string \<Rightarrow> item list) \<Rightarrow> nat \<Rightarrow> nat \<Rightarrow> 'd \<Rightarrow> bool" where
  "comes_up R menu timeout k d \<longleftrightarrow>
     (\<exists>j\<le>k. (\<forall>i<j. r_now R (polled R i d) < r_now R d + timeout) \<and>
        (\<forall>it\<in>set (menu (polled R j d) ''/container''). mesh_container it \<longrightarrow> item_get it ''running'' = ''true''))"

text \<open>An added container shows up after some polls, with the time to spare that the timeout leaves, and five seconds later its
  image is unpacked.\<close>

definition appears ::
  "'d Remote \<Rightarrow> ('d \<Rightarrow> string \<Rightarrow> item list) \<Rightarrow> ('d \<Rightarrow> bool) \<Rightarrow> ('d \<Rightarrow> bool) \<Rightarrow> nat \<Rightarrow> nat \<Rightarrow> item \<Rightarrow> 'd \<Rightarrow> 'd \<Rightarrow> bool" where
  "appears R menu settled extracted timeout k new d d' \<longleftrightarrow>
     (\<exists>j\<le>k. (\<forall>i<j. r_now R (polled R i d') < r_now R d' + timeout \<and> filter mesh_container (menu (polled R i d') ''/container'') = []) \<and>
        (\<forall>p. p \<noteq> ''/container'' \<longrightarrow> menu (polled R j d') p = menu d p) \<and>
        map config (menu (polled R j d') ''/container'') = map config (menu d ''/container'') @ [new] \<and>
        settled (polled R j d') \<and> extracted (r_sleep R 5000 (polled R j d')))"

text \<open>What the commands do and when they are accepted: a container is removed only while it does not run, added only when there
  is none and its interface exists, and started only once its image is unpacked. Three seconds after \<open>stop\<close> it does not run.\<close>

definition container_ok ::
  "string list \<Rightarrow> 'd Remote \<Rightarrow> ('d \<Rightarrow> string \<Rightarrow> item list) \<Rightarrow> ('d \<Rightarrow> bool) \<Rightarrow> ('d \<Rightarrow> bool) \<Rightarrow> string \<Rightarrow> string \<Rightarrow> DeployOpts \<Rightarrow>
   string \<Rightarrow> string \<Rightarrow> nat \<Rightarrow> bool" where
  "container_ok ifs R menu settled extracted tar tar_name opts cmd secret k \<longleftrightarrow>
     (\<forall>d. \<exists>out. r_run R d '':put [/system/device-mode/get container]'' = (d, Inr out) \<and> trim out = ''true'') \<and>
     (\<forall>d. \<exists>d'. r_upload R tar [] d = (d', Inr ()) \<and> menu d' = menu d \<and> (settled d \<longrightarrow> settled d')) \<and>
     answers (r_run R) menu ''/container'' container_find [''running'', ''stopped''] mesh_container \<and>
     (\<forall>d. \<forall>it\<in>set (menu d ''/container''). plain (item_get it ''running'') \<and> plain (item_get it ''stopped'')) \<and>
     (\<forall>ms d. settled d \<longrightarrow> settled (r_sleep R ms d) \<and> keeps_config menu d (r_sleep R ms d)) \<and>
     (\<forall>d script. settled d \<and> \<not> starts_with ''/container/add '' script \<longrightarrow> settled (fst (r_run R d script))) \<and>
     (\<forall>d. settled d \<longrightarrow> (\<exists>d1 res. r_run R d (script_of stop_cmd) = (d1, res) \<and> keeps_config menu d d1 \<and>
        (\<forall>it\<in>set (menu (r_sleep R 3000 d1) ''/container''). mesh_container it \<longrightarrow> item_get it ''running'' \<noteq> ''true''))) \<and>
     effect_when (\<lambda>m. \<forall>it\<in>set (m ''/container''). mesh_container it \<longrightarrow> item_get it ''running'' \<noteq> ''true'') (r_run R) menu
       remove_container_cmd ''/container'' (filter (\<lambda>it. \<not> mesh_container it)) \<and>
     effect (r_run R) menu envs_remove_cmd ''/container/envs'' (filter (\<lambda>it. item_get it ''list'' \<noteq> ENV_LIST)) \<and>
     effect (r_run R) menu (envs_add_cmd secret) ''/container/envs'' (\<lambda>items. items @ [secret_env secret]) \<and>
     (\<forall>d. settled d \<and> filter mesh_container (menu d ''/container'') = [] \<and> interface_named ifs (menu d) ''veth-mesh'' \<longrightarrow>
        (\<exists>d'. r_run R d (script_of (container_add_cmd tar_name opts cmd)) = (d', Inr script_ok) \<and>
           appears R menu settled extracted (do_timeout opts) k (new_container tar_name opts cmd) d d')) \<and>
     (\<forall>d. settled d \<and> extracted d \<longrightarrow> (\<exists>d'. r_run R d (script_of start_cmd) = (d', Inr script_ok) \<and> keeps_config menu d d' \<and>
        comes_up R menu (do_timeout opts) k d'))"

section \<open>The steps of a deployment\<close>

lemma script_complete: "ensure_complete script_ok = Inr ()"
proof -
  have l: "lines script_ok = [END_MARKER]"
    using lines_crlf[of "[END_MARKER]"] by (simp add: END_MARKER_def script_ok_def)
  show ?thesis unfolding ensure_complete_def l by (simp add: END_MARKER_def trim_end_matches_def)
qed

lemma run_command_ok: "ssh d (script_of cmd) = (d', Inr script_ok) \<Longrightarrow> run_command ssh cmd d = (d', Inr script_ok)"
  unfolding run_command_def script_of_def by (simp add: script_complete)

lemma effect_run:
  assumes "effect_when accepted ssh menu cmd path f" and "accepted (menu d)"
  obtains d' where "run_command ssh cmd d = (d', Inr script_ok)" "menu d' = (menu d)(path := f (menu d path))"
    "d' = fst (ssh d (script_of cmd))"
proof -
  obtain d' where "ssh d (script_of cmd) = (d', Inr script_ok)" "menu d' = (menu d)(path := f (menu d path))"
    using assms unfolding effect_when_def script_ok_def by blast
  then show thesis using that run_command_ok[of ssh d cmd] by simp
qed

lemma mesh_container_config [simp]: "mesh_container (config it) = mesh_container it"
  by (induction it) (auto simp: mesh_container_def config_def item_get_def)

lemma filter_config:
  "map config xs = map config ys \<Longrightarrow> map config (filter mesh_container xs) = map config (filter mesh_container ys)"
  "map config xs = map config ys \<Longrightarrow>
     map config (filter (\<lambda>it. \<not> mesh_container it) xs) = map config (filter (\<lambda>it. \<not> mesh_container it) ys)"
  by (induction xs arbitrary: ys; case_tac ys; auto; metis mesh_container_config)+

lemma keeps_config_trans: "keeps_config menu a b \<Longrightarrow> keeps_config menu b c \<Longrightarrow> keeps_config menu a c"
  by (simp add: keeps_config_def)

lemma keeps_config_refl: "keeps_config menu a a"
  by (simp add: keeps_config_def)

lemma container_okD:
  assumes "container_ok ifs R menu settled extracted tar tar_name opts cmd secret k"
  shows "\<exists>out. r_run R d '':put [/system/device-mode/get container]'' = (d, Inr out) \<and> trim out = ''true''"
    and "\<exists>d'. r_upload R tar [] d = (d', Inr ()) \<and> menu d' = menu d \<and> (settled d \<longrightarrow> settled d')"
    and "answers (r_run R) menu ''/container'' container_find [''running'', ''stopped''] mesh_container"
    and "it \<in> set (menu d ''/container'') \<Longrightarrow> plain (item_get it ''running'') \<and> plain (item_get it ''stopped'')"
    and "settled d \<Longrightarrow> settled (r_sleep R ms d) \<and> keeps_config menu d (r_sleep R ms d)"
    and "settled d \<Longrightarrow> \<not> starts_with ''/container/add '' script \<Longrightarrow> settled (fst (r_run R d script))"
    and "settled d \<Longrightarrow> \<exists>d1 res. r_run R d (script_of stop_cmd) = (d1, res) \<and> keeps_config menu d d1 \<and>
        (\<forall>it\<in>set (menu (r_sleep R 3000 d1) ''/container''). mesh_container it \<longrightarrow> item_get it ''running'' \<noteq> ''true'')"
    and "effect_when (\<lambda>m. \<forall>it\<in>set (m ''/container''). mesh_container it \<longrightarrow> item_get it ''running'' \<noteq> ''true'') (r_run R) menu
       remove_container_cmd ''/container'' (filter (\<lambda>it. \<not> mesh_container it))"
    and "effect (r_run R) menu envs_remove_cmd ''/container/envs'' (filter (\<lambda>it. item_get it ''list'' \<noteq> ENV_LIST))"
    and "effect (r_run R) menu (envs_add_cmd secret) ''/container/envs'' (\<lambda>items. items @ [secret_env secret])"
    and "settled d \<Longrightarrow> filter mesh_container (menu d ''/container'') = [] \<Longrightarrow> interface_named ifs (menu d) ''veth-mesh'' \<Longrightarrow>
        \<exists>d'. r_run R d (script_of (container_add_cmd tar_name opts cmd)) = (d', Inr script_ok) \<and>
           appears R menu settled extracted (do_timeout opts) k (new_container tar_name opts cmd) d d'"
    and "settled d \<Longrightarrow> extracted d \<Longrightarrow> \<exists>d'. r_run R d (script_of start_cmd) = (d', Inr script_ok) \<and> keeps_config menu d d' \<and>
        comes_up R menu (do_timeout opts) k d'"
  using assms unfolding container_ok_def by blast+

text \<open>Only adding a container starts an import.\<close>

lemma other_commands:
  "\<not> starts_with ''/container/add '' (script_of stop_cmd)" "\<not> starts_with ''/container/add '' (script_of remove_container_cmd)"
  "\<not> starts_with ''/container/add '' (script_of start_cmd)" "\<not> starts_with ''/container/add '' (script_of envs_remove_cmd)"
  "\<not> starts_with ''/container/add '' (script_of (envs_add_cmd secret))"
  by (simp_all add: starts_with_def script_of_def stop_cmd_def remove_container_cmd_def start_cmd_def envs_remove_cmd_def envs_add_cmd_def)

text \<open>The state of the container, read off the menu.\<close>

lemma container_state_reads:
  assumes "container_ok ifs R menu settled extracted tar tar_name opts cmd secret k"
  shows "container_state R d =
    (d, Inr (case filter mesh_container (menu d ''/container'') of
               [] \<Rightarrow> None
             | it # _ \<Rightarrow> Some (if item_get it ''running'' = ''true'' then Running else Stopped)))"
proof -
  let ?props = "[''running'', ''stopped'']"
  define view where "view w p = map (\<lambda>it. map (\<lambda>f. (f, item_get it f)) ?props) (filter mesh_container (menu w p))" for w p
  have g: "item_get (map (\<lambda>f. (f, item_get it f)) ?props) ''running'' = item_get it ''running''"
    "item_get (map (\<lambda>f. (f, item_get it f)) ?props) ''stopped'' = item_get it ''stopped''" for it
    by (simp_all add: item_get_def)
  have "answers (r_run R) view ''/container'' container_find ?props (\<lambda>_. True)"
    using container_okD(3)[OF assms] unfolding answers_def query_output_def
    by (simp add: view_def record_line_def comp_def g[simplified])
  moreover have "\<forall>f\<in>set ?props. field_name f" by (simp add: field_name_def plain_def byte_def)
  moreover have "\<forall>it\<in>set (view d ''/container''). plain_item it"
    using container_okD(4)[OF assms] by (auto simp: view_def plain_item_def item_get_def[of "[_, _]"] plain_def[of "[]"])
  ultimately have "query (r_run R) ''/container'' (Some container_find) ?props d =
      (d, Inr (map (read_item ?props) (view d ''/container'')))"
    using query_reads[of "r_run R" view "''/container''" container_find ?props "\<lambda>_. True" d] by simp
  moreover have "bt_get (read_item ?props it) ''running'' = Some (item_get it ''running'')" for it
    by (rule read_item_get) simp
  ultimately show ?thesis
    by (simp add: container_state_def view_def g[simplified] split: list.splits)
qed

lemma remove_existing_clears:
  assumes ok: "container_ok ifs R menu settled extracted tar tar_name opts cmd secret k" and "settled d"
  obtains d' where "remove_existing R d = (d', Inr ())" "filter mesh_container (menu d' ''/container'') = []"
    "map config (filter (\<lambda>it. \<not> mesh_container it) (menu d' ''/container'')) =
       map config (filter (\<lambda>it. \<not> mesh_container it) (menu d ''/container''))"
    "\<forall>p. p \<noteq> ''/container'' \<longrightarrow> menu d' p = menu d p" "settled d'"
proof (cases "filter mesh_container (menu d ''/container'')")
  case Nil
  then show ?thesis using assms(2) by (intro that[of d]) (simp_all add: remove_existing_def container_state_reads[OF ok])
next
  case (Cons it its)
  obtain d1 res where d: "r_run R d (script_of stop_cmd) = (d1, res)" "keeps_config menu d d1"
      "\<forall>it\<in>set (menu (r_sleep R 3000 d1) ''/container''). mesh_container it \<longrightarrow> item_get it ''running'' \<noteq> ''true''"
    using container_okD(7)[OF ok, OF assms(2)] by blast
  let ?d = "r_sleep R 3000 d1"
  have "settled d1" using container_okD(6)[OF ok, OF assms(2) other_commands(1)] d(1) by simp
  note s = container_okD(5)[OF ok, OF this]
  have kept: "keeps_config menu d ?d" using keeps_config_trans[OF d(2)] s by blast
  obtain d2 where d2: "run_command (r_run R) remove_container_cmd ?d = (d2, Inr script_ok)"
      "menu d2 = (menu ?d)(''/container'' := filter (\<lambda>it. \<not> mesh_container it) (menu ?d ''/container''))"
      "d2 = fst (r_run R ?d (script_of remove_container_cmd))"
    by (rule effect_run[OF container_okD(8)[OF ok], of ?d]) (use d(3) in blast)+
  have "settled d2" using container_okD(6)[OF ok _ other_commands(2)] s unfolding d2(3) by blast
  moreover have "fst (run_command (r_run R) stop_cmd d) = d1"
    using d(1) unfolding run_command_def script_of_def by (auto split: sum.splits)
  then have "remove_existing R d = (d2, Inr ())"
    using d2(1) Cons by (cases "run_command (r_run R) stop_cmd d") (simp add: remove_existing_def container_state_reads[OF ok])
  moreover have m: "map config (menu ?d ''/container'') = map config (menu d ''/container'')"
    and "\<forall>p. p \<noteq> ''/container'' \<longrightarrow> menu d2 p = menu d p"
    using kept by (simp_all add: d2(2) keeps_config_def)
  ultimately show ?thesis by (intro that[of d2]) (simp_all add: d2(2) filter_config(2)[OF m])
qed

lemma polled_Suc: "polled R (Suc n) d = polled R n (r_sleep R 2000 d)"
  by (simp add: polled_def funpow_swap1)

lemma polled_keeps:
  assumes "container_ok ifs R menu settled extracted tar tar_name opts cmd secret k"
  shows "settled d \<Longrightarrow> keeps_config menu d (polled R n d) \<and> settled (polled R n d)"
proof (induction n arbitrary: d)
  case (Suc n)
  have "settled (r_sleep R 2000 d) \<and> keeps_config menu d (r_sleep R 2000 d)" by (rule container_okD(5)[OF assms, OF Suc.prems])
  then show ?case using Suc.IH[of "r_sleep R 2000 d"] keeps_config_trans[of menu d "r_sleep R 2000 d"] by (simp add: polled_Suc)
qed (simp add: polled_def keeps_config_refl)

text \<open>Waiting ends when the container has shown up.\<close>

lemma wait_present_ends:
  assumes "container_ok ifs R menu settled extracted tar tar_name opts cmd secret k" and "j < fuel"
    and "\<forall>i<j. r_now R (polled R i d) < deadline \<and> filter mesh_container (menu (polled R i d) ''/container'') = []"
    and "filter mesh_container (menu (polled R j d) ''/container'') \<noteq> []"
  shows "wait_present fuel R deadline d = Some (polled R j d, Inr ())"
  using assms(2-4)
proof (induction j arbitrary: d fuel)
  case 0
  then show ?case
    by (cases fuel; cases "filter mesh_container (menu d ''/container'')") (simp_all add: polled_def container_state_reads[OF assms(1)])
next
  case (Suc j)
  then obtain f where f: "fuel = Suc f" "j < f" by (metis Suc_less_eq2)
  have "r_now R d < deadline" "filter mesh_container (menu d ''/container'') = []" using Suc.prems(2) by (auto simp: polled_def)
  then have "wait_present fuel R deadline d = wait_present f R deadline (r_sleep R 2000 d)"
    by (simp add: f container_state_reads[OF assms(1)])
  moreover have "\<forall>i<j. r_now R (polled R i (r_sleep R 2000 d)) < deadline \<and>
      filter mesh_container (menu (polled R i (r_sleep R 2000 d)) ''/container'') = []"
    using Suc.prems(2) by (auto simp flip: polled_Suc)
  ultimately show ?case using Suc.IH[of f "r_sleep R 2000 d"] f(2) Suc.prems(3) by (simp add: polled_Suc)
qed

text \<open>Waiting ends with the container running.\<close>

lemma wait_for_running:
  assumes "container_ok ifs R menu settled extracted tar tar_name opts cmd secret k"
    and "filter mesh_container (menu d ''/container'') \<noteq> []" and "settled d" and "j < fuel"
    and "\<forall>i<j. r_now R (polled R i d) < deadline"
    and "\<forall>it\<in>set (menu (polled R j d) ''/container''). mesh_container it \<longrightarrow> item_get it ''running'' = ''true''"
  shows "\<exists>i it its. wait_for_state fuel R Running deadline d = Some (polled R i d, Inr ()) \<and>
    filter mesh_container (menu (polled R i d) ''/container'') = it # its \<and> item_get it ''running'' = ''true''"
  using assms(2-6)
proof (induction j arbitrary: d fuel)
  case 0
  then obtain f it its where f: "fuel = Suc f" and m: "filter mesh_container (menu d ''/container'') = it # its"
    by (metis Suc_pred list.exhaust)
  have "it \<in> set (filter mesh_container (menu d ''/container''))" using m by simp
  then have "item_get it ''running'' = ''true''" using 0(5) by (simp add: polled_def)
  then show ?case using m by (intro exI[of _ 0]) (simp add: f polled_def container_state_reads[OF assms(1)])
next
  case (Suc j)
  then obtain f it its where f: "fuel = Suc f" "j < f" and m: "filter mesh_container (menu d ''/container'') = it # its"
    by (metis Suc_less_eq2 list.exhaust)
  show ?case
  proof (cases "item_get it ''running'' = ''true''")
    case True
    then show ?thesis using m by (intro exI[of _ 0]) (simp add: f polled_def container_state_reads[OF assms(1)])
  next
    case False
    let ?d = "r_sleep R 2000 d"
    have k: "map config (menu ?d ''/container'') = map config (menu d ''/container'')"
      and st: "settled ?d" using container_okD(5)[OF assms(1), OF Suc.prems(2)] by (simp_all add: keeps_config_def)
    have "r_now R d < deadline" using Suc.prems(4) by (auto simp: polled_def)
    then have w: "wait_for_state fuel R Running deadline d = wait_for_state f R Running deadline ?d"
      using m False by (simp add: f container_state_reads[OF assms(1)])
    have "filter mesh_container (menu ?d ''/container'') \<noteq> []"
      using filter_config(1)[OF k] m by auto
    moreover have "\<forall>i<j. r_now R (polled R i ?d) < deadline" using Suc.prems(4) by (auto simp flip: polled_Suc)
    ultimately show ?thesis
      using Suc.IH[of ?d f] f(2) st Suc.prems(5) unfolding w polled_Suc[symmetric] by blast
  qed
qed

lemmas run_defs = then_run_def in_context_def on_router_def polling_def pausing_def ignoring_def on_files_def

lemma start_container_runs:
  assumes ok: "container_ok ifs R menu settled extracted tar tar_name opts cmd secret k" and "k < fuel" and "settled d"
    and veth: "interface_named ifs (menu d) ''veth-mesh''" "''/container'' \<notin> set ifs"
  obtains d' it where "start_container fuel R tar_name cmd opts (d, fs) = Some ((d', fs), Inr ())"
    "\<forall>p. p \<noteq> ''/container'' \<longrightarrow> menu d' p = menu d p"
    "filter mesh_container (menu d' ''/container'') = [it]" "config it = new_container tar_name opts cmd"
    "item_get it ''running'' = ''true''"
    "map config (filter (\<lambda>it. \<not> mesh_container it) (menu d' ''/container'')) =
       map config (filter (\<lambda>it. \<not> mesh_container it) (menu d ''/container''))"
proof -
  let ?c = "''/container''" and ?new = "new_container tar_name opts cmd"
  obtain d1 where d1: "remove_existing R d = (d1, Inr ())" "filter mesh_container (menu d1 ?c) = []"
      "map config (filter (\<lambda>it. \<not> mesh_container it) (menu d1 ?c)) = map config (filter (\<lambda>it. \<not> mesh_container it) (menu d ?c))"
      "\<forall>p. p \<noteq> ?c \<longrightarrow> menu d1 p = menu d p" "settled d1"
    using remove_existing_clears[OF ok, OF assms(3)] by blast
  have "interface_named ifs (menu d1) ''veth-mesh''"
    using veth d1(4) unfolding interface_named_def by metis
  then obtain d2 where d2: "r_run R d1 (script_of (container_add_cmd tar_name opts cmd)) = (d2, Inr script_ok)"
      "appears R menu settled extracted (do_timeout opts) k ?new d1 d2"
    using container_okD(11)[OF ok, OF d1(5,2)] by blast
  obtain j where j: "j \<le> k" "\<forall>i<j. r_now R (polled R i d2) < r_now R d2 + do_timeout opts \<and> filter mesh_container (menu (polled R i d2) ?c) = []"
      "\<forall>p. p \<noteq> ?c \<longrightarrow> menu (polled R j d2) p = menu d1 p" "map config (menu (polled R j d2) ?c) = map config (menu d1 ?c) @ [?new]"
      "settled (polled R j d2)" "extracted (r_sleep R 5000 (polled R j d2))"
    using d2(2) unfolding appears_def by blast
  let ?d2 = "polled R j d2"
  have new: "mesh_container ?new" "config ?new = ?new"
    by (simp_all add: mesh_container_def config_def new_container_def item_get_def)
  have f2: "map config (filter mesh_container (menu ?d2 ?c)) = [?new]"
    "map config (filter (\<lambda>it. \<not> mesh_container it) (menu ?d2 ?c)) = map config (filter (\<lambda>it. \<not> mesh_container it) (menu d ?c))"
    using filter_config[of "menu ?d2 ?c" "menu d1 ?c @ [?new]"] j(4) new d1(2,3) by simp_all
  have "filter mesh_container (menu ?d2 ?c) \<noteq> []" using f2(1) by auto
  then have w: "wait_present fuel R (r_now R d2 + do_timeout opts) d2 = Some (?d2, Inr ())"
    using wait_present_ends[OF ok, OF _ j(2)] j(1) assms(2) by simp
  let ?d3 = "r_sleep R 5000 ?d2"
  have s3: "settled ?d3" "keeps_config menu ?d2 ?d3" using container_okD(5)[OF ok, OF j(5)] by blast+
  obtain d4 where d4: "r_run R ?d3 (script_of start_cmd) = (d4, Inr script_ok)" "keeps_config menu ?d3 d4"
      "comes_up R menu (do_timeout opts) k d4" using container_okD(12)[OF ok, OF s3(1) j(6)] by blast
  have s4: "settled d4" using container_okD(6)[OF ok, OF s3(1) other_commands(3)] d4(1) by simp
  have k4: "keeps_config menu ?d2 d4" by (rule keeps_config_trans[OF s3(2) d4(2)])
  obtain l where l: "l \<le> k" "\<forall>i<l. r_now R (polled R i d4) < r_now R d4 + do_timeout opts"
      "\<forall>it\<in>set (menu (polled R l d4) ?c). mesh_container it \<longrightarrow> item_get it ''running'' = ''true''"
    using d4(3) unfolding comes_up_def by blast
  have "filter mesh_container (menu d4 ?c) \<noteq> []"
    using filter_config(1)[of "menu d4 ?c" "menu ?d2 ?c"] k4 f2(1) by (auto simp: keeps_config_def)
  moreover have "l < fuel" using l(1) assms(2) by simp
  ultimately obtain i it its where up: "wait_for_state fuel R Running (r_now R d4 + do_timeout opts) d4 = Some (polled R i d4, Inr ())"
      "filter mesh_container (menu (polled R i d4) ?c) = it # its" "item_get it ''running'' = ''true''"
    using wait_for_running[OF ok, OF _ s4 _ l(2,3)] by blast
  have k: "keeps_config menu ?d2 (polled R i d4)" using keeps_config_trans[OF k4] polled_keeps[OF ok, OF s4] by blast
  then have "map config (filter mesh_container (menu (polled R i d4) ?c)) = [?new]"
    using filter_config(1)[of "menu (polled R i d4) ?c" "menu ?d2 ?c"] f2(1) by (simp add: keeps_config_def)
  then have one: "its = []" "config it = ?new" using up(2) by simp_all
  have rest: "map config (filter (\<lambda>it. \<not> mesh_container it) (menu (polled R i d4) ?c)) =
      map config (filter (\<lambda>it. \<not> mesh_container it) (menu d ?c))"
    using filter_config(2)[of "menu (polled R i d4) ?c" "menu ?d2 ?c"] k f2(2) by (simp add: keeps_config_def)
  have "start_container fuel R tar_name cmd opts (d, fs) = Some ((polled R i d4, fs), Inr ())"
    by (simp add: start_container_def run_defs d1(1) run_command_ok[of "r_run R", OF d2(1)] w run_command_ok[of "r_run R", OF d4(1)] up(1))
  then show thesis
    using that[of "polled R i d4" it] up(2,3) one rest k d1(4) j(3) by (simp add: keeps_config_def)
qed

section \<open>The network converges on the way\<close>

lemma run_all_when_none_fail:
  "run_changes ssh cs (d, n, m) = (d', n', m') \<Longrightarrow> m \<le> m' \<and> (m' = m \<longrightarrow> run_all_changes ssh cs d = (d', Inr ()))"
proof (induction cs arbitrary: d n m)
  case (Cons c cs)
  obtain d1 res where r: "run_change ssh c d = (d1, res)" by fastforce
  show ?case
  proof (cases res)
    case (Inl e)
    then have "run_changes ssh cs (d1, n, m + 1) = (d', n', m')" using Cons.prems r by simp
    then show ?thesis using Cons.IH[of d1 n "m + 1"] by simp
  next
    case (Inr u)
    then have "run_changes ssh cs (d1, n + 1, m) = (d', n', m')" using Cons.prems r by simp
    then show ?thesis using Cons.IH[of d1 "n + 1" m] r Inr by simp
  qed
qed simp

text \<open>A query sees the menu and nothing else, so a plan is the same in two worlds whose menus agree.\<close>

lemma query_same:
  assumes "answers ssh menu path flt props p" and "menu w' path = menu w path"
  shows "query ssh path (Some flt) props w' = (w', snd (query ssh path (Some flt) props w)) \<and> fst (query ssh path (Some flt) props w) = w"
  using assms by (simp add: query_def answers_def split: sum.split)

lemma observe_desired_same:
  assumes "routeros_ok ifs ssh menu ds" and "\<forall>d\<in>set ds. menu w' (ds_path d) = menu w (ds_path d)" and "set ds' \<subseteq> set ds"
  shows "observe_desired ssh ds' w' = (w', snd (observe_desired ssh ds' w)) \<and> fst (observe_desired ssh ds' w) = w"
  using assms(3)
proof (induction ds')
  case (Cons d ds')
  have "answers ssh menu (ds_path d) (find_expr d) (field_keys d) (found d)"
    using assms(1) Cons.prems by (auto simp: routeros_ok_def)
  then have q: "query ssh (ds_path d) (Some (find_expr d)) (field_keys d) w' =
      (w', snd (query ssh (ds_path d) (Some (find_expr d)) (field_keys d) w)) \<and>
      fst (query ssh (ds_path d) (Some (find_expr d)) (field_keys d) w) = w"
    by (rule query_same) (use assms(2) Cons.prems in auto)
  have ih: "observe_desired ssh ds' w' = (w', snd (observe_desired ssh ds' w)) \<and> fst (observe_desired ssh ds' w) = w"
    using Cons by simp
  show ?case using q ih
    by (cases "query ssh (ds_path d) (Some (find_expr d)) (field_keys d) w"; cases "observe_desired ssh ds' w")
      (auto split: sum.splits)
qed simp

lemma prune_scan_same:
  assumes "routeros_ok ifs ssh menu ds" and "\<forall>d\<in>set ds. menu w' (ds_path d) = menu w (ds_path d)"
    and "set paths \<subseteq> ds_path ` {d \<in> set ds. ds_comment_owned d}"
  shows "prune_scan ssh ds paths w' = (w', snd (prune_scan ssh ds paths w)) \<and> fst (prune_scan ssh ds paths w) = w"
  using assms(3)
proof (induction paths)
  case (Cons path paths)
  then obtain d where d: "d \<in> set ds" "ds_comment_owned d" "ds_path d = path" by auto
  then have "answers ssh menu path OWN_PREFIX_RE [''comment''] tagged" using assms(1) by (auto simp: routeros_ok_def)
  then have q: "query ssh path (Some OWN_PREFIX_RE) [''comment''] w' =
      (w', snd (query ssh path (Some OWN_PREFIX_RE) [''comment''] w)) \<and>
      fst (query ssh path (Some OWN_PREFIX_RE) [''comment''] w) = w"
    by (rule query_same) (use assms(2) d in auto)
  have ih: "prune_scan ssh ds paths w' = (w', snd (prune_scan ssh ds paths w)) \<and> fst (prune_scan ssh ds paths w) = w"
    using Cons by simp
  show ?case using q ih
    by (cases "query ssh path (Some OWN_PREFIX_RE) [''comment''] w"; cases "prune_scan ssh ds paths w")
      (auto split: sum.splits)
qed simp

lemma plan_same:
  assumes "routeros_ok ifs ssh menu ds" and "\<forall>d\<in>set ds. menu w' (ds_path d) = menu w (ds_path d)"
    and "plan_changes ssh (Inr ds) w = (w, Inr x)"
  shows "plan_changes ssh (Inr ds) w' = (w', Inr x)"
  using assms(3) observe_desired_same[OF assms(1,2) order_refl] prune_scan_same[OF assms(1,2) equalityD1[OF set_owned_paths]]
  by (cases "observe_desired ssh ds w"; cases "prune_scan ssh ds (owned_paths ds) w")
    (auto simp: plan_changes_def observe_router_def split: sum.splits)

lemma changes_settle:
  assumes "\<forall>d script. settled d \<and> \<not> starts_with ''/container/add '' script \<longrightarrow> settled (fst (ssh d script))"
  shows "\<forall>c\<in>set cs. \<not> starts_with ''/container/add '' (script_of (ch_cmd c)) \<Longrightarrow> settled d \<Longrightarrow> settled (fst (run_all_changes ssh cs d))"
proof (induction cs arbitrary: d)
  case (Cons c cs)
  have "fst (run_change ssh c d) = fst (ssh d (script_of (ch_cmd c)))"
    by (auto simp: run_change_def run_command_def script_of_def split: prod.splits sum.splits)
  then have "settled (fst (run_change ssh c d))" using assms Cons.prems by simp
  then show ?case using Cons.IH Cons.prems(1) by (auto split: prod.splits sum.splits)
qed simp

lemma network_converges:
  assumes "routeros_ok ifs (r_run R) menu ds" and "desired_ok ds" and "dependency_order ifs [] ds" and "names_free ifs ds (menu w)"
    and "\<forall>d\<in>set ds. length (filter (found d) (menu w (ds_path d))) \<le> 1 \<and> (\<forall>it\<in>set (menu w (ds_path d)). plain_item it)"
  obtains changes w' where "plan_changes (r_run R) (Inr ds) w = (w, Inr (changes, []))"
    "run_all_changes (r_run R) changes w = (w', Inr ())" "plan_changes (r_run R) (Inr ds) w' = (w', Inr ([], []))"
    "\<forall>path. filter (foreign ds path) (menu w' path) = filter (foreign ds path) (menu w path)"
    "\<forall>d\<in>set ds. \<exists>it\<in>set (menu w' (ds_path d)). found d it" "\<forall>c\<in>set changes. \<exists>d\<in>set ds. \<exists>x. ch_cmd c = ds_path d @ x"
proof -
  have pl: "\<forall>d\<in>set ds. \<forall>it\<in>set (menu w (ds_path d)). plain_item it" using assms(5) by blast
  obtain changes skipped where plan: "plan_changes (r_run R) (Inr ds) w = (w, Inr (changes, skipped))"
    unfolding plan_changes_def observe_eq[OF assms(1,2) pl] by simp
  obtain w' n m where run: "run_changes (r_run R) changes (w, 0, 0) = (w', n, m)"
    by (cases "run_changes (r_run R) changes (w, 0, 0)") auto
  note one = apply_one[OF assms plan run]
  then show thesis using that[of changes w'] plan run_all_when_none_fail[OF run] by simp
qed

lemma container_paths_foreign:
  assumes "desired_resources parse_net network inventory r = Inr ds"
  shows "\<forall>d\<in>set ds. ds_path d \<noteq> ''/container'' \<and> ds_path d \<noteq> ''/container/envs''"
    and "foreign ds ''/container'' = (\<lambda>_. True)" and "foreign ds ''/container/envs'' = (\<lambda>_. True)"
    and "d \<in> set ds \<Longrightarrow> \<not> starts_with ''/container/add '' (ds_path d @ x)"
    and "\<exists>d\<in>set ds. ds_path d = ''/interface/veth'' \<and> ds_identity d = (''name'', ''veth-mesh'')"
proof -
  show p: "\<forall>d\<in>set ds. ds_path d \<noteq> ''/container'' \<and> ds_path d \<noteq> ''/container/envs''"
    using assms by (auto simp: desired_resources_def Let_def split: option.splits)
  show "foreign ds ''/container'' = (\<lambda>_. True)" "foreign ds ''/container/envs'' = (\<lambda>_. True)"
    using p by (auto simp: foreign_def fun_eq_iff)
  show "d \<in> set ds \<Longrightarrow> \<not> starts_with ''/container/add '' (ds_path d @ x)"
    using assms by (auto simp: desired_resources_def Let_def starts_with_def split: option.splits)
  show "\<exists>d\<in>set ds. ds_path d = ''/interface/veth'' \<and> ds_identity d = (''name'', ''veth-mesh'')"
    using assms by (auto simp: desired_resources_def Let_def split: option.splits)
qed

section \<open>Properties of a deployment\<close>

text \<open>C30. \<open>meshctl deploy\<close> brings a router up. On a router that behaves as RouterOS documents, on which no resource is
  ambiguous and no image import is under way, where a stopped container has stopped within three seconds, an added one shows up
  within the timeout and is unpacked five seconds later, and a started one runs within the timeout, \<open>deploy_one\<close> succeeds, from any
  earlier state of the container: the network resources are converged, there is exactly one mesh container, it is the one
  configured now and it runs, its environment list holds just the router's own secret, and the other containers, environment
  entries and menu items are as they were. The router accepts a removal only of a container that does not run, an addition only when
  the old one is gone and the interface is there, and a start only of an unpacked image.\<close>

theorem deploy_runs_container:
  assumes "desired_resources parse_net network inventory r = Inr ds"
    and "{''/interface/veth'', ''/interface/bridge''} \<subseteq> set ifs" and "''/container'' \<notin> set ifs" and "''/container/envs'' \<notin> set ifs"
    and "routeros_ok ifs (r_run R) menu ds"
    and "\<forall>e\<in>set ds. length (filter (found e) (menu d (ds_path e))) \<le> 1 \<and> (\<forall>it\<in>set (menu d (ds_path e)). plain_item it)"
    and "names_free ifs ds (menu d)"
    and "router_tar r inventory = Some tar" and "path_file_name tar = Some tar_name"
    and "container_ok ifs R menu settled extracted tar tar_name opts cmd secret k" and "k < fuel" and "settled d"
    and "operator_secret op dir (rt_name r) fs = (fs', Inr secret)"
  shows "\<exists>d' it. deploy_one fuel R op inventory r (Inr ds) cmd opts dir (d, fs) = Some ((d', fs'), Inr ()) \<and>
    plan_changes (r_run R) (Inr ds) d' = (d', Inr ([], [])) \<and>
    filter mesh_container (menu d' ''/container'') = [it] \<and>
    config it = new_container tar_name opts cmd \<and> item_get it ''running'' = ''true'' \<and>
    menu d' ''/container/envs'' =
      filter (\<lambda>it. item_get it ''list'' \<noteq> ENV_LIST) (menu d ''/container/envs'') @ [secret_env secret] \<and>
    map config (filter (\<lambda>it. \<not> mesh_container it) (menu d' ''/container'')) =
      map config (filter (\<lambda>it. \<not> mesh_container it) (menu d ''/container'')) \<and>
    (\<forall>p. p \<notin> {''/container'', ''/container/envs''} \<longrightarrow> filter (foreign ds p) (menu d' p) = filter (foreign ds p) (menu d p))"
proof -
  note ok = assms(10) and far = container_paths_foreign[OF assms(1)]
  let ?envs = "''/container/envs''"
  obtain out where cap: "r_run R d '':put [/system/device-mode/get container]'' = (d, Inr out)" "trim out = ''true''"
    using container_okD(1)[OF ok] by blast
  obtain changes d1 where net: "plan_changes (r_run R) (Inr ds) d = (d, Inr (changes, []))"
      "run_all_changes (r_run R) changes d = (d1, Inr ())" "plan_changes (r_run R) (Inr ds) d1 = (d1, Inr ([], []))"
      "\<forall>path. filter (foreign ds path) (menu d1 path) = filter (foreign ds path) (menu d path)"
      "\<forall>d\<in>set ds. \<exists>it\<in>set (menu d1 (ds_path d)). found d it" "\<forall>c\<in>set changes. \<exists>d\<in>set ds. \<exists>x. ch_cmd c = ds_path d @ x"
    by (rule network_converges[OF assms(5) desired_resources_ok[OF assms(1)] desired_resources_ordered[OF assms(1,2)] assms(7,6)])
  have "\<forall>c\<in>set changes. \<not> starts_with ''/container/add '' (script_of (ch_cmd c))"
    using net(6) far(4) unfolding script_of_def by fastforce
  then have s1: "settled d1"
    using changes_settle[of settled "r_run R" changes d] container_okD(6)[OF ok] assms(12) net(2) by simp
  obtain d2 where d2: "r_upload R tar [] d1 = (d2, Inr ())" "menu d2 = menu d1" "settled d2" using container_okD(2)[OF ok, of d1] s1 by blast
  obtain d3 where d3: "run_command (r_run R) envs_remove_cmd d2 = (d3, Inr script_ok)"
      "menu d3 = (menu d2)(?envs := filter (\<lambda>it. item_get it ''list'' \<noteq> ENV_LIST) (menu d2 ?envs))"
      "d3 = fst (r_run R d2 (script_of envs_remove_cmd))"
    by (rule effect_run[OF container_okD(9)[OF ok], of d2]) simp_all
  obtain d4 where d4: "run_command (r_run R) (envs_add_cmd secret) d3 = (d4, Inr script_ok)"
      "menu d4 = (menu d3)(?envs := menu d3 ?envs @ [secret_env secret])" "d4 = fst (r_run R d3 (script_of (envs_add_cmd secret)))"
    by (rule effect_run[OF container_okD(10)[OF ok], of d3]) simp_all
  have s4: "settled d4"
    using container_okD(6)[OF ok, OF d2(3) other_commands(4)] container_okD(6)[OF ok _ other_commands(5)] unfolding d4(3) d3(3) by blast
  have same: "menu d1 ''/container'' = menu d ''/container''" "menu d1 ?envs = menu d ?envs"
    using net(4)[rule_format, of "''/container''"] net(4)[rule_format, of ?envs] by (simp_all add: far(2,3))
  have m4: "menu d4 = (menu d1)(?envs := filter (\<lambda>it. item_get it ''list'' \<noteq> ENV_LIST) (menu d ?envs) @ [secret_env secret])"
    by (simp add: d4(2) d3(2) d2(2) same fun_upd_twist)
  have veth: "interface_named ifs (menu d4) ''veth-mesh''"
    using far(5) net(5) assms(2,4) unfolding m4 interface_named_def found_def by (auto intro!: bexI[of _ "''/interface/veth''"])
  obtain d5 it where d5: "start_container fuel R tar_name cmd opts (d4, fs') = Some ((d5, fs'), Inr ())"
      "\<forall>p. p \<noteq> ''/container'' \<longrightarrow> menu d5 p = menu d4 p" "filter mesh_container (menu d5 ''/container'') = [it]"
      "config it = new_container tar_name opts cmd" "item_get it ''running'' = ''true''"
      "map config (filter (\<lambda>it. \<not> mesh_container it) (menu d5 ''/container'')) =
         map config (filter (\<lambda>it. \<not> mesh_container it) (menu d4 ''/container''))"
    by (rule start_container_runs[OF ok, OF assms(11) s4 veth assms(3), of fs']) blast
  have "deploy_one fuel R op inventory r (Inr ds) cmd opts dir (d, fs) = Some ((d5, fs'), Inr ())"
    by (simp add: deploy_one_def run_defs check_container_capable_def cap net(1,2) assms(8,9,13) d2(1) d3(1) d4(1) d5(1))
  moreover have "plan_changes (r_run R) (Inr ds) d5 = (d5, Inr ([], []))"
    by (rule plan_same[OF assms(5) _ net(3)]) (use far(1) d5(2) m4 in auto)
  moreover have "\<forall>p. p \<notin> {''/container'', ?envs} \<longrightarrow> filter (foreign ds p) (menu d5 p) = filter (foreign ds p) (menu d p)"
    using d5(2) m4 net(4) by simp
  ultimately show ?thesis using d5(2-6) m4 same by auto
qed

text \<open>A router with containers: the scripts of a deployment from a table, all others as before. Its world has the menus, the clock
  and the time at which the last container that was added shows up, a second after the command.\<close>

type_synonym bstate = "rstate \<times> nat \<times> nat"

definition sample_secret :: string where
  "sample_secret = concat (replicate 32 ''ab'')"

definition sample_opts :: DeployOpts where
  "sample_opts = \<lparr>do_dns = ''1.1.1.1'', do_root_dir = ''mjolnir'', do_timeout = 10\<rparr>"

definition tidy :: "item \<Rightarrow> bool" where
  "tidy it \<longleftrightarrow> item_get it ''running'' \<in> {[], ''true''} \<and> item_get it ''stopped'' \<in> {[], ''true''}"

definition box_settled :: "bstate \<Rightarrow> bool" where
  "box_settled w \<longleftrightarrow> snd (snd w) \<le> fst (snd w)"

definition box_extracted :: "bstate \<Rightarrow> bool" where
  "box_extracted w \<longleftrightarrow> snd (snd w) + 5000 \<le> fst (snd w)"

definition box_shows :: "bstate \<Rightarrow> item \<Rightarrow> bool" where
  "box_shows w it \<longleftrightarrow> tidy it \<and> (mesh_container it \<longrightarrow> box_settled w)"

definition box_menu :: "bstate \<Rightarrow> string \<Rightarrow> item list" where
  "box_menu w p = (if p = ''/container'' then filter (box_shows w) (fst w p) else fst w p)"

definition flagged :: "string \<Rightarrow> item list \<Rightarrow> item list" where
  "flagged flag items = map (\<lambda>it. if mesh_container it \<and> tidy it then (flag, ''true'') # config it else it) items"

definition box_scripts :: "(string \<times> (bstate \<Rightarrow> bstate \<times> string)) list" where
  "box_scripts =
     (let c = ''/container''; envs = ''/container/envs''; upd = (\<lambda>w p items. ((fst w)(p := items), snd w))
      in [('':put [/system/device-mode/get container]'', \<lambda>w. (w, ''true'' @ [CHR 0x0A])),
          (build_query_script c (Some container_find) [''running'', ''stopped''],
           \<lambda>w. (w, query_output [''running'', ''stopped''] (filter mesh_container (box_menu w c)))),
          (script_of stop_cmd, \<lambda>w. (upd w c (flagged ''stopped'' (fst w c)), script_ok)),
          (script_of remove_container_cmd, \<lambda>w.
             if \<forall>it\<in>set (box_menu w c). mesh_container it \<longrightarrow> item_get it ''running'' \<noteq> ''true''
             then (upd w c (filter (\<lambda>it. \<not> mesh_container it) (fst w c)), script_ok) else (w, ''failure'')),
          (script_of envs_remove_cmd, \<lambda>w. (upd w envs (filter (\<lambda>it. item_get it ''list'' \<noteq> ENV_LIST) (fst w envs)), script_ok)),
          (script_of (envs_add_cmd sample_secret), \<lambda>w. (upd w envs (fst w envs @ [secret_env sample_secret]), script_ok)),
          (script_of (container_add_cmd ''mesh.tar'' sample_opts ''tun-listen''), \<lambda>w.
             if filter mesh_container (box_menu w c) = [] \<and> interface_named SIM_IFS (fst w) ''veth-mesh''
             then (((fst w)(c := filter (\<lambda>it. \<not> mesh_container it) (fst w c) @
                     [(''stopped'', ''true'') # new_container ''mesh.tar'' sample_opts ''tun-listen'']),
                    fst (snd w), fst (snd w) + 1000), script_ok) else (w, ''failure'')),
          (script_of start_cmd, \<lambda>w.
             if box_extracted w then (upd w c (flagged ''running'' (fst w c)), script_ok) else (w, ''failure''))])"

definition box_ssh :: "bstate ssh" where
  "box_ssh w script =
     (case map_of box_scripts script of
        Some act \<Rightarrow> (fst (act w), Inr (snd (act w)))
      | None \<Rightarrow> (case sim_ssh sample_desired (fst w) script of (s', r) \<Rightarrow> ((s', snd w), r)))"

definition box :: "bstate Remote" where
  "box = \<lparr>r_run = box_ssh, r_upload = (\<lambda>_ _ w. (w, Inr ())), r_now = (\<lambda>w. fst (snd w)),
          r_sleep = (\<lambda>ms (s, t, a). (s, t + ms, a))\<rparr>"

lemma box_scripts_distinct: "distinct (map fst box_scripts)"
  unfolding box_scripts_def Let_def list.map fst_conv by code_simp

lemma box_scripts_apart:
  "\<forall>x\<in>set (map fst (sim_scripts sample_desired)). x \<notin> set (map fst box_scripts)"
  "\<forall>x\<in>set (map fst box_scripts). \<not> starts_with ''/ip/'' x"
  unfolding box_scripts_def Let_def list.map fst_conv by code_simp+

lemma box_table: "(script, act) \<in> set box_scripts \<Longrightarrow> box_ssh w script = (fst (act w), Inr (snd (act w)))"
  using map_of_is_SomeI[OF box_scripts_distinct] by (simp add: box_ssh_def)

lemma box_other:
  assumes "script \<notin> set (map fst box_scripts)"
  shows "box_ssh w script = ((fst (sim_ssh sample_desired (fst w) script), snd w), snd (sim_ssh sample_desired (fst w) script))"
proof -
  have "map_of box_scripts script = None" using assms by (simp add: map_of_eq_None_iff)
  then show ?thesis by (simp add: box_ssh_def split: prod.splits)
qed

lemma box_all: "list_all (\<lambda>e. box_ssh w (fst e) = (fst (snd e w), Inr (snd (snd e w)))) box_scripts"
  using box_table by (auto simp: list_all_iff)

lemmas box_container_runs =
  box_all[unfolded box_scripts_def Let_def list.pred_inject fst_conv snd_conv, THEN conjunct1]
  box_all[unfolded box_scripts_def Let_def list.pred_inject fst_conv snd_conv, THEN conjunct2, THEN conjunct1]
  box_all[unfolded box_scripts_def Let_def list.pred_inject fst_conv snd_conv, THEN conjunct2, THEN conjunct2, THEN conjunct1]
  box_all[unfolded box_scripts_def Let_def list.pred_inject fst_conv snd_conv, THEN conjunct2, THEN conjunct2, THEN conjunct2,
    THEN conjunct1]
  box_all[unfolded box_scripts_def Let_def list.pred_inject fst_conv snd_conv, THEN conjunct2, THEN conjunct2, THEN conjunct2,
    THEN conjunct2, THEN conjunct1]
  box_all[unfolded box_scripts_def Let_def list.pred_inject fst_conv snd_conv, THEN conjunct2, THEN conjunct2, THEN conjunct2,
    THEN conjunct2, THEN conjunct2, THEN conjunct1]
  box_all[unfolded box_scripts_def Let_def list.pred_inject fst_conv snd_conv, THEN conjunct2, THEN conjunct2, THEN conjunct2,
    THEN conjunct2, THEN conjunct2, THEN conjunct2, THEN conjunct1]
  box_all[unfolded box_scripts_def Let_def list.pred_inject fst_conv snd_conv, THEN conjunct2, THEN conjunct2, THEN conjunct2,
    THEN conjunct2, THEN conjunct2, THEN conjunct2, THEN conjunct2, THEN conjunct1]

lemma box_known:
  assumes "d \<in> set sample_desired"
  shows "build_query_script (ds_path d) (Some (find_expr d)) (field_keys d) \<notin> set (map fst box_scripts)"
    "build_query_script (ds_path d) (Some OWN_PREFIX_RE) [''comment''] \<notin> set (map fst box_scripts)"
    "script_of (add_cmd d) \<notin> set (map fst box_scripts)" "script_of (set_cmd d) \<notin> set (map fst box_scripts)"
proof -
  have "set (map fst (sim_scripts [d])) \<subseteq> set (map fst (sim_scripts sample_desired))"
    using assms by (auto simp: sim_scripts_def)
  then have a: "x \<notin> set (map fst box_scripts)" if "x \<in> set (map fst (sim_scripts [d]))" for x
    using box_scripts_apart(1) that by blast
  show "build_query_script (ds_path d) (Some (find_expr d)) (field_keys d) \<notin> set (map fst box_scripts)"
    "build_query_script (ds_path d) (Some OWN_PREFIX_RE) [''comment''] \<notin> set (map fst box_scripts)"
    "script_of (add_cmd d) \<notin> set (map fst box_scripts)" "script_of (set_cmd d) \<notin> set (map fst box_scripts)"
    by (rule a; simp add: sim_scripts_def Let_def)+
qed

lemma box_runs:
  assumes d: "d \<in> set sample_desired"
  shows "box_ssh w (build_query_script (ds_path d) (Some (find_expr d)) (field_keys d)) =
      (w, Inr (query_output (field_keys d) (filter (found d) (fst w (ds_path d)))))"
    and "box_ssh w (build_query_script (ds_path d) (Some OWN_PREFIX_RE) [''comment'']) =
      (w, Inr (query_output [''comment''] (filter tagged (fst w (ds_path d)))))"
    and "addable SIM_IFS d (fst w) \<Longrightarrow> box_ssh w (script_of (add_cmd d)) =
      (((fst w)(ds_path d := fst w (ds_path d) @ [ds_identity d # ds_fields d]), snd w), Inr (END_MARKER @ end_of_line))"
    and "settable SIM_IFS d (fst w) \<Longrightarrow> box_ssh w (script_of (set_cmd d)) =
      (((fst w)(ds_path d := map (\<lambda>it. if found d it then item_set (ds_fields d) it else it) (fst w (ds_path d))), snd w),
       Inr (END_MARKER @ end_of_line))"
  unfolding box_other[OF box_known(1)[OF d]] box_other[OF box_known(2)[OF d]] box_other[OF box_known(3)[OF d]]
    box_other[OF box_known(4)[OF d]] by (simp_all add: sim_runs[OF d])

lemma box_removal:
  assumes "p \<in> {''/ip/firewall/nat'', ''/ip/firewall/filter''}"
  shows "box_ssh w (script_of (remove_cmd p c)) =
    (((fst w)(p := filter (\<lambda>it. item_get it ''comment'' \<noteq> c) (fst w p)), snd w), Inr (END_MARKER @ end_of_line))"
proof -
  have "starts_with ''/ip/'' (script_of (remove_cmd p c))" using assms by (auto simp: remove_script starts_with_def)
  then have "script_of (remove_cmd p c) \<notin> set (map fst box_scripts)" using box_scripts_apart(2) by blast
  then show ?thesis using sim_removal[OF assms] by (simp add: box_other)
qed

lemma box_shows_same [simp]: "box_shows (s, snd w) = box_shows w" "box_settled (s, snd w) = box_settled w"
  by (simp_all add: box_shows_def box_settled_def fun_eq_iff)

lemma box_menu_upd:
  "p \<noteq> ''/container'' \<Longrightarrow> box_menu ((fst w)(p := x), snd w) = (box_menu w)(p := x)"
  "box_menu ((fst w)(''/container'' := xs), snd w) = (box_menu w)(''/container'' := filter (box_shows w) xs)"
  by (auto simp: box_menu_def fun_eq_iff)

lemma box_menu_other: "p \<noteq> ''/container'' \<Longrightarrow> box_menu w p = fst w p"
  by (simp add: box_menu_def)

lemma box_interfaces: "interface_named SIM_IFS (box_menu w) n = interface_named SIM_IFS (fst w) n"
  by (simp add: interface_named_def SIM_IFS_def box_menu_other)

lemma box_router_ok: "routeros_ok SIM_IFS (r_run box) box_menu sample_desired"
proof -
  have own: "ds_path d \<in> {''/ip/firewall/nat'', ''/ip/firewall/filter''}" if "d \<in> set sample_desired" "ds_comment_owned d" for d
    using that set_owned_paths[of sample_desired] unfolding sample_owned by auto
  have "list_all (\<lambda>d. ds_path d \<noteq> ''/container'') sample_desired" by code_simp
  then have p: "ds_path d \<noteq> ''/container''" if "d \<in> set sample_desired" for d using that by (auto simp: list_all_iff)
  have s: "settable SIM_IFS d (box_menu w) = settable SIM_IFS d (fst w)" for d w by (simp add: settable_def box_interfaces)
  have a: "addable SIM_IFS d (box_menu w) = addable SIM_IFS d (fst w)" if "d \<in> set sample_desired" for d w
    using p[OF that] by (simp add: addable_def s box_interfaces box_menu_other)
  show ?thesis
    unfolding routeros_ok_def answers_def effect_when_def box_def Remote.simps
    using box_removal[OF own] by (simp add: box_runs p box_menu_upd(1) box_menu_other s a)
qed

lemma config_config [simp]: "config (config it) = config it"
  by (simp add: config_def)

lemma item_get_config: "k \<notin> {''running'', ''stopped''} \<Longrightarrow> item_get (config it) k = item_get it k"
  "item_get (config it) ''running'' = []" "item_get (config it) ''stopped'' = []"
  by (induction it) (auto simp: config_def item_get_def)

lemma item_get_Cons: "item_get ((k, v) # it) f = (if k = f then v else item_get it f)"
  by (simp add: item_get_def)

lemma config_flag: "config ((''running'', v) # it) = config it"
  by (simp add: config_def)

lemma tidy_new: "tidy ((''stopped'', ''true'') # new_container tar_name opts cmd)"
  by (simp add: tidy_def new_container_def item_get_Cons) (simp add: item_get_def)

lemma flag_set:
  assumes "flag \<in> {''running'', ''stopped''}"
  shows "tidy ((flag, ''true'') # config it)" "mesh_container ((flag, ''true'') # config it) = mesh_container it"
    "config ((flag, ''true'') # config it) = config it"
proof -
  show "tidy ((flag, ''true'') # config it)" by (simp add: tidy_def item_get_Cons item_get_config)
  have "flag \<noteq> ''comment''" using assms by auto
  then show "mesh_container ((flag, ''true'') # config it) = mesh_container it"
    by (simp add: mesh_container_def item_get_Cons item_get_config)
  have "config ((flag, v) # xs) = config xs" for v xs using assms by (simp add: config_def)
  then show "config ((flag, ''true'') # config it) = config it" by simp
qed

lemma flagged_kept:
  assumes "flag \<in> {''running'', ''stopped''}"
  shows "map config (filter (box_shows w) (flagged flag xs)) = map config (filter (box_shows w) xs)"
  using flag_set[OF assms] by (induction xs) (auto simp: flagged_def box_shows_def)

lemma flagged_flags: "it \<in> set (filter (box_shows w) (flagged flag xs)) \<Longrightarrow> mesh_container it \<Longrightarrow> flag \<in> {''running'', ''stopped''} \<Longrightarrow>
    item_get it ''running'' = (if flag = ''running'' then ''true'' else [])"
  using flag_set(2)[of flag] by (auto simp: flagged_def box_shows_def item_get_Cons item_get_config split: if_splits)

lemma box_keeps_settled:
  assumes "box_settled w" and "\<not> starts_with ''/container/add '' script"
  shows "box_settled (fst (box_ssh w script))"
proof (cases "map_of box_scripts script")
  case None
  then show ?thesis using assms(1) by (simp add: box_ssh_def split: prod.splits)
next
  case (Some act)
  have n: "script \<noteq> script_of (container_add_cmd ''mesh.tar'' sample_opts ''tun-listen'')"
    using assms(2) by (auto simp: starts_with_def script_of_def container_add_cmd_def)
  have "\<forall>(x, act)\<in>set box_scripts. x = script_of (container_add_cmd ''mesh.tar'' sample_opts ''tun-listen'') \<or> snd (fst (act w)) = snd w"
    by (simp add: box_scripts_def Let_def)
  then have "snd (fst (act w)) = snd w" using map_of_SomeD[OF Some] n by blast
  then show ?thesis using assms(1) Some by (simp add: box_ssh_def box_settled_def)
qed

lemma box_add_appears:
  assumes "box_settled d" and "filter mesh_container (box_menu d ''/container'') = []" and "interface_named SIM_IFS (box_menu d) ''veth-mesh''"
  shows "\<exists>d'. r_run box d (script_of (container_add_cmd ''mesh.tar'' sample_opts ''tun-listen'')) = (d', Inr script_ok) \<and>
    appears box box_menu box_settled box_extracted (do_timeout sample_opts) 1 (new_container ''mesh.tar'' sample_opts ''tun-listen'') d d'"
proof -
  let ?new = "(''stopped'', ''true'') # new_container ''mesh.tar'' sample_opts ''tun-listen''"
  let ?items = "filter (\<lambda>it. \<not> mesh_container it) (fst d ''/container'') @ [?new]"
  let ?d = "((fst d)(''/container'' := ?items), fst (snd d), fst (snd d) + 1000)"
  have r: "r_run box d (script_of (container_add_cmd ''mesh.tar'' sample_opts ''tun-listen'')) = (?d, Inr script_ok)"
    using assms(2,3) by (simp add: box_def box_container_runs(7) box_interfaces)
  have p1: "polled box 1 ?d = ((fst d)(''/container'' := ?items), fst (snd d) + 2000, fst (snd d) + 1000)"
    and p0: "polled box 0 ?d = ?d" by (simp_all add: polled_def box_def)
  have new: "mesh_container ?new" "config ?new = new_container ''mesh.tar'' sample_opts ''tun-listen''"
    by (simp_all add: mesh_container_def config_def new_container_def item_get_def)
  have old: "filter (box_shows d) (fst d ''/container'') = filter tidy (filter (\<lambda>it. \<not> mesh_container it) (fst d ''/container''))"
    using assms(1,2) by (auto simp: box_menu_def box_shows_def filter_empty_conv intro: filter_cong)
  have "appears box box_menu box_settled box_extracted (do_timeout sample_opts) 1 (new_container ''mesh.tar'' sample_opts ''tun-listen'') d ?d"
    unfolding appears_def
  proof (intro exI[of _ "1 :: nat"] conjI allI impI)
    fix i :: nat assume "i < 1"
    then have i: "polled box i ?d = ?d" using p0 by simp
    show "r_now box (polled box i ?d) < r_now box ?d + do_timeout sample_opts" unfolding i by (simp add: box_def sample_opts_def)
    show "filter mesh_container (box_menu (polled box i ?d) ''/container'') = []"
      unfolding i by (simp add: box_menu_def box_shows_def box_settled_def filter_empty_conv)
  next
    fix p assume "p \<noteq> ''/container''"
    then show "box_menu (polled box 1 ?d) p = box_menu d p" unfolding p1 by (simp add: box_menu_other)
  next
    show "map config (box_menu (polled box 1 ?d) ''/container'') = map config (box_menu d ''/container'') @ [new_container ''mesh.tar'' sample_opts ''tun-listen'']"
      unfolding p1 using old new tidy_new[of "''mesh.tar''" sample_opts "''tun-listen''"]
      by (simp add: box_menu_def box_shows_def box_settled_def)
    show "box_settled (polled box 1 ?d)" unfolding p1 by (simp add: box_settled_def)
    show "box_extracted (r_sleep box 5000 (polled box 1 ?d))" unfolding p1 by (simp add: box_extracted_def box_def)
  qed simp
  then show ?thesis using r by blast
qed

lemma box_container_ok:
  "container_ok SIM_IFS box box_menu box_settled box_extracted ''build/mesh.tar'' ''mesh.tar'' sample_opts ''tun-listen'' sample_secret 1"
proof -
  have t: "trim (''true'' @ [CHR 0x0A]) = ''true''" by (rule trim_line) (simp_all add: byte_def)
  have pl: "tidy it \<Longrightarrow> plain (item_get it ''running'') \<and> plain (item_get it ''stopped'')" for it
    by (auto simp: tidy_def plain_def byte_def)
  have c: "filter (box_shows w) (filter (\<lambda>it. \<not> mesh_container it) xs) = filter (\<lambda>it. \<not> mesh_container it) (filter (box_shows w) xs)" for w xs
    by (simp add: conj_commute)
  show ?thesis
    unfolding container_ok_def
  proof (intro conjI)
    show "\<forall>d. \<exists>out. r_run box d '':put [/system/device-mode/get container]'' = (d, Inr out) \<and> trim out = ''true''"
      using t by (auto simp: box_def box_container_runs(1))
    show "\<forall>d. \<exists>d'. r_upload box ''build/mesh.tar'' [] d = (d', Inr ()) \<and> box_menu d' = box_menu d \<and> (box_settled d \<longrightarrow> box_settled d')"
      by (simp add: box_def)
    show "answers (r_run box) box_menu ''/container'' container_find [''running'', ''stopped''] mesh_container"
      by (simp add: answers_def box_def box_container_runs(2))
    show "\<forall>d. \<forall>it\<in>set (box_menu d ''/container''). plain (item_get it ''running'') \<and> plain (item_get it ''stopped'')"
      using pl by (auto simp: box_menu_def box_shows_def)
    show "\<forall>ms d. box_settled d \<longrightarrow> box_settled (r_sleep box ms d) \<and> keeps_config box_menu d (r_sleep box ms d)"
      by (auto simp: keeps_config_def box_def box_menu_def box_settled_def box_shows_def fun_eq_iff intro!: arg_cong[where f = "map config"] filter_cong)
    show "\<forall>d script. box_settled d \<and> \<not> starts_with ''/container/add '' script \<longrightarrow> box_settled (fst (r_run box d script))"
      using box_keeps_settled by (simp add: box_def)
    show "\<forall>d. box_settled d \<longrightarrow> (\<exists>d1 res. r_run box d (script_of stop_cmd) = (d1, res) \<and> keeps_config box_menu d d1 \<and>
        (\<forall>it\<in>set (box_menu (r_sleep box 3000 d1) ''/container''). mesh_container it \<longrightarrow> item_get it ''running'' \<noteq> ''true''))"
    proof (intro allI impI)
      fix d assume "box_settled d"
      let ?d = "((fst d)(''/container'' := flagged ''stopped'' (fst d ''/container'')), snd d)"
      have "r_run box d (script_of stop_cmd) = (?d, Inr script_ok)" by (simp add: box_def box_container_runs(3))
      moreover have "keeps_config box_menu d ?d" unfolding keeps_config_def box_menu_upd(2) by (simp add: flagged_kept) (simp add: box_menu_def)
      moreover have "\<forall>it\<in>set (box_menu (r_sleep box 3000 ?d) ''/container''). mesh_container it \<longrightarrow> item_get it ''running'' \<noteq> ''true''"
        using flagged_flags[of _ _ "''stopped''"] by (auto simp: box_def box_menu_def split: prod.splits)
      ultimately show "\<exists>d1 res. r_run box d (script_of stop_cmd) = (d1, res) \<and> keeps_config box_menu d d1 \<and>
        (\<forall>it\<in>set (box_menu (r_sleep box 3000 d1) ''/container''). mesh_container it \<longrightarrow> item_get it ''running'' \<noteq> ''true'')" by blast
    qed
    show "effect_when (\<lambda>m. \<forall>it\<in>set (m ''/container''). mesh_container it \<longrightarrow> item_get it ''running'' \<noteq> ''true'') (r_run box) box_menu
       remove_container_cmd ''/container'' (filter (\<lambda>it. \<not> mesh_container it))"
      by (auto simp: effect_when_def box_def box_container_runs(4) box_menu_upd(2) simp del: filter_filter simp flip: script_ok_def)
        (simp add: c box_menu_def del: filter_filter)
    show "effect (r_run box) box_menu envs_remove_cmd ''/container/envs'' (filter (\<lambda>it. item_get it ''list'' \<noteq> ENV_LIST))"
      "effect (r_run box) box_menu (envs_add_cmd sample_secret) ''/container/envs'' (\<lambda>items. items @ [secret_env sample_secret])"
      by (simp_all add: effect_when_def box_def box_container_runs(5,6) box_menu_upd(1) box_menu_other flip: script_ok_def)
    show "\<forall>d. box_settled d \<and> filter mesh_container (box_menu d ''/container'') = [] \<and> interface_named SIM_IFS (box_menu d) ''veth-mesh'' \<longrightarrow>
        (\<exists>d'. r_run box d (script_of (container_add_cmd ''mesh.tar'' sample_opts ''tun-listen'')) = (d', Inr script_ok) \<and>
           appears box box_menu box_settled box_extracted (do_timeout sample_opts) 1 (new_container ''mesh.tar'' sample_opts ''tun-listen'') d d')"
      using box_add_appears by blast
    show "\<forall>d. box_settled d \<and> box_extracted d \<longrightarrow> (\<exists>d'. r_run box d (script_of start_cmd) = (d', Inr script_ok) \<and> keeps_config box_menu d d' \<and>
        comes_up box box_menu (do_timeout sample_opts) 1 d')"
    proof (intro allI impI)
      fix d assume "box_settled d \<and> box_extracted d"
      let ?d = "((fst d)(''/container'' := flagged ''running'' (fst d ''/container'')), snd d)"
      have "r_run box d (script_of start_cmd) = (?d, Inr script_ok)"
        using \<open>box_settled d \<and> box_extracted d\<close> by (simp add: box_def box_container_runs(8))
      moreover have "keeps_config box_menu d ?d" unfolding keeps_config_def box_menu_upd(2) by (simp add: flagged_kept) (simp add: box_menu_def)
      moreover have "comes_up box box_menu (do_timeout sample_opts) 1 ?d"
        unfolding comes_up_def using flagged_flags[of _ _ "''running''"]
        by (intro exI[of _ "0 :: nat"]) (auto simp: polled_def box_menu_def)
      ultimately show "\<exists>d'. r_run box d (script_of start_cmd) = (d', Inr script_ok) \<and> keeps_config box_menu d d' \<and>
        comes_up box box_menu (do_timeout sample_opts) 1 d'" by blast
    qed
  qed
qed

text \<open>Witness of C30: the sample router with a stopped container of an older deployment and a container
  of its owner's.\<close>

definition old_state :: rstate where
  "old_state = sample_state(''/container'' :=
     [[(''comment'', ''adguard''), (''running'', ''true'')], [(''comment'', ''mjolnir-meshd''), (''cmd'', ''tun-connect old''), (''stopped'', ''true'')]])"

definition sample_operator :: Operator where
  "sample_operator =
     \<lparr>op_env = sample_env, op_utf8 = (\<lambda>_. True), op_urandom = Inr (replicate 32 0xAB), op_verifying_key = (\<lambda>seed. seed)\<rparr>"

definition tar_inventory :: Inventory where
  "tar_inventory = sample_inventory\<lparr>default_tar := Some ''build/mesh.tar''\<rparr>"

theorem deploy_runs_container_witness:
  "\<exists>d' fs' it. deploy_one 2 box sample_operator tar_inventory (hd (routers tar_inventory)) (Inr sample_desired) ''tun-listen''
       sample_opts [''secrets''] ((old_state, 0, 0), Map.empty) = Some ((d', fs'), Inr ()) \<and>
     filter mesh_container (box_menu d' ''/container'') = [it] \<and> item_get it ''running'' = ''true'' \<and>
     config it = new_container ''mesh.tar'' sample_opts ''tun-listen'' \<and>
     box_menu d' ''/container/envs'' = [secret_env sample_secret]"
proof -
  let ?r = "hd (routers tar_inventory)"
  have ifs: "{''/interface/veth'', ''/interface/bridge''} \<subseteq> set SIM_IFS" "''/container'' \<notin> set SIM_IFS" "''/container/envs'' \<notin> set SIM_IFS"
    by (simp_all add: SIM_IFS_def)
  have free: "names_free SIM_IFS sample_desired (box_menu (old_state, 0, 0))"
    using sample_names_free by (simp add: names_free_def SIM_IFS_def box_menu_other old_state_def)
  have st: "box_settled (old_state, 0, 0)" by (simp add: box_settled_def)
  have "?r = hd (routers sample_inventory)" "router_subnet ?r tar_inventory = router_subnet (hd (routers sample_inventory)) sample_inventory"
    by (simp_all add: router_subnet_def tar_inventory_def sample_inventory_def)
  then have "desired_resources sample_parse net_addr tar_inventory ?r = Inr sample_desired"
    using sample_desired_eq(2) unfolding desired_resources_def by (simp only:)
  moreover have "\<forall>e\<in>set sample_desired. length (filter (found e) (box_menu (old_state, 0, 0) (ds_path e))) \<le> 1 \<and>
      (\<forall>it\<in>set (box_menu (old_state, 0, 0) (ds_path e)). plain_item it)"
  proof -
    have "list_all (\<lambda>d. ds_path d \<noteq> ''/container'') sample_desired" by code_simp
    then show ?thesis using sample_state_ok by (auto simp: list_all_iff box_menu_other old_state_def)
  qed
  moreover have "router_tar ?r tar_inventory = Some ''build/mesh.tar''"
    by (simp add: router_tar_def tar_inventory_def sample_inventory_def)
  moreover have "path_file_name ''build/mesh.tar'' = Some ''mesh.tar''" by code_simp
  moreover obtain fs' where "operator_secret sample_operator [''secrets''] (rt_name ?r) Map.empty = (fs', Inr sample_secret)"
  proof -
    have "concat (map hex_byte (replicate 32 0xAB)) = sample_secret" unfolding sample_secret_def by code_simp
    then show thesis
      using that by (simp add: operator_secret_def sample_operator_def ensure_secret_def fs_write_def sample_env_def Let_def)
  qed
  moreover have "filter (\<lambda>it. item_get it ''list'' \<noteq> ENV_LIST) (box_menu (old_state, 0, 0) ''/container/envs'') = []"
    by (simp add: box_menu_def old_state_def sample_state_def)
  ultimately show ?thesis
    using deploy_runs_container[OF _ ifs box_router_ok _ free _ _ box_container_ok _ st, where fuel = 2] by fastforce
qed

section \<open>A deployment ends\<close>

text \<open>Time passes while sleeping and never runs backwards.\<close>

definition clock_ok :: "'d Remote \<Rightarrow> bool" where
  "clock_ok R \<longleftrightarrow> (\<forall>ms d. r_now R d + ms \<le> r_now R (r_sleep R ms d)) \<and> (\<forall>d script. r_now R d \<le> r_now R (fst (r_run R d script)))"

lemma clock_okD:
  assumes "clock_ok R"
  shows "r_now R d + ms \<le> r_now R (r_sleep R ms d)" "r_run R d script = (d', res) \<Longrightarrow> r_now R d \<le> r_now R d'"
  using assms unfolding clock_ok_def by (blast, metis fst_conv)

text \<open>A polling loop: it looks at the router with one script and goes on only when the deadline is not reached, after a
  pause. One unit of fuel for every pause until the deadline, and one for the last look, are enough.\<close>

locale polling_loop =
  fixes loop :: "nat \<Rightarrow> 'd Remote \<Rightarrow> nat \<Rightarrow> 'd \<Rightarrow> 'r option" and script :: string and pause :: nat
  assumes still_polling: "loop (Suc fuel) R deadline d = None \<Longrightarrow>
    r_now R (fst (r_run R d script)) < deadline \<and> loop fuel R deadline (r_sleep R pause (fst (r_run R d script))) = None"
begin

lemma ends:
  assumes "clock_ok R"
  shows "deadline \<le> r_now R d + n * pause \<Longrightarrow> n < fuel \<Longrightarrow> loop fuel R deadline d \<noteq> None"
proof (induction n arbitrary: d fuel)
  case 0
  then obtain f where "fuel = Suc f" by (cases fuel) auto
  moreover have "r_now R d \<le> r_now R (fst (r_run R d script))" by (rule clock_okD(2)[OF assms prod.collapse[symmetric]])
  ultimately show ?case using still_polling[of f R deadline d] 0 by auto
next
  case (Suc n)
  then obtain f where f: "fuel = Suc f" "n < f" by (cases fuel) auto
  let ?d = "fst (r_run R d script)"
  have "r_now R d \<le> r_now R ?d" by (rule clock_okD(2)[OF assms prod.collapse[symmetric]])
  then have "deadline \<le> r_now R (r_sleep R pause ?d) + n * pause"
    using Suc.prems(1) clock_okD(1)[OF assms, of ?d pause] by simp
  then have "loop f R deadline (r_sleep R pause ?d) \<noteq> None" using Suc.IH f(2) by blast
  then show ?case using still_polling[of f R deadline d] by (auto simp: f simp del: not_None_eq)
qed

lemma ends_within:
  assumes "clock_ok R" and "timeout \<le> n * pause" and "n < fuel"
  shows "loop fuel R (r_now R d + timeout) d \<noteq> None"
  by (rule ends[OF assms(1) _ assms(3)]) (use assms(2) in simp)

end

definition STATE_SCRIPT :: string where
  "STATE_SCRIPT = build_query_script ''/container'' (Some container_find) [''running'', ''stopped'']"

lemma container_state_world: "container_state R d = (d', res) \<Longrightarrow> d' = fst (r_run R d STATE_SCRIPT)"
  by (auto simp: container_state_def query_def STATE_SCRIPT_def split: prod.splits sum.splits)

interpretation present: polling_loop wait_present STATE_SCRIPT 2000
proof
  fix fuel R deadline d assume "wait_present (Suc fuel) R deadline d = None"
  then show "r_now R (fst (r_run R d STATE_SCRIPT)) < deadline \<and> wait_present fuel R deadline (r_sleep R 2000 (fst (r_run R d STATE_SCRIPT))) = None"
    by (auto dest: container_state_world split: prod.splits sum.splits option.splits if_splits)
qed

interpretation reached: polling_loop "\<lambda>fuel R. wait_for_state fuel R wanted" STATE_SCRIPT 2000 for wanted
proof
  fix fuel R deadline d assume "wait_for_state (Suc fuel) R wanted deadline d = None"
  then show "r_now R (fst (r_run R d STATE_SCRIPT)) < deadline \<and>
      wait_for_state fuel R wanted deadline (r_sleep R 2000 (fst (r_run R d STATE_SCRIPT))) = None"
    by (auto dest: container_state_world split: prod.splits sum.splits option.splits if_splits)
qed

interpretation blob: polling_loop "\<lambda>fuel R. read_blob_for_id fuel R expected_id" LOG_SCRIPT 3000 for expected_id
proof
  fix fuel R deadline d assume "read_blob_for_id (Suc fuel) R expected_id deadline d = None"
  then show "r_now R (fst (r_run R d LOG_SCRIPT)) < deadline \<and>
      read_blob_for_id fuel R expected_id deadline (r_sleep R 3000 (fst (r_run R d LOG_SCRIPT))) = None"
    by (auto split: prod.splits sum.splits option.splits if_splits)
qed

interpretation reachability: polling_loop report_reachability LOG_SCRIPT 3000
proof
  fix fuel R deadline d assume "report_reachability (Suc fuel) R deadline d = None"
  then show "r_now R (fst (r_run R d LOG_SCRIPT)) < deadline \<and>
      report_reachability fuel R deadline (r_sleep R 3000 (fst (r_run R d LOG_SCRIPT))) = None"
    by (auto split: prod.splits sum.splits if_splits)
qed

text \<open>A run that always returns, composed of runs that do.\<close>

definition returns :: "('d, 'a) run \<Rightarrow> bool" where
  "returns m \<longleftrightarrow> (\<forall>s. m s \<noteq> None)"

named_theorems returning

lemma returns_then [returning]: "returns m \<Longrightarrow> (\<And>x. returns (f x)) \<Longrightarrow> returns (then_run m f)"
  by (auto simp: returns_def then_run_def split: option.splits sum.splits)

lemma returns_basic [returning]:
  "returns (give r)" "returns (on_router g)" "returns (on_files h)" "returns (pausing R ms)"
  by (auto simp: returns_def give_def on_router_def on_files_def pausing_def split: prod.splits)

lemma returns_wrapped [returning]: "returns m \<Longrightarrow> returns (in_context ctx m)" "returns m \<Longrightarrow> returns (ignoring m)"
  by (auto simp: returns_def in_context_def ignoring_def split: option.splits sum.splits)

lemma returns_polling [returning]: "(\<And>d. f d \<noteq> None) \<Longrightarrow> returns (polling f)"
  by (auto simp: returns_def polling_def)

lemma deploy_one_returns:
  assumes "clock_ok R" and "do_timeout opts \<le> n * 2000" and "n < fuel"
  shows "returns (deploy_one fuel R op inventory r desired cmd opts secrets_dir)"
  unfolding deploy_one_def start_container_def
  by (auto intro!: returning present.ends_within[OF assms] reached.ends_within[OF assms] split: option.splits prod.splits)

lemma after_deploy_returns:
  assumes "clock_ok R" and "do_timeout opts \<le> n * 2000" and "30000 \<le> n * 2000" and "n < fuel"
  shows "returns (after_deploy fuel R op secrets_dir opts r)"
proof -
  have "do_timeout opts \<le> n * 3000" "30000 \<le> n * 3000" using assms(2,3) by linarith+
  note ends = reachability.ends_within[OF assms(1) this(1) assms(4)] blob.ends_within[OF assms(1) this(2) assms(4)]
  show ?thesis unfolding after_deploy_def by (auto intro!: returning ends split: if_splits)
qed

lemma command_for_returns:
  assumes "\<forall>target. clock_ok (connect target)" and "30000 \<le> n * 2000" and "n < fuel"
  shows "returns (command_for fuel connect op inventory secrets_dir r)"
proof -
  have "30000 \<le> n * 3000" using assms(2) by linarith
  note ends = blob.ends_within[OF spec[OF assms(1)] this assms(3)]
  show ?thesis unfolding command_for_def resolve_peer_blob_def Let_def
    by (auto intro!: returning ends split: Role.splits option.splits)
qed

lemma deploy_routers_returns:
  assumes "\<forall>target. clock_ok (connect target)" and "do_timeout opts \<le> n * 2000" and "30000 \<le> n * 2000" and "n < fuel"
  shows "deploy_routers fuel connect op desired inventory opts secrets_dir rs failures s \<noteq> None"
proof (induction rs arbitrary: failures s)
  case (Cons r rs)
  let ?R = "connect (ssh_target r inventory)"
  have "command_for fuel connect op inventory secrets_dir r t \<noteq> None" "deploy_one fuel ?R op inventory r (desired r) cmd opts secrets_dir t \<noteq> None"
    "after_deploy fuel ?R op secrets_dir opts r t \<noteq> None" for cmd t
    using command_for_returns[OF assms(1,3,4)] deploy_one_returns[OF spec[OF assms(1)] assms(2,4)]
      after_deploy_returns[OF spec[OF assms(1)] assms(2-4)]
    unfolding returns_def by blast+
  then show ?case using Cons by (auto simp: Let_def simp del: not_None_eq split: option.splits sum.splits)
qed simp

text \<open>C40. \<open>meshctl deploy\<close> ends: whatever the routers answer, every poll is bounded by its deadline, so with fuel for the
  46 looks of the longest wait (90 s at 2 s) the command returns.\<close>

theorem deploy_ends:
  assumes "\<forall>target. clock_ok (connect target)" and "45 < fuel"
  shows "\<exists>s' res. cmd_deploy fuel connect op desired inventory inv_path name all dns root_dir s = Some (s', res)"
proof -
  let ?opts = "default_opts\<lparr>do_dns := (case dns of Some d \<Rightarrow> d | None \<Rightarrow> do_dns default_opts),
                  do_root_dir := (case root_dir of Some rd \<Rightarrow> rd | None \<Rightarrow> do_root_dir default_opts)\<rparr>"
  have "do_timeout ?opts \<le> 45 * 2000" by (simp add: default_opts_def)
  then have ends: "deploy_routers fuel connect op desired inventory ?opts dir rs 0 s \<noteq> None" for dir rs
    using deploy_routers_returns[OF assms(1) _ _ assms(2)] by simp
  have "cmd_deploy fuel connect op desired inventory inv_path name all dns root_dir s \<noteq> None"
    unfolding cmd_deploy_def Let_def using ends
    by (cases "select_routers inventory name all") (auto simp del: not_None_eq split: option.split)
  then show ?thesis by auto
qed

text \<open>Witness of C40: the deployment of the sample router.\<close>

lemma box_clock: "clock_ok box"
proof -
  have "\<forall>(x, act)\<in>set box_scripts. fst (snd (fst (act w))) = fst (snd w)" for w by (simp add: box_scripts_def Let_def)
  then have "fst (snd (fst (act w))) = fst (snd w)" if "map_of box_scripts script = Some act" for w script act
    using map_of_SomeD[OF that] by blast
  then have "fst (snd (fst (box_ssh w script))) = fst (snd w)" for w script
    by (simp add: box_ssh_def split: prod.splits option.split)
  then show ?thesis by (simp add: clock_ok_def box_def split: prod.splits)
qed

theorem deploy_ends_witness:
  "\<exists>s' res. cmd_deploy 46 (\<lambda>_. box) sample_operator (\<lambda>_. Inr sample_desired) tar_inventory [''routers.toml''] (Some ''r1'') False
     None None ((old_state, 0, 0), Map.empty) = Some (s', res)"
  by (rule deploy_ends) (simp_all add: box_clock)

section \<open>Whose address a connector dials\<close>

definition id_of_line :: "string \<Rightarrow> string option" where
  "id_of_line l = map_option trim (after_str ''node id:'' l)"

definition address_of_line :: "string \<Rightarrow> string option" where
  "address_of_line l = (if id_of_line l = None then map_option trim (after_str ''address:'' l) else None)"

definition last_some :: "string option list \<Rightarrow> string option" where
  "last_some xs = (case filter (\<lambda>x. x \<noteq> None) (rev xs) of [] \<Rightarrow> None | x # _ \<Rightarrow> x)"

lemma last_some_snoc: "last_some (xs @ [x]) = (if x = None then last_some xs else x)"
  by (simp add: last_some_def)

lemma scan_lines:
  "foldl (scan_line expected) (None, None) ls = (last_some (map id_of_line ls), blob) \<and>
   (\<forall>b. blob = Some b \<longrightarrow>
      (\<exists>before a after. ls = before @ a # after \<and> last_some (map id_of_line before) = Some expected \<and> address_of_line a = Some b))"
  if "blob = snd (foldl (scan_line expected) (None, None) ls)" for blob
  using that
proof (induction ls arbitrary: blob rule: rev_induct)
  case (snoc l ls)
  let ?before = "foldl (scan_line expected) (None, None) ls"
  have ih: "?before = (last_some (map id_of_line ls), snd ?before)"
    "\<And>b. snd ?before = Some b \<Longrightarrow>
      \<exists>before a after. ls = before @ a # after \<and> last_some (map id_of_line before) = Some expected \<and> address_of_line a = Some b"
    using snoc.IH[of "snd ?before"] by auto
  have old: "\<exists>before a after. ls @ [l] = before @ a # after \<and> last_some (map id_of_line before) = Some expected \<and> address_of_line a = Some b"
    if "snd ?before = Some b" for b using ih(2)[OF that] by fastforce
  have step: "foldl (scan_line expected) (None, None) (ls @ [l]) = scan_line expected (last_some (map id_of_line ls), snd ?before) l"
    using ih(1) by simp
  show ?case
  proof (cases "id_of_line l")
    case (Some i)
    then have "scan_line expected (last_some (map id_of_line ls), snd ?before) l = (Some i, snd ?before)"
      by (auto simp: scan_line_def id_of_line_def)
    then show ?thesis using Some old snoc.prems unfolding step by (auto simp: last_some_snoc)
  next
    case None
    then have n: "after_str ''node id:'' l = None" by (simp add: id_of_line_def)
    show ?thesis
    proof (cases "address_of_line l")
      case (Some b)
      then obtain rest where r: "after_str ''address:'' l = Some rest" "b = trim rest" using None by (auto simp: address_of_line_def)
      then have "scan_line expected (last_some (map id_of_line ls), snd ?before) l =
          (last_some (map id_of_line ls), if last_some (map id_of_line ls) = Some expected then Some b else snd ?before)"
        by (simp add: scan_line_def n)
      then show ?thesis using None Some old snoc.prems unfolding step by (auto simp: last_some_snoc split: if_splits)
    next
      case no: None
      then have "scan_line expected (last_some (map id_of_line ls), snd ?before) l = (last_some (map id_of_line ls), snd ?before)"
        using None by (simp add: scan_line_def n address_of_line_def)
      then show ?thesis using None old snoc.prems unfolding step by (auto simp: last_some_snoc)
    qed
  qed
qed (simp add: last_some_def)

text \<open>An address read from the cumulative log was printed by the node asked for: the last identity printed before it is that
  node's, so an address left over from another run is never taken.\<close>

theorem scan_log_pairs:
  assumes "scan_log expected out = Some b"
  shows "\<exists>before a after. lines out = before @ a # after \<and> last_some (map id_of_line before) = Some expected \<and> address_of_line a = Some b"
  using scan_lines[OF refl, of expected "lines out"] assms by (auto simp: scan_log_def)

end
