(* ===== verification/Bootstrap.thy ===== *)
theory Bootstrap
  imports Liveness Lanes Rust_Strings "HOL-Library.Product_Lexorder"
begin

text \<open>
  How a node finds peers: the peer roster (\<open>roster.rs\<close>), the ranking of bootstrap candidates
  (\<open>bootstrap.rs\<close>), and in \<open>bin/mjolnir-meshd.rs\<close> the merge of roster and command line, the choice of
  the side that dials, the rejoin loop of the gossip swarm and the redial loop of a tunnel.

  Parameters: the parser of a peer token (the id of an endpoint, as text) and the reader of the roster
  file. Durations are in seconds.
\<close>

section \<open>The roster\<close>

record PeerEntry =
  pe_token :: string
  pe_label :: "string option"

datatype RosterError =
    RosterIo string
  | InvalidToken nat string

text \<open>\<open>trimmed.splitn(2, is_ascii_whitespace)\<close>: the token, and what follows the first blank.\<close>

definition split_token :: "string \<Rightarrow> string \<times> string option" where
  "split_token s =
     (case dropWhile (\<lambda>c. \<not> is_ascii_whitespace c) s of
        [] \<Rightarrow> (s, None)
      | _ # rest \<Rightarrow> (takeWhile (\<lambda>c. \<not> is_ascii_whitespace c) s, Some rest))"

fun load_lines :: "nat \<Rightarrow> string list \<Rightarrow> PeerEntry list \<Rightarrow> string list \<Rightarrow> RosterError + PeerEntry list" where
  "load_lines line_no seen_tokens acc [] = Inr acc"
| "load_lines line_no seen_tokens acc (raw_line # rest) =
     (let trimmed = trim raw_line
      in if trimmed = [] \<or> starts_with ''#'' trimmed then load_lines (line_no + 1) seen_tokens acc rest
         else
           (case split_token trimmed of
              (token, tail) \<Rightarrow>
                (let label = (case tail of
                                None \<Rightarrow> None
                              | Some t \<Rightarrow> if trim t = [] then None else Some (trim t))
                 in if token = [] then Inl (InvalidToken line_no token)
                    else if List.member seen_tokens token then load_lines (line_no + 1) seen_tokens acc rest
                    else load_lines (line_no + 1) (token # seen_tokens)
                           (acc @ [\<lparr>pe_token = token, pe_label = label\<rparr>]) rest)))"

definition load_from_str :: "string \<Rightarrow> RosterError + PeerEntry list" where
  "load_from_str contents = load_lines 1 [] [] (lines contents)"

definition roster_load :: "string + string \<Rightarrow> RosterError + PeerEntry list" where
  "roster_load file = (case file of Inl e \<Rightarrow> Inl (RosterIo e) | Inr contents \<Rightarrow> load_from_str contents)"

text \<open>The peer set: the roster, then the command line, the first entry of a token wins. The first loop keeps
  the tokens seen, the second goes on from there.\<close>

fun add_entries :: "string list \<times> PeerEntry list \<Rightarrow> PeerEntry list \<Rightarrow> string list \<times> PeerEntry list" where
  "add_entries (seen_tokens, acc) [] = (seen_tokens, acc)"
| "add_entries (seen_tokens, acc) (e # es) =
     (if List.member seen_tokens (pe_token e) then add_entries (seen_tokens, acc) es
      else add_entries (pe_token e # seen_tokens, acc @ [e]) es)"

definition peer_set :: "(string + string) option \<Rightarrow> string list \<Rightarrow> RosterError + PeerEntry list" where
  "peer_set roster_file peer_args =
     (let args = map (\<lambda>token. \<lparr>pe_token = token, pe_label = None\<rparr>) peer_args
      in case roster_file of
           None \<Rightarrow> Inr (snd (add_entries ([], []) args))
         | Some file \<Rightarrow>
             (case roster_load file of
                Inl e \<Rightarrow> Inl e
              | Inr peers \<Rightarrow> Inr (snd (add_entries (add_entries ([], []) peers) args))))"

definition bootstrap_ids :: "(string \<Rightarrow> string option) \<Rightarrow> string \<Rightarrow> PeerEntry list \<Rightarrow> string list" where
  "bootstrap_ids parse_peer self_id entries =
     filter (\<lambda>i. i \<noteq> self_id) (List.map_filter (\<lambda>e. parse_peer (pe_token e)) entries)"

text \<open>Of two nodes the one with the lower id dials.\<close>

definition dialed_peers :: "(string \<Rightarrow> string option) \<Rightarrow> string \<Rightarrow> PeerEntry list \<Rightarrow> string list" where
  "dialed_peers parse_peer self_id entries =
     filter (\<lambda>peer. peer \<noteq> self_id \<and> self_id < peer) (List.map_filter (\<lambda>e. parse_peer (pe_token e)) entries)"

section \<open>Ranking\<close>

text \<open>Most recent first, then by id.\<close>

definition by_recency :: "(string \<times> u64) list \<Rightarrow> (string \<times> u64) list" where
  "by_recency = sort_key (\<lambda>(i, t). (- uint t, i))"

definition recently_seen :: "AddrBook \<Rightarrow> LivenessTracker \<Rightarrow> u64 \<Rightarrow> (string \<times> u64) list" where
  "recently_seen bk liveness now_ms =
     by_recency (List.map_filter
       (\<lambda>(i, _). if is_hard_expired liveness i now_ms then None
                 else map_option (Pair i) (last_seen_ms liveness i)) bk)"

definition disk_known :: "AddrBook \<Rightarrow> LivenessTracker \<Rightarrow> u64 \<Rightarrow> (string \<times> u64) list" where
  "disk_known bk liveness now_ms =
     by_recency (List.map_filter
       (\<lambda>(i, entry). if is_hard_expired liveness i now_ms then None
                     else (case last_seen_ms liveness i of
                             Some _ \<Rightarrow> None
                           | None \<Rightarrow> Some (i, wall_clock (pa_announced_at entry)))) bk)"

definition ranked_claim_owners :: "string list \<Rightarrow> LivenessTracker \<Rightarrow> u64 \<Rightarrow> (string \<times> u64) list" where
  "ranked_claim_owners owners liveness now_ms =
     by_recency (map (\<lambda>i. (i, case last_seen_ms liveness i of Some t \<Rightarrow> t | None \<Rightarrow> 0))
       (filter (\<lambda>i. \<not> is_hard_expired liveness i now_ms) owners))"

fun pick_distinct :: "string \<Rightarrow> nat \<Rightarrow> string list \<Rightarrow> string list \<Rightarrow> string list" where
  "pick_distinct self_id cap ordered [] = ordered"
| "pick_distinct self_id cap ordered (i # rest) =
     (if i = self_id \<or> List.member ordered i then pick_distinct self_id cap ordered rest
      else
        (let ordered' = ordered @ [i]
         in if cap \<le> length ordered' then ordered' else pick_distinct self_id cap ordered' rest))"

definition rank_bootstrap_candidates ::
  "string list \<Rightarrow> AddrBook \<Rightarrow> string list \<Rightarrow> LivenessTracker \<Rightarrow> string \<Rightarrow> u64 \<Rightarrow> nat \<Rightarrow> string list" where
  "rank_bootstrap_candidates roster bk claim_owner_ids liveness self_id now_ms cap =
     (if cap = 0 then []
      else pick_distinct self_id cap []
             (roster @ map fst (recently_seen bk liveness now_ms) @ map fst (disk_known bk liveness now_ms) @
              map fst (ranked_claim_owners claim_owner_ids liveness now_ms)))"

section \<open>Rejoining\<close>

definition BOOTSTRAP_CANDIDATE_CAP :: nat where
  "BOOTSTRAP_CANDIDATE_CAP = 16"

text \<open>What the rejoin loop sees at the top of a round: the neighbours, and when there are none, the books.\<close>

record RejoinInput =
  ri_neighbors :: nat
  ri_addr_book :: AddrBook
  ri_claims :: ClaimStore
  ri_liveness :: LivenessTracker
  ri_now :: u64

datatype RejoinEvent =
    WaitChange               \<comment> \<open>joined: wait for the neighbour count to change\<close>
  | JoinPeers "string list"
  | SleepFor nat

definition rejoin_round ::
  "(string \<Rightarrow> string option) \<Rightarrow> string list \<Rightarrow> string \<Rightarrow> RejoinInput \<Rightarrow> nat \<Rightarrow> nat \<times> RejoinEvent list" where
  "rejoin_round parse_id roster_ids self_id inp backoff =
     (if 0 < ri_neighbors inp then (5, [WaitChange])
      else
        (let candidate_ids = rank_bootstrap_candidates roster_ids (ri_addr_book inp)
               (map (\<lambda>(_, c). sc_owner_node_id c) (ri_claims inp)) (ri_liveness inp) self_id (ri_now inp)
               BOOTSTRAP_CANDIDATE_CAP;
             peers = List.map_filter parse_id candidate_ids
         in (min (backoff * 2) 60, (if peers = [] then [] else [JoinPeers peers]) @ [SleepFor backoff])))"

fun gossip_rejoin_loop ::
  "(string \<Rightarrow> string option) \<Rightarrow> string list \<Rightarrow> string \<Rightarrow> nat \<Rightarrow> RejoinInput list \<Rightarrow> RejoinEvent list" where
  "gossip_rejoin_loop parse_id roster_ids self_id backoff [] = []"
| "gossip_rejoin_loop parse_id roster_ids self_id backoff (inp # inps) =
     (case rejoin_round parse_id roster_ids self_id inp backoff of
        (backoff', evs) \<Rightarrow> evs @ gossip_rejoin_loop parse_id roster_ids self_id backoff' inps)"

text \<open>The redial loop of one tunnel: whether each dial succeeded gives the pauses between dials.\<close>

fun connector_loop :: "nat \<Rightarrow> bool list \<Rightarrow> nat list" where
  "connector_loop backoff [] = []"
| "connector_loop backoff (dialed # rest) =
     (if dialed then 1 # connector_loop 1 rest
      else backoff # connector_loop (min (backoff * 2) 30) rest)"

text \<open>Waiting for the first neighbour: the counts seen before the cap, \<open>None\<close> when the channel closes; the
  wait itself ends with the cap.\<close>

fun wait_for_first_neighbor :: "nat option list \<Rightarrow> bool" where
  "wait_for_first_neighbor [] = False"
| "wait_for_first_neighbor (None # _) = False"
| "wait_for_first_neighbor (Some n # rest) = (if n = 0 then wait_for_first_neighbor rest else True)"

section \<open>Lemmas\<close>

text \<open>The first occurrences of a list, in order.\<close>

definition firsts :: "('a \<Rightarrow> 'k) \<Rightarrow> 'a list \<Rightarrow> 'a list" where
  "firsts key xs = foldl (\<lambda>acc x. if key x \<in> key ` set acc then acc else acc @ [x]) [] xs"

lemma firsts_from:
  "foldl (\<lambda>acc x. if key x \<in> key ` set acc then acc else acc @ [x]) acc xs =
     acc @ filter (\<lambda>x. key x \<notin> key ` set acc) (firsts key xs)"
proof (induction xs arbitrary: acc)
  case (Cons x xs)
  have step: "firsts key (x # xs) = x # filter (\<lambda>y. key y \<noteq> key x) (firsts key xs)"
    using Cons[of "[x]"] by (simp add: firsts_def)
  show ?case
    unfolding foldl_Cons Cons step by (auto intro: filter_cong)
qed (simp add: firsts_def)

lemma firsts_simps [simp]:
  "firsts key [] = []"
  "firsts key (x # xs) = x # filter (\<lambda>y. key y \<noteq> key x) (firsts key xs)"
  using firsts_from[of key "[x]" xs] by (simp_all add: firsts_def)

lemma firsts_props: "distinct (map key (firsts key xs))" "key ` set (firsts key xs) = key ` set xs"
  "set (firsts key xs) \<subseteq> set xs"
proof -
  show s: "set (firsts key xs) \<subseteq> set xs" for xs by (induction xs) auto
  show "key ` set (firsts key xs) = key ` set xs"
  proof (induction xs)
    case (Cons x xs)
    have "key ` set (firsts key (x # xs)) = insert (key x) (key ` set (firsts key xs))" by auto
    with Cons show ?case by simp
  qed simp
  show "distinct (map key (firsts key xs))"
    by (induction xs) (auto simp: distinct_map inj_on_def)
qed

lemma strip_front_no_sep:
  "w \<in> set seps \<Longrightarrow> w \<noteq> [] \<Longrightarrow> \<not> starts_with w (strip_front seps s)"
proof (induction seps s rule: strip_front.induct)
  case (1 seps s)
  show ?case
  proof (cases "find (\<lambda>w. w \<noteq> [] \<and> starts_with w s) seps")
    case None
    then have "strip_front seps s = s" by (subst strip_front.simps) simp
    then show ?thesis using None 1(2,3) by (auto simp: find_None_iff)
  next
    case (Some v)
    then show ?thesis using 1(1)[OF Some 1(2,3)] by (subst strip_front.simps) simp
  qed
qed

lemma trim_head:
  assumes "trim s = c # t"
  shows "\<not> is_ascii_whitespace c"
proof
  assume w: "is_ascii_whitespace c"
  obtain q where q: "rev (trim_start s) = q @ strip_front (map rev white_space) (rev (trim_start s))"
    using strip_front_suffix by blast
  then have "trim_start s = trim s @ rev q"
    unfolding trim_def trim_end_def by (metis rev_append rev_rev_ident)
  then have "trim_start s = c # t @ rev q" using assms by simp
  moreover have "[c] \<in> set white_space"
    using w by (auto simp: is_ascii_whitespace_def white_space_def char_of_eq eq_commute[of c])
  ultimately show False
    using strip_front_no_sep[of "[c]" white_space s] by (simp add: trim_start_def)
qed

text \<open>The entry of a line that is neither blank nor a comment.\<close>

definition entry_line :: "string \<Rightarrow> bool" where
  "entry_line l \<longleftrightarrow> trim l \<noteq> [] \<and> \<not> starts_with ''#'' (trim l)"

definition line_entry :: "string \<Rightarrow> PeerEntry" where
  "line_entry l =
     (case split_token (trim l) of (token, rest) \<Rightarrow>
        \<lparr>pe_token = token,
         pe_label = (case rest of None \<Rightarrow> None | Some t \<Rightarrow> if trim t = [] then None else Some (trim t))\<rparr>)"

lemma split_token_token:
  assumes "trim l \<noteq> []"
  shows "fst (split_token (trim l)) \<noteq> [] \<and> (\<forall>c\<in>set (fst (split_token (trim l))). \<not> is_ascii_whitespace c)"
proof -
  obtain c t where t: "trim l = c # t" using assms by (cases "trim l") auto
  have "fst (split_token s) = takeWhile (\<lambda>c. \<not> is_ascii_whitespace c) s" for s
  proof (cases "dropWhile (\<lambda>c. \<not> is_ascii_whitespace c) s")
    case Nil
    have "takeWhile (\<lambda>c. \<not> is_ascii_whitespace c) s = s"
      using takeWhile_dropWhile_id[of "\<lambda>c. \<not> is_ascii_whitespace c" s] unfolding Nil by (simp only: append_Nil2)
    from this[symmetric] show ?thesis unfolding split_token_def Nil list.case fst_conv .
  qed (simp add: split_token_def)
  then show ?thesis
    using trim_head[OF t] by (auto simp: t dest: set_takeWhileD)
qed

lemma load_lines_eq:
  assumes "set seen_tokens = pe_token ` set acc"
  shows "load_lines n seen_tokens acc ls =
    Inr (foldl (\<lambda>acc x. if pe_token x \<in> pe_token ` set acc then acc else acc @ [x]) acc
           (map line_entry (filter entry_line ls)))"
  using assms
proof (induction ls arbitrary: n seen_tokens acc)
  case (Cons l ls)
  show ?case
  proof (cases "entry_line l")
    case False
    then show ?thesis using Cons by (auto simp: entry_line_def Let_def)
  next
    case True
    obtain token rest where t: "split_token (trim l) = (token, rest)" by fastforce
    have ne: "token \<noteq> []" using split_token_token[of l] True by (simp add: entry_line_def t)
    have m: "List.member seen_tokens token \<longleftrightarrow> pe_token (line_entry l) \<in> pe_token ` set acc"
      using Cons.prems by (simp add: line_entry_def t)
    have le: "line_entry l = \<lparr>pe_token = token,
        pe_label = (case rest of None \<Rightarrow> None | Some t \<Rightarrow> if trim t = [] then None else Some (trim t))\<rparr>"
      by (simp add: line_entry_def t)
    have tr: "trim l \<noteq> []" "\<not> starts_with ''#'' (trim l)" using True by (simp_all add: entry_line_def)
    have step: "load_lines n seen_tokens acc (l # ls) =
        (if List.member seen_tokens token then load_lines (n + 1) seen_tokens acc ls
         else load_lines (n + 1) (token # seen_tokens) (acc @ [line_entry l]) ls)"
      using tr ne by (simp add: t Let_def le)
    show ?thesis
    proof (cases "List.member seen_tokens token")
      case mem: True
      then show ?thesis using True m Cons.IH[OF Cons.prems] unfolding step by simp
    next
      case mem: False
      have "set (token # seen_tokens) = pe_token ` set (acc @ [line_entry l])"
        using Cons.prems by (simp add: le)
      then show ?thesis using True m mem Cons.IH unfolding step by simp
    qed
  qed
qed simp

lemma pick_distinct_eq:
  assumes "length ordered < cap"
  shows "pick_distinct self_id cap ordered xs =
    take cap (foldl (\<lambda>acc x. if x \<in> set acc then acc else acc @ [x]) ordered (filter (\<lambda>i. i \<noteq> self_id) xs))"
  using assms
proof (induction xs arbitrary: ordered)
  case (Cons x xs)
  have long: "take cap (foldl (\<lambda>acc x. if x \<in> set acc then acc else acc @ [x]) acc ys) = acc"
    if "length acc = cap" for acc :: "string list" and ys
    using firsts_from[of "\<lambda>x. x" acc ys] that by simp
  show ?case
  proof (cases "x = self_id \<or> x \<in> set ordered")
    case True
    then show ?thesis using Cons by auto
  next
    case new: False
    show ?thesis
    proof (cases "cap \<le> length (ordered @ [x])")
      case True
      with Cons.prems have "length (ordered @ [x]) = cap" by simp
      then show ?thesis using new long[of "ordered @ [x]"] by (simp add: Let_def)
    next
      case False
      with new Cons.IH[of "ordered @ [x]"] show ?thesis by (simp add: Let_def)
    qed
  qed
qed simp

lemma rank_eq:
  "rank_bootstrap_candidates roster bk owners liveness self_id now_ms cap =
     take cap (firsts (\<lambda>i. i) (filter (\<lambda>i. i \<noteq> self_id)
       (roster @ map fst (recently_seen bk liveness now_ms) @ map fst (disk_known bk liveness now_ms) @
        map fst (ranked_claim_owners owners liveness now_ms))))"
proof (cases "cap = 0")
  case False
  then show ?thesis
    unfolding rank_bootstrap_candidates_def firsts_def image_ident
    by (subst pick_distinct_eq) simp_all
qed (simp add: rank_bootstrap_candidates_def)


lemma length_map_filter_le: "length (List.map_filter f xs) \<le> length xs"
  by (simp add: List.map_filter_def)



section \<open>Properties\<close>

text \<open>Every roster file parses: the result is the list of the entry lines in their order, of the lines
  with one token only the first, each token non-empty and without blanks; blank lines and comments count for
  nothing.\<close>

theorem roster_parses:
  "\<exists>entries. load_from_str contents = Inr entries \<and>
     entries = firsts pe_token (map line_entry (filter entry_line (lines contents))) \<and>
     distinct (map pe_token entries) \<and>
     (\<forall>e\<in>set entries. pe_token e \<noteq> [] \<and> (\<forall>c\<in>set (pe_token e). \<not> is_ascii_whitespace c))"
proof -
  let ?es = "map line_entry (filter entry_line (lines contents))"
  have l: "load_from_str contents = Inr (firsts pe_token ?es)"
    unfolding load_from_str_def by (subst load_lines_eq) (simp_all add: firsts_def)
  have "pe_token e \<noteq> [] \<and> (\<forall>c\<in>set (pe_token e). \<not> is_ascii_whitespace c)" if e: "e \<in> set (firsts pe_token ?es)" for e
  proof -
    obtain x where "entry_line x" "e = line_entry x" using subsetD[OF firsts_props(3) e] by auto
    then show ?thesis
      using split_token_token[of x] by (simp add: entry_line_def line_entry_def split: prod.splits)
  qed
  then show ?thesis using l firsts_props(1) by blast
qed

text \<open>Example: a comment, an entry with a label, and the same token again.\<close>

theorem roster_parses_witness:
  "\<exists>entries. load_from_str (''# seeds'' @ [CHR 0x0A] @ ''ab12 attic'' @ [CHR 0x0A] @ ''ab12'' @ [CHR 0x0A]) = Inr entries \<and>
     entries = [\<lparr>pe_token = ''ab12'', pe_label = Some ''attic''\<rparr>] \<and>
     (\<forall>e\<in>set entries. pe_token e \<noteq> [] \<and> (\<forall>c\<in>set (pe_token e). \<not> is_ascii_whitespace c))"
proof -
  let ?s = "''# seeds'' @ [CHR 0x0A] @ ''ab12 attic'' @ [CHR 0x0A] @ ''ab12'' @ [CHR 0x0A]"
  have ls: "lines ?s = [''# seeds'', ''ab12 attic'', ''ab12'']"
    by (simp add: lines_def strip_cr_def Let_def)
  have t: "trim ''# seeds'' = ''# seeds''" "trim ''ab12 attic'' = ''ab12 attic''" "trim ''ab12'' = ''ab12''" "trim ''attic'' = ''attic''"
    by (rule trim_id; simp add: byte_def)+
  have sp: "split_token ''ab12 attic'' = (''ab12'', Some ''attic'')" "split_token ''ab12'' = (''ab12'', None)"
    by code_simp+
  have el: "\<not> entry_line ''# seeds''" "entry_line ''ab12 attic''" "entry_line ''ab12''"
    by (simp_all add: entry_line_def t starts_with_def)
  have le: "line_entry ''ab12 attic'' = \<lparr>pe_token = ''ab12'', pe_label = Some ''attic''\<rparr>"
    "line_entry ''ab12'' = \<lparr>pe_token = ''ab12'', pe_label = None\<rparr>"
    by (simp_all add: line_entry_def t sp)
  have "firsts pe_token (map line_entry (filter entry_line (lines ?s))) = [\<lparr>pe_token = ''ab12'', pe_label = Some ''attic''\<rparr>]"
    unfolding ls by (simp add: el le)
  with roster_parses[of ?s] show ?thesis by simp
qed
















text \<open>Witness of C33: the roster peer first, then the peer heard of most recently; the long dead one and the
  node itself are left out.\<close>

definition sample_tracker :: LivenessTracker where
  "sample_tracker =
     (tracker_new 60000 3600000)\<lparr>seen :=
       [(''dead'', \<lparr>incarnation = 1, seen_counter = 1, received_at_ms = 1, seen_egress = None\<rparr>),
        (''late'', \<lparr>incarnation = 1, seen_counter = 1, received_at_ms = 4000000, seen_egress = None\<rparr>)]\<rparr>"


text \<open>C39. Rejoining is neither a storm nor given up: in every run of the rejoin loop a join goes to at least
  one and at most sixteen peers, all parsed from the candidates, and the pauses lie between five seconds and a
  minute; while the node stays without neighbours every round ends in such a pause, twice as long as the last
  up to the minute, and after a joined time the pauses start at five seconds again.\<close>

theorem rejoin_paced:
  assumes "5 \<le> backoff" and "backoff \<le> 60"
  shows "(\<forall>ps. JoinPeers ps \<in> set (gossip_rejoin_loop parse_id roster_ids self_id backoff inps) \<longrightarrow>
            ps \<noteq> [] \<and> length ps \<le> BOOTSTRAP_CANDIDATE_CAP) \<and>
         (\<forall>s. SleepFor s \<in> set (gossip_rejoin_loop parse_id roster_ids self_id backoff inps) \<longrightarrow> 5 \<le> s \<and> s \<le> 60) \<and>
         (\<forall>inp. ri_neighbors inp = 0 \<longrightarrow>
            (\<exists>evs. rejoin_round parse_id roster_ids self_id inp backoff = (min (2 * backoff) 60, evs @ [SleepFor backoff]))) \<and>
         (\<forall>inp. 0 < ri_neighbors inp \<longrightarrow> rejoin_round parse_id roster_ids self_id inp backoff = (5, [WaitChange]))"
proof -
  have cap: "length (List.map_filter parse_id (rank_bootstrap_candidates r bk ow lv me t BOOTSTRAP_CANDIDATE_CAP)) \<le>
      BOOTSTRAP_CANDIDATE_CAP" for r bk ow lv me t
    using length_map_filter_le[of parse_id "rank_bootstrap_candidates r bk ow lv me t BOOTSTRAP_CANDIDATE_CAP"]
    by (simp add: rank_eq)
  have loop: "(\<forall>ps. JoinPeers ps \<in> set (gossip_rejoin_loop parse_id roster_ids self_id backoff inps) \<longrightarrow>
            ps \<noteq> [] \<and> length ps \<le> BOOTSTRAP_CANDIDATE_CAP) \<and>
         (\<forall>s. SleepFor s \<in> set (gossip_rejoin_loop parse_id roster_ids self_id backoff inps) \<longrightarrow> 5 \<le> s \<and> s \<le> 60)"
    using assms
  proof (induction inps arbitrary: backoff)
    case (Cons inp inps)
    have b: "5 \<le> min (backoff * 2) 60" "min (backoff * 2) 60 \<le> 60" using Cons.prems by auto
    show ?case
    proof (cases "0 < ri_neighbors inp")
      case True
      then show ?thesis using Cons.IH[of 5] by (simp add: rejoin_round_def)
    next
      case False
      then show ?thesis
        using Cons.IH[OF b] Cons.prems cap by (auto simp: rejoin_round_def Let_def)
    qed
  qed simp
  show ?thesis using loop by (auto simp: rejoin_round_def Let_def mult.commute)
qed

text \<open>Witness of C39: a node without any known peer sleeps for five seconds, then for ten.\<close>

theorem rejoin_paced_witness:
  "\<exists>evs. rejoin_round (\<lambda>_. None) [] ''me''
      \<lparr>ri_neighbors = 0, ri_addr_book = [], ri_claims = [], ri_liveness = sample_tracker, ri_now = 5\<rparr> 5 =
    (10, evs @ [SleepFor 5])"
  using rejoin_paced[of 5 "\<lambda>_. None" "[]" "''me''" "[]"] by simp

text \<open>Of two nodes that list each other exactly one dials: whatever else the peer sets hold, the node
  with the lower id dials the other and is not dialed by it, and no node dials itself.\<close>

theorem one_side_dials:
  assumes "a \<noteq> b"
    and "\<exists>e\<in>set entries_a. parse_peer (pe_token e) = Some b" and "\<exists>e\<in>set entries_b. parse_peer (pe_token e) = Some a"
  shows "(b \<in> set (dialed_peers parse_peer a entries_a)) \<noteq> (a \<in> set (dialed_peers parse_peer b entries_b)) \<and>
    a \<notin> set (dialed_peers parse_peer a entries_a)"
  using assms by (auto simp: dialed_peers_def set_map_filter)

text \<open>Example: \<open>a\<close> dials \<open>b\<close>.\<close>

theorem one_side_dials_witness:
  "(''b'' \<in> set (dialed_peers Some ''a'' [\<lparr>pe_token = ''b'', pe_label = None\<rparr>])) \<noteq>
   (''a'' \<in> set (dialed_peers Some ''b'' [\<lparr>pe_token = ''a'', pe_label = None\<rparr>]))"
  using one_side_dials[of "''a''" "''b''" "[\<lparr>pe_token = ''b'', pe_label = None\<rparr>]" Some
      "[\<lparr>pe_token = ''a'', pe_label = None\<rparr>]"] by simp

text \<open>The pauses between dials of one tunnel stay between one second and half a minute.\<close>

lemma connector_pauses: "1 \<le> backoff \<Longrightarrow> backoff \<le> 30 \<Longrightarrow> \<forall>s\<in>set (connector_loop backoff dials). 1 \<le> s \<and> s \<le> 30"
  by (induction backoff dials rule: connector_loop.induct) auto

end
