(* ===== verification/Node_Status.thy ===== *)
theory Node_Status
  imports Host_Config Meshctl_Deploy Bootstrap
begin

text \<open>
  The identity of a node and what \<open>mjolnir-meshd\<close> reports about it (\<open>bin/mjolnir-meshd.rs\<close>): the secret file, peer arguments,
  the reachability check, the \<open>status\<close> command, and the task that sweeps the name-claim spool.

  Parameters: the codecs (\<open>HEXLOWER\<close>, \<open>BASE32_NOPAD\<close>, postcard), parsing of iroh keys and relay URLs, the public key of a secret,
  the text of addresses, the file system of \<open>Persist\<close>, the kernel of \<open>Host_Config\<close> and the random key a fresh node draws.
  A report is the list of its lines.
\<close>

section \<open>The secret\<close>

type_synonym Secret = "u8 list"

record Codec =
  hexlower_encode :: "u8 list \<Rightarrow> string"
  hexlower_decode :: "string \<Rightarrow> u8 list option"
  base32_encode :: "u8 list \<Rightarrow> string"
  base32_decode :: "string \<Rightarrow> u8 list option"
  parse_secret_key :: "string \<Rightarrow> Secret option"
  public_key :: "Secret \<Rightarrow> string"
  text_utf8 :: "bytes \<Rightarrow> bool"

definition encode_secret_hex :: "Codec \<Rightarrow> Secret \<Rightarrow> string" where
  "encode_secret_hex C secret = hexlower_encode C secret"

definition parse_secret_hex :: "Codec \<Rightarrow> string \<Rightarrow> anyhow + Secret" where
  "parse_secret_hex C hex =
     (case hexlower_decode C hex of
        None \<Rightarrow> Inl [''secret file is not valid lowercase hex'']
      | Some bytes \<Rightarrow> if length bytes \<noteq> 32 then Inl [''secret must be exactly 32 bytes''] else Inr bytes)"

definition read_secret_file :: "Codec \<Rightarrow> IoEnv \<Rightarrow> path \<Rightarrow> bytes \<Rightarrow> anyhow + Secret" where
  "read_secret_file C env p contents =
     (if read_fails env p \<or> \<not> text_utf8 C contents then Inl [''reading secret file '' @ show_path p]
      else parse_secret_hex C (trim (bytes_str contents)))"

definition secret_from_env :: "Codec \<Rightarrow> string \<Rightarrow> anyhow + Secret" where
  "secret_from_env C value = (case parse_secret_key C value of None \<Rightarrow> Inl [''parsing IROH_SECRET''] | Some k \<Rightarrow> Inr k)"

definition load_or_create_secret ::
  "Codec \<Rightarrow> IoEnv \<Rightarrow> Secret \<Rightarrow> string option \<Rightarrow> path option \<Rightarrow> FileSys \<Rightarrow> FileSys \<times> (anyhow + Secret)" where
  "load_or_create_secret C env generated iroh_secret path fs =
     (case path of
        Some p \<Rightarrow>
          (case fs p of
             Some contents \<Rightarrow> (fs, read_secret_file C env p contents)
           | None \<Rightarrow>
               (case fs_write env p (str_bytes (encode_secret_hex C generated)) fs of
                  (fs', False) \<Rightarrow> (fs', Inl [''writing secret file '' @ show_path p])
                | (fs', True) \<Rightarrow> (fs', Inr generated)))
      | None \<Rightarrow> (case iroh_secret of Some value \<Rightarrow> (fs, secret_from_env C value) | None \<Rightarrow> (fs, Inr generated)))"

definition load_secret_readonly :: "Codec \<Rightarrow> IoEnv \<Rightarrow> string option \<Rightarrow> path \<Rightarrow> FileSys \<Rightarrow> anyhow + Secret option" where
  "load_secret_readonly C env iroh_secret p fs =
     (case fs p of
        Some contents \<Rightarrow> (case read_secret_file C env p contents of Inl e \<Rightarrow> Inl e | Inr k \<Rightarrow> Inr (Some k))
      | None \<Rightarrow>
          (case iroh_secret of
             Some value \<Rightarrow> (case secret_from_env C value of Inl e \<Rightarrow> Inl e | Inr k \<Rightarrow> Inr (Some k))
           | None \<Rightarrow> Inr None))"

section \<open>Peer arguments\<close>

definition encode_addr :: "Codec \<Rightarrow> ('a \<Rightarrow> u8 list option) \<Rightarrow> 'a \<Rightarrow> anyhow + string" where
  "encode_addr C to_allocvec addr =
     (case to_allocvec addr of None \<Rightarrow> Inl [''serializing address''] | Some bytes \<Rightarrow> Inr (to_ascii_lowercase (base32_encode C bytes)))"

text \<open>\<open>str::to_uppercase\<close>; a text with other than ASCII characters is no base32 either way.\<close>

definition to_uppercase :: "string \<Rightarrow> string" where
  "to_uppercase s = map (\<lambda>c. if 97 \<le> byte c \<and> byte c \<le> 122 then char_of (byte c - 32) else c) s"

definition decode_addr :: "Codec \<Rightarrow> (u8 list \<Rightarrow> 'a option) \<Rightarrow> string \<Rightarrow> anyhow + 'a" where
  "decode_addr C from_bytes blob =
     (case base32_decode C (to_uppercase blob) of
        None \<Rightarrow> Inl [''address blob is not valid base32'']
      | Some bytes \<Rightarrow> (case from_bytes bytes of None \<Rightarrow> Inl [''deserializing address''] | Some a \<Rightarrow> Inr a))"

definition parse_peer :: "Codec \<Rightarrow> (u8 list \<Rightarrow> 'a option) \<Rightarrow> (string \<Rightarrow> 'a option) \<Rightarrow> string \<Rightarrow> anyhow + 'a" where
  "parse_peer C from_bytes parse_id arg =
     (if length arg = 64 \<and> list_all is_ascii_hexdigit arg
      then (case parse_id arg of None \<Rightarrow> Inl [''parsing node id''] | Some a \<Rightarrow> Inr a)
      else decode_addr C from_bytes arg)"

section \<open>Reachability\<close>

definition ipv4_private :: "ipv4 \<Rightarrow> bool" where
  "ipv4_private a \<longleftrightarrow>
     octet a 0 = 10 \<or> (octet a 0 = 172 \<and> 16 \<le> octet a 1 \<and> octet a 1 \<le> 31) \<or> (octet a 0 = 192 \<and> octet a 1 = 168)"

definition ip_loopback :: "IpAddr \<Rightarrow> bool" where
  "ip_loopback ip = (case ip of V4 a \<Rightarrow> octet a 0 = 127 | V6 a \<Rightarrow> a = 1)"

definition is_globally_reachable :: "IpAddr \<Rightarrow> bool" where
  "is_globally_reachable ip =
     (case ip of
        V4 a \<Rightarrow> \<not> (ipv4_private a \<or> octet a 0 = 127 \<or> (octet a 0 = 169 \<and> octet a 1 = 254) \<or> a = 0)
      | V6 a \<Rightarrow> \<not> (a = 1 \<or> a = 0))"

datatype Reachability = ReachabilityOk bool bool | LanOnly | NotReachable

definition check_reachability :: "string list \<Rightarrow> IpAddr list \<Rightarrow> bool \<Rightarrow> Reachability" where
  "check_reachability relay_urls ips no_relay =
     (let has_relay = relay_urls \<noteq> [];
          has_public = list_ex is_globally_reachable ips;
          has_nonloopback = list_ex (\<lambda>ip. \<not> ip_loopback ip) ips
      in if has_relay \<or> has_public then ReachabilityOk has_relay has_public
         else if no_relay \<and> has_nonloopback then LanOnly
         else NotReachable)"

section \<open>The UCI options\<close>

definition is_quote :: "char \<Rightarrow> bool" where
  "is_quote c \<longleftrightarrow> c = CHR 0x27 \<or> c = CHR 0x22"

definition trim_quotes :: "string \<Rightarrow> string" where
  "trim_quotes s = rev (dropWhile is_quote (rev (dropWhile is_quote s)))"

text \<open>The loop both parsers run: the first line with the prefix and a value that is not empty.\<close>

fun uci_option :: "string \<Rightarrow> string list \<Rightarrow> string option" where
  "uci_option prefix [] = None"
| "uci_option prefix (line # rest) =
     (case strip_prefix prefix (trim line) of
        None \<Rightarrow> uci_option prefix rest
      | Some r \<Rightarrow> (let val = trim_quotes (trim r) in if val \<noteq> [] then Some val else uci_option prefix rest))"

definition path_from :: "string \<Rightarrow> path" where
  "path_from s = split_on CHR ''/'' s"

definition parse_uci_secret_file :: "string \<Rightarrow> path option" where
  "parse_uci_secret_file text = map_option path_from (uci_option ''option secret_file'' (lines text))"

definition parse_uci_node_name :: "string \<Rightarrow> string option" where
  "parse_uci_node_name text = uci_option ''option name'' (lines text)"

definition read_to_string :: "Codec \<Rightarrow> IoEnv \<Rightarrow> FileSys \<Rightarrow> path \<Rightarrow> string option" where
  "read_to_string C env fs p =
     (case fs p of
        None \<Rightarrow> None
      | Some contents \<Rightarrow> if read_fails env p \<or> \<not> text_utf8 C contents then None else Some (bytes_str contents))"

definition UCI_FILE :: path where
  "UCI_FILE = path_from ''/etc/config/mjolnir''"

definition uci_secret_file :: "Codec \<Rightarrow> IoEnv \<Rightarrow> FileSys \<Rightarrow> path option" where
  "uci_secret_file C env fs =
     (case read_to_string C env fs UCI_FILE of None \<Rightarrow> None | Some t \<Rightarrow> parse_uci_secret_file t)"

definition uci_node_name :: "Codec \<Rightarrow> IoEnv \<Rightarrow> FileSys \<Rightarrow> string option" where
  "uci_node_name C env fs =
     (case read_to_string C env fs UCI_FILE of None \<Rightarrow> None | Some t \<Rightarrow> parse_uci_node_name t)"

definition resolve_status_secret_file :: "Codec \<Rightarrow> IoEnv \<Rightarrow> FileSys \<Rightarrow> path option \<Rightarrow> path" where
  "resolve_status_secret_file C env fs cli =
     (case cli of
        Some p \<Rightarrow> p
      | None \<Rightarrow> (case uci_secret_file C env fs of Some p \<Rightarrow> p | None \<Rightarrow> path_from ''/etc/mjolnir/secret''))"

section \<open>The report of the state files\<close>

definition comma_separated :: "string list \<Rightarrow> string" where
  "comma_separated ps = (case ps of [] \<Rightarrow> [] | p # qs \<Rightarrow> p @ concat (map (\<lambda>q. '', '' @ q) qs))"

definition addr_entry_lines :: "(SocketAddr \<Rightarrow> string) \<Rightarrow> string \<Rightarrow> PeerAddrEntry \<Rightarrow> string list" where
  "addr_entry_lines socket_text peer_id entry =
     [''  '' @ peer_id,
      ''    direct: '' @ (if pa_direct_addrs entry = [] then ''none'' else comma_separated (map socket_text (pa_direct_addrs entry))),
      ''    relay:  '' @ (case pa_relay_url entry of Some u \<Rightarrow> u | None \<Rightarrow> ''none''),
      ''    announced_at: wall='' @ decimal (unat (wall_clock (pa_announced_at entry))) @
      '' counter='' @ decimal (unat (counter (pa_announced_at entry)))]"

definition print_addr_book_status :: "(SocketAddr \<Rightarrow> string) \<Rightarrow> path \<Rightarrow> AddrBook \<Rightarrow> string list" where
  "print_addr_book_status socket_text p bk =
     (''address book (0yb): '' @ show_path p) #
     (if bk = [] then [''  (none '' @ em_dash @ '' no peer addresses learned yet, or file absent)'']
      else concat (map (\<lambda>(peer_id, entry). addr_entry_lines socket_text peer_id entry) bk))"

definition format_services_status :: "(IpAddr \<Rightarrow> string) \<Rightarrow> ServiceStateV2 \<Rightarrow> string list" where
  "format_services_status ip_text state =
     [''services:''] @
     (if book state = [] then [''  (none '' @ em_dash @ '' no services claimed yet)'']
      else concat (map (\<lambda>(name, entry).
             [''  '' @ name, ''    owner: '' @ s2_owner_node_id entry,
              ''    address: '' @ ip_text (s2_ip entry) @ '':'' @ decimal (unat (s2_port entry)) @ ''/'' @ s2_protocol entry])
           (book state))) @
     [[], ''tombstoned names (unpublished):''] @
     (if tombstones state = [] then [''  (none)'']
      else map (\<lambda>(name, tombstone). ''  '' @ name @ ''  last owner: '' @ ts_owner_node_id tombstone) (tombstones state)) @
     [[], ''lost names (active conflicts '' @ em_dash @ '' claimed by another node first):''] @
     (if lost_names state = [] then [''  (none)'']
      else map (\<lambda>(name, lost). ''  '' @ name @ ''  winner: '' @ ln_winner_node_id lost) (lost_names state))"

definition print_services_status :: "(IpAddr \<Rightarrow> string) \<Rightarrow> path \<Rightarrow> ServiceStateV2 \<Rightarrow> string list" where
  "print_services_status ip_text p state =
     (''services (/services/, v2): '' @ show_path p) # format_services_status ip_text state"

section \<open>The report of the kernel\<close>

definition is_mesh_v4 :: "ipv4 \<Rightarrow> bool" where
  "is_mesh_v4 ip \<longleftrightarrow> octet ip 0 = 10 \<and> (octet ip 1 = 42 \<or> octet ip 1 = 254 \<or> octet ip 1 = 255)"

fun first_v4 :: "AddressAttribute list \<Rightarrow> ipv4 option" where
  "first_v4 [] = None"
| "first_v4 (Local (V4 v) # _) = Some v"
| "first_v4 (Address (V4 v) # _) = Some v"
| "first_v4 (_ # as) = first_v4 as"

definition iface_addrs :: "AddressMessage list \<Rightarrow> nat \<Rightarrow> (ipv4 \<times> nat) list" where
  "iface_addrs msgs i =
     List.map_filter
       (\<lambda>m. if am_index m = i then map_option (\<lambda>v. (v, am_prefix_len m)) (first_v4 (am_attributes m)) else None) msgs"

definition addressed_ifaces :: "AddressMessage list \<Rightarrow> nat list" where
  "addressed_ifaces msgs = sort (remdups (map am_index (filter (\<lambda>m. first_v4 (am_attributes m) \<noteq> None) msgs)))"

definition iface_name :: "(nat \<rightharpoonup> string) \<Rightarrow> nat \<Rightarrow> string" where
  "iface_name names i = (case names i of Some n \<Rightarrow> n | None \<Rightarrow> ''if'' @ decimal i)"

definition has_backhaul :: "ipv4 option \<Rightarrow> (ipv4 \<times> nat) list \<Rightarrow> bool" where
  "has_backhaul backhaul list = (case backhaul of None \<Rightarrow> False | Some b \<Rightarrow> list_ex (\<lambda>(a, _). a = b) list)"

definition iface_status_line :: "string \<Rightarrow> bool \<Rightarrow> (ipv4 \<times> nat) list \<Rightarrow> string" where
  "iface_status_line name has list =
     ''  '' @ pad 12 name @ '' '' @ comma_separated (map (\<lambda>(a, p). show_ipv4 a @ ''/'' @ decimal p) list) @
     (if has \<and> 1 < length list
      then ''   <- backhaul; DUAL-ADDRESSED (extra addrs can leak as bogus next-hops '' @ em_dash @ '' see auu)''
      else if has then ''   <- backhaul'' else [])"

definition backhaul_missing :: "ipv4 \<Rightarrow> string" where
  "backhaul_missing backhaul =
     ''  WARNING: derived backhaul '' @ show_ipv4 backhaul @
     '' is not assigned on any interface (daemon not running, or the backhaul interface is down)''"

definition shown_ifaces :: "(nat \<rightharpoonup> string) \<Rightarrow> AddressMessage list \<Rightarrow> nat list" where
  "shown_ifaces names msgs = filter (\<lambda>i. iface_name names i \<noteq> ''lo'') (addressed_ifaces msgs)"

definition interface_lines :: "ipv4 option \<Rightarrow> (nat \<rightharpoonup> string) \<Rightarrow> AddressMessage list \<Rightarrow> string list" where
  "interface_lines backhaul names msgs =
     map (\<lambda>i. iface_status_line (iface_name names i) (has_backhaul backhaul (iface_addrs msgs i)) (iface_addrs msgs i))
       (shown_ifaces names msgs) @
     (case backhaul of
        None \<Rightarrow> []
      | Some b \<Rightarrow>
          if list_ex (\<lambda>i. has_backhaul backhaul (iface_addrs msgs i)) (shown_ifaces names msgs) then []
          else [backhaul_missing b])"

fun first_dst :: "RouteAttribute list \<Rightarrow> ipv4 option" where
  "first_dst [] = None"
| "first_dst (Destination v # _) = Some v"
| "first_dst (_ # as) = first_dst as"

fun first_gw :: "RouteAttribute list \<Rightarrow> ipv4 option" where
  "first_gw [] = None"
| "first_gw (Gateway v # _) = Some v"
| "first_gw (_ # as) = first_gw as"

text \<open>The first outgoing interface whose name is known.\<close>

fun first_dev :: "(nat \<rightharpoonup> string) \<Rightarrow> RouteAttribute list \<Rightarrow> string option" where
  "first_dev names [] = None"
| "first_dev names (Oif i # as) = (case names i of Some n \<Rightarrow> Some n | None \<Rightarrow> first_dev names as)"
| "first_dev names (_ # as) = first_dev names as"

definition route_line :: "(nat \<rightharpoonup> string) \<Rightarrow> RouteMessage \<Rightarrow> string option" where
  "route_line names r =
     (case first_dst (rm_attributes r) of
        None \<Rightarrow> None
      | Some dst \<Rightarrow>
          if \<not> is_mesh_v4 dst then None
          else
            Some (''  '' @ show_ipv4 dst @ ''/'' @ pad 3 (decimal (rm_destination_prefix_length r)) @ '' '' @
                  (case first_gw (rm_attributes r) of Some v \<Rightarrow> ''via '' @ show_ipv4 v @ '' '' | None \<Rightarrow> []) @
                  ''dev '' @ (case first_dev names (rm_attributes r) of Some d \<Rightarrow> d | None \<Rightarrow> ''?'')))"

definition route_lines :: "(nat \<rightharpoonup> string) \<Rightarrow> RouteMessage list \<Rightarrow> string list" where
  "route_lines names rs =
     (let shown = List.map_filter (route_line names) rs
      in if shown = []
         then [''  (none installed '' @ em_dash @ '' no peers converged yet, or routing not running)''] else shown)"

definition middle_dot :: string where
  "middle_dot = map char_of [194, 183 :: nat]"

definition print_system_status :: "'k Netlink \<Rightarrow> ipv4 option \<Rightarrow> 'k \<Rightarrow> string list" where
  "print_system_status nl backhaul k =
     (case nl_connect nl k of
        Inl e \<Rightarrow> [''(could not open netlink to read system state: '' @ e @ '')'']
      | Inr _ \<Rightarrow>
          (let names = link_names (nl_links nl k)
           in [''interfaces (IPv4):''] @ interface_lines backhaul names (nl_addresses nl k) @
              [[], ''mesh routes (10.42/16 client '' @ middle_dot @ '' 10.254/16 backhaul '' @ middle_dot @ '' 10.255/16 tunnels):''] @
              route_lines names (nl_routes nl k)))"

section \<open>The status command\<close>

text \<open>The build stamps, the texts of addresses, and the third-party functions the address derivation uses.\<close>

record StatusEnv =
  se_build :: string
  se_version :: string
  se_socket_text :: "SocketAddr \<Rightarrow> string"
  se_ip_text :: "IpAddr \<Rightarrow> string"
  se_network :: "Ipv4Net \<Rightarrow> ipv4"
  se_blake3 :: "string \<Rightarrow> u8 list"
  se_codecs :: Codecs

definition CLAIMS_FILE :: path where
  "CLAIMS_FILE = path_from ''/etc/mjolnir/claims.state''"

definition identity_lines :: "ipv4 \<Rightarrow> ipv4 \<Rightarrow> string \<Rightarrow> string list" where
  "identity_lines backhaul derived self_id =
     [''  node id:  '' @ self_id,
      ''  backhaul: '' @ show_ipv4 backhaul @ ''/'' @ decimal BACKHAUL_PREFIX_LEN @
      (if backhaul = derived then ''  (derived from node id)''
       else ''  (RE-DERIVED after collision, pt9; naive derivation would be '' @ show_ipv4 derived @ '')'')]"

definition state_file_lines :: "StatusEnv \<Rightarrow> IoEnv \<Rightarrow> FileSys \<Rightarrow> string list" where
  "state_file_lines se env fs =
     [[]] @ print_addr_book_status (se_socket_text se) (addr_book_path CLAIMS_FILE)
              (load_addr_book (dec_addr (se_codecs se)) env fs (addr_book_path CLAIMS_FILE)) @
     [[]] @ print_services_status (se_ip_text se) (service_book_v2_path CLAIMS_FILE)
              (load_service_state_v2 (dec_v2 (se_codecs se)) env fs (service_book_v2_path CLAIMS_FILE))"

definition run_status ::
  "Codec \<Rightarrow> StatusEnv \<Rightarrow> IoEnv \<Rightarrow> 'k Netlink \<Rightarrow> string option \<Rightarrow> path option \<Rightarrow> FileSys \<Rightarrow> 'k \<Rightarrow> anyhow + string list" where
  "run_status C se env nl iroh_secret secret_file fs k =
     (let p = resolve_status_secret_file C env fs secret_file;
          banner = [''mjolnir-meshd status'', ''  build:    '' @ se_build se, ''  version:  '' @ se_version se]
      in case load_secret_readonly C env iroh_secret p fs of
           Inl e \<Rightarrow> Inl e
         | Inr None \<Rightarrow>
             Inr (banner @ [''  node id:  UNKNOWN (no secret at '' @ show_path p @ '')'', ''  backhaul: UNKNOWN (no node identity)'', []] @
                  print_system_status nl None k @ state_file_lines se env fs)
         | Inr (Some secret) \<Rightarrow>
             (let self_id = public_key C secret;
                  restored = load_claims (dec_claims (se_codecs se)) env fs CLAIMS_FILE;
                  backhaul = pick_backhaul_addr (se_network se) (se_blake3 se) restored self_id
              in Inr (banner @ identity_lines backhaul (backhaul_addr (se_blake3 se) self_id) self_id @ [[]] @
                      print_system_status nl (Some backhaul) k @ state_file_lines se env fs)))"

section \<open>The identity survives\<close>

text \<open>\<open>HEXLOWER\<close>: two digits a byte, and decoding inverts encoding. Bytes below 128 are valid UTF-8.\<close>

definition codec_ok :: "Codec \<Rightarrow> bool" where
  "codec_ok C \<longleftrightarrow>
     (\<forall>bs. hexlower_decode C (hexlower_encode C bs) = Some bs) \<and>
     (\<forall>s bs. hexlower_decode C s = Some bs \<longrightarrow> length s = 2 * length bs) \<and>
     (\<forall>bs c. c \<in> set (hexlower_encode C bs) \<longrightarrow> is_ascii_hexdigit c) \<and>
     (\<forall>bs. (\<forall>b\<in>set bs. unat b < 128) \<longrightarrow> text_utf8 C bs)"

lemma codec_okD:
  assumes "codec_ok C"
  shows "hexlower_decode C (hexlower_encode C bs) = Some bs"
    and "hexlower_decode C s = Some bs \<Longrightarrow> length s = 2 * length bs"
    and "c \<in> set (hexlower_encode C bs) \<Longrightarrow> is_ascii_hexdigit c"
    and "(\<And>b. b \<in> set bs \<Longrightarrow> unat b < 128) \<Longrightarrow> text_utf8 C bs"
  using assms unfolding codec_ok_def by blast+

lemma hexdigit_byte: "is_ascii_hexdigit c \<Longrightarrow> 32 < byte c \<and> byte c < 128"
  by (auto simp: is_ascii_hexdigit_def hex_digit_def Let_def split: if_splits)

lemma encode_length: "codec_ok C \<Longrightarrow> length (hexlower_encode C bs) = 2 * length bs"
  using codec_okD(1,2) by blast

text \<open>What is written of a key, whole or in part, is read back as text, digits only.\<close>

lemma written_hex:
  assumes ok: "codec_ok C" and s: "s = take n (hexlower_encode C k)"
  shows "text_utf8 C (str_bytes s)" and "trim s = s"
proof -
  have d: "32 < byte c \<and> byte c < 128" if "c \<in> set s" for c
  proof -
    have "c \<in> set (hexlower_encode C k)" using that s by (auto dest: in_set_takeD)
    then show ?thesis by (intro hexdigit_byte codec_okD(3)[OF ok])
  qed
  show "text_utf8 C (str_bytes s)"
  proof (rule codec_okD(4)[OF ok])
    fix b assume "b \<in> set (str_bytes s)"
    then obtain c where "c \<in> set s" "b = of_nat (byte c)" by (auto simp: str_bytes_def)
    then show "unat b < 128" using d[of c] by (simp add: unat_of_nat)
  qed
  show "trim s = s"
  proof (cases "s = []")
    case False
    then show ?thesis using d[of "hd s"] d[of "last s"] by (intro trim_id) simp_all
  qed (use length_trim[of "[]"] in simp)
qed

lemma read_written_secret:
  assumes "codec_ok C" and "length k = 32" and "\<not> read_fails env p"
  shows "read_secret_file C env p (str_bytes (encode_secret_hex C k)) = Inr k"
  using assms written_hex[OF assms(1), of "hexlower_encode C k" "length (hexlower_encode C k)" k]
  by (simp add: read_secret_file_def encode_secret_hex_def parse_secret_hex_def codec_okD(1))

lemma loaded_secret_read:
  assumes ok: "codec_ok C" and g: "length generated = 32" and r: "\<not> read_fails env p"
    and l: "load_or_create_secret C env generated v (Some p) fs = (fs', Inr k)"
  shows "\<exists>contents. fs' p = Some contents \<and> read_secret_file C env p contents = Inr k"
proof (cases "fs p")
  case None
  then have "fs' p = Some (str_bytes (encode_secret_hex C generated)) \<and> k = generated"
    using l by (auto simp: load_or_create_secret_def fs_write_def split: WriteOutcome.splits)
  then show ?thesis using read_written_secret[OF ok g r] by blast
next
  case (Some contents)
  then show ?thesis using l by (auto simp: load_or_create_secret_def)
qed

lemma read_secret_env: "\<not> read_fails env p \<Longrightarrow> \<not> read_fails env' p \<Longrightarrow> read_secret_file C env' p c = read_secret_file C env p c"
  by (simp add: read_secret_file_def)

text \<open>C26. A node keeps its identity: once the daemon has started with a secret file, created by that start or found there, every
  later start that can read the file gets the same secret and leaves the file alone, whatever key it would have drawn and
  whatever \<open>IROH_SECRET\<close> says, and the status command reads the same secret.\<close>

theorem identity_survives:
  assumes "codec_ok C" and "length generated = 32" and "\<not> read_fails env p" and "\<not> read_fails env' p"
    and "load_or_create_secret C env generated iroh_secret (Some p) fs = (fs', Inr k)"
  shows "load_or_create_secret C env' generated' iroh_secret' (Some p) fs' = (fs', Inr k) \<and>
         load_secret_readonly C env' iroh_secret' p fs' = Inr (Some k)"
  using loaded_secret_read[OF assms(1-3,5)] read_secret_env[OF assms(3,4)]
  by (auto simp: load_or_create_secret_def load_secret_readonly_def)

text \<open>A codec: lower-case hexadecimal, and every text valid.\<close>

definition hex_codec :: Codec where
  "hex_codec =
     \<lparr>hexlower_encode = (\<lambda>bs. concat (map hex_byte bs)), hexlower_decode = parse_hex_pairs, base32_encode = \<lambda>_. [],
      base32_decode = \<lambda>_. None, parse_secret_key = \<lambda>_. None, public_key = \<lambda>k. concat (map hex_byte k), text_utf8 = \<lambda>_. True\<rparr>"

lemma parse_hex_length: "parse_hex_pairs s = Some bs \<Longrightarrow> length s = 2 * length bs"
  by (induction s arbitrary: bs rule: parse_hex_pairs.induct) (auto split: option.splits)

lemma hex_codec_ok: "codec_ok hex_codec"
  using hex_text_digits by (auto simp: codec_ok_def hex_codec_def hex_roundtrip parse_hex_length list_all_iff)

text \<open>Example: the first start, then one with \<open>IROH_SECRET\<close> set.\<close>

theorem identity_survives_witness:
  "load_secret_readonly hex_codec io_env_ok (Some ''x'') [''s''] [[''s''] \<mapsto> str_bytes (encode_secret_hex hex_codec (replicate 32 7))] =
     Inr (Some (replicate 32 7))"
proof -
  have "length (replicate 32 (7 :: u8)) = 32" by simp
  moreover have "load_or_create_secret hex_codec io_env_ok (replicate 32 7) None (Some [''s'']) Map.empty =
      ([[''s''] \<mapsto> str_bytes (encode_secret_hex hex_codec (replicate 32 7))], Inr (replicate 32 7))"
    by (simp add: load_or_create_secret_def fs_write_def io_env_ok_def)
  moreover have "\<not> read_fails io_env_ok [''s'']" by (simp add: io_env_ok_def)
  ultimately show ?thesis
    using identity_survives[of hex_codec "replicate 32 7" io_env_ok "[''s'']" io_env_ok None Map.empty _ _ "replicate 32 1" "Some ''x''"]
      hex_codec_ok by blast
qed

text \<open>The secret is written in place. A write cut short leaves a file that no later start accepts.\<close>

theorem torn_secret_blocks:
  assumes ok: "codec_ok C" and g: "length generated = 32" and none: "fs p = None"
    and w: "write_outcome env p = WroteOnly n" and n: "n < 64"
    and l: "load_or_create_secret C env generated iroh_secret (Some p) fs = (fs', res)"
  shows "\<exists>e. snd (load_or_create_secret C env' generated' iroh_secret' (Some p) fs') = Inl e"
proof -
  let ?s = "take n (hexlower_encode C generated)"
  have "fs' p = Some (str_bytes ?s)"
    using l none w by (auto simp: load_or_create_secret_def fs_write_def encode_secret_hex_def str_bytes_def take_map)
  moreover have "\<exists>e. parse_secret_hex C ?s = Inl e"
  proof (cases "hexlower_decode C ?s")
    case (Some bs)
    then have "length ?s = 2 * length bs" by (rule codec_okD(2)[OF ok])
    then show ?thesis using Some n encode_length[OF ok, of generated] g by (auto simp: parse_secret_hex_def)
  qed (simp add: parse_secret_hex_def)
  ultimately show ?thesis
    using written_hex(2)[OF ok refl, of n generated] by (auto simp: load_or_create_secret_def read_secret_file_def)
qed

text \<open>An IPv6 link-local or unique-local address counts as reachable from other networks.\<close>

lemma v6_local_counts_as_public:
  "is_globally_reachable (V6 (push_bit 112 0xfe80 OR 5)) \<and> is_globally_reachable (V6 (push_bit 112 0xfd00 OR 5))"
  unfolding is_globally_reachable_def by code_simp

text \<open>Any option whose name begins with \<open>secret_file\<close>, in any section, is taken for the secret file.\<close>

lemma uci_prefix_is_enough:
  "uci_option ''option name'' [''option namespace x''] = Some ''space x''"
proof -
  have "trim ''option namespace x'' = ''option namespace x''" "trim ''space x'' = ''space x''"
    by (rule trim_id; simp add: byte_def)+
  then show ?thesis by (simp add: strip_prefix_def starts_with_def trim_quotes_def is_quote_def)
qed

end
