(* ===== verification/Startup.thy ===== *)
theory Startup
  imports Tunnels Anti_Entropy Node_Status
begin

text \<open>
  How \<open>mjolnir-meshd\<close> comes up (\<open>bin/mjolnir-meshd.rs\<close>): the choice of network mode, the identity and backhaul address,
  the iroh endpoint (\<open>main\<close>, \<open>build_endpoint\<close>), and \<open>run_mesh\<close> up to the point where it waits for Ctrl-C: the order of its
  steps, the books it restores, the addresses it seeds and the tasks it spawns. The tasks themselves are modelled in the
  theories of their components.

  Parameters: the iroh builder and its \<open>bind\<close>, URL and id parsing, whether a socket can be bound and the gossip topic joined.
\<close>

section \<open>The command line\<close>

record Cli =
  cl_secret_file :: "path option"
  cl_no_relay :: bool
  cl_bind :: "SocketAddr option"
  cl_lan :: bool
  cl_relay :: "string list"
  cl_internet :: bool

record MeshArgs =
  ma_roster :: "path option"
  ma_peer :: "string list"
  ma_babel_config :: path
  ma_client_iface :: string
  ma_backhaul_iface :: string
  ma_lan_tunnels :: bool
  ma_claims_file :: path
  ma_directory_file :: path
  ma_spool_dir :: path
  ma_overlay :: bool
  ma_gateway :: bool
  ma_name :: "string option"

datatype Command =
    IdCommand
  | StatusCommand
  | Publish string "u16 option" "IpAddr option" "string option" "(string \<times> string) list"
  | Unpublish string bool
  | Listen
  | Connect string
  | TunTest
  | TunListen
  | TunConnect string
  | Mesh MeshArgs

fun mesh_mode :: "Command \<Rightarrow> bool" where
  "mesh_mode (Mesh _) = True"
| "mesh_mode _ = False"

fun overlay_mode :: "Command \<Rightarrow> bool" where
  "overlay_mode (Mesh a) = ma_overlay a"
| "overlay_mode _ = False"

definition internet_mode :: "Cli \<Rightarrow> bool" where
  "internet_mode cli \<longleftrightarrow> cl_internet cli \<or> cl_relay cli \<noteq> []"

definition lan_mode :: "Cli \<Rightarrow> Command \<Rightarrow> bool" where
  "lan_mode cli cmd \<longleftrightarrow> cl_lan cli \<or> (mesh_mode cmd \<and> \<not> internet_mode cli)"

definition no_relay_mode :: "Cli \<Rightarrow> Command \<Rightarrow> bool" where
  "no_relay_mode cli cmd \<longleftrightarrow> cl_no_relay cli \<or> lan_mode cli cmd"

definition bind_address :: "Cli \<Rightarrow> Command \<Rightarrow> ipv4 \<Rightarrow> SocketAddr option" where
  "bind_address cli cmd backhaul_ip =
     (case cl_bind cli of
        Some addr \<Rightarrow> Some addr
      | None \<Rightarrow>
          if lan_mode cli cmd \<and> mesh_mode cmd \<and> \<not> overlay_mode cmd then Some (SocketAddr (V4 backhaul_ip) MESH_IROH_PORT)
          else None)"

definition node_name_option :: "Codec \<Rightarrow> IoEnv \<Rightarrow> FileSys \<Rightarrow> string option \<Rightarrow> string option" where
  "node_name_option C env fs name =
     (case (case name of Some n \<Rightarrow> Some n | None \<Rightarrow> uci_node_name C env fs) of
        None \<Rightarrow> None
      | Some n \<Rightarrow> if trim n = [] then None else Some (trim n))"

section \<open>The endpoint\<close>

datatype Preset = Minimal | N0

datatype RelayMode = RelayDisabled | RelayCustom "string list" | RelayStaging

text \<open>Every builder sets the secret, the transport configuration and mDNS lookup; these are what differs.\<close>

record EndpointConfig =
  ec_preset :: Preset
  ec_relay_mode :: RelayMode
  ec_bind :: "SocketAddr option"
  ec_secret :: Secret

record 'e Iroh =
  ir_valid_bind :: "SocketAddr \<Rightarrow> bool"
  ir_relay_url :: "string \<Rightarrow> string option"
  ir_bind :: "EndpointConfig \<Rightarrow> string + 'e"

definition bind_or_fail :: "'e Iroh \<Rightarrow> EndpointConfig \<Rightarrow> anyhow + 'e" where
  "bind_or_fail I cfg = (case ir_bind I cfg of Inl e \<Rightarrow> Inl [''failed to bind iroh endpoint'', e] | Inr ep \<Rightarrow> Inr ep)"

fun parse_relays :: "'e Iroh \<Rightarrow> string list \<Rightarrow> string list option" where
  "parse_relays I [] = Some []"
| "parse_relays I (s # rest) =
     (case ir_relay_url I s of None \<Rightarrow> None | Some u \<Rightarrow> map_option ((#) u) (parse_relays I rest))"

definition relay_mode :: "'e Iroh \<Rightarrow> bool \<Rightarrow> string list \<Rightarrow> anyhow + RelayMode" where
  "relay_mode I no_relay relays =
     (if no_relay then Inr RelayDisabled
      else if relays \<noteq> []
      then (case parse_relays I relays of None \<Rightarrow> Inl [''invalid --relay URL''] | Some urls \<Rightarrow> Inr (RelayCustom urls))
      else Inr RelayStaging)"

definition build_endpoint ::
  "'e Iroh \<Rightarrow> Secret \<Rightarrow> bool \<Rightarrow> SocketAddr option \<Rightarrow> bool \<Rightarrow> string list \<Rightarrow> anyhow + 'e" where
  "build_endpoint I secret no_relay bind lan relays =
     (if lan then
        (let cfg = \<lparr>ec_preset = Minimal, ec_relay_mode = RelayDisabled, ec_bind = None, ec_secret = secret\<rparr>
         in case bind of
              None \<Rightarrow> bind_or_fail I cfg
            | Some addr \<Rightarrow>
                if \<not> ir_valid_bind I addr then Inl [''invalid bind address'']
                else (case ir_bind I (cfg\<lparr>ec_bind := Some addr\<rparr>) of Inr ep \<Rightarrow> Inr ep | Inl _ \<Rightarrow> bind_or_fail I cfg))
      else
        (case relay_mode I no_relay relays of
           Inl e \<Rightarrow> Inl e
         | Inr mode \<Rightarrow>
             (let cfg = \<lparr>ec_preset = N0, ec_relay_mode = mode, ec_bind = bind, ec_secret = secret\<rparr>
              in case bind of
                   None \<Rightarrow> bind_or_fail I cfg
                 | Some addr \<Rightarrow>
                     if \<not> ir_valid_bind I addr then Inl [''invalid --bind address''] else bind_or_fail I cfg)))"

text \<open>Waiting for an address: each poll is the time since the wait began, in milliseconds, and whether there is no address yet.\<close>

datatype AddrWait = HasAddress | GaveUp | Polling

fun poll_addr :: "(nat \<times> bool) list \<Rightarrow> AddrWait" where
  "poll_addr [] = Polling"
| "poll_addr ((elapsed, none_yet) # rest) =
     (if \<not> none_yet then HasAddress else if 5000 \<le> elapsed then GaveUp else poll_addr rest)"

definition wait_until_addressable ::
  "bool \<Rightarrow> (nat \<times> bool) list \<Rightarrow> string list \<Rightarrow> IpAddr list \<Rightarrow> AddrWait \<times> Reachability" where
  "wait_until_addressable no_relay polls relay_urls ips = (poll_addr polls, check_reachability relay_urls ips no_relay)"

section \<open>main\<close>

record ('k, 'e) MainEnv =
  mn_codec :: Codec
  mn_io :: IoEnv
  mn_generated :: Secret
  mn_iroh_secret :: "string option"
  mn_status :: StatusEnv
  mn_netlink :: "'k Netlink"
  mn_polls :: "(nat \<times> 'k) list"
  mn_iroh :: "'e Iroh"

record 'e Started =
  st_endpoint :: 'e
  st_secret :: Secret
  st_no_relay :: bool
  st_lan :: bool
  st_backhaul_ip :: ipv4
  st_restored :: ClaimStore
  st_l2_backhaul :: "string option"

definition restored_claims :: "('k, 'e) MainEnv \<Rightarrow> Command \<Rightarrow> FileSys \<Rightarrow> ClaimStore" where
  "restored_claims M cmd fs =
     (case cmd of Mesh a \<Rightarrow> load_claims (dec_claims (se_codecs (mn_status M))) (mn_io M) fs (ma_claims_file a) | _ \<Rightarrow> [])"

definition own_backhaul :: "('k, 'e) MainEnv \<Rightarrow> ClaimStore \<Rightarrow> Secret \<Rightarrow> ipv4" where
  "own_backhaul M restored secret =
     pick_backhaul_addr (se_network (mn_status M)) (se_blake3 (mn_status M)) restored (public_key (mn_codec M) secret)"

definition assign_backhaul :: "('k, 'e) MainEnv \<Rightarrow> Command \<Rightarrow> ipv4 \<Rightarrow> 'k \<Rightarrow> 'k \<times> string option" where
  "assign_backhaul M cmd backhaul_ip k =
     (case cmd of
        Mesh a \<Rightarrow>
          if overlay_mode cmd then (k, None)
          else assign_backhaul_addr (mn_netlink M) (ma_backhaul_iface a) backhaul_ip (mn_polls M) k
      | _ \<Rightarrow> (k, None))"

definition startup ::
  "('k, 'e) MainEnv \<Rightarrow> Cli \<Rightarrow> Command \<Rightarrow> FileSys \<Rightarrow> 'k \<Rightarrow> FileSys \<times> 'k \<times> (anyhow + 'e Started)" where
  "startup M cli cmd fs k =
     (case load_or_create_secret (mn_codec M) (mn_io M) (mn_generated M) (mn_iroh_secret M) (cl_secret_file cli) fs of
        (fs', Inl e) \<Rightarrow> (fs', k, Inl e)
      | (fs', Inr secret) \<Rightarrow>
          (let lan = lan_mode cli cmd;
               no_relay = no_relay_mode cli cmd;
               restored = restored_claims M cmd fs';
               backhaul_ip = own_backhaul M restored secret;
               (k', l2) = assign_backhaul M cmd backhaul_ip k
           in case build_endpoint (mn_iroh M) secret no_relay (bind_address cli cmd backhaul_ip) lan (cl_relay cli) of
                Inl e \<Rightarrow> (fs', k', Inl e)
              | Inr ep \<Rightarrow>
                  (fs', k', Inr \<lparr>st_endpoint = ep, st_secret = secret, st_no_relay = no_relay, st_lan = lan,
                     st_backhaul_ip = backhaul_ip, st_restored = restored, st_l2_backhaul = l2\<rparr>)))"

text \<open>The commands \<open>main\<close> runs without an endpoint, and those it runs with one. The mesh gets the backhaul interface in
  LAN mode only.\<close>

datatype 'e Job =
    RunTunTest
  | RunStatus "path option"
  | RunPublish string "u16 option" "IpAddr option" "string option" "(string \<times> string) list"
  | RunUnpublish string bool
  | PrintId "'e Started"
  | RunListen "'e Started"
  | RunConnect "'e Started" string
  | RunTunListen "'e Started"
  | RunTunConnect "'e Started" string
  | RunMesh "'e Started" MeshArgs "string option" "string option"

definition early_job :: "Cli \<Rightarrow> Command \<Rightarrow> 'e Job option" where
  "early_job cli cmd =
     (case cmd of
        TunTest \<Rightarrow> Some RunTunTest
      | StatusCommand \<Rightarrow> Some (RunStatus (cl_secret_file cli))
      | Publish name port ip mac ts \<Rightarrow> Some (RunPublish name port ip mac ts)
      | Unpublish name device \<Rightarrow> Some (RunUnpublish name device)
      | _ \<Rightarrow> None)"

definition endpoint_job :: "('k, 'e) MainEnv \<Rightarrow> FileSys \<Rightarrow> Command \<Rightarrow> 'e Started \<Rightarrow> 'e Job option" where
  "endpoint_job M fs cmd s =
     (case cmd of
        IdCommand \<Rightarrow> Some (PrintId s)
      | Listen \<Rightarrow> Some (RunListen s)
      | Connect addr \<Rightarrow> Some (RunConnect s addr)
      | TunListen \<Rightarrow> Some (RunTunListen s)
      | TunConnect addr \<Rightarrow> Some (RunTunConnect s addr)
      | Mesh a \<Rightarrow>
          Some (RunMesh s a (if st_lan s then st_l2_backhaul s else None)
                 (node_name_option (mn_codec M) (mn_io M) fs (ma_name a)))
      | _ \<Rightarrow> None)"

text \<open>\<open>None\<close> is the \<open>unreachable!\<close> arm.\<close>

definition meshd_main ::
  "('k, 'e) MainEnv \<Rightarrow> Cli \<Rightarrow> Command \<Rightarrow> FileSys \<Rightarrow> 'k \<Rightarrow> FileSys \<times> 'k \<times> (anyhow + 'e Job) option" where
  "meshd_main M cli cmd fs k =
     (case early_job cli cmd of
        Some job \<Rightarrow> (fs, k, Some (Inr job))
      | None \<Rightarrow>
          (case startup M cli cmd fs k of
             (fs', k', Inl e) \<Rightarrow> (fs', k', Some (Inl e))
           | (fs', k', Inr s) \<Rightarrow> (fs', k', map_option Inr (endpoint_job M fs' cmd s))))"

section \<open>Addresses for dialing\<close>

text \<open>An \<open>EndpointAddr\<close>, and a \<open>MemoryLookup\<close> as everything that was added to it.\<close>

record EndpointAddr =
  ep_id :: string
  ep_ip_addrs :: "SocketAddr list"
  ep_relay_url :: "string option"

type_synonym MemoryLookup = "EndpointAddr list"

definition endpoint_addr_new :: "string \<Rightarrow> EndpointAddr" where
  "endpoint_addr_new peer = \<lparr>ep_id = peer, ep_ip_addrs = [], ep_relay_url = None\<rparr>"

definition with_ip_addr :: "SocketAddr \<Rightarrow> EndpointAddr \<Rightarrow> EndpointAddr" where
  "with_ip_addr a e = e\<lparr>ep_ip_addrs := List.insert a (ep_ip_addrs e)\<rparr>"

definition feed_addr_lookup ::
  "(string \<Rightarrow> string option) \<Rightarrow> (string \<Rightarrow> string option) \<Rightarrow> PeerAddrEntry \<Rightarrow> MemoryLookup \<Rightarrow> MemoryLookup" where
  "feed_addr_lookup parse_id relay_url entry lookup =
     (case parse_id (pa_node_id entry) of
        None \<Rightarrow> lookup
      | Some peer \<Rightarrow>
          (let ep_addr = fold with_ip_addr (pa_direct_addrs entry) (endpoint_addr_new peer);
               ep_addr' = (case pa_relay_url entry of
                             None \<Rightarrow> ep_addr
                           | Some url \<Rightarrow> (case relay_url url of None \<Rightarrow> ep_addr | Some r \<Rightarrow> ep_addr\<lparr>ep_relay_url := Some r\<rparr>))
           in lookup @ [ep_addr']))"

definition lan_addr ::
  "(Ipv4Net \<Rightarrow> ipv4) \<Rightarrow> (string \<Rightarrow> u8 list) \<Rightarrow> ClaimStore \<Rightarrow> string \<Rightarrow> SocketAddr" where
  "lan_addr network blake3 claims peer = SocketAddr (V4 (peer_backhaul_hint network blake3 claims peer)) MESH_IROH_PORT"

definition seed_lookup ::
  "(Ipv4Net \<Rightarrow> ipv4) \<Rightarrow> (string \<Rightarrow> u8 list) \<Rightarrow> (string \<Rightarrow> string option) \<Rightarrow> (string \<Rightarrow> string option) \<Rightarrow> bool \<Rightarrow>
   ClaimStore \<Rightarrow> AddrBook \<Rightarrow> string list \<Rightarrow> MemoryLookup" where
  "seed_lookup network blake3 parse_id relay_url lan claims bk bootstrap =
     fold (feed_addr_lookup parse_id relay_url) (map snd bk)
       (if lan then map (\<lambda>peer. with_ip_addr (lan_addr network blake3 claims peer) (endpoint_addr_new peer)) bootstrap else [])"

section \<open>run_mesh\<close>

datatype Task =
    DnsResponder
  | OverlayWriter
  | FibMirror
  | OverlayReader
  | GossipRejoin
  | GossipDispatch
  | ClaimManager
  | AntiEntropy
  | NameClaimSweep
  | RadioTelemetry
  | ControlApi
  | BabelReconciler
  | BabelReconcilerOverlay
  | GatewayProbe
  | ConnectorLoop EndpointAddr "string option"
  | ConnectorLoopOverlay EndpointAddr "string option"

datatype MeshError =
    DnsBindFailed string
  | NoIdentity anyhow
  | RosterFailed path RosterError
  | OverlayFailed IfaceError
  | SplitFailed string

record ('k, 'h) MeshEnv =
  mv_shell :: "'k Shell"
  mv_tun :: "('k, 'h) TunKernel"
  mv_dns_bind :: "string + unit"
  mv_self_id :: string
  mv_identity :: "anyhow + string"                      \<comment> \<open>\<open>print_identity\<close>\<close>
  mv_roster_text :: "path \<Rightarrow> string + string"
  mv_parse_peer :: "string \<Rightarrow> EndpointAddr option"
  mv_parse_id :: "string \<Rightarrow> string option"
  mv_relay_url :: "string \<Rightarrow> string option"
  mv_lookup_services :: bool
  mv_subscribe :: bool
  mv_control_bind :: bool
  mv_monotonic :: u64
  mv_dial_claims :: "string \<Rightarrow> ClaimStore"             \<comment> \<open>the live claim store when a token of the roster is dialled\<close>

record 'h MeshUp =
  mu_node :: Node
  mu_peers :: "PeerEntry list"
  mu_bootstrap :: "string list"
  mu_overlay :: "('h \<times> OverlayLink) option"
  mu_lookup :: "MemoryLookup option"
  mu_tasks :: "Task list"

definition enable_ip_forwarding :: "('k, 'h) TunKernel \<Rightarrow> 'k \<Rightarrow> 'k" where
  "enable_ip_forwarding K = proc_write K ''/proc/sys/net/ipv4/ip_forward'' ''1''"

definition set_system_hostname :: "('k, 'h) TunKernel \<Rightarrow> string \<Rightarrow> 'k \<Rightarrow> 'k" where
  "set_system_hostname K name = proc_write K ''/proc/sys/kernel/hostname'' name"

definition mesh_peers :: "('k, 'h) MeshEnv \<Rightarrow> MeshArgs \<Rightarrow> MeshError + PeerEntry list" where
  "mesh_peers V a =
     (case peer_set (map_option (mv_roster_text V) (ma_roster a)) (ma_peer a) of
        Inl e \<Rightarrow> Inl (RosterFailed (the (ma_roster a)) e)
      | Inr entries \<Rightarrow> Inr entries)"

definition bring_up_overlay ::
  "('k, 'h) TunKernel \<Rightarrow> bool \<Rightarrow> ipv4 \<Rightarrow> 'k \<Rightarrow> 'k \<times> (MeshError + ('h \<times> OverlayLink) option)" where
  "bring_up_overlay K overlay backhaul_ip k =
     (if \<not> overlay then (k, Inr None)
      else
        (case spawn_overlay_tun K backhaul_ip OVERLAY_IFACE k of
           (k1, Inl e) \<Rightarrow> (k1, Inl (OverlayFailed e))
         | (k1, Inr (device, link)) \<Rightarrow>
             (case tun_split K device k1 of
                Inl e \<Rightarrow> (tun_drop K device k1, Inl (SplitFailed e))
              | Inr _ \<Rightarrow> (k1, Inr (Some (device, link))))))"

text \<open>The dialers: the peers with a higher id, in LAN mode without the overlay at their backhaul address.\<close>

definition want_tunnels :: "bool \<Rightarrow> bool \<Rightarrow> bool \<Rightarrow> bool" where
  "want_tunnels overlay lan lan_tunnels \<longleftrightarrow> overlay \<or> \<not> lan \<or> lan_tunnels"

definition dial_task ::
  "(Ipv4Net \<Rightarrow> ipv4) \<Rightarrow> (string \<Rightarrow> u8 list) \<Rightarrow> ClaimStore \<Rightarrow> string \<Rightarrow> bool \<Rightarrow> bool \<Rightarrow> EndpointAddr \<Rightarrow> string option \<Rightarrow> Task option" where
  "dial_task network blake3 claims self_id lan overlay addr label =
     (if ep_id addr = self_id then None
      else
        (let addr' = if lan \<and> \<not> overlay then with_ip_addr (lan_addr network blake3 claims (ep_id addr)) addr else addr
         in if self_id < ep_id addr
            then Some (if overlay then ConnectorLoopOverlay addr' label else ConnectorLoop addr' label)
            else None))"

definition dialers ::
  "(Ipv4Net \<Rightarrow> ipv4) \<Rightarrow> (string \<Rightarrow> u8 list) \<Rightarrow> ('k, 'h) MeshEnv \<Rightarrow> bool \<Rightarrow> bool \<Rightarrow> PeerEntry list \<Rightarrow> Task list" where
  "dialers network blake3 V lan overlay entries =
     List.map_filter
       (\<lambda>e. case mv_parse_peer V (pe_token e) of
               None \<Rightarrow> None
             | Some addr \<Rightarrow> dial_task network blake3 (mv_dial_claims V (pe_token e)) (mv_self_id V) lan overlay addr (pe_label e)) entries"

definition gossip_tasks :: "('k, 'h) MeshEnv \<Rightarrow> Task list" where
  "gossip_tasks V =
     (if mv_subscribe V
      then [GossipRejoin, GossipDispatch, ClaimManager, AntiEntropy, NameClaimSweep, RadioTelemetry] @
           (if mv_control_bind V then [ControlApi] else [])
      else [])"

definition mesh_up ::
  "('k, 'e) MainEnv \<Rightarrow> ('k, 'h) MeshEnv \<Rightarrow> 'e Started \<Rightarrow> MeshArgs \<Rightarrow> FileSys \<Rightarrow> PeerEntry list \<Rightarrow>
   ('h \<times> OverlayLink) option \<Rightarrow> 'h MeshUp" where
  "mesh_up M V s a fs entries overlay_state =
     (let se = mn_status M;
          overlay = overlay_state \<noteq> None;
          n = (boot (se_codecs se) (mn_io M) (ma_claims_file a) LIVENESS_STALE_THRESHOLD LIVENESS_HARD_EXPIRY fs)
                \<lparr>nd_claims := st_restored s\<rparr>;
          n' = n\<lparr>nd_liveness := touch (nd_liveness n) (mv_self_id V) (mv_monotonic V)\<rparr>;
          bootstrap = bootstrap_ids (\<lambda>t. map_option ep_id (mv_parse_peer V t)) (mv_self_id V) entries;
          lookup = (if mv_lookup_services V
                    then Some (seed_lookup (se_network se) (se_blake3 se) (mv_parse_id V) (mv_relay_url V) (st_lan s)
                                 (nd_claims n') (nd_addr_book n') bootstrap)
                    else None)
      in \<lparr>mu_node = n', mu_peers = entries, mu_bootstrap = bootstrap, mu_overlay = overlay_state, mu_lookup = lookup,
          mu_tasks =
            [DnsResponder] @ (if overlay then [OverlayWriter, FibMirror, OverlayReader] else []) @ gossip_tasks V @
            [if overlay then BabelReconcilerOverlay else BabelReconciler, GatewayProbe] @
            (if want_tunnels overlay (st_lan s) (ma_lan_tunnels a)
             then dialers (se_network se) (se_blake3 se) V (st_lan s) overlay entries else [])\<rparr>)"

definition run_mesh ::
  "('k, 'e) MainEnv \<Rightarrow> ('k, 'h) MeshEnv \<Rightarrow> 'e Started \<Rightarrow> MeshArgs \<Rightarrow> string option \<Rightarrow> FileSys \<Rightarrow> 'k \<Rightarrow> 'k \<times> (MeshError + 'h MeshUp)" where
  "run_mesh M V s a node_name fs k =
     (case mv_dns_bind V of
        Inl e \<Rightarrow> (k, Inl (DnsBindFailed e))
      | Inr _ \<Rightarrow>
          (let k1 = fst (reconcile_dnsmasq_uci (mv_shell V) k)
           in case mv_identity V of
                Inl e \<Rightarrow> (k1, Inl (NoIdentity e))
              | Inr _ \<Rightarrow>
                  (case mesh_peers V a of
                     Inl e \<Rightarrow> (k1, Inl e)
                   | Inr entries \<Rightarrow>
                       (case bring_up_overlay (mv_tun V) (ma_overlay a) (st_backhaul_ip s) (enable_ip_forwarding (mv_tun V) k1) of
                          (k2, Inl e) \<Rightarrow> (k2, Inl e)
                        | (k2, Inr overlay_state) \<Rightarrow>
                            (let k3 = (case node_name of None \<Rightarrow> k2 | Some n \<Rightarrow> set_system_hostname (mv_tun V) n k2)
                             in (k3, Inr (mesh_up M V s a fs entries overlay_state)))))))"

text \<open>Ctrl-C aborts these; the rest end with the process.\<close>

definition aborted_tasks :: "Task list \<Rightarrow> Task list" where
  "aborted_tasks tasks =
     filter (\<lambda>t. case t of ConnectorLoop _ _ \<Rightarrow> True | ConnectorLoopOverlay _ _ \<Rightarrow> True
                  | GossipDispatch \<Rightarrow> True | ClaimManager \<Rightarrow> True | AntiEntropy \<Rightarrow> True | GossipRejoin \<Rightarrow> True | ControlApi \<Rightarrow> True
                  | DnsResponder \<Rightarrow> True | BabelReconciler \<Rightarrow> True | BabelReconcilerOverlay \<Rightarrow> True | _ \<Rightarrow> False) tasks"

section \<open>The sweep of the name-claim spool\<close>

definition name_claim_sweep ::
  "(string \<Rightarrow> NameClaimSpool option) \<Rightarrow> string \<Rightarrow> SpoolFile list \<Rightarrow> LeasedNameBook \<Rightarrow>
   LeasedNameBook \<times> GossipMessage list \<times> Effect list" where
  "name_claim_sweep from_json self_id files bk =
     (case ingest_name_claim_spool from_json self_id files bk of
        (bk', applied, _) \<Rightarrow>
          if applied = [] then (bk', [], [])
          else (bk', map (\<lambda>(name, entry). LeasedNamePublish name entry) applied, [PersistLeasedNames bk']))"

section \<open>What startup settles\<close>

lemma startup_facts:
  assumes "startup M cli cmd fs k = (fs', k', Inr s)"
  shows "load_or_create_secret (mn_codec M) (mn_io M) (mn_generated M) (mn_iroh_secret M) (cl_secret_file cli) fs = (fs', Inr (st_secret s))"
    and "st_restored s = restored_claims M cmd fs'"
    and "st_backhaul_ip s = own_backhaul M (st_restored s) (st_secret s)"
    and "(k', st_l2_backhaul s) = assign_backhaul M cmd (st_backhaul_ip s) k"
    and "build_endpoint (mn_iroh M) (st_secret s) (no_relay_mode cli cmd) (bind_address cli cmd (st_backhaul_ip s))
           (lan_mode cli cmd) (cl_relay cli) = Inr (st_endpoint s)"
    and "st_lan s = lan_mode cli cmd"
  using assms by (auto simp: startup_def Let_def split: prod.splits sum.splits)

lemma resolved_not_lo: "resolve_backhaul nl iface polls = ResolvedIface target i \<Longrightarrow>
    target \<noteq> ''lo'' \<and> (\<exists>t kp. (t, kp) \<in> set polls \<and> ifindex nl target kp = Some i)"
proof (induction nl iface polls rule: resolve_backhaul.induct)
  case (2 nl iface elapsed kp polls)
  show ?case
  proof (cases "choose_iface iface (backhaul_candidates nl kp)")
    case None
    then show ?thesis using 2 by (auto split: if_splits)
  next
    case (Some name)
    then have "name \<in> set (backhaul_candidates nl kp)"
      by (auto simp: choose_iface_def List.member_iff split: if_splits intro: hd_in_set)
    then have "name \<noteq> ''lo''" by (auto simp: backhaul_candidates_def split: option.splits)
    then show ?thesis using 2 Some by (auto split: option.splits if_splits)
  qed
qed simp

text \<open>An interface keeps its name and index while the daemon starts.\<close>

definition links_stable :: "'k Netlink \<Rightarrow> (nat \<times> 'k) list \<Rightarrow> bool" where
  "links_stable nl polls \<longleftrightarrow>
     (\<forall>t kp name i k. (t, kp) \<in> set polls \<longrightarrow> ifindex nl name kp = Some i \<longrightarrow> link_names (nl_links nl k) i = Some name)"

lemma added_address_listed:
  assumes "kernel_ok nl"
  shows "plain_message i p a \<in> set (nl_addresses nl (fst (nl_add nl i a p k)))"
  using assms by (cases "plain_message i p a \<in> set (nl_addresses nl k)") (auto simp: kernel_ok_def)

lemma assigned_backhaul:
  assumes ok: "kernel_ok nl" and l: "links_stable nl polls"
    and a: "assign_backhaul_addr nl iface addr polls k = (k', Some target)"
  obtains i where "plain_message i BACKHAUL_PREFIX_LEN addr \<in> set (nl_addresses nl k')"
    "iface_name (link_names (nl_links nl k')) i = target" "target \<noteq> ''lo''"
proof -
  obtain i where r: "resolve_backhaul nl iface polls = ResolvedIface target i"
      and k': "k' = fst (nl_add nl i addr BACKHAUL_PREFIX_LEN k)"
    using a by (auto simp: assign_backhaul_addr_def split: sum.splits Resolved.splits prod.splits)
  have "iface_name (link_names (nl_links nl k')) i = target" "target \<noteq> ''lo''"
    using resolved_not_lo[OF r] l by (auto simp: links_stable_def iface_name_def)
  then show thesis using added_address_listed[OF ok] k' that by blast
qed

lemma first_v4_plain [simp]: "first_v4 (am_attributes (plain_message i p a)) = Some a"
  by (simp add: plain_message_def)

lemma listed_shown:
  assumes "plain_message i p a \<in> set msgs" and "iface_name names i \<noteq> ''lo''"
  shows "i \<in> set (shown_ifaces names msgs)" and "(a, p) \<in> set (iface_addrs msgs i)"
proof -
  have "\<exists>m\<in>set msgs. first_v4 (am_attributes m) \<noteq> None \<and> am_index m = i"
    using assms(1) first_v4_plain by (intro bexI[of _ "plain_message i p a"]) (simp_all add: plain_message_def)
  then show "i \<in> set (shown_ifaces names msgs)"
    using assms(2) by (auto simp: shown_ifaces_def addressed_ifaces_def)
  show "(a, p) \<in> set (iface_addrs msgs i)"
    using assms(1) unfolding iface_addrs_def List.map_filter_def
    by (intro image_eqI[of _ _ "plain_message i p a"] | simp add: plain_message_def)+
qed

text \<open>The line of an interface that carries the backhaul address.\<close>

lemma backhaul_line_shown:
  assumes "kernel_ok nl" and "plain_message i p b \<in> set (nl_addresses nl k)"
    and "iface_name (link_names (nl_links nl k)) i \<noteq> ''lo''"
  shows "iface_status_line (iface_name (link_names (nl_links nl k)) i) True (iface_addrs (nl_addresses nl k) i)
           \<in> set (print_system_status nl (Some b) k)"
proof -
  note sh = listed_shown[OF assms(2,3)]
  have "has_backhaul (Some b) (iface_addrs (nl_addresses nl k) i)"
    using sh(2) by (force simp: has_backhaul_def list_ex_iff)
  moreover have "nl_connect nl k = Inr ()" using assms(1) by (simp add: kernel_ok_def)
  ultimately show ?thesis using sh(1) by (force simp: print_system_status_def interface_lines_def Let_def)
qed

text \<open>C25. Once the daemon has started with a secret file and the default claims file, \<open>status\<close> with that secret file and whatever
  \<open>IROH_SECRET\<close> says reports the node id and the backhaul address the daemon runs with. If the backhaul interface came up,
  its line carries the address and is flagged as the backhaul.\<close>

theorem status_matches_daemon:
  fixes M :: "('k, 'e) MainEnv"
  defines "self_id secret \<equiv> public_key (mn_codec M) secret"
  assumes codec: "codec_ok (mn_codec M)" "length (mn_generated M) = 32" and read: "\<not> read_fails (mn_io M) p"
    and kernel: "kernel_ok (mn_netlink M)" "links_stable (mn_netlink M) (mn_polls M)"
    and cli: "cl_secret_file cli = Some p" "ma_claims_file a = CLAIMS_FILE"
    and started: "startup M cli (Mesh a) fs k = (fs', k', Inr s)"
  shows "\<exists>report. run_status (mn_codec M) (mn_status M) (mn_io M) (mn_netlink M) iroh_secret (Some p) fs' k' = Inr report \<and>
     set (identity_lines (st_backhaul_ip s) (backhaul_addr (se_blake3 (mn_status M)) (self_id (st_secret s))) (self_id (st_secret s)))
       \<subseteq> set report \<and>
     (\<forall>iface. st_l2_backhaul s = Some iface \<longrightarrow>
        (\<exists>addrs. (st_backhaul_ip s, BACKHAUL_PREFIX_LEN) \<in> set addrs \<and> iface_status_line iface True addrs \<in> set report))"
proof -
  note f = startup_facts[OF started]
  have "load_or_create_secret (mn_codec M) (mn_io M) (mn_generated M) (mn_iroh_secret M) (Some p) fs = (fs', Inr (st_secret s))"
    using f(1) cli(1) by simp
  from loaded_secret_read[OF codec read this]
  have sec: "load_secret_readonly (mn_codec M) (mn_io M) iroh_secret p fs' = Inr (Some (st_secret s))"
    by (auto simp: load_secret_readonly_def)
  have ip: "pick_backhaul_addr (se_network (mn_status M)) (se_blake3 (mn_status M))
      (load_claims (dec_claims (se_codecs (mn_status M))) (mn_io M) fs' CLAIMS_FILE) (self_id (st_secret s)) = st_backhaul_ip s"
    using f(2,3) cli(2) by (simp add: restored_claims_def own_backhaul_def self_id_def)
  let ?nl = "mn_netlink M" and ?b = "st_backhaul_ip s"
  obtain report where r: "run_status (mn_codec M) (mn_status M) (mn_io M) ?nl iroh_secret (Some p) fs' k' = Inr report"
    and lines: "set (identity_lines ?b (backhaul_addr (se_blake3 (mn_status M)) (self_id (st_secret s))) (self_id (st_secret s)))
       \<subseteq> set report" "set (print_system_status ?nl (Some ?b) k') \<subseteq> set report"
    using ip unfolding self_id_def run_status_def resolve_status_secret_file_def Let_def by (auto simp: sec)
  have "\<exists>addrs. (?b, BACKHAUL_PREFIX_LEN) \<in> set addrs \<and> iface_status_line iface True addrs \<in> set report"
    if l2: "st_l2_backhaul s = Some iface" for iface
  proof -
    have "assign_backhaul_addr ?nl (ma_backhaul_iface a) ?b (mn_polls M) k = (k', Some iface)"
      using f(4) l2 by (auto simp: assign_backhaul_def split: if_splits)
    then obtain i where i: "plain_message i BACKHAUL_PREFIX_LEN ?b \<in> set (nl_addresses ?nl k')"
      "iface_name (link_names (nl_links ?nl k')) i = iface" "iface \<noteq> ''lo''"
      using assigned_backhaul[OF kernel] by metis
    then have lo: "iface_name (link_names (nl_links ?nl k')) i \<noteq> ''lo''" by simp
    show ?thesis
      using backhaul_line_shown[OF kernel(1) i(1) lo] listed_shown(2)[OF i(1) lo] lines(2) i(2) by auto
  qed
  then show ?thesis using r lines(1) by blast
qed

section \<open>Dialing meets listening\<close>

lemma dial_task_loop:
  assumes "dial_task network blake3 claims me True overlay addr0 label0 = Some (ConnectorLoop addr label)"
  shows "me < ep_id addr" and "lan_addr network blake3 claims (ep_id addr) \<in> set (ep_ip_addrs addr)"
proof -
  have "me < ep_id addr0 \<and> addr = with_ip_addr (lan_addr network blake3 claims (ep_id addr0)) addr0"
    using assms unfolding dial_task_def Let_def by (simp split: if_splits)
  then show "me < ep_id addr" and "lan_addr network blake3 claims (ep_id addr) \<in> set (ep_ip_addrs addr)"
    by (simp_all add: with_ip_addr_def)
qed

lemma dialed_addr:
  assumes "run_mesh M V s a node_name fs k = (k', Inr up)" and "st_lan s" and "ConnectorLoop addr label \<in> set (mu_tasks up)"
  shows "mv_self_id V < ep_id addr"
    and "\<exists>e\<in>set (mu_peers up).
      lan_addr (se_network (mn_status M)) (se_blake3 (mn_status M)) (mv_dial_claims V (pe_token e)) (ep_id addr) \<in> set (ep_ip_addrs addr)"
proof -
  obtain entries overlay_state where up: "up = mesh_up M V s a fs entries overlay_state"
    using assms(1) by (auto simp: run_mesh_def Let_def split: sum.splits prod.splits)
  then have t: "ConnectorLoop addr label \<in> set (dialers (se_network (mn_status M)) (se_blake3 (mn_status M)) V True
      (overlay_state \<noteq> None) entries)"
    using assms(2,3) by (auto simp: mesh_up_def gossip_tasks_def Let_def split: if_splits)
  then obtain e addr0 label0 where e: "e \<in> set entries" and d: "dial_task (se_network (mn_status M)) (se_blake3 (mn_status M))
      (mv_dial_claims V (pe_token e)) (mv_self_id V) True (overlay_state \<noteq> None) addr0 label0 = Some (ConnectorLoop addr label)"
    by (auto simp: dialers_def List.map_filter_def split: option.splits)
  show "mv_self_id V < ep_id addr" using dial_task_loop(1)[OF d] .
  have "mu_peers up = entries" by (simp add: up mesh_up_def Let_def)
  then show "\<exists>e\<in>set (mu_peers up).
      lan_addr (se_network (mn_status M)) (se_blake3 (mn_status M)) (mv_dial_claims V (pe_token e)) (ep_id addr) \<in> set (ep_ip_addrs addr)"
    using dial_task_loop(2)[OF d] e by blast
qed

lemma pick_unclaimed:
  assumes "senior_backhaul_addr network store i = None" and "backhaul_addr blake3 i \<notin> set (taken_backhaul_addrs network store i)"
  shows "pick_backhaul_addr network blake3 store i = backhaul_addr blake3 i"
proof -
  have "[0..<BACKHAUL_PICK_ATTEMPTS] = 0 # [1..<BACKHAUL_PICK_ATTEMPTS]"
    by (simp add: BACKHAUL_PICK_ATTEMPTS_def upt_conv_Cons)
  then show ?thesis using assms by (simp add: pick_backhaul_addr_def backhaul_addr_def List.member_iff)
qed

text \<open>C18. In LAN mode peers meet without discovery: a dialer of one node goes to a peer with a higher id, and among the addresses it
  dials is the one the peer, started in LAN mode without \<open>--bind\<close> and \<open>--overlay\<close>, pins its endpoint to; if that bind
  succeeds it is the peer's endpoint. This holds if the claim stores the dialing node has when it dials agree with the one the
  peer started with on the peer's backhaul claim, and if moreover the peer has such a claim or no other node has claimed its
  derived address.\<close>

theorem lan_peers_meet:
  fixes M :: "('k, 'e) MainEnv" and MB :: "('j, 'f) MainEnv"
  defines "network \<equiv> se_network (mn_status M)" and "blake3 \<equiv> se_blake3 (mn_status M)"
  assumes run: "run_mesh M V s a node_name fs k = (k', Inr up)" "st_lan s" "ConnectorLoop addr label \<in> set (mu_tasks up)"
    and peer: "startup MB cliB (Mesh aB) fsB kB = (fsB', kB', Inr sB)" "cl_bind cliB = None" "lan_mode cliB (Mesh aB)" "\<not> ma_overlay aB"
      "se_network (mn_status MB) = network" "se_blake3 (mn_status MB) = blake3"
      "ep_id addr = public_key (mn_codec MB) (st_secret sB)"
    and agree: "\<forall>e\<in>set (mu_peers up). senior_backhaul_addr network (mv_dial_claims V (pe_token e)) (ep_id addr) =
      senior_backhaul_addr network (st_restored sB) (ep_id addr)"
    and free: "senior_backhaul_addr network (st_restored sB) (ep_id addr) \<noteq> None \<or>
      backhaul_addr blake3 (ep_id addr) \<notin> set (taken_backhaul_addrs network (st_restored sB) (ep_id addr))"
  shows "mv_self_id V < ep_id addr \<and>
     (\<exists>sock. bind_address cliB (Mesh aB) (st_backhaul_ip sB) = Some sock \<and> sock \<in> set (ep_ip_addrs addr) \<and>
        (\<forall>ep. ir_valid_bind (mn_iroh MB) sock \<and>
           ir_bind (mn_iroh MB) \<lparr>ec_preset = Minimal, ec_relay_mode = RelayDisabled, ec_bind = Some sock, ec_secret = st_secret sB\<rparr> = Inr ep
           \<longrightarrow> st_endpoint sB = ep))"
proof -
  note f = startup_facts[OF peer(1)]
  have "st_backhaul_ip sB = pick_backhaul_addr network blake3 (st_restored sB) (ep_id addr)"
    using f(3) peer(5-7) by (simp add: own_backhaul_def)
  moreover have "peer_backhaul_hint network blake3 (mv_dial_claims V (pe_token e)) (ep_id addr) =
      pick_backhaul_addr network blake3 (st_restored sB) (ep_id addr)" if "e \<in> set (mu_peers up)" for e
    using free agree that pick_unclaimed[of network "st_restored sB" "ep_id addr" blake3]
    by (cases "senior_backhaul_addr network (st_restored sB) (ep_id addr)")
      (simp_all add: peer_backhaul_hint_def pick_backhaul_addr_def[of network blake3 "st_restored sB"])
  ultimately have sock: "SocketAddr (V4 (st_backhaul_ip sB)) MESH_IROH_PORT \<in> set (ep_ip_addrs addr)"
    using dialed_addr(2)[OF run] by (auto simp: lan_addr_def network_def blake3_def)
  have b: "bind_address cliB (Mesh aB) (st_backhaul_ip sB) = Some (SocketAddr (V4 (st_backhaul_ip sB)) MESH_IROH_PORT)"
    using peer(2-4) by (simp add: bind_address_def)
  then have "st_endpoint sB = ep"
    if "ir_valid_bind (mn_iroh MB) (SocketAddr (V4 (st_backhaul_ip sB)) MESH_IROH_PORT)"
      "ir_bind (mn_iroh MB) \<lparr>ec_preset = Minimal, ec_relay_mode = RelayDisabled,
         ec_bind = Some (SocketAddr (V4 (st_backhaul_ip sB)) MESH_IROH_PORT), ec_secret = st_secret sB\<rparr> = Inr ep" for ep
    using f(5) that peer(3) by (simp add: build_endpoint_def Let_def)
  with sock b dialed_addr(1)[OF run] show ?thesis by blast
qed

section \<open>What a start leaves behind\<close>

lemma bring_up_overlay_spec:
  assumes ok: "tun_kernel_ok K ifs name_of" and r: "bring_up_overlay K overlay ip k = (k', res)"
  shows "case res of
      Inl e \<Rightarrow> overlay \<and> ifs k' = ifs k \<and> (\<forall>d. e \<noteq> DnsBindFailed d)
    | Inr None \<Rightarrow> \<not> overlay \<and> k' = k
    | Inr (Some (h, link)) \<Rightarrow> overlay \<and> ol_self_addr link = ip \<and>
        (\<exists>t. alone (ifs k) OVERLAY_IFACE t (ifs k') \<and> ti_up t \<and> (V4 ip, BACKHAUL_PREFIX_LEN) \<in> ti_addrs t)"
proof (cases overlay)
  case True
  obtain k1 r1 where s: "spawn_overlay_tun K ip OVERLAY_IFACE k = (k1, r1)" by fastforce
  show ?thesis
  proof (cases r1)
    case (Inl e)
    then show ?thesis using spawn_overlay_spec[OF ok s] s r True by (auto simp: bring_up_overlay_def)
  next
    case (Inr x)
    obtain h link where x: "x = (h, link)" by fastforce
    note sp = spawn_overlay_spec[OF ok s, unfolded Inr x, simplified]
    obtain t where t: "alone (ifs k) OVERLAY_IFACE t (ifs k1)" "ti_up t" "(V4 ip, BACKHAUL_PREFIX_LEN) \<in> ti_addrs t"
      using sp by blast
    have "ifs (tun_drop K h k1) = ifs k" using dropped_alone[OF ok t(1)] sp by blast
    then show ?thesis using r s Inr x True t sp by (auto simp: bring_up_overlay_def split: sum.splits)
  qed
qed (use r in \<open>auto simp: bring_up_overlay_def\<close>)

lemma dialers_only_dial: "t \<in> set (dialers network blake3 V lan overlay entries) \<Longrightarrow>
    \<exists>addr label. t = ConnectorLoop addr label \<or> t = ConnectorLoopOverlay addr label"
  by (auto simp: dialers_def dial_task_def List.map_filter_def Let_def split: option.splits if_splits)

lemma mesh_up_gossip:
  fixes V :: "('k, 'h) MeshEnv"
  defines "gossip \<equiv> {GossipRejoin, GossipDispatch, ClaimManager, AntiEntropy, NameClaimSweep, RadioTelemetry}"
  shows "gossip \<inter> set (mu_tasks (mesh_up M V s a fs entries overlay_state)) = (if mv_subscribe V then gossip else {})"
    and "ControlApi \<in> set (mu_tasks (mesh_up M V s a fs entries overlay_state)) \<longleftrightarrow> mv_subscribe V \<and> mv_control_bind V"
proof -
  let ?o = "overlay_state \<noteq> None" and ?se = "mn_status M"
  let ?d = "set (dialers (se_network ?se) (se_blake3 ?se) V (st_lan s) ?o entries)"
  have d: "gossip \<inter> ?d = {}" "ControlApi \<notin> ?d" unfolding gossip_def by (auto dest: dialers_only_dial)
  show "gossip \<inter> set (mu_tasks (mesh_up M V s a fs entries overlay_state)) = (if mv_subscribe V then gossip else {})"
    using d(1) by (auto simp: mesh_up_def Let_def gossip_tasks_def gossip_def)
  show "ControlApi \<in> set (mu_tasks (mesh_up M V s a fs entries overlay_state)) \<longleftrightarrow> mv_subscribe V \<and> mv_control_bind V"
    using d(2) by (auto simp: mesh_up_def Let_def gossip_tasks_def)
qed

text \<open>C24. What a start of the mesh leaves behind. A start that fails leaves the interfaces as they were; without the DNS socket
  it changes nothing at all, and if the identity or the roster fails afterwards only the \<open>dnsmasq\<close> configuration was reconciled.
  A start that succeeds holds the DNS socket and runs the DNS responder, the gateway probe and a babel reconciler; the gossip
  tasks run exactly if the topic could be joined, and the control API exactly if its socket could be bound too. With
  \<open>--overlay\<close> there is one new interface, up and with the node's backhaul address, and its reader, writer and route mirror run;
  without it no interface is added.\<close>

theorem run_mesh_leaves:
  assumes ok: "tun_kernel_ok (mv_tun V) ifs name_of" and shell: "\<And>k. ifs (fst (reconcile_dnsmasq_uci (mv_shell V) k)) = ifs k"
    and r: "run_mesh M V s a node_name fs k = (k', res)"
  shows "case res of
      Inl e \<Rightarrow> ifs k' = ifs k \<and> (mv_dns_bind V \<noteq> Inr () \<longrightarrow> k' = k) \<and>
        (mv_dns_bind V = Inr () \<and> (isl (mv_identity V) \<or> isl (mesh_peers V a)) \<longrightarrow> k' = fst (reconcile_dnsmasq_uci (mv_shell V) k))
    | Inr up \<Rightarrow> mv_dns_bind V = Inr () \<and> {DnsResponder, GatewayProbe} \<subseteq> set (mu_tasks up) \<and>
        ({GossipRejoin, GossipDispatch, ClaimManager, AntiEntropy, NameClaimSweep, RadioTelemetry} \<inter> set (mu_tasks up) =
           (if mv_subscribe V then {GossipRejoin, GossipDispatch, ClaimManager, AntiEntropy, NameClaimSweep, RadioTelemetry} else {})) \<and>
        (ControlApi \<in> set (mu_tasks up) \<longleftrightarrow> mv_subscribe V \<and> mv_control_bind V) \<and>
        (if ma_overlay a
         then {OverlayReader, OverlayWriter, FibMirror, BabelReconcilerOverlay} \<subseteq> set (mu_tasks up) \<and>
              (\<exists>t. alone (ifs k) OVERLAY_IFACE t (ifs k') \<and> ti_up t \<and> (V4 (st_backhaul_ip s), BACKHAUL_PREFIX_LEN) \<in> ti_addrs t)
         else BabelReconciler \<in> set (mu_tasks up) \<and> ifs k' = ifs k)"
proof (cases "mv_dns_bind V")
  case (Inl e)
  then show ?thesis using r by (auto simp: run_mesh_def)
next
  case (Inr u)
  let ?k1 = "fst (reconcile_dnsmasq_uci (mv_shell V) k)"
  let ?kf = "enable_ip_forwarding (mv_tun V) ?k1"
  have proc: "ifs ?kf = ifs k" "\<And>n k. ifs (set_system_hostname (mv_tun V) n k) = ifs k"
    using tun_kernel_okD(6)[OF ok] shell by (simp_all add: enable_ip_forwarding_def set_system_hostname_def)
  obtain k2 ov where b: "bring_up_overlay (mv_tun V) (ma_overlay a) (st_backhaul_ip s) ?kf = (k2, ov)" by fastforce
  note sp = bring_up_overlay_spec[OF ok b]
  show ?thesis
  proof (cases "isl (mv_identity V) \<or> isl (mesh_peers V a)")
    case True
    then show ?thesis using r Inr shell by (auto simp: run_mesh_def Let_def split: sum.splits)
  next
    case False
    then obtain i entries where ie: "mv_identity V = Inr i" "mesh_peers V a = Inr entries" by (cases "mv_identity V"; cases "mesh_peers V a") auto
    show ?thesis
    proof (cases ov)
      case (Inl e)
      then show ?thesis using r Inr ie b sp proc by (auto simp: run_mesh_def Let_def)
    next
      case up: (Inr overlay_state)
      have res: "res = Inr (mesh_up M V s a fs entries overlay_state)" "ifs k' = ifs k2"
        using r Inr ie b up proc by (auto simp: run_mesh_def Let_def split: option.splits)
      note g = mesh_up_gossip[of M V s a fs entries overlay_state]
      show ?thesis unfolding res sum.case using g
        using sp up proc res(2) by (cases overlay_state) (auto simp: Inr mesh_up_def Let_def)
    qed
  qed
qed

section \<open>Sweeping the spool\<close>

lemma ingest_file_replicates:
  assumes ok: "bt_ok bk" and i: "ingest_file from_json self_id bk f = (bk', app, d)"
  shows "bt_ok bk'" and "bk' = (case app of None \<Rightarrow> bk | Some (n, e) \<Rightarrow> leased_gossip bk (LeasedNamePublish n e))"
proof -
  have b: "(bk' = bk \<and> app = None) \<or> (\<exists>claim. ingest_claim self_id bk claim (sf_now f) = (bk', app))"
    using i by (auto simp: ingest_file_def split: if_splits option.splits prod.splits)
  then show "bt_ok bk'" using ok ingest_claim_ok by (metis fst_conv)
  show "bk' = (case app of None \<Rightarrow> bk | Some (n, e) \<Rightarrow> leased_gossip bk (LeasedNamePublish n e))"
  proof (cases "bk' = bk \<and> app = None")
    case False
    then obtain claim where c: "ingest_claim self_id bk claim (sf_now f) = (bk', app)" using b by blast
    have "\<not> (nc_ip claim = None \<or> \<not> name_claim_ok (nc_name claim) \<or> already_owns_other bk claim (sf_now f))"
      using c False ingest_claim_skip[of claim bk "sf_now f" self_id] by (metis prod.inject)
    then obtain ip where g: "nc_ip claim = Some ip" "name_claim_ok (nc_name claim)" "\<not> already_owns_other bk claim (sf_now f)"
      by auto
    let ?e = "claim_entry bk claim ip (now_hlc (sf_now f) self_id)"
    note eq = ingest_claim_eq[OF ok g, of self_id, unfolded c fst_conv snd_conv]
    show ?thesis
    proof (cases app)
      case None
      then obtain x where x: "bt_get bk (nc_name claim) = Some x" "\<not> leased_beats ?e x"
        using eq(2) by (auto split: option.splits if_splits)
      have "bk' = bk"
        unfolding eq(1) using ok x by (intro bt_eqI apply_leased_name_ok) (auto simp: apply_leased_name_get)
      then show ?thesis using None by simp
    next
      case (Some p)
      then have "p = (nc_name claim, ?e)" using eq(2) by (auto split: option.splits if_splits)
      then show ?thesis using Some eq(1) by (simp add: leased_gossip_def)
    qed
  qed auto
qed

lemma ingest_spool_replicates:
  assumes "bt_ok bk" and "ingest_name_claim_spool from_json self_id files bk = (bk', applied, ds)"
  shows "foldl leased_gossip bk (map (\<lambda>(n, e). LeasedNamePublish n e) applied) = bk'"
  using assms
proof (induction files arbitrary: bk applied ds)
  case (Cons f files)
  obtain b app d where i: "ingest_file from_json self_id bk f = (b, app, d)" using prod_cases3 by blast
  obtain apps ds' where r: "ingest_name_claim_spool from_json self_id files b = (bk', apps, ds')"
      and a: "applied = (case app of None \<Rightarrow> apps | Some x \<Rightarrow> x # apps)"
    using Cons.prems(2) i by (auto split: prod.splits)
  note fr = ingest_file_replicates[OF Cons.prems(1) i]
  show ?case using Cons.IH[OF fr(1) r] fr(2) a by (auto split: option.splits)
qed simp

text \<open>C27. A sweep of the name-claim spool neither loses nor hides a change: a replica with the same book that applies the sweep's
  broadcasts in order reaches the same book, and the file holds it, so a restart does too.\<close>

theorem sweep_replicates:
  assumes "bt_ok bk" and "io_ok env" and "claims_file_ok cf" and "round_trips (enc_leased cd) (dec_leased cd) bk'"
    and "load_leased_names (dec_leased cd) env fs (leased_names_path cf) = bk"
    and sw: "name_claim_sweep from_json self_id files bk = (bk', msgs, effs)"
  shows "foldl leased_gossip bk msgs = bk' \<and>
         load_leased_names (dec_leased cd) env (run_effects cd env cf effs fs) (leased_names_path cf) = bk'"
proof -
  obtain b applied ds where i: "ingest_name_claim_spool from_json self_id files bk = (b, applied, ds)" using prod_cases3 by blast
  note rep = ingest_spool_replicates[OF assms(1) i]
  show ?thesis
    using sw rep assms(5) load_persisted[OF assms(2,4)]
    by (cases "applied = []") (auto simp: name_claim_sweep_def i run_effects_def run_effect_def load_leased_names_def persist_leased_names_def)
qed

section \<open>Examples\<close>

text \<open>A node on a host with one interface and an iroh that binds every address.\<close>

definition sample_status :: StatusEnv where
  "sample_status =
     \<lparr>se_build = ''b'', se_version = ''v'', se_socket_text = \<lambda>_. [], se_ip_text = \<lambda>_. [], se_network = std_network,
      se_blake3 = \<lambda>_. replicate 32 0, se_codecs = sample_codecs\<rparr>"

definition sample_main :: "'k Netlink \<Rightarrow> (nat \<times> 'k) list \<Rightarrow> ('k, unit) MainEnv" where
  "sample_main nl polls =
     \<lparr>mn_codec = hex_codec, mn_io = io_env_ok, mn_generated = replicate 32 7, mn_iroh_secret = None, mn_status = sample_status,
      mn_netlink = nl, mn_polls = polls,
      mn_iroh = \<lparr>ir_valid_bind = \<lambda>_. True, ir_relay_url = Some, ir_bind = \<lambda>_. Inr ()\<rparr>\<rparr>"

definition sample_cli :: Cli where
  "sample_cli = \<lparr>cl_secret_file = Some [''s''], cl_no_relay = False, cl_bind = None, cl_lan = False, cl_relay = [], cl_internet = False\<rparr>"

definition sample_args :: "string list \<Rightarrow> bool \<Rightarrow> MeshArgs" where
  "sample_args tokens overlay =
     \<lparr>ma_roster = None, ma_peer = tokens, ma_babel_config = [], ma_client_iface = ''br-lan'', ma_backhaul_iface = ''br-lan'',
      ma_lan_tunnels = True, ma_claims_file = CLAIMS_FILE, ma_directory_file = [], ma_spool_dir = [], ma_overlay = overlay,
      ma_gateway = False, ma_name = None\<rparr>"

lemma sample_startup:
  obtains fs' k' where
    "startup (sample_main list_kernel [(0, [])]) sample_cli (Mesh (sample_args [] False)) Map.empty [] =
       (fs', k', Inr \<lparr>st_endpoint = (), st_secret = replicate 32 7, st_no_relay = True, st_lan = True,
          st_backhaul_ip = own_backhaul (sample_main list_kernel [(0, [])]) [] (replicate 32 7), st_restored = [],
          st_l2_backhaul = Some ''br-lan''\<rparr>)"
proof -
  let ?M = "sample_main list_kernel [(0, [])]" and ?cmd = "Mesh (sample_args [] False)"
  have c: "CLAIMS_FILE \<noteq> [''s'']" by (simp add: CLAIMS_FILE_def path_from_def)
  have r: "resolve_backhaul list_kernel ''br-lan'' [(0, [])] = ResolvedIface ''br-lan'' 7"
    by (simp add: choose_iface_def backhaul_candidates_def list_kernel_index)
      (simp add: list_kernel_def starts_with_def)
  let ?ip = "own_backhaul ?M [] (replicate 32 7)"
  obtain k' x where k': "nl_add list_kernel 7 ?ip BACKHAUL_PREFIX_LEN [] = (k', x)" by fastforce
  have secret: "\<exists>fs'. load_or_create_secret (mn_codec ?M) (mn_io ?M) (mn_generated ?M) (mn_iroh_secret ?M) (cl_secret_file sample_cli) Map.empty =
      (fs', Inr (replicate 32 7)) \<and> fs' CLAIMS_FILE = None"
    using c by (simp add: sample_main_def sample_cli_def load_or_create_secret_def fs_write_def io_env_ok_def)
  then obtain fs' where fs': "load_or_create_secret (mn_codec ?M) (mn_io ?M) (mn_generated ?M) (mn_iroh_secret ?M) (cl_secret_file sample_cli)
      Map.empty = (fs', Inr (replicate 32 7))" "fs' CLAIMS_FILE = None" by blast
  have res: "restored_claims ?M ?cmd fs' = []"
    using fs'(2) by (simp add: restored_claims_def sample_args_def load_claims_def load_state_def)
  have a: "assign_backhaul ?M ?cmd ?ip [] = (k', Some ''br-lan'')"
    using r k' by (simp add: assign_backhaul_def assign_backhaul_addr_def sample_args_def sample_main_def list_kernel_ok[unfolded kernel_ok_def])
  have e: "build_endpoint (mn_iroh ?M) sec nr b l rs = Inr ()" if "l" for sec nr b l rs
    using that by (cases b) (simp_all add: build_endpoint_def sample_main_def bind_or_fail_def Let_def)
  have m: "lan_mode sample_cli ?cmd" "no_relay_mode sample_cli ?cmd"
    by (simp_all add: lan_mode_def no_relay_mode_def internet_mode_def sample_cli_def)
  show thesis by (rule that[of fs' k']) (simp add: startup_def fs' res a e m Let_def)
qed

text \<open>Example: the first start of the node, then \<open>status\<close>.\<close>

theorem status_matches_daemon_witness:
  "\<exists>fs' k' s report. startup (sample_main list_kernel [(0, [])]) sample_cli (Mesh (sample_args [] False)) Map.empty [] = (fs', k', Inr s) \<and>
     run_status hex_codec sample_status io_env_ok list_kernel (Some ''x'') (Some [''s'']) fs' k' = Inr report \<and>
     ''  node id:  '' @ public_key hex_codec (replicate 32 7) \<in> set report \<and>
     (\<exists>addrs. iface_status_line ''br-lan'' True addrs \<in> set report)"
proof -
  let ?M = "sample_main list_kernel [(0, [])]"
  obtain fs' k' where st: "startup ?M sample_cli (Mesh (sample_args [] False)) Map.empty [] =
       (fs', k', Inr \<lparr>st_endpoint = (), st_secret = replicate 32 7, st_no_relay = True, st_lan = True,
          st_backhaul_ip = own_backhaul ?M [] (replicate 32 7), st_restored = [], st_l2_backhaul = Some ''br-lan''\<rparr>)"
    by (rule sample_startup)
  have f: "mn_codec ?M = hex_codec" "mn_io ?M = io_env_ok" "mn_netlink ?M = list_kernel" "mn_polls ?M = [(0, [])]"
    "mn_status ?M = sample_status" "length (mn_generated ?M) = 32" by (simp_all add: sample_main_def)
  have stable: "links_stable list_kernel [(0, [])]"
  proof -
    have "name = ''br-lan'' \<and> i = 7" if "ifindex list_kernel name [] = Some i" for name i
      using that list_kernel_index[of "[]"] by (cases "name = ''br-lan''") (auto simp: ifindex_def list_kernel_def)
    then show ?thesis by (auto simp: links_stable_def list_kernel_def link_names_def)
  qed
  have "\<not> read_fails io_env_ok [''s'']" "cl_secret_file sample_cli = Some [''s'']" "ma_claims_file (sample_args [] False) = CLAIMS_FILE"
    by (simp_all add: io_env_ok_def sample_cli_def sample_args_def)
  from status_matches_daemon[of ?M "[''s'']" sample_cli "sample_args [] False" Map.empty "[]" fs' k' _ "Some ''x''", unfolded f,
      OF hex_codec_ok refl this(1) list_kernel_ok stable this(2,3) st]
  obtain report where "run_status hex_codec sample_status io_env_ok list_kernel (Some ''x'') (Some [''s'']) fs' k' = Inr report"
    "''  node id:  '' @ public_key hex_codec (replicate 32 7) \<in> set report" "\<exists>addrs. iface_status_line ''br-lan'' True addrs \<in> set report"
    by (auto simp: identity_lines_def)
  with st show ?thesis by blast
qed

text \<open>Another node on a host without UCI, whose kernel grants every request and which knows peers by their ids.\<close>

definition no_uci :: "'k Shell" where
  "no_uci = \<lparr>run_uci = \<lambda>_ k. (k, Inl ''no uci''), run_sh = \<lambda>_ k. (k, NotRun ''no sh'')\<rparr>"

definition sample_mesh_env :: "((string \<times> TunIf) list, string) MeshEnv" where
  "sample_mesh_env =
     \<lparr>mv_shell = no_uci, mv_tun = sim_kernel, mv_dns_bind = Inr (), mv_self_id = ''0'', mv_identity = Inr [],
      mv_roster_text = \<lambda>_. Inl ''none'', mv_parse_peer = \<lambda>t. Some (endpoint_addr_new t), mv_parse_id = Some, mv_relay_url = Some,
      mv_lookup_services = True, mv_subscribe = True, mv_control_bind = True, mv_monotonic = 1,
      mv_dial_claims = \<lambda>_. []\<rparr>"

definition no_netlink :: "'k Netlink" where
  "no_netlink =
     \<lparr>nl_connect = \<lambda>_. Inl ''none'', nl_addresses = \<lambda>_. [], nl_add = \<lambda>_ _ _ k. (k, Inl ''none''), nl_del = \<lambda>_ k. (k, Inl ''none''),
      nl_links = \<lambda>_. [], nl_routes = \<lambda>_. [], sys_ifindex = \<lambda>_ _. None, sys_class_net = \<lambda>_. None\<rparr>"

definition sample_started :: "unit Started" where
  "sample_started =
     \<lparr>st_endpoint = (), st_secret = [], st_no_relay = True, st_lan = True, st_backhaul_ip = 5, st_restored = [], st_l2_backhaul = None\<rparr>"

lemma no_uci_reconcile: "fst (reconcile_dnsmasq_uci no_uci k) = k"
  by (simp add: reconcile_dnsmasq_uci_def uci_exists_def no_uci_def)

lemma sim_overlay: "\<exists>k h link. bring_up_overlay sim_kernel True ip [] = (k, Inr (Some (h, link)))"
  unfolding bring_up_overlay_def spawn_overlay_tun_def sim_calls prod.case sum.case configure_overlay_def link_index_def if_True not_True_eq_False if_False
  by (simp add: netlink_step sim_calls)

text \<open>Example: the other node, with the lower id, has the first as its peer.\<close>

theorem lan_peers_meet_witness:
  "\<exists>k' up addr label. run_mesh (sample_main no_netlink []) sample_mesh_env sample_started
       (sample_args [public_key hex_codec (replicate 32 7)] False) None Map.empty [] = (k', Inr up) \<and>
     ConnectorLoop addr label \<in> set (mu_tasks up) \<and>
     SocketAddr (V4 (own_backhaul (sample_main list_kernel [(0, [])]) [] (replicate 32 7))) MESH_IROH_PORT \<in> set (ep_ip_addrs addr)"
proof -
  let ?MA = "sample_main no_netlink [] :: ((string \<times> TunIf) list, unit) MainEnv" and ?MB = "sample_main list_kernel [(0, [])]"
  let ?id = "public_key hex_codec (replicate 32 7)" and ?aB = "sample_args [] False"
  let ?addr = "with_ip_addr (lan_addr std_network (\<lambda>_. replicate 32 0) [] ?id) (endpoint_addr_new ?id)"
  have "hex_byte 7 = ''07''" "replicate 32 (7 :: u8) = 7 # replicate 31 7"
    using replicate_Suc[of 31 "7 :: u8"] by (code_simp, simp)
  then have id: "?id \<noteq> ''0''" "''0'' < ?id" by (simp_all add: hex_codec_def)
  obtain k' up where up: "run_mesh ?MA sample_mesh_env sample_started (sample_args [?id] False) None Map.empty [] = (k', Inr up)"
      and task: "ConnectorLoop ?addr None \<in> set (mu_tasks up)"
    using id
    by (auto simp: run_mesh_def sample_mesh_env_def mesh_peers_def peer_set_def sample_args_def bring_up_overlay_def mesh_up_def Let_def
        want_tunnels_def dialers_def dial_task_def endpoint_addr_new_def with_ip_addr_def sample_started_def sample_main_def sample_status_def)
  obtain fsB' kB' where st: "startup ?MB sample_cli (Mesh ?aB) Map.empty [] =
       (fsB', kB', Inr \<lparr>st_endpoint = (), st_secret = replicate 32 7, st_no_relay = True, st_lan = True,
          st_backhaul_ip = own_backhaul ?MB [] (replicate 32 7), st_restored = [], st_l2_backhaul = Some ''br-lan''\<rparr>)"
    by (rule sample_startup)
  have "cl_bind sample_cli = None" "lan_mode sample_cli (Mesh ?aB)" "\<not> ma_overlay ?aB" "st_lan sample_started"
    "se_network (mn_status ?MB) = se_network (mn_status ?MA)" "se_blake3 (mn_status ?MB) = se_blake3 (mn_status ?MA)"
    "ep_id ?addr = public_key (mn_codec ?MB) (replicate 32 7)"
    by (simp_all add: sample_cli_def lan_mode_def internet_mode_def sample_args_def sample_started_def sample_main_def with_ip_addr_def
        endpoint_addr_new_def)
  moreover have "mv_dial_claims sample_mesh_env t = []" "taken_backhaul_addrs n [] i = []" for t n i
    by (simp_all add: sample_mesh_env_def taken_backhaul_addrs_def List.map_filter_def)
  ultimately have "\<exists>sock. bind_address sample_cli (Mesh ?aB) (own_backhaul ?MB [] (replicate 32 7)) = Some sock \<and> sock \<in> set (ep_ip_addrs ?addr)"
    using lan_peers_meet[OF up _ task st] by auto
  then show ?thesis using up task by (auto simp: bind_address_def sample_cli_def lan_mode_def internet_mode_def sample_args_def)
qed

text \<open>Example: the overlay comes up.\<close>

theorem run_mesh_leaves_witness:
  "\<exists>k' up t. run_mesh (sample_main no_netlink []) sample_mesh_env sample_started (sample_args [] True) None Map.empty [] = (k', Inr up) \<and>
     map_of k' OVERLAY_IFACE = Some t \<and> ti_up t \<and> OverlayReader \<in> set (mu_tasks up)"
proof -
  let ?M = "sample_main no_netlink [] :: ((string \<times> TunIf) list, unit) MainEnv" and ?a = "sample_args [] True"
  have proc: "proc_write sim_kernel p b k = k" for p b k by (simp add: sim_kernel_def)
  obtain k1 h link where "bring_up_overlay sim_kernel True (st_backhaul_ip sample_started) [] = (k1, Inr (Some (h, link)))"
    using sim_overlay by blast
  then obtain k' up where r: "run_mesh ?M sample_mesh_env sample_started ?a None Map.empty [] = (k', Inr up)"
    by (auto simp: run_mesh_def sample_mesh_env_def mesh_peers_def peer_set_def sample_args_def no_uci_reconcile enable_ip_forwarding_def
        proc Let_def)
  have "tun_kernel_ok (mv_tun sample_mesh_env) map_of (\<lambda>h. h)" "\<And>k. map_of (fst (reconcile_dnsmasq_uci (mv_shell sample_mesh_env) k)) = map_of k"
    using sim_tun_kernel_ok by (simp_all add: sample_mesh_env_def no_uci_reconcile)
  from run_mesh_leaves[OF this r] show ?thesis
    using r by (auto simp: sample_args_def alone_def)
qed

text \<open>Example: one claim in the spool of a node without names.\<close>

theorem sweep_replicates_witness:
  "\<exists>msgs effs bk'. name_claim_sweep spool_claim ''me'' [\<lparr>sf_name = ''a.json'', sf_read = Some ''blog'', sf_now = 5\<rparr>] [] = (bk', msgs, effs) \<and>
     foldl leased_gossip [] msgs = bk'"
proof -
  let ?files = "[\<lparr>sf_name = ''a.json'', sf_read = Some ''blog'', sf_now = 5\<rparr>]"
  obtain bk' msgs effs where sw: "name_claim_sweep spool_claim ''me'' ?files [] = (bk', msgs, effs)" using prod_cases3 by blast
  let ?cd = "sample_codecs\<lparr>enc_leased := \<lambda>_. Some [1], dec_leased := \<lambda>_. Some bk'\<rparr>"
  have "round_trips (enc_leased ?cd) (dec_leased ?cd) bk'" by (simp add: round_trips_def)
  moreover have "load_leased_names (dec_leased ?cd) io_env_ok Map.empty (leased_names_path ([''etc''] @ [''claims.state''])) = []"
    by (simp add: load_leased_names_def load_state_def)
  ultimately show ?thesis
    using sweep_replicates[OF bt_empty_ok io_env_ok default_claims_file_ok[of "[''etc'']"] _ _ sw, of ?cd] sw by blast
qed

end
