(* ===== verification/Diagnostics.thy ===== *)
theory Diagnostics
  imports Startup
begin

text \<open>
  The diagnostic commands of \<open>bin/mjolnir-meshd.rs\<close>: \<open>listen\<close> and \<open>connect\<close> (a datagram echo over iroh), \<open>tun-test\<close>,
  \<open>tun-connect\<close> with its wait for a direct path and its probes, and the UDP echo on the far side. What the network does is an
  input: the datagrams that arrive, the results of sends, the polls of a connection's paths.
\<close>

section \<open>listen and connect\<close>

definition PING :: string where
  "PING = ''mjolnir-ping''"

text \<open>What \<open>PingHandler\<close> sends back: each received datagram, with the error of its echo if there is one.\<close>

fun ping_handler :: "(string + bytes \<times> string option) list \<Rightarrow> bytes list" where
  "ping_handler [] = []"
| "ping_handler (Inl _ # _) = []"
| "ping_handler (Inr (dg, None) # rest) = dg # ping_handler rest"
| "ping_handler (Inr (dg, Some _) # _) = []"

datatype ConnectReport = RoundTripOk | EchoMismatch nat

definition run_connect ::
  "(string \<Rightarrow> anyhow + 'a) \<Rightarrow> ('a \<Rightarrow> string + unit) \<Rightarrow> string option \<Rightarrow> string + bytes \<Rightarrow> string \<Rightarrow> anyhow + ConnectReport" where
  "run_connect parse connect send_error echoed addr_blob =
     (case parse addr_blob of
        Inl e \<Rightarrow> Inl (''parsing peer'' # e)
      | Inr addr \<Rightarrow>
          (case connect addr of
             Inl e \<Rightarrow> Inl [''connect failed'', e]
           | Inr _ \<Rightarrow>
               (case send_error of
                  Some e \<Rightarrow> Inl [''send_datagram failed'', e]
                | None \<Rightarrow>
                    (case echoed of
                       Inl e \<Rightarrow> Inl [''no echo received'', e]
                     | Inr b \<Rightarrow> Inr (if b = str_bytes PING then RoundTripOk else EchoMismatch (length b))))))"

section \<open>tun-test\<close>

definition run_tun_test :: "('k, 'h) TunKernel \<Rightarrow> 'k \<Rightarrow> 'k \<times> (IfaceError + PeerInterface \<times> (IfaceError + unit))" where
  "run_tun_test K k =
     (case peer_interface_create K ''tuntest0'' (ipv4_of_octets 10 255 0 0) (ipv4_of_octets 10 255 0 1) k of
        (k1, Inl e) \<Rightarrow> (k1, Inl e)
      | (k1, Inr iface) \<Rightarrow> (case peer_interface_close K iface k1 of (k2, closed) \<Rightarrow> (k2, Inr (iface, closed))))"

section \<open>Probing a tunnel\<close>

definition TUN_PROBE_PORT :: u16 where
  "TUN_PROBE_PORT = 9999"

text \<open>The echo: a receive error ends it, a datagram is cut to the buffer, and a failed send is ignored.\<close>

fun udp_echo :: "(string + 'a \<times> bytes) list \<Rightarrow> ('a \<times> bytes) list" where
  "udp_echo [] = []"
| "udp_echo (Inl _ # _) = []"
| "udp_echo (Inr (sender, data) # rest) = (sender, take 1500 data) # udp_echo rest"

text \<open>Each poll: the time since the start in milliseconds and whether a path is direct. \<open>None\<close>: still polling.\<close>

fun wait_for_direct_path :: "nat \<Rightarrow> (nat \<times> bool) list \<Rightarrow> bool option" where
  "wait_for_direct_path timeout [] = None"
| "wait_for_direct_path timeout ((elapsed, direct) # rest) =
     (if direct then Some True else if timeout \<le> elapsed then Some False else wait_for_direct_path timeout rest)"

datatype ProbeReply = Datagram bytes | RecvError string | NoReply

datatype ProbeResult = SendFailed nat | PingReply nat | UnexpectedReply nat nat | RecvFailed nat | PingTimeout nat

definition probe_payload :: "nat \<Rightarrow> bytes" where
  "probe_payload i = str_bytes (''mjolnir-tun-ping-'' @ decimal i)"

definition probe :: "nat \<Rightarrow> string option \<Rightarrow> ProbeReply \<Rightarrow> ProbeResult" where
  "probe i send_error reply =
     (case send_error of
        Some _ \<Rightarrow> SendFailed i
      | None \<Rightarrow>
          (case reply of
             Datagram d \<Rightarrow>
               (let received = take 256 d
                in if received = probe_payload i then PingReply i else UnexpectedReply i (length received))
           | RecvError _ \<Rightarrow> RecvFailed i
           | NoReply \<Rightarrow> PingTimeout i))"

datatype Headline = DataPlaneWorks | NoTrafficCrossed

text \<open>The five probes, what the network did in each of them, and the summary.\<close>

definition probe_peer :: "bool \<Rightarrow> (nat \<Rightarrow> string option \<times> ProbeReply) \<Rightarrow> ProbeResult list \<times> nat \<times> bool \<times> Headline" where
  "probe_peer direct_path net =
     (let results = map (\<lambda>i. probe i (fst (net i)) (snd (net i))) [1..<6];
          ok = length (filter (\<lambda>r. case r of PingReply _ \<Rightarrow> True | _ \<Rightarrow> False) results)
      in (results, ok, direct_path, if 0 < ok then DataPlaneWorks else NoTrafficCrossed))"

definition run_tun_connect ::
  "('k, 'h) TunKernel \<Rightarrow> (string \<Rightarrow> u8 list) \<Rightarrow> string \<Rightarrow> (string \<Rightarrow> anyhow + EndpointAddr) \<Rightarrow> (EndpointAddr \<Rightarrow> string + unit) \<Rightarrow>
   (nat \<times> bool) list \<Rightarrow> (nat \<Rightarrow> string option \<times> ProbeReply) \<Rightarrow> string \<Rightarrow> 'k \<Rightarrow>
   'k \<times> (anyhow + 'h Tunnel \<times> ipv4 \<times> (ProbeResult list \<times> nat \<times> bool \<times> Headline) option)" where
  "run_tun_connect K blake3 self_id parse connect polls net addr_blob k =
     (case parse addr_blob of
        Inl e \<Rightarrow> (k, Inl (''parsing peer'' # e))
      | Inr addr \<Rightarrow>
          (case connect addr of
             Inl e \<Rightarrow> (k, Inl [''connect failed'', e])
           | Inr _ \<Rightarrow>
               (case pick_link_31 blake3 self_id (ep_id addr) of (self_addr, peer_addr) \<Rightarrow>
                  (case spawn_tunnel K (short_id (ep_id addr)) self_addr peer_addr k of
                     (k1, Inl _) \<Rightarrow> (k1, Inl [''bringing up tunnel''])
                   | (k1, Inr tunnel) \<Rightarrow>
                       (k1, Inr (tunnel, peer_addr, map_option (\<lambda>direct. probe_peer direct net) (wait_for_direct_path 10000 polls)))))))"

section \<open>What the diagnostics tell\<close>

text \<open>A peer that runs \<open>listen\<close> gives \<open>connect\<close> its round trip.\<close>

lemma connect_round_trip:
  assumes "parse blob = Inr addr" and "connect addr = Inr ()"
  shows "run_connect parse connect None (Inr (hd (ping_handler [Inr (str_bytes PING, None)]))) blob = Inr RoundTripOk"
  using assms by (simp add: run_connect_def)

text \<open>A device that is created and configured in part is gone once \<open>tun-test\<close> is over, whatever failed.\<close>

lemma create_restores:
  assumes ok: "tun_kernel_ok K ifs name_of" and c: "peer_interface_create K short a b k = (k', res)"
  shows "ifs k' = ifs k"
proof (cases "tun_create K (peer_iface_name short) None k")
  case (Pair k1 r)
  let ?n = "peer_iface_name short"
  show ?thesis
  proof (cases r)
    case (Inl e)
    then have "create_ok ifs name_of ?n k (k1, Inl e)" using tun_kernel_okD(1)[OF ok, of ?n k None] Pair by metis
    then show ?thesis using c Pair Inl by (auto simp: peer_interface_create_def create_ok_def)
  next
    case (Inr h)
    obtain t where t: "alone (ifs k) ?n t (ifs k1)" "name_of h = ?n" using create_alone[OF ok] Pair Inr by metis
    show ?thesis
    proof (cases "link_index K ?n k1")
      case (Inl e)
      then show ?thesis using c Pair Inr dropped_alone[OF ok t] by (auto simp: peer_interface_create_def Let_def)
    next
      case i: (Inr i)
      then have it: "i = ti_index t" by (rule configure_start[OF ok t(1)])
      let ?r1 = "rt_add_address K i (V4 a) 31 k1"
      let ?r2 = "rt_set_up K i False (fst ?r1)"
      obtain t1 where t1: "alone (ifs k) ?n t1 (ifs (fst ?r1))" "ti_index t1 = i"
        using alone_call[OF t(1) tun_kernel_okD(4)[OF ok, of i "V4 a" 31, unfolded it] keeps_index(1)] it by metis
      obtain t2 where t2: "alone (ifs k) ?n t2 (ifs (fst ?r2))"
        using alone_call[OF t1(1) tun_kernel_okD(5)[OF ok, of i False, folded t1(2)] keeps_index(2)] t1(2) by metis
      have "k' = tun_drop K h (fst ?r1) \<or> k' = tun_drop K h (fst ?r2)"
        using c Pair Inr unfolding peer_interface_create_def Let_def i netlink_step sum.case by (auto simp: i netlink_step split: if_splits)
      then show ?thesis using dropped_alone[OF ok t1(1) t(2)] dropped_alone[OF ok t2 t(2)] by auto
    qed
  qed
qed

theorem tun_test_restores:
  assumes ok: "tun_kernel_ok K ifs name_of" and r: "run_tun_test K k = (k', res)"
  shows "ifs k' = ifs k \<and> (\<forall>iface closed. res = Inr (iface, closed) \<longrightarrow> ifs k' (pi_name iface) = None)"
proof -
  obtain k1 r1 where c: "peer_interface_create K ''tuntest0'' (ipv4_of_octets 10 255 0 0) (ipv4_of_octets 10 255 0 1) k = (k1, r1)"
    by fastforce
  have same: "ifs k1 = ifs k" by (rule create_restores[OF ok c])
  show ?thesis
  proof (cases r1)
    case (Inl e)
    then show ?thesis using r c same by (auto simp: run_tun_test_def)
  next
    case (Inr iface)
    have gone: "ifs k1 (pi_name iface) = None" using peer_interface_gone[OF ok] c Inr by blast
    then have "rt_link K (pi_name iface) k1 \<noteq> Inr (Some i)" for i using tun_kernel_okD(3)[OF ok] by force
    then have "fst (peer_interface_close K iface k1) = k1" by (auto simp: peer_interface_close_def split: sum.splits option.splits)
    then show ?thesis using r c Inr same gone by (auto simp: run_tun_test_def split: prod.splits)
  qed
qed

text \<open>A probe succeeds exactly if its own payload comes back while it waits, and one success is enough for the headline.\<close>

lemma decimal_small: "i < 6 \<Longrightarrow> length (decimal i) = 1"
  by (simp add: decimal.simps)

lemma payload_fits: "i < 6 \<Longrightarrow> take 256 (probe_payload i) = probe_payload i"
  by (simp add: probe_payload_def str_bytes_def decimal_small)

lemma probe_hit:
  "(case probe i s r of PingReply _ \<Rightarrow> True | _ \<Rightarrow> False) \<longleftrightarrow>
     s = None \<and> (\<exists>data. r = Datagram data \<and> take 256 data = probe_payload i)"
  by (auto simp: probe_def Let_def split: option.splits ProbeReply.splits)

lemma probe_peer_headline:
  assumes "probe_peer direct net = (results, ok, d, headline)"
  shows "ok \<le> 5 \<and> (headline = DataPlaneWorks \<longleftrightarrow>
     (\<exists>i\<in>{1..<6}. fst (net i) = None \<and> (\<exists>data. snd (net i) = Datagram data \<and> take 256 data = probe_payload i)))"
proof -
  define hit where "hit = (\<lambda>r. case r of PingReply _ \<Rightarrow> True | _ \<Rightarrow> False)"
  define rs where "rs = map (\<lambda>i. probe i (fst (net i)) (snd (net i))) [1..<6]"
  have ok: "ok = length (filter hit rs)" and h: "headline = (if 0 < ok then DataPlaneWorks else NoTrafficCrossed)"
    using assms unfolding probe_peer_def Let_def hit_def[symmetric] rs_def[symmetric] by auto
  have "ok \<le> 5" unfolding ok using length_filter_le[of hit rs] by (simp add: rs_def)
  moreover have "0 < ok \<longleftrightarrow> (\<exists>r\<in>set rs. hit r)" by (auto simp: ok filter_empty_conv)
  moreover have "set rs = (\<lambda>i. probe i (fst (net i)) (snd (net i))) ` {1..<6}" by (simp only: rs_def set_map set_upt)
  ultimately show ?thesis using h by (auto simp: hit_def probe_hit)
qed

text \<open>A tunnel on which every probe comes back, but each one probe late, is reported as carrying no traffic.\<close>

theorem late_replies_not_counted:
  assumes net: "\<And>i. net i = (None, if i = 1 then NoReply else Datagram (probe_payload (i - 1)))"
  shows "snd (snd (snd (probe_peer direct net))) = NoTrafficCrossed"
proof -
  obtain results ok d headline where p: "probe_peer direct net = (results, ok, d, headline)" using prod_cases4 by blast
  have inj: "probe_payload (i - 1) \<noteq> probe_payload i" if "i \<in> {2, 3, 4, 5}" for i
  proof
    assume "probe_payload (i - 1) = probe_payload i"
    then have "bytes_str (probe_payload (i - 1)) = bytes_str (probe_payload i)" by (rule arg_cong)
    then have "decimal (i - 1) = decimal i" unfolding probe_payload_def bytes_str_bytes by (simp only: append_same_eq same_append_eq)
    then have "i - 1 = i" by (rule decimal_inj)
    then show False using that by auto
  qed
  have "headline \<noteq> DataPlaneWorks"
  proof
    assume "headline = DataPlaneWorks"
    then obtain i data where i: "i \<in> {1..<6}" "snd (net i) = Datagram data" "take 256 data = probe_payload i"
      using probe_peer_headline[OF p] by blast
    then have j: "i \<in> {2, 3, 4, 5}" "data = probe_payload (i - 1)" using net[of i] by (auto split: if_splits)
    have "i - 1 < 6" using j(1) by auto
    then show False using i(3) inj[OF j(1)] payload_fits[of "i - 1"] unfolding j(2) by metis
  qed
  then show ?thesis using p by (cases headline) simp_all
qed

end
