(* ===== verification/Node_Types.thy ===== *)
theory Node_Types
  imports Startup
begin

text \<open>
  The replicated state of a daemon under all its tasks: the steps every task of \<open>bin/mjolnir-meshd.rs\<close> takes on the shared books,
  in any interleaving, the well-formedness they keep, and that no record of another node goes back.
\<close>

section \<open>The steps of the tasks\<close>

text \<open>One step for each time a task holds the lock of a book: the gossip handler, the announcements, the beacon, the spools and
  the sweep of the anti-entropy loop, a file of the name-claim sweep, the control API's handlers, and an action of the claim
  manager. (The sweep of stale services reads its candidates under an earlier lock; it is one step here, and touches no other book.)\<close>

inductive node_step :: "string \<Rightarrow> Node \<Rightarrow> Node \<Rightarrow> bool" for me where
  message: "dispatch network me has_lookup now n g = (n', effs, code) \<Longrightarrow> node_step me n n'"
| announce_addr: "sa_self_id ctx = me \<Longrightarrow> announce_addr_book socket_text ctx now (nd_addr_book n) = (bk, msgs, effs) \<Longrightarrow>
    node_step me n (n\<lparr>nd_addr_book := bk\<rparr>)"
| announce_name: "sa_self_id ctx = me \<Longrightarrow> announce_node_name ctx now (nd_node_names n) = (bk, msgs, effs) \<Longrightarrow>
    node_step me n (n\<lparr>nd_node_names := bk\<rparr>)"
| seed_users: "announce_user_book seed seed_clock me (nd_user_book n) = (bk, msgs, effs) \<Longrightarrow> node_step me n (n\<lparr>nd_user_book := bk\<rparr>)"
| identity_file: "ingest_identity_file from_spool me (nd_user_book n) f = Inr (bk, d) \<Longrightarrow> node_step me n (n\<lparr>nd_user_book := bk\<rparr>)"
| beacon: "emit_liveness_beacon me inc ctr egress now (nd_liveness n) = (msg, ctr', lv) \<Longrightarrow> node_step me n (n\<lparr>nd_liveness := lv\<rparr>)"
| sweep: "sweep_stale_lanes (nd_services_v2 n) lv observed now retention = (v2, observed', out) \<Longrightarrow>
    node_step me n (n\<lparr>nd_services_v2 := v2\<rparr>)"
| name_file: "ingest_file from_json me (nd_leased n) f = (bk, app, d) \<Longrightarrow> node_step me n (n\<lparr>nd_leased := bk\<rparr>)"
| publish: "publish_service (nd_services_v2 n) me name entry = (v2, effs, res) \<Longrightarrow> node_step me n (n\<lparr>nd_services_v2 := v2\<rparr>)"
| unpublish: "unpublish_service (nd_services_v2 n) name me hlc = (v2, effs, outcome) \<Longrightarrow> node_step me n (n\<lparr>nd_services_v2 := v2\<rparr>)"
| backhaul_claim: "claim_backhaul_and_publish to_string clock (nd_claims n) me addr = (store, effs) \<Longrightarrow>
    node_step me n (n\<lparr>nd_claims := store\<rparr>)"
| claim_action: "perform network contains blake3 to_string clock me ok action s = s' \<Longrightarrow> node_step me (cs_node s) (cs_node s')"

inductive_cases node_stepE: "node_step me n n'"

section \<open>Well-formed nodes\<close>

text \<open>Every book is a map with one entry per key, the ordered ones in key order, and a node name is filed under the id it names.\<close>

definition names_keyed :: "NodeNameBook \<Rightarrow> bool" where
  "names_keyed bk \<longleftrightarrow> (\<forall>k e. bt_get bk k = Some e \<longrightarrow> nn_node_id e = k)"

definition node_wf :: "Node \<Rightarrow> bool" where
  "node_wf n \<longleftrightarrow>
     books_ok n \<and> bt_ok (nd_leased n) \<and> svc_ok (nd_services_v2 n) \<and> bt_ok (seen (nd_liveness n)) \<and> names_keyed (nd_node_names n)"

lemmas node_wf_defs = node_wf_def books_ok_def

lemma liveness_ok:
  "bt_ok (seen lv) \<Longrightarrow> bt_ok (seen (liveness_arm now lv g))" "bt_ok (seen lv) \<Longrightarrow> bt_ok (seen (touch lv i now))"
  by (auto simp: liveness_arm_def observe_with_egress_def touch_def map_ok Let_def split: GossipMessage.splits option.splits)

lemma subnet_ok: "hm_ok s \<Longrightarrow> hm_ok (fst (apply_subnet_message s g me))"
  by (auto simp: apply_subnet_message_def map_ok Let_def split: GossipMessage.splits MergeResult.splits option.splits if_splits)

lemma names_keyed_gossip:
  assumes "bt_ok bk" and "names_keyed bk"
  shows "names_keyed (fst (apply_node_name_message bk g me))"
  using assms
  by (auto simp: apply_node_name_message_def names_keyed_def map_simps Let_def split: GossipMessage.splits MergeResult.splits if_splits)

lemma leased_gossip_ok: "bt_ok bk \<Longrightarrow> bt_ok (leased_gossip bk g)"
  by (auto simp: leased_gossip_def map_ok split: GossipMessage.splits)

lemma dispatch_wf:
  assumes "node_wf n" and "dispatch network me lk now n g = (n', effs, code)"
  shows "node_wf n'"
proof -
  have n': "n' = fst (fst (on_message network me lk now (n, []) g))" using assms(2) by (simp add: on_message_def)
  note lanes = on_message_lanes[of network me lk now "(n, [])" g, folded n', simplified]
  show ?thesis
    using assms(1) unfolding node_wf_defs lanes
    by (simp add: pa.lww_ok ue.lww_ok nn.lww_ok se.lww_ok subnet_ok leased_gossip_ok service_gossip_ok liveness_ok names_keyed_gossip)
qed

lemma merge_own_user_ok: "bt_ok bk \<Longrightarrow> bt_ok (merge_own_user e bk)"
  by (auto simp: merge_own_user_def map_ok split: MergeResult.splits)

lemma seed_ok: "bt_ok bk \<Longrightarrow> bt_ok (fold merge_own_user es bk)"
  by (induction es arbitrary: bk) (simp_all add: merge_own_user_ok)

lemma identity_file_ok: "bt_ok bk \<Longrightarrow> ingest_identity_file from_json me bk f = Inr (bk', d) \<Longrightarrow> bt_ok bk'"
  by (auto simp: ingest_identity_file_def merge_own_user_ok split: sum.splits option.splits if_splits)

lemma sweep_ok: "svc_ok st \<Longrightarrow> sweep_stale_lanes st lv ob now ret = (st', ob', out) \<Longrightarrow> svc_ok st'"
proof -
  have r: "bt_ok m \<Longrightarrow> bt_ok (fold bt_remove ks m)" for ks and m :: "(string, 'x) btree_map"
    by (induction ks arbitrary: m) (simp_all add: map_ok)
  assume "svc_ok st" and "sweep_stale_lanes st lv ob now ret = (st', ob', out)"
  then show ?thesis by (auto simp: sweep_stale_lanes_def svc_ok_def r Let_def split: if_splits)
qed

lemma publish_ok: "svc_ok st \<Longrightarrow> publish_service st me name entry = (v2, effs, res) \<Longrightarrow> svc_ok v2"
  by (auto simp: publish_service_def publish_service_v2_def svc_ok_def svc_apply_defs map_ok Let_def
      split: svc_splits ReservedServiceName.splits)

lemma unpublish_ok: "svc_ok st \<Longrightarrow> unpublish_service st name owner hlc = (v2, effs, outcome) \<Longrightarrow> svc_ok v2"
  by (auto simp: unpublish_service_def svc_ok_def svc_apply_defs map_ok Let_def split: svc_splits)

lemma backhaul_claim_ok: "hm_ok s \<Longrightarrow> claim_backhaul_and_publish to_string clock s me addr = (store, effs) \<Longrightarrow> hm_ok store"
  by (auto simp: claim_backhaul_and_publish_def map_ok Let_def split: if_splits)

lemma perform_books:
  "perform network contains blake3 to_string clock me ok action s = s' \<Longrightarrow> hm_ok (cs_store s) \<Longrightarrow>
   \<exists>store. cs_node s' = (cs_node s)\<lparr>nd_claims := store\<rparr> \<and> hm_ok store"
proof (cases action)
  case (Do eff)
  assume "perform network contains blake3 to_string clock me ok action s = s'" "hm_ok (cs_store s)"
  then show ?thesis
    by (cases eff) (auto simp: Do perform_def carry_out_def intro: exI[of _ "cs_store s"])
qed (auto simp: perform_def set_store_def map_ok split: sum.splits intro: exI[of _ "cs_store s"])

lemma node_step_wf: "node_step me n n' \<Longrightarrow> node_wf n \<Longrightarrow> node_wf n'"
proof (induction rule: node_step.induct)
  case (message network has_lookup now n g n' effs code)
  then show ?case by (blast intro: dispatch_wf)
next
  case (announce_addr ctx socket_text now n bk msgs effs)
  then show ?case by (auto simp: node_wf_defs announce_addr_book_def map_ok Let_def)
next
  case (announce_name ctx now n bk msgs effs)
  then show ?case
    by (auto simp: node_wf_defs announce_node_name_def names_keyed_def map_ok map_simps Let_def split: option.splits if_splits)
next
  case (seed_users seed seed_clock n bk msgs effs)
  then show ?case by (auto simp: node_wf_defs announce_user_book_def seed_ok Let_def)
next
  case (identity_file from_spool n f bk d)
  then show ?case by (auto simp: node_wf_defs identity_file_ok)
next
  case (beacon inc ctr egress now n msg ctr' lv)
  then show ?case by (auto simp: node_wf_defs emit_liveness_beacon_def liveness_ok)
next
  case (sweep n lv observed now retention v2 observed' out)
  then show ?case using sweep_ok by (auto simp: node_wf_defs)
next
  case (name_file from_json n f bk app d)
  then show ?case using ingest_file_replicates(1) by (auto simp: node_wf_defs)
next
  case (publish n name entry v2 effs res)
  then show ?case using publish_ok by (auto simp: node_wf_defs)
next
  case (unpublish n name hlc v2 effs outcome)
  then show ?case using unpublish_ok by (auto simp: node_wf_defs)
next
  case (backhaul_claim to_string clock n addr store effs)
  then show ?case using backhaul_claim_ok by (auto simp: node_wf_defs)
next
  case (claim_action network contains blake3 to_string clock ok action s s')
  then show ?case using perform_books[OF claim_action.hyps] by (auto simp: node_wf_defs)
qed

section \<open>Records do not go back\<close>

text \<open>Under a key the second book has a record at least as recent as the first.\<close>

definition newer :: "('e \<Rightarrow> 's :: linorder) \<Rightarrow> (string, 'e) btree_map \<Rightarrow> (string, 'e) btree_map \<Rightarrow> string \<Rightarrow> bool" where
  "newer stamp m m' k \<longleftrightarrow> (\<forall>e. bt_get m k = Some e \<longrightarrow> (\<exists>e'. bt_get m' k = Some e' \<and> stamp e \<le> stamp e'))"

lemma newer_refl [simp]: "newer stamp m m k"
  by (simp add: newer_def)

lemma newer_trans: "newer stamp m m' k \<Longrightarrow> newer stamp m' m'' k \<Longrightarrow> newer stamp m m'' k"
  unfolding newer_def by (meson order_trans)

text \<open>A beacon is placed by its incarnation, then its counter.\<close>

definition beacon_rank :: "Seen \<Rightarrow> u64 \<times> u64" where
  "beacon_rank s = (incarnation s, seen_counter s)"

text \<open>The record under the node's own id is as before, or this node has stamped it.\<close>

definition own_record :: "string \<Rightarrow> ('e \<Rightarrow> HLC) \<Rightarrow> (string, 'e) btree_map \<Rightarrow> (string, 'e) btree_map \<Rightarrow> bool" where
  "own_record me stamp m m' \<longleftrightarrow>
     bt_get m' me = bt_get m me \<or> (\<exists>e. bt_get m' me = Some e \<and> hlc_node_id (stamp e) = me)"

lemma own_record_trans: "own_record me stamp m m' \<Longrightarrow> own_record me stamp m' m'' \<Longrightarrow> own_record me stamp m m''"
  by (auto simp: own_record_def)

definition records_kept :: "string \<Rightarrow> Node \<Rightarrow> Node \<Rightarrow> bool" where
  "records_kept me n n' \<longleftrightarrow>
     (\<forall>k. k \<noteq> me \<longrightarrow> newer pa_announced_at (nd_addr_book n) (nd_addr_book n') k \<and>
                    newer nn_announced_at (nd_node_names n) (nd_node_names n') k) \<and>
     (\<forall>k. newer ue_updated_at (nd_user_book n) (nd_user_book n') k \<and> newer se_updated_at (nd_services n) (nd_services n') k \<and>
          newer beacon_rank (seen (nd_liveness n)) (seen (nd_liveness n')) k) \<and>
     own_record me pa_announced_at (nd_addr_book n) (nd_addr_book n') \<and>
     own_record me nn_announced_at (nd_node_names n) (nd_node_names n')"

lemma records_kept_refl: "records_kept me n n"
  by (simp add: records_kept_def own_record_def)

lemma records_kept_trans: "records_kept me n n' \<Longrightarrow> records_kept me n' n'' \<Longrightarrow> records_kept me n n''"
  unfolding records_kept_def by (meson newer_trans own_record_trans)

text \<open>A message on a last-writer-wins lane.\<close>

lemma lanes_newer:
  "bt_ok a \<Longrightarrow> newer pa_announced_at a (fst (apply_peer_addr_message a g me)) k"
  "bt_ok u \<Longrightarrow> newer ue_updated_at u (fst (apply_user_message u g)) k"
  "bt_ok b \<Longrightarrow> newer nn_announced_at b (fst (apply_node_name_message b g me)) k"
  "bt_ok v \<Longrightarrow> newer se_updated_at v (fst (apply_service_message v g)) k"
  unfolding newer_def
  using pa.lww_keeps[of a k _ me "[g]"] ue.lww_keeps[of u k _ "[g]"] nn.lww_keeps[of b k _ me "[g]"] se.lww_keeps[of v k _ "[g]"]
  by simp_all

lemma lanes_own:
  "bt_get (fst (apply_peer_addr_message a g me)) me = bt_get a me" if "bt_ok a"
  using that by (auto simp: apply_peer_addr_message_def map_simps split: GossipMessage.splits MergeResult.splits if_splits)

lemma lanes_own_name:
  "bt_get (fst (apply_node_name_message b g me)) me = bt_get b me" if "bt_ok b"
  using that by (auto simp: apply_node_name_message_def map_simps split: GossipMessage.splits MergeResult.splits if_splits)

lemma beacons_newer:
  "bt_ok (seen lv) \<Longrightarrow> newer beacon_rank (seen lv) (seen (liveness_arm now lv g)) k"
  "bt_ok (seen lv) \<Longrightarrow> newer beacon_rank (seen lv) (seen (touch lv i now)) k"
  by (auto simp: newer_def beacon_rank_def liveness_arm_def observe_with_egress_def touch_def superseded_by_def map_simps Let_def
      split: GossipMessage.splits option.splits)

lemma own_user_newer: "bt_ok bk \<Longrightarrow> newer ue_updated_at bk (merge_own_user e bk) k"
  by (auto simp: newer_def merge_own_user_def lww_merge_cases map_simps split: option.splits if_splits MergeResult.splits)

lemma seed_newer: "bt_ok bk \<Longrightarrow> newer ue_updated_at bk (fold merge_own_user es bk) k"
  by (induction es arbitrary: bk) (auto intro: newer_trans own_user_newer merge_own_user_ok)

lemma node_step_keeps: "node_step me n n' \<Longrightarrow> node_wf n \<Longrightarrow> records_kept me n n'"
proof (induction rule: node_step.induct)
  case (message network has_lookup now n g n' effs code)
  have n': "n' = fst (fst (on_message network me has_lookup now (n, []) g))" using message.hyps by (simp add: on_message_def)
  note lanes = on_message_lanes[of network me has_lookup now "(n, [])" g, folded n', simplified]
  show ?case
    using message.prems unfolding records_kept_def lanes own_record_def node_wf_defs
    by (simp add: lanes_newer beacons_newer lanes_own lanes_own_name)
next
  case (announce_addr ctx socket_text now n bk msgs effs)
  then show ?case
    by (auto simp: records_kept_def own_record_def newer_def node_wf_defs announce_addr_book_def build_self_addr_entry_def peer_addr_new_def
        now_hlc_def map_simps Let_def)
next
  case (announce_name ctx now n bk msgs effs)
  then show ?case
    by (auto simp: records_kept_def own_record_def newer_def node_wf_defs announce_node_name_def now_hlc_def map_simps Let_def
        split: option.splits)
next
  case (seed_users seed seed_clock n bk msgs effs)
  then show ?case by (auto simp: records_kept_def own_record_def node_wf_defs announce_user_book_def seed_newer Let_def)
next
  case (identity_file from_spool n f bk d)
  then show ?case
    by (auto simp: records_kept_def own_record_def node_wf_defs ingest_identity_file_def own_user_newer
        split: sum.splits option.splits if_splits)
next
  case (beacon inc ctr egress now n msg ctr' lv)
  then show ?case by (auto simp: records_kept_def own_record_def node_wf_defs emit_liveness_beacon_def beacons_newer)
next
  case (claim_action network contains blake3 to_string clock ok action s s')
  then show ?case using perform_books[OF claim_action.hyps] by (auto simp: records_kept_def own_record_def node_wf_defs)
qed (auto simp: records_kept_def own_record_def)

text \<open>C19. Whatever messages arrive and however the tasks of a daemon interleave, a record of another node never goes back and never
  vanishes: from a well-formed node, the address and name records of every other node, every user record, every record of the
  first service book and the beacons heard stay or are replaced by more recent ones (by stamp, a beacon by incarnation and
  counter). The node's own address and name records are its own: each is as at the start or carries this node's stamp, so no
  message has written it; and every node name is filed under the id it names. The claim store, the second service book
  and the leased names are not spoken of: their entries may lapse or be taken over.\<close>

theorem records_never_go_back:
  assumes "node_wf n" and "(node_step me)\<^sup>*\<^sup>* n n'"
  shows "(\<forall>k. k \<noteq> me \<longrightarrow> newer pa_announced_at (nd_addr_book n) (nd_addr_book n') k \<and>
                    newer nn_announced_at (nd_node_names n) (nd_node_names n') k) \<and>
     (\<forall>k. newer ue_updated_at (nd_user_book n) (nd_user_book n') k \<and> newer se_updated_at (nd_services n) (nd_services n') k \<and>
          newer beacon_rank (seen (nd_liveness n)) (seen (nd_liveness n')) k) \<and>
     own_record me pa_announced_at (nd_addr_book n) (nd_addr_book n') \<and>
     own_record me nn_announced_at (nd_node_names n) (nd_node_names n') \<and>
     (\<forall>k e. bt_get (nd_node_names n') k = Some e \<longrightarrow> nn_node_id e = k)"
proof -
  have "node_wf n' \<and> records_kept me n n'"
    using assms(2,1)
    by (induction rule: rtranclp_induct) (blast intro: records_kept_refl records_kept_trans node_step_wf node_step_keeps)+
  then show ?thesis by (simp add: records_kept_def node_wf_def names_keyed_def)
qed

text \<open>Witness of C19: a beacon reaches a node that has heard of the sender.\<close>

theorem records_never_go_back_witness:
  "newer beacon_rank [(''a'', \<lparr>incarnation = 1, seen_counter = 1, received_at_ms = 1, seen_egress = None\<rparr>)]
     (seen (liveness_arm 5 ((tracker_new 1 1)\<lparr>seen := [(''a'', \<lparr>incarnation = 1, seen_counter = 1, received_at_ms = 1, seen_egress = None\<rparr>)]\<rparr>)
       (LivenessBeacon ''a'' 1 2 None))) ''a''"
proof -
  let ?lv = "(tracker_new 1 1)\<lparr>seen := [(''a'', \<lparr>incarnation = 1, seen_counter = 1, received_at_ms = 1, seen_egress = None\<rparr>)]\<rparr>"
  let ?n = "empty_node\<lparr>nd_liveness := ?lv\<rparr>" and ?g = "LivenessBeacon ''a'' 1 2 None"
  let ?n' = "?n\<lparr>nd_liveness := liveness_arm 5 ?lv ?g\<rparr>"
  have wf: "node_wf ?n"
    by (simp add: node_wf_defs empty_node_def svc_ok_def empty_services_def names_keyed_def tracker_new_def bt_get_def bt_ok_def map_ok)
  have "node_step ''me'' ?n ?n'"
    by (rule message[of std_network _ False 5 _ ?g _ "[]" None]) (simp add: dispatch_def)
  then have "(node_step ''me'')\<^sup>*\<^sup>* ?n ?n'" by blast
  from records_never_go_back[OF wf this] show ?thesis by simp
qed

end
