(* ===== verification/Control_Api.thy ===== *)
theory Control_Api
  imports Daemon Directory
begin

text \<open>
  The local control API of \<open>bin/mjolnir-meshd.rs\<close>: the hand-written HTTP server (request parser,
  router, handlers, response writer) and its command-line client.

  A connection is the bytes the peer sends before it closes its side, and the answer is the bytes
  written back; the requests of one daemon are handled one after the other.

  Parameters: \<open>serde_json\<close> (\<open>SerdeJson\<close>), the platform's \<open>usize::MAX\<close>, the text of socket and IP addresses
  and networks, the BLAKE3 digest, the clock.
\<close>

section \<open>UTF-8\<close>

text \<open>The byte ranges that may follow a lead byte, \<open>None\<close> when the byte leads no sequence.\<close>

definition utf8_follow :: "nat \<Rightarrow> (nat \<times> nat) list option" where
  "utf8_follow b =
     (if b < 128 then Some []
      else if 194 \<le> b \<and> b \<le> 223 then Some [(128, 191)]
      else if b = 224 then Some [(160, 191), (128, 191)]
      else if b = 237 then Some [(128, 159), (128, 191)]
      else if 225 \<le> b \<and> b \<le> 239 then Some [(128, 191), (128, 191)]
      else if b = 240 then Some [(144, 191), (128, 191), (128, 191)]
      else if 241 \<le> b \<and> b \<le> 243 then Some [(128, 191), (128, 191), (128, 191)]
      else if b = 244 then Some [(128, 143), (128, 191), (128, 191)]
      else None)"

fun utf8_matching :: "(nat \<times> nat) list \<Rightarrow> string \<Rightarrow> nat" where
  "utf8_matching ((lo, hi) # rs) (c # s) = (if lo \<le> byte c \<and> byte c \<le> hi then Suc (utf8_matching rs s) else 0)"
| "utf8_matching _ _ = 0"

text \<open>\<open>Utf8Chunks\<close>: the length of the next sequence, and whether it is a whole character.\<close>

definition utf8_step :: "char \<Rightarrow> string \<Rightarrow> nat \<times> bool" where
  "utf8_step c s =
     (case utf8_follow (byte c) of
        None \<Rightarrow> (0, False)
      | Some rs \<Rightarrow> (utf8_matching rs s, utf8_matching rs s = length rs))"

function utf8_valid :: "string \<Rightarrow> bool" where
  "utf8_valid [] \<longleftrightarrow> True"
| "utf8_valid (c # s) \<longleftrightarrow> (case utf8_step c s of (n, ok) \<Rightarrow> ok \<and> utf8_valid (drop n s))"
  by pat_completeness auto
termination by (relation "measure length") auto

text \<open>\<open>String::from_utf8_lossy\<close>: every ill-formed sequence becomes U+FFFD.\<close>

definition replacement_character :: string where
  "replacement_character = map char_of [239, 191, 189 :: nat]"

function from_utf8_lossy :: "string \<Rightarrow> string" where
  "from_utf8_lossy [] = []"
| "from_utf8_lossy (c # s) =
     (case utf8_step c s of (n, ok) \<Rightarrow>
        (if ok then c # take n s else replacement_character) @ from_utf8_lossy (drop n s))"
  by pat_completeness auto
termination by (relation "measure length") auto

section \<open>The request\<close>

definition CONTROL_API_PORT :: u16 where
  "CONTROL_API_PORT = 5380"

definition CONTROL_API_MAX_BODY :: nat where
  "CONTROL_API_MAX_BODY = 64 * 1024"

definition CONTROL_API_MAX_HEADER :: nat where
  "CONTROL_API_MAX_HEADER = 8 * 1024"

record ControlApiRequest =
  rq_method :: string
  rq_path :: string
  rq_body :: string

datatype ControlApiReadError =
    Malformed
  | HeadersTooLarge
  | BodyTooLarge
  | Io string

text \<open>\<open>AsyncBufReadExt::read_line\<close>: up to and with the next line feed, or to the end.\<close>

fun take_line :: "string \<Rightarrow> string \<times> string" where
  "take_line [] = ([], [])"
| "take_line (c # s) = (if c = CHR 0x0A then ([c], s) else (case take_line s of (l, r) \<Rightarrow> (c # l, r)))"

definition read_line :: "string \<Rightarrow> ControlApiReadError + string \<times> string" where
  "read_line inp =
     (case take_line inp of (line, rest) \<Rightarrow>
        if utf8_valid line then Inr (line, rest) else Inl (Io ''stream did not contain valid UTF-8''))"

lemma take_line_append: "take_line s = (l, r) \<Longrightarrow> s = l @ r"
  by (induction s arbitrary: l r) (auto split: if_splits prod.splits)

lemma read_line_append: "read_line s = Inr (l, r) \<Longrightarrow> s = l @ r"
  by (auto simp: read_line_def dest: take_line_append split: prod.splits if_splits)

definition eq_ignore_ascii_case :: "string \<Rightarrow> string \<Rightarrow> bool" where
  "eq_ignore_ascii_case a b \<longleftrightarrow> to_ascii_lowercase a = to_ascii_lowercase b"

text \<open>What one header line does to the content length.\<close>

definition header_line :: "nat \<Rightarrow> string \<Rightarrow> nat \<Rightarrow> nat" where
  "header_line usize_max trimmed content_length =
     (case split_once CHR '':'' trimmed of
        Some (name, val) \<Rightarrow>
          if eq_ignore_ascii_case (trim name) ''content-length''
          then (case parse_uint usize_max (trim val) of Some n \<Rightarrow> n | None \<Rightarrow> 0)
          else content_length
      | None \<Rightarrow> content_length)"

function read_headers ::
  "nat \<Rightarrow> nat \<Rightarrow> nat \<Rightarrow> string \<Rightarrow> ControlApiReadError + nat \<times> string" where
  "read_headers usize_max content_length header_bytes inp =
     (case read_line inp of
        Inl e \<Rightarrow> Inl e
      | Inr (line, rest) \<Rightarrow>
          if line = [] then Inr (content_length, rest)
          else
            (let hb = header_bytes + length line; trimmed = trim_end line
             in if CONTROL_API_MAX_HEADER < hb then Inl HeadersTooLarge
                else if trimmed = [] then Inr (content_length, rest)
                else read_headers usize_max (header_line usize_max trimmed content_length) hb rest))"
  by pat_completeness auto
termination
  by (relation "measure (\<lambda>(_, _, _, inp). length inp)") (auto dest!: read_line_append)

declare read_headers.simps [simp del]

definition control_api_read_request :: "nat \<Rightarrow> string \<Rightarrow> ControlApiReadError + ControlApiRequest" where
  "control_api_read_request usize_max inp =
     (case read_line inp of
        Inl e \<Rightarrow> Inl e
      | Inr (request_line, rest) \<Rightarrow>
          if request_line = [] then Inl (Io ''connection closed before a request line'')
          else
            (case split_whitespace request_line of
               method # path # _ \<Rightarrow>
                 (case read_headers usize_max 0 0 rest of
                    Inl e \<Rightarrow> Inl e
                  | Inr (content_length, rest') \<Rightarrow>
                      if CONTROL_API_MAX_BODY < content_length then Inl BodyTooLarge
                      else if length rest' < content_length then Inl (Io ''early eof'')
                      else Inr \<lparr>rq_method = method, rq_path = path, rq_body = take content_length rest'\<rparr>)
             | _ \<Rightarrow> Inl Malformed))"

section \<open>The response\<close>

definition crlf :: string where
  "crlf = [CHR 0x0D, CHR 0x0A]"

definition reason_phrase :: "u16 \<Rightarrow> string" where
  "reason_phrase status =
     (if status = 200 then ''OK''
      else if status = 400 then ''Bad Request''
      else if status = 404 then ''Not Found''
      else if status = 405 then ''Method Not Allowed''
      else if status = 409 then ''Conflict''
      else if status = 413 then ''Payload Too Large''
      else ''Internal Server Error'')"

definition control_api_write_response :: "u16 \<Rightarrow> string \<Rightarrow> string" where
  "control_api_write_response status resp_body =
     ''HTTP/1.1 '' @ decimal (unat status) @ '' '' @ reason_phrase status @ crlf @
     ''Content-Type: application/json'' @ crlf @
     ''Content-Length: '' @ decimal (length resp_body) @ crlf @
     ''Connection: close'' @ crlf @ crlf @ resp_body"

section \<open>Documents\<close>

datatype Json =
    JNull
  | JBool bool
  | JNumber int
  | JString string
  | JObject "(string \<times> Json) list"

record ControlApiPublishRequest =
  pr_name :: string
  pr_port :: "u16 option"
  pr_ip :: "IpAddr option"
  pr_mac :: "string option"
  pr_txt :: "(string, string) btree_map"
  pr_protocol :: string

record ControlApiUnpublishRequest =
  ur_name :: string
  ur_device :: bool

text \<open>\<open>serde_json\<close>: the encoders (\<open>None\<close> when encoding fails) and the decoders of the two requests.\<close>

record SerdeJson =
  to_vec :: "Json \<Rightarrow> string option"
  from_slice :: "string \<Rightarrow> Json option"
  publish_from_slice :: "string \<Rightarrow> ControlApiPublishRequest option"
  unpublish_from_slice :: "string \<Rightarrow> ControlApiUnpublishRequest option"
  directory_to_vec :: "DirectorySnapshot \<Rightarrow> string option"

definition control_api_default_protocol :: string where
  "control_api_default_protocol = ''_tcp''"

definition unwrap_or_default :: "string option \<Rightarrow> string" where
  "unwrap_or_default r = (case r of Some b \<Rightarrow> b | None \<Rightarrow> [])"

definition control_api_error_body :: "SerdeJson \<Rightarrow> string \<Rightarrow> string" where
  "control_api_error_body js kind = unwrap_or_default (to_vec js (JObject [(''error'', JString kind)]))"

definition control_api_owned_by_other_body :: "SerdeJson \<Rightarrow> string \<Rightarrow> string" where
  "control_api_owned_by_other_body js winner_node_id =
     unwrap_or_default (to_vec js
       (JObject [(''error'', JString ''owned_by_other''), (''winner_node_id'', JString winner_node_id)]))"

definition control_api_entry_body :: "SerdeJson \<Rightarrow> (IpAddr \<Rightarrow> string) \<Rightarrow> string \<Rightarrow> ServiceEntryV2 \<Rightarrow> string" where
  "control_api_entry_body js ip_text name entry =
     unwrap_or_default (to_vec js
       (JObject
         [(''name'', JString name),
          (''owner_node_id'', JString (s2_owner_node_id entry)),
          (''ip'', JString (ip_text (s2_ip entry))),
          (''port'', JNumber (uint (s2_port entry))),
          (''protocol'', JString (s2_protocol entry)),
          (''txt'', JObject (map (\<lambda>(k, v). (k, JString v)) (s2_txt entry)))]))"

definition status_json :: "SerdeJson \<Rightarrow> string \<Rightarrow> string" where
  "status_json js status = unwrap_or_default (to_vec js (JObject [(''status'', JString status)]))"

section \<open>The handlers\<close>

record ApiContext =
  ax_json :: SerdeJson
  ax_usize_max :: nat
  ax_network :: "Ipv4Net \<Rightarrow> ipv4"
  ax_to_string :: "IpNet \<Rightarrow> string"
  ax_socket_text :: "SocketAddr \<Rightarrow> string"
  ax_ip_text :: "IpAddr \<Rightarrow> string"
  ax_blake3 :: "string \<Rightarrow> u8 list"
  ax_self_id :: string
  ax_gateway :: "ipv4 option"
  ax_backhaul_ip :: ipv4
  ax_now :: u64

text \<open>The key, address and hardware address a publication is for.\<close>

definition publish_target ::
  "ApiContext \<Rightarrow> ControlApiPublishRequest \<Rightarrow> string + string \<times> IpAddr \<times> mac option" where
  "publish_target cx req =
     (case pr_ip req of
        Some device_ip \<Rightarrow>
          (case device_service_key (ax_blake3 cx) (pr_name req) (ax_self_id cx) of
             Inl _ \<Rightarrow> Inl ''invalid_device_name''
           | Inr key \<Rightarrow>
               (case pr_mac req of
                  Some m \<Rightarrow>
                    (case parse_host_mac m of
                       Some bytes \<Rightarrow> Inr (key, device_ip, Some bytes)
                     | None \<Rightarrow> Inl ''invalid_mac'')
                | None \<Rightarrow> Inr (key, device_ip, None)))
      | None \<Rightarrow> Inr (pr_name req, V4 (current_gateway (ax_gateway cx)), None))"

definition publish_entry ::
  "ApiContext \<Rightarrow> ControlApiPublishRequest \<Rightarrow> IpAddr \<Rightarrow> mac option \<Rightarrow> ServiceEntryV2" where
  "publish_entry cx req ip host_mac =
     (let now = now_hlc (ax_now cx) (ax_self_id cx)
      in \<lparr>s2_owner_node_id = ax_self_id cx, s2_first_claimed_at = now, s2_updated_at = now, s2_ip = ip,
          s2_port = (case pr_port req of Some p \<Rightarrow> p | None \<Rightarrow> 0), s2_protocol = pr_protocol req,
          s2_txt = pr_txt req, s2_host_mac = host_mac\<rparr>)"

definition control_api_handle_publish ::
  "ApiContext \<Rightarrow> string \<Rightarrow> ServiceStateV2 \<Rightarrow> ServiceStateV2 \<times> ServiceEffects \<times> u16 \<times> string" where
  "control_api_handle_publish cx req_body st =
     (let js = ax_json cx; self_id = ax_self_id cx
      in case publish_from_slice js req_body of
           None \<Rightarrow> (st, no_effects, 400, control_api_error_body js ''malformed_body'')
         | Some req \<Rightarrow>
             if pr_name req = [] then (st, no_effects, 400, control_api_error_body js ''malformed_body'')
             else
               (case publish_target cx req of
                  Inl kind \<Rightarrow> (st, no_effects, 400, control_api_error_body js kind)
                | Inr (key, ip, host_mac) \<Rightarrow>
                    (let entry = publish_entry cx req ip host_mac
                     in case publish_service st self_id key entry of
                          (st', effs, Inl (Reserved _)) \<Rightarrow>
                            (st', effs, 400, control_api_error_body js ''reserved'')
                        | (st', effs, Inl (LostToPeer winner_node_id)) \<Rightarrow>
                            (st', effs, 409, control_api_owned_by_other_body js winner_node_id)
                        | (st', effs, Inr (Merged (Conflict winner loser))) \<Rightarrow>
                            if s2_owner_node_id loser = self_id
                            then (st', effs, 409, control_api_owned_by_other_body js (s2_owner_node_id winner))
                            else (st', effs, 200, control_api_entry_body js (ax_ip_text cx) key winner)
                        | (st', effs, Inr (Merged _)) \<Rightarrow>
                            (st', effs, 200, control_api_entry_body js (ax_ip_text cx) key entry)
                        | (st', effs, Inr Revived) \<Rightarrow>
                            (st', effs, 200, control_api_entry_body js (ax_ip_text cx) key entry)
                        | (st', effs, Inr RejectedByTombstone) \<Rightarrow>
                            (st', effs, 409, control_api_owned_by_other_body js
                               (case bt_get (tombstones st') key of
                                  Some t \<Rightarrow> ts_owner_node_id t | None \<Rightarrow> [])))))"

definition unpublish_target :: "ApiContext \<Rightarrow> ControlApiUnpublishRequest \<Rightarrow> string + string" where
  "unpublish_target cx req =
     (if ur_device req
      then (case device_service_key (ax_blake3 cx) (ur_name req) (ax_self_id cx) of
              Inl _ \<Rightarrow> Inl ''invalid_device_name''
            | Inr key \<Rightarrow> Inr key)
      else Inr (ur_name req))"

definition control_api_handle_unpublish ::
  "ApiContext \<Rightarrow> string \<Rightarrow> ServiceStateV2 \<Rightarrow> ServiceStateV2 \<times> ServiceEffects \<times> u16 \<times> string" where
  "control_api_handle_unpublish cx req_body st =
     (let js = ax_json cx; self_id = ax_self_id cx
      in case unpublish_from_slice js req_body of
           None \<Rightarrow> (st, no_effects, 400, control_api_error_body js ''malformed_body'')
         | Some req \<Rightarrow>
             if ur_name req = [] then (st, no_effects, 400, control_api_error_body js ''malformed_body'')
             else
               (case unpublish_target cx req of
                  Inl kind \<Rightarrow> (st, no_effects, 400, control_api_error_body js kind)
                | Inr key \<Rightarrow>
                    (case unpublish_service st key self_id (now_hlc (ax_now cx) self_id) of
                       (st', effs, Unpublished) \<Rightarrow> (st', effs, 200, status_json js ''unpublished'')
                     | (st', effs, TombstoneRecorded) \<Rightarrow> (st', effs, 200, status_json js ''tombstone_recorded'')
                     | (st', effs, UnpublishUnchanged) \<Rightarrow> (st', effs, 200, status_json js ''unchanged'')
                     | (st', effs, IgnoredNotOwner) \<Rightarrow> (st', effs, 409, control_api_error_body js ''not_owner''))))"

definition control_api_handle_directory :: "ApiContext \<Rightarrow> Node \<Rightarrow> u16 \<times> string" where
  "control_api_handle_directory cx n =
     (case directory_to_vec (ax_json cx)
             (build_directory_snapshot_v2 (ax_network cx) (ax_to_string cx) (ax_socket_text cx) (ax_ip_text cx)
                (nd_claims n) (nd_addr_book n) (nd_user_book n) (book (nd_services_v2 n))
                (lost_names (nd_services_v2 n)) (nd_node_names n) (ax_self_id cx) (ax_backhaul_ip cx)) of
        Some bytes \<Rightarrow> (200, bytes)
      | None \<Rightarrow> (500, control_api_error_body (ax_json cx) ''internal''))"

section \<open>Routing and serving\<close>

definition control_api_route ::
  "ApiContext \<Rightarrow> string \<Rightarrow> string \<Rightarrow> string \<Rightarrow> Node \<Rightarrow> Node \<times> ServiceEffects \<times> u16 \<times> string" where
  "control_api_route cx method path req_body n =
     (if path = ''/v0/publish'' \<and> method = ''POST''
      then (case control_api_handle_publish cx req_body (nd_services_v2 n) of
              (st, effs, resp) \<Rightarrow> (n\<lparr>nd_services_v2 := st\<rparr>, effs, resp))
      else if path = ''/v0/unpublish'' \<and> method = ''POST''
      then (case control_api_handle_unpublish cx req_body (nd_services_v2 n) of
              (st, effs, resp) \<Rightarrow> (n\<lparr>nd_services_v2 := st\<rparr>, effs, resp))
      else if path = ''/v0/directory'' \<and> method = ''GET''
      then (n, no_effects, control_api_handle_directory cx n)
      else if path = ''/v0/publish'' \<or> path = ''/v0/unpublish'' \<or> path = ''/v0/directory''
      then (n, no_effects, 405, control_api_error_body (ax_json cx) ''method_not_allowed'')
      else (n, no_effects, 404, control_api_error_body (ax_json cx) ''not_found''))"

definition control_api_handle_conn ::
  "ApiContext \<Rightarrow> string \<Rightarrow> Node \<Rightarrow> Node \<times> ServiceEffects \<times> string option" where
  "control_api_handle_conn cx inp n =
     (let js = ax_json cx
      in case control_api_read_request (ax_usize_max cx) inp of
           Inr req \<Rightarrow>
             (case control_api_route cx (rq_method req) (rq_path req) (rq_body req) n of
                (n', effs, status, resp_body) \<Rightarrow>
                  (n', effs, Some (control_api_write_response status resp_body)))
         | Inl BodyTooLarge \<Rightarrow>
             (n, no_effects, Some (control_api_write_response 413 (control_api_error_body js ''body_too_large'')))
         | Inl HeadersTooLarge \<Rightarrow>
             (n, no_effects, Some (control_api_write_response 400 (control_api_error_body js ''headers_too_large'')))
         | Inl Malformed \<Rightarrow>
             (n, no_effects, Some (control_api_write_response 400 (control_api_error_body js ''malformed_request'')))
         | Inl (Io _) \<Rightarrow> (n, no_effects, None))"

text \<open>The accept loop: each connection with the context of its time, on the state the last one left.\<close>

fun control_api_serve ::
  "(ApiContext \<times> string) list \<Rightarrow> Node \<Rightarrow> Node \<times> ServiceEffects list \<times> string option list" where
  "control_api_serve [] n = (n, [], [])"
| "control_api_serve ((cx, inp) # conns) n =
     (case control_api_handle_conn cx inp n of
        (n', effs, resp) \<Rightarrow>
          (case control_api_serve conns n' of (n'', effss, resps) \<Rightarrow> (n'', effs # effss, resp # resps)))"

section \<open>The client\<close>

definition client_request_text :: "string \<Rightarrow> string \<Rightarrow> string \<Rightarrow> string" where
  "client_request_text method path req_body =
     method @ '' '' @ path @ '' HTTP/1.1'' @ crlf @ ''Host: localhost'' @ crlf @
     ''Content-Length: '' @ decimal (length req_body) @ crlf @ ''Connection: close'' @ crlf @ crlf @ req_body"

text \<open>\<open>resp.windows(4).position(..)\<close>: the header before the first empty line, and what follows it.\<close>

fun split_header :: "string \<Rightarrow> (string \<times> string) option" where
  "split_header [] = None"
| "split_header (c # s) =
     (if starts_with (crlf @ crlf) (c # s) then Some ([], drop 4 (c # s))
      else (case split_header s of None \<Rightarrow> None | Some (h, b) \<Rightarrow> Some (c # h, b)))"

definition client_parse_response :: "string \<Rightarrow> string + u16 \<times> string" where
  "client_parse_response resp =
     (case split_header resp of
        None \<Rightarrow> Inl ''control API response had no header/body separator''
      | Some (head, resp_body) \<Rightarrow>
          (case lines (from_utf8_lossy head) of
             [] \<Rightarrow> Inl ''control API response had no status line''
           | status_line # _ \<Rightarrow>
               (case split_whitespace status_line of
                  _ # s # _ \<Rightarrow>
                    (case parse_uint 65535 s of
                       Some status \<Rightarrow> Inr (of_nat status, resp_body)
                     | None \<Rightarrow> Inl ''control API response had no numeric status code'')
                | _ \<Rightarrow> Inl ''control API response had no numeric status code'')))"

text \<open>The transport is the connection to the daemon: an error text or the bytes it answered.\<close>

definition control_api_client_request ::
  "(string \<Rightarrow> string + string) \<Rightarrow> string \<Rightarrow> string \<Rightarrow> string \<Rightarrow> string + u16 \<times> string" where
  "control_api_client_request transport method path req_body =
     (case transport (client_request_text method path req_body) of
        Inl e \<Rightarrow> Inl e
      | Inr resp \<Rightarrow> client_parse_response resp)"

section \<open>The command line\<close>

definition parse_txt_kv :: "string \<Rightarrow> string + string \<times> string" where
  "parse_txt_kv s =
     (case split_once CHR ''='' s of
        Some (k, v) \<Rightarrow>
          if k \<noteq> [] then Inr (k, v)
          else Inl (''invalid --txt value '' @ [CHR 0x27] @ s @ [CHR 0x27] @ '': expected key=value'')
      | None \<Rightarrow> Inl (''invalid --txt value '' @ [CHR 0x27] @ s @ [CHR 0x27] @ '': expected key=value''))"

text \<open>\<open>Value::get\<close>, \<open>as_str\<close> and \<open>as_u64\<close>.\<close>

definition json_get :: "Json \<Rightarrow> string \<Rightarrow> Json option" where
  "json_get v k = (case v of JObject m \<Rightarrow> map_of m k | _ \<Rightarrow> None)"

definition as_str :: "Json \<Rightarrow> string option" where
  "as_str v = (case v of JString s \<Rightarrow> Some s | _ \<Rightarrow> None)"

definition as_u64 :: "Json \<Rightarrow> nat option" where
  "as_u64 v = (case v of JNumber i \<Rightarrow> if 0 \<le> i \<and> i < 2 ^ 64 then Some (nat i) else None | _ \<Rightarrow> None)"

definition json_str :: "Json \<Rightarrow> string \<Rightarrow> string option" where
  "json_str v k = Option.bind (json_get v k) as_str"

definition parsed_or_null :: "SerdeJson \<Rightarrow> string \<Rightarrow> Json" where
  "parsed_or_null js b = (case from_slice js b of Some v \<Rightarrow> v | None \<Rightarrow> JNull)"

definition quoted :: "string \<Rightarrow> string" where
  "quoted s = [CHR 0x27] @ s @ [CHR 0x27]"

definition control_api_connection_error_message :: "string \<Rightarrow> string" where
  "control_api_connection_error_message e =
     ''meshd control API unreachable at 127.0.0.1:'' @ decimal (unat CONTROL_API_PORT) @ '' '' @ em_dash @
     '' is the daemon running? ('' @ e @ '')''"

definition control_api_publish_error_message :: "SerdeJson \<Rightarrow> string \<Rightarrow> u16 \<Rightarrow> string \<Rightarrow> string" where
  "control_api_publish_error_message js name status resp_body =
     (let err = parsed_or_null js resp_body; cannot = ''cannot publish '' @ quoted name @ '': ''
      in case json_str err ''error'' of
           None \<Rightarrow> cannot @ ''control API returned '' @ decimal (unat status)
         | Some kind \<Rightarrow>
             if kind = ''reserved'' then cannot @ ''name is reserved and unclaimable''
             else if kind = ''owned_by_other''
             then cannot @ ''already owned by node '' @
                  (case json_str err ''winner_node_id'' of Some w \<Rightarrow> w | None \<Rightarrow> ''unknown'')
             else if kind = ''malformed_body'' then cannot @ ''malformed request''
             else if kind = ''invalid_device_name''
             then cannot @ ''invalid device host label (use a single DNS label, e.g. `nas`)''
             else if kind = ''invalid_mac'' then cannot @ ''invalid --mac (expected aa:bb:cc:dd:ee:ff)''
             else cannot @ ''control API returned '' @ decimal (unat status) @ '' ('' @ kind @ '')'')"

definition control_api_unpublish_error_message :: "SerdeJson \<Rightarrow> string \<Rightarrow> u16 \<Rightarrow> string \<Rightarrow> string" where
  "control_api_unpublish_error_message js name status resp_body =
     (let err = parsed_or_null js resp_body; cannot = ''cannot unpublish '' @ quoted name @ '': ''
      in case json_str err ''error'' of
           None \<Rightarrow> cannot @ ''control API returned '' @ decimal (unat status)
         | Some kind \<Rightarrow>
             if kind = ''not_owner'' then cannot @ ''not owned by this node''
             else if kind = ''malformed_body'' then cannot @ ''malformed request''
             else if kind = ''invalid_device_name''
             then cannot @ ''invalid device host label (use a single DNS label, e.g. `nas`)''
             else cannot @ ''control API returned '' @ decimal (unat status) @ '' ('' @ kind @ '')'')"

text \<open>The documents the command line sends; \<open>collect\<close> into a \<open>BTreeMap\<close> keeps the last of equal keys.\<close>

definition publish_document ::
  "(IpAddr \<Rightarrow> string) \<Rightarrow> string \<Rightarrow> u16 option \<Rightarrow> IpAddr option \<Rightarrow> string option \<Rightarrow> (string \<times> string) list \<Rightarrow> Json" where
  "publish_document ip_text name port ip mac txt =
     (let txt_map = fold (\<lambda>(k, v). bt_insert k v) txt []
      in JObject
           ([(''name'', JString name), (''txt'', JObject (map (\<lambda>(k, v). (k, JString v)) txt_map))] @
            (case port of Some p \<Rightarrow> [(''port'', JNumber (uint p))] | None \<Rightarrow> []) @
            (case ip of Some a \<Rightarrow> [(''ip'', JString (ip_text a))] | None \<Rightarrow> []) @
            (case mac of Some m \<Rightarrow> [(''mac'', JString m)] | None \<Rightarrow> [])))"

text \<open>What the commands print, or the error they end with.\<close>

definition run_publish_cli ::
  "SerdeJson \<Rightarrow> (IpAddr \<Rightarrow> string) \<Rightarrow> (string \<Rightarrow> string + string) \<Rightarrow> string \<Rightarrow> u16 option \<Rightarrow> IpAddr option \<Rightarrow>
   string option \<Rightarrow> (string \<times> string) list \<Rightarrow> string + string" where
  "run_publish_cli js ip_text transport name port ip mac txt =
     (case to_vec js (publish_document ip_text name port ip mac txt) of
        None \<Rightarrow> Inl ''json''
      | Some req_body \<Rightarrow>
          (case control_api_client_request transport ''POST'' ''/v0/publish'' req_body of
             Inl e \<Rightarrow> Inl (control_api_connection_error_message e)
           | Inr (status, resp_body) \<Rightarrow>
               if status = 200
               then (let entry = parsed_or_null js resp_body
                     in Inr (''published '' @ (case json_str entry ''name'' of Some r \<Rightarrow> r | None \<Rightarrow> name) @
                             ''.mesh  ip='' @ (case json_str entry ''ip'' of Some a \<Rightarrow> a | None \<Rightarrow> ''?'') @
                             '' port='' @
                             decimal (case Option.bind (json_get entry ''port'') as_u64 of Some p \<Rightarrow> p | None \<Rightarrow> 0)))
               else Inl (control_api_publish_error_message js name status resp_body)))"

definition run_unpublish_cli ::
  "SerdeJson \<Rightarrow> (string \<Rightarrow> string + string) \<Rightarrow> string \<Rightarrow> bool \<Rightarrow> string + string" where
  "run_unpublish_cli js transport name device =
     (case to_vec js (JObject [(''name'', JString name), (''device'', JBool device)]) of
        None \<Rightarrow> Inl ''json''
      | Some req_body \<Rightarrow>
          (case control_api_client_request transport ''POST'' ''/v0/unpublish'' req_body of
             Inl e \<Rightarrow> Inl (control_api_connection_error_message e)
           | Inr (status, resp_body) \<Rightarrow>
               if status = 200
               then Inr (''unpublished '' @ name @ '': '' @
                         (case json_str (parsed_or_null js resp_body) ''status'' of Some s \<Rightarrow> s | None \<Rightarrow> ''unknown''))
               else Inl (control_api_unpublish_error_message js name status resp_body)))"

section \<open>Reading what was written\<close>

text \<open>A line of visible text, spaces and no line breaks, as the two sides write them.\<close>

definition printable :: "string \<Rightarrow> bool" where
  "printable s \<longleftrightarrow> (\<forall>c\<in>set s. 32 \<le> byte c \<and> byte c < 128)"

lemma printable_append [simp]: "printable (a @ b) \<longleftrightarrow> printable a \<and> printable b"
  by (auto simp: printable_def)

lemma printable_Cons: "printable (c # s) \<longleftrightarrow> 32 \<le> byte c \<and> byte c < 128 \<and> printable s"
  by (auto simp: printable_def)

lemma printable_decimal [simp]: "printable (decimal n)"
  using decimal_visible[of n] by (auto simp: printable_def visible_def)

lemma utf8_ascii: "\<forall>c\<in>set s. byte c < 128 \<Longrightarrow> utf8_valid s"
  by (induction s) (auto simp: utf8_step_def utf8_follow_def)

lemma lossy_ascii: "\<forall>c\<in>set s. byte c < 128 \<Longrightarrow> from_utf8_lossy s = s"
  by (induction s) (auto simp: utf8_step_def utf8_follow_def)

lemma printable_no_break: "printable s \<Longrightarrow> CHR 0x0A \<notin> set s \<and> CHR 0x0D \<notin> set s"
  by (auto simp: printable_def byte_def)

lemma take_line_crlf: "CHR 0x0A \<notin> set l \<Longrightarrow> take_line (l @ crlf @ s) = (l @ crlf, s)"
  by (induction l) (auto simp: crlf_def)

lemma read_line_crlf: "printable l \<Longrightarrow> read_line (l @ crlf @ s) = Inr (l @ crlf, s)"
  using take_line_crlf[of l s] utf8_ascii[of "l @ crlf"] printable_no_break[of l]
  by (auto simp: read_line_def printable_def crlf_def byte_def)

lemma trim_end_crlf:
  assumes "l \<noteq> [] \<longrightarrow> 32 < byte (last l) \<and> byte (last l) < 128"
  shows "trim_end (l @ crlf) = l"
proof -
  have "strip_front (map rev white_space) (rev l) = rev l"
  proof (cases "l = []")
    case True
    then show ?thesis by (subst strip_front.simps) (auto simp: white_space_def)
  next
    case False
    then show ?thesis using assms by (intro strip_end_visible) auto
  qed
  then show ?thesis by (simp add: trim_end_def crlf_def strip_white_end byte_def)
qed

text \<open>A header line the two sides write: printable, and no blank at its end.\<close>

definition header_text :: "string \<Rightarrow> bool" where
  "header_text l \<longleftrightarrow> printable l \<and> l \<noteq> [] \<and> 32 < byte (last l)"

lemma header_textD: "header_text l \<Longrightarrow> printable l \<and> l \<noteq> [] \<and> 32 < byte (last l) \<and> byte (last l) < 128"
  by (auto simp: header_text_def printable_def)

lemma read_headers_line:
  assumes "header_text l" and "hb + length l + 2 \<le> CONTROL_API_MAX_HEADER"
  shows "read_headers u cl hb (l @ crlf @ s) = read_headers u (header_line u l cl) (hb + length l + 2) s"
proof -
  note l = header_textD[OF assms(1)]
  have "read_line (l @ crlf @ s) = Inr (l @ crlf, s)" using l by (simp add: read_line_crlf)
  moreover have "trim_end (l @ crlf) = l" using l by (intro trim_end_crlf) simp
  moreover have "length (l @ crlf) = length l + 2" by (simp add: crlf_def)
  ultimately show ?thesis
    using l assms(2) by (subst read_headers.simps) (simp add: Let_def add.assoc)
qed

lemma read_headers_blank:
  assumes "hb + 2 \<le> CONTROL_API_MAX_HEADER"
  shows "read_headers u cl hb (crlf @ s) = Inr (cl, s)"
proof -
  have "read_line (crlf @ s) = Inr (crlf, s)"
    using read_line_crlf[of "[]" s] by (simp add: printable_def)
  moreover have "trim_end crlf = []" using trim_end_crlf[of "[]"] by simp
  ultimately show ?thesis
    using assms by (subst read_headers.simps) (simp add: Let_def crlf_def)
qed

lemma trim_space: "trim (CHR '' '' # s) = trim s"
  by (simp add: trim_def trim_start_def strip_front.simps[of _ "CHR '' '' # s"] find_space)

lemma trim_decimal: "trim (decimal n) = decimal n"
  using decimal_visible[of n] by (intro trim_id) (auto simp: visible_def)

lemma trim_literals:
  "trim ''Host'' = ''Host''" "trim ''Content-Length'' = ''Content-Length''" "trim ''Connection'' = ''Connection''"
  by (rule trim_id; simp add: byte_def)+

lemma split_header_line: "CHR '':'' \<notin> set l \<Longrightarrow> split_once CHR '':'' (l @ '':'' @ r) = Some (l, r)"
  using split_once_append_sep by simp

lemma header_line_literals:
  "n \<le> u \<Longrightarrow> header_line u (''Content-Length: '' @ decimal n) cl = n"
  "header_line u ''Host: localhost'' cl = cl"
  "header_line u ''Connection: close'' cl = cl"
proof -
  have lower: "to_ascii_lowercase ''Content-Length'' = ''content-length''"
    "to_ascii_lowercase ''content-length'' = ''content-length''"
    "to_ascii_lowercase ''Host'' = ''host''" "to_ascii_lowercase ''Connection'' = ''connection''"
    by code_simp+
  show "n \<le> u \<Longrightarrow> header_line u (''Content-Length: '' @ decimal n) cl = n"
    using split_header_line[of "''Content-Length''" "'' '' @ decimal n"]
    by (simp add: header_line_def eq_ignore_ascii_case_def trim_literals lower trim_space trim_decimal
        parse_uint_decimal)
  show "header_line u ''Host: localhost'' cl = cl"
    using split_header_line[of "''Host''" "'' localhost''"]
    by (simp add: header_line_def eq_ignore_ascii_case_def trim_literals lower)
  show "header_line u ''Connection: close'' cl = cl"
    using split_header_line[of "''Connection''" "'' close''"]
    by (simp add: header_line_def eq_ignore_ascii_case_def trim_literals lower)
qed

lemma header_text_literals:
  "header_text (''Content-Length: '' @ decimal n)" "header_text ''Host: localhost''" "header_text ''Connection: close''"
  using decimal_visible[of n] by (auto simp: header_text_def printable_Cons byte_def visible_def printable_def)

text \<open>The server reads the request the client wrote.\<close>

lemma read_client_request:
  assumes m: "visible method" and p: "visible path"
    and b: "length req_body \<le> CONTROL_API_MAX_BODY" and u: "CONTROL_API_MAX_BODY \<le> usize_max"
  shows "control_api_read_request usize_max (client_request_text method path req_body) =
    Inr \<lparr>rq_method = method, rq_path = path, rq_body = req_body\<rparr>"
proof -
  let ?n = "length req_body"
  let ?l1 = "method @ '' '' @ path @ '' HTTP/1.1''"
  let ?cl = "''Content-Length: '' @ decimal ?n"
  let ?hdrs = "''Host: localhost'' @ crlf @ ?cl @ crlf @ ''Connection: close'' @ crlf @ crlf @ req_body"
  have req: "client_request_text method path req_body = ?l1 @ crlf @ ?hdrs"
    by (simp add: client_request_text_def)
  have "printable ?l1"
    using m p by (auto simp: printable_def visible_def byte_def)
  then have line: "read_line (?l1 @ crlf @ ?hdrs) = Inr (?l1 @ crlf, ?hdrs)" by (rule read_line_crlf)
  have words: "split_whitespace (?l1 @ crlf) = [method, path, ''HTTP/1.1'']"
    using words_from_token[OF m] words_from_token[OF p] words_from_token[of "''HTTP/1.1''"]
    by (simp add: split_whitespace_def crlf_def byte_def visible_def words_from_white)
  have "?n < 10 ^ 5" using b by (simp add: CONTROL_API_MAX_BODY_def)
  then have len: "length (decimal ?n) \<le> 5" by (intro length_decimal_le) simp_all
  have nu: "?n \<le> usize_max" using b u by simp
  let ?tl = "''Connection: close'' @ crlf @ crlf @ req_body"
  let ?p1 = "0 + length ''Host: localhost'' + 2"
  let ?p2 = "?p1 + length ?cl + 2"
  let ?p3 = "?p2 + length ''Connection: close'' + 2"
  have "read_headers usize_max 0 0 ?hdrs = read_headers usize_max 0 ?p1 (?cl @ crlf @ ?tl)"
    using read_headers_line[OF header_text_literals(2), of 0 usize_max 0 "?cl @ crlf @ ?tl"]
    by (simp add: header_line_literals CONTROL_API_MAX_HEADER_def)
  also have "\<dots> = read_headers usize_max ?n ?p2 ?tl"
    using read_headers_line[OF header_text_literals(1), of ?p1 ?n usize_max 0 ?tl] len
    by (simp add: header_line_literals(1)[OF nu, simplified] CONTROL_API_MAX_HEADER_def)
  also have "\<dots> = read_headers usize_max ?n ?p3 (crlf @ req_body)"
    using read_headers_line[OF header_text_literals(3), of ?p2 usize_max ?n "crlf @ req_body"] len
    by (simp add: header_line_literals CONTROL_API_MAX_HEADER_def)
  also have "\<dots> = Inr (?n, req_body)"
    using len by (intro read_headers_blank) (simp add: CONTROL_API_MAX_HEADER_def)
  finally have hdrs: "read_headers usize_max 0 0 ?hdrs = Inr (?n, req_body)" .
  have ne: "?l1 @ crlf \<noteq> []" by simp
  show ?thesis
    unfolding control_api_read_request_def req line sum.case prod.case words list.case hdrs if_not_P[OF ne]
    using b by simp
qed

text \<open>The client reads the response the server wrote.\<close>

lemma split_header_text:
  "CHR 0x0D \<notin> set l \<Longrightarrow>
   split_header (l @ s) = map_option (\<lambda>(h, b). (l @ h, b)) (split_header s)"
  by (induction l) (auto simp: crlf_def option.map_comp comp_def option.map_id id_def[symmetric] split: option.splits)

lemma split_header_crlf:
  "c \<noteq> CHR 0x0D \<Longrightarrow> split_header (crlf @ c # s) = map_option (\<lambda>(h, b). (crlf @ h, b)) (split_header (c # s))"
  by (auto simp: crlf_def split: option.splits)

lemma split_header_end: "split_header (crlf @ crlf @ b) = Some ([], b)"
  by (simp add: crlf_def)

lemma reason_phrase_plain: "printable (reason_phrase status)"
  by (simp add: reason_phrase_def printable_Cons byte_def) (simp add: printable_def)

lemma split_response:
  "split_header (control_api_write_response status resp_body) =
     Some (''HTTP/1.1 '' @ decimal (unat status) @ '' '' @ reason_phrase status @ crlf @
           ''Content-Type: application/json'' @ crlf @ ''Content-Length: '' @ decimal (length resp_body) @ crlf @
           ''Connection: close'', resp_body)"
proof -
  have nc: "CHR 0x0D \<notin> set (reason_phrase status)" "CHR 0x0D \<notin> set (decimal n)" for n
    using printable_no_break[OF reason_phrase_plain] printable_no_break[OF printable_decimal] by blast+
  have 1: "split_header (''Connection: close'' @ crlf @ crlf @ resp_body) = Some (''Connection: close'', resp_body)"
    by (subst split_header_text) (simp_all add: split_header_end)
  have 2: "split_header (''Content-Length: '' @ decimal (length resp_body) @ crlf @ ''Connection: close'' @ crlf @ crlf @ resp_body)
    = Some (''Content-Length: '' @ decimal (length resp_body) @ crlf @ ''Connection: close'', resp_body)"
    using 1 split_header_crlf[of "CHR ''C''" "''onnection: close'' @ crlf @ crlf @ resp_body"]
      split_header_text[of "''Content-Length: '' @ decimal (length resp_body)"] nc(2) by simp
  have 3: "split_header (''Content-Type: application/json'' @ crlf @ ''Content-Length: '' @ decimal (length resp_body) @ crlf
      @ ''Connection: close'' @ crlf @ crlf @ resp_body) =
    Some (''Content-Type: application/json'' @ crlf @ ''Content-Length: '' @ decimal (length resp_body) @ crlf @
      ''Connection: close'', resp_body)"
    using 2 split_header_crlf[of "CHR ''C''"
        "''ontent-Length: '' @ decimal (length resp_body) @ crlf @ ''Connection: close'' @ crlf @ crlf @ resp_body"]
      split_header_text[of "''Content-Type: application/json''"] by simp
  show ?thesis
    unfolding control_api_write_response_def
    using 3 split_header_crlf[of "CHR ''C''" "''ontent-Type: application/json'' @ crlf @ ''Content-Length: '' @
        decimal (length resp_body) @ crlf @ ''Connection: close'' @ crlf @ crlf @ resp_body"]
      split_header_text[of "''HTTP/1.1 '' @ decimal (unat status) @ '' '' @ reason_phrase status"] nc by simp
qed

lemma lines_first: "CHR 0x0A \<notin> set l \<Longrightarrow> \<exists>ls. lines (l @ crlf @ s) = l # ls"
  using split_on_append_sep[of "CHR 0x0A" "l @ [CHR 0x0D]" s]
  by (auto simp: lines_def crlf_def Let_def strip_cr_def)

lemma client_reads_response:
  "client_parse_response (control_api_write_response status resp_body) = Inr (status, resp_body)"
proof -
  let ?l = "''HTTP/1.1 '' @ decimal (unat status) @ '' '' @ reason_phrase status"
  let ?r = "''Content-Type: application/json'' @ crlf @ ''Content-Length: '' @ decimal (length resp_body) @ crlf @
           ''Connection: close''"
  note pr = reason_phrase_plain[of status]
  have "\<forall>c\<in>set (?l @ crlf @ ?r). byte c < 128"
    using pr printable_decimal[of "unat status"] printable_decimal[of "length resp_body"]
    by (auto simp: printable_def crlf_def byte_def)
  then have lossy: "from_utf8_lossy (?l @ crlf @ ?r) = ?l @ crlf @ ?r" by (rule lossy_ascii)
  have "CHR 0x0A \<notin> set ?l"
    using printable_no_break[OF pr] printable_no_break[OF printable_decimal] by auto
  then obtain ls where ls: "lines (?l @ crlf @ ?r) = ?l # ls" using lines_first by blast
  have w: "split_whitespace ?l = ''HTTP/1.1'' # decimal (unat status) # words_from [] (reason_phrase status)"
    using words_from_token[of "''HTTP/1.1''" "CHR '' ''"] words_from_token[OF decimal_visible, of "CHR '' ''"]
    by (simp add: split_whitespace_def visible_def byte_def)
  have st: "unat status \<le> 65535" using unsigned_less[of status, where 'a = nat] by simp
  have h: "split_header (control_api_write_response status resp_body) = Some (?l @ crlf @ ?r, resp_body)"
    using split_response by simp
  show ?thesis
    unfolding client_parse_response_def h option.case prod.case lossy ls list.case w
    by (simp add: parse_uint_decimal[OF st])
qed

lemma read_headers_bounded:
  assumes "read_headers u cl hb inp = Inr (cl', rest)" and "hb \<le> CONTROL_API_MAX_HEADER"
  shows "\<exists>hdrs. inp = hdrs @ rest \<and> hb + length hdrs \<le> CONTROL_API_MAX_HEADER"
  using assms
proof (induction u cl hb inp rule: read_headers.induct)
  case (1 u cl hb inp)
  obtain line r where l: "read_line inp = Inr (line, r)"
    using 1(2) by (subst (asm) read_headers.simps) (auto split: sum.splits)
  have inp: "inp = line @ r" by (rule read_line_append[OF l])
  let ?hb = "hb + length line"
  note unfolded = 1(2)[unfolded read_headers.simps[of u cl hb inp] l sum.case prod.case Let_def]
  show ?case
  proof (cases "line = [] \<or> trim_end line = []")
    case True
    then show ?thesis
      using unfolded 1(3) by (intro exI[of _ line]) (auto simp: inp split: if_splits)
  next
    case False
    then have h: "?hb \<le> CONTROL_API_MAX_HEADER"
      and r: "read_headers u (header_line u (trim_end line) cl) ?hb r = Inr (cl', rest)"
      using unfolded by (auto split: if_splits)
    obtain hdrs where "r = hdrs @ rest" "?hb + length hdrs \<le> CONTROL_API_MAX_HEADER"
      using 1(1)[OF l refl _ refl refl _ _ r h] False h by auto
    then show ?thesis by (intro exI[of _ "line @ hdrs"]) (simp add: inp)
  qed
qed

text \<open>The outcome of a publication by this node, for a name that is neither reserved nor lost.\<close>

lemma publish_service_outcome:
  assumes "svc_ok st" and "s2_owner_node_id e = self_id" and "publish_service st self_id key e = (st', effs, Inr r)"
  shows "effs = \<lparr>broadcast = [ServicePublishV2 key e], persisted = Some st'\<rparr>"
    and "k \<noteq> key \<Longrightarrow> bt_get (book st') k = bt_get (book st) k"
    and "case r of
           Merged (Conflict winner loser) \<Rightarrow>
             bt_get (book st') key = Some winner \<and> s2_owner_node_id winner \<noteq> s2_owner_node_id loser \<and>
             (s2_owner_node_id winner = self_id \<or> s2_owner_node_id loser = self_id) \<and>
             (s2_owner_node_id loser = self_id \<longrightarrow> bt_get (lost_names st') key \<noteq> None)
         | RejectedByTombstone \<Rightarrow> bt_get (book st') key = None \<and> bt_get (tombstones st') key \<noteq> None
         | _ \<Rightarrow> \<exists>x. bt_get (book st') key = Some x \<and> s2_owner_node_id x = self_id"
  using assms
  by (auto simp: svc_ok_def publish_service_def publish_service_v2_def svc_apply_defs
      merge_service_v2_cases map_simps split: option.splits if_splits prod.splits sum.splits)

lemma publish_service_refused:
  assumes "publish_service st self_id key e = (st', effs, Inl err)"
  shows "st' = st \<and> effs = no_effects \<and>
    (case err of Reserved _ \<Rightarrow> is_reserved_service_name key | LostToPeer _ \<Rightarrow> bt_get (lost_names st) key \<noteq> None)"
  using assms
  by (auto simp: publish_service_def publish_service_v2_def svc_apply_defs merge_service_v2_def
      split: option.splits if_splits prod.splits sum.splits)

section \<open>Properties\<close>

text \<open>C20. The client and the server agree on every exchange: a request with a method and a path of visible
  characters and a body within the limit has, over the wire, exactly the effect of calling the router with
  that method, path and body, and the client receives exactly the status and body the router returned,
  whatever bytes the bodies hold.\<close>

theorem control_api_exchange:
  assumes "visible method" and "visible path" and "length req_body \<le> CONTROL_API_MAX_BODY"
    and "CONTROL_API_MAX_BODY \<le> ax_usize_max cx"
    and "control_api_route cx method path req_body n = (n', effs, status, resp_body)"
    and "control_api_handle_conn cx (client_request_text method path req_body) n = (n1, effs1, resp)"
  shows "n1 = n' \<and> effs1 = effs \<and>
    control_api_client_request (\<lambda>_. case resp of Some r \<Rightarrow> Inr r | None \<Rightarrow> Inl ''connection closed'')
      method path req_body = Inr (status, resp_body)"
  using assms(5,6)
  by (auto simp: control_api_handle_conn_def read_client_request[OF assms(1-4)] control_api_client_request_def
      client_reads_response)

definition sample_json :: SerdeJson where
  "sample_json =
     \<lparr>to_vec = \<lambda>v. (case v of JObject [(_, JString k)] \<Rightarrow> Some k | _ \<Rightarrow> Some ''{}''),
      from_slice = \<lambda>_. None,
      publish_from_slice = \<lambda>b.
        Some \<lparr>pr_name = b, pr_port = None, pr_ip = None, pr_mac = None, pr_txt = [],
              pr_protocol = control_api_default_protocol\<rparr>,
      unpublish_from_slice = \<lambda>b. Some \<lparr>ur_name = b, ur_device = False\<rparr>,
      directory_to_vec = \<lambda>_. Some ''{}''\<rparr>"

definition sample_api :: "u64 \<Rightarrow> ApiContext" where
  "sample_api now =
     \<lparr>ax_json = sample_json, ax_usize_max = 2 ^ 32 - 1, ax_network = std_network, ax_to_string = net_text,
      ax_socket_text = socket_key, ax_ip_text = \<lambda>_. [], ax_blake3 = \<lambda>_. [], ax_self_id = ''me'',
      ax_gateway = None, ax_backhaul_ip = 0x0AFE0001, ax_now = now\<rparr>"

lemma sample_api_sel:
  "ax_usize_max (sample_api t) = 2 ^ 32 - 1" "ax_json (sample_api t) = sample_json" "ax_self_id (sample_api t) = ''me''"
  "ax_now (sample_api t) = t" "ax_gateway (sample_api t) = None"
  by (simp_all add: sample_api_def)

text \<open>Witness of C20: an unknown path, over the wire.\<close>

theorem control_api_exchange_witness:
  "\<exists>r. control_api_handle_conn (sample_api 5) (client_request_text ''GET'' ''/v1'' []) empty_node =
         (empty_node, no_effects, Some r) \<and>
       control_api_client_request (\<lambda>_. Inr r) ''GET'' ''/v1'' [] = Inr (404, ''not_found'')"
proof -
  have v: "visible ''GET''" "visible ''/v1''" by (simp_all add: visible_def byte_def)
  have r: "control_api_route (sample_api 5) ''GET'' ''/v1'' [] empty_node = (empty_node, no_effects, 404, ''not_found'')"
    by (simp add: control_api_route_def control_api_error_body_def unwrap_or_default_def sample_api_sel sample_json_def)
  obtain r0 where c: "control_api_handle_conn (sample_api 5) (client_request_text ''GET'' ''/v1'' []) empty_node =
      (empty_node, no_effects, Some r0)"
    using read_client_request[OF v, of "[]" "2 ^ 32 - 1"]
    by (simp add: control_api_handle_conn_def sample_api_sel CONTROL_API_MAX_BODY_def r)
  show ?thesis
    using control_api_exchange[OF v _ _ r c] c
    by (simp add: sample_api_sel CONTROL_API_MAX_BODY_def)
qed

text \<open>C21. What a publication through the control API answers is what it did: 400 means that nothing
  changed and nothing was sent; 200 means that this node owns the name now, the publication was broadcast
  and the state written; 409 means that the name stays with whoever won it, earlier or just now, or that a
  tombstone keeps it vacant. No other status occurs and no other name is touched.\<close>

theorem control_publish_outcome:
  assumes "svc_ok st" and "control_api_handle_publish cx req_body st = (st', effs, status, resp_body)"
  shows "status = 400 \<and> st' = st \<and> effs = no_effects \<or>
    (\<exists>req key ip host_mac. publish_from_slice (ax_json cx) req_body = Some req \<and>
       publish_target cx req = Inr (key, ip, host_mac) \<and>
       (\<forall>k. k \<noteq> key \<longrightarrow> bt_get (book st') k = bt_get (book st) k) \<and>
       (status = 200 \<and> (\<exists>e. bt_get (book st') key = Some e \<and> s2_owner_node_id e = ax_self_id cx) \<and>
          effs = \<lparr>broadcast = [ServicePublishV2 key (publish_entry cx req ip host_mac)], persisted = Some st'\<rparr> \<or>
        status = 409 \<and>
          (bt_get (lost_names st) key \<noteq> None \<and> st' = st \<and> effs = no_effects \<or>
           (\<exists>w. bt_get (book st') key = Some w \<and> s2_owner_node_id w \<noteq> ax_self_id cx) \<and>
             bt_get (lost_names st') key \<noteq> None \<or>
           bt_get (book st') key = None \<and> bt_get (tombstones st') key \<noteq> None)))"
proof (cases "publish_from_slice (ax_json cx) req_body")
  case (Some req)
  show ?thesis
  proof (cases "pr_name req = []")
    case False
    show ?thesis
    proof (cases "publish_target cx req")
      case (Inr t)
      then obtain key ip host_mac where t: "publish_target cx req = Inr (key, ip, host_mac)" by (cases t) auto
      let ?e = "publish_entry cx req ip host_mac"
      have own: "s2_owner_node_id ?e = ax_self_id cx" by (simp add: publish_entry_def Let_def)
      obtain st1 effs1 res where p: "publish_service st (ax_self_id cx) key ?e = (st1, effs1, res)"
        by (rule prod_cases3)
      note h = assms(2)[unfolded control_api_handle_publish_def Let_def Some option.case if_not_P[OF False]
          t sum.case prod.case p]
      show ?thesis
      proof (cases res)
        case (Inl err)
        show ?thesis
          using h publish_service_refused[OF p[unfolded Inl]] Some t
          by (cases err) (auto simp: Inl)
      next
        case (Inr r)
        note o = publish_service_outcome[OF assms(1) own p[unfolded Inr]]
        show ?thesis
          using h o(1,2) o(3) Some t
          by (auto simp: Inr split: PublishOutcome.splits MergeResult.splits if_splits)
      qed
    qed (use assms(2) Some False in \<open>simp add: control_api_handle_publish_def Let_def\<close>)
  qed (use assms(2) Some in \<open>simp add: control_api_handle_publish_def Let_def\<close>)
qed (use assms(2) in \<open>simp add: control_api_handle_publish_def Let_def\<close>)

text \<open>Witness of C21: the first publication of \<open>wiki\<close>.\<close>

theorem control_publish_outcome_witness:
  "\<exists>st' effs status resp_body.
     control_api_handle_publish (sample_api 5) ''wiki'' empty_services = (st', effs, status, resp_body) \<and>
     status = 200 \<and> (\<exists>e. bt_get (book st') ''wiki'' = Some e \<and> s2_owner_node_id e = ''me'')"
proof -
  have nr: "\<not> is_reserved_service_name ''wiki''"
    by (simp add: is_reserved_service_name_iff to_ascii_lowercase_def to_ascii_lowercase_char_def byte_def)
  obtain st' effs status resp_body where
    h: "control_api_handle_publish (sample_api 5) ''wiki'' empty_services = (st', effs, status, resp_body)"
    by (rule prod_cases4)
  have s: "status = 200"
    using h nr
    by (auto simp: control_api_handle_publish_def sample_api_sel sample_json_def publish_target_def
        publish_service_def publish_service_v2_def svc_apply_defs merge_service_v2_def empty_services_def bt_get_def
        Let_def)
  have t: "publish_target (sample_api 5) req = Inr (key, ip, m) \<Longrightarrow> key = ''wiki''"
    if "publish_from_slice (ax_json (sample_api 5)) ''wiki'' = Some req" for req key ip m
    using that by (auto simp: publish_target_def sample_api_sel sample_json_def)
  have "\<exists>e. bt_get (book st') ''wiki'' = Some e \<and> s2_owner_node_id e = ''me''"
    using control_publish_outcome[OF empty_services_ok(1) h] s t by (auto simp: sample_api_sel)
  then show ?thesis using h s by blast
qed

text \<open>What the server buffers of a request it accepts is bounded: after the request line the headers
  take at most the header limit and the body at most the body limit, and the body is exactly the next bytes
  of the connection.\<close>

theorem control_api_read_bounded:
  assumes "control_api_read_request usize_max inp = Inr req"
  shows "\<exists>line hdrs rest. inp = line @ hdrs @ rq_body req @ rest \<and> utf8_valid line \<and>
    length hdrs \<le> CONTROL_API_MAX_HEADER \<and> length (rq_body req) \<le> CONTROL_API_MAX_BODY"
proof -
  obtain line rest where l: "read_line inp = Inr (line, rest)"
    using assms by (auto simp: control_api_read_request_def split: sum.splits)
  obtain cl rest' where h: "read_headers usize_max 0 0 rest = Inr (cl, rest')"
    and b: "cl \<le> CONTROL_API_MAX_BODY" "cl \<le> length rest'" "rq_body req = take cl rest'"
    using assms l
    by (auto simp: control_api_read_request_def split: sum.splits if_splits list.splits prod.splits)
  obtain hdrs where "rest = hdrs @ rest'" "length hdrs \<le> CONTROL_API_MAX_HEADER"
    using read_headers_bounded[OF h] by auto
  moreover have "utf8_valid line" using l by (auto simp: read_line_def split: prod.splits if_splits)
  ultimately show ?thesis
    using read_line_append[OF l] b
    by (intro exI[of _ line] exI[of _ hdrs] exI[of _ "drop cl rest'"]) simp
qed

text \<open>Example: an unpublish request.\<close>

theorem control_api_read_bounded_witness:
  "\<exists>line hdrs rest. client_request_text ''POST'' ''/v0/unpublish'' ''wiki'' = line @ hdrs @ ''wiki'' @ rest \<and>
     length hdrs \<le> CONTROL_API_MAX_HEADER"
proof -
  have v: "visible ''POST''" "visible ''/v0/unpublish''" by (simp_all add: visible_def byte_def)
  show ?thesis
    using control_api_read_bounded[OF read_client_request[OF v, of "''wiki''" CONTROL_API_MAX_BODY]]
    by (simp add: CONTROL_API_MAX_BODY_def) blast
qed

section \<open>Where the control API does not do what it says\<close>

text \<open>The request line itself is not limited, although reading is documented never to go past the header
  limit: a method of any length is read and routed.\<close>

theorem request_line_unbounded:
  "control_api_read_request CONTROL_API_MAX_BODY
     (client_request_text (replicate (Suc k) CHR ''A'') ''/v0/directory'' []) =
   Inr \<lparr>rq_method = replicate (Suc k) CHR ''A'', rq_path = ''/v0/directory'', rq_body = []\<rparr>"
  by (rule read_client_request) (auto simp: visible_def byte_def)

text \<open>Publishing a name again is documented as a refresh that leaves the time of the first claim alone. The
  handler stamps that time anew, so the name of a node that refreshed goes to a node that claimed it
  later, even at the refreshing node itself.\<close>

theorem refresh_loses_name:
  assumes "control_api_handle_publish (sample_api 1) ''wiki'' empty_services = (st1, effs1, status1, body1)"
    and "control_api_handle_publish (sample_api 10) ''wiki'' st1 = (st2, effs2, status2, body2)"
  shows "bt_get (book (service_gossip ''me'' st1 (ServicePublishV2 ''wiki'' (service_at ''b'' 5 5)))) ''wiki'' =
           bt_get (book st1) ''wiki'' \<and> bt_get (book st1) ''wiki'' \<noteq> None \<and> status2 = 200 \<and>
         bt_get (book (service_gossip ''me'' st2 (ServicePublishV2 ''wiki'' (service_at ''b'' 5 5)))) ''wiki'' =
           Some (service_at ''b'' 5 5)"
proof -
  have nr: "\<not> is_reserved_service_name ''wiki''"
    by (simp add: is_reserved_service_name_iff to_ascii_lowercase_def to_ascii_lowercase_char_def byte_def)
  have st1: "st1 = \<lparr>book = [(''wiki'', publish_entry (sample_api 1)
        \<lparr>pr_name = ''wiki'', pr_port = None, pr_ip = None, pr_mac = None, pr_txt = [],
         pr_protocol = control_api_default_protocol\<rparr> (V4 PRE_CLAIM_GATEWAY) None)], tombstones = [], lost_names = []\<rparr>"
    using assms(1) nr
    by (auto simp: control_api_handle_publish_def sample_api_sel sample_json_def publish_target_def current_gateway_def
        publish_service_def publish_service_v2_def svc_apply_defs merge_service_v2_def empty_services_def bt_get_def
        Let_def)
  have st2: "st2 = \<lparr>book = [(''wiki'', publish_entry (sample_api 10)
        \<lparr>pr_name = ''wiki'', pr_port = None, pr_ip = None, pr_mac = None, pr_txt = [],
         pr_protocol = control_api_default_protocol\<rparr> (V4 PRE_CLAIM_GATEWAY) None)], tombstones = [], lost_names = []\<rparr>
      \<and> status2 = 200"
    using assms(2) nr
    by (auto simp: st1 control_api_handle_publish_def sample_api_sel sample_json_def publish_target_def current_gateway_def
        publish_service_def publish_service_v2_def svc_apply_defs merge_service_v2_cases publish_entry_def now_hlc_def
        HLC_less_eval bt_get_def Let_def)
  show ?thesis
    using nr
    by (simp add: st1 st2 svc_apply_defs merge_service_v2_cases publish_entry_def now_hlc_def sample_api_sel
        service_rank_def rank_less_def service_at_def HLC_less_eval bt_get_def Let_def)
qed

text \<open>Publishing a name again within the millisecond of its own unpublication is refused, and the answer names
  this very node as the other owner.\<close>

theorem republish_blames_itself:
  "case control_api_handle_unpublish (sample_api 5) ''wiki'' empty_services of
     (st, _) \<Rightarrow> \<exists>st' effs. control_api_handle_publish (sample_api 5) ''wiki'' st =
       (st', effs, 409, control_api_owned_by_other_body sample_json ''me'')"
proof -
  have nr: "\<not> is_reserved_service_name ''wiki''"
    by (simp add: is_reserved_service_name_iff to_ascii_lowercase_def to_ascii_lowercase_char_def byte_def)
  then show ?thesis
    by (simp add: control_api_handle_unpublish_def unpublish_service_def unpublish_target_def
        control_api_handle_publish_def sample_api_sel sample_json_def publish_target_def
        publish_service_def publish_service_v2_def svc_apply_defs publish_entry_def now_hlc_def
        empty_services_def HLC_less_eval bt_get_def Let_def)
qed

end
