(* ===== verification/Babel.thy ===== *)
theory Babel
  imports Persist Claims
begin

text \<open>
  The routing daemon's configuration: \<open>babel/config.rs\<close> renders \<open>babeld.conf\<close> and writes it when it
  changed, and the two reconcilers of \<open>bin/mjolnir-meshd.rs\<close> keep the file and the service in step with
  the mesh state.

  Parameters: the text of a network (\<open>ipnet\<close>), the file system calls of \<open>Persist\<close>, the registry of live
  tunnels, the egress advertisement of \<open>Liveness\<close>, and the service manager: what an action on the
  \<open>mjolnir-babeld\<close> service does to the configuration the routing daemon runs with, and whether the
  action reports success.
\<close>

section \<open>Rendering\<close>

record OverlayRtt =
  rtt_min_ms :: u32
  rtt_max_ms :: u32
  max_rtt_penalty :: u16
  rtt_decay :: u16

definition overlay_rtt_default :: OverlayRtt where
  "overlay_rtt_default = \<lparr>rtt_min_ms = 10, rtt_max_ms = 200, max_rtt_penalty = 96, rtt_decay = 42\<rparr>"

definition L2_RTT :: OverlayRtt where
  "L2_RTT = \<lparr>rtt_min_ms = 10, rtt_max_ms = 120, max_rtt_penalty = 150, rtt_decay = 42\<rparr>"

record BabelConfigInputs =
  bc_local_subnet :: "Ipv4Net option"
  bc_peer_interfaces :: "string list"
  bc_l2_interfaces :: "string list"
  bc_tunnel_rxcost :: u16
  bc_gateway :: bool

definition babel_inputs_new :: "Ipv4Net option \<Rightarrow> string list \<Rightarrow> BabelConfigInputs" where
  "babel_inputs_new subnet ifaces =
     \<lparr>bc_local_subnet = subnet, bc_peer_interfaces = ifaces, bc_l2_interfaces = [], bc_tunnel_rxcost = 96,
      bc_gateway = False\<rparr>"

definition lf :: string where
  "lf = [CHR 0x0A]"

definition conf_header :: string where
  "conf_header = ''# Generated by mjolnir-mesh '' @ em_dash @ '' do not edit by hand'' @ lf @ lf"

definition rtt_text :: "OverlayRtt \<Rightarrow> string" where
  "rtt_text rtt =
     '' enable-timestamps true rtt-min '' @ decimal (unat (rtt_min_ms rtt)) @
     '' rtt-max '' @ decimal (unat (rtt_max_ms rtt)) @
     '' max-rtt-penalty '' @ decimal (unat (max_rtt_penalty rtt)) @
     '' rtt-decay '' @ decimal (unat (rtt_decay rtt))"

definition redistribute_text :: "(Ipv4Net \<Rightarrow> string) \<Rightarrow> Ipv4Net option \<Rightarrow> bool \<Rightarrow> string" where
  "redistribute_text net_string subnet gateway =
     (case subnet of Some n \<Rightarrow> ''redistribute ip '' @ net_string n @ '' allow'' @ lf | None \<Rightarrow> []) @
     (if gateway then ''redistribute ip 0.0.0.0/0 le 0 metric 128'' @ lf else []) @
     ''redistribute local deny'' @ lf @ ''redistribute deny'' @ lf @ lf"

definition render_babeld_conf :: "(Ipv4Net \<Rightarrow> string) \<Rightarrow> BabelConfigInputs \<Rightarrow> string" where
  "render_babeld_conf net_string inputs =
     conf_header @
     concat (map (\<lambda>iface. ''interface '' @ iface @ '' type wireless'' @ rtt_text L2_RTT @ lf) (bc_l2_interfaces inputs)) @
     concat (map (\<lambda>iface. ''interface '' @ iface @ '' type tunnel'' @ lf) (bc_peer_interfaces inputs)) @
     (if bc_l2_interfaces inputs \<noteq> [] \<or> bc_peer_interfaces inputs \<noteq> [] then lf else []) @
     redistribute_text net_string (bc_local_subnet inputs) (bc_gateway inputs) @
     ''in ip 10.255.0.0/16 deny'' @ lf @ ''out ip 10.255.0.0/16 deny'' @ lf @ lf @
     ''default rxcost '' @ decimal (unat (bc_tunnel_rxcost inputs)) @ lf"

definition render_overlay_babeld_conf ::
  "(Ipv4Net \<Rightarrow> string) \<Rightarrow> string \<Rightarrow> Ipv4Net option \<Rightarrow> OverlayRtt \<Rightarrow> bool \<Rightarrow> string" where
  "render_overlay_babeld_conf net_string iface subnet rtt gateway =
     conf_header @
     ''interface '' @ iface @ '' type tunnel'' @ rtt_text rtt @ lf @ lf @
     redistribute_text net_string subnet gateway @
     ''in ip 10.254.0.0/16 deny'' @ lf @ ''out ip 10.254.0.0/16 deny'' @ lf @
     ''in ip 10.255.0.0/16 deny'' @ lf @ ''out ip 10.255.0.0/16 deny'' @ lf"

section \<open>Writing\<close>

definition write_atomic_if_changed ::
  "IoEnv \<Rightarrow> nat \<Rightarrow> path \<Rightarrow> string \<Rightarrow> FileSys \<Rightarrow> FileSys \<times> (string + bool)" where
  "write_atomic_if_changed env pid p contents fs =
     (if \<not> read_fails env p \<and> fs p = Some (str_bytes contents) then (fs, Inr False)
      else
        (case parent p of
           None \<Rightarrow> (fs, Inl ''config path has no parent dir'')
         | Some d \<Rightarrow>
             (let tmp = d @ [''.'' @ last p @ ''-'' @ decimal pid @ ''.tmp'']
              in case fs_write env tmp (str_bytes contents) fs of
                   (fs', False) \<Rightarrow> (fs', Inl ''write'')
                 | (fs', True) \<Rightarrow>
                     if rename_fails env tmp p then (fs', Inl ''rename'')
                     else (fs_rename env tmp p fs', Inr True))))"

section \<open>Reconciling\<close>

datatype ServiceAction = SvcEnable | SvcRestart | SvcStop

text \<open>An action sees the file on disk and the running configuration, and gives the new running
  configuration and its exit.\<close>

type_synonym service_manager = "ServiceAction \<Rightarrow> bytes option \<Rightarrow> bytes option \<Rightarrow> bytes option \<times> bool"

record BabelState =
  bs_started :: bool
  bs_last_rendered :: "string option"
  bs_files :: FileSys
  bs_running :: "bytes option"

record BabelParams =
  bp_net_string :: "Ipv4Net \<Rightarrow> string"
  bp_network :: "Ipv4Net \<Rightarrow> ipv4"
  bp_self_id :: string
  bp_pid :: nat
  bp_path :: path
  bp_l2_backhaul :: "string option"
  bp_gateway :: bool

record BabelInput =
  bi_registry :: "string list"           \<comment> \<open>the interface names of the tunnel registry\<close>
  bi_claims :: ClaimStore
  bi_egress :: "EgressAd option"
  bi_io :: IoEnv
  bi_service :: service_manager

definition local_client_subnet :: "(Ipv4Net \<Rightarrow> ipv4) \<Rightarrow> ClaimStore \<Rightarrow> string \<Rightarrow> Ipv4Net option" where
  "local_client_subnet network store self_id =
     (case List.map_filter (client_net network) (filter (\<lambda>c. sc_owner_node_id c = self_id) (map snd store)) of
        [] \<Rightarrow> None
      | n # _ \<Rightarrow> Some n)"

definition gateway_now :: "BabelParams \<Rightarrow> BabelInput \<Rightarrow> bool" where
  "gateway_now p inp \<longleftrightarrow> bp_gateway p \<and> (case bi_egress inp of Some e \<Rightarrow> ea_healthy e | None \<Rightarrow> False)"

definition babeld_service :: "BabelParams \<Rightarrow> BabelInput \<Rightarrow> ServiceAction \<Rightarrow> BabelState \<Rightarrow> BabelState \<times> bool" where
  "babeld_service p inp action st =
     (case bi_service inp action (bs_files st (bp_path p)) (bs_running st) of
        (running, ok) \<Rightarrow> (st\<lparr>bs_running := running\<rparr>, ok))"

definition start_babeld :: "BabelParams \<Rightarrow> BabelInput \<Rightarrow> BabelState \<Rightarrow> BabelState" where
  "start_babeld p inp st =
     (case babeld_service p inp SvcRestart (fst (babeld_service p inp SvcEnable st)) of
        (st', ok) \<Rightarrow> if ok then st'\<lparr>bs_started := True\<rparr> else st')"

definition live_interfaces :: "BabelInput \<Rightarrow> string list" where
  "live_interfaces inp = sort (filter (\<lambda>s. s \<noteq> []) (bi_registry inp))"

definition l2_refs :: "BabelParams \<Rightarrow> string list" where
  "l2_refs p = (case bp_l2_backhaul p of Some i \<Rightarrow> [i] | None \<Rightarrow> [])"

definition wanted_conf :: "BabelParams \<Rightarrow> BabelInput \<Rightarrow> string" where
  "wanted_conf p inp =
     render_babeld_conf (bp_net_string p)
       ((babel_inputs_new (local_client_subnet (bp_network p) (bi_claims inp) (bp_self_id p)) (live_interfaces inp))
          \<lparr>bc_l2_interfaces := l2_refs p, bc_gateway := gateway_now p inp\<rparr>)"

definition have_ifaces :: "BabelParams \<Rightarrow> BabelInput \<Rightarrow> bool" where
  "have_ifaces p inp \<longleftrightarrow> live_interfaces inp \<noteq> [] \<or> l2_refs p \<noteq> []"

text \<open>One round of the loop: a new rendering only starts the settle window.\<close>

definition babel_reconciler :: "BabelParams \<Rightarrow> BabelInput \<Rightarrow> BabelState \<Rightarrow> BabelState" where
  "babel_reconciler p inp st =
     (let conf = wanted_conf p inp
      in if bs_last_rendered st \<noteq> Some conf then st\<lparr>bs_last_rendered := Some conf\<rparr>
         else
           (case write_atomic_if_changed (bi_io inp) (bp_pid p) (bp_path p) conf (bs_files st) of
              (fs, Inl _) \<Rightarrow> st\<lparr>bs_files := fs\<rparr>
            | (fs, Inr changed) \<Rightarrow>
                (let st1 = st\<lparr>bs_files := fs\<rparr>
                 in if \<not> have_ifaces p inp
                    then (if bs_started st1
                          then (fst (babeld_service p inp SvcStop st1))\<lparr>bs_started := False\<rparr>
                          else st1)
                    else if \<not> bs_started st1 then start_babeld p inp st1
                    else if changed then fst (babeld_service p inp SvcRestart st1)
                    else st1)))"

definition wanted_overlay_conf :: "BabelParams \<Rightarrow> BabelInput \<Rightarrow> string" where
  "wanted_overlay_conf p inp =
     render_overlay_babeld_conf (bp_net_string p) OVERLAY_IFACE
       (local_client_subnet (bp_network p) (bi_claims inp) (bp_self_id p)) overlay_rtt_default (gateway_now p inp)"

definition babel_reconciler_overlay :: "BabelParams \<Rightarrow> BabelInput \<Rightarrow> BabelState \<Rightarrow> BabelState" where
  "babel_reconciler_overlay p inp st =
     (let conf = wanted_overlay_conf p inp
      in if bs_last_rendered st = Some conf then st
         else
           (case write_atomic_if_changed (bi_io inp) (bp_pid p) (bp_path p) conf (bs_files st) of
              (fs, Inl _) \<Rightarrow> st\<lparr>bs_files := fs\<rparr>
            | (fs, Inr changed) \<Rightarrow>
                (let st1 = st\<lparr>bs_files := fs\<rparr>;
                     st2 = (if \<not> bs_started st1 then start_babeld p inp st1
                            else if changed then fst (babeld_service p inp SvcRestart st1)
                            else st1)
                 in st2\<lparr>bs_last_rendered := Some conf\<rparr>)))"

section \<open>The reconciler settles\<close>

text \<open>The documented behaviour of the service manager when it works: a restart runs the file on disk, a
  stop runs nothing, enabling changes nothing.\<close>

definition reliable :: "service_manager \<Rightarrow> bool" where
  "reliable svc \<longleftrightarrow>
     (\<forall>disk run. svc SvcRestart disk run = (disk, True) \<and> svc SvcStop disk run = (None, True) \<and>
        svc SvcEnable disk run = (run, True))"

text \<open>A started daemon runs the file on disk; one that is not started is down or as it was found (\<open>found\<close>).\<close>

definition babel_inv :: "BabelParams \<Rightarrow> bytes option \<Rightarrow> BabelState \<Rightarrow> bool" where
  "babel_inv p found st \<longleftrightarrow>
     (if bs_started st then bs_running st = bs_files st (bp_path p) else bs_running st \<in> {None, found})"

text \<open>Whatever the system calls do, a failed write leaves the configuration as it was, one that reports a change
  has written it, and one that reports none found it there.\<close>

lemma write_atomic_at:
  assumes "write_atomic_if_changed env pid p contents fs = (fs', r)"
  shows "r = Inl e \<Longrightarrow> fs' p = fs p" and "r = Inr changed \<Longrightarrow> fs' p = Some (str_bytes contents)"
    and "r = Inr False \<Longrightarrow> fs' p = fs p"
proof -
  have "p \<noteq> butlast p @ [''.'' @ last p @ x]" for x
  proof
    assume "p = butlast p @ [''.'' @ last p @ x]"
    then have "last p = ''.'' @ last p @ x" by (metis last_snoc)
    then have "length (last p) = Suc (length (last p) + length x)" by (metis length_append length_Cons append_Cons append_Nil)
    then show False by simp
  qed
  then show "r = Inl e \<Longrightarrow> fs' p = fs p" and "r = Inr changed \<Longrightarrow> fs' p = Some (str_bytes contents)"
    and "r = Inr False \<Longrightarrow> fs' p = fs p"
    using assms by (auto simp: write_atomic_if_changed_def parent_def fs_write_def fs_rename_def Let_def
        split: if_splits option.splits WriteOutcome.splits prod.splits bool.splits)
qed

lemma write_atomic_ok:
  assumes "io_ok env" and "p \<noteq> []"
  obtains fs' where "write_atomic_if_changed env pid p contents fs = (fs', Inr (fs p \<noteq> Some (str_bytes contents)))"
    "fs' p = Some (str_bytes contents)"
proof -
  let ?w = "write_atomic_if_changed env pid p contents fs"
  have io: "\<not> read_fails env q" "write_outcome env q = WroteAll" "\<not> rename_fails env q r" for q r
    using assms(1) by (simp_all add: io_ok_def)
  have "snd ?w = Inr (fs p \<noteq> Some (str_bytes contents))" "fst ?w p = Some (str_bytes contents)"
    using assms(2) by (simp_all add: write_atomic_if_changed_def parent_def fs_write_def fs_rename_def io Let_def)
  then show thesis by (intro that[of "fst ?w"]) (metis prod.collapse)+
qed

lemma service_reliable:
  assumes "reliable (bi_service inp)"
  shows "babeld_service p inp SvcRestart st = (st\<lparr>bs_running := bs_files st (bp_path p)\<rparr>, True)"
    and "babeld_service p inp SvcStop st = (st\<lparr>bs_running := None\<rparr>, True)"
    and "start_babeld p inp st = st\<lparr>bs_running := bs_files st (bp_path p), bs_started := True\<rparr>"
  using assms by (simp_all add: reliable_def babeld_service_def start_babeld_def)

lemma reconciler_keeps_inv:
  assumes "reliable (bi_service inp)" and "babel_inv p found st"
  shows "babel_inv p found (babel_reconciler p inp st)"
proof -
  obtain fs' r where w: "write_atomic_if_changed (bi_io inp) (bp_pid p) (bp_path p) (wanted_conf p inp) (bs_files st) = (fs', r)" by fastforce
  show ?thesis
  proof (cases r)
    case (Inl e)
    then show ?thesis
      using assms(2) write_atomic_at(1)[OF w] by (auto simp: babel_reconciler_def w babel_inv_def Let_def)
  next
    case (Inr changed)
    have "\<not> changed \<Longrightarrow> fs' (bp_path p) = bs_files st (bp_path p)" using write_atomic_at(3)[OF w] Inr by simp
    then show ?thesis
      using assms(2) Inr unfolding babel_inv_def
      by (cases "bs_started st"; cases changed) (simp_all add: babel_reconciler_def w service_reliable[OF assms(1)] Let_def)
  qed
qed

lemma reconciler_round:
  assumes "io_ok (bi_io inp)" and "reliable (bi_service inp)" and "bp_path p \<noteq> []"
  shows "bs_last_rendered (babel_reconciler p inp st) = Some (wanted_conf p inp)"
    and "bs_last_rendered st = Some (wanted_conf p inp) \<Longrightarrow>
      bs_files (babel_reconciler p inp st) (bp_path p) = Some (str_bytes (wanted_conf p inp)) \<and>
      bs_started (babel_reconciler p inp st) = have_ifaces p inp"
proof -
  obtain fs' where w: "write_atomic_if_changed (bi_io inp) (bp_pid p) (bp_path p) (wanted_conf p inp) (bs_files st) =
      (fs', Inr (bs_files st (bp_path p) \<noteq> Some (str_bytes (wanted_conf p inp))))"
    "fs' (bp_path p) = Some (str_bytes (wanted_conf p inp))"
    by (rule write_atomic_ok[OF assms(1,3)])
  show "bs_last_rendered (babel_reconciler p inp st) = Some (wanted_conf p inp)"
    by (simp add: babel_reconciler_def w service_reliable[OF assms(2)] Let_def)
  show "bs_last_rendered st = Some (wanted_conf p inp) \<Longrightarrow>
      bs_files (babel_reconciler p inp st) (bp_path p) = Some (str_bytes (wanted_conf p inp)) \<and>
      bs_started (babel_reconciler p inp st) = have_ifaces p inp"
    by (simp add: babel_reconciler_def w service_reliable[OF assms(2)] Let_def)
qed

lemma reconciler_run_inv:
  assumes "\<forall>i\<in>set inps. reliable (bi_service i)" and "babel_inv p found st"
  shows "babel_inv p found (fold (babel_reconciler p) inps st)"
  using assms by (induction inps arbitrary: st) (simp_all add: reconciler_keeps_inv)

section \<open>Reading a configuration\<close>

text \<open>The reference reader: what a configuration says, line by line.\<close>

record ConfView =
  cv_l2 :: "string list"
  cv_tunnels :: "string list"
  cv_allowed :: "string list"
  cv_default_route :: bool
  cv_rxcost :: "nat option"

definition conf_line :: "ConfView \<Rightarrow> string list \<Rightarrow> ConfView" where
  "conf_line v ws =
     (if take 1 ws = [''interface''] \<and> take 2 (drop 2 ws) = [''type'', ''wireless'']
      then v\<lparr>cv_l2 := cv_l2 v @ [ws ! 1]\<rparr>
      else if take 1 ws = [''interface''] \<and> take 2 (drop 2 ws) = [''type'', ''tunnel'']
      then v\<lparr>cv_tunnels := cv_tunnels v @ [ws ! 1]\<rparr>
      else if take 2 ws = [''redistribute'', ''ip''] \<and> drop 3 ws = [''allow'']
      then v\<lparr>cv_allowed := cv_allowed v @ [ws ! 2]\<rparr>
      else if ws = [''redistribute'', ''ip'', ''0.0.0.0/0'', ''le'', ''0'', ''metric'', ''128'']
      then v\<lparr>cv_default_route := True\<rparr>
      else if take 2 ws = [''default'', ''rxcost''] \<and> length ws = 3
      then v\<lparr>cv_rxcost := parse_uint 65535 (ws ! 2)\<rparr>
      else v)"

definition read_conf :: "string \<Rightarrow> ConfView" where
  "read_conf conf =
     foldl conf_line
       \<lparr>cv_l2 = [], cv_tunnels = [], cv_allowed = [], cv_default_route = False, cv_rxcost = None\<rparr>
       (map split_whitespace (lines conf))"

text \<open>The lines of a rendered configuration, by their words.\<close>

definition conf_words :: "(Ipv4Net \<Rightarrow> string) \<Rightarrow> BabelConfigInputs \<Rightarrow> string list list" where
  "conf_words net_string i =
     map (\<lambda>f. [''interface'', f, ''type'', ''wireless'', ''enable-timestamps'', ''true'',
               ''rtt-min'', ''10'', ''rtt-max'', ''120'', ''max-rtt-penalty'', ''150'', ''rtt-decay'', ''42''])
       (bc_l2_interfaces i) @
     map (\<lambda>f. [''interface'', f, ''type'', ''tunnel'']) (bc_peer_interfaces i) @
     (if bc_l2_interfaces i \<noteq> [] \<or> bc_peer_interfaces i \<noteq> [] then [[]] else []) @
     (case bc_local_subnet i of Some n \<Rightarrow> [[''redistribute'', ''ip'', net_string n, ''allow'']] | None \<Rightarrow> []) @
     (if bc_gateway i then [[''redistribute'', ''ip'', ''0.0.0.0/0'', ''le'', ''0'', ''metric'', ''128'']] else []) @
     [[''redistribute'', ''local'', ''deny''], [''redistribute'', ''deny''], [],
      [''in'', ''ip'', ''10.255.0.0/16'', ''deny''], [''out'', ''ip'', ''10.255.0.0/16'', ''deny''], [],
      [''default'', ''rxcost'', decimal (unat (bc_tunnel_rxcost i))]]"

definition conf_title :: string where
  "conf_title = ''# Generated by mjolnir-mesh '' @ em_dash @ '' do not edit by hand''"

lemma decimal_literals:
  "decimal 10 = ''10''" "decimal 120 = ''120''" "decimal 150 = ''150''" "decimal 42 = ''42''"
  by code_simp+

lemma render_lines:
  "render_babeld_conf net_string i =
     concat (map (\<lambda>l. l @ [CHR 0x0A]) (conf_title # [] # map (join_with CHR '' '') (conf_words net_string i)))"
  by (simp add: render_babeld_conf_def conf_words_def conf_header_def conf_title_def redistribute_text_def rtt_text_def
      L2_RTT_def lf_def join_with_def decimal_literals comp_def split: option.splits)

lemma visible_literal: "visible (c # s) \<longleftrightarrow> 32 < byte c \<and> byte c < 128 \<and> (s = [] \<or> visible s)"
  by (auto simp: visible_def)

lemma conf_words_visible:
  assumes "\<forall>f\<in>set (bc_l2_interfaces i @ bc_peer_interfaces i). visible f"
    and "\<forall>n. bc_local_subnet i = Some n \<longrightarrow> visible (net_string n)"
  shows "\<forall>ws\<in>set (conf_words net_string i). \<forall>w\<in>set ws. visible w"
proof -
  have d: "visible (decimal n)" for n by (rule decimal_visible)
  show ?thesis
    using assms
    by (cases "bc_local_subnet i") (simp_all add: conf_words_def visible_literal byte_def d ball_Un)
qed

lemma set_join_with: "set (join_with c ws) \<subseteq> {c} \<union> \<Union> (set ` set ws)"
  by (auto simp: join_with_def split: list.splits)

lemma visible_line:
  assumes "\<forall>w\<in>set ws. visible w"
  shows "CHR 0x0A \<notin> set (join_with CHR '' '' ws)" and "CHR 0x0D \<notin> set (join_with CHR '' '' ws)"
proof -
  have "CHR 0x0A \<notin> set w \<and> CHR 0x0D \<notin> set w" if "visible w" for w
    using that by (auto simp: visible_def byte_def)
  then show "CHR 0x0A \<notin> set (join_with CHR '' '' ws)" "CHR 0x0D \<notin> set (join_with CHR '' '' ws)"
    using assms set_join_with[of "CHR '' ''" ws] by auto
qed

lemma lines_render:
  assumes "\<forall>f\<in>set (bc_l2_interfaces i @ bc_peer_interfaces i). visible f"
    and "\<forall>n. bc_local_subnet i = Some n \<longrightarrow> visible (net_string n)"
  shows "lines (render_babeld_conf net_string i) = conf_title # [] # map (join_with CHR '' '') (conf_words net_string i)"
  unfolding render_lines
proof (rule lines_unlines, rule ballI)
  fix l assume "l \<in> set (conf_title # [] # map (join_with CHR '' '') (conf_words net_string i))"
  then consider "l = conf_title" | "l = []" | ws where "ws \<in> set (conf_words net_string i)" "l = join_with CHR '' '' ws" by auto
  then show "CHR 0x0A \<notin> set l \<and> (l \<noteq> [] \<longrightarrow> last l \<noteq> CHR 0x0D)"
  proof cases
    case 1
    then show ?thesis by (simp add: conf_title_def em_dash_def char_of_eq eq_commute[of "CHR 0x0A"] byte_def)
  next
    case 3
    have v: "\<forall>w\<in>set ws. visible w" using conf_words_visible[of i, OF assms] 3(1) by blast
    show ?thesis using visible_line[OF v] 3(2) last_in_set by metis
  qed simp
qed

lemma conf_line_interfaces:
  "foldl conf_line v (map (\<lambda>f. [''interface'', f, ''type'', ''wireless'', ''enable-timestamps'', ''true'',
       ''rtt-min'', ''10'', ''rtt-max'', ''120'', ''max-rtt-penalty'', ''150'', ''rtt-decay'', ''42'']) fs) =
     v\<lparr>cv_l2 := cv_l2 v @ fs\<rparr>"
  "foldl conf_line v (map (\<lambda>f. [''interface'', f, ''type'', ''tunnel'']) fs) = v\<lparr>cv_tunnels := cv_tunnels v @ fs\<rparr>"
  by (induction fs arbitrary: v) (simp_all add: conf_line_def)

section \<open>Properties\<close>

text \<open>The configuration says exactly what was asked for: reading a rendered \<open>babeld.conf\<close> line by line
  gives back the interfaces in their order and with their types, the redistributed subnet, whether the default
  route is exported, and the default cost, and nothing else is allowed.\<close>

theorem babeld_conf_reads_back:
  assumes "\<forall>f\<in>set (bc_l2_interfaces i @ bc_peer_interfaces i). visible f"
    and "\<forall>n. bc_local_subnet i = Some n \<longrightarrow> visible (net_string n)"
  shows "read_conf (render_babeld_conf net_string i) =
    \<lparr>cv_l2 = bc_l2_interfaces i, cv_tunnels = bc_peer_interfaces i,
     cv_allowed = (case bc_local_subnet i of Some n \<Rightarrow> [net_string n] | None \<Rightarrow> []),
     cv_default_route = bc_gateway i, cv_rxcost = Some (unat (bc_tunnel_rxcost i))\<rparr>"
proof -
  obtain rest where t: "split_whitespace conf_title = ''#'' # rest"
    using words_from_token[of "''#''" "CHR '' ''"]
    by (simp add: split_whitespace_def conf_title_def visible_def byte_def)
  have w: "map split_whitespace (map (join_with CHR '' '') (conf_words net_string i)) = conf_words net_string i"
    unfolding map_map by (rule map_idI) (use conf_words_visible[of i, OF assms] in \<open>simp add: split_whitespace_join\<close>)
  have rx: "parse_uint 65535 (decimal (unat (bc_tunnel_rxcost i))) = Some (unat (bc_tunnel_rxcost i))"
    using unsigned_less[of "bc_tunnel_rxcost i", where 'a = nat] by (intro parse_uint_decimal) simp
  have m: "map split_whitespace (lines (render_babeld_conf net_string i)) =
      (''#'' # rest) # [] # conf_words net_string i"
    unfolding lines_render[OF assms] list.map t w by (simp add: split_whitespace_def)
  show ?thesis
    unfolding read_conf_def m
    by (simp add: conf_words_def conf_line_interfaces rx conf_line_def split: option.splits)
qed

text \<open>Example: a gateway with a radio and a tunnel.\<close>

theorem babeld_conf_reads_back_witness:
  "cv_default_route (read_conf (render_babeld_conf (\<lambda>_. ''10.42.1.0/24'')
     \<lparr>bc_local_subnet = Some (Ipv4Net 0x0A2A0100 24), bc_peer_interfaces = [''mj-peer-aabb''],
      bc_l2_interfaces = [''br-mesh''], bc_tunnel_rxcost = 96, bc_gateway = True\<rparr>))"
  by (subst babeld_conf_reads_back) (simp_all add: visible_def byte_def)

text \<open>C32. The reconciler brings the routing daemon up to date: when every service call of a run succeeds and the mesh state
  holds still for the last two rounds, in which the file system works too, the file on disk is the configuration the
  state asks for; with an interface to route over the daemon runs exactly that configuration, and without one it is down,
  or as the reconciler found it if it never started it. In the earlier rounds the mesh state may be anything and system calls
  on files may fail in any way.\<close>

theorem babel_reconciler_settles:
  assumes "bp_path p \<noteq> []" and "\<not> bs_started st"
    and "\<forall>i\<in>set (inps @ [inp]). reliable (bi_service i)" and "io_ok (bi_io inp)"
    and "st' = fold (babel_reconciler p) (inps @ [inp, inp]) st"
  shows "bs_files st' (bp_path p) = Some (str_bytes (wanted_conf p inp)) \<and>
    bs_started st' = have_ifaces p inp \<and>
    (if have_ifaces p inp then bs_running st' = Some (str_bytes (wanted_conf p inp)) else bs_running st' \<in> {None, bs_running st})"
proof -
  let ?s1 = "babel_reconciler p inp (fold (babel_reconciler p) inps st)"
  have i: "reliable (bi_service inp)" using assms(3) by simp
  have "babel_inv p (bs_running st) (fold (babel_reconciler p) (inps @ [inp, inp]) st)"
    by (rule reconciler_run_inv) (use assms(2,3) in \<open>auto simp: babel_inv_def\<close>)
  moreover have "st' = babel_reconciler p inp ?s1" by (simp add: assms(5))
  moreover note reconciler_round(2)[OF assms(4) i assms(1) reconciler_round(1)[OF assms(4) i assms(1)]]
  ultimately show ?thesis by (auto simp: babel_inv_def)
qed

text \<open>Witness of C32: a node with a radio backhaul starts the routing daemon.\<close>

definition sample_babel :: BabelParams where
  "sample_babel =
     \<lparr>bp_net_string = \<lambda>n. show_ipv4 (net_addr n) @ ''/'' @ decimal (prefix_len n), bp_network = std_network,
      bp_self_id = ''me'', bp_pid = 7, bp_path = [''var'', ''babeld.conf''], bp_l2_backhaul = Some ''br-mesh'',
      bp_gateway = False\<rparr>"

definition sample_round :: "service_manager \<Rightarrow> BabelInput" where
  "sample_round svc =
     \<lparr>bi_registry = [], bi_claims = [], bi_egress = None,
      bi_io = \<lparr>mkdir_fails = \<lambda>_. False, write_outcome = \<lambda>_. WroteAll, rename_fails = \<lambda>_ _. False, read_fails = \<lambda>_. False\<rparr>,
      bi_service = svc\<rparr>"

definition working_service :: service_manager where
  "working_service action disk run =
     (case action of SvcRestart \<Rightarrow> (disk, True) | SvcStop \<Rightarrow> (None, True) | SvcEnable \<Rightarrow> (run, True))"

definition babel_boot :: BabelState where
  "babel_boot = \<lparr>bs_started = False, bs_last_rendered = None, bs_files = Map.empty, bs_running = None\<rparr>"

lemma sample_round_sel:
  "read_fails (bi_io (sample_round svc)) q = False" "write_outcome (bi_io (sample_round svc)) q = WroteAll"
  "rename_fails (bi_io (sample_round svc)) q r = False" "bi_service (sample_round svc) = svc"
  "bp_path sample_babel = [''var'', ''babeld.conf'']"
  by (simp_all add: sample_round_def sample_babel_def)

lemma working_reliable: "reliable working_service"
  by (simp add: reliable_def working_service_def)

theorem babel_reconciler_settles_witness:
  "\<exists>st'. st' = fold (babel_reconciler sample_babel) [sample_round working_service, sample_round working_service] babel_boot \<and>
     bs_started st' \<and> bs_running st' \<noteq> None"
proof -
  let ?inp = "sample_round working_service"
  have io: "io_ok (bi_io ?inp)" "reliable (bi_service ?inp)"
    by (simp_all add: sample_round_def io_ok_def working_reliable)
  have "have_ifaces sample_babel ?inp" by (simp add: have_ifaces_def l2_refs_def sample_babel_def)
  then show ?thesis
    using babel_reconciler_settles[of sample_babel babel_boot "[]" ?inp, OF _ _ _ _ refl] io
    by (simp add: babel_boot_def sample_babel_def)
qed

section \<open>Where the reconcilers do not do what they say\<close>

text \<open>A service call may fail without effect (it has a ten second limit).\<close>

definition failing_service :: service_manager where
  "failing_service action disk run = (run, False)"

text \<open>The overlay reconciler is documented to keep the routing daemon running all the time. It remembers the
  rendering as done even when the first start failed, so it never tries again while the mesh state stays the
  same, although the service would start now.\<close>

theorem overlay_start_not_retried:
  "let st = babel_reconciler_overlay sample_babel (sample_round failing_service) babel_boot
   in \<not> bs_started (fold (babel_reconciler_overlay sample_babel) (replicate k (sample_round working_service)) st) \<and>
      bs_running (fold (babel_reconciler_overlay sample_babel) (replicate k (sample_round working_service)) st) = None"
proof -
  let ?c = "wanted_overlay_conf sample_babel (sample_round working_service)"
  let ?st = "babel_reconciler_overlay sample_babel (sample_round failing_service) babel_boot"
  have same: "wanted_overlay_conf sample_babel (sample_round failing_service) = ?c"
    by (simp add: wanted_overlay_conf_def gateway_now_def sample_round_def)
  have st: "\<not> bs_started ?st \<and> bs_running ?st = None \<and> bs_last_rendered ?st = Some ?c"
    by (simp add: babel_reconciler_overlay_def same babel_boot_def write_atomic_if_changed_def sample_round_sel
        parent_def fs_write_def fs_rename_def start_babeld_def babeld_service_def failing_service_def
        Let_def)
  then have "babel_reconciler_overlay sample_babel (sample_round working_service) ?st = ?st"
    by (simp add: babel_reconciler_overlay_def Let_def)
  then have "fold (babel_reconciler_overlay sample_babel) (replicate k (sample_round working_service)) ?st = ?st"
    by (induction k) simp_all
  then show ?thesis using st by (simp add: Let_def)
qed

text \<open>Both reconcilers drive the restart after a change themselves because the service manager's file watch
  misses it. When that one restart fails, the file is already written, so no later round restarts the daemon:
  it keeps running the old configuration.\<close>

theorem failed_restart_not_retried:
  assumes "bp_path p \<noteq> []" and "bs_started st" and "have_ifaces p inp"
    and "bs_last_rendered st = Some (wanted_conf p inp)"
    and "bs_files st (bp_path p) = Some old" and "old \<noteq> str_bytes (wanted_conf p inp)"
    and "bs_running st = Some old" and "io_ok (bi_io inp)" and "bi_service inp = failing_service"
  shows "bs_running (fold (babel_reconciler p) (inp # replicate k (inp\<lparr>bi_service := working_service\<rparr>)) st) = Some old"
proof -
  let ?inp = "inp\<lparr>bi_service := working_service\<rparr>"
  obtain fs' where w: "write_atomic_if_changed (bi_io inp) (bp_pid p) (bp_path p) (wanted_conf p inp) (bs_files st) =
      (fs', Inr (bs_files st (bp_path p) \<noteq> Some (str_bytes (wanted_conf p inp))))"
    "fs' (bp_path p) = Some (str_bytes (wanted_conf p inp))"
    by (rule write_atomic_ok[OF assms(8,1)])
  let ?st = "babel_reconciler p inp st"
  have st: "bs_started ?st \<and> bs_running ?st = Some old \<and> bs_last_rendered ?st = Some (wanted_conf p inp) \<and>
      bs_files ?st (bp_path p) = Some (str_bytes (wanted_conf p inp))"
    using assms w by (simp add: babel_reconciler_def babeld_service_def failing_service_def Let_def)
  have same: "wanted_conf p ?inp = wanted_conf p inp" "have_ifaces p ?inp"
    using assms(3) by (simp_all add: wanted_conf_def live_interfaces_def gateway_now_def have_ifaces_def)
  have "\<not> read_fails (bi_io inp) (bp_path p)" using assms(8) by (simp add: io_ok_def)
  then have fix_st: "babel_reconciler p ?inp ?st = ?st"
    using st same by (simp add: babel_reconciler_def write_atomic_if_changed_def Let_def)
  have "fold (babel_reconciler p) (replicate k ?inp) ?st = ?st"
    using fix_st by (induction k) simp_all
  then show ?thesis using st by simp
qed

end
