(* ===== verification/Hello.thy ===== *)
theory Hello
  imports Startup Directory
begin

text \<open>
  The front desk \<open>mjolnir-hello\<close>: \<open>routes.rs\<close> with its challenge store, the identity and name-claim
  ceremonies that write into the spools \<open>mjolnir-meshd\<close> reads, the cached reads of the files the daemon
  writes, the static bundle, and the request loop of \<open>main.rs\<close>.

  Parameters, in one record: \<open>serde_json\<close> for the request and record types, a JSON value and its \<open>node\<close>
  member, \<open>HEXLOWER\<close> of \<open>data_encoding\<close>, the Ed25519 verifier, the embedded assets and the files below the
  static root, and whether bytes are UTF-8. A request carries what the world supplies: the time, the random
  bytes, the outcome of the system calls and the modification times. Times are milliseconds; byte strings are
  lists of characters.
\<close>

section \<open>Data\<close>

definition CHALLENGE_TTL :: nat where
  "CHALLENGE_TTL = 5 * 60 * 1000"

type_synonym ChallengeStore = "(string, nat) hash_map"

definition new_challenge_store :: ChallengeStore where
  "new_challenge_store = []"

definition quoted :: "string \<Rightarrow> string" where
  "quoted s = [CHR 0x22] @ s @ [CHR 0x22]"

definition EMPTY_DIRECTORY :: string where
  "EMPTY_DIRECTORY =
     ''{'' @ quoted ''version'' @ '':1,'' @ quoted ''node'' @ '':null,'' @ quoted ''neighbors'' @ '':[],'' @
     quoted ''identities'' @ '':[],'' @ quoted ''services'' @ '':[]}''"

definition EMPTY_RADIO :: string where
  "EMPTY_RADIO =
     ''{'' @ quoted ''version'' @ '':1,'' @ quoted ''backhaul_addr'' @ '':null,'' @ quoted ''mesh_if'' @ '':null,'' @
     quoted ''mesh_mac'' @ '':null,'' @ quoted ''channel'' @ '':null,'' @ quoted ''freq_mhz'' @ '':null,'' @
     quoted ''collected_at_unix'' @ '':null,'' @ quoted ''stations'' @ '':[],'' @ quoted ''mpaths'' @ '':[]}''"

record CachedFile =
  cf_mtime :: "nat option"
  cf_body :: "string option"

record IdentityRequest =
  ir_pubkey :: string
  ir_sig :: string
  ir_challenge :: string
  ir_label :: "string option"

record IdentityRecord =
  id_pubkey :: string
  id_sig :: string
  id_challenge :: string
  id_label :: "string option"

definition NAME_SPOOL_SUBDIR :: string where
  "NAME_SPOOL_SUBDIR = ''names''"

definition NAME_CLAIM_DOMAIN :: string where
  "NAME_CLAIM_DOMAIN = ''mjolnir-name-claim:v1''"

record NameClaimRequest =
  nq_pubkey :: string
  nq_sig :: string
  nq_challenge :: string
  nq_name :: string
  nq_port :: "u16 option"
  nq_ip :: "IpAddr option"
  nq_scheme :: "string option"

record NameClaimRecord =
  nr_pubkey :: string
  nr_sig :: string
  nr_challenge :: string
  nr_name :: string
  nr_port :: u16
  nr_ip :: "IpAddr option"
  nr_scheme :: "string option"

definition name_claim_signing_message :: "string \<Rightarrow> string \<Rightarrow> u16 \<Rightarrow> string" where
  "name_claim_signing_message challenge_hex name port =
     NAME_CLAIM_DOMAIN @ [CHR 0x0A] @ challenge_hex @ [CHR 0x0A] @ name @ [CHR 0x0A] @ decimal (unat port)"

record RouteResponse =
  rr_status :: nat
  rr_content_type :: string
  rr_body :: string
  rr_cors :: bool

record HelloEnv =
  identity_from_slice :: "string \<Rightarrow> IdentityRequest option"
  claim_from_slice :: "string \<Rightarrow> NameClaimRequest option"
  identity_to_string :: "IdentityRecord \<Rightarrow> string"
  claim_to_string :: "NameClaimRecord \<Rightarrow> string"
  node_section :: "string \<Rightarrow> string option option"
    \<comment> \<open>of a JSON text: no value, or its \<open>node\<close> member as text, \<open>None\<close> for a missing or null one\<close>
  hexlower_decode :: "string \<Rightarrow> string option"
  hexlower_encode :: "string \<Rightarrow> string"
  key_from_bytes :: "string \<Rightarrow> bool"
  verify_sig :: "string \<Rightarrow> string \<Rightarrow> string \<Rightarrow> bool"
  embedded_asset :: "string \<Rightarrow> string option"
  read_static :: "string \<Rightarrow> string option"
  is_utf8 :: "bytes \<Rightarrow> bool"

record HelloConfig =
  hc_directory_file :: path
  hc_radio_file :: path
  hc_spool_dir :: path
  hc_static_root :: "string option"

record HelloState =
  hs_challenges :: ChallengeStore
  hs_directory :: CachedFile
  hs_radio :: CachedFile
  hs_files :: FileSys

record HelloRequest =
  hr_method :: string
  hr_url :: string
  hr_body :: string
  hr_now :: nat
  hr_nonce :: string
  hr_io :: IoEnv
  hr_mtime :: "path \<Rightarrow> nat option"

section \<open>Responses\<close>

definition response_json :: "nat \<Rightarrow> string \<Rightarrow> RouteResponse" where
  "response_json status body =
     \<lparr>rr_status = status, rr_content_type = ''application/json'', rr_body = body, rr_cors = False\<rparr>"

definition response_html :: "nat \<Rightarrow> string \<Rightarrow> RouteResponse" where
  "response_html status body =
     \<lparr>rr_status = status, rr_content_type = ''text/html; charset=utf-8'', rr_body = body, rr_cors = False\<rparr>"

definition response_json_typed :: "nat \<Rightarrow> string \<Rightarrow> string \<Rightarrow> RouteResponse" where
  "response_json_typed status content_type body =
     \<lparr>rr_status = status, rr_content_type = content_type, rr_body = body, rr_cors = False\<rparr>"

definition content_type_for :: "string \<Rightarrow> string" where
  "content_type_for p =
     (let ext = last (split_on CHR ''.'' p)
      in if ext = ''html'' then ''text/html; charset=utf-8''
         else if ext = ''js'' \<or> ext = ''mjs'' then ''text/javascript; charset=utf-8''
         else if ext = ''css'' then ''text/css; charset=utf-8''
         else if ext = ''json'' \<or> ext = ''map'' \<or> ext = ''webmanifest'' then ''application/json''
         else if ext = ''svg'' then ''image/svg+xml''
         else if ext = ''png'' then ''image/png''
         else if ext = ''webp'' then ''image/webp''
         else if ext = ''ico'' then ''image/x-icon''
         else if ext = ''woff2'' then ''font/woff2''
         else if ext = ''woff'' then ''font/woff''
         else if ext = ''ttf'' then ''font/ttf''
         else if ext = ''txt'' then ''text/plain; charset=utf-8''
         else ''application/octet-stream'')"

definition response_asset :: "nat \<Rightarrow> string \<Rightarrow> string \<Rightarrow> RouteResponse" where
  "response_asset status p body =
     \<lparr>rr_status = status, rr_content_type = content_type_for p, rr_body = body, rr_cors = False\<rparr>"

definition bad_request :: "string \<Rightarrow> RouteResponse" where
  "bad_request msg = response_json 400 (''{'' @ quoted ''error'' @ '':'' @ quoted msg @ ''}'')"

section \<open>Handlers\<close>

definition health :: RouteResponse where
  "health = response_json 200 (''{'' @ quoted ''status'' @ '':'' @ quoted ''ok'' @ ''}'')"

definition captive_portal :: RouteResponse where
  "captive_portal =
     response_json_typed 200 ''application/captive+json''
       (''{'' @ quoted ''captive'' @ '':false,'' @ quoted ''user-portal-url'' @ '':'' @ quoted ''http://hello.mesh/'' @ '','' @
        quoted ''venue-info-url'' @ '':'' @ quoted ''http://hello.mesh/'' @ ''}'')"

definition read_cached :: "HelloEnv \<Rightarrow> HelloRequest \<Rightarrow> FileSys \<Rightarrow> path \<Rightarrow> string \<Rightarrow> CachedFile \<Rightarrow> CachedFile \<times> string" where
  "read_cached env req fs p empty_body cached =
     (let mtime = hr_mtime req p;
          contents = (if read_fails (hr_io req) p then None
                      else (case fs p of Some bs \<Rightarrow> if is_utf8 env bs then Some (bytes_str bs) else None | None \<Rightarrow> None));
          cached' = (if mtime = None \<or> mtime \<noteq> cf_mtime cached
                     then (case contents of
                             Some text \<Rightarrow> \<lparr>cf_mtime = mtime, cf_body = Some text\<rparr>
                           | None \<Rightarrow> cached)
                     else cached)
      in (cached', case cf_body cached' of Some body \<Rightarrow> body | None \<Rightarrow> empty_body))"

definition directory_handler :: "HelloEnv \<Rightarrow> HelloConfig \<Rightarrow> HelloRequest \<Rightarrow> HelloState \<Rightarrow> HelloState \<times> RouteResponse" where
  "directory_handler env cfg req st =
     (case read_cached env req (hs_files st) (hc_directory_file cfg) EMPTY_DIRECTORY (hs_directory st) of
        (cached, body) \<Rightarrow> (st\<lparr>hs_directory := cached\<rparr>, response_json 200 body))"

definition radio_handler :: "HelloEnv \<Rightarrow> HelloConfig \<Rightarrow> HelloRequest \<Rightarrow> HelloState \<Rightarrow> HelloState \<times> RouteResponse" where
  "radio_handler env cfg req st =
     (case read_cached env req (hs_files st) (hc_radio_file cfg) EMPTY_RADIO (hs_radio st) of
        (cached, body) \<Rightarrow> (st\<lparr>hs_radio := cached\<rparr>, response_json 200 body))"

definition node_handler :: "HelloEnv \<Rightarrow> HelloConfig \<Rightarrow> HelloRequest \<Rightarrow> HelloState \<Rightarrow> HelloState \<times> RouteResponse" where
  "node_handler env cfg req st =
     (case read_cached env req (hs_files st) (hc_directory_file cfg) EMPTY_DIRECTORY (hs_directory st) of
        (cached, body) \<Rightarrow>
          (st\<lparr>hs_directory := cached\<rparr>,
           case node_section env body of
             None \<Rightarrow> response_json 200 ''{}''
           | Some None \<Rightarrow> response_json 200 ''{}''
           | Some (Some node) \<Rightarrow> response_json 200 node))"

definition INDEX_HTML :: string where
  "INDEX_HTML = ''index.html''"

definition serve_static :: "HelloEnv \<Rightarrow> string \<Rightarrow> string option \<Rightarrow> RouteResponse" where
  "serve_static env url static_root =
     (let trimmed = dropWhile (\<lambda>c. c = CHR ''/'') url;
          asset_path = (if trimmed = [] then INDEX_HTML else trimmed)
      in case static_root of
           Some root \<Rightarrow>
             (case read_static env (root @ ''/'' @ asset_path) of
                Some body \<Rightarrow> response_asset 200 asset_path body
              | None \<Rightarrow>
                  (case read_static env (root @ ''/'' @ INDEX_HTML) of
                     Some body \<Rightarrow> response_html 200 body
                   | None \<Rightarrow> response_html 404 ''not found''))
         | None \<Rightarrow>
             (case embedded_asset env asset_path of
                Some body \<Rightarrow> response_asset 200 asset_path body
              | None \<Rightarrow>
                  (case embedded_asset env INDEX_HTML of
                     Some body \<Rightarrow> response_html 200 body
                   | None \<Rightarrow> response_html 404 ''not found'')))"

definition unexpired :: "nat \<Rightarrow> nat \<Rightarrow> bool" where
  "unexpired now issued_at \<longleftrightarrow> now - issued_at < CHALLENGE_TTL"

definition issue_challenge :: "HelloEnv \<Rightarrow> HelloRequest \<Rightarrow> HelloState \<Rightarrow> HelloState \<times> RouteResponse" where
  "issue_challenge env req st =
     (let hex = hexlower_encode env (hr_nonce req);
          store = filter (\<lambda>(_, issued_at). unexpired (hr_now req) issued_at) (hs_challenges st)
      in (st\<lparr>hs_challenges := hm_insert hex (hr_now req) store\<rparr>,
          response_json 200 (''{'' @ quoted ''challenge'' @ '':'' @ quoted hex @ ''}'')))"

text \<open>Both ceremonies decode the key and the signature the same way.\<close>

definition decode_key_sig :: "HelloEnv \<Rightarrow> string \<Rightarrow> string \<Rightarrow> string + string \<times> string" where
  "decode_key_sig env pubkey sig =
     (case hexlower_decode env pubkey of
        None \<Rightarrow> Inl ''invalid pubkey encoding''
      | Some pubkey_bytes \<Rightarrow>
          (case hexlower_decode env sig of
             None \<Rightarrow> Inl ''invalid signature encoding''
           | Some sig_bytes \<Rightarrow>
               if length pubkey_bytes \<noteq> 32 then Inl ''invalid pubkey length''
               else if length sig_bytes \<noteq> 64 then Inl ''invalid signature length''
               else if \<not> key_from_bytes env pubkey_bytes then Inl ''invalid pubkey''
               else Inr (pubkey_bytes, sig_bytes)))"

definition known_unexpired :: "ChallengeStore \<Rightarrow> nat \<Rightarrow> string \<Rightarrow> bool" where
  "known_unexpired store now challenge =
     (case hm_get store challenge of Some issued_at \<Rightarrow> unexpired now issued_at | None \<Rightarrow> False)"

text \<open>The spool entry of an accepted submission: the directory, then the file.\<close>

definition spool_entry :: "HelloRequest \<Rightarrow> path \<Rightarrow> string \<Rightarrow> string \<Rightarrow> HelloState \<Rightarrow> HelloState \<times> RouteResponse" where
  "spool_entry req dir file_name record_json st =
     (if mkdir_fails (hr_io req) dir
      then (st, response_json 500 (''{'' @ quoted ''error'' @ '':'' @ quoted ''spool unavailable'' @ ''}''))
      else
        (case fs_write (hr_io req) (dir @ [file_name]) (str_bytes record_json) (hs_files st) of
           (fs, False) \<Rightarrow>
             (st\<lparr>hs_files := fs\<rparr>, response_json 500 (''{'' @ quoted ''error'' @ '':'' @ quoted ''spool write failed'' @ ''}''))
         | (fs, True) \<Rightarrow> (st\<lparr>hs_files := fs\<rparr>, response_json 200 record_json)))"

definition submit_identity :: "HelloEnv \<Rightarrow> HelloConfig \<Rightarrow> HelloRequest \<Rightarrow> HelloState \<Rightarrow> HelloState \<times> RouteResponse" where
  "submit_identity env cfg req st =
     (case identity_from_slice env (hr_body req) of
        None \<Rightarrow> (st, bad_request ''invalid request body'')
      | Some r \<Rightarrow>
          (case decode_key_sig env (ir_pubkey r) (ir_sig r) of
             Inl msg \<Rightarrow> (st, bad_request msg)
           | Inr (key, signature) \<Rightarrow>
               (case hexlower_decode env (ir_challenge r) of
                  None \<Rightarrow> (st, bad_request ''invalid challenge encoding'')
                | Some challenge_bytes \<Rightarrow>
                    if \<not> known_unexpired (hs_challenges st) (hr_now req) (ir_challenge r)
                    then (st, bad_request ''unknown or expired challenge'')
                    else if \<not> verify_sig env key challenge_bytes signature then (st, bad_request ''invalid signature'')
                    else
                      spool_entry req (hc_spool_dir cfg) (ir_pubkey r @ ''.json'')
                        (identity_to_string env
                           \<lparr>id_pubkey = ir_pubkey r, id_sig = ir_sig r, id_challenge = ir_challenge r, id_label = ir_label r\<rparr>)
                        (st\<lparr>hs_challenges := hm_remove (ir_challenge r) (hs_challenges st)\<rparr>))))"

definition claim_record :: "NameClaimRequest \<Rightarrow> NameClaimRecord" where
  "claim_record r =
     \<lparr>nr_pubkey = nq_pubkey r, nr_sig = nq_sig r, nr_challenge = nq_challenge r, nr_name = nq_name r,
      nr_port = (case nq_port r of Some p \<Rightarrow> p | None \<Rightarrow> 0), nr_ip = nq_ip r, nr_scheme = nq_scheme r\<rparr>"

definition submit_name_claim :: "HelloEnv \<Rightarrow> HelloConfig \<Rightarrow> HelloRequest \<Rightarrow> HelloState \<Rightarrow> HelloState \<times> RouteResponse" where
  "submit_name_claim env cfg req st =
     (case claim_from_slice env (hr_body req) of
        None \<Rightarrow> (st, bad_request ''invalid request body'')
      | Some r \<Rightarrow>
          if (case normalize_device_host (nq_name r) of Inl _ \<Rightarrow> True | Inr normalized \<Rightarrow> normalized \<noteq> nq_name r)
          then (st, bad_request ''invalid name'')
          else if is_reserved_service_name (nq_name r) then (st, bad_request ''reserved name'')
          else
            (case decode_key_sig env (nq_pubkey r) (nq_sig r) of
               Inl msg \<Rightarrow> (st, bad_request msg)
             | Inr (key, signature) \<Rightarrow>
                 (let record = claim_record r;
                      signed_message = name_claim_signing_message (nq_challenge r) (nq_name r) (nr_port record)
                  in if \<not> known_unexpired (hs_challenges st) (hr_now req) (nq_challenge r)
                     then (st, bad_request ''unknown or expired challenge'')
                     else if \<not> verify_sig env key signed_message signature then (st, bad_request ''invalid signature'')
                     else
                       spool_entry req (hc_spool_dir cfg @ [NAME_SPOOL_SUBDIR]) (nq_pubkey r @ ''.json'')
                         (claim_to_string env record)
                         (st\<lparr>hs_challenges := hm_remove (nq_challenge r) (hs_challenges st)\<rparr>))))"

definition route :: "HelloEnv \<Rightarrow> HelloConfig \<Rightarrow> HelloRequest \<Rightarrow> HelloState \<Rightarrow> HelloState \<times> RouteResponse" where
  "route env cfg req st =
     (let get = (hr_method req = ''GET''); post = (hr_method req = ''POST''); url = hr_url req;
          out = (if get \<and> url = ''/api/health'' then (st, health)
                 else if get \<and> url = ''/api/captive-portal'' then (st, captive_portal)
                 else if get \<and> url = ''/api/directory'' then directory_handler env cfg req st
                 else if get \<and> url = ''/api/node'' then node_handler env cfg req st
                 else if get \<and> url = ''/api/radio'' then radio_handler env cfg req st
                 else if get \<and> url = ''/api/challenge'' then issue_challenge env req st
                 else if post \<and> url = ''/api/identity'' then submit_identity env cfg req st
                 else if post \<and> url = ''/api/name-claim'' then submit_name_claim env cfg req st
                 else if get then (st, serve_static env url (hc_static_root cfg))
                 else (st, \<lparr>rr_status = 404, rr_content_type = ''text/plain'', rr_body = ''not found'', rr_cors = False\<rparr>))
      in if get \<and> starts_with ''/api/'' url then (fst out, (snd out)\<lparr>rr_cors := True\<rparr>) else out)"

text \<open>The request loop: each request is answered with the status, the content type, the header for other
  origins, and the body.\<close>

definition response_headers :: "RouteResponse \<Rightarrow> (string \<times> string) list" where
  "response_headers resp =
     (''Content-Type'', rr_content_type resp) # (if rr_cors resp then [(''Access-Control-Allow-Origin'', ''*'')] else [])"

fun serve_requests ::
  "HelloEnv \<Rightarrow> HelloConfig \<Rightarrow> HelloRequest list \<Rightarrow> HelloState \<Rightarrow> HelloState \<times> (nat \<times> (string \<times> string) list \<times> string) list" where
  "serve_requests env cfg [] st = (st, [])"
| "serve_requests env cfg (req # reqs) st =
     (case route env cfg req st of
        (st', resp) \<Rightarrow>
          (case serve_requests env cfg reqs st' of
             (st'', out) \<Rightarrow> (st'', (rr_status resp, response_headers resp, rr_body resp) # out)))"

section \<open>Challenges\<close>

definition issues :: "HelloRequest \<Rightarrow> bool" where
  "issues req \<longleftrightarrow> hr_method req = ''GET'' \<and> hr_url req = ''/api/challenge''"

definition issued :: "HelloEnv \<Rightarrow> HelloRequest list \<Rightarrow> (string \<times> nat) list" where
  "issued env reqs = map (\<lambda>req. (hexlower_encode env (hr_nonce req), hr_now req)) (filter issues reqs)"

text \<open>The challenge a request redeems: that of a submission that was not refused.\<close>

definition redemption :: "HelloEnv \<Rightarrow> HelloConfig \<Rightarrow> HelloState \<Rightarrow> HelloRequest \<Rightarrow> string option" where
  "redemption env cfg st req =
     (if hr_method req \<noteq> ''POST'' \<or> rr_status (snd (route env cfg req st)) \<in> {400, 404} then None
      else if hr_url req = ''/api/identity'' then map_option ir_challenge (identity_from_slice env (hr_body req))
      else map_option nq_challenge (claim_from_slice env (hr_body req)))"

definition redemptions :: "HelloEnv \<Rightarrow> HelloConfig \<Rightarrow> HelloRequest list \<Rightarrow> HelloState \<Rightarrow> string list" where
  "redemptions env cfg reqs st =
     List.map_filter (\<lambda>n. redemption env cfg (fst (serve_requests env cfg (take n reqs) st)) (reqs ! n)) [0..<length reqs]"

lemmas response_defs = response_json_def response_html_def response_json_typed_def response_asset_def bad_request_def
  health_def captive_portal_def

lemma spool_entry_keeps:
  "hs_challenges (fst (spool_entry req dir name json st)) = hs_challenges st"
  "rr_status (snd (spool_entry req dir name json st)) \<in> {200, 500}"
  by (auto simp: spool_entry_def response_defs split: prod.splits bool.splits)

lemma spool_entry_status: "rr_status (snd (spool_entry req dir name json st)) \<notin> {400, 404}"
  using spool_entry_keeps(2)[of req dir name json st] by auto

lemma spool_entry_spec:
  assumes "(st', resp) = spool_entry req dir name json st"
  shows "hs_challenges st' = hs_challenges st" "hs_directory st' = hs_directory st" "hs_radio st' = hs_radio st"
    "p \<noteq> dir @ [name] \<Longrightarrow> hs_files st' p = hs_files st p"
    "rr_status resp = 500 \<or> rr_status resp = 200 \<and> rr_body resp = json \<and> hs_files st' (dir @ [name]) = Some (str_bytes json)"
  using assms
  by (auto simp: spool_entry_def response_defs fs_write_def split: if_splits prod.splits bool.splits WriteOutcome.splits)

text \<open>A submission is either refused without any effect or passes every check and is spooled.\<close>

lemma submit_identity_cases:
  "(\<exists>msg. submit_identity env cfg req st = (st, bad_request msg)) \<or>
   (\<exists>r key signature nonce. identity_from_slice env (hr_body req) = Some r \<and>
      decode_key_sig env (ir_pubkey r) (ir_sig r) = Inr (key, signature) \<and>
      hexlower_decode env (ir_challenge r) = Some nonce \<and>
      known_unexpired (hs_challenges st) (hr_now req) (ir_challenge r) \<and> verify_sig env key nonce signature \<and>
      submit_identity env cfg req st =
        spool_entry req (hc_spool_dir cfg) (ir_pubkey r @ ''.json'')
          (identity_to_string env
             \<lparr>id_pubkey = ir_pubkey r, id_sig = ir_sig r, id_challenge = ir_challenge r, id_label = ir_label r\<rparr>)
          (st\<lparr>hs_challenges := hm_remove (ir_challenge r) (hs_challenges st)\<rparr>))"
  unfolding submit_identity_def by (auto split: option.splits sum.splits if_splits)

lemma submit_name_claim_cases:
  "(\<exists>msg. submit_name_claim env cfg req st = (st, bad_request msg)) \<or>
   (\<exists>r key signature. claim_from_slice env (hr_body req) = Some r \<and> name_claim_ok (nq_name r) \<and>
      decode_key_sig env (nq_pubkey r) (nq_sig r) = Inr (key, signature) \<and>
      known_unexpired (hs_challenges st) (hr_now req) (nq_challenge r) \<and>
      verify_sig env key (name_claim_signing_message (nq_challenge r) (nq_name r) (nr_port (claim_record r))) signature \<and>
      submit_name_claim env cfg req st =
        spool_entry req (hc_spool_dir cfg @ [NAME_SPOOL_SUBDIR]) (nq_pubkey r @ ''.json'')
          (claim_to_string env (claim_record r))
          (st\<lparr>hs_challenges := hm_remove (nq_challenge r) (hs_challenges st)\<rparr>))"
  unfolding submit_name_claim_def name_claim_ok_def Let_def by (auto split: option.splits sum.splits if_splits)

lemma route_post:
  assumes "hr_method req = ''POST''"
  shows "route env cfg req st =
    (if hr_url req = ''/api/identity'' then submit_identity env cfg req st
     else if hr_url req = ''/api/name-claim'' then submit_name_claim env cfg req st
     else (st, \<lparr>rr_status = 404, rr_content_type = ''text/plain'', rr_body = ''not found'', rr_cors = False\<rparr>))"
  using assms by (simp add: route_def Let_def)

lemma read_only_handlers:
  "hs_challenges (fst (directory_handler env cfg req st)) = hs_challenges st"
  "hs_challenges (fst (node_handler env cfg req st)) = hs_challenges st"
  "hs_challenges (fst (radio_handler env cfg req st)) = hs_challenges st"
  by (simp_all add: directory_handler_def node_handler_def radio_handler_def split: prod.splits)

lemma issue_step:
  assumes "issues req"
  shows "redemption env cfg st req = None"
    and "hs_challenges (fst (route env cfg req st)) =
      hm_insert (hexlower_encode env (hr_nonce req)) (hr_now req)
        (filter (\<lambda>(_, issued_at). unexpired (hr_now req) issued_at) (hs_challenges st))"
  using assms by (simp_all add: issues_def redemption_def route_def issue_challenge_def Let_def starts_with_def)

lemma redeem_step:
  assumes "redemption env cfg st req = Some h"
  shows "\<exists>t. hm_get (hs_challenges st) h = Some t \<and> unexpired (hr_now req) t"
    and "hs_challenges (fst (route env cfg req st)) = hm_remove h (hs_challenges st)"
proof -
  have post: "hr_method req = ''POST''" "rr_status (snd (route env cfg req st)) \<notin> {400, 404}"
    using assms by (auto simp: redemption_def split: if_splits)
  have "(\<exists>t. hm_get (hs_challenges st) h = Some t \<and> unexpired (hr_now req) t) \<and>
      hs_challenges (fst (route env cfg req st)) = hm_remove h (hs_challenges st)"
  proof (cases "hr_url req = ''/api/identity''")
    case True
    then show ?thesis
      using submit_identity_cases[of env cfg req st] assms post unfolding redemption_def route_post[OF post(1)]
      by (auto simp: response_defs spool_entry_keeps known_unexpired_def split: option.splits)
  next
    case False
    then show ?thesis
      using submit_name_claim_cases[of env cfg req st] assms post unfolding redemption_def route_post[OF post(1)]
      by (auto simp: response_defs spool_entry_keeps known_unexpired_def split: option.splits if_splits)
  qed
  then show "\<exists>t. hm_get (hs_challenges st) h = Some t \<and> unexpired (hr_now req) t"
    "hs_challenges (fst (route env cfg req st)) = hm_remove h (hs_challenges st)" by auto
qed

lemma other_step:
  assumes "redemption env cfg st req = None" and "\<not> issues req"
  shows "hs_challenges (fst (route env cfg req st)) = hs_challenges st"
proof (cases "hr_method req = ''POST''")
  case True
  show ?thesis
  proof (cases "hr_url req = ''/api/identity''")
    case url: True
    show ?thesis
      using submit_identity_cases[of env cfg req st]
    proof
      assume "\<exists>msg. submit_identity env cfg req st = (st, bad_request msg)"
      then show ?thesis using url by (auto simp: route_post[OF True])
    qed (use assms(1) True url spool_entry_status in \<open>auto simp: redemption_def route_post[OF True]\<close>)
  next
    case other: False
    show ?thesis
      using submit_name_claim_cases[of env cfg req st]
    proof
      assume "\<exists>msg. submit_name_claim env cfg req st = (st, bad_request msg)"
      then show ?thesis using other by (auto simp: route_post[OF True])
    qed (use assms(1) True other spool_entry_status in \<open>auto simp: redemption_def route_post[OF True]\<close>)
  qed
next
  case False
  then show ?thesis
    using assms(2) by (simp add: route_def Let_def issues_def read_only_handlers)
qed

definition after_requests :: "HelloEnv \<Rightarrow> HelloConfig \<Rightarrow> HelloRequest list \<Rightarrow> HelloState \<Rightarrow> HelloState" where
  "after_requests env cfg reqs st = fst (serve_requests env cfg reqs st)"

lemma after_snoc: "after_requests env cfg (reqs @ [req]) st = fst (route env cfg req (after_requests env cfg reqs st))"
  unfolding after_requests_def by (induction reqs arbitrary: st) (simp_all add: case_prod_beta)

lemma after_Nil: "after_requests env cfg [] st = st"
  by (simp add: after_requests_def)

lemma redemptions_snoc:
  "redemptions env cfg (reqs @ [req]) st =
     redemptions env cfg reqs st @
       (case redemption env cfg (after_requests env cfg reqs st) req of None \<Rightarrow> [] | Some h \<Rightarrow> [h])"
proof -
  have "List.map_filter (\<lambda>n. redemption env cfg (fst (serve_requests env cfg (take n (reqs @ [req])) st)) ((reqs @ [req]) ! n))
      [0..<length reqs] = redemptions env cfg reqs st"
    unfolding redemptions_def List.map_filter_def
    by (intro map_cong filter_cong) (auto simp: nth_append)
  then show ?thesis
    by (simp add: redemptions_def List.map_filter_def after_requests_def split: option.splits)
qed

lemma issued_snoc:
  "issued env (reqs @ [req]) =
     issued env reqs @ (if issues req then [(hexlower_encode env (hr_nonce req), hr_now req)] else [])"
  by (simp add: issued_def)

lemma hm_get_filter: "hm_ok m \<Longrightarrow> hm_get (filter (\<lambda>(k, v). P v) m) k = Some v \<Longrightarrow> hm_get m k = Some v"
  by (auto simp: hm_get_def hm_ok_def dest!: map_of_SomeD intro: map_of_is_SomeI)

lemma hm_filter_ok: "hm_ok m \<Longrightarrow> hm_ok (filter P m)"
  by (simp add: hm_ok_def distinct_map_filter)

lemma challenge_invariant:
  assumes "hs_challenges st = new_challenge_store" and "distinct (map fst (issued env reqs))"
  shows "hm_ok (hs_challenges (after_requests env cfg reqs st)) \<and>
    (\<forall>h t. hm_get (hs_challenges (after_requests env cfg reqs st)) h = Some t \<longrightarrow>
       (h, t) \<in> set (issued env reqs) \<and> h \<notin> set (redemptions env cfg reqs st)) \<and>
    distinct (redemptions env cfg reqs st) \<and> set (redemptions env cfg reqs st) \<subseteq> fst ` set (issued env reqs)"
  using assms(2)
proof (induction reqs rule: rev_induct)
  case Nil
  then show ?case
    using assms(1) by (simp add: after_Nil new_challenge_store_def redemptions_def issued_def hm_ok_def hm_get_def List.map_filter_def)
next
  case (snoc req reqs)
  let ?s = "after_requests env cfg reqs st"
  have IH: "hm_ok (hs_challenges ?s)"
    "\<And>h t. hm_get (hs_challenges ?s) h = Some t \<Longrightarrow> (h, t) \<in> set (issued env reqs) \<and> h \<notin> set (redemptions env cfg reqs st)"
    "distinct (redemptions env cfg reqs st)" "set (redemptions env cfg reqs st) \<subseteq> fst ` set (issued env reqs)"
    using snoc by (auto simp: issued_snoc)
  consider h where "redemption env cfg ?s req = Some h" | "redemption env cfg ?s req = None" "issues req"
    | "redemption env cfg ?s req = None" "\<not> issues req" by fastforce
  then show ?case
  proof cases
    case 1
    note r = redeem_step[OF 1]
    have ni: "\<not> issues req" using 1 issue_step(1) by fastforce
    obtain t where t: "hm_get (hs_challenges ?s) h = Some t" using r(1) by blast
    show ?thesis
      using IH IH(2)[OF t] ni by (force simp: redemptions_snoc issued_snoc after_snoc 1 r(2) hm_remove_ok hm_get_remove)
  next
    case 2
    let ?h = "hexlower_encode env (hr_nonce req)"
    let ?m = "filter (\<lambda>(_, issued_at). unexpired (hr_now req) issued_at) (hs_challenges ?s)"
    have new: "?h \<notin> fst ` set (issued env reqs)" using snoc.prems 2(2) by (auto simp: issued_snoc)
    have g: "hm_get ?m h = Some t \<Longrightarrow> hm_get (hs_challenges ?s) h = Some t" for h t by (rule hm_get_filter[OF IH(1)])
    show ?thesis
      using IH g new 2
      by (auto simp: redemptions_snoc issued_snoc after_snoc issue_step(2)[OF 2(2)] hm_insert_ok hm_filter_ok hm_get_insert
          split: if_splits)
  next
    case 3
    then show ?thesis
      using IH by (simp add: redemptions_snoc issued_snoc after_snoc other_step[OF 3])
  qed
qed

section \<open>Properties\<close>

text \<open>C31. A challenge is good for one submission: when the front desk never draws the same nonce twice, no
  challenge is redeemed twice in any sequence of requests, and a submission is accepted only with a challenge
  that was issued by an earlier request less than five minutes ago.\<close>

theorem challenge_single_use:
  assumes "hs_challenges st = new_challenge_store" and "distinct (map fst (issued env reqs))"
  shows "distinct (redemptions env cfg reqs st) \<and>
    (\<forall>earlier req later h. reqs = earlier @ req # later \<longrightarrow>
       redemption env cfg (after_requests env cfg earlier st) req = Some h \<longrightarrow>
       (\<exists>t. (h, t) \<in> set (issued env earlier) \<and> hr_now req - t < CHALLENGE_TTL))"
proof (intro conjI allI impI)
  show "distinct (redemptions env cfg reqs st)" using challenge_invariant[OF assms] by blast
next
  fix earlier req later h
  assume r: "reqs = earlier @ req # later" and h: "redemption env cfg (after_requests env cfg earlier st) req = Some h"
  obtain t where t: "hm_get (hs_challenges (after_requests env cfg earlier st)) h = Some t" "unexpired (hr_now req) t"
    using redeem_step(1)[OF h] by blast
  have "distinct (map fst (issued env earlier))" using assms(2) unfolding r by (simp add: issued_def)
  then have "(h, t) \<in> set (issued env earlier)" using challenge_invariant[OF assms(1)] t(1) by blast
  then show "\<exists>t. (h, t) \<in> set (issued env earlier) \<and> hr_now req - t < CHALLENGE_TTL"
    using t(2) by (auto simp: unexpired_def)
qed

text \<open>Witness of C31: the second submission with the same challenge is refused.\<close>

definition sample_desk :: HelloEnv where
  "sample_desk =
     \<lparr>identity_from_slice = \<lambda>b. Some \<lparr>ir_pubkey = replicate 32 CHR ''a'', ir_sig = replicate 64 CHR ''b'', ir_challenge = b, ir_label = None\<rparr>,
      claim_from_slice = \<lambda>b. Some \<lparr>nq_pubkey = replicate 32 CHR ''a'', nq_sig = replicate 64 CHR ''b'', nq_challenge = b,
        nq_name = ''blog'', nq_port = None, nq_ip = Some (V4 5), nq_scheme = None\<rparr>,
      identity_to_string = id_pubkey, claim_to_string = nr_name, node_section = \<lambda>_. None,
      hexlower_decode = Some, hexlower_encode = \<lambda>s. s, key_from_bytes = \<lambda>_. True, verify_sig = \<lambda>_ _ _. True,
      embedded_asset = \<lambda>_. None, read_static = \<lambda>_. None, is_utf8 = \<lambda>_. True\<rparr>"

definition sample_desk_config :: HelloConfig where
  "sample_desk_config =
     \<lparr>hc_directory_file = [''directory.json''], hc_radio_file = [''radio.json''], hc_spool_dir = [''pending''], hc_static_root = None\<rparr>"

definition sample_desk_state :: HelloState where
  "sample_desk_state =
     \<lparr>hs_challenges = new_challenge_store, hs_directory = \<lparr>cf_mtime = None, cf_body = None\<rparr>,
      hs_radio = \<lparr>cf_mtime = None, cf_body = None\<rparr>, hs_files = Map.empty\<rparr>"

definition sample_request :: "string \<Rightarrow> string \<Rightarrow> string \<Rightarrow> nat \<Rightarrow> HelloRequest" where
  "sample_request method url body now =
     \<lparr>hr_method = method, hr_url = url, hr_body = body, hr_now = now, hr_nonce = ''c'',
      hr_io = \<lparr>mkdir_fails = \<lambda>_. False, write_outcome = \<lambda>_. WroteAll, rename_fails = \<lambda>_ _. False, read_fails = \<lambda>_. False\<rparr>,
      hr_mtime = \<lambda>_. None\<rparr>"

definition sample_requests :: "HelloRequest list" where
  "sample_requests =
     [sample_request ''GET'' ''/api/challenge'' [] 1, sample_request ''POST'' ''/api/identity'' ''c'' 2,
      sample_request ''POST'' ''/api/identity'' ''c'' 3]"

lemma sample_submission:
  "redemption sample_desk cfg st (sample_request ''POST'' ''/api/identity'' h now) =
     (if known_unexpired (hs_challenges st) now h then Some h else None)"
proof -
  have "decode_key_sig sample_desk (replicate 32 CHR ''a'') (replicate 64 CHR ''b'') =
      Inr (replicate 32 CHR ''a'', replicate 64 CHR ''b'')"
    by (simp add: decode_key_sig_def sample_desk_def)
  moreover have "identity_from_slice sample_desk h =
      Some \<lparr>ir_pubkey = replicate 32 CHR ''a'', ir_sig = replicate 64 CHR ''b'', ir_challenge = h, ir_label = None\<rparr>"
    "hexlower_decode sample_desk = Some" "verify_sig sample_desk = (\<lambda>_ _ _. True)"
    by (simp_all add: sample_desk_def)
  ultimately show ?thesis
    using spool_entry_status by (simp add: redemption_def route_post sample_request_def submit_identity_def response_defs)
qed

theorem challenge_single_use_witness:
  "distinct (redemptions sample_desk sample_desk_config sample_requests sample_desk_state) \<and>
   redemptions sample_desk sample_desk_config sample_requests sample_desk_state = [''c'']"
proof -
  have d: "distinct (map fst (issued sample_desk sample_requests))" by code_simp
  let ?g = "sample_request ''GET'' ''/api/challenge'' [] 1"
    and ?p = "sample_request ''POST'' ''/api/identity'' ''c''"
  have i: "issues ?g" by (simp add: issues_def sample_request_def)
  have c1: "hs_challenges (after_requests sample_desk sample_desk_config ([] @ [?g]) sample_desk_state) = [(''c'', 1)]"
    unfolding after_snoc after_Nil issue_step(2)[OF i]
    by (simp add: sample_desk_state_def new_challenge_store_def sample_desk_def sample_request_def)
  have k: "known_unexpired [(''c'', 1)] 2 ''c''" by (simp add: known_unexpired_def hm_get_def unexpired_def CHALLENGE_TTL_def)
  have r2: "redemption sample_desk sample_desk_config (after_requests sample_desk sample_desk_config ([] @ [?g]) sample_desk_state) (?p 2) =
      Some ''c''" unfolding sample_submission c1 using k by simp
  have "hs_challenges (after_requests sample_desk sample_desk_config (([] @ [?g]) @ [?p 2]) sample_desk_state) = []"
    unfolding after_snoc[of _ _ "[] @ [?g]"] redeem_step(2)[OF r2] c1 by (simp add: hm_remove_def)
  then have r3: "redemption sample_desk sample_desk_config
      (after_requests sample_desk sample_desk_config (([] @ [?g]) @ [?p 2]) sample_desk_state) (?p 3) = None"
    unfolding sample_submission by (simp add: known_unexpired_def hm_get_def)
  have q: "sample_requests = (([] @ [?g]) @ [?p 2]) @ [?p 3]" by (simp add: sample_requests_def)
  have r: "redemptions sample_desk sample_desk_config sample_requests sample_desk_state = [''c'']"
    unfolding q redemptions_snoc r2 r3 issue_step(1)[OF i] by (simp add: redemptions_def List.map_filter_def)
  have "hs_challenges sample_desk_state = new_challenge_store" by (simp add: sample_desk_state_def)
  from challenge_single_use[OF this d, of sample_desk_config] r show ?thesis by blast
qed

text \<open>The signed bytes tell the challenge, the name and the port apart.\<close>

lemma first_line:
  fixes c :: char
  assumes "c \<notin> set a" "c \<notin> set a'" and e: "a @ c # b = a' @ c # b'"
  shows "a = a' \<and> b = b'"
proof -
  have "Some (a, b) = Some (a', b')"
    unfolding split_once_append_sep[OF assms(1), symmetric] split_once_append_sep[OF assms(2), symmetric] e ..
  then show ?thesis by (simp only: option.inject prod.inject)
qed

lemma three_lines:
  fixes c :: char
  assumes "c \<notin> set a" "c \<notin> set a'" "c \<notin> set b" "c \<notin> set b'"
    and "a @ c # b @ c # d = a' @ c # b' @ c # d'"
  shows "a = a' \<and> b = b' \<and> d = d'"
  using first_line[OF assms(1,2,5)] first_line[OF assms(3,4)] by blast

lemma claim_name_one_line:
  assumes "name_claim_ok n"
  shows "CHR 0x0A \<notin> set n"
proof
  assume "CHR 0x0A \<in> set n"
  moreover have "normalize_device_host n = Inr n" using assms by (simp add: name_claim_ok_def split: sum.splits)
  then have "list_all host_char n" by (simp only: normalize_ok_iff)
  ultimately have "host_char CHR 0x0A" by (simp only: list_all_iff)
  from host_char_visible[OF this] show False by (simp add: byte_def)
qed

lemma signing_message_inj:
  assumes "CHR 0x0A \<notin> set c" "CHR 0x0A \<notin> set c'" "name_claim_ok n" "name_claim_ok n'"
    and "name_claim_signing_message c n p = name_claim_signing_message c' n' p'"
  shows "c = c' \<and> n = n' \<and> p = p'"
proof -
  have "c @ CHR 0x0A # n @ CHR 0x0A # decimal (unat p) = c' @ CHR 0x0A # n' @ CHR 0x0A # decimal (unat p')"
    using assms(5) by (simp add: name_claim_signing_message_def)
  from three_lines[OF assms(1,2) claim_name_one_line[OF assms(3)] claim_name_one_line[OF assms(4)] this]
  show ?thesis using decimal_inj[of "unat p" "unat p'"] by (simp only: word_unat_eq_iff)
qed

text \<open>What an accepted name claim proves: the signature of the claimed key was verified over bytes that
  determine the challenge, the name and the port, and that no signature of the identity ceremony is over; the claim is
  in the spool, the challenge is used up and nothing else changed. A claim that is refused changes nothing, and
  one whose spool entry cannot be written is reported as such.\<close>

theorem name_claim_outcome:
  assumes "route env cfg req st = (st', resp)" and "hr_method req = ''POST''" and "hr_url req = ''/api/name-claim''"
    and "\<forall>h. hm_get (hs_challenges st) h \<noteq> None \<longrightarrow> CHR 0x0A \<notin> set h \<and> length h = 64"
  shows "(rr_status resp = 400 \<and> st' = st) \<or>
    (\<exists>r key signature. claim_from_slice env (hr_body req) = Some r \<and> name_claim_ok (nq_name r) \<and>
       decode_key_sig env (nq_pubkey r) (nq_sig r) = Inr (key, signature) \<and>
       (let port = nr_port (claim_record r); msg = name_claim_signing_message (nq_challenge r) (nq_name r) port in
          verify_sig env key msg signature \<and> length msg \<noteq> 32 \<and>
          (\<forall>h n p. hm_get (hs_challenges st) h \<noteq> None \<and> name_claim_ok n \<and> name_claim_signing_message h n p = msg \<longrightarrow>
             h = nq_challenge r \<and> n = nq_name r \<and> p = port)) \<and>
       hs_challenges st' = hm_remove (nq_challenge r) (hs_challenges st) \<and>
       hs_directory st' = hs_directory st \<and> hs_radio st' = hs_radio st \<and>
       (let entry = hc_spool_dir cfg @ [NAME_SPOOL_SUBDIR, nq_pubkey r @ ''.json''] in
          (\<forall>p. p \<noteq> entry \<longrightarrow> hs_files st' p = hs_files st p) \<and>
          (rr_status resp = 500 \<or>
           rr_status resp = 200 \<and> rr_body resp = claim_to_string env (claim_record r) \<and>
             hs_files st' entry = Some (str_bytes (claim_to_string env (claim_record r))))))"
  using submit_name_claim_cases[of env cfg req st]
proof
  assume "\<exists>msg. submit_name_claim env cfg req st = (st, bad_request msg)"
  then show ?thesis using assms(1-3) by (auto simp: route_post response_defs)
next
  assume "\<exists>r key signature. claim_from_slice env (hr_body req) = Some r \<and> name_claim_ok (nq_name r) \<and>
      decode_key_sig env (nq_pubkey r) (nq_sig r) = Inr (key, signature) \<and>
      known_unexpired (hs_challenges st) (hr_now req) (nq_challenge r) \<and>
      verify_sig env key (name_claim_signing_message (nq_challenge r) (nq_name r) (nr_port (claim_record r))) signature \<and>
      submit_name_claim env cfg req st =
        spool_entry req (hc_spool_dir cfg @ [NAME_SPOOL_SUBDIR]) (nq_pubkey r @ ''.json'')
          (claim_to_string env (claim_record r)) (st\<lparr>hs_challenges := hm_remove (nq_challenge r) (hs_challenges st)\<rparr>)"
  then obtain r key signature where r: "claim_from_slice env (hr_body req) = Some r" "name_claim_ok (nq_name r)"
    "decode_key_sig env (nq_pubkey r) (nq_sig r) = Inr (key, signature)"
    "known_unexpired (hs_challenges st) (hr_now req) (nq_challenge r)"
    "verify_sig env key (name_claim_signing_message (nq_challenge r) (nq_name r) (nr_port (claim_record r))) signature"
    and out: "(st', resp) = spool_entry req (hc_spool_dir cfg @ [NAME_SPOOL_SUBDIR]) (nq_pubkey r @ ''.json'')
          (claim_to_string env (claim_record r)) (st\<lparr>hs_challenges := hm_remove (nq_challenge r) (hs_challenges st)\<rparr>)"
    using assms(1-3) by (auto simp: route_post)
  have c: "CHR 0x0A \<notin> set (nq_challenge r) \<and> length (nq_challenge r) = 64"
    using r(4) assms(4) by (auto simp: known_unexpired_def split: option.splits)
  have u: "h = nq_challenge r \<and> n = nq_name r \<and> p = nr_port (claim_record r)"
    if "hm_get (hs_challenges st) h \<noteq> None" "name_claim_ok n"
      "name_claim_signing_message h n p = name_claim_signing_message (nq_challenge r) (nq_name r) (nr_port (claim_record r))" for h n p
    using signing_message_inj[OF _ _ that(2) r(2) that(3)] c assms(4) that(1) by blast
  have l: "length (name_claim_signing_message (nq_challenge r) (nq_name r) (nr_port (claim_record r))) \<noteq> 32"
    using c by (simp add: name_claim_signing_message_def)
  show ?thesis
    by (rule disjI2, intro exI[of _ r] exI[of _ key] exI[of _ signature])
      (use r u l spool_entry_spec[OF out] in \<open>auto simp: Let_def\<close>)
qed

text \<open>Example: a claim for \<open>blog\<close> with a fresh challenge.\<close>

definition long_challenge :: string where
  "long_challenge = replicate 64 CHR ''c''"

definition claim_state :: HelloState where
  "claim_state = sample_desk_state\<lparr>hs_challenges := [(long_challenge, 1)]\<rparr>"

lemma claim_accepted:
  "route sample_desk sample_desk_config (sample_request ''POST'' ''/api/name-claim'' long_challenge 2) claim_state =
     (claim_state\<lparr>hs_challenges := [],
        hs_files := Map.empty([''pending'', ''names'', replicate 32 CHR ''a'' @ ''.json''] \<mapsto> str_bytes ''blog'')\<rparr>,
      response_json 200 ''blog'')"
proof -
  let ?r = "\<lparr>nq_pubkey = replicate 32 CHR ''a'', nq_sig = replicate 64 CHR ''b'', nq_challenge = long_challenge,
        nq_name = ''blog'', nq_port = None, nq_ip = Some (V4 5), nq_scheme = None\<rparr>"
  let ?q = "sample_request ''POST'' ''/api/name-claim'' long_challenge 2"
  have e: "claim_from_slice sample_desk long_challenge = Some ?r" "claim_to_string sample_desk = nr_name"
    "verify_sig sample_desk = (\<lambda>_ _ _. True)" "hc_spool_dir sample_desk_config = [''pending'']"
    by (simp_all add: sample_desk_def sample_desk_config_def)
  have d: "decode_key_sig sample_desk (replicate 32 CHR ''a'') (replicate 64 CHR ''b'') =
      Inr (replicate 32 CHR ''a'', replicate 64 CHR ''b'')"
    by (simp add: decode_key_sig_def sample_desk_def)
  have n: "normalize_device_host ''blog'' = Inr ''blog''" "\<not> is_reserved_service_name ''blog''"
    using blog_claim_ok by (simp_all add: name_claim_ok_def split: sum.splits)
  have k: "known_unexpired (hs_challenges claim_state) 2 long_challenge"
    by (simp add: claim_state_def known_unexpired_def hm_get_def unexpired_def CHALLENGE_TTL_def)
  have q: "hr_method ?q = ''POST''" "hr_url ?q = ''/api/name-claim''" "hr_body ?q = long_challenge" "hr_now ?q = 2"
    by (simp_all add: sample_request_def)
  have sp: "spool_entry ?q dir name json st =
      (st\<lparr>hs_files := (hs_files st)(dir @ [name] \<mapsto> str_bytes json)\<rparr>, response_json 200 json)" for dir name json st
    by (simp add: spool_entry_def sample_request_def fs_write_def)
  show ?thesis
    unfolding route_post[OF q(1)] submit_name_claim_def q(2-4) e option.case
    by (simp add: n d k sp claim_record_def NAME_SPOOL_SUBDIR_def e)
      (simp add: claim_state_def sample_desk_state_def hm_remove_def)
qed

theorem name_claim_outcome_witness:
  "\<exists>r key signature. claim_from_slice sample_desk long_challenge = Some r \<and>
     verify_sig sample_desk key (name_claim_signing_message long_challenge (nq_name r) 0) signature"
proof -
  have p: "hr_method (sample_request ''POST'' ''/api/name-claim'' long_challenge 2) = ''POST''"
    "hr_url (sample_request ''POST'' ''/api/name-claim'' long_challenge 2) = ''/api/name-claim''"
    by (simp_all add: sample_request_def)
  have h: "\<forall>h. hm_get (hs_challenges claim_state) h \<noteq> None \<longrightarrow> CHR 0x0A \<notin> set h \<and> length h = 64"
    by (simp add: claim_state_def hm_get_def long_challenge_def)
  from name_claim_outcome[OF claim_accepted p h]
  obtain r key signature where "claim_from_slice sample_desk (hr_body (sample_request ''POST'' ''/api/name-claim'' long_challenge 2)) = Some r"
    "verify_sig sample_desk key (name_claim_signing_message (nq_challenge r) (nq_name r) (nr_port (claim_record r))) signature"
    by (auto simp: response_defs Let_def)
  moreover have "nq_challenge r = long_challenge" "nr_port (claim_record r) = 0"
    using calculation(1) by (auto simp: sample_desk_def sample_request_def claim_record_def)
  ultimately show ?thesis by (simp add: sample_request_def) blast
qed

text \<open>What the daemon reads from the spool is what the front desk wrote there.\<close>

definition spooled :: "NameClaimRecord \<Rightarrow> NameClaimSpool" where
  "spooled r =
     \<lparr>nc_pubkey = nr_pubkey r, nc_sig = nr_sig r, nc_challenge = nr_challenge r, nc_name = nr_name r,
      nc_port = nr_port r, nc_ip = nr_ip r, nc_scheme = nr_scheme r\<rparr>"

lemma json_extension: "k \<noteq> [] \<Longrightarrow> path_extension (k @ ''.json'') = Some ''json''"
  by (cases "rev k") (auto simp: path_extension_def Let_def)

lemma ingest_spool_ok:
  "bt_ok bk \<Longrightarrow> bt_ok (fst (ingest_name_claim_spool from_json self_id fs bk))"
proof (induction fs arbitrary: bk)
  case (Cons f fs)
  obtain b app d where i: "ingest_file from_json self_id bk f = (b, app, d)" using prod_cases3 by blast
  show ?case using Cons.IH[OF ingest_file_replicates(1)[OF Cons.prems i]] i by (auto split: prod.splits)
qed simp

lemma ingest_spool_append:
  "ingest_name_claim_spool from_json self_id (fs @ gs) bk =
     (case ingest_name_claim_spool from_json self_id fs bk of (bk1, apps, ds) \<Rightarrow>
        case ingest_name_claim_spool from_json self_id gs bk1 of (bk2, apps', ds') \<Rightarrow> (bk2, apps @ apps', ds @ ds'))"
  by (induction fs arbitrary: bk) (auto split: prod.splits option.splits)

text \<open>C28. A claim reaches the mesh: once the front desk has answered 200 for a claim that gives an address, the daemon's next
  sweep that reads the spool file announces the claim, provided that when its turn comes in the sweep the name is in no
  entry of the book and the key owns no other live name: a publication of the name, with the key that signed, the signed
  challenge and the claimed address and port, is among the messages of the sweep, the book holds the entry once the file is done,
  and the file is removed.\<close>

theorem name_claim_published:
  assumes "route env cfg req st = (st', resp)" and "hr_method req = ''POST''" and "hr_url req = ''/api/name-claim''"
    and "rr_status resp = 200"
    and "claim_from_slice env (hr_body req) = Some r" and "nq_ip r = Some ip"
    and "from_json (claim_to_string env (claim_record r)) = Some (spooled (claim_record r))"
    and "hexlower_decode env [] = Some []"
    and ok: "bt_ok bk" and bk1: "bk1 = fst (ingest_name_claim_spool from_json self_id before bk)"
    and "bt_get bk1 (nq_name r) = None" and "name_owned_by bk1 (nq_pubkey r) (sf_now f) = None"
    and "sf_name f = nq_pubkey r @ ''.json''"
    and "sf_read f = map_option bytes_str (hs_files st' (hc_spool_dir cfg @ [NAME_SPOOL_SUBDIR, sf_name f]))"
    and sweep: "name_claim_sweep from_json self_id (before @ f # after) bk = (bk', msgs, effs)"
  shows "\<exists>bk2 entry. LeasedNamePublish (nq_name r) entry \<in> set msgs \<and>
    ingest_file from_json self_id bk1 f = (bk2, Some (nq_name r, entry), RemovedFile) \<and>
    bt_get bk2 (nq_name r) = Some entry \<and> le_owner_pubkey entry = nq_pubkey r \<and> le_sig entry = nq_sig r \<and>
    le_challenge entry = nq_challenge r \<and> le_ip entry = ip \<and> le_port entry = nr_port (claim_record r)"
proof -
  have acc: "name_claim_ok (nq_name r) \<and> (\<exists>k. decode_key_sig env (nq_pubkey r) (nq_sig r) = Inr k) \<and>
      (st', resp) = spool_entry req (hc_spool_dir cfg @ [NAME_SPOOL_SUBDIR]) (nq_pubkey r @ ''.json'')
          (claim_to_string env (claim_record r)) (st\<lparr>hs_challenges := hm_remove (nq_challenge r) (hs_challenges st)\<rparr>)"
    using submit_name_claim_cases[of env cfg req st] assms(1-5) by (auto simp: route_post response_defs)
  then have rd: "sf_read f = Some (claim_to_string env (claim_record r))"
    using spool_entry_spec(5)[of st' resp] assms(4,13,14) by force
  have "nq_pubkey r \<noteq> []" using acc assms(8) by (auto simp: decode_key_sig_def split: if_splits option.splits)
  then have ext: "path_extension (sf_name f) = Some ''json''" unfolding assms(13) by (rule json_extension)
  let ?c = "spooled (claim_record r)"
  have c: "nc_ip ?c = Some ip" "nc_name ?c = nq_name r" "nc_pubkey ?c = nq_pubkey r"
    using assms(6) by (simp_all add: spooled_def claim_record_def)
  have o: "\<not> already_owns_other bk1 ?c (sf_now f)" using assms(12) by (simp add: already_owns_other_def c)
  have nm: "name_claim_ok (nc_name ?c)" using acc by (simp add: c)
  have ok1: "bt_ok bk1" unfolding bk1 by (rule ingest_spool_ok[OF ok])
  let ?e = "claim_entry bk1 ?c ip (now_hlc (sf_now f) self_id)"
  have i: "snd (ingest_claim self_id bk1 ?c (sf_now f)) = Some (nq_name r, ?e)"
    "bt_get (fst (ingest_claim self_id bk1 ?c (sf_now f))) (nq_name r) = Some ?e"
    using ingest_claim_eq[OF ok1 c(1) nm o, of self_id] assms(11) by (simp_all add: c apply_leased_name_get[OF ok1])
  have f: "ingest_file from_json self_id bk1 f = (fst (ingest_claim self_id bk1 ?c (sf_now f)), Some (nq_name r, ?e), RemovedFile)"
    using i(1) by (simp add: ingest_file_def ext rd assms(7) case_prod_beta)
  have "LeasedNamePublish (nq_name r) ?e \<in> set msgs"
    using sweep bk1 f by (auto simp: name_claim_sweep_def ingest_spool_append split: prod.splits if_splits)
  then show ?thesis
    using i(2) f by (simp add: claim_entry_def spooled_def claim_record_def)
qed

text \<open>Witness of C28: an accepted claim for \<open>blog\<close> is picked up.\<close>

theorem name_claim_published_witness:
  "\<exists>entry bk' msgs effs. name_claim_sweep (\<lambda>_. Some (spooled (claim_record (the (claim_from_slice sample_desk long_challenge))))) ''me''
     [\<lparr>sf_name = replicate 32 CHR ''a'' @ ''.json'', sf_read = Some ''blog'', sf_now = 9\<rparr>] [] = (bk', msgs, effs) \<and>
     LeasedNamePublish ''blog'' entry \<in> set msgs \<and> le_ip entry = V4 5"
proof -
  let ?q = "sample_request ''POST'' ''/api/name-claim'' long_challenge 2"
  let ?r = "the (claim_from_slice sample_desk long_challenge)"
  let ?f = "\<lparr>sf_name = replicate 32 CHR ''a'' @ ''.json'', sf_read = Some ''blog'', sf_now = 9\<rparr>"
  have p: "hr_method ?q = ''POST''" "hr_url ?q = ''/api/name-claim''" "rr_status (response_json 200 ''blog'') = 200"
    by (simp_all add: sample_request_def response_defs)
  have r: "claim_from_slice sample_desk (hr_body ?q) = Some ?r" "nq_ip ?r = Some (V4 5)" "nq_name ?r = ''blog''"
    "nq_pubkey ?r = replicate 32 CHR ''a''" "hexlower_decode sample_desk [] = Some []" "hc_spool_dir sample_desk_config = [''pending'']"
    by (simp_all add: sample_desk_def sample_request_def sample_desk_config_def)
  obtain bk' msgs effs where sw: "name_claim_sweep (\<lambda>_. Some (spooled (claim_record ?r))) ''me'' ([] @ ?f # []) [] = (bk', msgs, effs)"
    using prod_cases3 by blast
  have "\<exists>bk2 entry. LeasedNamePublish (nq_name ?r) entry \<in> set msgs \<and>
      ingest_file (\<lambda>_. Some (spooled (claim_record ?r))) ''me'' [] ?f = (bk2, Some (nq_name ?r, entry), RemovedFile) \<and>
      bt_get bk2 (nq_name ?r) = Some entry \<and> le_owner_pubkey entry = nq_pubkey ?r \<and> le_sig entry = nq_sig ?r \<and>
      le_challenge entry = nq_challenge ?r \<and> le_ip entry = V4 5 \<and> le_port entry = nr_port (claim_record ?r)"
    by (rule name_claim_published[OF claim_accepted p r(1,2) refl r(5) bt_empty_ok _ _ _ _ _ sw])
      (simp_all add: r bt_get_def name_owned_by_def NAME_SPOOL_SUBDIR_def)
  then show ?thesis using sw by (auto simp: r(3))
qed

section \<open>Where the front desk does not do what is said of it\<close>

text \<open>The address of a claim is documented as optional: without one the daemon is said to use the address the
  request came from. The spool entry does not carry that address, and the daemon drops a claim without one: the
  claimant was answered 200, and nothing is bound.\<close>

theorem claim_without_address_dropped:
  assumes "nq_ip r = None" and "from_json (claim_to_string env (claim_record r)) = Some (spooled (claim_record r))"
    and "nq_pubkey r \<noteq> []" and "f = \<lparr>sf_name = nq_pubkey r @ ''.json'', sf_read = Some (claim_to_string env (claim_record r)), sf_now = now\<rparr>"
  shows "ingest_file from_json self_id bk f = (bk, None, RemovedFile)"
  using assms by (simp add: ingest_file_def json_extension ingest_claim_def spooled_def claim_record_def)

text \<open>Every node is said to check the signature of a claim against its key, so that no node can forge a claim of
  a key. The gossip lane takes a claim with any signature.\<close>

theorem forged_claim_accepted:
  "bt_get (leased_gossip [] (LeasedNamePublish name entry)) name = Some entry"
  using apply_leased_name_get[OF bt_empty_ok, of name entry name] by (simp add: leased_gossip_def bt_get_def)

text \<open>With a static root the path of a request is joined to it as it is, so a path with parent components
  leaves the root.\<close>

theorem static_root_escaped:
  assumes "hr_method req = ''GET''" and "hr_url req = ''/../secret''" and "hc_static_root cfg = Some root"
    and "read_static env (root @ ''/../secret'') = Some text"
  shows "rr_status (snd (route env cfg req st)) = 200 \<and> rr_body (snd (route env cfg req st)) = text"
  using assms by (simp add: route_def serve_static_def Let_def response_defs starts_with_def)

end
