(* ===== verification/Radio.thy ===== *)
theory Radio
  imports Hello Net_Text
begin

text \<open>
  Radio telemetry: the parsers of \<open>iw\<close> output and the collector (\<open>radio.rs\<close>), and the loop of
  \<open>bin/mjolnir-meshd.rs\<close> that writes \<open>radio.json\<close> for the front desk.

  Parameters: running \<open>iw\<close> with given arguments (\<open>None\<close> when it cannot be started; otherwise whether it succeeded and
  its output when that is UTF-8), the parser of floating-point numbers with its zero, and the JSON encoder.
\<close>

section \<open>The snapshot\<close>

record 'f Station =
  st_mac :: string
  signal_dbm :: int
  expected_throughput_mbps :: 'f
  inactive_ms :: nat

record Mpath =
  mp_dst :: string
  mp_next_hop :: string
  mp_metric :: nat

record IfaceInfo =
  ii_mesh_mac :: string
  ii_channel :: nat
  ii_freq_mhz :: nat

record 'f RadioSnapshot =
  rs_version :: nat
  rs_backhaul_addr :: string
  rs_mesh_if :: string
  rs_mesh_mac :: string
  rs_channel :: nat
  rs_freq_mhz :: nat
  rs_collected_at_unix :: u64
  rs_stations :: "'f Station list"
  rs_mpaths :: "Mpath list"

definition RADIO_SCHEMA_VERSION :: nat where
  "RADIO_SCHEMA_VERSION = 1"

section \<open>Parsers\<close>

text \<open>\<open>str::parse\<close> of the two unsigned widths and of \<open>i32\<close>.\<close>

definition parse_u32 :: "string \<Rightarrow> nat option" where
  "parse_u32 s = parse_uint 4294967295 s"

definition parse_u64 :: "string \<Rightarrow> nat option" where
  "parse_u64 s = parse_uint 18446744073709551615 s"

definition parse_i32 :: "string \<Rightarrow> int option" where
  "parse_i32 s =
     (case s of
        CHR ''-'' # body \<Rightarrow>
          if body \<noteq> [] \<and> hd body = CHR ''+'' then None
          else map_option (\<lambda>n. - int n) (parse_uint 2147483648 body)
      | _ \<Rightarrow> map_option int (parse_uint 2147483647 s))"

fun mesh_iface_lines :: "string option \<Rightarrow> string list \<Rightarrow> string option" where
  "mesh_iface_lines current [] = None"
| "mesh_iface_lines current (line # ls) =
     (let trimmed = trim line
      in case strip_prefix ''Interface '' trimmed of
           Some rest \<Rightarrow> mesh_iface_lines (Some (trim rest)) ls
         | None \<Rightarrow>
             (case (trimmed = ''type mesh point'', current) of
                (True, Some name) \<Rightarrow> Some name
              | _ \<Rightarrow> mesh_iface_lines current ls))"

definition parse_mesh_iface :: "string \<Rightarrow> string option" where
  "parse_mesh_iface iw_dev_output = mesh_iface_lines None (lines iw_dev_output)"

text \<open>One line of the interface facts: the address, the channel and the frequency read so far.\<close>

definition iface_line :: "string \<times> nat option \<times> nat option \<Rightarrow> string \<Rightarrow> string \<times> nat option \<times> nat option" where
  "iface_line acc line =
     (case acc of (mesh_mac, channel, freq_mhz) \<Rightarrow>
        (let trimmed = trim line
         in case strip_prefix ''addr '' trimmed of
              Some rest \<Rightarrow> (trim rest, channel, freq_mhz)
            | None \<Rightarrow>
                (case strip_prefix ''channel '' trimmed of
                   None \<Rightarrow> acc
                 | Some rest \<Rightarrow>
                     (case split_whitespace rest of
                        [] \<Rightarrow> (mesh_mac, None, None)
                      | [t] \<Rightarrow> (mesh_mac, parse_u32 t, None)
                      | t # f # _ \<Rightarrow> (mesh_mac, parse_u32 t, parse_u32 (dropWhile (\<lambda>c. c = CHR ''('') f))))))"

definition parse_iface_info :: "string \<Rightarrow> IfaceInfo option" where
  "parse_iface_info info_output =
     (case foldl iface_line ([], None, None) (lines info_output) of
        (mesh_mac, None, _) \<Rightarrow> None
      | (mesh_mac, Some channel, freq_mhz) \<Rightarrow>
          Some \<lparr>ii_mesh_mac = mesh_mac, ii_channel = channel, ii_freq_mhz = (case freq_mhz of Some f \<Rightarrow> f | None \<Rightarrow> 0)\<rparr>)"

text \<open>The first word of a value, parsed; a value that does not parse leaves the field.\<close>

definition first_word :: "(string \<Rightarrow> 'a option) \<Rightarrow> string \<Rightarrow> 'a option" where
  "first_word parse val = (case split_whitespace val of [] \<Rightarrow> None | t # _ \<Rightarrow> parse t)"

definition throughput_text :: "string \<Rightarrow> string" where
  "throughput_text val = takeWhile (\<lambda>c. is_ascii_digit c \<or> c = CHR ''.'' \<or> c = CHR ''-'') (trim val)"

definition station_field :: "(string \<Rightarrow> 'f option) \<Rightarrow> string \<Rightarrow> 'f Station \<Rightarrow> 'f Station" where
  "station_field parse_f64 trimmed station =
     (case strip_prefix ''signal avg:'' trimmed of
        Some val \<Rightarrow>
          (case first_word parse_i32 val of Some v \<Rightarrow> station\<lparr>signal_dbm := v\<rparr> | None \<Rightarrow> station)
      | None \<Rightarrow>
          (case strip_prefix ''inactive time:'' trimmed of
             Some val \<Rightarrow>
               (case first_word parse_u64 val of Some v \<Rightarrow> station\<lparr>inactive_ms := v\<rparr> | None \<Rightarrow> station)
           | None \<Rightarrow>
               (case strip_prefix ''expected throughput:'' trimmed of
                  Some val \<Rightarrow>
                    (case parse_f64 (throughput_text val) of
                       Some v \<Rightarrow> station\<lparr>expected_throughput_mbps := v\<rparr> | None \<Rightarrow> station)
                | None \<Rightarrow> station)))"

definition station_line :: "(string \<Rightarrow> 'f option) \<Rightarrow> 'f \<Rightarrow> 'f Station list \<Rightarrow> string \<Rightarrow> 'f Station list" where
  "station_line parse_f64 zero stations line =
     (let trimmed = trim line
      in case strip_prefix ''Station '' trimmed of
           Some rest \<Rightarrow>
             stations @ [\<lparr>st_mac = (case split_whitespace rest of [] \<Rightarrow> [] | t # _ \<Rightarrow> t), signal_dbm = 0,
               expected_throughput_mbps = zero, inactive_ms = 0\<rparr>]
         | None \<Rightarrow>
             if stations = [] then []
             else butlast stations @ [station_field parse_f64 trimmed (last stations)])"

definition parse_station_dump :: "(string \<Rightarrow> 'f option) \<Rightarrow> 'f \<Rightarrow> string \<Rightarrow> 'f Station list" where
  "parse_station_dump parse_f64 zero dump = foldl (station_line parse_f64 zero) [] (lines dump)"

definition parse_mpath_dump :: "string \<Rightarrow> Mpath list" where
  "parse_mpath_dump dump =
     List.map_filter
       (\<lambda>line. let trimmed = trim line
         in if trimmed = [] \<or> starts_with ''DEST'' trimmed then None
            else (let row = split_whitespace trimmed
                  in if length row < 5 then None
                     else case parse_u32 (row ! 4) of
                            None \<Rightarrow> None
                          | Some metric \<Rightarrow> Some \<lparr>mp_dst = row ! 0, mp_next_hop = row ! 1, mp_metric = metric\<rparr>))
       (lines dump)"

section \<open>Collection\<close>

definition run_iw :: "(string list \<Rightarrow> (bool \<times> string option) option) \<Rightarrow> string list \<Rightarrow> string option" where
  "run_iw iw args =
     (case iw args of
        None \<Rightarrow> None
      | Some (success, utf8_stdout) \<Rightarrow> if \<not> success then None else utf8_stdout)"

definition collect_radio ::
  "(string list \<Rightarrow> (bool \<times> string option) option) \<Rightarrow> (string \<Rightarrow> 'f option) \<Rightarrow> 'f \<Rightarrow> string \<Rightarrow> u64 \<Rightarrow> 'f RadioSnapshot option" where
  "collect_radio iw parse_f64 zero addr_text now_unix =
     (case run_iw iw [''dev''] of
        None \<Rightarrow> None
      | Some dev \<Rightarrow>
          (case parse_mesh_iface dev of
             None \<Rightarrow> None
           | Some mesh_if \<Rightarrow>
               (case run_iw iw [''dev'', mesh_if, ''info''] of
                  None \<Rightarrow> None
                | Some info \<Rightarrow>
                    (case parse_iface_info info of
                       None \<Rightarrow> None
                     | Some iface_info \<Rightarrow>
                         (let stations = (case run_iw iw [''dev'', mesh_if, ''station'', ''dump''] of
                                            Some s \<Rightarrow> parse_station_dump parse_f64 zero s | None \<Rightarrow> []);
                              mpaths = (case run_iw iw [''dev'', mesh_if, ''mpath'', ''dump''] of
                                          Some s \<Rightarrow> parse_mpath_dump s | None \<Rightarrow> [])
                          in Some \<lparr>rs_version = RADIO_SCHEMA_VERSION, rs_backhaul_addr = addr_text, rs_mesh_if = mesh_if,
                               rs_mesh_mac = ii_mesh_mac iface_info, rs_channel = ii_channel iface_info,
                               rs_freq_mhz = ii_freq_mhz iface_info, rs_collected_at_unix = now_unix,
                               rs_stations = stations, rs_mpaths = mpaths\<rparr>)))))"

definition persist_radio ::
  "('f RadioSnapshot \<Rightarrow> bytes option) \<Rightarrow> IoEnv \<Rightarrow> 'f RadioSnapshot \<Rightarrow> path \<Rightarrow> FileSys \<Rightarrow> FileSys" where
  "persist_radio = persist_state"

text \<open>One round of the loop; the collector cannot panic, so its task always delivers.\<close>

definition radio_tick ::
  "('f RadioSnapshot \<Rightarrow> bytes option) \<Rightarrow> IoEnv \<Rightarrow> (string list \<Rightarrow> (bool \<times> string option) option) \<Rightarrow> (string \<Rightarrow> 'f option) \<Rightarrow>
   'f \<Rightarrow> path \<Rightarrow> ipv4 \<Rightarrow> u64 \<Rightarrow> FileSys \<Rightarrow> FileSys" where
  "radio_tick to_vec_pretty env iw parse_f64 zero directory_file backhaul_ip now_unix fs =
     (let radio_file = with_file_name directory_file ''radio.json''
      in case collect_radio iw parse_f64 zero (show_ipv4 backhaul_ip) now_unix of
           Some snapshot \<Rightarrow> persist_radio to_vec_pretty env snapshot radio_file fs
         | None \<Rightarrow> fs)"

section \<open>What the parsers read\<close>

text \<open>The lines \<open>iw\<close> prints for one station: a heading with its address, then lines among which those of the three
  fields carry the station's values; all other lines are free.\<close>

definition says :: "string \<Rightarrow> string \<Rightarrow> string \<Rightarrow> bool" where
  "says heading line val \<longleftrightarrow> strip_prefix heading (trim line) = Some val"

definition station_lines :: "(string \<Rightarrow> 'f option) \<Rightarrow> 'f Station \<Rightarrow> string list \<Rightarrow> bool" where
  "station_lines parse_f64 st ls \<longleftrightarrow>
     (\<forall>l\<in>set ls. \<forall>val.
        \<not> says ''Station '' l val \<and>
        (says ''signal avg:'' l val \<longrightarrow> first_word parse_i32 val = Some (signal_dbm st)) \<and>
        (says ''inactive time:'' l val \<longrightarrow> first_word parse_u64 val = Some (inactive_ms st)) \<and>
        (says ''expected throughput:'' l val \<longrightarrow> parse_f64 (throughput_text val) = Some (expected_throughput_mbps st))) \<and>
     (\<exists>l\<in>set ls. \<exists>val. says ''signal avg:'' l val) \<and>
     (\<exists>l\<in>set ls. \<exists>val. says ''inactive time:'' l val) \<and>
     (\<exists>l\<in>set ls. \<exists>val. says ''expected throughput:'' l val)"

definition station_block :: "(string \<Rightarrow> 'f option) \<Rightarrow> string \<times> 'f Station \<times> string list \<Rightarrow> bool" where
  "station_block parse_f64 b \<longleftrightarrow>
     (case b of (heading, st, ls) \<Rightarrow>
        (\<exists>val more. says ''Station '' heading val \<and> split_whitespace val = st_mac st # more) \<and> station_lines parse_f64 st ls)"

lemma fold_sets:
  assumes "\<And>l s. l \<in> set ls \<Longrightarrow> f (g l s) = v \<or> f (g l s) = f s" and "l0 \<in> set ls" and "\<And>s. f (g l0 s) = v"
  shows "f (foldl (\<lambda>s l. g l s) s0 ls) = v"
  using assms(1,2)
proof (induction ls arbitrary: s0)
  case (Cons l ls)
  have keep: "f (foldl (\<lambda>s l. g l s) s ls) = v" if "f s = v" for s
    using that Cons.prems(1)
  proof (induction ls arbitrary: s)
    case (Cons m ms)
    have "f (g m s) = v" using Cons.prems(1) Cons.prems(2)[of m s] by auto
    moreover have "f (g la s) = v \<or> f (g la s) = f s" if "la \<in> set (l # ms)" for la s using Cons.prems(2) that by auto
    ultimately show ?case unfolding foldl_Cons by (rule Cons.IH)
  qed simp
  show ?case
  proof (cases "l0 \<in> set ls")
    case True
    then show ?thesis using Cons.IH[of "g l s0"] Cons.prems(1) by simp
  next
    case False
    then have "l = l0" using Cons.prems(2) by simp
    then show ?thesis using keep[of "g l s0"] assms(3) by simp
  qed
qed simp

lemma says_one:
  assumes "says h l val" and "h \<noteq> []" "h' \<noteq> []" "hd h \<noteq> hd h'"
  shows "\<not> says h' l val'"
proof -
  have "hd (trim l) = hd h \<and> trim l \<noteq> []"
    using assms(1,2) by (cases h; cases "trim l") (auto simp: says_def strip_prefix_def split: if_splits)
  then show ?thesis
    using assms(3,4) by (cases h'; cases "trim l") (auto simp: says_def strip_prefix_def split: if_splits)
qed

lemma station_field_sets:
  "says ''signal avg:'' l val \<Longrightarrow> station_field p (trim l) s =
     (case first_word parse_i32 val of Some v \<Rightarrow> s\<lparr>signal_dbm := v\<rparr> | None \<Rightarrow> s)"
  "says ''inactive time:'' l val \<Longrightarrow> station_field p (trim l) s =
     (case first_word parse_u64 val of Some v \<Rightarrow> s\<lparr>inactive_ms := v\<rparr> | None \<Rightarrow> s)"
  "says ''expected throughput:'' l val \<Longrightarrow> station_field p (trim l) s =
     (case p (throughput_text val) of Some v \<Rightarrow> s\<lparr>expected_throughput_mbps := v\<rparr> | None \<Rightarrow> s)"
  "(\<And>val. \<not> says ''signal avg:'' l val \<and> \<not> says ''inactive time:'' l val \<and> \<not> says ''expected throughput:'' l val) \<Longrightarrow>
     station_field p (trim l) s = s"
proof -
  assume "says ''signal avg:'' l val"
  then show "station_field p (trim l) s = (case first_word parse_i32 val of Some v \<Rightarrow> s\<lparr>signal_dbm := v\<rparr> | None \<Rightarrow> s)"
    by (simp add: says_def station_field_def)
next
  assume a: "says ''inactive time:'' l val"
  then have "strip_prefix ''signal avg:'' (trim l) = None" using says_one[OF a, of "''signal avg:''"] by (auto simp: says_def)
  then show "station_field p (trim l) s = (case first_word parse_u64 val of Some v \<Rightarrow> s\<lparr>inactive_ms := v\<rparr> | None \<Rightarrow> s)"
    using a by (simp add: says_def station_field_def)
next
  assume a: "says ''expected throughput:'' l val"
  then have "strip_prefix ''signal avg:'' (trim l) = None" "strip_prefix ''inactive time:'' (trim l) = None"
    using says_one[OF a, of "''signal avg:''"] says_one[OF a, of "''inactive time:''"] by (auto simp: says_def)
  then show "station_field p (trim l) s =
     (case p (throughput_text val) of Some v \<Rightarrow> s\<lparr>expected_throughput_mbps := v\<rparr> | None \<Rightarrow> s)"
    using a by (simp add: says_def station_field_def)
next
  assume a: "\<And>val. \<not> says ''signal avg:'' l val \<and> \<not> says ''inactive time:'' l val \<and> \<not> says ''expected throughput:'' l val"
  have "strip_prefix ''signal avg:'' (trim l) = None"
    using a by (cases "strip_prefix ''signal avg:'' (trim l)") (auto simp: says_def)
  moreover have "strip_prefix ''inactive time:'' (trim l) = None"
    using a by (cases "strip_prefix ''inactive time:'' (trim l)") (auto simp: says_def)
  moreover have "strip_prefix ''expected throughput:'' (trim l) = None"
    using a by (cases "strip_prefix ''expected throughput:'' (trim l)") (auto simp: says_def)
  ultimately show "station_field p (trim l) s = s" by (simp add: station_field_def)
qed

lemma station_fields:
  assumes "station_lines p st ls" and "st_mac s0 = st_mac st"
  shows "foldl (\<lambda>s l. station_field p (trim l) s) s0 ls = st"
proof -
  let ?g = "\<lambda>l. station_field p (trim l)"
  let ?r = "foldl (\<lambda>s l. ?g l s) s0 ls"
  have line: "?g l s = s \<or> ?g l s = s\<lparr>signal_dbm := signal_dbm st\<rparr> \<or> ?g l s = s\<lparr>inactive_ms := inactive_ms st\<rparr> \<or>
      ?g l s = s\<lparr>expected_throughput_mbps := expected_throughput_mbps st\<rparr>" if l: "l \<in> set ls" for l s
  proof -
    consider val where "says ''signal avg:'' l val" | val where "says ''inactive time:'' l val"
      | val where "says ''expected throughput:'' l val"
      | "\<And>val. \<not> says ''signal avg:'' l val \<and> \<not> says ''inactive time:'' l val \<and> \<not> says ''expected throughput:'' l val"
      by blast
    then show ?thesis
    proof cases
      case 1
      then show ?thesis using station_field_sets(1)[OF 1, of p s] assms(1) l by (auto simp: station_lines_def)
    next
      case 2
      then show ?thesis using station_field_sets(2)[OF 2, of p s] assms(1) l by (auto simp: station_lines_def)
    next
      case 3
      then show ?thesis using station_field_sets(3)[OF 3, of p s] assms(1) l by (auto simp: station_lines_def)
    next
      case 4
      then show ?thesis using station_field_sets(4) by blast
    qed
  qed
  obtain l1 v1 where l1: "l1 \<in> set ls" "says ''signal avg:'' l1 v1" using assms(1) unfolding station_lines_def by blast
  obtain l2 v2 where l2: "l2 \<in> set ls" "says ''inactive time:'' l2 v2" using assms(1) unfolding station_lines_def by blast
  obtain l3 v3 where l3: "l3 \<in> set ls" "says ''expected throughput:'' l3 v3" using assms(1) unfolding station_lines_def by blast
  have w: "first_word parse_i32 v1 = Some (signal_dbm st)" "first_word parse_u64 v2 = Some (inactive_ms st)"
    "p (throughput_text v3) = Some (expected_throughput_mbps st)"
    using assms(1) l1 l2 l3 unfolding station_lines_def by blast+
  have "signal_dbm ?r = signal_dbm st"
  proof (rule fold_sets[OF _ l1(1)])
    show "signal_dbm (?g l s) = signal_dbm st \<or> signal_dbm (?g l s) = signal_dbm s" if "l \<in> set ls" for l s
      using line[OF that, of s] by (elim disjE) simp_all
  qed (simp add: station_field_sets(1)[OF l1(2)] w)
  moreover have "inactive_ms ?r = inactive_ms st"
  proof (rule fold_sets[OF _ l2(1)])
    show "inactive_ms (?g l s) = inactive_ms st \<or> inactive_ms (?g l s) = inactive_ms s" if "l \<in> set ls" for l s
      using line[OF that, of s] by (elim disjE) simp_all
  qed (simp add: station_field_sets(2)[OF l2(2)] w)
  moreover have "expected_throughput_mbps ?r = expected_throughput_mbps st"
  proof (rule fold_sets[OF _ l3(1)])
    show "expected_throughput_mbps (?g l s) = expected_throughput_mbps st \<or> expected_throughput_mbps (?g l s) = expected_throughput_mbps s"
      if "l \<in> set ls" for l s
      using line[OF that, of s] by (elim disjE) simp_all
  qed (simp add: station_field_sets(3)[OF l3(2)] w)
  moreover have "st_mac (foldl (\<lambda>s l. ?g l s) s ls') = st_mac s" if "set ls' \<subseteq> set ls" for s ls'
    using that
  proof (induction ls' arbitrary: s)
    case (Cons l ls')
    then have "st_mac (?g l s) = st_mac s" using line[of l s] by auto
    then show ?case using Cons by simp
  qed simp
  ultimately show ?thesis using assms(2) by simp
qed

lemma station_line_fields:
  assumes "\<forall>l\<in>set ls. \<forall>val. \<not> says ''Station '' l val"
  shows "foldl (station_line p zero) (acc @ [s0]) ls = acc @ [foldl (\<lambda>s l. station_field p (trim l) s) s0 ls]"
  using assms
proof (induction ls arbitrary: s0)
  case (Cons l ls)
  then have "strip_prefix ''Station '' (trim l) = None" by (auto simp: says_def)
  then show ?case using Cons by (simp add: station_line_def)
qed simp

lemma station_dump_reads:
  assumes "lines dump = concat (map (\<lambda>(heading, st, ls). heading # ls) bs)" and "\<forall>b\<in>set bs. station_block p b"
  shows "parse_station_dump p zero dump = map (\<lambda>(heading, st, ls). st) bs"
proof -
  have "foldl (station_line p zero) acc (concat (map (\<lambda>(heading, st, ls). heading # ls) bs)) = acc @ map (\<lambda>(heading, st, ls). st) bs" for acc
    using assms(2)
  proof (induction bs arbitrary: acc)
    case (Cons b bs)
    obtain h st ls where b: "b = (h, st, ls)" by (rule prod_cases3)
    have blk: "station_block p (h, st, ls)" using Cons.prems b by simp
    then obtain val more where h: "says ''Station '' h val" "split_whitespace val = st_mac st # more" and sl: "station_lines p st ls"
      by (auto simp: station_block_def)
    let ?s0 = "\<lparr>st_mac = st_mac st, signal_dbm = 0, expected_throughput_mbps = zero, inactive_ms = 0\<rparr>"
    have "station_line p zero acc h = acc @ [?s0]" using h by (simp add: station_line_def says_def)
    moreover have "foldl (station_line p zero) (acc @ [?s0]) ls = acc @ [st]"
      using station_line_fields[of ls p zero acc ?s0] station_fields[OF sl, of ?s0] sl by (simp add: station_lines_def)
    ultimately show ?case using Cons by (simp add: b)
  qed simp
  then show ?thesis using assms(1) by (simp add: parse_station_dump_def)
qed

text \<open>The lines of the path table: the column names, and rows of at least five columns.\<close>

definition mpath_line :: "string \<Rightarrow> Mpath option \<Rightarrow> bool" where
  "mpath_line line row \<longleftrightarrow>
     (case row of
        None \<Rightarrow> trim line = [] \<or> starts_with ''DEST'' (trim line)
      | Some m \<Rightarrow> trim line \<noteq> [] \<and> \<not> starts_with ''DEST'' (trim line) \<and>
          (\<exists>iface sn more. split_whitespace (trim line) = mp_dst m # mp_next_hop m # iface # sn # decimal (mp_metric m) # more) \<and>
          mp_metric m \<le> 4294967295)"

lemma mpath_dump_reads:
  assumes "list_all2 mpath_line (lines dump) rows"
  shows "parse_mpath_dump dump = List.map_filter (\<lambda>r. r) rows"
proof -
  let ?f = "\<lambda>line. let trimmed = trim line
         in if trimmed = [] \<or> starts_with ''DEST'' trimmed then None
            else (let row = split_whitespace trimmed
                  in if length row < 5 then None
                     else case parse_u32 (row ! 4) of
                            None \<Rightarrow> None
                          | Some metric \<Rightarrow> Some \<lparr>mp_dst = row ! 0, mp_next_hop = row ! 1, mp_metric = metric\<rparr>)"
  have f: "?f l = r" if "mpath_line l r" for l r
    using that by (cases r) (auto simp: mpath_line_def parse_u32_def parse_uint_decimal)
  have "List.map_filter ?f ls = List.map_filter (\<lambda>r. r) rs" if "list_all2 mpath_line ls rs" for ls rs
    using that by (induction rule: list_all2_induct) (simp_all add: List.map_filter_simps f split: option.splits)
  then show ?thesis using assms by (simp add: parse_mpath_dump_def)
qed

section \<open>Properties\<close>

text \<open>The radio report of a node is what \<open>iw\<close> printed: when \<open>iw\<close> lists the stations and the path table in its format,
  one round of the telemetry loop stores, and the front desk answers on \<open>/api/radio\<close> with, the encoding of a snapshot
  that has exactly these stations with their signal, idle time and throughput, and exactly these paths.\<close>

theorem radio_report_served:
  assumes dev: "run_iw iw [''dev''] = Some dev" "parse_mesh_iface dev = Some mesh_if"
    and info: "run_iw iw [''dev'', mesh_if, ''info''] = Some info" "parse_iface_info info = Some facts"
    and stations: "run_iw iw [''dev'', mesh_if, ''station'', ''dump''] = Some sdump"
      "lines sdump = concat (map (\<lambda>(heading, st, ls). heading # ls) blocks)" "\<forall>b\<in>set blocks. station_block parse_f64 b"
    and mpaths: "run_iw iw [''dev'', mesh_if, ''mpath'', ''dump''] = Some mdump" "list_all2 mpath_line (lines mdump) rows"
    and snapshot: "snapshot = \<lparr>rs_version = 1, rs_backhaul_addr = show_ipv4 backhaul_ip, rs_mesh_if = mesh_if,
      rs_mesh_mac = ii_mesh_mac facts, rs_channel = ii_channel facts, rs_freq_mhz = ii_freq_mhz facts,
      rs_collected_at_unix = now, rs_stations = map (\<lambda>(heading, st, ls). st) blocks,
      rs_mpaths = List.map_filter (\<lambda>r. r) rows\<rparr>"
    and encoded: "encode snapshot = Some bytes" "is_utf8 env bytes" and io: "io_ok disk"
    and desk: "hs_files st = radio_tick encode disk iw parse_f64 zero directory_file backhaul_ip now fs"
      "hc_radio_file cfg = with_file_name directory_file ''radio.json''"
    and request: "hr_method req = ''GET''" "hr_url req = ''/api/radio''" "\<not> read_fails (hr_io req) (hc_radio_file cfg)"
      "hr_mtime req (hc_radio_file cfg) \<noteq> cf_mtime (hs_radio st)"
  shows "snd (route env cfg req st) =
    \<lparr>rr_status = 200, rr_content_type = ''application/json'', rr_body = bytes_str bytes, rr_cors = True\<rparr>"
proof -
  have "collect_radio iw parse_f64 zero (show_ipv4 backhaul_ip) now = Some snapshot"
    by (simp add: collect_radio_def dev info stations mpaths station_dump_reads[OF stations(2,3)] mpath_dump_reads[OF mpaths(2)]
        snapshot RADIO_SCHEMA_VERSION_def)
  then have stored: "hs_files st (hc_radio_file cfg) = Some bytes"
    unfolding desk radio_tick_def by (simp add: persist_radio_def persist_state_ok[of disk encode snapshot bytes, OF io encoded(1)])
  have "snd (radio_handler env cfg req st) = response_json 200 (bytes_str bytes)"
    using stored request(3,4) encoded(2) by (simp add: radio_handler_def read_cached_def Let_def)
  then show ?thesis
    using request(1,2) by (simp add: route_def response_json_def starts_with_def)
qed

text \<open>The output of a deployed node, from the tests of \<open>radio.rs\<close>, shortened to one station.\<close>

definition unlines :: "string list \<Rightarrow> string" where
  "unlines ls = concat (map (\<lambda>l. l @ [CHR 0x0A]) ls)"

definition iw_dev_lines :: "string list" where
  "iw_dev_lines = [''phy#1'', CHR 0x09 # ''Interface phy1-mesh0'', CHR 0x09 # CHR 0x09 # ''type mesh point'']"

definition iw_info_lines :: "string list" where
  "iw_info_lines = [''Interface phy1-mesh0'', CHR 0x09 # ''addr 82:af:ca:e7:ba:9d'', CHR 0x09 # ''channel 36 (5180 MHz)'']"

definition iw_station_heading :: string where
  "iw_station_heading = ''Station 82:af:ca:e7:bd:01 (on phy1-mesh0)''"

definition iw_station_lines :: "string list" where
  "iw_station_lines =
     [CHR 0x09 # ''inactive time:'' @ CHR 0x09 # ''50 ms'', CHR 0x09 # ''signal avg:'' @ CHR 0x09 # ''-93 [-95, -96] dBm'',
      CHR 0x09 # ''expected throughput:'' @ CHR 0x09 # ''63.15Mbps'', CHR 0x09 # ''DTIM period:'' @ CHR 0x09 # ''2'']"

definition iw_station :: "nat Station" where
  "iw_station = \<lparr>st_mac = ''82:af:ca:e7:bd:01'', signal_dbm = - 93, expected_throughput_mbps = 6315, inactive_ms = 50\<rparr>"

definition iw_mpath_row :: string where
  "iw_mpath_row = ''82:af:ca:e7:bd:01 82:af:ca:d9:85:af phy1-mesh0'' @ CHR 0x09 # ''1268'' @ CHR 0x09 # ''52'' @ CHR 0x09 # ''0''"

definition iw_mpath :: Mpath where
  "iw_mpath = \<lparr>mp_dst = ''82:af:ca:e7:bd:01'', mp_next_hop = ''82:af:ca:d9:85:af'', mp_metric = 52\<rparr>"

lemma lines_of_unlines:
  assumes "\<forall>l\<in>set ls. CHR 0x0A \<notin> set l \<and> CHR 0x0D \<notin> set l"
  shows "lines (unlines ls) = ls"
  unfolding unlines_def by (rule lines_unlines) (use assms last_in_set in fastforce)

text \<open>Trimming and splitting the literal lines.\<close>

lemma blank_bytes: "byte CHR 0x09 \<in> {9, 10, 13, 32}" "byte CHR '' '' \<in> {9, 10, 13, 32}"
  by (simp_all add: byte_def)

lemmas trim_blank = trim_indent[OF blank_bytes(1)] trim_indent[OF blank_bytes(2)]

lemmas words_blank = words_from_white[OF blank_bytes(1)] words_from_white[OF blank_bytes(2)]

lemma words_char: "32 < byte c \<Longrightarrow> byte c < 128 \<Longrightarrow> words_from cur (c # s) = words_from (cur @ [c]) s"
  using words_from_visible[of "[c]" cur s] by simp

lemma iw_trims:
  "trim ''phy#1'' = ''phy#1''" "trim ''Interface phy1-mesh0'' = ''Interface phy1-mesh0''" "trim ''phy1-mesh0'' = ''phy1-mesh0''"
  "trim ''type mesh point'' = ''type mesh point''" "trim ''addr 82:af:ca:e7:ba:9d'' = ''addr 82:af:ca:e7:ba:9d''"
  "trim ''82:af:ca:e7:ba:9d'' = ''82:af:ca:e7:ba:9d''" "trim ''channel 36 (5180 MHz)'' = ''channel 36 (5180 MHz)''"
  by (rule trim_id; simp add: byte_def)+

lemma iw_dev_reads: "parse_mesh_iface (unlines iw_dev_lines) = Some ''phy1-mesh0''"
proof -
  have l: "lines (unlines iw_dev_lines) = iw_dev_lines" by (rule lines_of_unlines) (simp add: iw_dev_lines_def)
  show ?thesis
    unfolding parse_mesh_iface_def l by (simp add: iw_dev_lines_def trim_blank iw_trims strip_prefix_def starts_with_def)
qed

lemma iw_info_reads:
  "parse_iface_info (unlines iw_info_lines) = Some \<lparr>ii_mesh_mac = ''82:af:ca:e7:ba:9d'', ii_channel = 36, ii_freq_mhz = 5180\<rparr>"
proof -
  have l: "lines (unlines iw_info_lines) = iw_info_lines" by (rule lines_of_unlines) (simp add: iw_info_lines_def)
  have w: "split_whitespace ''36 (5180 MHz)'' = [''36'', ''(5180'', ''MHz)'']"
    by (simp add: split_whitespace_def words_blank words_char byte_def)
  show ?thesis
    unfolding parse_iface_info_def l
    by (simp add: iw_info_lines_def iface_line_def trim_blank iw_trims strip_prefix_def starts_with_def w parse_u32_def parse_uint_def
        digit_value_def is_ascii_digit_def byte_def)
qed

lemma iw_station_reads: "station_block (\<lambda>s. if s = ''63.15'' then Some 6315 else None) (iw_station_heading, iw_station, iw_station_lines)"
proof -
  have h: "trim iw_station_heading = iw_station_heading" by (rule trim_id) (simp_all add: iw_station_heading_def byte_def)
  have hw: "split_whitespace ''82:af:ca:e7:bd:01 (on phy1-mesh0)'' = [''82:af:ca:e7:bd:01'', ''(on'', ''phy1-mesh0)'']"
    by (simp add: split_whitespace_def words_blank words_char byte_def)
  have t: "trim (''inactive time:'' @ CHR 0x09 # ''50 ms'') = ''inactive time:'' @ CHR 0x09 # ''50 ms''"
    "trim (''signal avg:'' @ CHR 0x09 # ''-93 [-95, -96] dBm'') = ''signal avg:'' @ CHR 0x09 # ''-93 [-95, -96] dBm''"
    "trim (''expected throughput:'' @ CHR 0x09 # ''63.15Mbps'') = ''expected throughput:'' @ CHR 0x09 # ''63.15Mbps''"
    "trim (''DTIM period:'' @ CHR 0x09 # ''2'') = ''DTIM period:'' @ CHR 0x09 # ''2''" "trim ''63.15Mbps'' = ''63.15Mbps''"
    by (rule trim_id; simp add: byte_def)+
  have w: "split_whitespace (CHR 0x09 # ''50 ms'') = [''50'', ''ms'']"
    "split_whitespace (CHR 0x09 # ''-93 [-95, -96] dBm'') = [''-93'', ''[-95,'', ''-96]'', ''dBm'']"
    by (simp_all add: split_whitespace_def words_blank words_char byte_def)
  have v: "first_word parse_i32 (CHR 0x09 # ''-93 [-95, -96] dBm'') = Some (- 93)"
    "first_word parse_u64 (CHR 0x09 # ''50 ms'') = Some 50" "throughput_text (CHR 0x09 # ''63.15Mbps'') = ''63.15''"
    by (simp_all add: first_word_def w throughput_text_def trim_blank t parse_i32_def parse_u64_def parse_uint_def digit_value_def
        is_ascii_digit_def byte_def)
  have "station_lines (\<lambda>s. if s = ''63.15'' then Some 6315 else None) iw_station iw_station_lines"
    unfolding station_lines_def iw_station_lines_def says_def
    by (simp add: trim_blank t[simplified] strip_prefix_def starts_with_def v iw_station_def)
  then show ?thesis
    using h hw by (simp add: station_block_def says_def iw_station_heading_def strip_prefix_def starts_with_def iw_station_def)
qed

lemma iw_mpath_reads: "mpath_line ''DEST ADDR'' None" "mpath_line iw_mpath_row (Some iw_mpath)"
proof -
  have "trim ''DEST ADDR'' = ''DEST ADDR''" by (rule trim_id) (simp_all add: byte_def)
  then show "mpath_line ''DEST ADDR'' None" by (simp add: mpath_line_def starts_with_def)
  have t: "trim iw_mpath_row = iw_mpath_row" by (rule trim_id) (simp_all add: iw_mpath_row_def byte_def)
  have w: "split_whitespace iw_mpath_row =
      [''82:af:ca:e7:bd:01'', ''82:af:ca:d9:85:af'', ''phy1-mesh0'', ''1268'', ''52'', ''0'']"
    by (simp add: iw_mpath_row_def split_whitespace_def words_blank words_char byte_def)
  have "decimal 52 = ''52''" by code_simp
  then show "mpath_line iw_mpath_row (Some iw_mpath)"
    by (simp add: mpath_line_def t w iw_mpath_def) (simp add: iw_mpath_row_def starts_with_def)
qed

definition sample_iw :: "string list \<Rightarrow> (bool \<times> string option) option" where
  "sample_iw args = Some (True, Some
     (if args = [''dev''] then unlines iw_dev_lines
      else if last args = ''info'' then unlines iw_info_lines
      else if args ! 2 = ''station'' then unlines (iw_station_heading # iw_station_lines)
      else unlines [''DEST ADDR'', iw_mpath_row]))"

definition working_disk :: IoEnv where
  "working_disk = \<lparr>mkdir_fails = \<lambda>_. False, write_outcome = \<lambda>_. WroteAll, rename_fails = \<lambda>_ _. False, read_fails = \<lambda>_. False\<rparr>"

lemma working_disk_ok: "io_ok working_disk"
  by (simp add: io_ok_def working_disk_def)

text \<open>Example.\<close>

theorem radio_report_served_witness:
  "snd (route sample_desk (sample_desk_config\<lparr>hc_radio_file := [''run'', ''radio.json'']\<rparr>)
     ((sample_request ''GET'' ''/api/radio'' [] 5)\<lparr>hr_io := working_disk, hr_mtime := \<lambda>_. Some 7\<rparr>)
     (sample_desk_state\<lparr>hs_radio := \<lparr>cf_mtime = None, cf_body = None\<rparr>,
        hs_files := radio_tick (\<lambda>snapshot. Some [of_nat (length (rs_stations snapshot)), 43]) working_disk sample_iw
          (\<lambda>s. if s = ''63.15'' then Some (6315 :: nat) else None) 0 [''run'', ''directory.json''] 0x0AFE0001 9 Map.empty\<rparr>)) =
   \<lparr>rr_status = 200, rr_content_type = ''application/json'', rr_body = bytes_str [1, 43], rr_cors = True\<rparr>"
proof -
  let ?p = "\<lambda>s. if s = ''63.15'' then Some (6315 :: nat) else None"
  have l: "lines (unlines (iw_station_heading # iw_station_lines)) = iw_station_heading # iw_station_lines"
    "lines (unlines [''DEST ADDR'', iw_mpath_row]) = [''DEST ADDR'', iw_mpath_row]"
    by (rule lines_of_unlines; simp add: iw_station_heading_def iw_station_lines_def iw_mpath_row_def)+
  have rows: "list_all2 mpath_line (lines (unlines [''DEST ADDR'', iw_mpath_row])) [None, Some iw_mpath]"
    unfolding l(2) using iw_mpath_reads by simp
  have iw: "run_iw sample_iw [''dev''] = Some (unlines iw_dev_lines)"
    "run_iw sample_iw [''dev'', ''phy1-mesh0'', ''info''] = Some (unlines iw_info_lines)"
    "run_iw sample_iw [''dev'', ''phy1-mesh0'', ''station'', ''dump''] = Some (unlines (iw_station_heading # iw_station_lines))"
    "run_iw sample_iw [''dev'', ''phy1-mesh0'', ''mpath'', ''dump''] = Some (unlines [''DEST ADDR'', iw_mpath_row])"
    by (simp_all add: run_iw_def sample_iw_def)
  have ls: "lines (unlines (iw_station_heading # iw_station_lines)) =
      concat (map (\<lambda>(heading, st, ls). heading # ls) [(iw_station_heading, iw_station, iw_station_lines)])"
    by (simp add: l(1))
  have blk: "\<forall>b\<in>set [(iw_station_heading, iw_station, iw_station_lines)]. station_block ?p b" using iw_station_reads by simp
  show ?thesis
    by (rule radio_report_served[where directory_file = "[''run'', ''directory.json'']", OF iw(1) iw_dev_reads iw(2) iw_info_reads iw(3) ls blk iw(4) rows refl _ _ working_disk_ok])
      (simp_all add: sample_request_def sample_desk_def sample_desk_config_def sample_desk_state_def with_file_name_def working_disk_def)
qed

end
