(* ===== verification/Spec2Isabelle.thy ===== *)
theory Spec2Isabelle
  imports Diagnostics Node_Types Control_Api Babel Radio
begin

text \<open>
  Lightning Mesh: a verification library for the Rust workspace under \<^verbatim>\<open>src/crates\<close>.

  \<^bold>\<open>The program.\<close> Every router of the mesh runs the daemon \<open>mjolnir-meshd\<close> (crate \<open>mjolnir-mesh\<close>). Daemons gossip
  small records to each other and merge what they receive into replicated books: subnet claims, peer addresses, node
  names, users, services and leased names. From the books a daemon derives what its node does: the client subnet it
  serves, the answers of its DNS responder, the configuration of its routing daemon and host, the packets it forwards, and
  the files its front desk \<open>mjolnir-hello\<close> (crate \<open>mjolnir-hello\<close>) shows to clients. The front desk in turn writes
  spool files that the daemon ingests. An operator deploys routers with \<open>meshctl\<close> (crate \<open>mjolnir-meshctl\<close>), which only
  talks to them over SSH.

  \<^bold>\<open>Layout.\<close> One theory per component, over a prelude.

  \<^item> \<open>Mesh_Prelude\<close>, \<open>Rust_Strings\<close>, \<open>Net_Text\<close>: what the code uses of Rust's standard library. A \<open>String\<close> is its byte
    list, an integer a word of its width, a \<open>BTreeMap\<close> a sorted association list, a \<open>HashMap\<close> an association list with
    distinct keys. The locale \<open>kv_map\<close> is the interface of both maps.
  \<^item> \<open>Hlc\<close>, \<open>Crdt_Records\<close>, \<open>Crdt_Merge\<close> (\<^verbatim>\<open>crdt/hlc.rs, merge.rs\<close> and the record files): the clock with its \<open>linorder\<close>
    instance, one record per struct, the gossip enum, one definition per merge function.
  \<^item> \<open>Lanes\<close> (\<open>apply_*_message\<close> of \<^verbatim>\<open>bin/mjolnir-meshd.rs\<close>): the books under gossip. The locale \<open>lane\<close> is what a book promises
    to the gossip layer (a message offers at most one entry under one key, which is kept exactly when it beats the one held);
    from it follow the convergence results, and every lane of the daemon is an interpretation.
  \<^item> \<open>Liveness\<close> (\<^verbatim>\<open>crdt/egress.rs, liveness.rs\<close>), \<open>Services\<close> (\<^verbatim>\<open>crdt/service_apply.rs\<close>), \<open>Names\<close> and \<open>Leased_Names\<close>
    (\<^verbatim>\<open>crdt/service.rs, leased_name.rs\<close>, \<open>ingest_name_claim_spool\<close>): internet egress, beacons, the owner-bound service
    directory with tombstones and staleness, device names, key-owned leases.
  \<^item> \<open>Alloc\<close> (\<^verbatim>\<open>alloc.rs, claim_cooldown.rs\<close>), \<open>Link\<close> (\<^verbatim>\<open>tun/link.rs\<close>), \<open>Claims\<close> and \<open>Claim_Loop\<close> (\<open>claim_manager\<close> and
    its helpers): the slot walk and its fallback, derived addresses, the choice and publication of a client subnet, and the
    manager as a task that interleaves with the gossip task, action by action: an \<^theory_text>\<open>inductive\<close> step relation whose invariant
    ties the address on the client interface to the claim held; run without interruption the actions are \<open>claim_and_publish\<close>.
  \<^item> \<open>Persist\<close> (the state files), \<open>Daemon\<close> (\<open>GossipSync::run\<close> and the message handler of \<open>run_mesh\<close> over one record
    \<open>Node\<close> of all books), \<open>Anti_Entropy\<close> (\<open>anti_entropy_loop\<close>), \<open>Bootstrap\<close> (\<^verbatim>\<open>roster.rs, bootstrap.rs\<close> and the rejoin
    and redial loops).
  \<^item> \<open>Dns\<close> (\<^verbatim>\<open>dns_responder.rs\<close>), \<open>Directory\<close> (\<open>directory.json\<close>, the control API's snapshot, seed file and identity spool),
    \<open>Control_Api\<close> (the hand-written HTTP server and its client).
  \<^item> \<open>Overlay\<close> (\<^verbatim>\<open>tun/fib.rs, mcast.rs\<close>, the connection manager and the router tasks), \<open>Babel\<close> (\<^verbatim>\<open>babel/config.rs\<close> and both
    reconcilers), \<open>Host_Config\<close> (addresses and routes over netlink, the UCI reconcilers), \<open>Radio\<close> (\<^verbatim>\<open>radio.rs\<close>).
  \<^item> \<open>Tunnels\<close> (\<^verbatim>\<open>tun/iface.rs, encap.rs, overlay.rs\<close>, \<open>serve_tunnel\<close>, \<open>serve_overlay_conn\<close>, the gossip transport): TUN devices, the
    registry of per-peer tunnels with the encapsulation tasks that own the devices, and the inbound queue of the overlay, the latter
    two as \<^theory_text>\<open>inductive\<close> step relations over all interleavings, and the encapsulation loops.
  \<^item> \<open>Node_Status\<close> (the secret file, UCI options, peer arguments, the \<open>status\<close> command), \<open>Startup\<close> (\<open>main\<close>, \<open>build_endpoint\<close>,
    \<open>run_mesh\<close>, the name-claim sweep), \<open>Diagnostics\<close> (\<open>listen\<close>, \<open>connect\<close>, \<open>tun-test\<close>, \<open>tun-connect\<close>).
  \<^item> \<open>Node_Types\<close>: the steps of all tasks of a daemon on its books, the well-formedness they keep, and that no record of another
    node goes back.
  \<^item> \<open>Hello\<close> (\<^verbatim>\<open>mjolnir-hello/src/routes.rs, main.rs\<close>): every route, the challenge store, both ceremonies.
  \<^item> \<open>Meshctl\<close> (\<^verbatim>\<open>inventory.rs, routeros.rs, plan.rs, apply.rs\<close>) and \<open>Meshctl_Deploy\<close> (\<^verbatim>\<open>ssh.rs, deploy.rs, main.rs\<close>).
  \<^item> This theory: convergence of whole daemons.

  \<^bold>\<open>How code becomes definitions.\<close> A struct is a record (field names carry a prefix, because they are global), an enum a
  datatype, a function a definition of the same name. Shared state behind a lock is passed explicitly; a handler returns the
  new state and the list of its effects (broadcasts, file writes, commands) in the order of the code, and \<open>run_effects\<close> and its
  relatives execute them. A \<open>Result\<close> is a sum, \<open>Inl\<close> the error with the context chain; a panic is an \<open>Inl\<close> of its
  own. A handler of one message or request is a function of the state. Where tasks interleave (\<open>Claim_Loop\<close>, \<open>Tunnels\<close>,
  \<open>Node_Types\<close>) a step relation has one step for each stretch between two awaits, or for each time a lock is held. A tick of
  anti-entropy is one function; \<open>Node_Types\<close> has its parts as steps of their own.

  \<^bold>\<open>Parameters.\<close> Code outside the repository is an argument: postcard, \<open>serde_json\<close>, \<open>simple_dns\<close>, \<open>ipnet\<close> (with its documented
  laws as the locale \<open>ipnet_laws\<close>), BLAKE3, Ed25519, the text encodings, iroh, the TOML reader, the kernel (TUN devices, netlink, sysfs), \<open>iw\<close>, \<open>uci\<close>, the service manager,
  RouterOS, processes, clocks and random bytes. Where a result needs a law of such a parameter it is a named hypothesis
  (\<open>routeros_ok\<close> and \<open>container_ok\<close>, which say when a router accepts a command and what takes time, \<open>kernel_ok\<close>, \<open>shell_ok\<close>, \<open>tun_kernel_ok\<close>, \<open>codec_ok\<close>, \<open>clock_ok\<close>, \<open>io_ok\<close> and others) and a witness instantiates it with a concrete function.

  \<^bold>\<open>What is shown.\<close>

  \<^item> Replication: two daemons that have heard the same records, in any order and any number of times, agree on the books
    under a stamping discipline and without retractions (\<open>mesh_converges\<close> and the theorems of the single lanes; counterexamples show what the
    discipline is for); a late joiner learns from one round of anti-entropy what that round announces; a vacated or owned name is not
    taken over; a restart restores what was written and a crash during a write loses none; records of other nodes never go back
    whatever the tasks do.
  \<^item> Allocation: the slot walk is correct and ends, the fallback finds the largest free block, a claim is published, reaches
    the kernel and the DNS gateway, and is withdrawn with the claim.
  \<^item> Serving: DNS answers are what the books say, the directory lists exactly what resolves, an HTTP exchange round-trips, a
    challenge is used at most once, an accepted claim to a free name is announced by the next sweep.
  \<^item> Forwarding: the table finds the longest match, packets go to exactly the right connections and arrive in order; a
    registered tunnel is a device that is up as long as an encapsulation task of it runs; the routing and host reconcilers settle.
  \<^item> Startup: a node keeps its identity, what each failure of \<open>run_mesh\<close> leaves behind, LAN peers dial the address
    the other listens on where their claim stores agree, and \<open>status\<close> reports what the daemon runs with.
  \<^item> Operation: \<open>meshctl apply\<close> converges and touches nothing foreign, \<open>deploy\<close> ends with one running container under a
    stable identity, and it always ends.
  \<^item> Where the code does not do what it says, a theorem of the component's theory exhibits the input.

  \<^bold>\<open>Loops and fuel.\<close> Loops over data are recursive functions with a termination proof. Loops of tasks are folds over the
  events they receive, or step relations. Only the polling loops of \<open>Meshctl_Deploy\<close> take fuel, one unit per look; the
  locale \<open>polling_loop\<close> shows that the deadline bounds the looks (46 for 90 seconds at 2 seconds each).

  \<^bold>\<open>Not modelled.\<close> The inside of the transport (iroh endpoints, QUIC, the gossip swarm) and of the kernel, which are libraries and
  system calls and appear as parameters; clap's argument parsing, the panic hook, logging and the path loggers; iroh's protocol
  router, which calls the handlers that are modelled; \<^verbatim>\<open>buw-overlay-spike.rs\<close>, an experiment over \<open>spawn_overlay\<close>, whose
  reader is modelled; the tests. Lock poisoning is left out.
\<close>

section \<open>Convergence of the mesh\<close>

text \<open>What two daemons have been told, together with what they started from, is the same in every
  lane. The address and node-name lanes do not accept news about the daemon itself, so they are
  compared at the other nodes only.\<close>

definition shared_knowledge ::
  "string \<Rightarrow> Node \<Rightarrow> GossipMessage list \<Rightarrow> string \<Rightarrow> Node \<Rightarrow> GossipMessage list \<Rightarrow> bool" where
  "shared_knowledge a n ms b m ms' \<longleftrightarrow>
     known bt_get user_payload (nd_user_book n) ms = known bt_get user_payload (nd_user_book m) ms' \<and>
     known bt_get service_payload (nd_services n) ms = known bt_get service_payload (nd_services m) ms' \<and>
     known bt_get leased_payload (nd_leased n) ms = known bt_get leased_payload (nd_leased m) ms' \<and>
     known book_get service_v2_payload (nd_services_v2 n) ms =
       known book_get service_v2_payload (nd_services_v2 m) ms' \<and>
     known hm_get subnet_payload (nd_claims n) ms = known hm_get subnet_payload (nd_claims m) ms' \<and>
     (\<forall>k. k \<noteq> a \<longrightarrow> k \<noteq> b \<longrightarrow>
        known bt_get (peer_addr_payload a) (nd_addr_book n) ms k =
          known bt_get (peer_addr_payload b) (nd_addr_book m) ms' k \<and>
        known bt_get (node_name_payload a) (nd_node_names n) ms k =
          known bt_get (node_name_payload b) (nd_node_names m) ms' k)"

text \<open>The stamping discipline under which the lanes are total orders, and no retractions.\<close>

definition disciplined :: "string \<Rightarrow> Node \<Rightarrow> GossipMessage list \<Rightarrow> bool" where
  "disciplined me n ms \<longleftrightarrow>
     unique_stamps bt_get (peer_addr_payload me) pa_announced_at (nd_addr_book n) ms \<and>
     unique_stamps bt_get (node_name_payload me) nn_announced_at (nd_node_names n) ms \<and>
     unique_stamps bt_get user_payload ue_updated_at (nd_user_book n) ms \<and>
     unique_stamps bt_get service_payload se_updated_at (nd_services n) ms \<and>
     (\<forall>k. inj_on sc_owner_node_id (known hm_get subnet_payload (nd_claims n) ms k)) \<and>
     (\<forall>k. stable_claims (known book_get service_v2_payload (nd_services_v2 n) ms k)) \<and>
     (\<forall>k. overlapping_leases (known bt_get leased_payload (nd_leased n) ms k)) \<and>
     list_all not_release ms \<and> list_all not_unpublish ms"

definition converging_start :: "Node \<Rightarrow> bool" where
  "converging_start n \<longleftrightarrow> books_ok n \<and> bt_ok (nd_leased n) \<and> untombstoned (nd_services_v2 n)"

text \<open>Each book of a run holds the best entry of what its lane knew, so equal knowledge gives equal
  books.\<close>

lemma run_best_entries:
  assumes "gossip_task network decode me lk n rs = ((n', log), end)" and "\<nexists>code. end = RunExited code"
    and ms: "ms = map snd (delivered decode rs)"
    and ok: "converging_start n" and d: "disciplined me n ms"
  shows "best_of (\<lambda>e x. pa_announced_at x < pa_announced_at e)
           (known bt_get (peer_addr_payload me) (nd_addr_book n) ms k) (bt_get (nd_addr_book n') k)"
    and "best_of (\<lambda>e x. nn_announced_at x < nn_announced_at e)
           (known bt_get (node_name_payload me) (nd_node_names n) ms k) (bt_get (nd_node_names n') k)"
    and "best_of (\<lambda>e x. ue_updated_at x < ue_updated_at e)
           (known bt_get user_payload (nd_user_book n) ms k) (bt_get (nd_user_book n') k)"
    and "best_of (\<lambda>e x. se_updated_at x < se_updated_at e)
           (known bt_get service_payload (nd_services n) ms k) (bt_get (nd_services n') k)"
    and "best_of subnet_beats (known hm_get subnet_payload (nd_claims n) ms k) (hm_get (nd_claims n') k)"
    and "best_of service_beats (known book_get service_v2_payload (nd_services_v2 n) ms k)
           (book_get (nd_services_v2 n') k)"
    and "best_of leased_beats (known bt_get leased_payload (nd_leased n) ms k) (bt_get (nd_leased n') k)"
    and "bt_ok (nd_user_book n')" "bt_ok (nd_services n')" "bt_ok (nd_leased n')" "svc_ok (nd_services_v2 n')"
proof -
  obtain qs rest where qs: "delivered decode rs = qs @ rest" "rest = []"
    "(n', log) = foldl (\<lambda>s (t, g). fst (on_message network me lk t s g)) (n, []) qs"
    using sync_run_delivers[OF assms(1)[unfolded gossip_task_def]] assms(2) by (cases "end") auto
  then have n': "n' = fst (foldl (\<lambda>s (t, g). fst (on_message network me lk t s g)) (n, []) (delivered decode rs))"
    by (metis append_Nil2 fst_conv)
  note lanes = on_message_fold[of network me lk "(n, [])" "delivered decode rs", folded n' ms, simplified]
  have all: "list_all (\<lambda>_. True) ms" by (simp add: list_all_iff)
  note ok' = ok[unfolded converging_start_def books_ok_def]
  note d' = d[unfolded disciplined_def unique_stamps_def]
  show "best_of (\<lambda>e x. pa_announced_at x < pa_announced_at e)
           (known bt_get (peer_addr_payload me) (nd_addr_book n) ms k) (bt_get (nd_addr_book n') k)"
    unfolding lanes by (rule pa.run_best) (use ok' d' all in \<open>simp_all add: pa.stamps_strict_total\<close>)
  show "best_of (\<lambda>e x. nn_announced_at x < nn_announced_at e)
           (known bt_get (node_name_payload me) (nd_node_names n) ms k) (bt_get (nd_node_names n') k)"
    unfolding lanes by (rule nn.run_best) (use ok' d' all in \<open>simp_all add: nn.stamps_strict_total\<close>)
  show "best_of (\<lambda>e x. ue_updated_at x < ue_updated_at e)
           (known bt_get user_payload (nd_user_book n) ms k) (bt_get (nd_user_book n') k)"
    unfolding lanes by (rule ue.run_best) (use ok' d' all in \<open>simp_all add: ue.stamps_strict_total\<close>)
  show "best_of (\<lambda>e x. se_updated_at x < se_updated_at e)
           (known bt_get service_payload (nd_services n) ms k) (bt_get (nd_services n') k)"
    unfolding lanes by (rule se.run_best) (use ok' d' all in \<open>simp_all add: se.stamps_strict_total\<close>)
  show "best_of subnet_beats (known hm_get subnet_payload (nd_claims n) ms k) (hm_get (nd_claims n') k)"
    unfolding lanes by (rule sc.run_best) (use ok' d' in \<open>simp_all add: owners_strict_total\<close>)
  show "best_of service_beats (known book_get service_v2_payload (nd_services_v2 n) ms k)
           (book_get (nd_services_v2 n') k)"
    unfolding lanes by (rule sv.run_best) (use ok' d' in \<open>simp_all add: stable_strict_total\<close>)
  show "best_of leased_beats (known bt_get leased_payload (nd_leased n) ms k) (bt_get (nd_leased n') k)"
    unfolding lanes by (rule lz.run_best) (use ok' d' all in \<open>simp_all add: overlapping_strict_total\<close>)
  show "bt_ok (nd_user_book n')" "bt_ok (nd_services n')"
    unfolding lanes using ok' by (simp_all add: ue.lww_run_ok se.lww_run_ok)
  show "bt_ok (nd_leased n')" unfolding lanes using ok' all by (simp add: lz.run_ok)
  show "svc_ok (nd_services_v2 n')"
    unfolding lanes using ok' by (simp add: service_gossip_run_ok untombstoned_def)
qed

text \<open>C1. The mesh converges under the stamping discipline. Two daemons with their own ids run the gossip
  task over their own traffic, in any order and with duplicates and undecodable payloads. Suppose that
  neither run ends in a process exit, that neither daemon starts with tombstones, and that neither
  stream holds a release or an unpublication; that in what each knows, start and stream together,
  no two records of a key differ with the same stamp, an owner has one claim of a subnet, an owner
  keeps the first-claim time of a service, and the leases of a name overlap and
  differ in their first claim where they differ in the key (\<open>disciplined\<close>);
  and that both know the same records. Then they end with the same user directory, service
  directories, leased names, the same claimant of every subnet, and the same address and name of
  every other node. Without the discipline it fails, as \<open>subnet_restamp_diverges\<close>,
  \<open>service_refresh_diverges\<close> and \<open>lapsed_lease_order_dependent\<close> show.\<close>

theorem mesh_converges:
  assumes run: "gossip_task network decode a lk n rs = ((n', log), end)" "\<nexists>code. end = RunExited code"
    and run': "gossip_task network decode b lk' m rs' = ((m', log'), end')" "\<nexists>code. end' = RunExited code"
    and ok: "converging_start n" "converging_start m"
    and d: "disciplined a n (map snd (delivered decode rs))" "disciplined b m (map snd (delivered decode rs'))"
    and same: "shared_knowledge a n (map snd (delivered decode rs)) b m (map snd (delivered decode rs'))"
  shows "nd_user_book n' = nd_user_book m' \<and> nd_services n' = nd_services m' \<and>
    nd_leased n' = nd_leased m' \<and> book (nd_services_v2 n') = book (nd_services_v2 m') \<and>
    (\<forall>k. hm_get (nd_claims n') k = hm_get (nd_claims m') k) \<and>
    (\<forall>k. k \<noteq> a \<longrightarrow> k \<noteq> b \<longrightarrow>
       bt_get (nd_addr_book n') k = bt_get (nd_addr_book m') k \<and>
       bt_get (nd_node_names n') k = bt_get (nd_node_names m') k)"
proof -
  note l = run_best_entries[OF run refl ok(1) d(1)]
  note r = run_best_entries[OF run' refl ok(2) d(2)]
  note s = same[unfolded shared_knowledge_def]
  note t = d(1)[unfolded disciplined_def unique_stamps_def]
  have "nd_user_book n' = nd_user_book m'"
    by (rule bt_eqI[OF l(8) r(8)])
      (rule best_of_unique[OF _ l(3)], use r(3) s t in \<open>simp_all add: ue.stamps_strict_total\<close>)
  moreover have "nd_services n' = nd_services m'"
    by (rule bt_eqI[OF l(9) r(9)])
      (rule best_of_unique[OF _ l(4)], use r(4) s t in \<open>simp_all add: se.stamps_strict_total\<close>)
  moreover have "nd_leased n' = nd_leased m'"
    by (rule bt_eqI[OF l(10) r(10)])
      (rule best_of_unique[OF _ l(7)], use r(7) s t in \<open>simp_all add: overlapping_strict_total\<close>)
  moreover have "book_get (nd_services_v2 n') k = book_get (nd_services_v2 m') k" for k
    by (rule best_of_unique[OF _ l(6)]) (use r(6) s t in \<open>simp_all add: stable_strict_total\<close>)
  then have "book (nd_services_v2 n') = book (nd_services_v2 m')"
    using l(11) r(11) by (intro bt_eqI) (simp_all add: svc_ok_def book_get_def)
  moreover have "hm_get (nd_claims n') k = hm_get (nd_claims m') k" for k
    by (rule best_of_unique[OF _ l(5)]) (use r(5) s t in \<open>simp_all add: owners_strict_total\<close>)
  moreover have "bt_get (nd_addr_book n') k = bt_get (nd_addr_book m') k"
    "bt_get (nd_node_names n') k = bt_get (nd_node_names m') k" if k: "k \<noteq> a" "k \<noteq> b" for k
  proof -
    from s k have kn: "known bt_get (peer_addr_payload b) (nd_addr_book m) (map snd (delivered decode rs')) k =
        known bt_get (peer_addr_payload a) (nd_addr_book n) (map snd (delivered decode rs)) k"
      "known bt_get (node_name_payload b) (nd_node_names m) (map snd (delivered decode rs')) k =
        known bt_get (node_name_payload a) (nd_node_names n) (map snd (delivered decode rs)) k" by metis+
    show "bt_get (nd_addr_book n') k = bt_get (nd_addr_book m') k"
      by (rule best_of_unique[OF pa.stamps_strict_total l(1) r(1)[of k, unfolded kn]]) (use t in blast)
    show "bt_get (nd_node_names n') k = bt_get (nd_node_names m') k"
      by (rule best_of_unique[OF nn.stamps_strict_total l(2) r(2)[of k, unfolded kn]]) (use t in blast)
  qed
  ultimately show ?thesis by blast
qed

text \<open>Only a subnet claim can end the process; a stream without one is handled to its end.\<close>

lemma gossip_task_waits:
  assumes "\<forall>x\<in>set rs. \<exists>p. snd x = Inr p"
    and "\<forall>x\<in>set (delivered decode rs). \<forall>c e. snd x \<noteq> SubnetClaimUpdate c e"
  shows "snd (gossip_task network decode me lk n rs) = RunWaiting"
proof -
  have "snd (sync_run decode (on_message network me lk) s rs) = RunWaiting" for s
    using assms
  proof (induction rs arbitrary: s)
    case (Cons x rest)
    obtain t p where x: "x = (t, Inr p)" using Cons.prems(1) by (metis list.set_intros(1) prod.collapse)
    show ?case
    proof (cases "decode p")
      case None
      then show ?thesis using Cons by (simp add: x)
    next
      case (Some g)
      obtain s' code where o: "on_message network me lk t s g = (s', code)" by fastforce
      have "code = None"
      proof (rule ccontr)
        assume "code \<noteq> None"
        then show False
          using o Cons.prems(2) dispatch_exit[of network me lk t "fst s" g] Some
          by (auto simp: on_message_def x split: prod.splits)
      qed
      then show ?thesis using Cons Some o by (simp add: x)
    qed
  qed simp
  then show ?thesis by (simp add: gossip_task_def)
qed

text \<open>Witness of C1: two edits of a user reach \<open>a\<close> in order, and \<open>b\<close> in the other order after an
  undecodable payload.\<close>

theorem mesh_converges_witness:
  "\<exists>n' log m' log'.
     gossip_task std_network (\<lambda>p. if p = (0 :: nat) then None else Some (UserUpdate ''ada'' (user_at ''ada'' ''Ada'' (of_nat p))))
       ''a'' False empty_node [(5, Inr 1), (6, Inr 2)] = ((n', log), RunWaiting) \<and>
     gossip_task std_network (\<lambda>p. if p = (0 :: nat) then None else Some (UserUpdate ''ada'' (user_at ''ada'' ''Ada'' (of_nat p))))
       ''b'' False empty_node [(5, Inr 0), (6, Inr 2), (7, Inr 1)] = ((m', log'), RunWaiting) \<and>
     nd_user_book n' = nd_user_book m'"
proof -
  let ?d = "\<lambda>p. if p = (0 :: nat) then None else Some (UserUpdate ''ada'' (user_at ''ada'' ''Ada'' (of_nat p)))"
  let ?rs = "[(5 :: u64, Inr 1), (6, Inr 2)]" and ?rs' = "[(5 :: u64, Inr 0), (6, Inr 2), (7, Inr 1)]"
  let ?ms = "map snd (delivered ?d ?rs)" and ?ms' = "map snd (delivered ?d ?rs')"
  have e: "snd (gossip_task std_network ?d ''a'' False empty_node ?rs) = RunWaiting"
    "snd (gossip_task std_network ?d ''b'' False empty_node ?rs') = RunWaiting"
    by (rule gossip_task_waits; simp)+
  have pair: "\<exists>u v. x = ((u, v), e)" if "snd x = e" for x :: "(Node \<times> Effect list) \<times> RunEnd" and e
    using that by (cases x) auto
  obtain n' log where g: "gossip_task std_network ?d ''a'' False empty_node ?rs = ((n', log), RunWaiting)"
    using pair[OF e(1)] by blast
  obtain m' log' where h: "gossip_task std_network ?d ''b'' False empty_node ?rs' = ((m', log'), RunWaiting)"
    using pair[OF e(2)] by blast
  have ok: "converging_start empty_node"
    by (simp add: converging_start_def books_ok_def empty_node_def untombstoned_def empty_services_def svc_ok_def map_ok)
  have k: "known bt_get user_payload [] ?ms = known bt_get user_payload [] ?ms'"
    "known bt_get user_payload [] ?ms k = (if k = ''ada'' then {user_at ''ada'' ''Ada'' 1, user_at ''ada'' ''Ada'' 2} else {})"
    "known bt_get user_payload [] ?ms' k = (if k = ''ada'' then {user_at ''ada'' ''Ada'' 1, user_at ''ada'' ''Ada'' 2} else {})" for k
    by (auto simp: known_def offered_def bt_get_def fun_eq_iff)
  have o: "known bt_get service_payload [] q k = {}" "known bt_get leased_payload [] q k = {}"
    "known book_get service_v2_payload empty_services q k = {}" "known hm_get subnet_payload [] q k = {}"
    "known bt_get (peer_addr_payload i) [] q k = {}" "known bt_get (node_name_payload i) [] q k = {}"
    if "q = ?ms \<or> q = ?ms'" for k q i
    using that by (auto simp: known_def offered_def bt_get_def hm_get_def book_get_def empty_services_def)
  have d: "disciplined i empty_node q" if q: "q = ?ms \<or> q = ?ms'" for q i
  proof -
    have "inj_on ue_updated_at (known bt_get user_payload [] q k)" for k
      using q by (elim disjE) (simp_all only: k(2,3), simp_all add: inj_on_def user_at_def)
    moreover have "list_all not_release q \<and> list_all not_unpublish q" using q by auto
    ultimately show ?thesis
      by (simp add: disciplined_def unique_stamps_def empty_node_def o[OF q] stable_claims_def overlapping_leases_def)
  qed
  have "shared_knowledge ''a'' empty_node ?ms ''b'' empty_node ?ms'"
    by (simp only: shared_knowledge_def empty_node_def Node.simps k(1) o fun_eq_iff simp_thms)
  moreover have "disciplined ''a'' empty_node ?ms" "disciplined ''b'' empty_node ?ms'"
    by (rule d, simp)+
  ultimately have "nd_user_book n' = nd_user_book m'"
    using mesh_converges[OF g _ h _ ok ok] by simp
  then show ?thesis using g h by blast
qed

end
